(* ===== verification/Fleet_Prelude.thy ===== *)
theory Fleet_Prelude
  imports Main "HOL-Library.Sublist"
begin

text \<open>
  Shared vocabulary of the development: texts, splitting and joining of lines, prefixes and
  substrings, the option and list helpers that several components use, and the collections of
  rewrite rules the component proofs draw on.

  A JavaScript text is a \<open>string\<close>, read as its UTF-8 bytes. The daemon compares text against
  ASCII characters only, and a UTF-8 byte below 128 never occurs inside the encoding of another
  character, so cutting, searching and comparing bytes agrees with cutting, searching and
  comparing the code units of the source. Where a length in code units is observable, the model
  counts them (\<open>utf16_length\<close> below).

  An instant is the number of milliseconds since the epoch; the source stores ISO-8601 texts of
  a fixed format, whose lexicographic order is the order of the instants.
\<close>

type_synonym instant = nat

named_theorems fleet_text \<open>rewrite rules for texts\<close>
named_theorems fleet_state \<open>definitions of state transitions, for case analysis\<close>

section \<open>Characters\<close>

abbreviation (input) NL :: char where "NL \<equiv> CHR 0x0A"
abbreviation (input) CR :: char where "CR \<equiv> CHR 0x0D"
abbreviation (input) TAB :: char where "TAB \<equiv> CHR 0x09"
abbreviation (input) BACKSLASH :: char where "BACKSLASH \<equiv> CHR 0x5C"
abbreviation (input) SQUOTE :: char where "SQUOTE \<equiv> CHR 0x27"
abbreviation (input) DQUOTE :: char where "DQUOTE \<equiv> CHR 0x22"
abbreviation (input) BACKTICK :: char where "BACKTICK \<equiv> CHR 0x60"

definition is_digit :: "char \<Rightarrow> bool" where
  "is_digit c \<longleftrightarrow> c \<in> set ''0123456789''"

definition lower_char :: "char \<Rightarrow> char" where
  "lower_char c = (let n = (of_char c :: int) in if 65 \<le> n \<and> n \<le> 90 then char_of (n + 32) else c)"

definition toLowerCase :: "string \<Rightarrow> string" where
  "toLowerCase s = map lower_char s"

text \<open>The number of UTF-16 code units of a text: one per encoded character, two above U+FFFF
  (the characters whose UTF-8 encoding has four bytes).\<close>

definition utf16_length :: "string \<Rightarrow> nat" where
  "utf16_length s =
     length (filter (\<lambda>c. (of_char c :: int) < 128 \<or> 192 \<le> (of_char c :: int)) s)
     + length (filter (\<lambda>c. 240 \<le> (of_char c :: int)) s)"

lemma length_filter_disjoint:
  "(\<And>x. \<not> (P x \<and> Q x)) \<Longrightarrow> length (filter P xs) + length (filter Q xs) \<le> length xs"
  by (induction xs) auto

section \<open>Prefixes, substrings and positions\<close>

fun starts_with :: "string \<Rightarrow> string \<Rightarrow> bool" where
  "starts_with s [] = True"
| "starts_with [] (p # ps) = False"
| "starts_with (c # s) (p # ps) = (c = p \<and> starts_with s ps)"

lemma starts_with_prefix: "starts_with s p \<longleftrightarrow> prefix p s"
  by (induction s p rule: starts_with.induct) auto

lemma starts_with_append [simp]: "starts_with (p @ s) p"
  by (simp add: starts_with_prefix)

lemma starts_with_refl [simp]: "starts_with s s"
  by (simp add: starts_with_prefix)

fun text_includes :: "string \<Rightarrow> string \<Rightarrow> bool" where
  "text_includes [] p = (p = [])"
| "text_includes (c # s) p = (starts_with (c # s) p \<or> text_includes s p)"

lemma includes_sublist: "text_includes s p \<longleftrightarrow> (\<exists>a b. s = a @ p @ b)"
proof (induction s)
  case Nil
  then show ?case by auto
next
  case (Cons c s)
  have "(\<exists>a b. c # s = a @ p @ b) \<longleftrightarrow> (\<exists>b. c # s = p @ b) \<or> (\<exists>a b. s = a @ p @ b)"
  proof
    assume "\<exists>a b. c # s = a @ p @ b"
    then obtain a b where "c # s = a @ p @ b" by blast
    then show "(\<exists>b. c # s = p @ b) \<or> (\<exists>a b. s = a @ p @ b)"
      by (cases a) auto
  next
    assume "(\<exists>b. c # s = p @ b) \<or> (\<exists>a b. s = a @ p @ b)"
    then show "\<exists>a b. c # s = a @ p @ b"
      by (metis append_Cons append_Nil)
  qed
  with Cons show ?case
    by (auto simp: starts_with_prefix prefix_def)
qed

lemma includes_refl [simp]: "text_includes s s"
  by (metis append_Nil append_Nil2 includes_sublist)

lemma includes_append_left: "text_includes s p \<Longrightarrow> text_includes (a @ s) p"
  by (metis append_assoc includes_sublist)

text \<open>\<open>drop_until c s\<close> is the rest of \<open>s\<close> from the first \<open>c\<close> on; \<open>take_until\<close> what comes before.\<close>

definition take_until :: "char \<Rightarrow> string \<Rightarrow> string" where
  "take_until c s = takeWhile (\<lambda>x. x \<noteq> c) s"

definition drop_until :: "char \<Rightarrow> string \<Rightarrow> string" where
  "drop_until c s = dropWhile (\<lambda>x. x \<noteq> c) s"

lemma length_drop_until [simp]: "length (drop_until c s) \<le> length s"
  by (simp add: drop_until_def length_dropWhile_le)

lemma take_drop_until [simp]: "take_until c s @ drop_until c s = s"
  by (simp add: take_until_def drop_until_def)

lemma take_until_append [simp]: "c \<notin> set s \<Longrightarrow> take_until c (s @ c # t) = s"
  by (induction s) (auto simp: take_until_def)

lemma drop_until_append [simp]: "c \<notin> set s \<Longrightarrow> drop_until c (s @ c # t) = c # t"
  by (induction s) (auto simp: drop_until_def)

lemma take_until_absent [simp]: "c \<notin> set s \<Longrightarrow> take_until c s = s"
  by (induction s) (auto simp: take_until_def)

lemma drop_until_absent [simp]: "c \<notin> set s \<Longrightarrow> drop_until c s = []"
  by (induction s) (auto simp: drop_until_def)

lemma drop_until_Nil_iff: "drop_until c s = [] \<longleftrightarrow> c \<notin> set s"
  by (auto simp: drop_until_def)

text \<open>The part of a text after the last occurrence of a character; the whole text when it has
  none: \<open>s.slice(s.lastIndexOf(c) + 1)\<close>.\<close>

fun after_last :: "char \<Rightarrow> string \<Rightarrow> string" where
  "after_last c [] = []"
| "after_last c (x # xs) =
     (if c \<in> set xs then after_last c xs else if x = c then xs else x # xs)"

lemma after_last_absent: "c \<notin> set s \<Longrightarrow> after_last c s = s"
  by (cases s) auto

lemma after_last_clean: "c \<notin> set (after_last c s)"
  by (induction s) auto

section \<open>Splitting and joining\<close>

fun split_on :: "char \<Rightarrow> string \<Rightarrow> string list" where
  "split_on c [] = [[]]"
| "split_on c (x # xs) =
     (if x = c then [] # split_on c xs
      else (case split_on c xs of [] \<Rightarrow> [[x]] | y # ys \<Rightarrow> (x # y) # ys))"

fun join_with :: "string \<Rightarrow> string list \<Rightarrow> string" where
  "join_with sep [] = []"
| "join_with sep [x] = x"
| "join_with sep (x # y # ys) = x @ sep @ join_with sep (y # ys)"

lemma split_on_not_Nil [simp]: "split_on c s \<noteq> []"
  by (cases s) (auto split: list.splits)

lemma split_on_absent [simp]: "c \<notin> set s \<Longrightarrow> split_on c s = [s]"
  by (induction s) auto

lemma split_on_append: "split_on c (x @ c # s) = split_on c x @ split_on c s"
proof (induction x)
  case (Cons a x)
  obtain y ys where "split_on c x = y # ys" by (cases "split_on c x") simp_all
  then show ?case using Cons by simp
qed simp

lemma split_on_append_sep: "c \<notin> set x \<Longrightarrow> split_on c (x @ c # s) = x # split_on c s"
  by (induction x) (auto split: list.splits)

lemma split_on_parts_clean: "x \<in> set (split_on c s) \<Longrightarrow> c \<notin> set x"
proof (induction s arbitrary: x)
  case (Cons a s)
  obtain y ys where ys: "split_on c s = y # ys"
    by (meson neq_Nil_conv split_on_not_Nil)
  with Cons show ?case
    by (auto split: if_splits)
qed simp

lemma join_split [simp]: "join_with [c] (split_on c s) = s"
proof (induction s)
  case (Cons x xs)
  obtain y ys where ys: "split_on c xs = y # ys"
    by (meson neq_Nil_conv split_on_not_Nil)
  show ?case
  proof (cases "x = c")
    case True
    with Cons ys show ?thesis by simp
  next
    case False
    with Cons ys show ?thesis by (cases ys) auto
  qed
qed simp

lemma split_join: "ls \<noteq> [] \<Longrightarrow> \<forall>l \<in> set ls. c \<notin> set l \<Longrightarrow> split_on c (join_with [c] ls) = ls"
proof (induction ls rule: induct_list012)
  case (3 x y zs)
  have "join_with [c] (x # y # zs) = x @ c # join_with [c] (y # zs)" by simp
  moreover have "c \<notin> set x" using 3 by simp
  ultimately show ?case
    using 3 by (simp add: split_on_append_sep del: join_with.simps)
qed auto

lemma join_with_append:
  "xs \<noteq> [] \<Longrightarrow> ys \<noteq> [] \<Longrightarrow> join_with sep (xs @ ys) = join_with sep xs @ sep @ join_with sep ys"
proof (induction xs rule: induct_list012)
  case (2 x)
  then show ?case by (cases ys) auto
qed auto

section \<open>Replacing\<close>

text \<open>\<open>text.replace(/\r\n?/g, '\n')\<close>.\<close>

fun normalizeLineEndings :: "string \<Rightarrow> string" where
  "normalizeLineEndings [] = []"
| "normalizeLineEndings [c] = (if c = CR then [NL] else [c])"
| "normalizeLineEndings (c # d # s) =
     (if c = CR then NL # (if d = NL then normalizeLineEndings s else normalizeLineEndings (d # s))
      else c # normalizeLineEndings (d # s))"

lemma normalizeLineEndings_no_CR [simp]: "CR \<notin> set (normalizeLineEndings s)"
  by (induction s rule: normalizeLineEndings.induct) auto

lemma normalizeLineEndings_id: "CR \<notin> set s \<Longrightarrow> normalizeLineEndings s = s"
  by (induction s rule: normalizeLineEndings.induct) auto

section \<open>Lists and options\<close>

definition find_index :: "('a \<Rightarrow> bool) \<Rightarrow> 'a list \<Rightarrow> nat option" where
  "find_index P xs = (let n = length (takeWhile (\<lambda>x. \<not> P x) xs) in if n < length xs then Some n else None)"

lemma find_index_Some:
  assumes "find_index P xs = Some n"
  shows "n < length xs \<and> P (xs ! n) \<and> (\<forall>i < n. \<not> P (xs ! i))"
proof -
  let ?w = "takeWhile (\<lambda>x. \<not> P x) xs"
  from assms have n: "n = length ?w" "length ?w < length xs"
    by (auto simp: find_index_def Let_def split: if_splits)
  have "\<not> P (xs ! i)" if "i < length ?w" for i
    using that by (metis nth_mem set_takeWhileD takeWhile_nth)
  with n show ?thesis
    using nth_length_takeWhile [of "\<lambda>x. \<not> P x" xs] by auto
qed

lemma find_index_None: "find_index P xs = None \<longleftrightarrow> (\<forall>x \<in> set xs. \<not> P x)"
  unfolding find_index_def Let_def
  by (induction xs) auto

definition opt_default :: "'a \<Rightarrow> 'a option \<Rightarrow> 'a" where
  "opt_default d o' = (case o' of None \<Rightarrow> d | Some x \<Rightarrow> x)"

lemma opt_default_simps [simp]: "opt_default d None = d" "opt_default d (Some x) = x"
  by (simp_all add: opt_default_def)

text \<open>Results that can be errors: the next step runs on the value, an error ends the sequence.\<close>

definition and_then :: "'e + 'a \<Rightarrow> ('a \<Rightarrow> 'e + 'b) \<Rightarrow> 'e + 'b" where
  "and_then r f = (case r of Inl e \<Rightarrow> Inl e | Inr x \<Rightarrow> f x)"

definition or_fail :: "'e \<Rightarrow> 'a option \<Rightarrow> 'e + 'a" where
  "or_fail e x = (case x of None \<Rightarrow> Inl e | Some y \<Rightarrow> Inr y)"

lemma and_then_Inr [simp]: "and_then r f = Inr y \<longleftrightarrow> (\<exists>x. r = Inr x \<and> f x = Inr y)"
  by (cases r) (simp_all add: and_then_def)

lemma or_fail_Inr [simp]: "or_fail e x = Inr y \<longleftrightarrow> x = Some y"
  by (cases x) (simp_all add: or_fail_def)

section \<open>Filters and counts\<close>

lemma map_filter_key:
  "distinct (List.map_filter f xs) \<Longrightarrow> x \<in> set xs \<Longrightarrow> y \<in> set xs \<Longrightarrow> f x = Some k \<Longrightarrow> f y = Some k \<Longrightarrow> x = y"
proof (induction xs)
  case (Cons a xs)
  have "k \<in> set (List.map_filter f xs)" if "z \<in> set xs" "f z = Some k" for z using that by (force simp: List.map_filter_def)
  then show ?case using Cons by (auto simp: List.map_filter_simps split: option.splits)
qed simp

lemma length_filter_mono: "(\<And>x. P x \<Longrightarrow> Q x) \<Longrightarrow> length (filter P xs) \<le> length (filter Q xs)"
  by (induction xs) (auto intro: le_SucI)

lemma filter_drop_taken:
  assumes "distinct (map f xs)"
  shows "filter (\<lambda>x. f x \<notin> f ` set (take k xs)) xs = drop k xs"
proof -
  have "distinct (map f (take k xs @ drop k xs))" using assms by simp
  then have apart: "f ` set (take k xs) \<inter> f ` set (drop k xs) = {}" unfolding map_append distinct_append by simp
  have "filter (\<lambda>x. f x \<notin> f ` set (take k xs)) (take k xs @ drop k xs) = drop k xs"
    unfolding filter_append using apart by (auto simp: filter_empty_conv filter_id_conv)
  then show ?thesis by simp
qed

lemma filter_keep_taken:
  assumes "distinct (map f xs)"
  shows "filter (\<lambda>x. f x \<notin> f ` set (drop k xs)) xs = take k xs"
proof -
  have "distinct (map f (take k xs @ drop k xs))" using assms by simp
  then have apart: "f ` set (take k xs) \<inter> f ` set (drop k xs) = {}" unfolding map_append distinct_append by simp
  have "filter (\<lambda>x. f x \<notin> f ` set (drop k xs)) (take k xs @ drop k xs) = take k xs"
    unfolding filter_append using apart by (auto simp: filter_empty_conv filter_id_conv)
  then show ?thesis by simp
qed

lemma find_SomeD: "find P xs = Some x \<Longrightarrow> x \<in> set xs \<and> P x"
  by (induction xs) (auto split: if_splits)

text \<open>A number as it is written in base ten.\<close>

fun nat_digits :: "nat \<Rightarrow> string" where
  "nat_digits n = (if n < 10 then [''0123456789'' ! n] else nat_digits (n div 10) @ [''0123456789'' ! (n mod 10)])"

declare nat_digits.simps [simp del]

section \<open>White space\<close>

text \<open>\<open>trim\<close>: the white space of JavaScript, each character as its bytes.\<close>

definition WHITE_SPACE :: "string list" where
  "WHITE_SPACE =
     [[CHR 0x09], [CHR 0x0A], [CHR 0x0B], [CHR 0x0C], [CHR 0x0D], [CHR '' ''], [CHR 0xC2, CHR 0xA0], [CHR 0xE1, CHR 0x9A, CHR 0x80],
      [CHR 0xE2, CHR 0x80, CHR 0x80], [CHR 0xE2, CHR 0x80, CHR 0x81], [CHR 0xE2, CHR 0x80, CHR 0x82], [CHR 0xE2, CHR 0x80, CHR 0x83],
      [CHR 0xE2, CHR 0x80, CHR 0x84], [CHR 0xE2, CHR 0x80, CHR 0x85], [CHR 0xE2, CHR 0x80, CHR 0x86], [CHR 0xE2, CHR 0x80, CHR 0x87],
      [CHR 0xE2, CHR 0x80, CHR 0x88], [CHR 0xE2, CHR 0x80, CHR 0x89], [CHR 0xE2, CHR 0x80, CHR 0x8A], [CHR 0xE2, CHR 0x80, CHR 0xA8],
      [CHR 0xE2, CHR 0x80, CHR 0xA9], [CHR 0xE2, CHR 0x80, CHR 0xAF], [CHR 0xE2, CHR 0x81, CHR 0x9F], [CHR 0xE3, CHR 0x80, CHR 0x80],
      [CHR 0xEF, CHR 0xBB, CHR 0xBF]]"

primrec trim_start :: "nat \<Rightarrow> string list \<Rightarrow> string \<Rightarrow> string" where
  "trim_start 0 spaces s = s"
| "trim_start (Suc n) spaces s =
     (case find (\<lambda>w. starts_with s w) spaces of None \<Rightarrow> s | Some w \<Rightarrow> trim_start n spaces (drop (length w) s))"

text \<open>Each round takes at least one byte, so the length of the text is enough rounds.\<close>

definition js_trim :: "string \<Rightarrow> string" where
  "js_trim s =
     (let front = trim_start (length s) WHITE_SPACE s
      in rev (trim_start (length front) (map rev WHITE_SPACE) (rev front)))"

end
