(* ===== verification/Session_State.thy ===== *)
theory Session_State
  imports Fleet_Prelude
begin

text \<open>
  The life cycle of a session (\<^verbatim>\<open>sessions/stateMachine.ts\<close>), the notifications a transition
  deserves (\<^verbatim>\<open>sessions/notificationTriggers.ts\<close>) and the ledger that announces each tool run
  once (\<^verbatim>\<open>sessions/toolCompletionLedger.ts\<close>).
\<close>

section \<open>The data model\<close>

datatype session_state = Starting | Generating | WaitingPermission | WaitingInput | Idle | Closed

text \<open>The hook events, with the fields the state machine and the notifications read.\<close>

datatype hook_event =
    SessionStart "string option" \<comment> \<open>\<open>source\<close>\<close>
  | SessionEnd "string option" \<comment> \<open>\<open>reason\<close>\<close>
  | UserPromptSubmit
  | PreToolUse string "string option" "string option" \<comment> \<open>\<open>tool_name\<close>, \<open>tool_use_id\<close>, \<open>agent_id\<close>\<close>
  | PostToolUse string "string option" "string option" \<comment> \<open>\<open>tool_name\<close>, \<open>tool_use_id\<close>, \<open>agent_id\<close>\<close>
  | PermissionRequest string \<comment> \<open>\<open>tool_name\<close>\<close>
  | Notification string \<comment> \<open>\<open>notification_type\<close>\<close>
  | Stop

datatype session_input =
    Hook hook_event bool \<comment> \<open>the event and \<open>turnContinues\<close>\<close>
  | PermissionResolved
  | HarnessExit
  | TranscriptInterrupted

section \<open>Transitions\<close>

definition isWaitingOnHuman :: "session_state \<Rightarrow> bool" where
  "isWaitingOnHuman s \<longleftrightarrow> s = WaitingPermission \<or> s = WaitingInput"

fun isCompaction :: "hook_event \<Rightarrow> bool" where
  "isCompaction (SessionStart source) = (source = Some ''compact'')"
| "isCompaction _ = False"

fun isClear :: "hook_event \<Rightarrow> bool" where
  "isClear (SessionEnd reason) = (reason = Some ''clear'')"
| "isClear _ = False"

fun startsClearedConversation :: "hook_event \<Rightarrow> bool" where
  "startsClearedConversation (SessionStart source) = (source = Some ''clear'')"
| "startsClearedConversation _ = False"

definition stateAfterNotification :: "session_state \<Rightarrow> string \<Rightarrow> session_state" where
  "stateAfterNotification current notificationType =
     (if notificationType = ''permission_prompt'' then WaitingPermission
      else if notificationType = ''agent_needs_input'' then WaitingInput
      else if notificationType = ''idle_prompt'' then (if isWaitingOnHuman current then current else Idle)
      else current)"

fun stateAfterHook :: "session_state \<Rightarrow> hook_event \<Rightarrow> session_state" where
  "stateAfterHook current (SessionStart source) =
     (if isCompaction (SessionStart source) then current else Idle)"
| "stateAfterHook current (SessionEnd reason) = Closed"
| "stateAfterHook current UserPromptSubmit = Generating"
| "stateAfterHook current (PreToolUse _ _ _) = Generating"
| "stateAfterHook current (PostToolUse _ _ _) = Generating"
| "stateAfterHook current (PermissionRequest _) = WaitingPermission"
| "stateAfterHook current Stop = Idle"
| "stateAfterHook current (Notification notification_type) = stateAfterNotification current notification_type"

fun nextState :: "session_state \<Rightarrow> session_input \<Rightarrow> session_state" where
  "nextState current input =
     (if current = Closed then Closed
      else case input of
        HarnessExit \<Rightarrow> Closed
      | PermissionResolved \<Rightarrow> Generating
      | TranscriptInterrupted \<Rightarrow> Idle
      | Hook event turnContinues \<Rightarrow>
          (if turnContinues then Generating else stateAfterHook current event))"

declare nextState.simps [simp del]

fun provesTurnEnded :: "session_input \<Rightarrow> bool" where
  "provesTurnEnded TranscriptInterrupted = True"
| "provesTurnEnded (Hook event turnContinues) =
     (if turnContinues then False
      else case event of
        Stop \<Rightarrow> True
      | SessionStart source \<Rightarrow> \<not> isCompaction (SessionStart source)
      | Notification notification_type \<Rightarrow>
          notification_type = ''idle_prompt'' \<or> notification_type = ''agent_needs_input''
      | _ \<Rightarrow> False)"
| "provesTurnEnded _ = False"

definition canDeliverNow :: "session_state \<Rightarrow> bool" where
  "canDeliverNow s \<longleftrightarrow> s = Idle \<or> s = WaitingInput"

fun run_inputs :: "session_state \<Rightarrow> session_input list \<Rightarrow> session_state" where
  "run_inputs s [] = s"
| "run_inputs s (i # is) = run_inputs (nextState s i) is"

lemmas [fleet_state] = nextState.simps stateAfterNotification_def isWaitingOnHuman_def canDeliverNow_def

section \<open>Facts about single transitions\<close>

lemma nextState_closed [simp]: "nextState Closed i = Closed"
  by (simp add: nextState.simps)

lemma run_inputs_closed [simp]: "run_inputs Closed is = Closed"
  by (induction "is") auto

lemma run_inputs_append: "run_inputs s (xs @ ys) = run_inputs (run_inputs s xs) ys"
  by (induction xs arbitrary: s) auto

lemma nextState_not_starting: "nextState s i = Starting \<Longrightarrow> s = Starting"
  by (cases i; cases s) (auto simp: fleet_state split: if_splits hook_event.splits elim!: stateAfterHook.elims)

definition closes :: "session_input \<Rightarrow> bool" where
  "closes i \<longleftrightarrow> i = HarnessExit \<or> (\<exists>reason. i = Hook (SessionEnd reason) False)"

lemma closes_code [code]:
  "closes i = (case i of HarnessExit \<Rightarrow> True | Hook (SessionEnd _) False \<Rightarrow> True | _ \<Rightarrow> False)"
  by (auto simp: closes_def split: session_input.splits hook_event.splits bool.splits)

lemma nextState_closed_iff: "nextState s i = Closed \<longleftrightarrow> s = Closed \<or> closes i"
  by (cases i; cases s)
    (auto simp: fleet_state closes_def split: if_splits hook_event.splits elim!: stateAfterHook.elims)

section \<open>Notifications\<close>

datatype needs_input_kind = NeedsPermission | NeedsInput

datatype notification_trigger =
    AgentFinished string
  | NeedsInputTrigger string needs_input_kind string "string option" \<comment> \<open>session, kind, prompt key, tool name\<close>
  | ToolCompletion string string string \<comment> \<open>session, tool use id, tool name\<close>
  | ChatMessage string string nat \<comment> \<open>session, question key, question count\<close>

definition WORKING_STATE_TOOL_NAMES :: "string list" where
  "WORKING_STATE_TOOL_NAMES = [''mcp__openfleet__update_working_state'', ''mcp__openfleet__get_working_state'']"

definition TODO_TOOL_NAMES :: "string list" where
  "TODO_TOOL_NAMES = [''TaskCreate'', ''TaskUpdate'', ''TaskList'', ''TodoWrite'']"

definition DAEMON_OWNED_TOOL_NAMES :: "string list" where
  "DAEMON_OWNED_TOOL_NAMES = WORKING_STATE_TOOL_NAMES @ TODO_TOOL_NAMES"

record state_transition =
  tr_session :: string
  tr_input :: session_input
  tr_to :: session_state
  tr_at :: string

definition agentFinishedBy :: "string \<Rightarrow> session_input \<Rightarrow> session_state \<Rightarrow> notification_trigger option" where
  "agentFinishedBy sessionId input to =
     (let isStopThatEndsTheTurn = (input = Hook Stop False)
      in if \<not> isStopThatEndsTheTurn \<or> to \<noteq> Idle then None else Some (AgentFinished sessionId))"

fun toolCompletionBy :: "string \<Rightarrow> session_input \<Rightarrow> notification_trigger option" where
  "toolCompletionBy sessionId (Hook (PostToolUse toolName toolUseId agentId) turnContinues) =
     (let isRunBySubAgent = agentId \<noteq> None;
          isDaemonOwnedTool = toolName \<in> set DAEMON_OWNED_TOOL_NAMES
      in if isRunBySubAgent \<or> isDaemonOwnedTool then None
         else case toolUseId of
           None \<Rightarrow> None
         | Some tid \<Rightarrow> if tid = [] then None else Some (ToolCompletion sessionId tid toolName))"
| "toolCompletionBy sessionId _ = None"

definition chatMessageBy :: "string \<Rightarrow> string \<Rightarrow> nat \<Rightarrow> notification_trigger option" where
  "chatMessageBy sessionId askedAt newQuestionCount =
     (if newQuestionCount = 0 then None
      else Some (ChatMessage sessionId (sessionId @ ''@'' @ askedAt) newQuestionCount))"

fun needsInputKindOf :: "session_state \<Rightarrow> needs_input_kind option" where
  "needsInputKindOf WaitingPermission = Some NeedsPermission"
| "needsInputKindOf WaitingInput = Some NeedsInput"
| "needsInputKindOf _ = None"

fun permissionToolNameOf :: "session_input \<Rightarrow> string option" where
  "permissionToolNameOf (Hook (PermissionRequest toolName) _) = Some toolName"
| "permissionToolNameOf _ = None"

text \<open>A tool name that is the empty text is left out of the trigger, as \<open>toolName && { toolName }\<close> does.\<close>

definition needsInputBy :: "state_transition \<Rightarrow> notification_trigger option" where
  "needsInputBy tr =
     (case needsInputKindOf (tr_to tr) of
        None \<Rightarrow> None
      | Some kind \<Rightarrow>
          (let promptKey = tr_session tr @ ''@'' @ tr_at tr;
               toolName = permissionToolNameOf (tr_input tr);
               isAutoAllowedWorkingStateTool =
                 (case toolName of None \<Rightarrow> False | Some n \<Rightarrow> n \<in> set WORKING_STATE_TOOL_NAMES)
           in if isAutoAllowedWorkingStateTool then None
              else Some (NeedsInputTrigger (tr_session tr) kind promptKey
                     (if toolName = Some [] then None else toolName))))"

definition notificationTriggerOf :: "state_transition \<Rightarrow> notification_trigger option" where
  "notificationTriggerOf tr =
     (case agentFinishedBy (tr_session tr) (tr_input tr) (tr_to tr) of
        Some t \<Rightarrow> Some t
      | None \<Rightarrow> needsInputBy tr)"

section \<open>The tool completion ledger\<close>

definition MAX_REMEMBERED_TOOL_USES_PER_SESSION :: nat where
  "MAX_REMEMBERED_TOOL_USES_PER_SESSION = 200"

text \<open>The ids in insertion order, oldest first: a JavaScript \<open>Set\<close> keeps the place of an element it
  already holds.\<close>

definition recent_add :: "string \<Rightarrow> string list \<Rightarrow> string list" where
  "recent_add i ids =
     (let added = (if i \<in> set ids then ids else ids @ [i])
      in if length added \<le> MAX_REMEMBERED_TOOL_USES_PER_SESSION then added else tl added)"

record tool_ledger =
  announcedBySession :: "string \<rightharpoonup> string list"
  subAgentRunsBySession :: "string \<rightharpoonup> string list"

definition empty_ledger :: tool_ledger where
  "empty_ledger = \<lparr>announcedBySession = Map.empty, subAgentRunsBySession = Map.empty\<rparr>"

text \<open>Looking a session up creates its entry.\<close>

definition recentIdsOf :: "(string \<rightharpoonup> string list) \<Rightarrow> string \<Rightarrow> string list \<times> (string \<rightharpoonup> string list)" where
  "recentIdsOf bySession sessionId =
     (case bySession sessionId of
        Some known \<Rightarrow> (known, bySession)
      | None \<Rightarrow> ([], bySession(sessionId \<mapsto> [])))"

definition rememberSubAgentRun :: "string \<Rightarrow> session_input \<Rightarrow> tool_ledger \<Rightarrow> tool_ledger" where
  "rememberSubAgentRun sessionId input l =
     (case input of
        Hook (PreToolUse _ (Some toolUseId) (Some agentId)) _ \<Rightarrow>
          (let (ids, m) = recentIdsOf (subAgentRunsBySession l) sessionId
           in l\<lparr>subAgentRunsBySession := m(sessionId \<mapsto> recent_add toolUseId ids)\<rparr>)
      | _ \<Rightarrow> l)"

definition judge :: "string \<Rightarrow> session_input \<Rightarrow> tool_ledger \<Rightarrow> notification_trigger option \<times> tool_ledger" where
  "judge sessionId input l0 =
     (let l = rememberSubAgentRun sessionId input l0
      in case toolCompletionBy sessionId input of
           Some (ToolCompletion s toolUseId toolName) \<Rightarrow>
             (let (sub, subM) = recentIdsOf (subAgentRunsBySession l) sessionId;
                  (ann, annM) = recentIdsOf (announcedBySession l) sessionId;
                  l1 = l\<lparr>subAgentRunsBySession := subM, announcedBySession := annM\<rparr>
              in if toolUseId \<in> set sub \<or> toolUseId \<in> set ann then (None, l1)
                 else (Some (ToolCompletion s toolUseId toolName),
                       l1\<lparr>announcedBySession := annM(sessionId \<mapsto> recent_add toolUseId ann)\<rparr>))
         | _ \<Rightarrow> (None, l))"

definition forget :: "string \<Rightarrow> tool_ledger \<Rightarrow> tool_ledger" where
  "forget sessionId l =
     l\<lparr>announcedBySession := (announcedBySession l)(sessionId := None),
       subAgentRunsBySession := (subAgentRunsBySession l)(sessionId := None)\<rparr>"

fun judge_all :: "(string \<times> session_input) list \<Rightarrow> tool_ledger \<Rightarrow> notification_trigger option list \<times> tool_ledger" where
  "judge_all [] l = ([], l)"
| "judge_all ((s, i) # is) l =
     (let (t, l1) = judge s i l; (ts, l2) = judge_all is l1 in (t # ts, l2))"

lemmas [fleet_state] = recentIdsOf_def rememberSubAgentRun_def

section \<open>What the ledger keeps\<close>

abbreviation ids_of :: "(string \<rightharpoonup> string list) \<Rightarrow> string \<Rightarrow> string list" where
  "ids_of m s \<equiv> opt_default [] (m s)"

definition recent_inv :: "string list \<Rightarrow> bool" where
  "recent_inv ids \<longleftrightarrow> distinct ids \<and> length ids \<le> MAX_REMEMBERED_TOOL_USES_PER_SESSION"

lemma recent_inv_Nil [simp]: "recent_inv []"
  by (simp add: recent_inv_def)

lemma recent_inv_add: "recent_inv ids \<Longrightarrow> recent_inv (recent_add i ids)"
  by (auto simp: recent_inv_def recent_add_def Let_def MAX_REMEMBERED_TOOL_USES_PER_SESSION_def
      distinct_tl)

lemma recent_add_mem:
  assumes "recent_inv ids"
  shows "i \<in> set (recent_add i ids)"
proof (cases "i \<in> set ids")
  case True
  with assms show ?thesis
    by (simp add: recent_add_def recent_inv_def)
next
  case False
  then show ?thesis
    by (cases ids) (auto simp: recent_add_def Let_def MAX_REMEMBERED_TOOL_USES_PER_SESSION_def)
qed

text \<open>An id is forgotten only by a full set, and then the oldest one goes.\<close>

lemma recent_add_keeps:
  "j \<in> set ids \<Longrightarrow> length ids < MAX_REMEMBERED_TOOL_USES_PER_SESSION \<Longrightarrow> j \<in> set (recent_add i ids)"
  by (auto simp: recent_add_def Let_def)

definition ledger_inv :: "tool_ledger \<Rightarrow> bool" where
  "ledger_inv l \<longleftrightarrow> (\<forall>s. recent_inv (ids_of (announcedBySession l) s) \<and> recent_inv (ids_of (subAgentRunsBySession l) s))"

lemma ledger_inv_empty: "ledger_inv empty_ledger"
  by (simp add: ledger_inv_def empty_ledger_def)

lemma ids_of_recentIdsOf [simp]: "ids_of (snd (recentIdsOf m s)) x = ids_of m x"
  by (auto simp: recentIdsOf_def split: option.splits)

lemma fst_recentIdsOf [simp]: "fst (recentIdsOf m s) = ids_of m s"
  by (auto simp: recentIdsOf_def split: option.splits)

lemma ledger_inv_rememberSubAgentRun:
  "ledger_inv l \<Longrightarrow> ledger_inv (rememberSubAgentRun s i l)"
  by (auto simp: rememberSubAgentRun_def ledger_inv_def split_beta recent_inv_add
      split: session_input.splits hook_event.splits option.splits)

lemma ledger_inv_judge:
  assumes "ledger_inv l"
  shows "ledger_inv (snd (judge s i l))"
proof -
  let ?l = "rememberSubAgentRun s i l"
  from assms have inv: "ledger_inv ?l"
    by (rule ledger_inv_rememberSubAgentRun)
  then show ?thesis
    by (auto simp: judge_def Let_def split_beta ledger_inv_def recent_inv_add
        split: option.splits notification_trigger.splits)
qed

lemma ledger_inv_forget: "ledger_inv l \<Longrightarrow> ledger_inv (forget s l)"
  by (simp add: forget_def ledger_inv_def)

lemma ledger_inv_judge_all: "ledger_inv l \<Longrightarrow> ledger_inv (snd (judge_all is l))"
proof (induction "is" arbitrary: l)
  case (Cons p "is")
  obtain s i where p: "p = (s, i)" by (cases p)
  from Cons.prems have "ledger_inv (snd (judge s i l))" by (rule ledger_inv_judge)
  then show ?case
    by (simp add: p split_beta Let_def Cons.IH)
qed simp

lemma toolCompletionBy_Some:
  assumes "toolCompletionBy s i = Some t"
  obtains toolName toolUseId tc where
    "i = Hook (PostToolUse toolName (Some toolUseId) None) tc" "t = ToolCompletion s toolUseId toolName"
    "toolUseId \<noteq> []" "toolName \<notin> set DAEMON_OWNED_TOOL_NAMES"
  using assms
  by (cases "(s, i)" rule: toolCompletionBy.cases) (auto simp: Let_def split: if_splits option.splits)

lemma judge_announces:
  assumes "judge s i l = (Some t, l')"
  obtains toolName toolUseId tc where
    "i = Hook (PostToolUse toolName (Some toolUseId) None) tc" "t = ToolCompletion s toolUseId toolName"
    "toolUseId \<notin> set (ids_of (announcedBySession l) s)"
    "toolUseId \<notin> set (ids_of (subAgentRunsBySession l) s)"
    "ids_of (announcedBySession l') s = recent_add toolUseId (ids_of (announcedBySession l) s)"
proof -
  from assms obtain t0 where t0: "toolCompletionBy s i = Some t0"
    by (auto simp: judge_def Let_def split: option.splits)
  then obtain toolName toolUseId tc where
    i: "i = Hook (PostToolUse toolName (Some toolUseId) None) tc" "t0 = ToolCompletion s toolUseId toolName"
    by (rule toolCompletionBy_Some)
  have same: "rememberSubAgentRun s i l = l"
    by (simp add: i rememberSubAgentRun_def)
  from assms t0 i same that show ?thesis
    by (auto simp: judge_def Let_def split_beta split: if_splits)
qed

text \<open>\<open>remembered tid k ids\<close>: the set holds \<open>tid\<close> and at most \<open>k\<close> younger ids.\<close>

definition remembered :: "string \<Rightarrow> nat \<Rightarrow> string list \<Rightarrow> bool" where
  "remembered tid k ids \<longleftrightarrow> (\<exists>xs ys. ids = xs @ tid # ys \<and> length ys \<le> k)"

lemma remembered_mem: "remembered tid k ids \<Longrightarrow> tid \<in> set ids"
  by (auto simp: remembered_def)

lemma remembered_added:
  assumes "recent_inv ids" "tid \<notin> set ids"
  shows "remembered tid 0 (recent_add tid ids)"
proof (cases ids)
  case Nil
  then show ?thesis
    by (auto simp: recent_add_def remembered_def Let_def MAX_REMEMBERED_TOOL_USES_PER_SESSION_def)
next
  case (Cons a as)
  have "remembered tid 0 (ids @ [tid])" "remembered tid 0 (as @ [tid])"
    by (auto simp: remembered_def)
  with Cons assms show ?thesis by (auto simp: recent_add_def Let_def)
qed

lemma remembered_add:
  assumes "remembered tid k ids" "Suc k < MAX_REMEMBERED_TOOL_USES_PER_SESSION"
  shows "remembered tid (Suc k) (recent_add i ids)"
proof -
  from assms(1) obtain xs ys where ids: "ids = xs @ tid # ys" "length ys \<le> k"
    by (auto simp: remembered_def)
  have keep: "remembered tid (Suc k) (us @ tid # ys @ zs)" if "length zs \<le> 1" for us zs
    unfolding remembered_def using that ids(2)
    by (intro exI [of _ us] exI [of _ "ys @ zs"]) simp
  show ?thesis
  proof (cases xs)
    case Nil
    with ids assms(2) have "length (ids @ [i]) \<le> MAX_REMEMBERED_TOOL_USES_PER_SESSION" by simp
    with keep [of "[]" "[]"] keep [of "[i]" "[]"] ids Nil show ?thesis
      by (auto simp: recent_add_def Let_def)
  next
    case (Cons a as)
    from keep [of "[]" xs] keep [of "[i]" xs] keep [of "[]" as] keep [of "[i]" as] ids Cons show ?thesis
      by (auto simp: recent_add_def Let_def)
  qed
qed

lemma remembered_mono: "remembered tid k ids \<Longrightarrow> k \<le> k' \<Longrightarrow> remembered tid k' ids"
  by (auto simp: remembered_def intro: le_trans)

text \<open>One judgement adds at most one id to the announced ids of a session.\<close>

lemma judge_announced:
  "ids_of (announcedBySession (snd (judge s' i l))) s = ids_of (announcedBySession l) s
   \<or> (\<exists>j. ids_of (announcedBySession (snd (judge s' i l))) s = recent_add j (ids_of (announcedBySession l) s))"
proof -
  have "announcedBySession (rememberSubAgentRun s' i l) = announcedBySession l"
    by (auto simp: rememberSubAgentRun_def split_beta split: session_input.splits hook_event.splits option.splits)
  then show ?thesis
    by (auto simp: judge_def Let_def split_beta split: option.splits notification_trigger.splits)
qed

lemma judge_keeps_remembered:
  assumes "remembered tid k (ids_of (announcedBySession l) s)" "Suc k < MAX_REMEMBERED_TOOL_USES_PER_SESSION"
  shows "remembered tid (Suc k) (ids_of (announcedBySession (snd (judge s' i l))) s)"
  using judge_announced [of s' i l s] remembered_add [OF assms] remembered_mono [OF assms(1), of "Suc k"]
  by auto

lemma judge_remembered_silent:
  assumes "remembered tid k (ids_of (announcedBySession l) s)"
  shows "fst (judge s' i l) \<noteq> Some (ToolCompletion s tid n)"
proof
  assume "fst (judge s' i l) = Some (ToolCompletion s tid n)"
  then obtain l' where "judge s' i l = (Some (ToolCompletion s tid n), l')"
    by (metis prod.collapse)
  then have "tid \<notin> set (ids_of (announcedBySession l) s)"
    by (rule judge_announces) auto
  with remembered_mem [OF assms] show False by simp
qed

lemma judge_all_remembered_silent:
  assumes "remembered tid k (ids_of (announcedBySession l) s)"
    and "k + length is \<le> MAX_REMEMBERED_TOOL_USES_PER_SESSION - 1"
  shows "Some (ToolCompletion s tid n) \<notin> set (fst (judge_all is l))"
  using assms
proof (induction "is" arbitrary: l k)
  case (Cons p "is")
  obtain s' i where p: "p = (s', i)" by (cases p)
  have silent: "fst (judge s' i l) \<noteq> Some (ToolCompletion s tid n)"
    using Cons.prems(1) by (rule judge_remembered_silent)
  show ?case
  proof (cases "is = []")
    case True
    with silent show ?thesis by (auto simp: p split_beta Let_def)
  next
    case False
    then have "Suc k < MAX_REMEMBERED_TOOL_USES_PER_SESSION" using Cons.prems(2)
      by (cases "is") (auto simp: MAX_REMEMBERED_TOOL_USES_PER_SESSION_def)
    with Cons.prems(1) have "remembered tid (Suc k) (ids_of (announcedBySession (snd (judge s' i l))) s)"
      by (rule judge_keeps_remembered)
    then have "Some (ToolCompletion s tid n) \<notin> set (fst (judge_all is (snd (judge s' i l))))"
      by (rule Cons.IH) (use Cons.prems(2) in simp)
    with silent show ?thesis by (auto simp: p split_beta Let_def)
  qed
qed simp

section \<open>Properties\<close>

text \<open>C37: A session is closed exactly when it was closed or some input of the run closed it: the exit of
  its harness, or a \<open>SessionEnd\<close> hook that no block kept going. No input reopens a closed session.\<close>

theorem closed_exactly_when_ended:
  "run_inputs s is = Closed \<longleftrightarrow> s = Closed \<or> (\<exists>i \<in> set is. closes i)"
  by (induction "is" arbitrary: s) (auto simp: nextState_closed_iff)

text \<open>A session becomes ready to take a message (idle or waiting for input) only through an input
  that proves its last turn is over, and every such input leaves an open session ready, or still on
  the permission prompt it was waiting on.\<close>

theorem deliverable_only_after_turn_end:
  assumes "s \<noteq> Closed"
  shows "(\<not> canDeliverNow s \<and> canDeliverNow (nextState s i) \<longrightarrow> provesTurnEnded i)
    \<and> (provesTurnEnded i \<longrightarrow> canDeliverNow (nextState s i) \<or> (s = WaitingPermission \<and> nextState s i = s))"
proof (cases i)
  case (Hook e tc)
  with assms show ?thesis
    by (cases e; cases s) (auto simp: fleet_state split: if_splits)
qed (use assms in \<open>auto simp: fleet_state split: if_splits\<close>)

text \<open>A tool run is announced once: after the ledger announced it, none of the next 199 hooks, of
  whatever session, announces the same run again, however often its hook is replayed.\<close>

theorem tool_run_announced_once:
  assumes "ledger_inv l" "judge s i l = (Some (ToolCompletion s tid n), l')"
    and "length is \<le> MAX_REMEMBERED_TOOL_USES_PER_SESSION - 1"
  shows "Some (ToolCompletion s tid n') \<notin> set (fst (judge_all is l'))"
proof -
  have "recent_inv (ids_of (announcedBySession l) s)"
    using assms(1) by (simp add: ledger_inv_def)
  then have "remembered tid 0 (ids_of (announcedBySession l') s)"
    using judge_announces [OF assms(2)] remembered_added by (metis notification_trigger.inject(3))
  then show ?thesis
    by (rule judge_all_remembered_silent) (use assms(3) in simp)
qed

end
