(* ===== verification/Path_Glob.thy ===== *)
theory Path_Glob
  imports Fleet_Prelude
begin

text \<open>
  The restricted path globs of the command policy, \<^verbatim>\<open>policy/pathGlob.ts\<close>: \<open>segmentMatches\<close>, the loop that
  remembers only the last star of a segment, and \<open>globMatches\<close>, the row-by-row table over segments.
  Both are proved equal to the declarative readings \<open>segment_spec\<close> and \<open>glob_spec\<close>, which try every
  way of reading a star. A text is the list of its UTF-8 bytes here and \<open>?\<close> stands for one of them, in the code for one
  UTF-16 unit: the two agree on ASCII texts, and a pattern with \<open>?\<close> against a segment with other characters is not modelled.
\<close>

section \<open>The code\<close>

definition ROOT_SEGMENT :: string where "ROOT_SEGMENT = ''/''"

definition segmentsOf :: "string \<Rightarrow> string list" where
  "segmentsOf path =
     (let named = filter (\<lambda>segment. segment \<noteq> '''' \<and> segment \<noteq> ''.'') (split_on (CHR ''/'') path)
      in if starts_with path ''/'' then ROOT_SEGMENT # named else named)"

text \<open>The loop of \<open>segmentMatches\<close>: the pattern and the text from their indices on, and for the last star
  the pattern after it with the text taken since (\<open>starTextIndex\<close> is the text index less its length).\<close>

function segment_loop :: "string \<Rightarrow> string \<Rightarrow> (string \<times> string) option \<Rightarrow> bool" where
  "segment_loop p [] star = (dropWhile (\<lambda>c. c = CHR ''*'') p = [])"
| "segment_loop p (x # t) star =
     (if starts_with p ''*'' then segment_loop (tl p) (x # t) (Some (tl p, []))
      else if p \<noteq> [] \<and> (hd p = CHR ''?'' \<or> hd p = x)
      then segment_loop (tl p) t (map_option (\<lambda>(sp, taken). (sp, taken @ [x])) star)
      else (case star of
              Some (sp, taken) \<Rightarrow> segment_loop sp (tl (taken @ x # t)) (Some (sp, []))
            | None \<Rightarrow> False))"
  by pat_completeness auto
termination
  by (relation "measures [\<lambda>(p, t, star). case star of None \<Rightarrow> Suc (length t) | Some (sp, taken) \<Rightarrow> length taken + length t,
                          \<lambda>(p, t, star). length p]")
     (auto simp: starts_with_prefix prefix_def split: option.splits)

declare segment_loop.simps(2) [simp del]

definition segmentMatches :: "string \<Rightarrow> string \<Rightarrow> bool" where
  "segmentMatches pattern t = segment_loop pattern t None"

text \<open>The cells of a row from some column on: the cell of the row above and the cell just written to the
  left, then the row above and the path segments from there.\<close>

fun glob_cells :: "string \<Rightarrow> bool \<Rightarrow> bool \<Rightarrow> bool list \<Rightarrow> string list \<Rightarrow> bool list" where
  "glob_cells seg up_left left (up # row) (x # xs) =
     (let cell = (if seg = ''**'' then up \<or> left else up_left \<and> segmentMatches seg x)
      in cell # glob_cells seg up cell row xs)"
| "glob_cells seg up_left left row xs = []"

definition glob_row :: "string list \<Rightarrow> string \<Rightarrow> bool list \<Rightarrow> bool list" where
  "glob_row xs seg previous =
     (let first = (seg = ''**'' \<and> hd previous) in first # glob_cells seg (hd previous) first (tl previous) xs)"

definition globMatches :: "string \<Rightarrow> string \<Rightarrow> bool" where
  "globMatches pattern path =
     (let xs = segmentsOf path
      in fold (glob_row xs) (segmentsOf pattern) (map (\<lambda>n. n = 0) [0..<length xs + 1]) ! length xs)"

section \<open>The declarative readings\<close>

text \<open>\<open>same\<close> tells which characters of a text a character of the pattern other than a star stands for.\<close>

fun star_spec :: "(char \<Rightarrow> char \<Rightarrow> bool) \<Rightarrow> string \<Rightarrow> string \<Rightarrow> bool" where
  "star_spec same [] t \<longleftrightarrow> t = []"
| "star_spec same (c # p) t \<longleftrightarrow>
     (if c = CHR ''*'' then \<exists>k \<le> length t. star_spec same p (drop k t)
      else (case t of [] \<Rightarrow> False | x # t' \<Rightarrow> same c x \<and> star_spec same p t'))"

definition segment_spec :: "string \<Rightarrow> string \<Rightarrow> bool" where
  "segment_spec = star_spec (\<lambda>c x. c = CHR ''?'' \<or> c = x)"

fun glob_spec :: "string list \<Rightarrow> string list \<Rightarrow> bool" where
  "glob_spec [] xs \<longleftrightarrow> xs = []"
| "glob_spec (p # ps) xs \<longleftrightarrow>
     (if p = ''**'' then \<exists>k \<le> length xs. glob_spec ps (drop k xs)
      else (case xs of [] \<Rightarrow> False | x # xs' \<Rightarrow> segment_spec p x \<and> glob_spec ps xs'))"

section \<open>Segments\<close>

lemma star_spec_star:
  "star_spec same (CHR ''*'' # p) t \<longleftrightarrow> (\<exists>k. star_spec same p (drop k t))"
  by (auto intro: exI [of _ "min _ (length t)"]) (metis drop_all drop_eq_Nil le_cases)

lemma star_spec_star_drop:
  "star_spec same (CHR ''*'' # p) (drop j t) \<Longrightarrow> star_spec same (CHR ''*'' # p) t"
  unfolding star_spec_star by (metis drop_drop)

lemma star_spec_nil: "star_spec same p [] \<longleftrightarrow> dropWhile (\<lambda>c. c = CHR ''*'') p = []"
  by (induction p) auto

lemma star_spec_literal:
  "CHR ''*'' \<notin> set w \<Longrightarrow> star_spec same (w @ p) t \<Longrightarrow> length w \<le> length t \<and> star_spec same p (drop (length w) t)"
  by (induction w arbitrary: t) (auto split: list.splits)

lemma drop_positive: "(\<exists>j > 0. P (drop j xs)) \<longleftrightarrow> P (tl xs) \<or> (\<exists>j > 0. P (drop j (tl xs)))"
proof -
  have "(\<exists>j > 0. P (drop j xs)) \<longleftrightarrow> (\<exists>i. P (drop i (tl xs)))"
    by (metis drop_Suc gr0_conv_Suc)
  also have "\<dots> \<longleftrightarrow> P (tl xs) \<or> (\<exists>j > 0. P (drop j (tl xs)))"
    by (metis drop_0 gr0I)
  finally show ?thesis .
qed

lemma ex_le_Suc: "(\<exists>k \<le> Suc n. P k) \<longleftrightarrow> P 0 \<or> (\<exists>k \<le> n. P (Suc k))"
  by (metis Suc_le_mono not0_implies_Suc zero_le)

text \<open>What a loop that goes back to its last star only has to satisfy. The state of a loop is the pattern and the text
  from their indices on, and for the last star the pattern after it with the text taken since.\<close>

locale last_star_loop =
  fixes same :: "char \<Rightarrow> char \<Rightarrow> bool"
    and loop :: "string \<Rightarrow> string \<Rightarrow> (string \<times> string) option \<Rightarrow> bool"
  assumes loop_end: "loop p [] star \<longleftrightarrow> dropWhile (\<lambda>c. c = CHR ''*'') p = []"
    and loop_star: "loop (CHR ''*'' # p) (x # t) star \<longleftrightarrow> loop p (x # t) (Some (p, []))"
    and loop_same: "c \<noteq> CHR ''*'' \<Longrightarrow> same c x \<Longrightarrow>
      loop (c # p) (x # t) star \<longleftrightarrow> loop p t (map_option (\<lambda>(sp, taken). (sp, taken @ [x])) star)"
    and loop_stuck: "p = [] \<or> hd p \<noteq> CHR ''*'' \<and> \<not> same (hd p) x \<Longrightarrow>
      loop p (x # t) star \<longleftrightarrow> (\<exists>sp taken. star = Some (sp, taken) \<and> loop sp (tl (taken @ x # t)) (Some (sp, [])))"
begin

text \<open>What the loop decides with a star remembered: the rest matches, or it does from a later start of
  the star. Forgetting an earlier star is sound because everything since it was matched literally.\<close>

definition since_star :: "string \<Rightarrow> (string \<times> string) option \<Rightarrow> bool" where
  "since_star p star \<longleftrightarrow>
     (\<forall>sp taken. star = Some (sp, taken) \<longrightarrow> (\<exists>w. sp = w @ p \<and> CHR ''*'' \<notin> set w \<and> length w = length taken))"

definition later_start :: "string \<Rightarrow> (string \<times> string) option \<Rightarrow> bool" where
  "later_start t star \<longleftrightarrow> (\<exists>sp taken j. star = Some (sp, taken) \<and> 0 < j \<and> star_spec same sp (drop j (taken @ t)))"

lemma later_start_nil:
  assumes "since_star p star" "later_start [] star"
  shows "star_spec same p []"
proof -
  obtain w taken j where j: "0 < j" and w: "CHR ''*'' \<notin> set w" "length w = length taken" "star_spec same (w @ p) (drop j taken)"
    using assms by (auto simp: since_star_def later_start_def)
  have "length w \<le> length (drop j taken)" "star_spec same p (drop (length w) (drop j taken))"
    using star_spec_literal [OF w(1,3)] by auto
  then show ?thesis using j w(2) by (cases taken) auto
qed

lemma later_start_star:
  assumes "since_star (CHR ''*'' # p) star" "later_start t star"
  shows "star_spec same (CHR ''*'' # p) t"
proof -
  obtain w taken j where w: "CHR ''*'' \<notin> set w" "length w = length taken" "star_spec same (w @ CHR ''*'' # p) (drop j (taken @ t))"
    using assms by (auto simp: since_star_def later_start_def)
  have "star_spec same (CHR ''*'' # p) (drop (length w) (drop j (taken @ t)))"
    using star_spec_literal [OF w(1,3)] by blast
  moreover have "drop (length w) (drop j (taken @ t)) = drop j (drop (length taken) (taken @ t))"
    by (simp only: drop_drop w(2) add.commute)
  ultimately show ?thesis using star_spec_star_drop [of same p j t] by (simp del: star_spec.simps)
qed

definition work_left :: "string \<times> string \<times> (string \<times> string) option \<Rightarrow> nat" where
  "work_left = (\<lambda>(p, t, star). case star of None \<Rightarrow> Suc (length t) | Some (sp, taken) \<Rightarrow> length taken + length t)"

lemma loop_spec:
  "since_star p star \<Longrightarrow> loop p t star \<longleftrightarrow> star_spec same p t \<or> later_start t star"
proof (induction "(p, t, star)" arbitrary: p t star rule: wf_induct_rule [OF wf_measures, of "[work_left, \<lambda>(p, t, star). length p]"])
  case (1 p t star)
  note IH = 1(1) [unfolded in_measures, simplified]
  show ?case
  proof (cases t)
    case Nil
    then show ?thesis using later_start_nil 1(2) by (auto simp: star_spec_nil loop_end)
  next
    case (Cons x u)
    consider (star) q where "p = CHR ''*'' # q"
      | (step) c q where "p = c # q" "c \<noteq> CHR ''*''" "same c x"
      | (stuck) "p = [] \<or> hd p \<noteq> CHR ''*'' \<and> \<not> same (hd p) x"
      by (cases p) auto
    then show ?thesis
    proof cases
      case star
      have "loop q t (Some (q, [])) \<longleftrightarrow> star_spec same q t \<or> later_start t (Some (q, []))"
        by (rule IH) (auto simp: work_left_def since_star_def star Cons split: option.splits)
      also have "\<dots> \<longleftrightarrow> star_spec same p t"
        unfolding star star_spec_star later_start_def by simp (metis drop_0 gr0I)
      finally show ?thesis
        using 1(2) later_start_star star Cons by (auto simp: loop_star simp del: star_spec.simps)
    next
      case step
      let ?star = "map_option (\<lambda>(sp, taken). (sp, taken @ [x])) star"
      have "since_star q ?star"
        using 1(2) step by (fastforce simp: since_star_def)
      then have "loop q u ?star \<longleftrightarrow> star_spec same q u \<or> later_start u ?star"
        by (intro IH) (auto simp: work_left_def step Cons split: option.splits)
      moreover have "later_start u ?star \<longleftrightarrow> later_start (x # u) star"
        by (cases star) (auto simp: later_start_def simp del: drop_append)
      ultimately show ?thesis using step Cons by (simp add: loop_same)
    next
      case stuck
      then have no: "\<not> star_spec same p (x # u)" by (cases p) auto
      show ?thesis
      proof (cases star)
        case None
        with no stuck show ?thesis by (simp add: Cons loop_stuck later_start_def)
      next
        case (Some st)
        obtain sp taken where st: "st = (sp, taken)" by (cases st)
        have "loop sp (tl (taken @ x # u)) (Some (sp, [])) \<longleftrightarrow>
            star_spec same sp (tl (taken @ x # u)) \<or> later_start (tl (taken @ x # u)) (Some (sp, []))"
          by (rule IH) (auto simp: work_left_def since_star_def Some st Cons)
        also have "\<dots> \<longleftrightarrow> later_start (x # u) star"
          using drop_positive [of "star_spec same sp" "taken @ x # u"] by (simp add: later_start_def Some st del: drop_append)
        finally show ?thesis using no stuck Some st Cons by (simp add: loop_stuck)
      qed
    qed
  qed
qed

lemma from_the_start: "loop p t None \<longleftrightarrow> star_spec same p t"
  using loop_spec [of p None t] by (simp add: since_star_def later_start_def)

end

interpretation segment: last_star_loop "\<lambda>c x. c = CHR ''?'' \<or> c = x" segment_loop
proof
  show "segment_loop (CHR ''*'' # p) (x # t) star \<longleftrightarrow> segment_loop p (x # t) (Some (p, []))" for p x t star
    by (subst segment_loop.simps(2)) simp
  show "segment_loop (c # p) (x # t) star \<longleftrightarrow> segment_loop p t (map_option (\<lambda>(sp, taken). (sp, taken @ [x])) star)"
    if "c \<noteq> CHR ''*''" "c = CHR ''?'' \<or> c = x" for c x p t star
    using that by (subst segment_loop.simps(2)) auto
  show "segment_loop p (x # t) star \<longleftrightarrow> (\<exists>sp taken. star = Some (sp, taken) \<and> segment_loop sp (tl (taken @ x # t)) (Some (sp, [])))"
    if "p = [] \<or> hd p \<noteq> CHR ''*'' \<and> \<not> (hd p = CHR ''?'' \<or> hd p = x)" for p x t star
    using that by (subst segment_loop.simps(2), cases p) (auto split: option.splits)
qed simp

lemma segmentMatches_spec: "segmentMatches p t \<longleftrightarrow> segment_spec p t"
  unfolding segmentMatches_def segment_spec_def by (rule segment.from_the_start)

section \<open>Paths\<close>

lemma glob_spec_snoc:
  "glob_spec (ps @ [p]) xs \<longleftrightarrow>
     (if p = ''**'' then \<exists>k \<le> length xs. glob_spec ps (take k xs)
      else xs \<noteq> [] \<and> glob_spec ps (butlast xs) \<and> segment_spec p (last xs))"
proof (induction ps arbitrary: xs)
  case Nil
  show ?case by (cases xs rule: rev_cases) (auto split: list.splits simp: append_eq_Cons_conv)
next
  case (Cons q ps)
  show ?case
  proof (cases "q = ''**''")
    case True
    have cut: "(\<exists>k \<le> length xs. \<exists>m \<le> length xs - k. glob_spec ps (take m (drop k xs))) \<longleftrightarrow>
        (\<exists>m \<le> length xs. \<exists>k \<le> min (length xs) m. glob_spec ps (drop k (take m xs)))"
    proof (intro iffI; elim exE conjE)
      fix k m assume "k \<le> length xs" "m \<le> length xs - k" "glob_spec ps (take m (drop k xs))"
      then show "\<exists>m \<le> length xs. \<exists>k \<le> min (length xs) m. glob_spec ps (drop k (take m xs))"
        by (intro exI [of _ "k + m"] exI [of _ k] conjI) (simp_all add: drop_take)
    next
      fix m k assume "m \<le> length xs" "k \<le> min (length xs) m" "glob_spec ps (drop k (take m xs))"
      then show "\<exists>k \<le> length xs. \<exists>m \<le> length xs - k. glob_spec ps (take m (drop k xs))"
        by (intro exI [of _ k] exI [of _ "m - k"] conjI) (simp_all add: drop_take)
    qed
    have last: "(\<exists>k \<le> length xs. drop k xs \<noteq> [] \<and> glob_spec ps (butlast (drop k xs)) \<and> segment_spec p (last (drop k xs))) \<longleftrightarrow>
        xs \<noteq> [] \<and> (\<exists>k \<le> length xs - 1. glob_spec ps (drop k (butlast xs))) \<and> segment_spec p (last xs)"
      by (cases xs rule: rev_cases) (auto simp: butlast_append le_Suc_eq)
    show ?thesis using True Cons.IH cut last by simp
  next
    case False
    show ?thesis
    proof (cases xs)
      case (Cons y ys)
      have "(\<exists>k \<le> length xs. glob_spec (q # ps) (take k xs)) \<longleftrightarrow> segment_spec q y \<and> (\<exists>k \<le> length ys. glob_spec ps (take k ys))"
        using False Cons by (auto simp: ex_le_Suc)
      then show ?thesis using False Cons Cons.IH [of ys] by (auto split: list.splits)
    qed (use False in auto)
  qed
qed

text \<open>The cells of a row, once the row above is known as a function of the column.\<close>

lemma glob_cells_map:
  assumes "\<And>j. j < length xs \<Longrightarrow> g (Suc j) = (if seg = ''**'' then f (Suc j) \<or> g j else f j \<and> segmentMatches seg (xs ! j))"
  shows "glob_cells seg (f i) (g i) (map f [Suc i..<Suc (length xs)]) (drop i xs) = map g [Suc i..<Suc (length xs)]"
proof (induction "length xs - i" arbitrary: i)
  case (Suc n)
  then have i: "i < length xs" by simp
  then have cut: "drop i xs = xs ! i # drop (Suc i) xs" "[Suc i..<Suc (length xs)] = Suc i # [Suc (Suc i)..<Suc (length xs)]"
    by (simp_all add: Cons_nth_drop_Suc upt_rec del: upt_Suc)
  have "glob_cells seg (f (Suc i)) (g (Suc i)) (map f [Suc (Suc i)..<Suc (length xs)]) (drop (Suc i) xs)
      = map g [Suc (Suc i)..<Suc (length xs)]"
    using Suc by simp
  then show ?case
    unfolding cut list.map glob_cells.simps Let_def assms [OF i, symmetric] by simp
qed (simp del: upt_Suc)

lemma glob_row_spec:
  "glob_row xs seg (map (\<lambda>n. glob_spec ps (take n xs)) [0..<Suc (length xs)])
   = map (\<lambda>n. glob_spec (ps @ [seg]) (take n xs)) [0..<Suc (length xs)]"
proof -
  let ?f = "\<lambda>n. glob_spec ps (take n xs)" and ?g = "\<lambda>n. glob_spec (ps @ [seg]) (take n xs)"
  have columns: "[0..<Suc (length xs)] = 0 # [Suc 0..<Suc (length xs)]" by (simp add: upt_rec del: upt_Suc)
  have first: "?g 0 = (seg = ''**'' \<and> ?f 0)" by (simp add: glob_spec_snoc)
  have "?g (Suc j) = (if seg = ''**'' then ?f (Suc j) \<or> ?g j else ?f j \<and> segmentMatches seg (xs ! j))" if "j < length xs" for j
  proof (cases "seg = ''**''")
    case True
    have "?g n \<longleftrightarrow> (\<exists>k \<le> n. ?f k)" if "n \<le> length xs" for n
      using that True by (auto simp: glob_spec_snoc min_absorb1 min_absorb2)
    then show ?thesis using that True le_Suc_eq by (metis Suc_leI less_imp_le)
  qed (use that in \<open>simp add: glob_spec_snoc segmentMatches_spec take_Suc_conv_app_nth\<close>)
  then have "glob_cells seg (?f 0) (?g 0) (map ?f [Suc 0..<Suc (length xs)]) (drop 0 xs) = map ?g [Suc 0..<Suc (length xs)]"
    by (rule glob_cells_map)
  then show ?thesis unfolding glob_row_def columns list.map list.sel first [symmetric] Let_def by simp
qed

lemma glob_rows_spec:
  "fold (glob_row xs) qs (map (\<lambda>n. glob_spec ps (take n xs)) [0..<Suc (length xs)])
   = map (\<lambda>n. glob_spec (ps @ qs) (take n xs)) [0..<Suc (length xs)]"
  by (induction qs arbitrary: ps) (simp_all add: glob_row_spec del: upt_Suc)

section \<open>Properties\<close>

text \<open>Matching one segment with a single remembered star agrees with trying every length for
  every star: going back to the last star only never loses a match.\<close>

theorem segment_match_is_complete: "segmentMatches pattern t \<longleftrightarrow> segment_spec pattern t"
  by (rule segmentMatches_spec)

text \<open>C14: The row-by-row table of the glob decides exactly whether the path's segments can be read as the
  pattern's, a \<open>**\<close> segment standing for any number of them.\<close>

theorem glob_table_is_complete: "globMatches pattern path \<longleftrightarrow> glob_spec (segmentsOf pattern) (segmentsOf path)"
proof -
  let ?xs = "segmentsOf path"
  have start: "map (\<lambda>n. n = 0) [0..<length ?xs + 1] = map (\<lambda>n. glob_spec [] (take n ?xs)) [0..<Suc (length ?xs)]"
    by (auto simp del: upt_Suc)
  have "globMatches pattern path = map (\<lambda>n. glob_spec (segmentsOf pattern) (take n ?xs)) [0..<Suc (length ?xs)] ! length ?xs"
    unfolding globMatches_def Let_def start glob_rows_spec by simp
  then show ?thesis by (simp add: nth_append)
qed

end
