(* ===== verification/Shell_Scanner.thy ===== *)
theory Shell_Scanner
  imports Fleet_Prelude
begin

text \<open>
  The tokenizer of shell text, \<^verbatim>\<open>policy/shellScanner.ts\<close>: the lookahead functions that find the end of a
  substitution, the scanner object with its methods, and \<open>scanShell\<close>.

  The scanner's \<open>position\<close> in its \<open>source\<close> is kept as the unread rest of the text; an index returned
  by a lookahead is the distance from the start of the rest it was given. The two loops of the
  class (\<open>scan\<close>, \<open>readDoubleQuoted\<close>) are recursive functions whose termination is the
  scanner's progress: every step leaves a strictly shorter rest. A redirect token whose here-document body
  arrives later is referred to by its index in the token list.
\<close>

section \<open>Tokens\<close>

datatype control_operator =
  Semicolon | AndAnd | OrOr | Pipe | PipeAmp | Amp | Newline | LParen | RParen

datatype redirect_operator =
  Gt | GtGt | GtPipe | AmpGt | AmpGtGt | Lt | LtLt | LtLtLt | GtAmp | LtAmp | LtGt

record heredoc_body =
  hd_body :: string
  hd_expands :: bool

datatype shell_token =
    Word string bool "string list" \<comment> \<open>\<open>text\<close>, \<open>isQuoted\<close>, \<open>substitutions\<close>\<close>
  | Operator control_operator
  | Redirect redirect_operator "nat option" "heredoc_body option" \<comment> \<open>\<open>operator\<close>, \<open>fd\<close>, \<open>heredoc\<close>\<close>

record scan_result =
  sr_tokens :: "shell_token list"
  sr_isPartial :: bool

datatype nesting_frame = ParenFrame | BraceFrame | DoubleFrame

record pending_heredoc =
  ph_token :: nat
  ph_delimiter :: string
  ph_expands :: bool
  ph_stripsTabs :: bool

record word_under_construction =
  isStarted :: bool
  isQuoted :: bool
  wtext :: string
  substitutions :: "string list"

section \<open>Character classes\<close>

definition DOUBLE_QUOTE_ESCAPABLE :: "char list" where
  "DOUBLE_QUOTE_ESCAPABLE = [CHR ''$'', BACKTICK, DQUOTE, BACKSLASH]"

definition ANSI_SIMPLE_ESCAPES :: "(char \<times> char) list" where
  "ANSI_SIMPLE_ESCAPES =
     [(CHR ''n'', NL), (CHR ''t'', TAB), (CHR ''r'', CR), (CHR ''a'', CHR 0x07), (CHR ''b'', CHR 0x08),
      (CHR ''e'', CHR 0x1B), (CHR ''f'', CHR 0x0C), (CHR ''v'', CHR 0x0B),
      (BACKSLASH, BACKSLASH), (SQUOTE, SQUOTE), (DQUOTE, DQUOTE), (CHR ''?'', CHR ''?'')]"

definition BLANK_CHARACTERS :: "char list" where
  "BLANK_CHARACTERS = [CHR '' '', TAB, CR]"

definition CONTROL_CHARACTERS :: "char list" where
  "CONTROL_CHARACTERS = '';&|()''"

definition isDigits :: "string \<Rightarrow> bool" where
  "isDigits t \<longleftrightarrow> t \<noteq> [] \<and> list_all is_digit t"

definition isOctalDigit :: "char \<Rightarrow> bool" where
  "isOctalDigit c \<longleftrightarrow> c \<in> set ''01234567''"

definition isHexDigit :: "char \<Rightarrow> bool" where
  "isHexDigit c \<longleftrightarrow> c \<in> set ''0123456789abcdefABCDEF''"

text \<open>\<open>parseInt\<close> on digits of the base, and \<open>Number\<close> on decimal digits.\<close>

definition digit_value :: "char \<Rightarrow> nat" where
  "digit_value c = (let n = (of_char c :: nat) in
     if n \<le> 57 then n - 48 else if n \<le> 70 then n - 55 else n - 87)"

definition parse_digits :: "nat \<Rightarrow> string \<Rightarrow> nat" where
  "parse_digits base ds = foldl (\<lambda>acc d. acc * base + digit_value d) 0 ds"

text \<open>\<open>String.fromCodePoint\<close> for the code points an escape can name (at most four hexadecimal digits).\<close>

definition fromCodePoint :: "nat \<Rightarrow> string" where
  "fromCodePoint n =
     (if n < 0x80 then [char_of n]
      else if n < 0x800 then [char_of (0xC0 + n div 64), char_of (0x80 + n mod 64)]
      else [char_of (0xE0 + n div 4096), char_of (0x80 + n div 64 mod 64), char_of (0x80 + n mod 64)])"

section \<open>Lookahead\<close>

text \<open>The distance of the closing backtick in the text after an opening one.\<close>

fun findClosingBacktick :: "string \<Rightarrow> nat option" where
  "findClosingBacktick [] = None"
| "findClosingBacktick [c] = (if c = BACKTICK then Some 0 else None)"
| "findClosingBacktick (c # d # s) =
     (if c = BACKSLASH then map_option (\<lambda>n. n + 2) (findClosingBacktick s)
      else if c = BACKTICK then Some 0
      else map_option Suc (findClosingBacktick (d # s)))"

fun unescapeBackticks :: "string \<Rightarrow> string" where
  "unescapeBackticks [] = []"
| "unescapeBackticks [c] = [c]"
| "unescapeBackticks (c # d # s) =
     (if c = BACKSLASH \<and> (d = BACKTICK \<or> d = BACKSLASH \<or> d = CHR ''$'') then d # unescapeBackticks s
      else c # unescapeBackticks (d # s))"

definition index_of :: "char \<Rightarrow> string \<Rightarrow> nat option" where
  "index_of c s = (if c \<in> set s then Some (length (take_until c s)) else None)"

abbreviation next_char :: "string \<Rightarrow> char option" where
  "next_char s \<equiv> (case s of [] \<Rightarrow> None | c # _ \<Rightarrow> Some c)"

text \<open>The frames are a stack with its top in front.\<close>

function findClosingIndex :: "nesting_frame list \<Rightarrow> string \<Rightarrow> nat option" where
  "findClosingIndex frames [] = None"
| "findClosingIndex frames (c # s) =
     (let next = next_char s; innermost = (case frames of [] \<Rightarrow> None | f # _ \<Rightarrow> Some f) in
      if c = BACKSLASH then map_option (\<lambda>n. n + 2) (findClosingIndex frames (drop 1 s))
      else if c = BACKTICK then
        (case findClosingBacktick s of
           None \<Rightarrow> None
         | Some k \<Rightarrow> map_option (\<lambda>n. n + k + 2) (findClosingIndex frames (drop (Suc k) s)))
      else if c = CHR ''$'' \<and> next = Some (CHR ''('') then
        map_option (\<lambda>n. n + 2) (findClosingIndex (ParenFrame # frames) (drop 1 s))
      else if c = CHR ''$'' \<and> next = Some (CHR ''{'') then
        map_option (\<lambda>n. n + 2) (findClosingIndex (BraceFrame # frames) (drop 1 s))
      else if innermost = Some DoubleFrame then
        map_option Suc (findClosingIndex (if c = DQUOTE then tl frames else frames) s)
      else if c = SQUOTE then
        (case index_of SQUOTE s of
           None \<Rightarrow> None
         | Some k \<Rightarrow> map_option (\<lambda>n. n + k + 2) (findClosingIndex frames (drop (Suc k) s)))
      else if c = DQUOTE then map_option Suc (findClosingIndex (DoubleFrame # frames) s)
      else if c = CHR ''('' \<and> innermost = Some ParenFrame then
        map_option Suc (findClosingIndex (ParenFrame # frames) s)
      else if (c = CHR '')'' \<and> innermost = Some ParenFrame) \<or> (c = CHR ''}'' \<and> innermost = Some BraceFrame) then
        (if tl frames = [] then Some 0 else map_option Suc (findClosingIndex (tl frames) s))
      else map_option Suc (findClosingIndex frames s))"
  by pat_completeness auto
termination
  by (relation "measure (\<lambda>(frames, s). length s)") auto

declare findClosingIndex.simps(2) [simp del]

definition isArithmetic :: "string \<Rightarrow> bool" where
  "isArithmetic inner \<longleftrightarrow> starts_with inner ''('' \<and> inner \<noteq> [] \<and> last inner = CHR '')''"

text \<open>The scripts found, and whether one of them never closes.\<close>

function substitutionScriptsOf :: "string \<Rightarrow> string list \<times> bool" where
  "substitutionScriptsOf [] = ([], False)"
| "substitutionScriptsOf (c # s) =
     (if c = BACKSLASH then substitutionScriptsOf (drop 1 s)
      else if c = BACKTICK then
        (case findClosingBacktick s of
           None \<Rightarrow> ([unescapeBackticks s], True)
         | Some k \<Rightarrow>
             (let (scripts, isPartial) = substitutionScriptsOf (drop (Suc k) s)
              in (unescapeBackticks (take k s) # scripts, isPartial)))
      else if c = CHR ''$'' \<and> next_char s = Some (CHR ''('') then
        (case findClosingIndex [ParenFrame] (drop 1 s) of
           None \<Rightarrow> (if isArithmetic (drop 1 s) then [] else [drop 1 s], True)
         | Some k \<Rightarrow>
             (let inner = take k (drop 1 s);
                  (scripts, isPartial) = substitutionScriptsOf (drop (Suc k) (drop 1 s))
              in (if isArithmetic inner then scripts else inner # scripts, isPartial)))
      else substitutionScriptsOf s)"
  by pat_completeness auto
termination
  by (relation "measure length") auto

declare substitutionScriptsOf.simps(2) [simp del]

text \<open>The text an escape of \<open>$'\<dots>'\<close> stands for and the characters it takes, the backslash included;
  the argument is the text after the backslash.\<close>

definition decodeAnsiEscape :: "string \<Rightarrow> string \<times> nat" where
  "decodeAnsiEscape s =
     (case s of
        [] \<Rightarrow> ([BACKSLASH], 1)
      | escaped # s' \<Rightarrow>
          (case map_of ANSI_SIMPLE_ESCAPES escaped of
             Some simple \<Rightarrow> ([simple], 2)
           | None \<Rightarrow>
               (let maxDigits = (if escaped = CHR ''x'' then 2 else 4);
                    hex = takeWhile isHexDigit (take maxDigits s');
                    oct = takeWhile isOctalDigit (take 3 s)
                in if (escaped = CHR ''x'' \<or> escaped = CHR ''u'') \<and> hex \<noteq> []
                   then (fromCodePoint (parse_digits 16 hex), 2 + length hex)
                   else if isOctalDigit escaped then (fromCodePoint (parse_digits 8 oct), 1 + length oct)
                   else ([BACKSLASH, escaped], 2))))"

lemma decodeAnsiEscape_consumes: "1 \<le> snd (decodeAnsiEscape s)"
  by (auto simp: decodeAnsiEscape_def Let_def split: list.splits option.splits)

section \<open>The scanner and its words\<close>

record scanner =
  rest :: string
  isPartial :: bool
  tokens :: "shell_token list"
  pendingHeredocs :: "pending_heredoc list"
  heredocAwaitingDelimiter :: "(nat \<times> bool) option" \<comment> \<open>token, \<open>stripsTabs\<close>\<close>
  word :: word_under_construction

definition emptyWord :: word_under_construction where
  "emptyWord = \<lparr>isStarted = False, isQuoted = False, wtext = [], substitutions = []\<rparr>"

definition new_scanner :: "string \<Rightarrow> scanner" where
  "new_scanner source =
     \<lparr>rest = source, isPartial = False, tokens = [], pendingHeredocs = [],
      heredocAwaitingDelimiter = None, word = emptyWord\<rparr>"

definition advance :: "nat \<Rightarrow> scanner \<Rightarrow> scanner" where
  "advance n s = s\<lparr>rest := drop n (rest s)\<rparr>"

definition startWord :: "scanner \<Rightarrow> scanner" where
  "startWord s = s\<lparr>word := (word s)\<lparr>isStarted := True\<rparr>\<rparr>"

definition add_text :: "string \<Rightarrow> scanner \<Rightarrow> scanner" where
  "add_text t s = s\<lparr>word := (word s)\<lparr>wtext := wtext (word s) @ t\<rparr>\<rparr>"

definition append_text :: "string \<Rightarrow> scanner \<Rightarrow> scanner" where
  "append_text t s = add_text t (startWord s)"

definition markQuoted :: "scanner \<Rightarrow> scanner" where
  "markQuoted s = (let s1 = startWord s in s1\<lparr>word := (word s1)\<lparr>isQuoted := True\<rparr>\<rparr>)"

definition mark_partial_when :: "bool \<Rightarrow> scanner \<Rightarrow> scanner" where
  "mark_partial_when b s = s\<lparr>isPartial := isPartial s \<or> b\<rparr>"

definition push_substitutions :: "string list \<Rightarrow> scanner \<Rightarrow> scanner" where
  "push_substitutions scripts s =
     s\<lparr>word := (word s)\<lparr>substitutions := substitutions (word s) @ scripts\<rparr>\<rparr>"

definition addSubstitution :: "string \<Rightarrow> string \<Rightarrow> scanner \<Rightarrow> scanner" where
  "addSubstitution raw script s = push_substitutions [script] (append_text raw s)"

definition registerHeredocDelimiter :: "string \<Rightarrow> bool \<Rightarrow> scanner \<Rightarrow> scanner" where
  "registerHeredocDelimiter delimiter quoted s =
     (case heredocAwaitingDelimiter s of
        None \<Rightarrow> s
      | Some (token, stripsTabs) \<Rightarrow>
          s\<lparr>pendingHeredocs := pendingHeredocs s @
              [\<lparr>ph_token = token, ph_delimiter = delimiter, ph_expands = \<not> quoted, ph_stripsTabs = stripsTabs\<rparr>],
            heredocAwaitingDelimiter := None\<rparr>)"

definition endWord :: "scanner \<Rightarrow> scanner" where
  "endWord s =
     (if \<not> isStarted (word s) then s
      else (let w = word s;
                s1 = s\<lparr>tokens := tokens s @ [Word (wtext w) (isQuoted w) (substitutions w)]\<rparr>;
                s2 = registerHeredocDelimiter (wtext w) (isQuoted w) s1
            in s2\<lparr>word := emptyWord\<rparr>))"

section \<open>Reading the parts of a word\<close>

definition readSingleQuoted :: "scanner \<Rightarrow> scanner" where
  "readSingleQuoted s0 =
     (let s = markQuoted s0; body = drop 1 (rest s)
      in case index_of SQUOTE body of
           None \<Rightarrow> (add_text body (mark_partial_when True s))\<lparr>rest := []\<rparr>
         | Some k \<Rightarrow> (add_text (take k body) s)\<lparr>rest := drop (Suc k) body\<rparr>)"

definition readDoubleQuotedEscape :: "scanner \<Rightarrow> scanner" where
  "readDoubleQuotedEscape s =
     (case next_char (drop 1 (rest s)) of
        Some escaped \<Rightarrow>
          (if escaped \<in> set DOUBLE_QUOTE_ESCAPABLE then advance 2 (add_text [escaped] s)
           else if escaped = NL then advance 2 s
           else advance 1 (add_text [BACKSLASH] s))
      | None \<Rightarrow> advance 1 (add_text [BACKSLASH] s))"

definition readEscape :: "scanner \<Rightarrow> scanner" where
  "readEscape s0 =
     (let escaped = next_char (drop 1 (rest s0)); s = advance 2 s0
      in if escaped = Some NL then s
         else add_text (case escaped of None \<Rightarrow> [BACKSLASH] | Some e \<Rightarrow> [e]) (markQuoted s))"

definition readBackticks :: "scanner \<Rightarrow> scanner" where
  "readBackticks s =
     (let body = drop 1 (rest s)
      in case findClosingBacktick body of
           None \<Rightarrow>
             (addSubstitution (rest s) (unescapeBackticks body) (mark_partial_when True s))\<lparr>rest := []\<rparr>
         | Some k \<Rightarrow>
             (addSubstitution (take (k + 2) (rest s)) (unescapeBackticks (take k body)) s)
               \<lparr>rest := drop (Suc k) body\<rparr>)"

definition readDollarParenthesis :: "scanner \<Rightarrow> scanner" where
  "readDollarParenthesis s0 =
     (let body = drop 2 (rest s0);
          closing = findClosingIndex [ParenFrame] body;
          end = (case closing of None \<Rightarrow> length body | Some k \<Rightarrow> k);
          s = mark_partial_when (closing = None) s0;
          inner = take end body;
          raw = take (end + 3) (rest s0);
          s1 = (if isArithmetic inner then append_text raw s else addSubstitution raw inner s)
      in s1\<lparr>rest := drop (Suc end) body\<rparr>)"

definition readParameterExpansion :: "scanner \<Rightarrow> scanner" where
  "readParameterExpansion s0 =
     (let body = drop 2 (rest s0);
          closing = findClosingIndex [BraceFrame] body;
          end = (case closing of None \<Rightarrow> length body | Some k \<Rightarrow> k);
          s = mark_partial_when (closing = None) s0;
          nested = substitutionScriptsOf (take end body);
          s1 = push_substitutions (fst nested) (append_text (take (end + 3) (rest s0)) s)
      in s1\<lparr>rest := drop (Suc end) body\<rparr>)"

definition readProcessSubstitution :: "scanner \<Rightarrow> scanner" where
  "readProcessSubstitution s0 =
     (let body = drop 2 (rest s0);
          closing = findClosingIndex [ParenFrame] body;
          end = (case closing of None \<Rightarrow> length body | Some k \<Rightarrow> k);
          s = mark_partial_when (closing = None) s0;
          s1 = addSubstitution (take (end + 3) (rest s0)) (take end body) s
      in s1\<lparr>rest := drop (Suc end) body\<rparr>)"

text \<open>The loop of \<open>readAnsiCQuoted\<close>: the text it collects, whether it closed, and the rest.\<close>

function ansi_quoted :: "string \<Rightarrow> string \<times> bool \<times> string" where
  "ansi_quoted [] = ([], False, [])"
| "ansi_quoted (c # s) =
     (if c = SQUOTE then ([], True, s)
      else if c = BACKSLASH then
        (let (text, consumed) = decodeAnsiEscape s; (t, closed, r) = ansi_quoted (drop (consumed - 1) s)
         in (text @ t, closed, r))
      else (let (t, closed, r) = ansi_quoted s in (c # t, closed, r)))"
  by pat_completeness auto
termination
  by (relation "measure length") auto

declare ansi_quoted.simps(2) [simp del]

definition readAnsiCQuoted :: "scanner \<Rightarrow> scanner" where
  "readAnsiCQuoted s0 =
     (let s = markQuoted s0; (text, closed, r) = ansi_quoted (drop 2 (rest s))
      in (mark_partial_when (\<not> closed) (add_text text s))\<lparr>rest := r\<rparr>)"

definition readDollar :: "bool \<Rightarrow> scanner \<Rightarrow> scanner" where
  "readDollar insideDoubleQuotes s =
     (let next = next_char (drop 1 (rest s)) in
      if next = Some (CHR ''('') then readDollarParenthesis s
      else if next = Some (CHR ''{'') then readParameterExpansion s
      else if next = Some SQUOTE \<and> \<not> insideDoubleQuotes then readAnsiCQuoted s
      else if next = Some DQUOTE \<and> \<not> insideDoubleQuotes then advance 1 s
      else advance 1 (append_text ''$'' s))"

section \<open>Progress\<close>

text \<open>What each helper does to the unread rest. The facts are collected in \<open>scan_rest\<close>.\<close>

named_theorems scan_rest \<open>the unread rest after a scanner operation\<close>

lemma rest_helpers [simp, scan_rest]:
  "rest (advance n s) = drop n (rest s)"
  "rest (startWord s) = rest s"
  "rest (add_text t s) = rest s"
  "rest (append_text t s) = rest s"
  "rest (markQuoted s) = rest s"
  "rest (mark_partial_when b s) = rest s"
  "rest (push_substitutions xs s) = rest s"
  "rest (addSubstitution raw script s) = rest s"
  "rest (registerHeredocDelimiter d q s) = rest s"
  "rest (endWord s) = rest s"
  by (simp_all add: advance_def startWord_def add_text_def append_text_def markQuoted_def
      mark_partial_when_def push_substitutions_def addSubstitution_def registerHeredocDelimiter_def
      endWord_def Let_def split: option.splits)

text \<open>\<open>shrinks f\<close>: on a scanner with something left to read, \<open>f\<close> leaves a strictly shorter suffix.\<close>

definition shrinks :: "(scanner \<Rightarrow> scanner) \<Rightarrow> bool" where
  "shrinks f \<longleftrightarrow> (\<forall>s. rest s \<noteq> [] \<longrightarrow> (\<exists>n > 0. rest (f s) = drop n (rest s)))"

lemma shrinksI:
  assumes "\<And>s. rest s \<noteq> [] \<Longrightarrow> \<exists>n > 0. rest (f s) = drop n (rest s)"
  shows "shrinks f"
  using assms by (simp add: shrinks_def)

lemma shrinks_dropI: "0 < n \<Longrightarrow> r = drop n xs \<Longrightarrow> \<exists>n > 0. r = drop n xs"
  by blast

lemma shrinksD: "shrinks f \<Longrightarrow> rest s \<noteq> [] \<Longrightarrow> \<exists>n > 0. rest (f s) = drop n (rest s)"
  by (simp add: shrinks_def)

lemma drop_shrinks: "0 < n \<Longrightarrow> \<exists>m > 0. drop n xs = drop m xs"
  by blast

lemma shrinks_length: "shrinks f \<Longrightarrow> rest s \<noteq> [] \<Longrightarrow> length (rest (f s)) < length (rest s)"
  by (fastforce simp: shrinks_def)

lemma shrinks_readSingleQuoted: "shrinks readSingleQuoted"
proof (rule shrinksI)
  fix s :: scanner assume "rest s \<noteq> []"
  show "\<exists>n > 0. rest (readSingleQuoted s) = drop n (rest s)"
  proof (cases "index_of SQUOTE (drop 1 (rest s))")
    case None
    then show ?thesis
      by (intro shrinks_dropI [of "Suc (length (rest s))"]) (auto simp: readSingleQuoted_def Let_def)
  next
    case (Some k)
    then show ?thesis
      by (intro shrinks_dropI [of "k + 2"]) (auto simp: readSingleQuoted_def Let_def)
  qed
qed

lemma shrinks_readDoubleQuotedEscape: "shrinks readDoubleQuotedEscape"
  by (rule shrinksI) (auto simp: readDoubleQuotedEscape_def intro: drop_shrinks split: option.splits)

lemma shrinks_readEscape: "shrinks readEscape"
  by (rule shrinksI) (auto simp: readEscape_def Let_def intro: drop_shrinks)

lemma shrinks_readBackticks: "shrinks readBackticks"
proof (rule shrinksI)
  fix s :: scanner assume "rest s \<noteq> []"
  show "\<exists>n > 0. rest (readBackticks s) = drop n (rest s)"
  proof (cases "findClosingBacktick (drop 1 (rest s))")
    case None
    then show ?thesis
      by (intro shrinks_dropI [of "Suc (length (rest s))"]) (auto simp: readBackticks_def Let_def)
  next
    case (Some k)
    then show ?thesis
      by (intro shrinks_dropI [of "k + 2"]) (auto simp: readBackticks_def Let_def)
  qed
qed

lemma shrinks_readDollarParenthesis: "shrinks readDollarParenthesis"
  by (rule shrinksI) (auto simp: readDollarParenthesis_def Let_def intro: drop_shrinks)

lemma shrinks_readParameterExpansion: "shrinks readParameterExpansion"
  by (rule shrinksI) (auto simp: readParameterExpansion_def Let_def intro: drop_shrinks)

lemma shrinks_readProcessSubstitution: "shrinks readProcessSubstitution"
  by (rule shrinksI) (auto simp: readProcessSubstitution_def Let_def intro: drop_shrinks)

lemma ansi_quoted_rest: "\<exists>n. snd (snd (ansi_quoted s)) = drop n s"
proof (induction s rule: ansi_quoted.induct)
  case (2 c s)
  consider "c = SQUOTE" | "c \<noteq> SQUOTE" "c = BACKSLASH" | "c \<noteq> SQUOTE" "c \<noteq> BACKSLASH" by blast
  then show ?case
  proof cases
    case 1
    then show ?thesis by (intro exI [of _ 1]) (simp add: ansi_quoted.simps(2))
  next
    case 2
    obtain decoded consumed where d: "decodeAnsiEscape s = (decoded, consumed)" by (cases "decodeAnsiEscape s")
    with 2 "2.IH"(1) obtain n where "snd (snd (ansi_quoted (drop (consumed - 1) s))) = drop n (drop (consumed - 1) s)"
      by metis
    then show ?thesis
      using 2 d by (intro exI [of _ "Suc (n + (consumed - 1))"]) (simp add: ansi_quoted.simps(2) split_beta)
  next
    case 3
    with "2.IH"(2) obtain n where "snd (snd (ansi_quoted s)) = drop n s" by blast
    then show ?thesis
      using 3 by (intro exI [of _ "Suc n"]) (simp add: ansi_quoted.simps(2) split_beta)
  qed
qed simp

lemma shrinks_readAnsiCQuoted: "shrinks readAnsiCQuoted"
proof (rule shrinksI)
  fix s :: scanner assume "rest s \<noteq> []"
  obtain n where "snd (snd (ansi_quoted (drop 2 (rest s)))) = drop n (drop 2 (rest s))"
    using ansi_quoted_rest by blast
  then show "\<exists>n > 0. rest (readAnsiCQuoted s) = drop n (rest s)"
    by (intro shrinks_dropI [of "n + 2"]) (simp_all add: readAnsiCQuoted_def split_beta Let_def)
qed

lemma shrinks_readDollar: "shrinks (readDollar q)"
  by (rule shrinksI)
    (auto simp: readDollar_def Let_def intro: drop_shrinks shrinksD [OF shrinks_readDollarParenthesis]
      shrinksD [OF shrinks_readParameterExpansion] shrinksD [OF shrinks_readAnsiCQuoted])

section \<open>Double quotes and word parts\<close>

text \<open>One round of the loop of \<open>readDoubleQuoted\<close>, at a character other than the closing quote.\<close>

definition double_quoted_part :: "scanner \<Rightarrow> scanner" where
  "double_quoted_part s =
     (case rest s of
        [] \<Rightarrow> s
      | c # _ \<Rightarrow>
          (if c = BACKSLASH then readDoubleQuotedEscape s
           else if c = BACKTICK then readBackticks s
           else if c = CHR ''$'' then readDollar True s
           else advance 1 (add_text [c] s)))"

lemma shrinks_double_quoted_part: "shrinks double_quoted_part"
proof (rule shrinksI)
  fix s :: scanner assume ne: "rest s \<noteq> []"
  then obtain c r where r: "rest s = c # r" by (meson neq_Nil_conv)
  have "\<exists>n > 0. rest (advance 1 (add_text [c] s)) = drop n (rest s)"
    by (simp add: drop_shrinks)
  with r show "\<exists>n > 0. rest (double_quoted_part s) = drop n (rest s)"
    using shrinksD [OF shrinks_readDoubleQuotedEscape ne] shrinksD [OF shrinks_readBackticks ne]
      shrinksD [OF shrinks_readDollar ne, of True]
    by (auto simp: double_quoted_part_def)
qed

function double_quoted_loop :: "scanner \<Rightarrow> scanner" where
  "double_quoted_loop s =
     (case rest s of
        [] \<Rightarrow> mark_partial_when True s
      | c # _ \<Rightarrow> (if c = DQUOTE then advance 1 s else double_quoted_loop (double_quoted_part s)))"
  by pat_completeness auto
termination
proof (relation "measure (\<lambda>s. length (rest s))")
  fix s :: scanner and c r
  assume "rest s = c # r" "c \<noteq> DQUOTE"
  then show "(double_quoted_part s, s) \<in> measure (\<lambda>s. length (rest s))"
    using shrinks_length [OF shrinks_double_quoted_part, of s] by simp
qed simp

declare double_quoted_loop.simps [simp del]

definition readDoubleQuoted :: "scanner \<Rightarrow> scanner" where
  "readDoubleQuoted s = double_quoted_loop (advance 1 (markQuoted s))"

lemma double_quoted_loop_rest: "\<exists>n. rest (double_quoted_loop s) = drop n (rest s)"
proof (induction s rule: double_quoted_loop.induct)
  case (1 s)
  show ?case
  proof (cases "rest s")
    case Nil
    then show ?thesis by (simp add: double_quoted_loop.simps)
  next
    case (Cons c r)
    show ?thesis
    proof (cases "c = DQUOTE")
      case True
      with Cons show ?thesis
        by (intro exI [of _ 1]) (simp add: double_quoted_loop.simps)
    next
      case False
      with Cons 1 obtain n where "rest (double_quoted_loop (double_quoted_part s)) = drop n (rest (double_quoted_part s))"
        by blast
      moreover obtain m where "rest (double_quoted_part s) = drop m (rest s)"
        using shrinksD [OF shrinks_double_quoted_part, of s] Cons by auto
      ultimately have "rest (double_quoted_loop (double_quoted_part s)) = drop (n + m) (rest s)" by simp
      with False Cons show ?thesis by (subst double_quoted_loop.simps) auto
    qed
  qed
qed

lemma shrinks_readDoubleQuoted: "shrinks readDoubleQuoted"
proof (rule shrinksI)
  fix s :: scanner assume "rest s \<noteq> []"
  obtain n where "rest (double_quoted_loop (advance 1 (markQuoted s))) = drop n (drop 1 (rest s))"
    using double_quoted_loop_rest [of "advance 1 (markQuoted s)"] by auto
  then show "\<exists>n > 0. rest (readDoubleQuoted s) = drop n (rest s)"
    by (intro shrinks_dropI [of "n + 1"]) (simp_all add: readDoubleQuoted_def)
qed

definition isProcessSubstitution :: "string \<Rightarrow> bool" where
  "isProcessSubstitution r \<longleftrightarrow> (next_char r = Some (CHR ''<'') \<or> next_char r = Some (CHR ''>''))
      \<and> next_char (drop 1 r) = Some (CHR ''('')"

definition scanWordPart :: "scanner \<Rightarrow> scanner" where
  "scanWordPart s =
     (case rest s of
        [] \<Rightarrow> s
      | c # _ \<Rightarrow>
          (if c = SQUOTE then readSingleQuoted s
           else if c = DQUOTE then readDoubleQuoted s
           else if c = BACKSLASH then readEscape s
           else if c = BACKTICK then readBackticks s
           else if c = CHR ''$'' then readDollar False s
           else if isProcessSubstitution (rest s) then readProcessSubstitution s
           else advance 1 (append_text [c] s)))"

lemma shrinks_scanWordPart: "shrinks scanWordPart"
proof (rule shrinksI)
  fix s :: scanner assume ne: "rest s \<noteq> []"
  then obtain c r where r: "rest s = c # r" by (meson neq_Nil_conv)
  have "\<exists>n > 0. rest (advance 1 (append_text [c] s)) = drop n (rest s)"
    by (simp add: drop_shrinks)
  with r show "\<exists>n > 0. rest (scanWordPart s) = drop n (rest s)"
    using shrinksD [OF shrinks_readSingleQuoted ne] shrinksD [OF shrinks_readDoubleQuoted ne]
      shrinksD [OF shrinks_readEscape ne] shrinksD [OF shrinks_readBackticks ne]
      shrinksD [OF shrinks_readDollar ne, of False] shrinksD [OF shrinks_readProcessSubstitution ne]
    by (auto simp: scanWordPart_def)
qed

section \<open>Operators, redirections, here-documents\<close>

definition REDIRECT_OPERATORS_LONGEST_FIRST :: "(string \<times> redirect_operator) list" where
  "REDIRECT_OPERATORS_LONGEST_FIRST =
     [(''<<<'', LtLtLt), (''<<-'', LtLt), (''&>>'', AmpGtGt), (''>>'', GtGt), (''>|'', GtPipe),
      (''>&'', GtAmp), (''<<'', LtLt), (''<&'', LtAmp), (''<>'', LtGt), (''&>'', AmpGt), (''>'', Gt), (''<'', Lt)]"

definition redirectOperatorAt :: "string \<Rightarrow> (string \<times> redirect_operator) option" where
  "redirectOperatorAt r = find (\<lambda>(t, _). starts_with r t) REDIRECT_OPERATORS_LONGEST_FIRST"

definition takeFileDescriptorPrefix :: "scanner \<Rightarrow> nat option \<times> scanner" where
  "takeFileDescriptorPrefix s =
     (let w = word s;
          isPlainNumber = isStarted w \<and> \<not> isQuoted w \<and> substitutions w = [] \<and> isDigits (wtext w)
      in if isPlainNumber then (Some (parse_digits 10 (wtext w)), s\<lparr>word := emptyWord\<rparr>) else (None, s))"

definition scanRedirect :: "scanner \<Rightarrow> scanner" where
  "scanRedirect s0 =
     (case redirectOperatorAt (rest s0) of
        None \<Rightarrow> s0
      | Some (matched, operator) \<Rightarrow>
          (let (fd, s1) = (if starts_with matched ''&'' then (None, s0) else takeFileDescriptorPrefix s0);
               s2 = (if fd = None then endWord s1 else s1);
               stripsTabs = (matched = ''<<-'');
               token = length (tokens s2);
               s3 = advance (length matched) (s2\<lparr>tokens := tokens s2 @ [Redirect operator fd None]\<rparr>)
           in if operator = LtLt then s3\<lparr>heredocAwaitingDelimiter := Some (token, stripsTabs)\<rparr> else s3))"

definition control_operator_at :: "string \<Rightarrow> (control_operator \<times> nat) option" where
  "control_operator_at r =
     (if starts_with r ''&&'' then Some (AndAnd, 2)
      else if starts_with r ''||'' then Some (OrOr, 2)
      else if starts_with r ''|&'' then Some (PipeAmp, 2)
      else (case r of
              [] \<Rightarrow> None
            | c # _ \<Rightarrow>
                map_option (\<lambda>operator. (operator, 1))
                  (map_of (zip CONTROL_CHARACTERS [Semicolon, Amp, Pipe, LParen, RParen]) c)))"

definition scanControl :: "scanner \<Rightarrow> scanner" where
  "scanControl s0 =
     (let s = endWord s0
      in case control_operator_at (rest s) of
           None \<Rightarrow> s
         | Some (operator, width) \<Rightarrow> advance width (s\<lparr>tokens := tokens s @ [Operator operator]\<rparr>))"

text \<open>The lines of one here-document body, whether its delimiter was met, and the rest.\<close>

function heredoc_lines :: "bool \<Rightarrow> string \<Rightarrow> string \<Rightarrow> string list \<times> bool \<times> string" where
  "heredoc_lines stripsTabs delimiter r =
     (if r = [] then ([], False, [])
      else (let line = take_until NL r;
                r' = drop 1 (drop_until NL r);
                comparable = (if stripsTabs then dropWhile (\<lambda>c. c = TAB) line else line)
            in if comparable = delimiter then ([], True, r')
               else (let (ls, isTerminated, r'') = heredoc_lines stripsTabs delimiter r'
                     in (line # ls, isTerminated, r''))))"
  by pat_completeness auto
termination
proof (relation "measure (\<lambda>(_, _, r). length r)")
  fix stripsTabs :: bool and delimiter r line r' comparable :: string
  assume "r \<noteq> []" "r' = drop 1 (drop_until NL r)"
  moreover have "length (drop_until NL r) \<le> length r" by simp
  ultimately show "((stripsTabs, delimiter, r'), stripsTabs, delimiter, r) \<in> measure (\<lambda>(_, _, r). length r)"
    by (cases r) (auto simp del: length_drop_until)
qed simp

declare heredoc_lines.simps [simp del]

definition read_heredoc_body :: "pending_heredoc \<Rightarrow> scanner \<Rightarrow> scanner" where
  "read_heredoc_body pending s =
     (let (ls, isTerminated, r) = heredoc_lines (ph_stripsTabs pending) (ph_delimiter pending) (rest s);
          heredoc = \<lparr>hd_body = join_with [NL] ls, hd_expands = ph_expands pending\<rparr>;
          i = ph_token pending
      in (mark_partial_when (\<not> isTerminated) s)
           \<lparr>rest := r,
            tokens := (case tokens s ! i of
                         Redirect operator fd _ \<Rightarrow> (tokens s)[i := Redirect operator fd (Some heredoc)]
                       | _ \<Rightarrow> tokens s)\<rparr>)"

definition readPendingHeredocBodies :: "scanner \<Rightarrow> scanner" where
  "readPendingHeredocBodies s = fold read_heredoc_body (pendingHeredocs s) (s\<lparr>pendingHeredocs := []\<rparr>)"

definition scanNewline :: "scanner \<Rightarrow> scanner" where
  "scanNewline s0 =
     (let s = endWord s0
      in readPendingHeredocBodies (advance 1 (s\<lparr>tokens := tokens s @ [Operator Newline]\<rparr>)))"

definition skipBlank :: "scanner \<Rightarrow> scanner" where
  "skipBlank s = advance 1 (endWord s)"

definition skipComment :: "scanner \<Rightarrow> scanner" where
  "skipComment s = s\<lparr>rest := drop_until NL (rest s)\<rparr>"

definition scanNext :: "scanner \<Rightarrow> scanner" where
  "scanNext s =
     (case rest s of
        [] \<Rightarrow> s
      | c # _ \<Rightarrow>
          (let isCommentStart = (c = CHR ''#'' \<and> \<not> isStarted (word s)) in
           if c \<in> set BLANK_CHARACTERS then skipBlank s
           else if c = NL then scanNewline s
           else if isCommentStart then skipComment s
           else if redirectOperatorAt (rest s) \<noteq> None \<and> \<not> isProcessSubstitution (rest s) then scanRedirect s
           else if c \<in> set CONTROL_CHARACTERS then scanControl s
           else scanWordPart s))"

section \<open>The scan loop\<close>

lemma heredoc_lines_rest: "\<exists>n. snd (snd (heredoc_lines b d r)) = drop n r"
proof (induction b d r rule: heredoc_lines.induct)
  case (1 b d r)
  have dropped: "\<exists>k. drop 1 (drop_until NL r) = drop k r"
  proof -
    have "drop_until NL r = drop (length (take_until NL r)) r"
      by (metis append_eq_conv_conj take_drop_until)
    then show ?thesis by (metis drop_drop)
  qed
  show ?case
  proof (cases "r = [] \<or> (if b then dropWhile (\<lambda>c. c = TAB) (take_until NL r) else take_until NL r) = d")
    case True
    then show ?thesis
      using dropped by (subst heredoc_lines.simps) (auto simp: Let_def)
  next
    case False
    then obtain n where "snd (snd (heredoc_lines b d (drop 1 (drop_until NL r)))) = drop n (drop 1 (drop_until NL r))"
      using "1.IH" by blast
    with dropped obtain k where "snd (snd (heredoc_lines b d (drop 1 (drop_until NL r)))) = drop k r"
      by (metis drop_drop)
    with False show ?thesis
      by (subst heredoc_lines.simps) (auto simp: Let_def split_beta)
  qed
qed

lemma read_heredoc_body_rest: "\<exists>n. rest (read_heredoc_body p s) = drop n (rest s)"
  using heredoc_lines_rest by (simp add: read_heredoc_body_def Let_def split_beta)

lemma fold_heredoc_rest: "\<exists>n. rest (fold read_heredoc_body ps s) = drop n (rest s)"
proof (induction ps arbitrary: s)
  case (Cons p ps)
  obtain n where "rest (fold read_heredoc_body ps (read_heredoc_body p s)) = drop n (rest (read_heredoc_body p s))"
    using Cons by blast
  moreover obtain m where "rest (read_heredoc_body p s) = drop m (rest s)"
    using read_heredoc_body_rest by blast
  ultimately show ?case by (metis drop_drop fold_simps(2))
qed (simp, metis drop0)

lemma shrinks_scanNewline: "shrinks scanNewline"
proof (rule shrinksI)
  fix s :: scanner
  let ?t = "advance 1 ((endWord s)\<lparr>tokens := tokens (endWord s) @ [Operator Newline]\<rparr>)"
  obtain n where "rest (readPendingHeredocBodies ?t) = drop n (rest ?t)"
    using fold_heredoc_rest [of "pendingHeredocs ?t" "?t\<lparr>pendingHeredocs := []\<rparr>"]
    by (auto simp: readPendingHeredocBodies_def)
  then show "\<exists>n > 0. rest (scanNewline s) = drop n (rest s)"
    by (intro shrinks_dropI [of "n + 1"]) (simp_all add: scanNewline_def Let_def)
qed

lemma redirectOperatorAt_Some:
  assumes "redirectOperatorAt r = Some (matched, operator)"
  shows "(matched, operator) \<in> set REDIRECT_OPERATORS_LONGEST_FIRST" "starts_with r matched" "matched \<noteq> []"
  using assms unfolding redirectOperatorAt_def find_Some_iff REDIRECT_OPERATORS_LONGEST_FIRST_def
  by (auto simp: nth_Cons' split: if_splits)

lemma rest_takeFileDescriptorPrefix [simp]: "rest (snd (takeFileDescriptorPrefix s)) = rest s"
  by (simp add: takeFileDescriptorPrefix_def Let_def)

lemma rest_scanRedirect:
  "redirectOperatorAt (rest s) = Some (matched, operator) \<Longrightarrow> rest (scanRedirect s) = drop (length matched) (rest s)"
  by (simp add: scanRedirect_def Let_def split_beta)

lemma control_operator_at_Some: "control_operator_at r = Some (operator, width) \<Longrightarrow> 0 < width"
  by (auto simp: control_operator_at_def split: if_splits list.splits)

lemma control_operator_at_exists: "c \<in> set CONTROL_CHARACTERS \<Longrightarrow> control_operator_at (c # r) \<noteq> None"
  by (auto simp: control_operator_at_def CONTROL_CHARACTERS_def)

lemma shrinks_scanNext: "shrinks scanNext"
proof (rule shrinksI)
  fix s :: scanner assume ne: "rest s \<noteq> []"
  then obtain c r where r: "rest s = c # r" by (meson neq_Nil_conv)
  have blank: "\<exists>n > 0. rest (skipBlank s) = drop n (rest s)"
    by (simp add: skipBlank_def drop_shrinks)
  have comment: "\<exists>n > 0. rest (skipComment s) = drop n (rest s)" if "c = CHR ''#''"
  proof (rule shrinks_dropI [of "length (take_until NL (rest s))"])
    show "0 < length (take_until NL (rest s))" using r that by (simp add: take_until_def)
    show "rest (skipComment s) = drop (length (take_until NL (rest s))) (rest s)"
      by (simp add: skipComment_def) (metis append_eq_conv_conj take_drop_until)
  qed
  have redirect: "\<exists>n > 0. rest (scanRedirect s) = drop n (rest s)" if "redirectOperatorAt (rest s) \<noteq> None"
  proof -
    from that obtain matched operator where m: "redirectOperatorAt (rest s) = Some (matched, operator)" by auto
    then show ?thesis
      using redirectOperatorAt_Some(3) [OF m] by (simp add: rest_scanRedirect drop_shrinks)
  qed
  have control: "\<exists>n > 0. rest (scanControl s) = drop n (rest s)" if "c \<in> set CONTROL_CHARACTERS"
  proof -
    from that obtain operator width where w: "control_operator_at (c # r) = Some (operator, width)"
      using control_operator_at_exists [of c r] by auto
    then show ?thesis
      using control_operator_at_Some [OF w] r by (simp add: scanControl_def Let_def drop_shrinks)
  qed
  show "\<exists>n > 0. rest (scanNext s) = drop n (rest s)"
    using blank comment redirect control shrinksD [OF shrinks_scanNewline ne] shrinksD [OF shrinks_scanWordPart ne] r
    by (auto simp: scanNext_def Let_def)
qed

function scan_loop :: "scanner \<Rightarrow> scanner" where
  "scan_loop s = (if rest s = [] then s else scan_loop (scanNext s))"
  by pat_completeness auto
termination
  by (relation "measure (\<lambda>s. length (rest s))") (auto intro: shrinks_length [OF shrinks_scanNext])

declare scan_loop.simps [simp del]

lemma scan_loop_done [simp]: "rest s = [] \<Longrightarrow> scan_loop s = s"
  by (simp add: scan_loop.simps)

lemma scan_loop_step: "rest s \<noteq> [] \<Longrightarrow> scan_loop s = scan_loop (scanNext s)"
  by (simp add: scan_loop.simps [of s])

lemma scan_loop_to: "rest s \<noteq> [] \<Longrightarrow> scanNext s = s' \<Longrightarrow> scan_loop s = scan_loop s'"
  by (simp add: scan_loop_step)

definition scan :: "scanner \<Rightarrow> scan_result" where
  "scan s0 =
     (let s = endWord (scan_loop s0);
          hasUnreadHeredoc = pendingHeredocs s \<noteq> [] \<or> heredocAwaitingDelimiter s \<noteq> None
      in \<lparr>sr_tokens = tokens s, sr_isPartial = isPartial s \<or> hasUnreadHeredoc\<rparr>)"

definition scanShell :: "string \<Rightarrow> scan_result" where
  "scanShell source = scan (new_scanner source)"

section \<open>Single steps\<close>

text \<open>Characters that a shell word may hold unquoted without changing how it is read.\<close>

definition plain_char :: "char \<Rightarrow> bool" where
  "plain_char c \<longleftrightarrow> c \<notin> set (BLANK_CHARACTERS @ [NL, CHR ''#'', CHR ''<'', CHR ''>''] @ CONTROL_CHARACTERS
     @ [SQUOTE, DQUOTE, BACKSLASH, BACKTICK, CHR ''$''])"

definition plain_word :: "string \<Rightarrow> bool" where
  "plain_word w \<longleftrightarrow> w \<noteq> [] \<and> list_all plain_char w"

lemma redirectOperatorAt_None:
  "c \<notin> set ''<>&'' \<Longrightarrow> redirectOperatorAt (c # r) = None"
  by (simp add: redirectOperatorAt_def REDIRECT_OPERATORS_LONGEST_FIRST_def)

lemma scanNext_word_part:
  assumes "rest s = c # r" "c \<notin> set (BLANK_CHARACTERS @ [NL, CHR ''#'', CHR ''<'', CHR ''>''] @ CONTROL_CHARACTERS)"
  shows "scanNext s = scanWordPart s"
proof -
  have "redirectOperatorAt (rest s) = None"
    using assms by (simp add: redirectOperatorAt_None CONTROL_CHARACTERS_def)
  with assms show ?thesis by (simp add: scanNext_def)
qed

lemmas class_defs = BLANK_CHARACTERS_def CONTROL_CHARACTERS_def

lemma scanNext_plain:
  assumes "rest s = c # r" "plain_char c"
  shows "scanNext s = advance 1 (append_text [c] s)"
proof -
  have "scanNext s = scanWordPart s"
    using assms by (intro scanNext_word_part) (auto simp: plain_char_def)
  with assms show ?thesis
    by (auto simp: scanWordPart_def plain_char_def isProcessSubstitution_def)
qed

lemma scanNext_single_quoted:
  assumes "rest s = SQUOTE # u @ SQUOTE # r" "SQUOTE \<notin> set u"
  shows "scanNext s = (add_text u (markQuoted s))\<lparr>rest := r\<rparr>"
proof -
  have "scanNext s = scanWordPart s"
    using assms by (intro scanNext_word_part) (auto simp: class_defs)
  with assms show ?thesis
    by (simp add: scanWordPart_def readSingleQuoted_def index_of_def Let_def)
qed

lemma scanNext_escaped:
  assumes "rest s = BACKSLASH # c # r" "c \<noteq> NL"
  shows "scanNext s = (add_text [c] (markQuoted s))\<lparr>rest := r\<rparr>"
proof -
  have "scanNext s = scanWordPart s"
    using assms by (intro scanNext_word_part) (auto simp: class_defs)
  with assms show ?thesis
    by (simp add: scanWordPart_def readEscape_def Let_def advance_def add_text_def markQuoted_def startWord_def)
qed

lemma scanNext_blank: "rest s = CHR '' '' # r \<Longrightarrow> scanNext s = advance 1 (endWord s)"
  by (simp add: scanNext_def skipBlank_def class_defs)

text \<open>Operations on the word do not look at the rest, and the loop continues from any equal state.\<close>

lemma scanner_update_order [simp]:
  "s\<lparr>word := w, rest := r\<rparr> = s\<lparr>rest := r, word := w\<rparr>"
  "s\<lparr>tokens := ts, rest := r\<rparr> = s\<lparr>rest := r, tokens := ts\<rparr>"
  "s\<lparr>word := w, tokens := ts\<rparr> = s\<lparr>tokens := ts, word := w\<rparr>"
  by (cases s; simp)+

lemma scan_loop_plain:
  "list_all plain_char w \<Longrightarrow> rest s = w @ r \<Longrightarrow> w \<noteq> [] \<Longrightarrow>
   scan_loop s = scan_loop (s\<lparr>rest := r, word := (word s)\<lparr>isStarted := True, wtext := wtext (word s) @ w\<rparr>\<rparr>)"
proof (induction w arbitrary: s)
  case (Cons c w)
  let ?s = "advance 1 (append_text [c] s)"
  have step: "scan_loop s = scan_loop ?s"
    using Cons.prems scanNext_plain [of s c "w @ r"] by (simp add: scan_loop_step)
  show ?case
  proof (cases "w = []")
    case True
    with step Cons.prems show ?thesis
      by (simp add: advance_def append_text_def add_text_def startWord_def)
  next
    case False
    with Cons.IH [of ?s] Cons.prems step show ?thesis
      by (simp add: advance_def append_text_def add_text_def startWord_def)
  qed
qed simp

section \<open>Quoting\<close>

text \<open>The POSIX way to write an arbitrary text as one word: single quotes, a quote inside written
  as \<open>'\''\<close>.\<close>

fun quote_body :: "string \<Rightarrow> string" where
  "quote_body [] = [SQUOTE]"
| "quote_body (c # w) = (if c = SQUOTE then [SQUOTE, BACKSLASH, SQUOTE, SQUOTE] @ quote_body w else c # quote_body w)"

definition shell_quote :: "string \<Rightarrow> string" where
  "shell_quote w = SQUOTE # quote_body w"

lemma quote_body_append: "SQUOTE \<notin> set u \<Longrightarrow> quote_body (u @ w) = u @ quote_body w"
  by (induction u) auto

lemma scan_loop_quoted:
  "rest s = shell_quote w @ r \<Longrightarrow>
   scan_loop s = scan_loop (s\<lparr>rest := r, word := (word s)\<lparr>isStarted := True, isQuoted := True, wtext := wtext (word s) @ w\<rparr>\<rparr>)"
proof (induction "length w" arbitrary: w s rule: less_induct)
  case less
  show ?case
  proof (cases "SQUOTE \<in> set w")
    case False
    then have "quote_body w = w @ [SQUOTE]"
      using quote_body_append [of w "[]"] by simp
    with less.prems have "rest s = SQUOTE # w @ SQUOTE # r" by (simp add: shell_quote_def)
    with False scanNext_single_quoted [of s w r] show ?thesis
      by (simp add: scan_loop_step add_text_def markQuoted_def startWord_def)
  next
    case True
    then obtain u v where w: "w = u @ SQUOTE # v" "SQUOTE \<notin> set u"
      by (meson split_list_first)
    with less.prems have r0: "rest s = SQUOTE # u @ SQUOTE # (BACKSLASH # SQUOTE # shell_quote v @ r)"
      by (simp add: quote_body_append shell_quote_def)
    let ?s1 = "(add_text u (markQuoted s))\<lparr>rest := BACKSLASH # SQUOTE # shell_quote v @ r\<rparr>"
    let ?s2 = "(add_text [SQUOTE] (markQuoted ?s1))\<lparr>rest := shell_quote v @ r\<rparr>"
    have "scan_loop s = scan_loop ?s1"
      using r0 scanNext_single_quoted [OF r0 w(2)] by (simp add: scan_loop_step)
    also have "\<dots> = scan_loop ?s2"
      using scanNext_escaped [of ?s1 SQUOTE "shell_quote v @ r"] by (simp add: scan_loop_step)
    also have "\<dots> = scan_loop (?s2\<lparr>rest := r, word := (word ?s2)\<lparr>isStarted := True, isQuoted := True, wtext := wtext (word ?s2) @ v\<rparr>\<rparr>)"
      by (rule less.hyps) (simp_all add: w)
    finally show ?thesis
      by (simp add: w add_text_def markQuoted_def startWord_def)
  qed
qed

text \<open>A scanner between two words that waits for no here-document.\<close>

definition between_words :: "scanner \<Rightarrow> bool" where
  "between_words s \<longleftrightarrow> word s = emptyWord \<and> heredocAwaitingDelimiter s = None"

lemma endWord_started:
  assumes "heredocAwaitingDelimiter s = None" "word s = \<lparr>isStarted = True, isQuoted = q, wtext = w, substitutions = subs\<rparr>"
  shows "endWord s = s\<lparr>tokens := tokens s @ [Word w q subs], word := emptyWord\<rparr>"
  using assms by (simp add: endWord_def registerHeredocDelimiter_def Let_def)

lemma scan_loop_words:
  assumes step: "\<And>w s r. w \<in> set ws \<Longrightarrow> rest s = f w @ r \<Longrightarrow> word s = emptyWord \<Longrightarrow>
      scan_loop s = scan_loop (s\<lparr>rest := r, word := \<lparr>isStarted = True, isQuoted = q, wtext = w, substitutions = []\<rparr>\<rparr>)"
    and "ws \<noteq> []" "between_words s" "rest s = join_with '' '' (map f ws)"
  shows "endWord (scan_loop s) = s\<lparr>rest := [], tokens := tokens s @ map (\<lambda>w. Word w q []) ws\<rparr>"
  using assms
proof (induction ws arbitrary: s rule: induct_list012)
  case (2 w)
  then have "scan_loop s = scan_loop (s\<lparr>rest := [], word := \<lparr>isStarted = True, isQuoted = q, wtext = w, substitutions = []\<rparr>\<rparr>)"
    by (intro "2.prems"(1)) (auto simp: between_words_def)
  then show ?case
    using "2.prems"(3) endWord_started by (cases s) (simp add: between_words_def)
next
  case (3 v w ws)
  let ?r = "join_with '' '' (map f (w # ws))"
  let ?s1 = "s\<lparr>rest := CHR '' '' # ?r, word := \<lparr>isStarted = True, isQuoted = q, wtext = v, substitutions = []\<rparr>\<rparr>"
  let ?s2 = "s\<lparr>rest := ?r, tokens := tokens s @ [Word v q []], word := emptyWord\<rparr>"
  have "scan_loop s = scan_loop ?s1"
    using "3.prems" by (intro "3.prems"(1)) (auto simp: between_words_def)
  also have "\<dots> = scan_loop ?s2"
    using "3.prems"(3) scanNext_blank [of ?s1 ?r] endWord_started [of ?s1 q v "[]"]
    by (simp add: scan_loop_step advance_def between_words_def)
  finally have "endWord (scan_loop s) = endWord (scan_loop ?s2)" by simp
  also have "\<dots> = ?s2\<lparr>rest := [], tokens := tokens ?s2 @ map (\<lambda>w. Word w q []) (w # ws)\<rparr>"
    using "3.prems" by (intro "3.IH"(2)) (auto simp: between_words_def)
  finally show ?case
    using "3.prems"(3) by (cases s) (simp add: between_words_def)
qed simp

lemma scanShell_words:
  assumes "\<And>w s r. w \<in> set ws \<Longrightarrow> rest s = f w @ r \<Longrightarrow> word s = emptyWord \<Longrightarrow>
      scan_loop s = scan_loop (s\<lparr>rest := r, word := \<lparr>isStarted = True, isQuoted = q, wtext = w, substitutions = []\<rparr>\<rparr>)"
  shows "scanShell (join_with '' '' (map f ws)) = \<lparr>sr_tokens = map (\<lambda>w. Word w q []) ws, sr_isPartial = False\<rparr>"
proof (cases "ws = []")
  case True
  then show ?thesis by (simp add: scanShell_def scan_def new_scanner_def endWord_def emptyWord_def)
next
  case False
  let ?s = "new_scanner (join_with '' '' (map f ws))"
  have "endWord (scan_loop ?s) = ?s\<lparr>rest := [], tokens := tokens ?s @ map (\<lambda>w. Word w q []) ws\<rparr>"
    using assms False by (rule scan_loop_words) (auto simp: between_words_def new_scanner_def)
  then show ?thesis by (simp add: scanShell_def scan_def new_scanner_def)
qed

section \<open>Substitutions\<close>

text \<open>Scripts whose parentheses and single quotes are well nested.\<close>

inductive nested :: "string \<Rightarrow> bool" where
  nested_Nil: "nested []"
| nested_char: "c \<notin> set [BACKSLASH, BACKTICK, CHR ''$'', SQUOTE, DQUOTE, CHR ''('', CHR '')''] \<Longrightarrow> nested b \<Longrightarrow> nested (c # b)"
| nested_substitution: "nested a \<Longrightarrow> nested b \<Longrightarrow> nested (''$('' @ a @ '')'' @ b)"
| nested_group: "nested a \<Longrightarrow> nested b \<Longrightarrow> nested (''('' @ a @ '')'' @ b)"
| nested_quote: "SQUOTE \<notin> set u \<Longrightarrow> nested b \<Longrightarrow> nested (SQUOTE # u @ SQUOTE # b)"

lemma findClosingIndex_close:
  "findClosingIndex (ParenFrame # fs) (CHR '')'' # r) = (if fs = [] then Some 0 else map_option Suc (findClosingIndex fs r))"
  by (simp add: findClosingIndex.simps(2))

lemma findClosingIndex_nested:
  "nested a \<Longrightarrow> findClosingIndex (ParenFrame # fs) (a @ r)
     = map_option (\<lambda>n. n + length a) (findClosingIndex (ParenFrame # fs) r)"
proof (induction a arbitrary: fs r rule: nested.induct)
  case nested_Nil
  then show ?case by (simp add: option.map_ident)
next
  case (nested_char c b)
  then show ?case
    by (simp add: findClosingIndex.simps(2) option.map_comp comp_def)
next
  case (nested_substitution a b)
  have "findClosingIndex (ParenFrame # fs) ((''$('' @ a @ '')'' @ b) @ r)
        = map_option (\<lambda>n. n + 2) (findClosingIndex (ParenFrame # ParenFrame # fs) (a @ CHR '')'' # b @ r))"
    by (simp add: findClosingIndex.simps(2) [of _ "CHR ''$''"])
  then show ?case
    by (simp add: nested_substitution.IH findClosingIndex_close option.map_comp comp_def add.assoc add.commute add.left_commute)
next
  case (nested_group a b)
  have "findClosingIndex (ParenFrame # fs) ((''('' @ a @ '')'' @ b) @ r)
        = map_option Suc (findClosingIndex (ParenFrame # ParenFrame # fs) (a @ CHR '')'' # b @ r))"
    by (simp add: findClosingIndex.simps(2) [of _ "CHR ''(''"])
  then show ?case
    by (simp add: nested_group.IH findClosingIndex_close option.map_comp comp_def add.assoc add.commute add.left_commute)
next
  case (nested_quote u b)
  have "index_of SQUOTE (u @ SQUOTE # b @ r) = Some (length u)"
    using nested_quote.hyps by (simp add: index_of_def)
  then have "findClosingIndex (ParenFrame # fs) ((SQUOTE # u @ SQUOTE # b) @ r)
        = map_option (\<lambda>n. n + length u + 2) (findClosingIndex (ParenFrame # fs) (b @ r))"
    by (simp add: findClosingIndex.simps(2))
  then show ?case
    by (simp add: nested_quote.IH option.map_comp comp_def add.assoc add.commute add.left_commute)
qed

lemma findClosingIndex_script: "nested script \<Longrightarrow> findClosingIndex [ParenFrame] (script @ CHR '')'' # r) = Some (length script)"
  by (simp add: findClosingIndex_nested findClosingIndex_close)

definition dq_literal :: "char \<Rightarrow> bool" where
  "dq_literal c \<longleftrightarrow> c \<notin> set [DQUOTE, BACKSLASH, BACKTICK, CHR ''$'']"

lemma double_quoted_loop_literal:
  "list_all dq_literal u \<Longrightarrow> rest s = u @ r \<Longrightarrow>
   double_quoted_loop s = double_quoted_loop (s\<lparr>rest := r, word := (word s)\<lparr>wtext := wtext (word s) @ u\<rparr>\<rparr>)"
proof (induction u arbitrary: s)
  case Nil
  then show ?case by (cases s) simp
next
  case (Cons c u)
  have "double_quoted_loop s = double_quoted_loop (advance 1 (add_text [c] s))"
    using Cons.prems by (subst double_quoted_loop.simps) (simp add: dq_literal_def double_quoted_part_def)
  also have "\<dots> = double_quoted_loop (s\<lparr>rest := r, word := (word s)\<lparr>wtext := wtext (word s) @ c # u\<rparr>\<rparr>)"
    using Cons.prems by (subst Cons.IH) (simp_all add: advance_def add_text_def)
  finally show ?case .
qed

lemma double_quoted_loop_substitution:
  assumes "nested script" "\<not> isArithmetic script" "rest s = ''$('' @ script @ CHR '')'' # r"
  shows "double_quoted_loop s = double_quoted_loop ((addSubstitution (''$('' @ script @ '')'') script s)\<lparr>rest := r\<rparr>)"
proof -
  have "double_quoted_part s = readDollarParenthesis s"
    using assms(3) by (simp add: double_quoted_part_def readDollar_def)
  moreover have "mark_partial_when False s = s" by (simp add: mark_partial_when_def)
  moreover have "take (length script + 3) (''$('' @ script @ CHR '')'' # r) = ''$('' @ script @ '')''"
    by (simp add: numeral_3_eq_3)
  ultimately show ?thesis
    using assms findClosingIndex_script [OF assms(1), of r]
    by (subst double_quoted_loop.simps) (simp add: readDollarParenthesis_def Let_def)
qed

lemma scanNext_double_quoted: "rest s = DQUOTE # r \<Longrightarrow> scanNext s = readDoubleQuoted s"
proof -
  assume r: "rest s = DQUOTE # r"
  then have "scanNext s = scanWordPart s"
    by (intro scanNext_word_part) (auto simp: class_defs)
  with r show ?thesis by (simp add: scanWordPart_def)
qed

section \<open>Here-documents\<close>

lemma heredoc_lines_read_back:
  assumes "NL \<notin> set delimiter" "\<forall>l \<in> set ls. NL \<notin> set l \<and> l \<noteq> delimiter"
  shows "heredoc_lines False delimiter (concat (map (\<lambda>l. l @ [NL]) ls) @ delimiter @ NL # r) = (ls, True, r)"
  using assms(2)
proof (induction ls)
  case Nil
  then show ?case
    using assms(1) by (subst heredoc_lines.simps) (simp add: Let_def)
next
  case (Cons l ls)
  then show ?case
    by (subst heredoc_lines.simps) (simp add: Let_def)
qed

lemma scanNext_heredoc_operator:
  assumes "rest s = ''<<'' @ r" "word s = emptyWord" "next_char r \<noteq> Some (CHR ''<'')" "next_char r \<noteq> Some (CHR ''-'')"
  shows "scanNext s = s\<lparr>rest := r, tokens := tokens s @ [Redirect LtLt None None],
           heredocAwaitingDelimiter := Some (length (tokens s), False)\<rparr>"
proof -
  have op: "redirectOperatorAt (rest s) = Some (''<<'', LtLt)"
    using assms by (cases r) (auto simp: redirectOperatorAt_def REDIRECT_OPERATORS_LONGEST_FIRST_def)
  have "scanNext s = scanRedirect s"
    using assms op by (simp add: scanNext_def class_defs isProcessSubstitution_def)
  moreover have "takeFileDescriptorPrefix s = (None, s)" "endWord s = s"
    using assms by (simp_all add: takeFileDescriptorPrefix_def endWord_def emptyWord_def)
  ultimately show ?thesis
    using op assms by (simp add: scanRedirect_def advance_def)
qed

lemma scanShell_quoted:
  "scanShell (join_with '' '' (map shell_quote ws))
   = \<lparr>sr_tokens = map (\<lambda>w. Word w True []) ws, sr_isPartial = False\<rparr>"
  by (rule scanShell_words) (simp add: scan_loop_quoted emptyWord_def)

section \<open>Properties\<close>

text \<open>C29: Quoted words round-trip: whatever the words hold (quotes, blanks, operators, substitutions,
  newlines), writing each one in single quotes and scanning the line gives back exactly those words,
  marked quoted, with no substitution and no operator among them, and the scan is complete.\<close>

theorem quoted_words_round_trip:
  "scanShell (join_with '' '' (map shell_quote ws))
   = \<lparr>sr_tokens = map (\<lambda>w. Word w True []) ws, sr_isPartial = False\<rparr>"
  by (rule scanShell_quoted)

text \<open>Plain words, free of every character the shell treats specially, are read as themselves,
  unquoted, in order.\<close>

lemma plain_words_read_verbatim:
  assumes "\<forall>w \<in> set ws. plain_word w"
  shows "scanShell (join_with '' '' ws) = \<lparr>sr_tokens = map (\<lambda>w. Word w False []) ws, sr_isPartial = False\<rparr>"
proof -
  have "scanShell (join_with '' '' (map id ws)) = \<lparr>sr_tokens = map (\<lambda>w. Word w False []) ws, sr_isPartial = False\<rparr>"
  proof (rule scanShell_words)
    fix w r and s :: scanner assume "w \<in> set ws" "rest s = id w @ r" "word s = emptyWord"
    then show "scan_loop s = scan_loop (s\<lparr>rest := r, word := \<lparr>isStarted = True, isQuoted = False, wtext = w, substitutions = []\<rparr>\<rparr>)"
      using assms scan_loop_plain [of w s r] by (auto simp: plain_word_def emptyWord_def)
  qed
  then show ?thesis by simp
qed

lemma plain_words_read_verbatim_witness:
  "scanShell (join_with '' '' [''git'', ''status'', ''-s''])
   = \<lparr>sr_tokens = [Word ''git'' False [], Word ''status'' False [], Word ''-s'' False []], sr_isPartial = False\<rparr>"
proof -
  have h: "\<forall>w \<in> set [''git'', ''status'', ''-s'']. plain_word w"
    by (simp add: plain_word_def plain_char_def class_defs)
  show ?thesis using plain_words_read_verbatim [OF h] by simp
qed

text \<open>The scan is a single pass: each step on a text that is not exhausted leaves a strictly
  shorter suffix of it, so nothing is read twice and the scan ends.\<close>

theorem scan_is_a_single_pass:
  assumes "rest s \<noteq> []"
  shows "suffix (rest (scanNext s)) (rest s) \<and> length (rest (scanNext s)) < length (rest s)"
  using shrinksD [OF shrinks_scanNext assms] shrinks_length [OF shrinks_scanNext assms] suffix_drop by auto

text \<open>A command substitution written inside double quotes is surfaced: whatever well-nested script
  it holds, the word lists that script among its substitutions, and keeps the whole text.\<close>

theorem double_quoted_substitution_surfaces:
  assumes "nested script" "\<not> isArithmetic script" "list_all dq_literal pre" "list_all dq_literal post"
  shows "scanShell (DQUOTE # pre @ ''$('' @ script @ '')'' @ post @ [DQUOTE])
    = \<lparr>sr_tokens = [Word (pre @ ''$('' @ script @ '')'' @ post) True [script]], sr_isPartial = False\<rparr>"
proof -
  let ?source = "DQUOTE # pre @ ''$('' @ script @ '')'' @ post @ [DQUOTE]"
  let ?s0 = "new_scanner ?source"
  let ?s1 = "advance 1 (markQuoted ?s0)"
  have "scanNext ?s0 = double_quoted_loop ?s1"
    by (subst scanNext_double_quoted [of _ "pre @ ''$('' @ script @ '')'' @ post @ [DQUOTE]"])
       (simp_all add: readDoubleQuoted_def new_scanner_def)
  also
  let ?s2 = "?s1\<lparr>rest := ''$('' @ script @ CHR '')'' # post @ [DQUOTE], word := (word ?s1)\<lparr>wtext := pre\<rparr>\<rparr>"
  let ?s3 = "(addSubstitution (''$('' @ script @ '')'') script ?s2)\<lparr>rest := post @ [DQUOTE]\<rparr>"
  let ?s4 = "?s3\<lparr>rest := [DQUOTE], word := (word ?s3)\<lparr>wtext := wtext (word ?s3) @ post\<rparr>\<rparr>"
  have "double_quoted_loop ?s1 = double_quoted_loop ?s2"
    using assms(3) double_quoted_loop_literal [of pre ?s1 "''$('' @ script @ CHR '')'' # post @ [DQUOTE]"]
    by (simp add: new_scanner_def advance_def markQuoted_def startWord_def emptyWord_def)
  also have "\<dots> = double_quoted_loop ?s3"
    using assms(1,2) by (intro double_quoted_loop_substitution) simp_all
  also have "\<dots> = double_quoted_loop ?s4"
    using assms(4) by (intro double_quoted_loop_literal) simp_all
  also have "\<dots> = advance 1 ?s4"
    by (subst double_quoted_loop.simps) simp
  finally have "scanNext ?s0 = advance 1 ?s4" .
  moreover have "rest ?s0 \<noteq> []" "rest (advance 1 ?s4) = []"
    by (simp_all add: new_scanner_def)
  ultimately have "scan_loop ?s0 = advance 1 ?s4"
    by (metis scan_loop_done scan_loop_step)
  then show ?thesis
    by (simp add: scanShell_def scan_def endWord_def registerHeredocDelimiter_def new_scanner_def advance_def
        addSubstitution_def push_substitutions_def append_text_def add_text_def startWord_def markQuoted_def emptyWord_def)
qed

text \<open>A here-document is read back verbatim: the lines between the delimiter and the line that repeats
  it become the body of the \<open><<\<close> redirection, whatever they hold, and none of them is read as
  commands; the scan is complete.\<close>

theorem heredoc_read_back:
  assumes "plain_word program" "plain_word delimiter" "hd delimiter \<noteq> CHR ''-''"
    and "\<forall>l \<in> set ls. NL \<notin> set l \<and> l \<noteq> delimiter"
  shows "scanShell (program @ '' <<'' @ delimiter @ [NL] @ concat (map (\<lambda>l. l @ [NL]) ls) @ delimiter @ [NL])
    = \<lparr>sr_tokens = [Word program False [],
         Redirect LtLt None (Some \<lparr>hd_body = join_with [NL] ls, hd_expands = True\<rparr>),
         Word delimiter False [], Operator Newline], sr_isPartial = False\<rparr>"
proof -
  let ?body = "concat (map (\<lambda>l. l @ [NL]) ls) @ delimiter @ [NL]"
  let ?s0 = "new_scanner (program @ '' <<'' @ delimiter @ [NL] @ ?body)"
  let ?w = "\<lambda>t. \<lparr>isStarted = True, isQuoted = False, wtext = t, substitutions = []\<rparr>"
  let ?s1 = "?s0\<lparr>rest := '' <<'' @ delimiter @ [NL] @ ?body, word := ?w program\<rparr>"
  let ?s2 = "?s0\<lparr>rest := ''<<'' @ delimiter @ [NL] @ ?body, tokens := [Word program False []]\<rparr>"
  let ?s3 = "?s2\<lparr>rest := delimiter @ NL # ?body, tokens := [Word program False [], Redirect LtLt None None],
           heredocAwaitingDelimiter := Some (1, False)\<rparr>"
  let ?s4 = "?s3\<lparr>rest := NL # ?body, word := ?w delimiter\<rparr>"
  let ?s5 = "?s0\<lparr>rest := [], tokens := [Word program False [],
         Redirect LtLt None (Some \<lparr>hd_body = join_with [NL] ls, hd_expands = True\<rparr>),
         Word delimiter False [], Operator Newline]\<rparr>"
  have "\<forall>c \<in> set delimiter. plain_char c" and d2: "delimiter \<noteq> []"
    using assms(2) by (simp_all add: plain_word_def list_all_iff)
  then have d1: "NL \<notin> set delimiter" and hd: "hd delimiter \<noteq> CHR ''<''"
    using hd_in_set [OF d2] by (auto simp: plain_char_def)
  have d3: "next_char (delimiter @ [NL] @ ?body) = Some (hd delimiter)"
    using d2 by (cases delimiter) simp_all
  have "scan_loop ?s0 = scan_loop ?s1"
    using assms(1) scan_loop_plain [of program ?s0 "'' <<'' @ delimiter @ [NL] @ ?body"]
    by (simp add: plain_word_def new_scanner_def emptyWord_def)
  also have "\<dots> = scan_loop ?s2"
    using scanNext_blank [of ?s1 "''<<'' @ delimiter @ [NL] @ ?body"] endWord_started [of ?s1 False program "[]"]
    by (intro scan_loop_to) (simp_all add: advance_def new_scanner_def)
  also have "\<dots> = scan_loop ?s3"
    using scanNext_heredoc_operator [of ?s2 "delimiter @ [NL] @ ?body"] assms(3) d3 hd
    by (intro scan_loop_to) (simp_all add: new_scanner_def)
  also have "\<dots> = scan_loop ?s4"
    using assms(2) scan_loop_plain [of delimiter ?s3 "NL # ?body"]
    by (simp add: plain_word_def new_scanner_def emptyWord_def)
  also have "\<dots> = scan_loop ?s5"
    using heredoc_lines_read_back [OF d1 assms(4), of "[]"]
    by (intro scan_loop_to)
       (simp_all add: scanNext_def class_defs scanNewline_def readPendingHeredocBodies_def read_heredoc_body_def
         endWord_def registerHeredocDelimiter_def new_scanner_def mark_partial_when_def advance_def)
  finally have "scan_loop ?s0 = ?s5" by simp
  then show ?thesis
    by (simp add: scanShell_def scan_def endWord_def new_scanner_def emptyWord_def)
qed

end
