(* ===== verification/Command_Analyzer.thy ===== *)
theory Command_Analyzer
  imports Shell_Scanner
begin

text \<open>
  The reader of shell text into simple commands, \<^verbatim>\<open>policy/commandAnalyzer.ts\<close>: wrappers and assignments, the
  per-script state that groups tokens into commands, and the nested scripts (\<open>sh -c\<close>, \<open>eval\<close>,
  substitutions, here-documents, \<open>find -exec\<close>).

  The object \<open>AnalysisRun\<close> is the record \<open>analysis_run\<close>, passed through and returned. The methods that
  analyse a nested script take the analysis of that script as an argument; \<open>analyzeScript\<close> ties the
  knot over the number of nesting levels still allowed, of which \<open>MAX_NESTING_DEPTH + 1\<close> are enough
  (\<open>analyzeScript_levels\<close> below), since a script below the deepest level is refused before it is read.
\<close>

section \<open>Data\<close>

definition MAX_COMMAND_CHARS :: nat where "MAX_COMMAND_CHARS = 64 * 1024"
definition MAX_NESTING_DEPTH :: nat where "MAX_NESTING_DEPTH = 5"
definition MAX_COMMANDS :: nat where "MAX_COMMANDS = 2000"

datatype command_origin = Top | InlineShell | Substitution | Subshell | Eval | HeredocScript
datatype analysis_status = Complete | Partial | LimitExceeded

record command_redirect =
  cr_operator :: redirect_operator
  cr_fd :: "nat option"
  cr_target :: string
  cr_heredocBody :: "string option"

record simple_command =
  program :: string
  invokedAs :: string
  args :: "string list"
  assignments :: "string list"
  wrappers :: "string list"
  wrapperOptions :: "string list"
  redirects :: "command_redirect list"
  fedByPipe :: bool
  origin :: command_origin
  depth :: nat
  textHasBareAssignment :: bool

record command_analysis =
  ca_status :: analysis_status
  ca_commands :: "simple_command list"

record placement =
  pl_origin :: command_origin
  pl_depth :: nat

type_synonym word_token = "string \<times> bool" \<comment> \<open>text, \<open>isQuoted\<close>\<close>

record pending_command =
  pc_words :: "word_token list"
  pc_redirects :: "command_redirect list"
  pc_substitutions :: "string list"
  pc_heredocs :: "heredoc_body list"

record script_state =
  pending :: pending_command
  redirectAwaitingTarget :: "(heredoc_body option \<times> nat) option" \<comment> \<open>the token's body, the redirect's index\<close>
  subshellDepth :: nat
  pipeFeedsNext :: bool

record wrapper_spec =
  optionsWithValue :: "string list"
  takesAssignments :: bool

record shell_invocation =
  inlineScript :: "string option"
  readsStdin :: bool

section \<open>Tables\<close>

definition TRANSPARENT_WRAPPERS :: "(string \<times> wrapper_spec) list" where
  "TRANSPARENT_WRAPPERS =
    [(''env'', \<lparr>optionsWithValue = [''-u'', ''-C'', ''--unset'', ''--chdir''], takesAssignments = True\<rparr>),
     (''rtk'', \<lparr>optionsWithValue = [], takesAssignments = False\<rparr>),
     (''time'', \<lparr>optionsWithValue = [''-f'', ''-o'', ''--format'', ''--output''], takesAssignments = False\<rparr>),
     (''command'', \<lparr>optionsWithValue = [], takesAssignments = False\<rparr>),
     (''nice'', \<lparr>optionsWithValue = [''-n'', ''--adjustment''], takesAssignments = False\<rparr>),
     (''nohup'', \<lparr>optionsWithValue = [], takesAssignments = False\<rparr>),
     (''exec'', \<lparr>optionsWithValue = [''-a''], takesAssignments = False\<rparr>),
     (''xargs'', \<lparr>optionsWithValue = [''-n'', ''-I'', ''-L'', ''-P'', ''-s'', ''-E'', ''-d'', ''-a'', ''--max-args'', ''--replace'', ''--max-procs''], takesAssignments = False\<rparr>)]"

definition LEADING_KEYWORDS :: "string list" where
  "LEADING_KEYWORDS = [''if'', ''then'', ''elif'', ''else'', ''fi'', ''while'', ''until'', ''do'', ''done'', ''!'', ''{'', ''}'']"

definition SHELL_PROGRAMS :: "string list" where
  "SHELL_PROGRAMS = [''sh'', ''bash'', ''zsh'', ''dash'', ''ksh'']"

definition SHELL_OPTIONS_WITH_VALUE :: "string list" where
  "SHELL_OPTIONS_WITH_VALUE = [''-o'', ''+o'', ''-O'', ''+O'', ''--rcfile'', ''--init-file'']"

definition FIND_EXEC_OPTIONS :: "string list" where
  "FIND_EXEC_OPTIONS = [''-exec'', ''-execdir'', ''-ok'', ''-okdir'']"

definition FIND_EXEC_TERMINATORS :: "string list" where
  "FIND_EXEC_TERMINATORS = ['';'', ''+'']"

definition BARE_REDIRECT_PROGRAM :: string where
  "BARE_REDIRECT_PROGRAM = '':''"

definition is_name_start :: "char \<Rightarrow> bool" where
  "is_name_start c \<longleftrightarrow> c \<in> set ''ABCDEFGHIJKLMNOPQRSTUVWXYZabcdefghijklmnopqrstuvwxyz_''"

definition isAssignment :: "string \<Rightarrow> bool" where
  "isAssignment t \<longleftrightarrow>
     (case t of
        [] \<Rightarrow> False
      | c # s \<Rightarrow> is_name_start c \<and> starts_with (dropWhile (\<lambda>d. is_name_start d \<or> is_digit d) s) ''='')"

definition basenameOf :: "string \<Rightarrow> string" where
  "basenameOf path = after_last (CHR ''/'') path"

definition is_option :: "string \<Rightarrow> bool" where
  "is_option t \<longleftrightarrow> starts_with t ''-'' \<and> 1 < length t"

section \<open>Words before the program\<close>

text \<open>The loop of \<open>parseShellInvocation\<close>: the arguments left where it stops, and the two flags.\<close>

fun shell_options :: "string list \<Rightarrow> bool \<Rightarrow> bool \<Rightarrow> string list \<times> bool \<times> bool" where
  "shell_options [] c s = ([], c, s)"
| "shell_options (arg # as) c s =
     (if arg = ''--'' then (as, c, s)
      else if \<not> ((starts_with arg ''-'' \<or> starts_with arg ''+'') \<and> 1 < length arg) then (arg # as, c, s)
      else (let isLongOption = starts_with arg ''--'';
                c' = (if isLongOption then c else c \<or> CHR ''c'' \<in> set arg);
                s' = (if isLongOption then s else s \<or> CHR ''s'' \<in> set arg)
            in if arg \<in> set SHELL_OPTIONS_WITH_VALUE
               then (case as of [] \<Rightarrow> ([], c', s') | _ # as' \<Rightarrow> shell_options as' c' s')
               else shell_options as c' s'))"

definition parseShellInvocation :: "string list \<Rightarrow> shell_invocation" where
  "parseShellInvocation as =
     (let (left, hasCommandOption, hasStdinOption) = shell_options as False False
      in if hasCommandOption
         then \<lparr>inlineScript = (case left of [] \<Rightarrow> None | script # _ \<Rightarrow> Some script), readsStdin = False\<rparr>
         else \<lparr>inlineScript = None, readsStdin = hasStdinOption \<or> left = []\<rparr>)"

definition dropLeadingKeywords :: "word_token list \<Rightarrow> word_token list" where
  "dropLeadingKeywords ws = dropWhile (\<lambda>(t, quoted). \<not> quoted \<and> t \<in> set LEADING_KEYWORDS) ws"

text \<open>The loop of \<open>skipWrapper\<close>: assignments and options it collects, and the words left.\<close>

fun wrapper_options :: "wrapper_spec \<Rightarrow> string list \<Rightarrow> string list \<times> string list \<times> string list" where
  "wrapper_options spec [] = ([], [], [])"
| "wrapper_options spec (t # ts) =
     (if t = ''--'' then ([], [], ts)
      else if is_option t then
        (if t \<in> set (optionsWithValue spec)
         then (case ts of
                 [] \<Rightarrow> ([], [t], [])
               | v # ts' \<Rightarrow> (let (as, os, r) = wrapper_options spec ts' in (as, t # v # os, r)))
         else (let (as, os, r) = wrapper_options spec ts in (as, t # os, r)))
      else if takesAssignments spec \<and> isAssignment t then
        (let (as, os, r) = wrapper_options spec ts in (t # as, os, r))
      else ([], [], t # ts))"

text \<open>The second argument is the text of the wrapper as written, the third the words after it.\<close>

definition skipWrapper :: "wrapper_spec \<Rightarrow> string \<Rightarrow> string list \<Rightarrow> string list \<times> string list \<times> string list" where
  "skipWrapper spec wrapper ts =
     wrapper_options spec
       (if wrapper = ''rtk'' \<and> (case ts of [] \<Rightarrow> False | t # _ \<Rightarrow> t = ''proxy'') then drop 1 ts else ts)"

lemma wrapper_options_cases:
  obtains "wrapper_options spec (t # ts) = ([], [], ts)"
  | "wrapper_options spec (t # ts) = ([], [t], [])"
  | v ts' where "ts = v # ts'" "snd (snd (wrapper_options spec (t # ts))) = snd (snd (wrapper_options spec ts'))"
  | "snd (snd (wrapper_options spec (t # ts))) = snd (snd (wrapper_options spec ts))"
  | "wrapper_options spec (t # ts) = ([], [], t # ts)"
proof (cases "t = ''--''")
  case True
  then show ?thesis using that(1) by simp
next
  case notend: False
  show ?thesis
  proof (cases "is_option t \<and> t \<in> set (optionsWithValue spec)")
    case True
    then show ?thesis using notend that(2,3) by (cases ts) (simp_all add: split_beta)
  next
    case False
    then show ?thesis
      using notend that(4,5)
      by (cases "is_option t"; cases "takesAssignments spec \<and> isAssignment t") (simp_all add: split_beta)
  qed
qed

lemma wrapper_options_shrinks: "length (snd (snd (wrapper_options spec ts))) \<le> length ts"
proof (induction ts rule: length_induct)
  case (1 ts)
  show ?case
  proof (cases ts)
    case (Cons t rest)
    have ih: "length us < length ts \<Longrightarrow> length (snd (snd (wrapper_options spec us))) \<le> length us" for us
      using 1 by blast
    show ?thesis
      using ih [of rest] ih [of "tl rest"]
      by (cases rule: wrapper_options_cases [of spec t rest]) (simp_all add: Cons del: wrapper_options.simps)
  qed simp
qed

lemma skipWrapper_shrinks: "length (snd (snd (skipWrapper spec w ts))) \<le> length ts"
  using wrapper_options_shrinks [of spec ts] wrapper_options_shrinks [of spec "drop 1 ts"]
  by (auto simp: skipWrapper_def)

text \<open>Assignments, wrappers, wrapper options, and the words from the program on.\<close>

function unwrapProgram :: "string list \<Rightarrow> string list \<times> string list \<times> string list \<times> string list" where
  "unwrapProgram [] = ([], [], [], [])"
| "unwrapProgram (t # ts) =
     (if isAssignment t then
        (let (as, ws, os, r) = unwrapProgram ts in (t # as, ws, os, r))
      else (case map_of TRANSPARENT_WRAPPERS (basenameOf t) of
              Some spec \<Rightarrow>
                (let (as1, os1, r1) = skipWrapper spec t ts; (as, ws, os, r) = unwrapProgram r1
                 in (as1 @ as, basenameOf t # ws, os1 @ os, r))
            | None \<Rightarrow> ([], [], [], t # ts)))"
  by pat_completeness auto
termination
proof (relation "measure length")
  fix t :: string and ts spec x as1 y os1 r1
  assume "x = skipWrapper spec t ts" "(as1, y) = x" "(os1, r1) = y"
  then show "(r1, t # ts) \<in> measure length"
    using skipWrapper_shrinks [of spec t ts] by (metis in_measure length_Cons less_Suc_eq_le snd_conv)
qed auto

declare unwrapProgram.simps(2) [simp del]

lemma unwrapProgram_shrinks: "length (snd (snd (snd (unwrapProgram ts)))) \<le> length ts"
proof (induction ts rule: unwrapProgram.induct)
  case (2 t ts)
  show ?case
  proof (cases "isAssignment t")
    case True
    with 2 show ?thesis by (simp add: unwrapProgram.simps(2) split_beta)
  next
    case False
    show ?thesis
    proof (cases "map_of TRANSPARENT_WRAPPERS (basenameOf t)")
      case None
      with False show ?thesis by (simp add: unwrapProgram.simps(2))
    next
      case (Some spec)
      let ?r = "snd (snd (skipWrapper spec t ts))"
      have "length (snd (snd (snd (unwrapProgram ?r)))) \<le> length ?r"
        using 2(2) [OF False Some] by (metis prod.collapse)
      also have "\<dots> \<le> length ts" by (rule skipWrapper_shrinks)
      finally show ?thesis using False Some by (simp add: unwrapProgram.simps(2) split_beta)
    qed
  qed
qed simp

section \<open>The run\<close>

record analysis_run =
  commands :: "simple_command list"
  status :: analysis_status
  hasBareAssignment :: bool
  isStopped :: bool

type_synonym nested_analysis = "string \<Rightarrow> command_origin \<Rightarrow> placement \<Rightarrow> analysis_run \<Rightarrow> analysis_run"

definition new_run :: analysis_run where
  "new_run = \<lparr>commands = [], status = Complete, hasBareAssignment = False, isStopped = False\<rparr>"

definition emptyPending :: pending_command where
  "emptyPending = \<lparr>pc_words = [], pc_redirects = [], pc_substitutions = [], pc_heredocs = []\<rparr>"

definition new_script_state :: script_state where
  "new_script_state = \<lparr>pending = emptyPending, redirectAwaitingTarget = None, subshellDepth = 0, pipeFeedsNext = False\<rparr>"

definition markPartial :: "analysis_run \<Rightarrow> analysis_run" where
  "markPartial run = (if status run = Complete then run\<lparr>status := Partial\<rparr> else run)"

definition markLimitExceeded :: "analysis_run \<Rightarrow> analysis_run" where
  "markLimitExceeded run = run\<lparr>status := LimitExceeded\<rparr>"

definition analyzeStdinScript :: "nested_analysis \<Rightarrow> simple_command \<Rightarrow> placement \<Rightarrow> analysis_run \<Rightarrow> analysis_run" where
  "analyzeStdinScript nest c pl run =
     fold (\<lambda>r. case (if cr_operator r = LtLt then cr_heredocBody r
                      else if cr_operator r = LtLtLt then Some (cr_target r) else None) of
                 Some script \<Rightarrow> nest script HeredocScript pl
               | None \<Rightarrow> id)
       (redirects c) run"

definition analyzeNestedScripts :: "nested_analysis \<Rightarrow> simple_command \<Rightarrow> placement \<Rightarrow> analysis_run \<Rightarrow> analysis_run" where
  "analyzeNestedScripts nest c pl run =
     (if program c = ''eval'' then nest (join_with '' '' (args c)) Eval pl run
      else if program c \<notin> set SHELL_PROGRAMS then run
      else (let invocation = parseShellInvocation (args c)
            in case inlineScript invocation of
                 Some script \<Rightarrow> nest script InlineShell pl run
               | None \<Rightarrow> if readsStdin invocation then analyzeStdinScript nest c pl run else run))"

text \<open>The commands \<open>analyzeFindExec\<close> emits: after each \<open>-exec\<close> option, the arguments up to the next
  terminator, or all that are left.\<close>

function findExecGroups :: "string list \<Rightarrow> string list list" where
  "findExecGroups [] = []"
| "findExecGroups (a # as) =
     (if a \<notin> set FIND_EXEC_OPTIONS then findExecGroups as
      else takeWhile (\<lambda>b. b \<notin> set FIND_EXEC_TERMINATORS) as
           # findExecGroups (drop 1 (dropWhile (\<lambda>b. b \<notin> set FIND_EXEC_TERMINATORS) as)))"
  by pat_completeness auto
termination
  by (relation "measure length") (auto simp: less_Suc_eq_le le_diff_conv length_dropWhile_le intro: le_SucI)

lemma findExecGroups_shorter: "g \<in> set (findExecGroups as) \<Longrightarrow> length g \<le> length as"
proof (induction as rule: findExecGroups.induct)
  case (2 a as)
  show ?case
  proof (cases "a \<notin> set FIND_EXEC_OPTIONS")
    case True
    with 2 show ?thesis by simp
  next
    case False
    have tw: "length (takeWhile P as) \<le> length as" for P :: "string \<Rightarrow> bool" by (rule length_takeWhile_le)
    have dw: "length (drop 1 (dropWhile P as)) \<le> length as" for P :: "string \<Rightarrow> bool"
      using length_dropWhile_le [of P as] by simp
    show ?thesis using 2 False tw dw by (fastforce intro: le_SucI order_trans)
  qed
qed simp

text \<open>\<open>emitCommand\<close> with \<open>analyzeFindExec\<close>, which calls it back on the groups of a \<open>find\<close>; first the
  command it reads from the words, then what it does with it.\<close>

definition read_command :: "string list \<Rightarrow> command_redirect list \<Rightarrow> bool \<Rightarrow> placement \<Rightarrow> simple_command" where
  "read_command texts rs fed pl =
     (let (as, ws, os, left) = unwrapProgram texts;
          invoked = (case left of [] \<Rightarrow> '''' | p # _ \<Rightarrow> p);
          named = basenameOf invoked
      in \<lparr>program = (if named = '''' \<and> rs \<noteq> [] then BARE_REDIRECT_PROGRAM else named),
          invokedAs = invoked, args = drop 1 left, assignments = as, wrappers = ws,
          wrapperOptions = os, redirects = rs, fedByPipe = fed, origin = pl_origin pl, depth = pl_depth pl,
          textHasBareAssignment = False\<rparr>)"

definition is_bare_assignment :: "string list \<Rightarrow> bool" where
  "is_bare_assignment texts =
     (let (as, ws, os, left) = unwrapProgram texts in left = [] \<and> as \<noteq> [] \<and> ws = [])"

lemma read_command_simps [simp]:
  "redirects (read_command texts rs fed pl) = rs" "fedByPipe (read_command texts rs fed pl) = fed"
  "origin (read_command texts rs fed pl) = pl_origin pl" "depth (read_command texts rs fed pl) = pl_depth pl"
  "textHasBareAssignment (read_command texts rs fed pl) = False"
  by (simp_all add: read_command_def split_beta Let_def)

lemma find_args_shorter:
  assumes "program (read_command texts rs fed pl) = ''find''"
  shows "length (args (read_command texts rs fed pl)) < length texts"
proof -
  let ?left = "snd (snd (snd (unwrapProgram texts)))"
  have "?left \<noteq> []"
    using assms by (auto simp: read_command_def split_beta Let_def basenameOf_def BARE_REDIRECT_PROGRAM_def split: if_splits)
  then have "length (drop 1 ?left) < length ?left" by simp
  also have "\<dots> \<le> length texts" by (rule unwrapProgram_shrinks)
  finally show ?thesis by (simp add: read_command_def split_beta Let_def)
qed

function emitCommand :: "nested_analysis \<Rightarrow> string list \<Rightarrow> command_redirect list \<Rightarrow> bool \<Rightarrow> placement \<Rightarrow> analysis_run \<Rightarrow> analysis_run" where
  "emitCommand nest texts rs fed pl run =
     (let c = read_command texts rs fed pl;
          run1 = (if is_bare_assignment texts then run\<lparr>hasBareAssignment := True\<rparr> else run)
      in if program c = '''' then run1
         else if MAX_COMMANDS \<le> length (commands run1) then (markLimitExceeded run1)\<lparr>isStopped := True\<rparr>
         else (let run2 = analyzeNestedScripts nest c pl (run1\<lparr>commands := commands run1 @ [c]\<rparr>)
               in if program c = ''find'' then fold (\<lambda>g r. emitCommand nest g [] False pl r) (findExecGroups (args c)) run2
                  else run2))"
  by pat_completeness auto
termination
proof (relation "measure (\<lambda>(nest, texts, _). length texts)", goal_cases)
  case (2 nest texts rs fed pl run c run1 run2 g r)
  then show ?case
    using find_args_shorter [of texts rs fed pl] findExecGroups_shorter [of g "args c"] by simp
qed simp

declare emitCommand.simps [simp del]

definition analyzeHeredocExpansions :: "nested_analysis \<Rightarrow> heredoc_body \<Rightarrow> placement \<Rightarrow> analysis_run \<Rightarrow> analysis_run" where
  "analyzeHeredocExpansions nest h ctx run =
     (if \<not> hd_expands h then run
      else (let (scripts, partial) = substitutionScriptsOf (hd_body h);
                run1 = (if partial then markPartial run else run)
            in fold (\<lambda>script. nest script Substitution ctx) scripts run1))"

definition flush :: "nested_analysis \<Rightarrow> placement \<Rightarrow> script_state \<times> analysis_run \<Rightarrow> script_state \<times> analysis_run" where
  "flush nest ctx = (\<lambda>(st, run).
     let p = pending st;
         st1 = st\<lparr>pending := emptyPending, redirectAwaitingTarget := None\<rparr>;
         run1 = fold (\<lambda>script. nest script Substitution ctx) (pc_substitutions p) run;
         run2 = fold (\<lambda>h. analyzeHeredocExpansions nest h ctx) (pc_heredocs p) run1;
         commandWords = dropLeadingKeywords (pc_words p);
         isBareRedirect = (commandWords = [] \<and> pc_redirects p \<noteq> [])
     in if commandWords = [] \<and> \<not> isBareRedirect then (st1, run2)
        else (let isInSubshell = (0 < subshellDepth st1 \<and> pl_origin ctx = Top);
                  pl = \<lparr>pl_origin = (if isInSubshell then Subshell else pl_origin ctx), pl_depth = pl_depth ctx\<rparr>
              in (st1\<lparr>pipeFeedsNext := False\<rparr>,
                  emitCommand nest (map fst commandWords) (pc_redirects p) (pipeFeedsNext st1) pl run2)))"

definition consumeWord :: "string \<Rightarrow> bool \<Rightarrow> string list \<Rightarrow> script_state \<Rightarrow> script_state" where
  "consumeWord t quoted subs st =
     (let p = (pending st)\<lparr>pc_substitutions := pc_substitutions (pending st) @ subs\<rparr>
      in case redirectAwaitingTarget st of
           None \<Rightarrow> st\<lparr>pending := p\<lparr>pc_words := pc_words p @ [(t, quoted)]\<rparr>\<rparr>
         | Some (heredoc, i) \<Rightarrow>
             (let r = (pc_redirects p ! i)\<lparr>cr_target := t\<rparr>
              in (case heredoc of
                    None \<Rightarrow> st\<lparr>pending := p\<lparr>pc_redirects := (pc_redirects p)[i := r]\<rparr>, redirectAwaitingTarget := None\<rparr>
                  | Some h \<Rightarrow>
                      st\<lparr>pending := p\<lparr>pc_redirects := (pc_redirects p)[i := r\<lparr>cr_heredocBody := Some (hd_body h)\<rparr>],
                                     pc_heredocs := pc_heredocs p @ [h]\<rparr>,
                         redirectAwaitingTarget := None\<rparr>)))"

definition consumeRedirect :: "redirect_operator \<Rightarrow> nat option \<Rightarrow> heredoc_body option \<Rightarrow> script_state \<Rightarrow> script_state" where
  "consumeRedirect op fd heredoc st =
     (let p = pending st;
          r = \<lparr>cr_operator = op, cr_fd = fd, cr_target = '''', cr_heredocBody = None\<rparr>
      in st\<lparr>pending := p\<lparr>pc_redirects := pc_redirects p @ [r]\<rparr>,
            redirectAwaitingTarget := Some (heredoc, length (pc_redirects p))\<rparr>)"

definition consumeOperator :: "nested_analysis \<Rightarrow> placement \<Rightarrow> control_operator \<Rightarrow> script_state \<times> analysis_run \<Rightarrow> script_state \<times> analysis_run" where
  "consumeOperator nest ctx op sr =
     (let (st, run) = flush nest ctx sr;
          st1 = (if op = LParen then st\<lparr>subshellDepth := subshellDepth st + 1\<rparr>
                 else if op = RParen then st\<lparr>subshellDepth := subshellDepth st - 1\<rparr> else st);
          feedsNextCommand = (op = Pipe \<or> op = PipeAmp);
          keepsPipePending = (op = LParen \<or> op = RParen)
      in (if feedsNextCommand then st1\<lparr>pipeFeedsNext := True\<rparr>
          else if \<not> keepsPipePending then st1\<lparr>pipeFeedsNext := False\<rparr> else st1, run))"

fun consume :: "nested_analysis \<Rightarrow> placement \<Rightarrow> shell_token \<Rightarrow> script_state \<times> analysis_run \<Rightarrow> script_state \<times> analysis_run" where
  "consume nest ctx (Word t quoted subs) (st, run) = (consumeWord t quoted subs st, run)"
| "consume nest ctx (Redirect op fd heredoc) (st, run) = (consumeRedirect op fd heredoc st, run)"
| "consume nest ctx (Operator op) sr = consumeOperator nest ctx op sr"

text \<open>The loop over the tokens, which a stopped run leaves at once, without the last \<open>flush\<close>.\<close>

fun consume_tokens :: "nested_analysis \<Rightarrow> placement \<Rightarrow> shell_token list \<Rightarrow> script_state \<times> analysis_run \<Rightarrow> analysis_run" where
  "consume_tokens nest ctx [] sr = snd (flush nest ctx sr)"
| "consume_tokens nest ctx (t # ts) sr =
     (if isStopped (snd sr) then snd sr else consume_tokens nest ctx ts (consume nest ctx t sr))"

definition analyzeNested :: "(string \<Rightarrow> placement \<Rightarrow> analysis_run \<Rightarrow> analysis_run) \<Rightarrow> nested_analysis" where
  "analyzeNested analyze script og pl run =
     (if MAX_NESTING_DEPTH < pl_depth pl + 1 then markLimitExceeded run
      else analyze script \<lparr>pl_origin = og, pl_depth = pl_depth pl + 1\<rparr> run)"

primrec analyzeScript :: "nat \<Rightarrow> string \<Rightarrow> placement \<Rightarrow> analysis_run \<Rightarrow> analysis_run" where
  "analyzeScript 0 source ctx run = run"
| "analyzeScript (Suc levels) source ctx run =
     (let scanned = scanShell source
      in consume_tokens (analyzeNested (analyzeScript levels)) ctx (sr_tokens scanned)
           (new_script_state, if sr_isPartial scanned then markPartial run else run))"

definition analyzeCommand :: "string \<Rightarrow> command_analysis" where
  "analyzeCommand src =
     (if MAX_COMMAND_CHARS < utf16_length src then \<lparr>ca_status = LimitExceeded, ca_commands = []\<rparr>
      else (let run = analyzeScript (Suc MAX_NESTING_DEPTH) src \<lparr>pl_origin = Top, pl_depth = 0\<rparr> new_run
            in \<lparr>ca_status = status run,
                ca_commands = (if hasBareAssignment run then map (\<lambda>c. c\<lparr>textHasBareAssignment := True\<rparr>) (commands run)
                               else commands run)\<rparr>))"

section \<open>Invariants of a run\<close>

text \<open>Every change of a run is one of five: marking it partial, marking its limit exceeded, recording a
  bare assignment, appending a command below the limit, and stopping. A predicate that the five keep
  is kept by the analysis of every script.\<close>

locale run_invariant =
  fixes holds :: "analysis_run \<Rightarrow> bool"
  assumes partial: "holds run \<Longrightarrow> holds (markPartial run)"
    and limit: "holds run \<Longrightarrow> holds (markLimitExceeded run)"
    and bare: "holds run \<Longrightarrow> holds (run\<lparr>hasBareAssignment := True\<rparr>)"
    and stop: "holds run \<Longrightarrow> MAX_COMMANDS \<le> length (commands run) \<Longrightarrow> holds ((markLimitExceeded run)\<lparr>isStopped := True\<rparr>)"
    and push: "\<lbrakk>holds run; length (commands run) < MAX_COMMANDS; depth c \<le> MAX_NESTING_DEPTH; program c \<noteq> ''''\<rbrakk>
               \<Longrightarrow> holds (run\<lparr>commands := commands run @ [c]\<rparr>)"
begin

definition keeps :: "nested_analysis \<Rightarrow> bool" where
  "keeps nest \<longleftrightarrow> (\<forall>script og pl run. holds run \<longrightarrow> holds (nest script og pl run))"

lemma keepsD: "keeps nest \<Longrightarrow> holds run \<Longrightarrow> holds (nest script og pl run)"
  by (simp add: keeps_def)

lemma fold_keeps: "\<lbrakk>\<And>x run. x \<in> set xs \<Longrightarrow> holds run \<Longrightarrow> holds (f x run); holds run\<rbrakk> \<Longrightarrow> holds (fold f xs run)"
  by (induction xs arbitrary: run) auto

lemma analyzeStdinScript_keeps: "keeps nest \<Longrightarrow> holds run \<Longrightarrow> holds (analyzeStdinScript nest c pl run)"
  unfolding analyzeStdinScript_def by (rule fold_keeps) (auto dest: keepsD split: option.splits)

lemma analyzeNestedScripts_keeps: "keeps nest \<Longrightarrow> holds run \<Longrightarrow> holds (analyzeNestedScripts nest c pl run)"
  by (auto simp: analyzeNestedScripts_def Let_def intro: keepsD analyzeStdinScript_keeps split: option.splits)

lemma emitCommand_keeps:
  "\<lbrakk>keeps nest; holds run; pl_depth pl \<le> MAX_NESTING_DEPTH\<rbrakk> \<Longrightarrow> holds (emitCommand nest texts rs fed pl run)"
proof (induction nest texts rs fed pl run rule: emitCommand.induct)
  case (1 nest texts rs fed pl run)
  let ?c = "read_command texts rs fed pl"
  let ?run1 = "if is_bare_assignment texts then run\<lparr>hasBareAssignment := True\<rparr> else run"
  have run1: "holds ?run1" using 1(3) by (simp add: bare)
  have emitted: "holds (analyzeNestedScripts nest ?c pl (?run1\<lparr>commands := commands ?run1 @ [?c]\<rparr>))"
    if "length (commands ?run1) < MAX_COMMANDS" "program ?c \<noteq> []"
    by (rule analyzeNestedScripts_keeps [OF 1(2)]) (rule push [OF run1 that(1) _ that(2)], simp add: 1(4))
  show ?case
  proof (cases "program ?c = [] \<or> MAX_COMMANDS \<le> length (commands ?run1)")
    case True
    then show ?thesis using run1 stop [OF run1] by (auto simp: emitCommand.simps [of nest texts] Let_def)
  next
    case False
    have "holds (fold (\<lambda>g r. emitCommand nest g [] False pl r) (findExecGroups (args ?c)) r)" if "holds r" "program ?c = ''find''" for r
      by (rule fold_keeps [OF 1(1) [OF refl refl _ _ refl that(2)] that(1)]) (use False 1 in auto)
    then show ?thesis
      using False emitted by (simp add: emitCommand.simps [of nest texts] Let_def)
  qed
qed

lemma analyzeHeredocExpansions_keeps: "keeps nest \<Longrightarrow> holds run \<Longrightarrow> holds (analyzeHeredocExpansions nest h ctx run)"
  using partial [of run] by (simp add: analyzeHeredocExpansions_def Let_def split_beta fold_keeps keepsD)

lemma flush_keeps:
  assumes "keeps nest" "holds (snd sr)" "pl_depth ctx \<le> MAX_NESTING_DEPTH"
  shows "holds (snd (flush nest ctx sr))"
proof -
  obtain st run where sr: "sr = (st, run)" by (cases sr)
  have expanded: "holds (fold (\<lambda>h. analyzeHeredocExpansions nest h ctx) hs (fold (\<lambda>script. nest script Substitution ctx) ss run))" for hs ss
    using assms by (intro fold_keeps analyzeHeredocExpansions_keeps keepsD [OF assms(1)]) (simp_all add: sr)
  have emitted: "holds (emitCommand nest ts rs fed \<lparr>pl_origin = og, pl_depth = pl_depth ctx\<rparr>
      (fold (\<lambda>h. analyzeHeredocExpansions nest h ctx) hs (fold (\<lambda>script. nest script Substitution ctx) ss run)))" for ts rs fed og hs ss
    using assms by (intro emitCommand_keeps expanded) simp_all
  show ?thesis
    unfolding sr flush_def Let_def split_conv
    by (rule if_split [THEN iffD2], intro conjI impI; simp only: snd_conv) (rule expanded, rule emitted)
qed

lemma consume_keeps:
  "\<lbrakk>keeps nest; holds (snd sr); pl_depth ctx \<le> MAX_NESTING_DEPTH\<rbrakk> \<Longrightarrow> holds (snd (consume nest ctx t sr))"
  by (cases t; cases sr) (simp_all add: consumeOperator_def Let_def split_beta flush_keeps)

lemma consume_tokens_keeps:
  "\<lbrakk>keeps nest; holds (snd sr); pl_depth ctx \<le> MAX_NESTING_DEPTH\<rbrakk> \<Longrightarrow> holds (consume_tokens nest ctx ts sr)"
proof (induction ts arbitrary: sr)
  case (Cons t ts)
  show ?case using Cons.prems Cons.IH [OF Cons.prems(1) consume_keeps [OF Cons.prems] Cons.prems(3)] by simp
qed (simp add: flush_keeps)

lemma analyzeScript_keeps:
  "\<lbrakk>holds run; pl_depth ctx \<le> MAX_NESTING_DEPTH\<rbrakk> \<Longrightarrow> holds (analyzeScript levels source ctx run)"
proof (induction levels arbitrary: source ctx run)
  case (Suc levels)
  have "keeps (analyzeNested (analyzeScript levels))"
    using Suc.IH by (auto simp: keeps_def analyzeNested_def intro: limit)
  then show ?case
    using Suc.prems by (auto simp: Let_def intro!: consume_tokens_keeps partial)
qed simp

end

text \<open>What a run never exceeds, and what it never takes back.\<close>

definition within_limits :: "analysis_run \<Rightarrow> bool" where
  "within_limits run \<longleftrightarrow>
     length (commands run) \<le> MAX_COMMANDS \<and>
     list_all (\<lambda>c. depth c \<le> MAX_NESTING_DEPTH \<and> program c \<noteq> '''') (commands run) \<and>
     (isStopped run \<longrightarrow> status run = LimitExceeded \<and> length (commands run) = MAX_COMMANDS)"

definition extends_run :: "analysis_run \<Rightarrow> analysis_run \<Rightarrow> bool" where
  "extends_run r0 r \<longleftrightarrow>
     (\<exists>cs. commands r = commands r0 @ cs) \<and>
     (status r0 \<noteq> Complete \<longrightarrow> status r \<noteq> Complete) \<and>
     (status r0 = LimitExceeded \<longrightarrow> status r = LimitExceeded) \<and>
     (hasBareAssignment r0 \<longrightarrow> hasBareAssignment r)"

interpretation limits: run_invariant within_limits
  by unfold_locales (auto simp: within_limits_def markPartial_def markLimitExceeded_def)

interpretation growth: run_invariant "extends_run r0" for r0
  by unfold_locales (auto simp: extends_run_def markPartial_def markLimitExceeded_def)

lemma within_limits_new: "within_limits new_run"
  by (simp add: within_limits_def new_run_def)

lemma extends_run_refl: "extends_run r r"
  by (simp add: extends_run_def)

lemma analyzeScript_within: "within_limits (analyzeScript levels src \<lparr>pl_origin = og, pl_depth = 0\<rparr> new_run)"
  by (rule limits.analyzeScript_keeps) (simp_all add: within_limits_new)

lemma analyzeScript_extends:
  "pl_depth ctx \<le> MAX_NESTING_DEPTH \<Longrightarrow> extends_run run (analyzeScript levels src ctx run)"
  by (rule growth.analyzeScript_keeps [OF extends_run_refl])

section \<open>Enough levels\<close>

definition agree_at :: "nat \<Rightarrow> nested_analysis \<Rightarrow> nested_analysis \<Rightarrow> bool" where
  "agree_at d f g \<longleftrightarrow> (\<forall>script og pl run. pl_depth pl = d \<longrightarrow> f script og pl run = g script og pl run)"

lemma agree_atD: "agree_at d f g \<Longrightarrow> pl_depth pl = d \<Longrightarrow> f script og pl = g script og pl"
  by (auto simp: agree_at_def)

lemma analyzeStdinScript_agree:
  assumes "agree_at d f g" "pl_depth pl = d"
  shows "analyzeStdinScript f c pl = analyzeStdinScript g c pl"
  unfolding analyzeStdinScript_def fun_eq_iff agree_atD [OF assms] by (intro allI refl)

lemma analyzeNestedScripts_agree:
  assumes "agree_at d f g" "pl_depth pl = d"
  shows "analyzeNestedScripts f c pl = analyzeNestedScripts g c pl"
  unfolding analyzeNestedScripts_def fun_eq_iff agree_atD [OF assms] analyzeStdinScript_agree [OF assms]
  by (intro allI refl)

lemma analyzeHeredocExpansions_agree:
  "agree_at d f g \<Longrightarrow> pl_depth pl = d \<Longrightarrow> analyzeHeredocExpansions f h pl = analyzeHeredocExpansions g h pl"
  by (simp add: analyzeHeredocExpansions_def agree_atD [of d f g pl] fun_eq_iff)

lemma emitCommand_agree:
  assumes fg: "agree_at d f g" and pl: "pl_depth pl = d"
  shows "emitCommand f texts rs fed pl run = emitCommand g texts rs fed pl run"
proof (induction "length texts" arbitrary: texts rs fed run rule: less_induct)
  case less
  let ?c = "read_command texts rs fed pl"
  have "emitCommand f x rs fed pl run = emitCommand g x rs fed pl run"
    if "program ?c = ''find''" "x \<in> set (findExecGroups (args ?c))" for x rs fed run
    using less find_args_shorter [OF that(1)] findExecGroups_shorter [OF that(2)] by simp
  then have "fold (\<lambda>x. emitCommand f x [] False pl) (findExecGroups (args ?c)) r
      = fold (\<lambda>x. emitCommand g x [] False pl) (findExecGroups (args ?c)) r" if "program ?c = ''find''" for r
    using that by (intro fold_cong refl) (simp add: fun_eq_iff)
  then show ?case
    unfolding emitCommand.simps [of f texts] emitCommand.simps [of g texts] Let_def
    by (simp add: analyzeNestedScripts_agree [OF fg pl])
qed

lemma flush_agree: "agree_at (pl_depth ctx) f g \<Longrightarrow> flush f ctx sr = flush g ctx sr"
  by (cases sr) (simp add: flush_def Let_def agree_atD [of "pl_depth ctx" f g ctx]
      analyzeHeredocExpansions_agree [of "pl_depth ctx" f g ctx] emitCommand_agree [of "pl_depth ctx" f g])

lemma consume_agree: "agree_at (pl_depth ctx) f g \<Longrightarrow> consume f ctx t sr = consume g ctx t sr"
  by (cases t; cases sr) (simp_all add: consumeOperator_def flush_agree)

lemma consume_tokens_agree: "agree_at (pl_depth ctx) f g \<Longrightarrow> consume_tokens f ctx ts sr = consume_tokens g ctx ts sr"
  by (induction ts arbitrary: sr) (simp_all add: flush_agree consume_agree)

lemma analyzeScript_levels:
  "\<lbrakk>pl_depth ctx \<le> MAX_NESTING_DEPTH; MAX_NESTING_DEPTH < levels + pl_depth ctx\<rbrakk>
   \<Longrightarrow> analyzeScript (levels + k) src ctx run = analyzeScript levels src ctx run"
proof (induction levels arbitrary: src ctx run)
  case (Suc levels)
  have "agree_at (pl_depth ctx) (analyzeNested (analyzeScript (levels + k))) (analyzeNested (analyzeScript levels))"
    using Suc.prems by (auto simp: agree_at_def analyzeNested_def intro!: Suc.IH)
  from consume_tokens_agree [OF this] show ?case by simp
qed simp

section \<open>Quoted commands\<close>

text \<open>What the run does with a line of quoted words: the words are one command, keywords and all.\<close>

lemma same_pending: "pending st = p \<Longrightarrow> st\<lparr>pending := p\<rparr> = st"
  by (cases st) simp

lemma consume_quoted_words:
  "\<not> isStopped run \<Longrightarrow> pending st = emptyPending\<lparr>pc_words := ps\<rparr> \<Longrightarrow> redirectAwaitingTarget st = None \<Longrightarrow>
   consume_tokens nest ctx (map (\<lambda>w. Word w True []) ws) (st, run)
   = snd (flush nest ctx (st\<lparr>pending := emptyPending\<lparr>pc_words := ps @ map (\<lambda>w. (w, True)) ws\<rparr>\<rparr>, run))"
  by (induction ws arbitrary: st ps) (simp_all add: consumeWord_def emptyPending_def same_pending)

lemma flush_quoted_words:
  "ws \<noteq> [] \<Longrightarrow> subshellDepth st = 0 \<Longrightarrow>
   snd (flush nest ctx (st\<lparr>pending := emptyPending\<lparr>pc_words := map (\<lambda>w. (w, True)) ws\<rparr>\<rparr>, run))
   = emitCommand nest ws [] (pipeFeedsNext st) ctx run"
  by (cases ws; cases ctx) (simp_all add: flush_def Let_def dropLeadingKeywords_def emptyPending_def comp_def)

lemma analyzeScript_quoted:
  assumes "ws \<noteq> []" "\<not> isStopped run"
  shows "analyzeScript (Suc levels) (join_with '' '' (map shell_quote ws)) ctx run
         = emitCommand (analyzeNested (analyzeScript levels)) ws [] False ctx run"
proof -
  have "consume_tokens nest ctx (map (\<lambda>w. Word w True []) ws) (new_script_state, run)
      = snd (flush nest ctx (new_script_state\<lparr>pending := emptyPending\<lparr>pc_words := map (\<lambda>w. (w, True)) ws\<rparr>\<rparr>, run))" for nest
    using consume_quoted_words [OF assms(2), of new_script_state "[]" nest ctx ws] by (simp add: new_script_state_def emptyPending_def)
  then show ?thesis
    using flush_quoted_words [OF assms(1), of new_script_state] by (simp add: scanShell_quoted new_script_state_def)
qed

lemma emitCommand_room:
  assumes "length (commands run) < MAX_COMMANDS" "unwrapProgram (p # as) = ([], [], [], p # as)" "basenameOf p \<noteq> ''''"
  shows "emitCommand nest (p # as) [] fed pl run =
    (let c = \<lparr>program = basenameOf p, invokedAs = p, args = as, assignments = [], wrappers = [], wrapperOptions = [],
              redirects = [], fedByPipe = fed, origin = pl_origin pl, depth = pl_depth pl, textHasBareAssignment = False\<rparr>;
         run2 = analyzeNestedScripts nest c pl (run\<lparr>commands := commands run @ [c]\<rparr>)
     in if basenameOf p = ''find'' then fold (\<lambda>g r. emitCommand nest g [] False pl r) (findExecGroups as) run2 else run2)"
  using assms by (simp add: emitCommand.simps [of nest "p # as"] read_command_def is_bare_assignment_def Let_def)

lemma unwrapProgram_plain:
  "\<lbrakk>\<not> isAssignment p; map_of TRANSPARENT_WRAPPERS (basenameOf p) = None\<rbrakk> \<Longrightarrow> unwrapProgram (p # as) = ([], [], [], p # as)"
  by (simp add: unwrapProgram.simps(2))

lemma shell_program_cases:
  assumes "sh \<in> set SHELL_PROGRAMS"
  obtains "sh = ''sh''" | "sh = ''bash''" | "sh = ''zsh''" | "sh = ''dash''" | "sh = ''ksh''"
  using assms by (auto simp: SHELL_PROGRAMS_def)

lemma shell_program_unwraps:
  assumes "sh \<in> set SHELL_PROGRAMS"
  shows "\<not> isAssignment sh" "map_of TRANSPARENT_WRAPPERS (basenameOf sh) = None" "basenameOf sh = sh" "sh \<noteq> ''find''" "sh \<noteq> ''eval''" "sh \<noteq> ''''"
  using assms by (cases rule: shell_program_cases;
      simp add: isAssignment_def is_name_start_def is_digit_def basenameOf_def TRANSPARENT_WRAPPERS_def starts_with_prefix)+

lemma analyzeScript_inline_shell:
  assumes "sh \<in> set SHELL_PROGRAMS" "\<not> isStopped run" "length (commands run) < MAX_COMMANDS"
    "pl_depth ctx < MAX_NESTING_DEPTH" "\<not> starts_with script ''-''" "\<not> starts_with script ''+''"
  shows "analyzeScript (Suc levels) (join_with '' '' (map shell_quote [sh, ''-c'', script])) ctx run
    = analyzeScript levels script \<lparr>pl_origin = InlineShell, pl_depth = pl_depth ctx + 1\<rparr>
        (run\<lparr>commands := commands run @
          [\<lparr>program = sh, invokedAs = sh, args = [''-c'', script], assignments = [], wrappers = [], wrapperOptions = [],
            redirects = [], fedByPipe = False, origin = pl_origin ctx, depth = pl_depth ctx, textHasBareAssignment = False\<rparr>]\<rparr>)"
proof -
  note sh = shell_program_unwraps [OF assms(1)]
  have parse: "parseShellInvocation [''-c'', script] = \<lparr>inlineScript = Some script, readsStdin = False\<rparr>"
    using assms(5,6) by (cases script) (auto simp add: parseShellInvocation_def SHELL_OPTIONS_WITH_VALUE_def starts_with_prefix Let_def)
  show ?thesis
    using sh assms analyzeScript_quoted [of "[sh, ''-c'', script]", OF _ assms(2), of levels ctx]
    by (simp add: emitCommand_room [OF assms(3) unwrapProgram_plain [OF sh(1,2)]] analyzeNestedScripts_def parse analyzeNested_def Let_def)
qed

lemma analyzeScript_quoted_plain:
  assumes "\<not> isAssignment p" "map_of TRANSPARENT_WRAPPERS (basenameOf p) = None"
    "basenameOf p \<notin> set ([''eval'', ''find'', ''''] @ SHELL_PROGRAMS)" "\<not> isStopped run" "length (commands run) < MAX_COMMANDS"
  shows "analyzeScript (Suc levels) (join_with '' '' (map shell_quote (p # as))) ctx run
    = run\<lparr>commands := commands run @
       [\<lparr>program = basenameOf p, invokedAs = p, args = as, assignments = [], wrappers = [], wrapperOptions = [],
         redirects = [], fedByPipe = False, origin = pl_origin ctx, depth = pl_depth ctx, textHasBareAssignment = False\<rparr>]\<rparr>"
  using assms analyzeScript_quoted [of "p # as" run levels ctx]
  by (simp add: emitCommand_room unwrapProgram_plain analyzeNestedScripts_def Let_def)

lemma analyzeCommand_partial:
  assumes "sr_isPartial (scanShell src)"
  shows "ca_status (analyzeCommand src) \<noteq> Complete"
proof -
  let ?nest = "analyzeNested (analyzeScript MAX_NESTING_DEPTH)"
  let ?top = "\<lparr>pl_origin = Top, pl_depth = 0\<rparr>"
  let ?start = "markPartial new_run"
  have nest: "growth.keeps ?start ?nest"
    unfolding growth.keeps_def
    by (auto simp: analyzeNested_def intro: growth.limit growth.analyzeScript_keeps)
  have "extends_run ?start (consume_tokens ?nest ?top (sr_tokens (scanShell src)) (new_script_state, ?start))"
    by (rule growth.consume_tokens_keeps [OF nest]) (simp_all add: extends_run_refl)
  then show ?thesis
    using assms by (simp add: analyzeCommand_def Let_def extends_run_def markPartial_def new_run_def)
qed

section \<open>Properties\<close>

text \<open>Whatever the text, its analysis lists at most \<open>MAX_COMMANDS\<close> commands, each with a program and
  none nested deeper than \<open>MAX_NESTING_DEPTH\<close>.\<close>

theorem analysis_within_limits:
  "length (ca_commands (analyzeCommand src)) \<le> MAX_COMMANDS \<and>
   list_all (\<lambda>c. depth c \<le> MAX_NESTING_DEPTH \<and> program c \<noteq> '''') (ca_commands (analyzeCommand src))"
  using analyzeScript_within [of "Suc MAX_NESTING_DEPTH" src Top]
  by (auto simp: analyzeCommand_def within_limits_def Let_def list_all_iff)

text \<open>C34: The analysis of a text nests at most \<open>MAX_NESTING_DEPTH\<close> scripts below it: following more
  levels of nested scripts changes nothing, so the recursion of the analyser ends by itself.\<close>

theorem nesting_levels_suffice:
  "analyzeScript (Suc MAX_NESTING_DEPTH + k) src \<lparr>pl_origin = og, pl_depth = 0\<rparr> run
   = analyzeScript (Suc MAX_NESTING_DEPTH) src \<lparr>pl_origin = og, pl_depth = 0\<rparr> run"
  by (rule analyzeScript_levels) simp_all

text \<open>A text the scanner could not read to its end is never reported as completely analysed.\<close>

theorem partial_scan_is_reported:
  assumes "sr_isPartial (scanShell src)"
  shows "ca_status (analyzeCommand src) \<noteq> Complete"
  using assms by (rule analyzeCommand_partial)

text \<open>A shell run on an inline script is looked through: reading the quoted words \<open>sh -c script\<close> records
  the shell's own command and goes on to analyse \<open>script\<close>, whatever it holds, one level deeper (a
  word with a leading sign is one more option of the shell, not its script).\<close>

theorem inline_shell_is_looked_through:
  assumes "sh \<in> set SHELL_PROGRAMS" "\<not> isStopped run" "length (commands run) < MAX_COMMANDS"
    "pl_depth ctx < MAX_NESTING_DEPTH" "\<not> starts_with script ''-''" "\<not> starts_with script ''+''"
  shows "analyzeScript (Suc levels) (join_with '' '' (map shell_quote [sh, ''-c'', script])) ctx run
    = analyzeScript levels script \<lparr>pl_origin = InlineShell, pl_depth = pl_depth ctx + 1\<rparr>
        (run\<lparr>commands := commands run @
          [\<lparr>program = sh, invokedAs = sh, args = [''-c'', script], assignments = [], wrappers = [], wrapperOptions = [],
            redirects = [], fedByPipe = False, origin = pl_origin ctx, depth = pl_depth ctx, textHasBareAssignment = False\<rparr>]\<rparr>)"
  using assms by (rule analyzeScript_inline_shell)

text \<open>An argument list written with every word quoted is read as exactly one command with those
  arguments, unless its program is one the analyser looks through.\<close>

theorem quoted_arguments_are_one_command:
  assumes "\<not> isAssignment p" "map_of TRANSPARENT_WRAPPERS (basenameOf p) = None"
    "basenameOf p \<notin> set ([''eval'', ''find'', ''''] @ SHELL_PROGRAMS)"
    "utf16_length (join_with '' '' (map shell_quote (p # as))) \<le> MAX_COMMAND_CHARS"
  shows "analyzeCommand (join_with '' '' (map shell_quote (p # as)))
    = \<lparr>ca_status = Complete,
       ca_commands = [\<lparr>program = basenameOf p, invokedAs = p, args = as, assignments = [], wrappers = [], wrapperOptions = [],
         redirects = [], fedByPipe = False, origin = Top, depth = 0, textHasBareAssignment = False\<rparr>]\<rparr>"
proof -
  have "length (commands new_run) < MAX_COMMANDS" "\<not> isStopped new_run"
    by (simp_all add: new_run_def MAX_COMMANDS_def)
  then show ?thesis
    using assms analyzeScript_quoted_plain [OF assms(1-3), of new_run MAX_NESTING_DEPTH as "\<lparr>pl_origin = Top, pl_depth = 0\<rparr>"]
    by (simp add: analyzeCommand_def Let_def) (simp add: new_run_def)
qed

end
