(* ===== verification/Read_Only_Access.thy ===== *)
theory Read_Only_Access
  imports Command_Analyzer
begin

text \<open>
  What the policy vouches for as a plain read: \<^verbatim>\<open>policy/searchArguments.ts\<close> (the arguments of \<open>grep\<close> and \<open>rg\<close>),
  \<^verbatim>\<open>policy/sedScript.ts\<close> (which sed scripts only read) and \<^verbatim>\<open>policy/readOnlyAccess.ts\<close> (which simple commands
  only read files under given roots). An index into a text or an argument list is the part still to
  read; the sed reader's \<open>REFUSED\<close> is \<open>None\<close>.
\<close>

section \<open>Search arguments\<close>

definition OPTIONS_WITH_VALUE :: "string list" where
  "OPTIONS_WITH_VALUE =
    [''-g'', ''--glob'', ''--iglob'', ''-t'', ''--type'', ''-T'', ''--type-not'', ''-A'', ''-B'', ''-C'', ''-m'', ''--max-count'', ''--max-depth'',
     ''-d'', ''-j'', ''--threads'', ''--encoding'', ''--include'', ''--exclude'', ''--exclude-dir'', ''--include-dir'']"

definition RIPGREP_OPTIONS_WITH_VALUE :: "string list" where
  "RIPGREP_OPTIONS_WITH_VALUE = [''-E'', ''-r'', ''--replace'']"

definition PATTERN_OPTIONS :: "string list" where
  "PATTERN_OPTIONS = [''-e'', ''--regexp'']"

definition PATTERN_FILE_OPTIONS :: "string list" where
  "PATTERN_FILE_OPTIONS = [''-f'', ''--file'']"

record search_arguments =
  isPatternGivenByOption :: bool
  searchedPaths :: "string list"
  patternFiles :: "string list"

text \<open>The loop: whether an option gave the pattern, the positional arguments and the pattern files.\<close>

fun search_loop :: "string list \<Rightarrow> string list \<Rightarrow> bool \<times> string list \<times> string list" where
  "search_loop valued [] = (False, [], [])"
| "search_loop valued (arg # as) =
     (if arg \<in> set PATTERN_OPTIONS then
        (let (_, positionals, files) = search_loop valued (drop 1 as) in (True, positionals, files))
      else if arg \<in> set PATTERN_FILE_OPTIONS then
        (let (_, positionals, files) = search_loop valued (drop 1 as)
         in (True, positionals, take 1 as @ files))
      else if arg \<in> set valued then search_loop valued (drop 1 as)
      else if starts_with arg ''-'' \<and> arg \<noteq> ''-'' then search_loop valued as
      else (let (given, positionals, files) = search_loop valued as in (given, arg # positionals, files)))"

definition parseSearchArguments :: "string \<Rightarrow> string list \<Rightarrow> search_arguments" where
  "parseSearchArguments prog as =
     (let valued = (if prog = ''rg'' then OPTIONS_WITH_VALUE @ RIPGREP_OPTIONS_WITH_VALUE else OPTIONS_WITH_VALUE);
          (given, positionals, files) = search_loop valued as
      in \<lparr>isPatternGivenByOption = given, searchedPaths = (if given then positionals else drop 1 positionals),
          patternFiles = files\<rparr>)"

section \<open>Sed scripts\<close>

definition SIMPLE_COMMANDS :: "char list" where "SIMPLE_COMMANDS = ''pPdDnNgGhHx=lqQ''"
definition COMMANDS_WITH_OPTIONAL_NUMBER :: "char list" where "COMMANDS_WITH_OPTIONAL_NUMBER = ''lqQ''"
definition SUBSTITUTION_FLAGS :: "char list" where "SUBSTITUTION_FLAGS = ''gpIiMm''"
definition SEPARATORS :: "char list" where "SEPARATORS = [CHR '' '', TAB, CHR '';'', NL]"

definition skipSeparators :: "string \<Rightarrow> string" where
  "skipSeparators s = dropWhile (\<lambda>c. c \<in> set SEPARATORS) s"

definition skipSpaces :: "string \<Rightarrow> string" where
  "skipSpaces s = dropWhile (\<lambda>c. c = CHR '' '' \<or> c = TAB) s"

definition skipDigits :: "string \<Rightarrow> string" where
  "skipDigits s = dropWhile is_digit s"

fun skipDelimited :: "string \<Rightarrow> char \<Rightarrow> string option" where
  "skipDelimited [] delimiter = None"
| "skipDelimited (c # s) delimiter =
     (if c = BACKSLASH then skipDelimited (drop 1 s) delimiter
      else if c = delimiter then Some s else skipDelimited s delimiter)"

definition skipOneAddress :: "string \<Rightarrow> string option" where
  "skipOneAddress s =
     (case s of
        [] \<Rightarrow> Some s
      | c # t \<Rightarrow>
          if is_digit c then
            (let afterNumber = skipDigits s
             in Some (if starts_with afterNumber ''~'' then skipDigits (tl afterNumber) else afterNumber))
          else if c = CHR ''$'' then Some t
          else if \<not> (c = CHR ''/'' \<or> c = BACKSLASH) then Some s
          else (case (if c = BACKSLASH then (case t of [] \<Rightarrow> None | d # u \<Rightarrow> Some (d, u)) else Some (CHR ''/'', t)) of
                  None \<Rightarrow> None
                | Some (delimiter, u) \<Rightarrow>
                    (case skipDelimited u delimiter of
                       None \<Rightarrow> None
                     | Some afterRegex \<Rightarrow>
                         Some (if starts_with afterRegex ''I'' \<or> starts_with afterRegex ''M'' then tl afterRegex else afterRegex))))"

definition skipAddresses :: "string \<Rightarrow> string option" where
  "skipAddresses s =
     (case skipOneAddress s of
        None \<Rightarrow> None
      | Some afterFirst \<Rightarrow>
          (case (if afterFirst \<noteq> s \<and> starts_with afterFirst '','' then skipOneAddress (tl afterFirst) else Some afterFirst) of
             None \<Rightarrow> None
           | Some afterRange \<Rightarrow>
               (let afterSpaces = skipSpaces afterRange
                in Some (if starts_with afterSpaces ''!'' then skipSpaces (tl afterSpaces) else afterSpaces))))"

text \<open>The two delimited parts of \<open>s\<close> and \<open>y\<close>; the argument is the text after the letter.\<close>

definition skip_two_parts :: "string \<Rightarrow> string option" where
  "skip_two_parts s =
     (case s of
        [] \<Rightarrow> None
      | delimiter # t \<Rightarrow>
          if delimiter = BACKSLASH \<or> delimiter = NL then None
          else (case skipDelimited t delimiter of
                  None \<Rightarrow> None
                | Some u \<Rightarrow> skipDelimited u delimiter))"

definition skipSubstitution :: "string \<Rightarrow> string option" where
  "skipSubstitution s = map_option (dropWhile (\<lambda>c. c \<in> set SUBSTITUTION_FLAGS \<or> is_digit c)) (skip_two_parts s)"

definition skipTransliteration :: "string \<Rightarrow> string option" where
  "skipTransliteration s = skip_two_parts s"

definition skipCommand :: "string \<Rightarrow> string option" where
  "skipCommand s =
     (case s of
        [] \<Rightarrow> None
      | c # t \<Rightarrow>
          if c = CHR ''s'' then skipSubstitution t
          else if c = CHR ''y'' then skipTransliteration t
          else if c \<notin> set SIMPLE_COMMANDS then None
          else if c \<in> set COMMANDS_WITH_OPTIONAL_NUMBER then Some (skipDigits t) else Some t)"

lemma skipDelimited_shorter: "skipDelimited s d = Some r \<Longrightarrow> length r < length s"
  by (induction s d rule: skipDelimited.induct) (auto split: if_splits)

lemma dropWhile_le: "length (dropWhile P s) \<le> length s"
  by (rule length_dropWhile_le)

lemmas skip_defs = skipSeparators_def skipSpaces_def skipDigits_def

lemma skip_le: "length (skipSeparators s) \<le> length s" "length (skipSpaces s) \<le> length s" "length (skipDigits s) \<le> length s"
  by (simp_all add: skip_defs dropWhile_le)

lemma skipOneAddress_le: "skipOneAddress s = Some r \<Longrightarrow> length r \<le> length s"
  using skip_le(3) [of s] skip_le(3) [of "tl (skipDigits s)"]
  by (auto simp: skipOneAddress_def Let_def dest!: skipDelimited_shorter split: list.splits if_splits option.splits)

lemma skipAddresses_le:
  assumes "skipAddresses s = Some r"
  shows "length r \<le> length s"
proof -
  obtain first where first: "skipOneAddress s = Some first"
    using assms by (auto simp: skipAddresses_def split: option.splits)
  obtain range where range: "(if first \<noteq> s \<and> starts_with first '','' then skipOneAddress (tl first) else Some first) = Some range"
    using assms first by (auto simp: skipAddresses_def split: option.splits)
  have "length range \<le> length first"
    using range skipOneAddress_le [of "tl first" range] by (auto split: if_splits)
  moreover have "r = skipSpaces range \<or> r = skipSpaces (tl (skipSpaces range))"
    using assms first range by (simp add: skipAddresses_def Let_def) (auto split: if_splits)
  moreover have "length (skipSpaces (tl (skipSpaces range))) \<le> length range"
    using skip_le(2) [of "tl (skipSpaces range)"] skip_le(2) [of range] by simp
  ultimately show ?thesis
    using skipOneAddress_le [OF first] skip_le(2) [of range] by auto
qed

lemma skip_two_parts_le: "skip_two_parts s = Some r \<Longrightarrow> length r < length s"
  by (auto simp: skip_two_parts_def dest!: skipDelimited_shorter split: list.splits if_splits option.splits)

lemma skipSubstitution_le: "skipSubstitution s = Some r \<Longrightarrow> length r < length s"
  using skip_two_parts_le [of s] dropWhile_le le_less_trans by (fastforce simp: skipSubstitution_def)

lemma skipCommand_shorter:
  assumes "skipCommand s = Some r"
  shows "length r < length s"
proof (cases s)
  case (Cons c t)
  show ?thesis
  proof (cases "c = CHR ''s'' \<or> c = CHR ''y''")
    case True
    then show ?thesis using assms skipSubstitution_le [of t r] skip_two_parts_le [of t r]
      by (auto simp: skipCommand_def Cons skipTransliteration_def)
  next
    case False
    then have "r = skipDigits t \<or> r = t" using assms by (simp add: skipCommand_def Cons split: if_splits)
    then show ?thesis using skip_le(3) [of t] Cons by auto
  qed
qed (use assms in \<open>simp add: skipCommand_def\<close>)

text \<open>The loop of \<open>isReadOnlySedScript\<close>, at a text whose separators are skipped.\<close>

function sed_loop :: "string \<Rightarrow> bool" where
  "sed_loop s =
     (if s = [] then True
      else (case skipAddresses s of
              None \<Rightarrow> False
            | Some afterAddresses \<Rightarrow>
                (case skipCommand afterAddresses of
                   None \<Rightarrow> False
                 | Some afterCommand \<Rightarrow>
                     (let afterSpaces = skipSpaces afterCommand
                      in if afterSpaces = [] \<or> hd afterSpaces \<in> set SEPARATORS
                         then sed_loop (skipSeparators afterSpaces) else False))))"
  by pat_completeness auto
termination
proof (relation "measure length", goal_cases)
  case (2 s t u v)
  have "length t \<le> length s" by (rule skipAddresses_le) fact
  moreover have "length u < length t" by (rule skipCommand_shorter) fact
  moreover have "length (skipSeparators v) \<le> length u"
    using 2 skip_le(1) [of v] skip_le(2) [of u] by simp
  ultimately show ?case by simp
qed simp

declare sed_loop.simps [simp del]

definition isReadOnlySedScript :: "string \<Rightarrow> bool" where
  "isReadOnlySedScript script = sed_loop (skipSeparators script)"

section \<open>Plain reads\<close>

record read_scope =
  rs_cwd :: string
  rs_roots :: "string list"

definition READ_ONLY_PROGRAMS :: "string list" where
  "READ_ONLY_PROGRAMS = [''sed'', ''grep'', ''rg'', ''cat'', ''head'', ''tail'', ''wc'', ''ls'', ''sort'', ''uniq'', ''cut'', ''tr'', ''awk'', ''find'']"

definition COMMAND_ORIGINS_WITHOUT_EXECUTION :: "command_origin list" where
  "COMMAND_ORIGINS_WITHOUT_EXECUTION = [Top, Subshell]"

definition WRITE_REDIRECTS :: "redirect_operator list" where
  "WRITE_REDIRECTS = [Gt, GtGt, GtPipe, AmpGt, AmpGtGt]"

definition NULL_DEVICE :: string where "NULL_DEVICE = ''/dev/null''"

definition SED_FLAGS_WITH_VALUE :: "char list" where "SED_FLAGS_WITH_VALUE = ''l''"

definition SED_LONG_OPTIONS :: "string list" where
  "SED_LONG_OPTIONS = [''--quiet'', ''--silent'', ''--regexp-extended'', ''--null-data'', ''--separate'', ''--unbuffered'', ''--posix'', ''--debug'']"

definition FIND_WRITING_OR_RUNNING_PREFIXES :: "string list" where
  "FIND_WRITING_OR_RUNNING_PREFIXES = [''-delete'', ''-exec'', ''-ok'', ''-fprint'', ''-fls'']"

definition awk_forbidden :: "string \<Rightarrow> bool" where
  "awk_forbidden script \<longleftrightarrow>
     text_includes script ''system'' \<or> text_includes script ''getline'' \<or> CHR ''>'' \<in> set script \<or> CHR ''|'' \<in> set script"

definition positionalsOf :: "string list \<Rightarrow> string list" where
  "positionalsOf as = filter (\<lambda>arg. \<not> is_option arg) as"

fun resolve_segments :: "string list \<Rightarrow> string list \<Rightarrow> string list" where
  "resolve_segments resolved [] = resolved"
| "resolve_segments resolved (segment # segments) =
     resolve_segments
       (if segment = ''..'' then butlast resolved
        else if segment \<noteq> '''' \<and> segment \<noteq> ''.'' then resolved @ [segment] else resolved) segments"

definition normalizedSegments :: "string \<Rightarrow> string list" where
  "normalizedSegments path = resolve_segments [] (split_on (CHR ''/'') path)"

definition isInsideRoot :: "string list \<Rightarrow> string list \<Rightarrow> bool" where
  "isInsideRoot path root \<longleftrightarrow>
     0 < length root \<and> length root \<le> length path \<and> list_all (\<lambda>i. path ! i = root ! i) [0..<length root]"

definition isReadableUnderRoots :: "string \<Rightarrow> read_scope \<Rightarrow> bool" where
  "isReadableUnderRoots operand scope =
     (if operand = ''-'' then True
      else if \<not> (CHR ''$'' \<notin> set operand \<and> BACKTICK \<notin> set operand \<and> \<not> starts_with operand ''~'') then False
      else (let absolute = (if starts_with operand ''/'' then operand else rs_cwd scope @ ''/'' @ operand);
                segments = normalizedSegments absolute
            in list_ex (\<lambda>root. isInsideRoot segments (normalizedSegments root)) (rs_roots scope)))"

definition redirectIsHarmless :: "command_redirect \<Rightarrow> read_scope \<Rightarrow> bool" where
  "redirectIsHarmless r scope =
     (if (cr_operator r = GtAmp \<or> cr_operator r = LtAmp) \<and> (cr_target r = ''-'' \<or> isDigits (cr_target r)) then True
      else if cr_operator r = Lt then isReadableUnderRoots (cr_target r) scope
      else cr_operator r \<in> set WRITE_REDIRECTS \<and> cr_target r = NULL_DEVICE)"

type_synonym inspection = "bool \<times> string list" \<comment> \<open>\<open>isReadOnly\<close>, \<open>files\<close>\<close>

text \<open>The loop of \<open>sedIsReadOnly\<close>: scripts and positional arguments, or \<open>None\<close> at a refused option.\<close>

fun sed_arguments :: "string list \<Rightarrow> (string list \<times> string list) option" where
  "sed_arguments [] = Some ([], [])"
| "sed_arguments (arg # as) =
     (if starts_with arg ''--expression='' then
        map_option (apfst (\<lambda>scripts. drop (length ''--expression='') arg # scripts)) (sed_arguments as)
      else if arg = ''--expression'' then
        (case as of
           [] \<Rightarrow> Some ([''''], [])
         | a # as' \<Rightarrow> map_option (apfst (\<lambda>scripts. a # scripts)) (sed_arguments as'))
      else if starts_with arg ''--'' then
        (if arg \<notin> set SED_LONG_OPTIONS then None else sed_arguments as)
      else if is_option arg then
        (let cluster = drop 1 arg
         in if CHR ''i'' \<in> set cluster \<or> CHR ''f'' \<in> set cluster then None
            else if CHR ''e'' \<in> set cluster then
              (let inline = drop 1 (dropWhile (\<lambda>c. c \<noteq> CHR ''e'') cluster)
               in if inline \<noteq> '''' then map_option (apfst (\<lambda>scripts. inline # scripts)) (sed_arguments as)
                  else (case as of
                          [] \<Rightarrow> Some ([''''], [])
                        | a # as' \<Rightarrow> map_option (apfst (\<lambda>scripts. a # scripts)) (sed_arguments as')))
            else if list_ex (\<lambda>c. c \<in> set SED_FLAGS_WITH_VALUE) cluster then sed_arguments (drop 1 as)
            else sed_arguments as)
      else map_option (apsnd (\<lambda>positionals. arg # positionals)) (sed_arguments as))"

definition sedIsReadOnly :: "string list \<Rightarrow> inspection" where
  "sedIsReadOnly as =
     (case sed_arguments as of
        None \<Rightarrow> (False, [])
      | Some (scripts, positionals) \<Rightarrow>
          (let allScripts = (if scripts \<noteq> [] then scripts else take 1 positionals);
               files = (if scripts \<noteq> [] then positionals else drop 1 positionals)
           in (allScripts \<noteq> [] \<and> list_all isReadOnlySedScript allScripts, files)))"

fun awk_positionals :: "string list \<Rightarrow> string list option" where
  "awk_positionals [] = Some []"
| "awk_positionals (arg # as) =
     (if arg = ''-F'' \<or> arg = ''-v'' then awk_positionals (drop 1 as)
      else if starts_with arg ''-F'' \<or> (starts_with arg ''-v'' \<and> 2 < length arg) then awk_positionals as
      else if is_option arg then None
      else map_option (\<lambda>positionals. arg # positionals) (awk_positionals as))"

definition awkIsReadOnly :: "string list \<Rightarrow> inspection" where
  "awkIsReadOnly as =
     (case awk_positionals as of
        None \<Rightarrow> (False, [])
      | Some [] \<Rightarrow> (False, [])
      | Some (script # files) \<Rightarrow> (\<not> awk_forbidden script, files))"

definition searchIsReadOnly :: "string \<Rightarrow> string list \<Rightarrow> inspection" where
  "searchIsReadOnly prog as =
     (let runsAPreprocessor = (prog = ''rg'' \<and> list_ex (\<lambda>arg. starts_with arg ''--pre'' \<or> starts_with arg ''--hostname-bin'') as);
          parsed = parseSearchArguments prog as
      in (\<not> runsAPreprocessor, searchedPaths parsed @ patternFiles parsed))"

definition sortIsReadOnly :: "string list \<Rightarrow> inspection" where
  "sortIsReadOnly as =
     (\<not> list_ex (\<lambda>arg. starts_with arg ''--output'' \<or> starts_with arg ''--compress-program'' \<or>
        (is_option arg \<and> \<not> starts_with arg ''--'' \<and> (CHR ''o'' \<in> set arg \<or> CHR ''T'' \<in> set arg))) as,
      positionalsOf as)"

definition uniqIsReadOnly :: "string list \<Rightarrow> inspection" where
  "uniqIsReadOnly as = (length (positionalsOf as) \<le> 1, positionalsOf as)"

definition findIsReadOnly :: "string list \<Rightarrow> inspection" where
  "findIsReadOnly as =
     (let writesOrRuns = list_ex (\<lambda>arg. list_ex (\<lambda>prefix. starts_with arg prefix) FIND_WRITING_OR_RUNNING_PREFIXES) as;
          startPaths = takeWhile (\<lambda>arg. \<not> (starts_with arg ''-'' \<or> arg = ''!'' \<or> arg = ''('')) as
      in (\<not> writesOrRuns, if startPaths \<noteq> [] then startPaths else [''.'']))"

definition inspectArguments :: "simple_command \<Rightarrow> inspection" where
  "inspectArguments c =
     (let prog = program c; as = args c
      in if prog = ''sed'' then sedIsReadOnly as
         else if prog = ''awk'' then awkIsReadOnly as
         else if prog = ''grep'' \<or> prog = ''rg'' then searchIsReadOnly prog as
         else if prog = ''sort'' then sortIsReadOnly as
         else if prog = ''uniq'' then uniqIsReadOnly as
         else if prog = ''find'' then findIsReadOnly as
         else (True, positionalsOf as))"

definition isPlainReadWithin :: "simple_command \<Rightarrow> read_scope \<Rightarrow> bool" where
  "isPlainReadWithin c scope =
     (let isPlainInvocation = (program c \<in> set READ_ONLY_PROGRAMS \<and> wrappers c = [] \<and> assignments c = [] \<and>
            origin c \<in> set COMMAND_ORIGINS_WITHOUT_EXECUTION)
      in if \<not> isPlainInvocation then False
         else if \<not> list_all (\<lambda>r. redirectIsHarmless r scope) (redirects c) then False
         else (let (readOnly, files) = inspectArguments c
               in readOnly \<and> list_all (\<lambda>file. isReadableUnderRoots file scope) files))"

section \<open>Resolved paths\<close>

definition clean_segment :: "string \<Rightarrow> bool" where
  "clean_segment x \<longleftrightarrow> x \<noteq> '''' \<and> x \<noteq> ''.'' \<and> x \<noteq> ''..'' \<and> CHR ''/'' \<notin> set x"

lemma resolve_segments_clean:
  assumes "list_all clean_segment resolved" "\<forall>x \<in> set xs. CHR ''/'' \<notin> set x"
  shows "list_all clean_segment (resolve_segments resolved xs)"
  using assms
proof (induction xs arbitrary: resolved)
  case (Cons x xs)
  have "list_all clean_segment (if x = ''..'' then butlast resolved
      else if x \<noteq> '''' \<and> x \<noteq> ''.'' then resolved @ [x] else resolved)"
    using Cons.prems by (simp add: list_all_iff clean_segment_def) (meson in_set_butlastD)
  then show ?case unfolding resolve_segments.simps using Cons.prems by (intro Cons.IH) simp_all
qed simp

lemma normalizedSegments_clean: "list_all clean_segment (normalizedSegments path)"
  unfolding normalizedSegments_def by (rule resolve_segments_clean) (auto dest: split_on_parts_clean)

lemma resolve_segments_clean_id: "list_all clean_segment xs \<Longrightarrow> resolve_segments resolved xs = resolved @ xs"
  by (induction xs arbitrary: resolved) (auto simp: clean_segment_def)

lemma normalizedSegments_join:
  assumes "list_all clean_segment xs"
  shows "normalizedSegments (''/'' @ join_with ''/'' xs) = xs"
proof (cases "xs = []")
  case False
  have "split_on (CHR ''/'') (''/'' @ join_with ''/'' xs) = [] # xs"
    using split_join [OF False, of "CHR ''/''"] assms by (simp add: clean_segment_def list_all_iff)
  then show ?thesis using resolve_segments_clean_id [OF assms] by (simp add: normalizedSegments_def)
qed (simp add: normalizedSegments_def)

lemma isInsideRoot_prefix: "isInsideRoot path root \<longleftrightarrow> root \<noteq> [] \<and> prefix root path"
proof
  assume h: "isInsideRoot path root"
  then have "root = take (length root) path"
    by (auto simp: isInsideRoot_def list_all_iff intro!: nth_equalityI)
  then show "root \<noteq> [] \<and> prefix root path"
    using h take_is_prefix [of "length root" path] by (auto simp: isInsideRoot_def)
qed (auto simp: isInsideRoot_def list_all_iff prefix_def nth_append)

text \<open>Walking a tree of folders and files without links, given by the places it has, from a place along the steps of a path.\<close>

fun walk :: "string list set \<Rightarrow> string list \<Rightarrow> string list \<Rightarrow> string list option" where
  "walk tree here [] = Some here"
| "walk tree here (step # steps) =
     (if step = '''' \<or> step = ''.'' then walk tree here steps
      else if step = ''..'' then walk tree (take (length here - 1) here) steps
      else if here @ [step] \<in> tree then walk tree (here @ [step]) steps
      else None)"

lemma walk_resolves: "walk tree here steps = Some place \<Longrightarrow> resolve_segments here steps = place"
  by (induction tree here steps rule: walk.induct) (auto simp: butlast_conv_take split: if_splits)

lemma resolve_segments_append: "resolve_segments here (xs @ ys) = resolve_segments (resolve_segments here xs) ys"
  by (induction here xs rule: resolve_segments.induct) simp_all

lemma readable_only_under_roots:
  assumes "walk tree [] (split_on (CHR ''/'') (rs_cwd scope)) = Some here"
    and "walk tree (if starts_with operand ''/'' then [] else here) (split_on (CHR ''/'') operand) = Some place"
    and "\<forall>root \<in> set (rs_roots scope). walk tree [] (split_on (CHR ''/'') root) \<noteq> None"
    and "operand \<noteq> ''-''"
  shows "isReadableUnderRoots operand scope \<longleftrightarrow>
    CHR ''$'' \<notin> set operand \<and> BACKTICK \<notin> set operand \<and> \<not> starts_with operand ''~'' \<and>
    (\<exists>root \<in> set (rs_roots scope). \<exists>folder names. walk tree [] (split_on (CHR ''/'') root) = Some folder \<and> folder \<noteq> [] \<and> place = folder @ names)"
proof -
  let ?path = "if starts_with operand ''/'' then operand else rs_cwd scope @ ''/'' @ operand"
  have place: "normalizedSegments ?path = place"
    using walk_resolves [OF assms(1)] walk_resolves [OF assms(2)] by (cases "starts_with operand ''/''") (simp_all add: normalizedSegments_def split_on_append resolve_segments_append)
  have root: "walk tree [] (split_on (CHR ''/'') root) = Some (normalizedSegments root)" if "root \<in> set (rs_roots scope)" for root
    using assms(3) that walk_resolves [of tree "[]" "split_on (CHR ''/'') root"] by (auto simp: normalizedSegments_def)
  show ?thesis using assms(4) root unfolding isReadableUnderRoots_def Let_def place isInsideRoot_prefix list_ex_iff prefix_def by auto
qed

section \<open>Sed scripts, one after the other\<close>

text \<open>What a reader accepts of a text does not depend on what follows the next semicolon.\<close>

lemma dropWhile_stop: "\<not> P c \<Longrightarrow> dropWhile P (s @ c # z) = dropWhile P s @ c # z"
  by (induction s) auto

lemma skip_stop:
  "skipSpaces (s @ CHR '';'' # z) = skipSpaces s @ CHR '';'' # z" "skipDigits (s @ CHR '';'' # z) = skipDigits s @ CHR '';'' # z"
  by (simp_all add: skip_defs dropWhile_stop is_digit_def)

lemma starts_with_stop: "c \<noteq> CHR '';'' \<Longrightarrow> starts_with (s @ CHR '';'' # z) [c] = starts_with s [c]"
  by (cases s) auto

lemma skipDelimited_stop: "skipDelimited s d = Some r \<Longrightarrow> skipDelimited (s @ z) d = Some (r @ z)"
proof (induction s d rule: skipDelimited.induct)
  case (2 c s d)
  then show ?case by (cases s) (auto split: if_splits)
qed simp

lemma tl_stop: "starts_with s [c] \<Longrightarrow> tl (s @ z) = tl s @ z"
  by (cases s) auto

lemma skipOneAddress_stop: "skipOneAddress s = Some r \<Longrightarrow> skipOneAddress (s @ CHR '';'' # z) = Some (r @ CHR '';'' # z)"
proof (cases s)
  case (Cons c t)
  assume r: "skipOneAddress s = Some r"
  show ?thesis
  proof (cases "c = CHR ''/'' \<or> c = BACKSLASH")
    case True
    then obtain d u where u: "(if c = BACKSLASH then (case t of [] \<Rightarrow> None | d # u \<Rightarrow> Some (d, u)) else Some (CHR ''/'', t)) = Some (d, u)"
      using r Cons by (cases t) (auto simp: skipOneAddress_def is_digit_def)
    then have u': "(if c = BACKSLASH then (case t @ CHR '';'' # z of [] \<Rightarrow> None | d # u \<Rightarrow> Some (d, u)) else Some (CHR ''/'', t @ CHR '';'' # z))
        = Some (d, u @ CHR '';'' # z)"
      by (cases t) (auto split: if_splits)
    have c: "\<not> is_digit c" "c \<noteq> CHR ''$''" using True by (auto simp: is_digit_def)
    obtain v where v: "skipDelimited u d = Some v"
      using r c u True by (auto simp: skipOneAddress_def Cons split: option.splits)
    show ?thesis
      using r c u u' v skipDelimited_stop [OF v] True by (simp add: skipOneAddress_def Cons starts_with_stop tl_stop) (auto simp: tl_stop)
  next
    case False
    have "skipDigits (c # t @ CHR '';'' # z) = skipDigits (c # t) @ CHR '';'' # z"
      using skip_stop(2) [of "c # t" z] by simp
    then show ?thesis
      using False r Cons by (auto simp: skipOneAddress_def Let_def starts_with_stop tl_stop skip_stop)
  qed
qed (simp add: skipOneAddress_def is_digit_def)

lemma skipAddresses_stop:
  assumes "skipAddresses s = Some r"
  shows "skipAddresses (s @ CHR '';'' # z) = Some (r @ CHR '';'' # z)"
proof -
  obtain first where first: "skipOneAddress s = Some first"
    using assms by (auto simp: skipAddresses_def split: option.splits)
  obtain range where range: "(if first \<noteq> s \<and> starts_with first '','' then skipOneAddress (tl first) else Some first) = Some range"
    using assms first by (auto simp: skipAddresses_def split: option.splits)
  have range': "(if first @ CHR '';'' # z \<noteq> s @ CHR '';'' # z \<and> starts_with (first @ CHR '';'' # z) '',''
      then skipOneAddress (tl (first @ CHR '';'' # z)) else Some (first @ CHR '';'' # z)) = Some (range @ CHR '';'' # z)"
    using range by (auto simp: starts_with_stop tl_stop skipOneAddress_stop split: if_splits)
  have r: "r = (if starts_with (skipSpaces range) ''!'' then skipSpaces (tl (skipSpaces range)) else skipSpaces range)"
    using assms first range by (simp add: skipAddresses_def Let_def)
  show ?thesis
    unfolding skipAddresses_def skipOneAddress_stop [OF first] option.case range' r
    by (simp add: skip_stop starts_with_stop tl_stop Let_def)
qed

lemma skip_two_parts_stop:
  assumes "skip_two_parts s = Some r"
  shows "skip_two_parts (s @ z) = Some (r @ z)"
proof -
  obtain d t u where s: "s = d # t" "d \<noteq> BACKSLASH" "d \<noteq> NL" "skipDelimited t d = Some u" "skipDelimited u d = Some r"
    using assms by (auto simp: skip_two_parts_def split: list.splits if_splits option.splits)
  then show ?thesis by (simp add: skip_two_parts_def skipDelimited_stop)
qed

lemma skipCommand_stop:
  assumes "skipCommand s = Some r"
  shows "skipCommand (s @ CHR '';'' # z) = Some (r @ CHR '';'' # z)"
proof (cases s)
  case (Cons c t)
  show ?thesis
  proof (cases "c = CHR ''s'' \<or> c = CHR ''y''")
    case True
    have "dropWhile (\<lambda>c. c \<in> set SUBSTITUTION_FLAGS \<or> is_digit c) (v @ CHR '';'' # z)
        = dropWhile (\<lambda>c. c \<in> set SUBSTITUTION_FLAGS \<or> is_digit c) v @ CHR '';'' # z" for v
      by (rule dropWhile_stop) (simp add: SUBSTITUTION_FLAGS_def is_digit_def)
    then show ?thesis
      using True assms by (auto simp: skipCommand_def Cons skipSubstitution_def skipTransliteration_def skip_two_parts_stop)
  next
    case False
    then show ?thesis using assms by (auto simp: skipCommand_def Cons skip_stop split: if_splits)
  qed
qed (use assms in \<open>simp add: skipCommand_def\<close>)

lemma sed_loop_stop: "sed_loop s \<Longrightarrow> s \<noteq> [] \<Longrightarrow> sed_loop (s @ CHR '';'' # z) = sed_loop (skipSeparators z)"
proof (induction s rule: length_induct)
  case (1 s)
  obtain t u where t: "skipAddresses s = Some t" "skipCommand t = Some u"
    and more: "sed_loop (skipSeparators (skipSpaces u))" "skipSpaces u = [] \<or> hd (skipSpaces u) \<in> set SEPARATORS"
    using 1(2,3) by (auto simp: sed_loop.simps [of s] Let_def split: option.splits if_splits)
  let ?v = "skipSpaces u"
  have semi: "CHR '';'' \<in> set SEPARATORS" by (simp add: SEPARATORS_def)
  have step: "sed_loop (s @ CHR '';'' # z) = sed_loop (skipSeparators (?v @ CHR '';'' # z))"
    using t more(2) semi
    by (auto simp: sed_loop.simps [of "s @ CHR '';'' # z"] skipAddresses_stop skipCommand_stop skip_stop Let_def hd_append)
  show ?case
  proof (cases "skipSeparators ?v = []")
    case True
    then have "skipSeparators (?v @ CHR '';'' # z) = skipSeparators z"
      using semi by (simp add: skipSeparators_def dropWhile_append dropWhile_eq_Nil_conv)
    with step show ?thesis by simp
  next
    case False
    then have cut: "skipSeparators (?v @ CHR '';'' # z) = skipSeparators ?v @ CHR '';'' # z"
      by (auto simp: skipSeparators_def dropWhile_append dropWhile_eq_Nil_conv)
    have "length (skipSeparators ?v) < length s"
      using skip_le(1) [of ?v] skip_le(2) [of u] skipCommand_shorter [OF t(2)] skipAddresses_le [OF t(1)] by linarith
    then show ?thesis using 1(1) more(1) False step cut by auto
  qed
qed

lemma isReadOnlySedScript_then:
  assumes "isReadOnlySedScript a"
  shows "isReadOnlySedScript (a @ '';'' @ b) = isReadOnlySedScript b"
proof (cases "skipSeparators a = []")
  case True
  then have "skipSeparators (a @ CHR '';'' # b) = skipSeparators b"
    by (simp add: skipSeparators_def dropWhile_append dropWhile_eq_Nil_conv SEPARATORS_def)
  then show ?thesis by (simp add: isReadOnlySedScript_def)
next
  case False
  then have "skipSeparators (a @ CHR '';'' # b) = skipSeparators a @ CHR '';'' # b"
    by (auto simp: skipSeparators_def dropWhile_append dropWhile_eq_Nil_conv)
  then show ?thesis using sed_loop_stop assms False by (simp add: isReadOnlySedScript_def)
qed

section \<open>Properties\<close>

text \<open>C3: The policy vouches for a path exactly when the path leads under one of its roots. In any tree of folders and files
  without links, where a step goes to a child, \<open>..\<close> to the parent and the cwd and the roots exist, an operand that names a
  place of the tree is readable exactly when the shell would not expand it and the place lies in, or is, the folder of a
  root other than the top.\<close>

theorem readable_paths_stay_under_roots:
  assumes "walk tree [] (split_on (CHR ''/'') (rs_cwd scope)) = Some here"
    and "walk tree (if starts_with operand ''/'' then [] else here) (split_on (CHR ''/'') operand) = Some place"
    and "\<forall>root \<in> set (rs_roots scope). walk tree [] (split_on (CHR ''/'') root) \<noteq> None"
    and "operand \<noteq> ''-''"
  shows "isReadableUnderRoots operand scope \<longleftrightarrow>
    CHR ''$'' \<notin> set operand \<and> BACKTICK \<notin> set operand \<and> \<not> starts_with operand ''~'' \<and>
    (\<exists>root \<in> set (rs_roots scope). \<exists>folder names. walk tree [] (split_on (CHR ''/'') root) = Some folder \<and> folder \<noteq> [] \<and> place = folder @ names)"
  using assms by (rule readable_only_under_roots)

theorem readable_paths_stay_under_roots_witness:
  "isReadableUnderRoots ''src/../lib'' \<lparr>rs_cwd = ''/work'', rs_roots = [''/work'']\<rparr> \<and> \<not> isReadableUnderRoots ''../etc'' \<lparr>rs_cwd = ''/work'', rs_roots = [''/work'']\<rparr>"
proof -
  let ?tree = "{[''work''], [''work'', ''src''], [''work'', ''lib''], [''etc'']}" and ?scope = "\<lparr>rs_cwd = ''/work'', rs_roots = [''/work'']\<rparr>"
  have "isReadableUnderRoots ''src/../lib'' ?scope" and "\<not> isReadableUnderRoots ''../etc'' ?scope"
    using readable_paths_stay_under_roots [of ?tree ?scope "[''work'']" "''src/../lib''" "[''work'', ''lib'']"]
      readable_paths_stay_under_roots [of ?tree ?scope "[''work'']" "''../etc''" "[''etc'']"] by simp_all
  then show ?thesis ..
qed

text \<open>Sed scripts are judged command by command: after a script judged read-only and a semicolon, the
  verdict is the verdict on the rest, so no harmless beginning hides a later command.\<close>

theorem sed_scripts_judged_in_sequence:
  assumes "isReadOnlySedScript a"
  shows "isReadOnlySedScript (a @ '';'' @ b) \<longleftrightarrow> isReadOnlySedScript b"
  by (rule isReadOnlySedScript_then [OF assms])

section \<open>What the reading misses\<close>

definition plain_command :: "string \<Rightarrow> string list \<Rightarrow> simple_command" where
  "plain_command p as =
     \<lparr>program = p, invokedAs = p, args = as, assignments = [], wrappers = [], wrapperOptions = [], redirects = [],
      fedByPipe = False, origin = Top, depth = 0, textHasBareAssignment = False\<rparr>"

lemmas vouched_defs = plain_command_def READ_ONLY_PROGRAMS_def COMMAND_ORIGINS_WITHOUT_EXECUTION_def inspectArguments_def

text \<open>C36: Three ways around the plain-read judgement, whatever the roots. A sed cluster with \<open>l\<close> always takes the next argument for
  its value, also when the value is attached: whatever script stands in \<open>sed -l5 SCRIPT p\<close>, it is skipped and \<open>p\<close> judged in
  its place. A start path of \<open>find\<close> after \<open>-L\<close> is not looked at: \<open>find -L PATH\<close> counts as a read of the working directory. A
  pattern file attached to its option is not looked at: \<open>grep --file=PATH x\<close> counts as a read of nothing. The first and the last
  are vouched for in every scope, the other in every scope that has its working directory under a root.\<close>

theorem unjudged_arguments_are_vouched:
  assumes "isReadableUnderRoots ''.'' scope" "list_all is_digit n" "isReadOnlySedScript harmless" "\<not> starts_with harmless ''-''"
    and "list_all (\<lambda>arg. list_all (\<lambda>prefix. \<not> starts_with arg prefix) FIND_WRITING_OR_RUNNING_PREFIXES) paths"
  shows "isPlainReadWithin (plain_command ''sed'' [''-l'' @ n, script, harmless]) scope
    \<and> isPlainReadWithin (plain_command ''find'' (''-L'' # paths)) scope
    \<and> isPlainReadWithin (plain_command ''grep'' [''--file='' @ path, ''x'']) scope"
proof (intro conjI)
  have "\<not> is_digit (CHR ''i'')" "\<not> is_digit (CHR ''f'')" "\<not> is_digit (CHR ''e'')" by code_simp+
  then have "CHR ''i'' \<notin> set n" "CHR ''f'' \<notin> set n" "CHR ''e'' \<notin> set n" using assms(2) by (metis list_all_iff)+
  moreover have "harmless \<noteq> ''--expression''" "\<not> starts_with harmless ''--''" "\<not> starts_with harmless ''--expression=''" "\<not> is_option harmless"
    using assms(4) by (cases harmless; auto simp: is_option_def)+
  ultimately have "sed_arguments [''-l'' @ n, script, harmless] = Some ([], [harmless])" by (simp add: is_option_def SED_FLAGS_WITH_VALUE_def Let_def)
  then show "isPlainReadWithin (plain_command ''sed'' [''-l'' @ n, script, harmless]) scope" using assms(3)
    by (simp add: isPlainReadWithin_def vouched_defs sedIsReadOnly_def Let_def del: sed_arguments.simps)
  show "isPlainReadWithin (plain_command ''find'' (''-L'' # paths)) scope" using assms(1,5)
    by (simp add: isPlainReadWithin_def vouched_defs findIsReadOnly_def FIND_WRITING_OR_RUNNING_PREFIXES_def list_ex_iff list_all_iff Let_def)
  show "isPlainReadWithin (plain_command ''grep'' [''--file='' @ path, ''x'']) scope"
    by (simp add: isPlainReadWithin_def vouched_defs searchIsReadOnly_def parseSearchArguments_def PATTERN_OPTIONS_def PATTERN_FILE_OPTIONS_def Let_def)
qed

theorem unjudged_arguments_are_vouched_witness:
  "isPlainReadWithin (plain_command ''sed'' [''-l5'', ''w /etc/motd'', ''p'']) \<lparr>rs_cwd = ''/work'', rs_roots = [''/work'']\<rparr>
   \<and> isPlainReadWithin (plain_command ''find'' [''-L'', ''/etc'']) \<lparr>rs_cwd = ''/work'', rs_roots = [''/work'']\<rparr>
   \<and> isPlainReadWithin (plain_command ''grep'' [''--file=/etc/shadow'', ''x'']) \<lparr>rs_cwd = ''/work'', rs_roots = [''/work'']\<rparr>"
proof -
  have "isReadableUnderRoots ''.'' \<lparr>rs_cwd = ''/work'', rs_roots = [''/work'']\<rparr>" by code_simp
  moreover have "list_all is_digit ''5''" by code_simp
  moreover have "isReadOnlySedScript ''p''" by code_simp
  moreover have "\<not> starts_with ''p'' ''-''" by code_simp
  moreover have "list_all (\<lambda>arg. list_all (\<lambda>prefix. \<not> starts_with arg prefix) FIND_WRITING_OR_RUNNING_PREFIXES) [''/etc'']" by code_simp
  ultimately show ?thesis using unjudged_arguments_are_vouched [of _ "''5''" "''p''" "[''/etc'']" "''w /etc/motd''" "''/etc/shadow''"] by simp
qed


end
