(* ===== verification/Text_Patterns.thy ===== *)
theory Text_Patterns
  imports Fleet_Prelude
begin

text \<open>
  The regular expressions the policy tests its texts with: the constructs its patterns use (character
  classes, sequence, alternation, repetition, \<open>\b\<close>, \<open>^\<close>, \<open>$\<close> and the negative lookahead), and \<open>rx_test\<close>, which
  does what \<open>RegExp.test\<close> does without flags: it tells whether a match starts somewhere. \<open>rx_ends\<close> computes
  the ends of the matches from one start; \<open>rx_matches\<close> is the declarative reading, and the two agree.

  Patterns read the bytes of a text. A negated class reads one byte of a longer character, which
  changes no verdict: such a class is repeated, or followed by an ASCII character. White space is the
  class \<open>\s\<close>, its characters beyond ASCII written as their bytes.
\<close>

section \<open>Patterns\<close>

datatype rx =
    Ch "char \<Rightarrow> bool"
  | Eps
  | Cat rx rx
  | Alt rx rx
  | Rep rx
  | WordBoundary
  | AtStart
  | AtEnd
  | NotAhead rx

definition is_lower :: "char \<Rightarrow> bool" where
  "is_lower c \<longleftrightarrow> c \<in> set ''abcdefghijklmnopqrstuvwxyz''"

definition is_upper :: "char \<Rightarrow> bool" where
  "is_upper c \<longleftrightarrow> c \<in> set ''ABCDEFGHIJKLMNOPQRSTUVWXYZ''"

definition is_letter :: "char \<Rightarrow> bool" where
  "is_letter c \<longleftrightarrow> is_lower c \<or> is_upper c"

definition is_word_char :: "char \<Rightarrow> bool" where
  "is_word_char c \<longleftrightarrow> is_letter c \<or> is_digit c \<or> c = CHR ''_''"

definition word_at :: "string \<Rightarrow> nat \<Rightarrow> bool" where
  "word_at s i \<longleftrightarrow> i < length s \<and> is_word_char (s ! i)"

definition word_boundary :: "string \<Rightarrow> nat \<Rightarrow> bool" where
  "word_boundary s i \<longleftrightarrow> (0 < i \<and> word_at s (i - 1)) \<noteq> word_at s i"

primrec closure :: "('a \<Rightarrow> 'a list) \<Rightarrow> nat \<Rightarrow> 'a list \<Rightarrow> 'a list" where
  "closure f 0 xs = xs"
| "closure f (Suc n) xs = closure f n (remdups (xs @ concat (map f xs)))"

text \<open>A repetition needs at most one step per position of the text.\<close>

primrec rx_ends :: "rx \<Rightarrow> string \<Rightarrow> nat \<Rightarrow> nat list" where
  "rx_ends (Ch P) s i = (if i < length s \<and> P (s ! i) then [Suc i] else [])"
| "rx_ends Eps s i = [i]"
| "rx_ends (Cat a b) s i = remdups (concat (map (rx_ends b s) (rx_ends a s i)))"
| "rx_ends (Alt a b) s i = remdups (rx_ends a s i @ rx_ends b s i)"
| "rx_ends (Rep a) s i = closure (rx_ends a s) (length s - i) [i]"
| "rx_ends WordBoundary s i = (if word_boundary s i then [i] else [])"
| "rx_ends AtStart s i = (if i = 0 then [i] else [])"
| "rx_ends AtEnd s i = (if i = length s then [i] else [])"
| "rx_ends (NotAhead a) s i = (if rx_ends a s i = [] then [i] else [])"

definition rx_test :: "rx \<Rightarrow> string \<Rightarrow> bool" where
  "rx_test r s \<longleftrightarrow> list_ex (\<lambda>i. rx_ends r s i \<noteq> []) [0..<length s + 1]"

text \<open>Derived constructs.\<close>

definition one_of :: "char list \<Rightarrow> rx" where "one_of cs = Ch (\<lambda>c. c \<in> set cs)"
definition none_of :: "char list \<Rightarrow> rx" where "none_of cs = Ch (\<lambda>c. c \<notin> set cs)"
definition opt :: "rx \<Rightarrow> rx" where "opt r = Alt r Eps"
definition plus :: "rx \<Rightarrow> rx" where "plus r = Cat r (Rep r)"
definition seq :: "rx list \<Rightarrow> rx" where "seq rs = foldr Cat rs Eps"
definition lit :: "string \<Rightarrow> rx" where "lit s = seq (map (\<lambda>c. Ch (\<lambda>d. d = c)) s)"

fun alts :: "rx list \<Rightarrow> rx" where
  "alts [] = NotAhead Eps"
| "alts [r] = r"
| "alts (r # rs) = Alt r (alts rs)"

definition lits :: "string list \<Rightarrow> rx" where "lits ws = alts (map lit ws)"

definition whole :: "rx list \<Rightarrow> rx" where "whole rs = seq (AtStart # rs @ [AtEnd])"

definition white :: rx where
  "white = alts
     [one_of [CHR 0x09, CHR 0x0A, CHR 0x0B, CHR 0x0C, CHR 0x0D, CHR '' ''],
      lit [CHR 0xC2, CHR 0xA0], lit [CHR 0xE1, CHR 0x9A, CHR 0x80],
      seq [lit [CHR 0xE2, CHR 0x80],
           one_of [CHR 0x80, CHR 0x81, CHR 0x82, CHR 0x83, CHR 0x84, CHR 0x85, CHR 0x86, CHR 0x87, CHR 0x88, CHR 0x89, CHR 0x8A,
                   CHR 0xA8, CHR 0xA9, CHR 0xAF]],
      lit [CHR 0xE2, CHR 0x81, CHR 0x9F], lit [CHR 0xE3, CHR 0x80, CHR 0x80], lit [CHR 0xEF, CHR 0xBB, CHR 0xBF]]"

lemmas rx_defs = one_of_def none_of_def opt_def plus_def seq_def lit_def lits_def whole_def

section \<open>The declarative reading\<close>

primrec rx_matches :: "rx \<Rightarrow> string \<Rightarrow> nat \<Rightarrow> nat \<Rightarrow> bool" where
  "rx_matches (Ch P) s i j \<longleftrightarrow> i < length s \<and> P (s ! i) \<and> j = Suc i"
| "rx_matches Eps s i j \<longleftrightarrow> j = i"
| "rx_matches (Cat a b) s i j \<longleftrightarrow> (\<exists>k. rx_matches a s i k \<and> rx_matches b s k j)"
| "rx_matches (Alt a b) s i j \<longleftrightarrow> rx_matches a s i j \<or> rx_matches b s i j"
| "rx_matches (Rep a) s i j \<longleftrightarrow> (rx_matches a s)\<^sup>*\<^sup>* i j"
| "rx_matches WordBoundary s i j \<longleftrightarrow> word_boundary s i \<and> j = i"
| "rx_matches AtStart s i j \<longleftrightarrow> i = 0 \<and> j = i"
| "rx_matches AtEnd s i j \<longleftrightarrow> i = length s \<and> j = i"
| "rx_matches (NotAhead a) s i j \<longleftrightarrow> \<not> (\<exists>k. rx_matches a s i k) \<and> j = i"

lemma rx_matches_forward: "rx_matches r s i j \<Longrightarrow> i \<le> j \<and> (j \<le> length s \<or> j = i)"
proof (induction r arbitrary: i j)
  case (Rep a)
  from Rep.prems [simplified] show ?case
    by (induction rule: converse_rtranclp_induct) (use Rep.IH in fastforce)+
qed fastforce+

lemma relpowp_le_Suc: "(\<exists>k \<le> Suc n. (R ^^ k) x y) \<longleftrightarrow> (\<exists>k \<le> n. (R ^^ k) x y) \<or> (\<exists>z. R x z \<and> (\<exists>k \<le> n. (R ^^ k) z y))"
proof
  assume "\<exists>k \<le> Suc n. (R ^^ k) x y"
  then obtain k where k: "k \<le> Suc n" "(R ^^ k) x y" by blast
  show "(\<exists>k \<le> n. (R ^^ k) x y) \<or> (\<exists>z. R x z \<and> (\<exists>k \<le> n. (R ^^ k) z y))"
  proof (cases k)
    case (Suc m)
    then show ?thesis using k relpowp_Suc_D2 [of m R x y] by auto
  qed (use k in auto)
next
  assume "(\<exists>k \<le> n. (R ^^ k) x y) \<or> (\<exists>z. R x z \<and> (\<exists>k \<le> n. (R ^^ k) z y))"
  then show "\<exists>k \<le> Suc n. (R ^^ k) x y"
    using relpowp_Suc_I2 [of R x] by (meson Suc_le_mono le_SucI)
qed

lemma closure_steps:
  "y \<in> set (closure f n xs) \<longleftrightarrow> (\<exists>x \<in> set xs. \<exists>k \<le> n. ((\<lambda>a b. b \<in> set (f a)) ^^ k) x y)"
proof (induction n arbitrary: xs)
  case (Suc n)
  let ?R = "\<lambda>a b. b \<in> set (f a)"
  have "y \<in> set (closure f (Suc n) xs) \<longleftrightarrow>
      (\<exists>x \<in> set xs. \<exists>k \<le> n. (?R ^^ k) x y) \<or> (\<exists>x \<in> set xs. \<exists>z. ?R x z \<and> (\<exists>k \<le> n. (?R ^^ k) z y))"
    using Suc.IH [of "remdups (xs @ concat (map f xs))"] by auto
  also have "\<dots> \<longleftrightarrow> (\<exists>x \<in> set xs. \<exists>k \<le> Suc n. (?R ^^ k) x y)"
    unfolding relpowp_le_Suc by blast
  finally show ?case .
qed auto

lemma bounded_steps:
  assumes "R\<^sup>*\<^sup>* i j" and forward: "\<And>i j. R i j \<Longrightarrow> i \<le> j \<and> (j \<le> L \<or> j = i)"
  shows "\<exists>k \<le> L - i. (R ^^ k) i (j :: nat)"
  using assms(1)
proof (induction rule: converse_rtranclp_induct)
  case (step i y)
  then obtain k where k: "k \<le> L - y" "(R ^^ k) y j" by blast
  show ?case
  proof (cases "y = i")
    case False
    with forward [OF step(1)] k(1) have "Suc k \<le> L - i" by auto
    with relpowp_Suc_I2 [OF step(1) k(2)] show ?thesis by blast
  qed (use k in blast)
qed (auto intro: exI [of _ 0])

lemma rx_ends_matches: "j \<in> set (rx_ends r s i) \<longleftrightarrow> rx_matches r s i j"
proof (induction r arbitrary: i j)
  case (Rep a)
  have step: "(\<lambda>i j. j \<in> set (rx_ends a s i)) = rx_matches a s" using Rep by (simp add: fun_eq_iff)
  have "(\<exists>k \<le> length s - i. (rx_matches a s ^^ k) i j) \<longleftrightarrow> (rx_matches a s)\<^sup>*\<^sup>* i j"
    using bounded_steps [of "rx_matches a s" i j "length s"] rx_matches_forward [of a s] by (meson relpowp_imp_rtranclp)
  then show ?case by (simp add: closure_steps step)
next
  case (NotAhead a)
  have "rx_ends a s i = [] \<longleftrightarrow> \<not> (\<exists>k. rx_matches a s i k)"
    unfolding NotAhead [symmetric] by (cases "rx_ends a s i") auto
  then show ?case by auto
qed auto

text \<open>A text passes a pattern exactly when some part of it reads as the pattern.\<close>

lemma rx_test_exact: "rx_test r s \<longleftrightarrow> (\<exists>i \<le> length s. \<exists>j. rx_matches r s i j)"
proof -
  have "rx_ends r s i \<noteq> [] \<longleftrightarrow> (\<exists>j. rx_matches r s i j)" for i
    unfolding rx_ends_matches [symmetric] by (cases "rx_ends r s i") auto
  then show ?thesis by (auto simp: rx_test_def list_ex_iff le_less Bex_def)
qed

end
