(* ===== verification/File_Writes.thy ===== *)
theory File_Writes
  imports Read_Only_Access Text_Patterns
begin

text \<open>
  Which simple commands write a file outside given roots, \<^verbatim>\<open>policy/shellFileWrites.ts\<close>: redirections, \<open>tee\<close>,
  \<open>sed -i\<close>, \<open>dd of=\<close>, and interpreters whose inline code opens a file for writing, which the code tells by
  the regular expressions transcribed here (\<^verbatim>\<open>Text_Patterns\<close>).
\<close>

section \<open>Patterns\<close>

definition QUOTES :: "char list" where "QUOTES = [SQUOTE, DQUOTE]"

definition spaces :: rx where "spaces = Rep white"

definition write_mode :: rx where
  "write_mode = seq [one_of QUOTES, Rep (one_of ''rwxabt+''), one_of ''wax+'', Rep (one_of ''rwxabt+''), one_of QUOTES]"

definition mode_keyword :: rx where
  "mode_keyword = seq [lit ''mode'', spaces, lit ''='', spaces]"

definition FILE_WRITING_REDIRECTS :: "redirect_operator list" where
  "FILE_WRITING_REDIRECTS = [Gt, GtGt, GtPipe, AmpGt, AmpGtGt, LtGt]"

definition DESCRIPTOR_TARGET :: rx where
  "DESCRIPTOR_TARGET = whole [Alt (plus (Ch is_digit)) (lit ''-'')]"

definition HARMLESS_DEVICES :: "string list" where
  "HARMLESS_DEVICES = [''/dev/null'', ''/dev/stdout'', ''/dev/stderr'', ''/dev/tty'']"

definition DESCRIPTOR_DEVICE_PREFIX :: string where "DESCRIPTOR_DEVICE_PREFIX = ''/dev/fd/''"

definition INTERPRETER_PROGRAM :: rx where
  "INTERPRETER_PROGRAM = whole
     [alts [seq [lit ''python'', Rep (one_of ''0123456789.'')], seq [lit ''node'', opt (lit ''js'')],
            lit ''deno'', lit ''bun'', lit ''ruby'', lit ''perl'', lit ''php'']]"

definition INLINE_CODE_OPTION :: rx where
  "INLINE_CODE_OPTION = seq [AtStart, lit ''-'', Rep (Ch is_letter), one_of ''ceEp'']"

definition INLINE_CODE_LONG_OPTIONS :: "string list" where
  "INLINE_CODE_LONG_OPTIONS = [''--eval'', ''--print'', ''--command'']"

definition INLINE_CODE_SUBCOMMANDS :: "string list" where
  "INLINE_CODE_SUBCOMMANDS = [''eval'']"

definition PERL_IN_PLACE_OPTION :: rx where
  "PERL_IN_PLACE_OPTION =
     seq [AtStart, lit ''-'', NotAhead (one_of ''MmI''), Rep (Ch (\<lambda>c. is_letter c \<or> is_digit c)), lit ''i'']"

definition SED_SCRIPT_OPTIONS :: "string list" where
  "SED_SCRIPT_OPTIONS = [''-e'', ''-f'', ''--expression'', ''--file'']"

definition OPEN_FOR_WRITING :: rx where
  "OPEN_FOR_WRITING =
     seq [WordBoundary, lit ''open'', spaces, lit ''('', spaces,
          plus (Alt (none_of '',()'') (seq [lit ''('', Rep (none_of ''()''), lit '')''])),
          lit '','', spaces, opt mode_keyword, write_mode]"

definition OPEN_WITH_MODE_KEYWORD :: rx where
  "OPEN_WITH_MODE_KEYWORD =
     seq [WordBoundary, lit ''open'', spaces, lit ''('', Rep (none_of '')''), WordBoundary, mode_keyword, write_mode]"

definition PATH_OPEN_FOR_WRITING :: rx where
  "PATH_OPEN_FOR_WRITING = seq [lit ''.open'', spaces, lit ''('', spaces, opt mode_keyword, write_mode]"

definition ALIASED_OPEN_FOR_WRITING :: rx where
  "ALIASED_OPEN_FOR_WRITING =
     seq [lit ''('', spaces, Rep (none_of ''()''), lit '','', spaces, one_of QUOTES,
          lits [''w'', ''wb'', ''wt'', ''x'', ''xb'', ''ab'', ''a+'', ''w+'', ''r+''], one_of QUOTES, spaces, one_of '',)'']"

definition WRITE_CALLS :: rx where
  "WRITE_CALLS = alts
     [seq [WordBoundary,
           lits [''write_text'', ''write_bytes'', ''writeFile'', ''writeFileSync'', ''writeTextFile'', ''appendFile'', ''appendFileSync'',
                 ''createWriteStream'', ''copyFile'', ''copyFileSync'', ''file_put_contents'', ''binwrite''], WordBoundary],
      seq [WordBoundary, lit ''Bun.write'', WordBoundary],
      seq [WordBoundary, lits [''File'', ''IO''], lit ''.write'', WordBoundary],
      seq [lit ''O_'', lits [''WRONLY'', ''RDWR'', ''CREAT'']]]"

definition OPEN_SYNC_FOR_WRITING :: rx where
  "OPEN_SYNC_FOR_WRITING =
     seq [WordBoundary, lits [''openSync'', ''fopen''], spaces, lit ''('', Rep (none_of '')''), one_of QUOTES, one_of ''wax'']"

definition RUBY_FILE_OPEN_FOR_WRITING :: rx where
  "RUBY_FILE_OPEN_FOR_WRITING =
     seq [WordBoundary, lit ''File.open'', spaces, opt (lit ''(''), Rep (none_of '')''), one_of QUOTES, one_of ''wa'']"

definition PERL_OPEN_FOR_WRITING :: rx where
  "PERL_OPEN_FOR_WRITING =
     seq [WordBoundary, lit ''open'', spaces, opt (lit ''(''), Rep (none_of '';''), one_of QUOTES, spaces, opt (lit ''+''), lit ''>'']"

definition SHELLS_OUT :: rx where
  "SHELLS_OUT =
     seq [WordBoundary,
          lits [''os.system'', ''subprocess'', ''popen'', ''child_process'', ''execSync'', ''spawnSync'', ''exec_sync'', ''system''],
          WordBoundary]"

definition SHELL_WRITE_TEXT :: rx where
  "SHELL_WRITE_TEXT = alts
     [seq [none_of ''-=>'', lit ''>'', opt (lit ''>''), spaces,
           Ch (\<lambda>c. is_word_char c \<or> c \<in> set (''./$~'' @ QUOTES))],
      seq [WordBoundary, lit ''tee'', WordBoundary],
      seq [WordBoundary, lit ''sed'', plus white, lit ''-i''],
      seq [WordBoundary, lit ''dd'', white]]"

definition DECODES_A_PAYLOAD :: rx where
  "DECODES_A_PAYLOAD = alts
     [lits [''b64decode'', ''unhexlify'', ''fromhex'', ''zlib.decompress'', ''marshal.loads''],
      seq [WordBoundary, lit ''atob'', spaces, lit ''(''],
      seq [lit ''Buffer.from('', Rep (none_of '')''), one_of QUOTES, lits [''base64'', ''hex''], one_of QUOTES]]"

definition RUNS_DECODED_CODE :: rx where
  "RUNS_DECODED_CODE = alts
     [seq [WordBoundary, lits [''exec'', ''eval'', ''compile'', ''Function''], spaces, lit ''(''],
      seq [WordBoundary, lit ''import'', WordBoundary],
      seq [WordBoundary, lit ''require'', WordBoundary]]"

definition CODE_WRITE_PATTERNS :: "rx list" where
  "CODE_WRITE_PATTERNS =
     [OPEN_FOR_WRITING, OPEN_WITH_MODE_KEYWORD, PATH_OPEN_FOR_WRITING, ALIASED_OPEN_FOR_WRITING, WRITE_CALLS, OPEN_SYNC_FOR_WRITING,
      RUBY_FILE_OPEN_FOR_WRITING, PERL_OPEN_FOR_WRITING]"

section \<open>Writes\<close>

definition operandsOf :: "string list \<Rightarrow> string list" where
  "operandsOf as = filter (\<lambda>arg. \<not> is_option arg) as"

definition isHarmlessTarget :: "string \<Rightarrow> read_scope \<Rightarrow> bool" where
  "isHarmlessTarget target scope \<longleftrightarrow>
     target \<in> set HARMLESS_DEVICES \<or> starts_with target DESCRIPTOR_DEVICE_PREFIX \<or> isReadableUnderRoots target scope"

definition redirectWritesFileOutside :: "command_redirect \<Rightarrow> read_scope \<Rightarrow> bool" where
  "redirectWritesFileOutside r scope =
     (let isDescriptorDuplication = (cr_operator r = GtAmp \<and> rx_test DESCRIPTOR_TARGET (cr_target r));
          writesAFile = (\<not> isDescriptorDuplication \<and> (cr_operator r \<in> set FILE_WRITING_REDIRECTS \<or> cr_operator r = GtAmp))
      in writesAFile \<and> cr_target r \<noteq> '''' \<and> \<not> isHarmlessTarget (cr_target r) scope)"

definition sedRewritesFileOutside :: "string list \<Rightarrow> read_scope \<Rightarrow> bool \<Rightarrow> bool" where
  "sedRewritesFileOutside as scope namesFilesOnStdin =
     (let rewritesInPlace = list_ex (\<lambda>arg. starts_with arg ''--in-place'' \<or>
            (is_option arg \<and> \<not> starts_with arg ''--'' \<and> CHR ''i'' \<in> set arg)) as
      in if \<not> rewritesInPlace then False
         else (let scriptCount = max 1 (length (filter (\<lambda>arg. arg \<in> set SED_SCRIPT_OPTIONS) as));
                   files = drop scriptCount (operandsOf as)
               in if namesFilesOnStdin \<and> files = [] then True
                  else list_ex (\<lambda>file. \<not> isHarmlessTarget file scope) files))"

definition ddWritesFileOutside :: "string list \<Rightarrow> read_scope \<Rightarrow> bool" where
  "ddWritesFileOutside as scope =
     list_ex (\<lambda>output. \<not> isHarmlessTarget output scope) (map (drop 3) (filter (\<lambda>arg. starts_with arg ''of='') as))"

definition hasInlineCode :: "string list \<Rightarrow> bool" where
  "hasInlineCode as \<longleftrightarrow>
     list_ex (\<lambda>arg. rx_test INLINE_CODE_OPTION arg \<or>
       list_ex (\<lambda>option. arg = option \<or> starts_with arg (option @ ''='')) INLINE_CODE_LONG_OPTIONS) as \<or>
     (case as of [] \<Rightarrow> '''' | a # _ \<Rightarrow> a) \<in> set INLINE_CODE_SUBCOMMANDS"

definition codeTextOf :: "simple_command \<Rightarrow> string" where
  "codeTextOf c =
     (let stdinScripts = concat (map (\<lambda>r. if cr_operator r = LtLt then [opt_default [] (cr_heredocBody r)]
            else if cr_operator r = LtLtLt then [cr_target r] else []) (redirects c))
      in join_with [NL] ((if hasInlineCode (args c) then args c else []) @ stdinScripts))"

definition codeWritesAFile :: "string \<Rightarrow> bool" where
  "codeWritesAFile code =
     (if list_ex (\<lambda>pattern. rx_test pattern code) CODE_WRITE_PATTERNS then True
      else (let shellsOutToAWrite = (rx_test SHELLS_OUT code \<and> rx_test SHELL_WRITE_TEXT code);
                runsAHiddenPayload = (rx_test DECODES_A_PAYLOAD code \<and> rx_test RUNS_DECODED_CODE code)
            in shellsOutToAWrite \<or> runsAHiddenPayload))"

definition interpreterWritesAFile :: "simple_command \<Rightarrow> bool" where
  "interpreterWritesAFile c \<longleftrightarrow>
     (program c = ''perl'' \<and> list_ex (rx_test PERL_IN_PLACE_OPTION) (args c)) \<or> codeWritesAFile (codeTextOf c)"

definition programWritesFileOutside :: "simple_command \<Rightarrow> read_scope \<Rightarrow> bool" where
  "programWritesFileOutside c scope =
     (let namesFilesOnStdin = (''xargs'' \<in> set (wrappers c))
      in if program c = ''tee'' then
           (namesFilesOnStdin \<and> operandsOf (args c) = []) \<or> list_ex (\<lambda>file. \<not> isHarmlessTarget file scope) (operandsOf (args c))
         else if program c = ''sed'' then sedRewritesFileOutside (args c) scope namesFilesOnStdin
         else if program c = ''dd'' then ddWritesFileOutside (args c) scope
         else rx_test INTERPRETER_PROGRAM (program c) \<and> interpreterWritesAFile c)"

definition writesFileOutside :: "simple_command \<Rightarrow> read_scope \<Rightarrow> bool" where
  "writesFileOutside c scope \<longleftrightarrow>
     list_ex (\<lambda>r. redirectWritesFileOutside r scope) (redirects c) \<or> programWritesFileOutside c scope"

section \<open>Harmless redirections\<close>

lemma rx_rep_run:
  "i \<le> j \<Longrightarrow> j \<le> length s \<Longrightarrow> \<forall>k. i \<le> k \<and> k < j \<longrightarrow> P (s ! k) \<Longrightarrow> rx_matches (Rep (Ch P)) s i j"
proof (induction "j - i" arbitrary: i)
  case (Suc n)
  then have "rx_matches (Ch P) s i (Suc i)" "rx_matches (Rep (Ch P)) s (Suc i) j" by auto
  then show ?case by (auto intro: converse_rtranclp_into_rtranclp)
qed simp

lemma descriptor_target_digits:
  assumes "isDigits t"
  shows "rx_test DESCRIPTOR_TARGET t"
proof -
  have t: "0 < length t" "\<forall>k < length t. is_digit (t ! k)"
    using assms by (auto simp: isDigits_def list_all_length)
  have "rx_matches (Ch is_digit) t 0 1" using t by simp
  moreover have "rx_matches (Rep (Ch is_digit)) t 1 (length t)"
    using t rx_rep_run [of 1 "length t" t is_digit] by (simp add: Suc_leI)
  ultimately have "rx_matches (plus (Ch is_digit)) t 0 (length t)" unfolding plus_def rx_matches.simps by blast
  then have "rx_matches DESCRIPTOR_TARGET t 0 (length t)"
    by (auto simp: DESCRIPTOR_TARGET_def whole_def seq_def)
  then show ?thesis unfolding rx_test_exact by blast
qed

lemma harmless_redirect_writes_nothing:
  assumes "redirectIsHarmless r scope"
  shows "\<not> redirectWritesFileOutside r scope"
proof (cases "(cr_operator r = GtAmp \<or> cr_operator r = LtAmp) \<and> (cr_target r = ''-'' \<or> isDigits (cr_target r))")
  case True
  have "rx_test DESCRIPTOR_TARGET ''-''" by code_simp
  with True show ?thesis
    using descriptor_target_digits by (auto simp: redirectWritesFileOutside_def FILE_WRITING_REDIRECTS_def Let_def)
next
  case False
  then have "cr_operator r = Lt \<or> (cr_operator r \<in> set WRITE_REDIRECTS \<and> cr_target r = NULL_DEVICE)"
    using assms by (auto simp: redirectIsHarmless_def split: if_splits)
  then show ?thesis
    by (auto simp: redirectWritesFileOutside_def FILE_WRITING_REDIRECTS_def WRITE_REDIRECTS_def isHarmlessTarget_def
        HARMLESS_DEVICES_def NULL_DEVICE_def Let_def)
qed

lemma readers_are_not_interpreters: "list_all (\<lambda>p. \<not> rx_test INTERPRETER_PROGRAM p) READ_ONLY_PROGRAMS"
  by code_simp

lemma tee_is_plain:
  "\<not> isAssignment ''tee''" "map_of TRANSPARENT_WRAPPERS (basenameOf ''tee'') = None" "basenameOf ''tee'' = ''tee''"
  "''tee'' \<notin> set ([''eval'', ''find'', ''''] @ SHELL_PROGRAMS)"
  by code_simp+

text \<open>The line \<open>sh -c 'bash -c '...'tee FILE'...''\<close>, one shell in another, every word quoted.\<close>

fun nested_tee :: "string list \<Rightarrow> string \<Rightarrow> string" where
  "nested_tee [] filename = join_with '' '' (map shell_quote [''tee'', filename])"
| "nested_tee (sh # shells) filename = join_with '' '' (map shell_quote [sh, ''-c'', nested_tee shells filename])"

lemma nested_tee_start: "\<not> starts_with (nested_tee shells filename) ''-''" "\<not> starts_with (nested_tee shells filename) ''+''"
  by (cases shells; simp add: shell_quote_def)+

lemma nested_tee_commands:
  assumes "set shells \<subseteq> set SHELL_PROGRAMS" "pl_depth ctx + length shells \<le> MAX_NESTING_DEPTH" "length shells < levels"
    "\<not> isStopped run" "length (commands run) + length shells < MAX_COMMANDS"
  shows "\<exists>cs origin' depth'. analyzeScript levels (nested_tee shells filename) ctx run = run\<lparr>commands := commands run @ cs @
    [\<lparr>program = ''tee'', invokedAs = ''tee'', args = [filename], assignments = [], wrappers = [], wrapperOptions = [],
      redirects = [], fedByPipe = False, origin = origin', depth = depth', textHasBareAssignment = False\<rparr>]\<rparr>"
  using assms
proof (induction shells arbitrary: levels ctx run)
  case Nil
  then obtain l where "levels = Suc l" by (cases levels) simp_all
  moreover from Nil have "length (commands run) < MAX_COMMANDS" by simp
  ultimately have "analyzeScript levels (nested_tee [] filename) ctx run = run\<lparr>commands := commands run @ [] @
    [\<lparr>program = ''tee'', invokedAs = ''tee'', args = [filename], assignments = [], wrappers = [], wrapperOptions = [],
      redirects = [], fedByPipe = False, origin = pl_origin ctx, depth = pl_depth ctx, textHasBareAssignment = False\<rparr>]\<rparr>"
    using analyzeScript_quoted_plain [of "''tee''" run l "[filename]" ctx] tee_is_plain Nil(4) by simp
  then show ?case by blast
next
  case (Cons sh shells)
  then obtain l where l: "levels = Suc l" "length shells < l" by (cases levels) simp_all
  have shell: "sh \<in> set SHELL_PROGRAMS" "length (commands run) < MAX_COMMANDS" "pl_depth ctx < MAX_NESTING_DEPTH" using Cons.prems by simp_all
  let ?inner = "\<lparr>pl_origin = InlineShell, pl_depth = pl_depth ctx + 1\<rparr>"
  have "\<exists>c. analyzeScript levels (nested_tee (sh # shells) filename) ctx run = analyzeScript l (nested_tee shells filename) ?inner (run\<lparr>commands := commands run @ [c]\<rparr>)"
    unfolding l(1) nested_tee.simps(2) analyzeScript_inline_shell [OF shell(1) Cons.prems(4) shell(2,3) nested_tee_start] by blast
  then obtain c where step: "analyzeScript levels (nested_tee (sh # shells) filename) ctx run = analyzeScript l (nested_tee shells filename) ?inner (run\<lparr>commands := commands run @ [c]\<rparr>)" ..
  have "\<exists>cs origin' depth'. analyzeScript l (nested_tee shells filename) ?inner (run\<lparr>commands := commands run @ [c]\<rparr>) = (run\<lparr>commands := commands run @ [c]\<rparr>)\<lparr>commands := commands (run\<lparr>commands := commands run @ [c]\<rparr>) @ cs @
    [\<lparr>program = ''tee'', invokedAs = ''tee'', args = [filename], assignments = [], wrappers = [], wrapperOptions = [],
      redirects = [], fedByPipe = False, origin = origin', depth = depth', textHasBareAssignment = False\<rparr>]\<rparr>"
    by (rule Cons.IH) (use Cons.prems l(2) in simp_all)
  then obtain cs origin' depth' where "analyzeScript l (nested_tee shells filename) ?inner (run\<lparr>commands := commands run @ [c]\<rparr>) = run\<lparr>commands := commands run @ (c # cs) @
    [\<lparr>program = ''tee'', invokedAs = ''tee'', args = [filename], assignments = [], wrappers = [], wrapperOptions = [],
      redirects = [], fedByPipe = False, origin = origin', depth = depth', textHasBareAssignment = False\<rparr>]\<rparr>" by auto
  then show ?case unfolding step by blast
qed

lemma nested_tee_analysis:
  assumes "set shells \<subseteq> set SHELL_PROGRAMS" "length shells \<le> MAX_NESTING_DEPTH" "utf16_length (nested_tee shells filename) \<le> MAX_COMMAND_CHARS"
    and "\<not> is_option filename" "\<not> isHarmlessTarget filename scope"
  shows "ca_status (analyzeCommand (nested_tee shells filename)) = Complete"
    and "list_ex (\<lambda>c. writesFileOutside c scope) (ca_commands (analyzeCommand (nested_tee shells filename)))"
proof -
  obtain cs origin' depth' where run: "analyzeScript (Suc MAX_NESTING_DEPTH) (nested_tee shells filename) \<lparr>pl_origin = Top, pl_depth = 0\<rparr> new_run = new_run\<lparr>commands := cs @
    [\<lparr>program = ''tee'', invokedAs = ''tee'', args = [filename], assignments = [], wrappers = [], wrapperOptions = [],
      redirects = [], fedByPipe = False, origin = origin', depth = depth', textHasBareAssignment = False\<rparr>]\<rparr>"
    using nested_tee_commands [OF assms(1), where ctx = "\<lparr>pl_origin = Top, pl_depth = 0\<rparr>" and levels = "Suc MAX_NESTING_DEPTH" and run = new_run and filename = filename] assms(2)
    by (auto simp: new_run_def MAX_COMMANDS_def MAX_NESTING_DEPTH_def)
  show "ca_status (analyzeCommand (nested_tee shells filename)) = Complete"
    using assms(3) run by (simp add: analyzeCommand_def new_run_def Let_def del: nested_tee.simps)
  show "list_ex (\<lambda>c. writesFileOutside c scope) (ca_commands (analyzeCommand (nested_tee shells filename)))"
    using assms(3-5) run by (simp add: analyzeCommand_def new_run_def Let_def writesFileOutside_def programWritesFileOutside_def operandsOf_def del: nested_tee.simps)
qed

section \<open>Properties\<close>

text \<open>C7: The two judgements of the policy agree: a command vouched for as a plain read within some roots
  never counts as writing a file outside them (\<open>sed\<close>, judged by its scripts, is treated apart).\<close>

theorem vouched_reads_write_nothing_outside:
  assumes "isPlainReadWithin c scope" "program c \<noteq> ''sed''"
  shows "\<not> writesFileOutside c scope"
proof -
  have prog: "program c \<in> set READ_ONLY_PROGRAMS" and harmless: "list_all (\<lambda>r. redirectIsHarmless r scope) (redirects c)"
    using assms(1) by (auto simp: isPlainReadWithin_def Let_def split: if_splits)
  have "\<not> rx_test INTERPRETER_PROGRAM (program c)"
    using readers_are_not_interpreters prog by (simp add: list_all_iff)
  moreover have "program c \<noteq> ''tee''" "program c \<noteq> ''dd''" using prog by (auto simp: READ_ONLY_PROGRAMS_def)
  moreover have "\<not> list_ex (\<lambda>r. redirectWritesFileOutside r scope) (redirects c)"
    using harmless harmless_redirect_writes_nothing by (auto simp: list_all_iff list_ex_iff)
  ultimately show ?thesis using assms(2) by (simp add: writesFileOutside_def programWritesFileOutside_def)
qed

theorem vouched_reads_write_nothing_outside_witness:
  "\<not> writesFileOutside
     ((plain_command ''cat'' [''-n'', ''src/a.ts''])\<lparr>redirects := [\<lparr>cr_operator = Gt, cr_fd = Some 2, cr_target = ''/dev/null'', cr_heredocBody = None\<rparr>]\<rparr>)
     \<lparr>rs_cwd = ''/work'', rs_roots = [''/work'']\<rparr>"
proof (rule vouched_reads_write_nothing_outside)
  show "isPlainReadWithin
     ((plain_command ''cat'' [''-n'', ''src/a.ts''])\<lparr>redirects := [\<lparr>cr_operator = Gt, cr_fd = Some 2, cr_target = ''/dev/null'', cr_heredocBody = None\<rparr>]\<rparr>)
     \<lparr>rs_cwd = ''/work'', rs_roots = [''/work'']\<rparr>" by code_simp
qed (simp add: plain_command_def)

end
