(* ===== verification/Declared_Commands.thy ===== *)
theory Declared_Commands
  imports Read_Only_Access Text_Patterns
begin

text \<open>
  The commands a project may declare safe to run, \<^verbatim>\<open>policy/declaredCommands.ts\<close>, with the request type and the
  schema of a declared command from \<^verbatim>\<open>shared/src/commandPolicy.ts\<close>. \<open>node:path\<close> is written out for POSIX
  (\<open>node_normalize\<close>, \<open>node_join\<close>, \<open>node_resolve\<close>); the file system, that is \<open>realpathSync.native\<close> and the working
  directory of the process, is the parameter \<open>file_system\<close>.
\<close>

section \<open>Requests\<close>

datatype policy_presence = Attended | Unattended
datatype policy_actor = SessionActor | SubagentActor
datatype policy_source = PreToolUse | PermissionRequest

record policy_request =
  pr_sessionId :: string
  pr_harness :: string
  pr_role :: "string option"
  pr_model :: "string option"
  pr_presence :: policy_presence
  pr_actor :: policy_actor
  pr_source :: policy_source
  pr_toolName :: string
  pr_command :: "string option"
  pr_filePaths :: "string list option"
  pr_recipient :: "string option"
  pr_recipientNamesManager :: "bool option"
  pr_cwd :: string
  pr_worktreeRoot :: "string option"
  pr_scratchRoots :: "string list"
  pr_toolResultsRoot :: "string option"

section \<open>Paths\<close>

record file_system =
  realpath :: "string \<Rightarrow> string option"
  process_cwd :: string

definition ends_with :: "string \<Rightarrow> char \<Rightarrow> bool" where
  "ends_with s c \<longleftrightarrow> s \<noteq> [] \<and> last s = c"

fun normalize_segments :: "bool \<Rightarrow> string list \<Rightarrow> string list \<Rightarrow> string list" where
  "normalize_segments aboveRoot resolved [] = resolved"
| "normalize_segments aboveRoot resolved (segment # segments) =
     normalize_segments aboveRoot
       (if segment = '''' \<or> segment = ''.'' then resolved
        else if segment = ''..'' then
          (if resolved \<noteq> [] \<and> last resolved \<noteq> ''..'' then butlast resolved
           else if aboveRoot then resolved @ [''..''] else resolved)
        else resolved @ [segment]) segments"

definition node_normalize :: "string \<Rightarrow> string" where
  "node_normalize p =
     (if p = '''' then ''.''
      else (let isAbs = starts_with p ''/'';
                body = join_with ''/'' (normalize_segments (\<not> isAbs) [] (split_on (CHR ''/'') p))
            in if body = '''' then (if isAbs then ''/'' else if ends_with p (CHR ''/'') then ''./'' else ''.'')
               else (if isAbs then ''/'' else '''') @ body @ (if ends_with p (CHR ''/'') then ''/'' else '''')))"

definition node_join :: "string list \<Rightarrow> string" where
  "node_join ps = (let parts = filter (\<lambda>p. p \<noteq> '''') ps in if parts = [] then ''.'' else node_normalize (join_with ''/'' parts))"

definition node_segments :: "file_system \<Rightarrow> string \<Rightarrow> string list" where
  "node_segments fs p =
     normalize_segments False [] (split_on (CHR ''/'') (if starts_with p ''/'' then p else process_cwd fs @ ''/'' @ p))"

definition node_resolve :: "file_system \<Rightarrow> string \<Rightarrow> string" where
  "node_resolve fs p = ''/'' @ join_with ''/'' (node_segments fs p)"

definition isAbsolute :: "string \<Rightarrow> bool" where "isAbsolute p = starts_with p ''/''"

definition asScopedPath :: "string \<Rightarrow> string \<Rightarrow> string" where
  "asScopedPath path base = (if isAbsolute path then path else node_join [base, path])"

definition hasParentSegment :: "string \<Rightarrow> bool" where
  "hasParentSegment path \<longleftrightarrow> ''..'' \<in> set (split_on (CHR ''/'') path)"

definition isBelow :: "string \<Rightarrow> string \<Rightarrow> bool" where
  "isBelow path root = starts_with path (if ends_with root (CHR ''/'') then root else root @ ''/'')"

definition isInside :: "string \<Rightarrow> string \<Rightarrow> bool" where
  "isInside path root \<longleftrightarrow> path = root \<or> isBelow path root"

text \<open>The loop of \<open>resolvedPath\<close>: the segments of \<open>existing\<close>, last first, and the missing tail in path order.\<close>

fun resolve_existing :: "file_system \<Rightarrow> string \<Rightarrow> string list \<Rightarrow> string list \<Rightarrow> string" where
  "resolve_existing fs absolute [] tail =
     (case realpath fs ''/'' of Some real \<Rightarrow> node_join (real # tail) | None \<Rightarrow> absolute)"
| "resolve_existing fs absolute (name # up) tail =
     (case realpath fs (''/'' @ join_with ''/'' (rev (name # up))) of
        Some real \<Rightarrow> node_join (real # tail)
      | None \<Rightarrow> resolve_existing fs absolute up (name # tail))"

definition resolvedPath :: "file_system \<Rightarrow> string \<Rightarrow> string" where
  "resolvedPath fs path = resolve_existing fs (node_resolve fs path) (rev (node_segments fs path)) []"

section \<open>Tables\<close>

definition UNSAFE_TEXT :: "char list" where
  "UNSAFE_TEXT = [CHR ''$'', BACKTICK, CHR ''~'', NL, CR, CHR '';'', CHR ''|'', CHR ''&'', CHR ''<'', CHR ''>'',
     CHR ''('', CHR '')'', CHR ''{'', CHR ''}'', BACKSLASH, CHR ''!'']"

definition UNSAFE_PATH_TEXT :: "char list" where
  "UNSAFE_PATH_TEXT = UNSAFE_TEXT @ ''*?[]''"

definition has_any :: "char list \<Rightarrow> string \<Rightarrow> bool" where
  "has_any cs s \<longleftrightarrow> list_ex (\<lambda>c. c \<in> set cs) s"

definition alphanumeric :: "char \<Rightarrow> bool" where "alphanumeric c \<longleftrightarrow> is_letter c \<or> is_digit c"

definition alphanumeric_or :: "char list \<Rightarrow> rx" where
  "alphanumeric_or cs = Ch (\<lambda>c. alphanumeric c \<or> c \<in> set cs)"

definition BARE_PROGRAM :: rx where
  "BARE_PROGRAM = whole [Ch alphanumeric, Rep (alphanumeric_or ''._:-'')]"

definition ALLOWED_ENVIRONMENT_NAMES :: "string list" where
  "ALLOWED_ENVIRONMENT_NAMES = [''CI'', ''NODE_ENV'', ''FORCE_COLOR'', ''NO_COLOR'', ''PYTHONDONTWRITEBYTECODE'', ''PYTHONUNBUFFERED'', ''TZ'', ''LANG'']"

definition PLAIN_ENVIRONMENT_VALUE :: rx where
  "PLAIN_ENVIRONMENT_VALUE = whole [Rep (alphanumeric_or ''_.:-'')]"

definition PACKAGE_VERSION_CONSTRAINT :: rx where
  "PACKAGE_VERSION_CONSTRAINT =
     seq [lits [''=='', ''>='', ''<='', ''~='', ''!='', ''<'', ''>''], plus (Ch is_digit),
          Rep (seq [lit ''.'', plus (Ch is_digit)]), opt (lit ''.*'')]"

definition PYTEST_PACKAGE_SPEC :: rx where
  "PYTEST_PACKAGE_SPEC = whole
     [alts [lit ''pytest'', lit ''coverage'',
            seq [lit ''pytest'', one_of ''-_'', lits [''cov'', ''xdist'', ''asyncio'', ''mock'', ''timeout'', ''randomly'']]],
      opt PACKAGE_VERSION_CONSTRAINT]"

definition PLAIN_NAME :: rx where
  "PLAIN_NAME = whole [plus (alphanumeric_or ''_.-'')]"

definition UV_FLAGS :: "string list" where
  "UV_FLAGS = [''--frozen'', ''--locked'', ''--offline'', ''--no-sync'', ''-q'', ''--quiet'', ''--all-extras'', ''--dev'', ''--no-dev'']"

definition UV_PATH_OPTIONS :: "string list" where "UV_PATH_OPTIONS = [''--directory'', ''--project'']"
definition UV_NAME_OPTIONS :: "string list" where "UV_NAME_OPTIONS = [''--extra'', ''--group'']"
definition DIRECTORY_OPTIONS_OF_PNPM :: "string list" where "DIRECTORY_OPTIONS_OF_PNPM = [''-C'', ''--dir'']"
definition DIRECTORY_OPTIONS_OF_MAKE :: "string list" where "DIRECTORY_OPTIONS_OF_MAKE = [''-C'', ''--directory'']"

definition COVERAGE_REPORT_WITHOUT_FILE :: rx where
  "COVERAGE_REPORT_WITHOUT_FILE = whole [lits [''term'', ''term-missing'', ''annotate''], opt (lit '':skip-covered'')]"

datatype value_rule = Matching rx | WorktreePath | WritablePath | CoverageReport

record option_policy =
  flags :: "string list"
  clusterLetters :: "char list"
  valued :: "(string \<times> value_rule) list"
  allowsOperands :: bool
  onlyFirstOperand :: "string option"

definition ANY_TEXT :: rx where "ANY_TEXT = AtStart"
definition NUMBER :: rx where "NUMBER = whole [plus (Ch is_digit)]"
definition JOBS :: rx where "JOBS = whole [alts [lit ''auto'', lit ''logical'', plus (Ch is_digit)]]"
definition RULE_CODES :: rx where "RULE_CODES = whole [plus (alphanumeric_or '','')]"

definition OPTION_POLICY_WITHOUT_OPTIONS :: option_policy where
  "OPTION_POLICY_WITHOUT_OPTIONS = \<lparr>flags = [], clusterLetters = '''', valued = [], allowsOperands = True, onlyFirstOperand = None\<rparr>"

definition OPTION_POLICIES :: "(string \<times> option_policy) list" where
  "OPTION_POLICIES =
    [(''pytest'', \<lparr>
        flags = [''--quiet'', ''--verbose'', ''--exitfirst'', ''--no-header'', ''--disable-warnings'', ''--lf'', ''--ff'', ''--nf'', ''--last-failed'', ''--failed-first'', ''--new-first'', ''--collect-only'', ''--showlocals'', ''--strict-markers'', ''--strict-config'', ''--cov'', ''--no-cov'', ''--cov-branch'', ''--setup-show'', ''--cache-clear''],
        clusterLetters = ''qvxsl'',
        valued =
          [(''-k'', Matching ANY_TEXT), (''-m'', Matching ANY_TEXT), (''-n'', Matching JOBS), (''-r'', Matching (whole [plus (Ch is_letter)])),
           (''--tb'', Matching (whole [lits [''auto'', ''long'', ''short'', ''line'', ''native'', ''no'']])), (''--maxfail'', Matching NUMBER), (''--durations'', Matching NUMBER), (''--timeout'', Matching NUMBER),
           (''--color'', Matching (whole [lits [''yes'', ''no'', ''auto'']])), (''--capture'', Matching (whole [lits [''fd'', ''sys'', ''no'', ''tee-sys'']])),
           (''--cov'', WorktreePath), (''--cov-fail-under'', Matching NUMBER), (''--cov-report'', CoverageReport),
           (''--rootdir'', WorktreePath), (''--ignore'', WorktreePath), (''--junitxml'', WritablePath), (''--basetemp'', WritablePath)],
        allowsOperands = True, onlyFirstOperand = None\<rparr>),
     (''ruff'', \<lparr>
        flags = [''--quiet'', ''--statistics'', ''--diff'', ''--no-cache'', ''--exit-zero'', ''--no-fix''],
        clusterLetters = ''q'',
        valued =
          [(''--select'', Matching RULE_CODES), (''--ignore'', Matching RULE_CODES), (''--extend-select'', Matching RULE_CODES),
           (''--output-format'', Matching (whole [lits [''concise'', ''full'', ''json'', ''grouped'', ''github'', ''pylint'']]))],
        allowsOperands = True, onlyFirstOperand = None\<rparr>),
     (''mypy'', \<lparr>
        flags = [''--strict'', ''--no-incremental'', ''--pretty'', ''--show-error-codes'', ''--no-error-summary'', ''--ignore-missing-imports''],
        clusterLetters = ''qv'',
        valued = [(''--python-version'', Matching (whole [plus (one_of ''0123456789.'')]))],
        allowsOperands = True, onlyFirstOperand = None\<rparr>),
     (''vitest'', \<lparr>
        flags = [''--run'', ''--coverage'', ''--passWithNoTests'', ''--silent'', ''--no-color''],
        clusterLetters = '''',
        valued =
          [(''--reporter'', Matching (whole [lits [''default'', ''dot'', ''verbose'']])), (''--watch'', Matching (whole [lit ''false''])), (''--bail'', Matching NUMBER), (''--retry'', Matching NUMBER),
           (''-t'', Matching ANY_TEXT), (''--testNamePattern'', Matching ANY_TEXT)],
        allowsOperands = True, onlyFirstOperand = Some ''run''\<rparr>),
     (''tsc'', \<lparr>flags = [''--noEmit'', ''--pretty''], clusterLetters = '''', valued = [], allowsOperands = False, onlyFirstOperand = None\<rparr>),
     (''eslint'', \<lparr>flags = [''--quiet'', ''--no-cache''], clusterLetters = '''', valued = [], allowsOperands = True, onlyFirstOperand = None\<rparr>),
     (''make'', OPTION_POLICY_WITHOUT_OPTIONS\<lparr>allowsOperands := False\<rparr>)]"

section \<open>Launchers\<close>

record dc_scope =
  worktreeRoot :: string
  dc_cwd :: string
  writableRoots :: "string list"

record invocation =
  words :: "string list"
  bases :: "string list"

definition first_or_empty :: "string list \<Rightarrow> string" where
  "first_or_empty xs = (case xs of [] \<Rightarrow> '''' | x # _ \<Rightarrow> x)"

definition resolvedWhere :: "file_system \<Rightarrow> string \<Rightarrow> string list \<Rightarrow> string list \<Rightarrow> (string \<Rightarrow> string \<Rightarrow> bool) \<Rightarrow> bool" where
  "resolvedWhere fs path roots bs isAccepted =
     (if has_any UNSAFE_PATH_TEXT path \<or> hasParentSegment path then False
      else (let startingPoints = (if isAbsolute path then [''''] else bs)
            in list_all (\<lambda>base. list_ex (\<lambda>root. isAccepted (resolvedPath fs (asScopedPath path base)) root) roots) startingPoints))"

definition resolvedInside :: "file_system \<Rightarrow> string \<Rightarrow> string list \<Rightarrow> string list \<Rightarrow> bool" where
  "resolvedInside fs path roots bs = resolvedWhere fs path roots bs isInside"

definition resolvedBelow :: "file_system \<Rightarrow> string \<Rightarrow> string list \<Rightarrow> string list \<Rightarrow> bool" where
  "resolvedBelow fs path roots bs = resolvedWhere fs path roots bs isBelow"

definition splitOption :: "string \<Rightarrow> string \<times> string option" where
  "splitOption arg =
     (if starts_with arg ''--'' \<and> CHR ''='' \<in> set arg
      then (takeWhile (\<lambda>c. c \<noteq> CHR ''='') arg, Some (drop 1 (dropWhile (\<lambda>c. c \<noteq> CHR ''='') arg)))
      else (arg, None))"

definition uvValueIsAccepted :: "file_system \<Rightarrow> string \<Rightarrow> string \<Rightarrow> dc_scope \<Rightarrow> string list \<Rightarrow> bool" where
  "uvValueIsAccepted fs name v scope bs =
     (if name \<in> set UV_PATH_OPTIONS then resolvedInside fs v [worktreeRoot scope] bs
      else if name \<in> set UV_NAME_OPTIONS then rx_test PLAIN_NAME v
      else name = ''--with'' \<and> rx_test PYTEST_PACKAGE_SPEC v)"

text \<open>The loops over the options of a launcher: the words left and the directories, or \<open>None\<close> at an option
  that is not accepted. A value is the one attached to the option, or the next word.\<close>

fun uv_options :: "file_system \<Rightarrow> dc_scope \<Rightarrow> string list \<Rightarrow> string list \<Rightarrow> string list \<Rightarrow> (string list \<times> string list) option" where
  "uv_options fs scope bs [] directories = Some ([], directories)"
| "uv_options fs scope bs (w # ws) directories =
     (if \<not> starts_with w ''-'' then Some (w # ws, directories)
      else (let (name, inlineValue) = splitOption w
            in if name \<in> set UV_FLAGS \<and> inlineValue = None then uv_options fs scope bs ws directories
               else (case (case inlineValue of Some v \<Rightarrow> Some v | None \<Rightarrow> (case ws of [] \<Rightarrow> None | v # _ \<Rightarrow> Some v)) of
                       None \<Rightarrow> None
                     | Some v \<Rightarrow>
                         if \<not> uvValueIsAccepted fs name v scope bs then None
                         else uv_options fs scope bs (if inlineValue = None then drop 1 ws else ws)
                           (if name \<in> set UV_PATH_OPTIONS
                            then directories @ [resolvedPath fs (asScopedPath v (first_or_empty bs))] else directories))))"

definition stripUv :: "file_system \<Rightarrow> invocation \<Rightarrow> dc_scope \<Rightarrow> invocation option" where
  "stripUv fs iv scope =
     (if take 1 (drop 1 (words iv)) \<noteq> [''run''] then None
      else map_option (\<lambda>(ws, directories). \<lparr>words = ws, bases = directories\<rparr>)
             (uv_options fs scope (bases iv) (drop 2 (words iv)) (bases iv)))"

fun directory_options :: "file_system \<Rightarrow> dc_scope \<Rightarrow> string list \<Rightarrow> string list \<Rightarrow> string list \<Rightarrow> string list \<Rightarrow> (string list \<times> string list) option" where
  "directory_options fs scope options bs [] directories = Some ([], directories)"
| "directory_options fs scope options bs (w # ws) directories =
     (if \<not> starts_with w ''-'' then Some (w # ws, directories)
      else (let (name, inlineValue) = splitOption w
            in case (case inlineValue of Some v \<Rightarrow> Some v | None \<Rightarrow> (case ws of [] \<Rightarrow> None | v # _ \<Rightarrow> Some v)) of
                 None \<Rightarrow> None
               | Some v \<Rightarrow>
                   if \<not> (name \<in> set options \<and> resolvedInside fs v [worktreeRoot scope] bs) then None
                   else directory_options fs scope options bs (if inlineValue = None then drop 1 ws else ws)
                     (directories @ [resolvedPath fs (asScopedPath v (first_or_empty bs))])))"

definition stripDirectoryOptions :: "file_system \<Rightarrow> invocation \<Rightarrow> dc_scope \<Rightarrow> string list \<Rightarrow> invocation option" where
  "stripDirectoryOptions fs iv scope options =
     map_option (\<lambda>(ws, directories). \<lparr>words = first_or_empty (words iv) # ws, bases = directories\<rparr>)
       (directory_options fs scope options (bases iv) (drop 1 (words iv)) (bases iv))"

definition stripPnpm :: "file_system \<Rightarrow> invocation \<Rightarrow> dc_scope \<Rightarrow> invocation option" where
  "stripPnpm fs iv scope =
     map_option (\<lambda>stripped. if take 1 (drop 1 (words stripped)) = [''exec''] then stripped\<lparr>words := drop 2 (words stripped)\<rparr> else stripped)
       (stripDirectoryOptions fs iv scope DIRECTORY_OPTIONS_OF_PNPM)"

definition launcherOf :: "file_system \<Rightarrow> string \<Rightarrow> (invocation \<Rightarrow> dc_scope \<Rightarrow> invocation option) option" where
  "launcherOf fs name =
     (if name = ''uv'' then Some (stripUv fs)
      else if name = ''pnpm'' then Some (stripPnpm fs)
      else if name = ''make'' then Some (\<lambda>iv scope. stripDirectoryOptions fs iv scope DIRECTORY_OPTIONS_OF_MAKE)
      else None)"

definition MAX_LAUNCHER_DEPTH :: nat where "MAX_LAUNCHER_DEPTH = 3"

primrec launcher_loop :: "file_system \<Rightarrow> dc_scope \<Rightarrow> nat \<Rightarrow> invocation \<Rightarrow> invocation option" where
  "launcher_loop fs scope 0 current = Some current"
| "launcher_loop fs scope (Suc rounds) current =
     (case launcherOf fs (first_or_empty (words current)) of
        None \<Rightarrow> Some current
      | Some launcher \<Rightarrow>
          (case launcher current scope of
             None \<Rightarrow> None
           | Some next \<Rightarrow>
               if take 1 (words next) = take 1 (words current) then Some next else launcher_loop fs scope rounds next))"

definition withoutLaunchers :: "file_system \<Rightarrow> invocation \<Rightarrow> dc_scope \<Rightarrow> invocation option" where
  "withoutLaunchers fs first scope = launcher_loop fs scope MAX_LAUNCHER_DEPTH first"

section \<open>Arguments\<close>

definition coverageReportTargetIsWritable :: "file_system \<Rightarrow> string \<Rightarrow> dc_scope \<Rightarrow> string list \<Rightarrow> bool" where
  "coverageReportTargetIsWritable fs v scope bs =
     (if rx_test COVERAGE_REPORT_WITHOUT_FILE v then True
      else (let target = drop 1 (dropWhile (\<lambda>c. c \<noteq> CHR '':'') v)
            in CHR '':'' \<in> set v \<and> target \<noteq> '''' \<and> resolvedBelow fs target (writableRoots scope) bs))"

record argument_context =
  ac_policy :: option_policy
  ac_scope :: dc_scope
  ac_bases :: "string list"

definition valueIsAccepted :: "file_system \<Rightarrow> value_rule \<Rightarrow> string \<Rightarrow> argument_context \<Rightarrow> bool" where
  "valueIsAccepted fs rule v ctx =
     (case rule of
        Matching r \<Rightarrow> rx_test r v
      | WorktreePath \<Rightarrow> resolvedInside fs v [worktreeRoot (ac_scope ctx)] (ac_bases ctx)
      | WritablePath \<Rightarrow> resolvedBelow fs v (writableRoots (ac_scope ctx)) (ac_bases ctx)
      | CoverageReport \<Rightarrow> coverageReportTargetIsWritable fs v (ac_scope ctx) (ac_bases ctx))"

text \<open>The width of an option, given the arguments after it.\<close>

definition widthOfLongOption :: "file_system \<Rightarrow> string \<Rightarrow> string list \<Rightarrow> argument_context \<Rightarrow> nat option" where
  "widthOfLongOption fs arg after ctx =
     (let (name, inlineValue) = splitOption arg
      in if inlineValue = None \<and> name \<in> set (flags (ac_policy ctx)) then Some 1
         else (case (map_of (valued (ac_policy ctx)) name,
                     case inlineValue of Some v \<Rightarrow> Some v | None \<Rightarrow> (case after of [] \<Rightarrow> None | v # _ \<Rightarrow> Some v)) of
                 (Some rule, Some v) \<Rightarrow>
                   if valueIsAccepted fs rule v ctx then Some (if inlineValue = None then 2 else 1) else None
               | _ \<Rightarrow> None))"

definition widthOfShortOption :: "file_system \<Rightarrow> string \<Rightarrow> string list \<Rightarrow> argument_context \<Rightarrow> nat option" where
  "widthOfShortOption fs arg after ctx =
     (let attachedValue = drop 2 arg
      in case map_of (valued (ac_policy ctx)) (take 2 arg) of
           Some rule \<Rightarrow>
             (case (if attachedValue = '''' then (case after of [] \<Rightarrow> None | v # _ \<Rightarrow> Some v) else Some attachedValue) of
                None \<Rightarrow> None
              | Some v \<Rightarrow> if valueIsAccepted fs rule v ctx then Some (if attachedValue = '''' then 2 else 1) else None)
         | None \<Rightarrow>
             (let letters = drop 1 arg
              in if letters \<noteq> [] \<and> list_all (\<lambda>c. c \<in> set (clusterLetters (ac_policy ctx))) letters then Some 1 else None))"

text \<open>The text before the first \<open>::\<close>.\<close>

fun before_colons :: "string \<Rightarrow> string" where
  "before_colons [] = []"
| "before_colons (c # s) = (if starts_with (c # s) ''::'' then [] else c # before_colons s)"

definition operandIsAccepted :: "file_system \<Rightarrow> argument_context \<Rightarrow> bool \<Rightarrow> string \<Rightarrow> bool" where
  "operandIsAccepted fs ctx isFirstOperand arg \<longleftrightarrow>
     allowsOperands (ac_policy ctx) \<and>
     \<not> (isFirstOperand \<and> onlyFirstOperand (ac_policy ctx) \<noteq> None \<and> Some arg \<noteq> onlyFirstOperand (ac_policy ctx)) \<and>
     resolvedInside fs (before_colons arg) [worktreeRoot (ac_scope ctx)] (ac_bases ctx)"

fun argument_loop :: "file_system \<Rightarrow> argument_context \<Rightarrow> nat \<Rightarrow> string list \<Rightarrow> bool" where
  "argument_loop fs ctx operandCount [] = True"
| "argument_loop fs ctx operandCount (arg # as) =
     (if \<not> starts_with arg ''-'' then
        operandIsAccepted fs ctx (operandCount = 0) arg \<and> argument_loop fs ctx (operandCount + 1) as
      else (case (if starts_with arg ''--'' then widthOfLongOption fs arg as ctx else widthOfShortOption fs arg as ctx) of
              None \<Rightarrow> False
            | Some width \<Rightarrow> argument_loop fs ctx operandCount (drop (width - 1) as)))"

definition argumentsStaySafe :: "file_system \<Rightarrow> string list \<Rightarrow> argument_context \<Rightarrow> bool" where
  "argumentsStaySafe fs as ctx =
     (if list_ex (\<lambda>arg. starts_with arg ''@'') as \<or> list_ex (has_any UNSAFE_TEXT) as then False
      else argument_loop fs ctx 0 as)"

section \<open>Declared commands\<close>

definition dc_redirectIsHarmless :: "file_system \<Rightarrow> command_redirect \<Rightarrow> dc_scope \<Rightarrow> bool" where
  "dc_redirectIsHarmless fs r scope =
     (if (cr_operator r = GtAmp \<or> cr_operator r = LtAmp) \<and> (cr_target r = ''-'' \<or> isDigits (cr_target r)) then True
      else if cr_operator r = Lt then resolvedInside fs (cr_target r) [worktreeRoot scope] [dc_cwd scope]
      else if cr_operator r \<notin> set WRITE_REDIRECTS then False
      else cr_target r = NULL_DEVICE \<or> resolvedBelow fs (cr_target r) (writableRoots scope) [dc_cwd scope])"

text \<open>Without a separator \<open>indexOf\<close> is -1: the name is then the text without its last character, the value the
  whole text.\<close>

definition isAllowedAssignment :: "string \<Rightarrow> bool" where
  "isAllowedAssignment a \<longleftrightarrow>
     (if CHR ''='' \<in> set a then takeWhile (\<lambda>c. c \<noteq> CHR ''='') a else butlast a) \<in> set ALLOWED_ENVIRONMENT_NAMES \<and>
     rx_test PLAIN_ENVIRONMENT_VALUE (if CHR ''='' \<in> set a then drop 1 (dropWhile (\<lambda>c. c \<noteq> CHR ''='') a) else a)"

definition hasPlainLaunch :: "simple_command \<Rightarrow> bool" where
  "hasPlainLaunch c \<longleftrightarrow>
     list_all (\<lambda>w. w = ''env'') (wrappers c) \<and> wrapperOptions c = [] \<and> list_all isAllowedAssignment (assignments c)"

definition isChangeToWorktree :: "file_system \<Rightarrow> simple_command \<Rightarrow> dc_scope \<Rightarrow> bool" where
  "isChangeToWorktree fs c scope =
     (case args c of
        [target] \<Rightarrow>
          if starts_with target ''-'' \<or> has_any UNSAFE_PATH_TEXT target \<or> hasParentSegment target then False
          else (let reached = resolvedPath fs (asScopedPath target (dc_cwd scope))
                in reached = worktreeRoot scope \<or> reached = resolvedPath fs (dc_cwd scope))
      | _ \<Rightarrow> False)"

definition PROGRAMS_WITH_A_SUBCOMMAND :: "string list" where
  "PROGRAMS_WITH_A_SUBCOMMAND = [''pnpm'', ''npm'', ''yarn'', ''cargo'', ''go'', ''make'']"

definition SCRIPT_RUNNERS :: "string list" where "SCRIPT_RUNNERS = [''pnpm'', ''npm'', ''yarn'']"

definition wordsNamingTheCommand :: "string list \<Rightarrow> nat" where
  "wordsNamingTheCommand declaredWords =
     (let prog = first_or_empty declaredWords
      in if prog \<in> set SCRIPT_RUNNERS \<and> take 1 (drop 1 declaredWords) = [''run''] then 3
         else if prog \<in> set PROGRAMS_WITH_A_SUBCOMMAND then 2 else 1)"

definition declared_words :: "string \<Rightarrow> string list" where
  "declared_words declared = filter (\<lambda>w. w \<noteq> '''') (split_on (CHR '' '') declared)"

definition matchesDeclaredForm :: "file_system \<Rightarrow> invocation \<Rightarrow> string \<Rightarrow> dc_scope \<Rightarrow> bool" where
  "matchesDeclaredForm fs iv declared scope =
     (let dw = declared_words declared;
          startsWithDeclaredWords = (0 < length dw \<and> take (length dw) (words iv) = dw);
          policy = opt_default OPTION_POLICY_WITHOUT_OPTIONS (map_of OPTION_POLICIES (first_or_empty dw))
      in startsWithDeclaredWords \<and>
         argumentsStaySafe fs (drop (wordsNamingTheCommand dw) (words iv)) \<lparr>ac_policy = policy, ac_scope = scope, ac_bases = bases iv\<rparr>)"

definition scopeOf :: "file_system \<Rightarrow> policy_request \<Rightarrow> dc_scope option" where
  "scopeOf fs req =
     (case pr_worktreeRoot req of
        None \<Rightarrow> None
      | Some root \<Rightarrow>
          (let wt = resolvedPath fs root; cwd = resolvedPath fs (pr_cwd req)
           in if \<not> isInside cwd wt then None
              else Some \<lparr>worktreeRoot = wt, dc_cwd = cwd,
                     writableRoots = map (resolvedPath fs) ((root @ ''/.scratch'') # pr_scratchRoots req)\<rparr>))"

definition runsDeclaredCommand :: "file_system \<Rightarrow> simple_command \<Rightarrow> string list \<Rightarrow> policy_request \<Rightarrow> bool" where
  "runsDeclaredCommand fs c declared req =
     (let isPlainTopLevelCommand = (origin c = Top \<and> \<not> fedByPipe c \<and> \<not> textHasBareAssignment c \<and> hasPlainLaunch c);
          hasCarriageReturn = (case pr_command req of None \<Rightarrow> False | Some t \<Rightarrow> CR \<in> set t)
      in case scopeOf fs req of
           None \<Rightarrow> False
         | Some scope \<Rightarrow>
             if declared = [] \<or> \<not> isPlainTopLevelCommand \<or> hasCarriageReturn then False
             else if \<not> list_all (\<lambda>r. dc_redirectIsHarmless fs r scope) (redirects c) then False
             else if program c = ''cd'' then wrappers c = [] \<and> isChangeToWorktree fs c scope
             else (case withoutLaunchers fs \<lparr>words = invokedAs c # args c, bases = [dc_cwd scope, worktreeRoot scope]\<rparr> scope of
                     None \<Rightarrow> False
                   | Some launched \<Rightarrow>
                       rx_test BARE_PROGRAM (first_or_empty (words launched)) \<and>
                       list_ex (\<lambda>form. matchesDeclaredForm fs launched form scope) declared))"

section \<open>Declaring\<close>

definition MAX_DECLARED_COMMAND_CHARS :: nat where "MAX_DECLARED_COMMAND_CHARS = 120"

definition DECLARED_COMMAND_PATTERN :: rx where
  "DECLARED_COMMAND_PATTERN = whole [Ch alphanumeric, Rep (alphanumeric_or ''_.:/= -'')]"

definition CHECK_SCRIPT :: "string list" where
  "CHECK_SCRIPT = [''test'', ''lint'', ''typecheck'', ''type-check'', ''type:check'']"

definition word_end :: rx where "word_end = Alt (lit '' '') AtEnd"

definition KNOWN_LAUNCHER_FORMS :: "rx list" where
  "KNOWN_LAUNCHER_FORMS =
     [seq [AtStart, lits [''pytest'', ''mypy'', ''vitest'', ''jest'', ''tsc'', ''eslint''], word_end],
      seq [AtStart, lit ''ruff check'', word_end],
      whole [lit ''make'', Rep (seq [lit '' '', alphanumeric_or ''_'', Rep (alphanumeric_or ''_.:-'')])],
      seq [AtStart, lits [''pnpm'', ''npm'', ''yarn''], lit '' '', Alt (lits CHECK_SCRIPT) (seq [lit ''run '', lits CHECK_SCRIPT]), word_end],
      seq [AtStart, lit ''cargo '', lits [''test'', ''clippy'', ''check''], word_end],
      seq [AtStart, lit ''go '', lits [''test'', ''vet''], word_end]]"

definition startsWithKnownLauncher :: "string \<Rightarrow> bool" where
  "startsWithKnownLauncher t = list_ex (\<lambda>form. rx_test form t) KNOWN_LAUNCHER_FORMS"

definition DeclaredCommandSchema :: "string \<Rightarrow> bool" where
  "DeclaredCommandSchema t \<longleftrightarrow>
     utf16_length t \<le> MAX_DECLARED_COMMAND_CHARS \<and> rx_test DECLARED_COMMAND_PATTERN t \<and> startsWithKnownLauncher t"

datatype detected_command_kind = Install | Build | Test | Lint | Typecheck | Dev

definition DECLARED_KINDS :: "detected_command_kind list" where "DECLARED_KINDS = [Test, Lint, Typecheck]"

definition declaredCommandsFrom :: "(detected_command_kind \<Rightarrow> string option) \<Rightarrow> string list" where
  "declaredCommandsFrom detected =
     filter DeclaredCommandSchema (concat (map (\<lambda>kind. case detected kind of None \<Rightarrow> [] | Some t \<Rightarrow> [t]) DECLARED_KINDS))"

section \<open>Paths inside a root\<close>

definition path_of :: "string list \<Rightarrow> string" where
  "path_of xs = ''/'' @ join_with ''/'' xs"

lemma split_path_of: "xs \<noteq> [] \<Longrightarrow> list_all clean_segment xs \<Longrightarrow> split_on (CHR ''/'') (path_of xs) = [] # xs"
  using split_join [of xs "CHR ''/''"] by (simp add: path_of_def clean_segment_def list_all_iff)

lemma path_of_inj:
  assumes "list_all clean_segment xs" "list_all clean_segment ys" "path_of xs = path_of ys"
  shows "xs = ys"
  using assms normalizedSegments_join [of xs] normalizedSegments_join [of ys] by (simp add: path_of_def)

lemma path_of_append: "xs \<noteq> [] \<Longrightarrow> ys \<noteq> [] \<Longrightarrow> path_of (xs @ ys) = path_of xs @ ''/'' @ join_with ''/'' ys"
  by (simp add: path_of_def join_with_append)

lemma ends_with_path_of:
  assumes "list_all clean_segment xs"
  shows "ends_with (path_of xs) (CHR ''/'') \<longleftrightarrow> xs = []"
proof (cases xs rule: rev_cases)
  case (snoc ys y)
  have y: "y \<noteq> []" "CHR ''/'' \<notin> set y" using assms snoc by (simp_all add: clean_segment_def)
  then have "last (path_of (ys @ [y])) = last y"
    by (cases "ys = []") (simp_all add: path_of_def join_with_append)
  moreover have "last y \<noteq> CHR ''/''" using y last_in_set by fastforce
  ultimately show ?thesis using snoc by (simp add: ends_with_def)
qed (simp add: path_of_def ends_with_def)

lemma split_on_prefix:
  "split_on c (s @ c # t) = split_on c s @ split_on c t"
proof (induction s)
  case (Cons x s)
  then show ?case by (cases "split_on c s") auto
qed simp

lemma isInside_path_of:
  assumes ps: "list_all clean_segment ps" and rs: "list_all clean_segment rs"
  shows "isInside (path_of ps) (path_of rs) \<longleftrightarrow> prefix rs ps"
proof (cases "rs = []")
  case True
  then show ?thesis by (simp add: isInside_def isBelow_def path_of_def ends_with_def)
next
  case False
  then have below: "isBelow (path_of ps) (path_of rs) \<longleftrightarrow> (\<exists>t. path_of ps = path_of rs @ CHR ''/'' # t)"
    using ends_with_path_of [OF rs] by (auto simp: isBelow_def starts_with_prefix prefix_def)
  show ?thesis
  proof
    assume "isInside (path_of ps) (path_of rs)"
    then consider "path_of ps = path_of rs" | t where "path_of ps = path_of rs @ CHR ''/'' # t"
      using below by (auto simp: isInside_def)
    then show "prefix rs ps"
    proof cases
      case 1
      then show ?thesis using path_of_inj [OF ps rs] by simp
    next
      case (2 t)
      then have "split_on (CHR ''/'') (path_of ps) = ([] # rs) @ split_on (CHR ''/'') t"
        using split_on_prefix split_path_of [OF False rs] by simp
      moreover have "ps \<noteq> []" using 2 False by (auto simp: path_of_def)
      ultimately show ?thesis using split_path_of [OF _ ps] by simp
    qed
  next
    assume "prefix rs ps"
    then obtain zs where "ps = rs @ zs" by (auto simp: prefix_def)
    then show "isInside (path_of ps) (path_of rs)"
      using False below by (cases "zs = []") (auto simp: isInside_def path_of_append)
  qed
qed

lemma resolve_existing_deepest:
  "(\<exists>k \<le> length xs. \<exists>real. realpath fs (path_of (take k xs)) = Some real \<and>
      (\<forall>j. k < j \<and> j \<le> length xs \<longrightarrow> realpath fs (path_of (take j xs)) = None) \<and>
      resolve_existing fs absolute (rev xs) tail = node_join (real # drop k xs @ tail))
   \<or> (\<forall>j \<le> length xs. realpath fs (path_of (take j xs)) = None) \<and> resolve_existing fs absolute (rev xs) tail = absolute"
proof (induction xs arbitrary: tail rule: rev_induct)
  case Nil
  show ?case by (cases "realpath fs ''/''") (auto simp: path_of_def)
next
  case (snoc x xs)
  show ?case
  proof (cases "realpath fs (path_of (xs @ [x]))")
    case None
    then have step: "resolve_existing fs absolute (rev (xs @ [x])) tail = resolve_existing fs absolute (rev xs) (x # tail)"
      by (simp add: path_of_def)
    have cut: "take j (xs @ [x]) = (if j \<le> length xs then take j xs else xs @ [x])" for j by simp
    from snoc.IH [of "x # tail"] show ?thesis
    proof (elim disjE exE conjE)
      fix k real
      assume k: "k \<le> length xs" "realpath fs (path_of (take k xs)) = Some real"
        "\<forall>j. k < j \<and> j \<le> length xs \<longrightarrow> realpath fs (path_of (take j xs)) = None"
        "resolve_existing fs absolute (rev xs) (x # tail) = node_join (real # drop k xs @ x # tail)"
      then show ?thesis
        using step None by (intro disjI1 exI [of _ k] conjI exI [of _ real]) (auto simp: cut simp del: take_append)
    next
      assume "\<forall>j \<le> length xs. realpath fs (path_of (take j xs)) = None" "resolve_existing fs absolute (rev xs) (x # tail) = absolute"
      then show ?thesis using step None by (intro disjI2) (auto simp: cut simp del: take_append)
    qed
  next
    case (Some real)
    then have "resolve_existing fs absolute (rev (xs @ [x])) tail = node_join (real # tail)" by (simp add: path_of_def)
    then show ?thesis using Some by (intro disjI1 exI [of _ "length (xs @ [x])"] conjI exI [of _ real]) auto
  qed
qed

section \<open>Accepted arguments\<close>

text \<open>What an accepted argument list is made of.\<close>

inductive confined :: "file_system \<Rightarrow> argument_context \<Rightarrow> string list \<Rightarrow> bool" for fs ctx where
  confined_nil: "confined fs ctx []"
| confined_operand:
    "\<lbrakk>\<not> starts_with arg ''-''; allowsOperands (ac_policy ctx);
      resolvedInside fs (before_colons arg) [worktreeRoot (ac_scope ctx)] (ac_bases ctx); confined fs ctx as\<rbrakk>
     \<Longrightarrow> confined fs ctx (arg # as)"
| confined_flag: "\<lbrakk>arg \<in> set (flags (ac_policy ctx)); confined fs ctx as\<rbrakk> \<Longrightarrow> confined fs ctx (arg # as)"
| confined_cluster:
    "\<lbrakk>set (tl arg) \<subseteq> set (clusterLetters (ac_policy ctx)); starts_with arg ''-''; confined fs ctx as\<rbrakk> \<Longrightarrow> confined fs ctx (arg # as)"
| confined_attached:
    "\<lbrakk>(name, rule) \<in> set (valued (ac_policy ctx)); valueIsAccepted fs rule v ctx; arg = name @ v \<or> arg = name @ ''='' @ v; confined fs ctx as\<rbrakk>
     \<Longrightarrow> confined fs ctx (arg # as)"
| confined_separate:
    "\<lbrakk>(name, rule) \<in> set (valued (ac_policy ctx)); valueIsAccepted fs rule v ctx; confined fs ctx as\<rbrakk>
     \<Longrightarrow> confined fs ctx (name # v # as)"

lemma splitOption_cases:
  obtains "splitOption arg = (arg, None)"
  | name v where "splitOption arg = (name, Some v)" "arg = name @ ''='' @ v"
proof (cases "starts_with arg ''--'' \<and> CHR ''='' \<in> set arg")
  case True
  let ?name = "takeWhile (\<lambda>c. c \<noteq> CHR ''='') arg" and ?rest = "dropWhile (\<lambda>c. c \<noteq> CHR ''='') arg"
  obtain c r where rest: "?rest = c # r" using True by (cases ?rest) (auto simp: dropWhile_eq_Nil_conv)
  then have "c = CHR ''=''" using hd_dropWhile [of "\<lambda>c. c \<noteq> CHR ''=''" arg] by simp
  then have cut: "arg = ?name @ ''='' @ drop 1 ?rest"
    using takeWhile_dropWhile_id [of "\<lambda>c. c \<noteq> CHR ''=''" arg] rest by simp
  have "splitOption arg = (?name, Some (drop 1 ?rest))" using True by (simp add: splitOption_def)
  from that(2) [OF this cut] show ?thesis .
qed (use that(1) in \<open>simp add: splitOption_def\<close>)

lemma long_option_confined:
  assumes "widthOfLongOption fs arg as ctx = Some width" "confined fs ctx (drop (width - 1) as)"
  shows "confined fs ctx (arg # as)"
proof (cases rule: splitOption_cases [of arg])
  case 1
  show ?thesis
  proof (cases "arg \<in> set (flags (ac_policy ctx))")
    case True
    then show ?thesis using assms 1 by (auto simp: widthOfLongOption_def intro: confined_flag)
  next
    case False
    then obtain rule v as' where "map_of (valued (ac_policy ctx)) arg = Some rule" "as = v # as'" "valueIsAccepted fs rule v ctx" "width = 2"
      using assms(1) 1 by (auto simp: widthOfLongOption_def split: option.splits list.splits if_splits)
    then show ?thesis using assms(2) by (auto intro: confined_separate dest: map_of_SomeD)
  qed
next
  case (2 name v)
  then obtain rule where "map_of (valued (ac_policy ctx)) name = Some rule" "valueIsAccepted fs rule v ctx" "width = 1"
    using assms(1) by (auto simp: widthOfLongOption_def split: option.splits if_splits)
  then show ?thesis using assms(2) 2 by (auto intro: confined_attached dest: map_of_SomeD)
qed

lemma short_option_confined:
  assumes "widthOfShortOption fs arg as ctx = Some width" "starts_with arg ''-''" "confined fs ctx (drop (width - 1) as)"
  shows "confined fs ctx (arg # as)"
proof (cases "map_of (valued (ac_policy ctx)) (take 2 arg)")
  case None
  then have "set (tl arg) \<subseteq> set (clusterLetters (ac_policy ctx))" "width = 1"
    using assms(1) by (auto simp: widthOfShortOption_def list_all_iff Let_def drop_Suc split: if_splits)
  then show ?thesis using assms by (auto intro: confined_cluster)
next
  case (Some rule)
  then have rule: "(take 2 arg, rule) \<in> set (valued (ac_policy ctx))" by (rule map_of_SomeD)
  show ?thesis
  proof (cases "drop 2 arg = ''''")
    case True
    then obtain v as' where "as = v # as'" "valueIsAccepted fs rule v ctx" "width = 2"
      using assms(1) Some by (auto simp: widthOfShortOption_def split: list.splits if_splits)
    moreover have "take 2 arg = arg" using True by simp
    ultimately show ?thesis using assms(3) rule by (auto intro: confined_separate)
  next
    case False
    then have "valueIsAccepted fs rule (drop 2 arg) ctx" "width = 1"
      using assms(1) Some by (auto simp: widthOfShortOption_def Let_def split: if_splits)
    then show ?thesis using assms(3) confined_attached [OF rule, of fs "drop 2 arg" arg as] by simp
  qed
qed

lemma argument_loop_confined: "argument_loop fs ctx n as \<Longrightarrow> confined fs ctx as"
proof (induction fs ctx n as rule: argument_loop.induct)
  case (1 fs ctx n)
  show ?case by (rule confined_nil)
next
  case (2 fs ctx n arg as)
  show ?case
  proof (cases "starts_with arg ''-''")
    case False
    then show ?thesis using 2 by (auto simp: operandIsAccepted_def intro: confined_operand)
  next
    case True
    then obtain width where w: "(if starts_with arg ''--'' then widthOfLongOption fs arg as ctx else widthOfShortOption fs arg as ctx) = Some width"
      "argument_loop fs ctx n (drop (width - 1) as)"
      using 2(3) by (auto split: option.splits)
    then have "confined fs ctx (drop (width - 1) as)" using 2(2) True by simp
    then show ?thesis using w(1) True long_option_confined short_option_confined by (auto split: if_splits)
  qed
qed

section \<open>Properties\<close>

text \<open>C4: The arguments of a vouched command are confined: none is an argument file or holds a character the
  shell acts on, and each is an operand that resolves inside the worktree from every directory the
  command may run in, a listed flag, a cluster of listed letters, or a listed option whose value passes
  its rule. Nothing else gets in.\<close>

theorem vouched_arguments_are_confined:
  assumes "argumentsStaySafe fs as ctx"
  shows "confined fs ctx as \<and> list_all (\<lambda>arg. \<not> starts_with arg ''@'' \<and> \<not> has_any UNSAFE_TEXT arg) as"
  using assms argument_loop_confined [of fs ctx 0 as]
  by (auto simp: argumentsStaySafe_def list_all_iff list_ex_iff split: if_splits)

definition example_fs :: file_system where
  "example_fs = \<lparr>realpath = (\<lambda>p. if p = ''/'' \<or> p = ''/work'' then Some p else None), process_cwd = ''/''\<rparr>"

definition example_context :: argument_context where
  "example_context =
     \<lparr>ac_policy = opt_default OPTION_POLICY_WITHOUT_OPTIONS (map_of OPTION_POLICIES ''pytest''),
      ac_scope = \<lparr>worktreeRoot = ''/work'', dc_cwd = ''/work'', writableRoots = [''/work/.scratch'']\<rparr>, ac_bases = [''/work'']\<rparr>"

theorem vouched_arguments_are_confined_witness:
  "confined example_fs example_context [''-qx'', ''tests/a.py::case'', ''--junitxml'', ''.scratch/r.xml''] \<and>
   list_all (\<lambda>arg. \<not> starts_with arg ''@'' \<and> \<not> has_any UNSAFE_TEXT arg) [''-qx'', ''tests/a.py::case'', ''--junitxml'', ''.scratch/r.xml'']"
proof (rule vouched_arguments_are_confined)
  show "argumentsStaySafe example_fs [''-qx'', ''tests/a.py::case'', ''--junitxml'', ''.scratch/r.xml''] example_context" by code_simp
qed

text \<open>The textual test of a path against a root is a test of whole segments: a resolved path passes for a
  root exactly when the root's segments start the path's, so a sibling whose name only begins like the
  root is never inside.\<close>

theorem inside_is_segmentwise:
  assumes "list_all clean_segment ps" "list_all clean_segment rs"
  shows "isInside (path_of ps) (path_of rs) \<longleftrightarrow> prefix rs ps"
  using assms by (rule isInside_path_of)

text \<open>A path is resolved through its deepest existing ancestor: either some ancestor has a real path, no
  longer one has, and the result is that real path with the missing names appended, or no ancestor
  exists and the path is only made absolute.\<close>

theorem resolved_through_deepest_ancestor:
  "(\<exists>k \<le> length (node_segments fs p). \<exists>real.
      realpath fs (path_of (take k (node_segments fs p))) = Some real \<and>
      (\<forall>j. k < j \<and> j \<le> length (node_segments fs p) \<longrightarrow> realpath fs (path_of (take j (node_segments fs p))) = None) \<and>
      resolvedPath fs p = node_join (real # drop k (node_segments fs p)))
   \<or> (\<forall>j \<le> length (node_segments fs p). realpath fs (path_of (take j (node_segments fs p))) = None)
     \<and> resolvedPath fs p = node_resolve fs p"
  using resolve_existing_deepest [of "node_segments fs p" fs "node_resolve fs p" "[]"]
  unfolding resolvedPath_def append_Nil2 .

end
