(* ===== verification/Command_Policy.thy ===== *)
theory Command_Policy
  imports Path_Glob File_Writes Declared_Commands
begin

text \<open>
  The command policy: the document types of \<^verbatim>\<open>shared/src/commandPolicy.ts\<close>, the pull request reader
  \<^verbatim>\<open>policy/ghPrCreate.ts\<close>, the predicates \<^verbatim>\<open>policy/commandPredicates.ts\<close> and the evaluator
  \<^verbatim>\<open>policy/policyEvaluator.ts\<close>. Lower and upper case need the tables of Unicode: they are the parameters
  \<open>lower\<close> and \<open>upper\<close>. A JavaScript object used as a dictionary is the list of its entries in order.

  The evaluator skips a rule whose evaluation throws. No check throws on a document of the schema, so
  the predicates are total here and that handler is never entered.
\<close>

section \<open>Documents\<close>

datatype policy_mode = Enforce | Observe | Off
datatype profile_mode = ProfileEnforce | ProfileObserve
datatype rule_decision = DecideDeny | DecideAllow | DecideAsk
datatype rule_actor = ActorSession | ActorSubagent | ActorAny
datatype rule_presence = PresenceAttended | PresenceUnattended | PresenceAny
datatype rule_coverage = SomeCommand | EveryCommand
datatype one_or_many = One string | Many "string list"

record flag_groups =
  fg_all :: "string list list option"
  fg_any :: "string list list option"
  fg_none :: "string list list option"

text \<open>Each key of the object is optional; \<open>rp_otherKeys\<close> holds the keys it has that are none of these.\<close>

datatype rule_predicate = RulePredicate
  (rp_otherKeys: "string list")
  (rp_program: "one_or_many option")
  (rp_subcommand: "one_or_many option")
  (rp_flags: "flag_groups option")
  (rp_commandPrefix: "string list list option")
  (rp_repoWideSearch: "bool option")
  (rp_writesPathMatching: "string list option")
  (rp_argMatching: "string list option")
  (rp_readsOnlyWithin: "string list option")
  (rp_recipientIsFleetSession: "bool option")
  (rp_writesFilesOutside: "string list option")
  (rp_runsDeclaredCommand: "string list option")
  (rp_anyOf: "rule_predicate list option")
  (rp_allOf: "rule_predicate list option")
  (rp_not: "rule_predicate option")

record policy_rule =
  ru_id :: string
  ru_tools :: "string list option"
  ru_harnesses :: "string list option"
  ru_actor :: "rule_actor option"
  ru_presence :: "rule_presence option"
  ru_models :: "string list option"
  ru_appliesTo :: "rule_coverage option"
  ru_decision :: rule_decision
  ru_when :: rule_predicate
  ru_reason :: string
  ru_alternative :: "string option"
  ru_commandMarker :: "string option" \<comment> \<open>\<open>escape.commandMarker\<close>\<close>

record policy_profile =
  pf_extends :: "string option"
  pf_rules :: "string list"
  pf_mode :: "profile_mode option"

record command_policy_document =
  cp_mode :: policy_mode
  cp_profiles :: "(string \<times> policy_profile) list"
  cp_roleToProfile :: "(string \<times> string) list"
  cp_rules :: "policy_rule list"

record observed_refusal =
  ob_ruleId :: string
  ob_reason :: string
  ob_alternative :: "string option"

datatype policy_verdict =
    Allow "string option" "observed_refusal option" bool \<comment> \<open>\<open>allowedBy\<close>, \<open>observed\<close>, \<open>degraded\<close>\<close>
  | Deny string string string \<comment> \<open>\<open>ruleId\<close>, \<open>reason\<close>, \<open>alternative\<close>\<close>
  | Ask string string

section \<open>Pull requests\<close>

definition REPO_OPTIONS_WITH_VALUE :: "string list" where "REPO_OPTIONS_WITH_VALUE = [''-R'', ''--repo'']"
definition HEAD_OPTIONS_WITH_VALUE :: "string list" where "HEAD_OPTIONS_WITH_VALUE = [''--head'', ''-H'']"

fun argsWithoutLeadingRepoOptions :: "string list \<Rightarrow> string list" where
  "argsWithoutLeadingRepoOptions [] = []"
| "argsWithoutLeadingRepoOptions (arg # as) =
     (if arg \<in> set REPO_OPTIONS_WITH_VALUE then argsWithoutLeadingRepoOptions (drop 1 as)
      else if starts_with arg ''--repo='' \<or> (starts_with arg ''-R'' \<and> 2 < length arg) then argsWithoutLeadingRepoOptions as
      else arg # as)"

definition GROUPS_THAT_TAKE_REPO_OPTIONS_BEFORE_THE_ACTION :: "(string \<times> string) list" where
  "GROUPS_THAT_TAKE_REPO_OPTIONS_BEFORE_THE_ACTION = [(''gh'', ''pr''), (''glab'', ''mr'')]"

definition argsWithoutRepoOptionsAroundGroup :: "string \<Rightarrow> string list \<Rightarrow> string list" where
  "argsWithoutRepoOptionsAroundGroup prog as =
     (case argsWithoutLeadingRepoOptions as of
        [] \<Rightarrow> []
      | grp # afterGroup \<Rightarrow>
          if map_of GROUPS_THAT_TAKE_REPO_OPTIONS_BEFORE_THE_ACTION prog = Some grp
          then grp # argsWithoutLeadingRepoOptions afterGroup else grp # afterGroup)"

fun headValueOf :: "string list \<Rightarrow> string option" where
  "headValueOf [] = None"
| "headValueOf (arg # as) =
     (if arg \<in> set HEAD_OPTIONS_WITH_VALUE then (case as of [] \<Rightarrow> None | v # _ \<Rightarrow> Some v)
      else if starts_with arg ''--head='' then Some (drop (length ''--head='') arg)
      else if starts_with arg ''-H'' \<and> 2 < length arg \<and> \<not> starts_with arg ''--'' then Some (drop 2 arg)
      else headValueOf as)"

definition branchOf :: "string \<Rightarrow> string" where "branchOf v = after_last (CHR '':'') v"

text \<open>A creation is its head branch, when it names one.\<close>

type_synonym pull_request_creation = "string option"

definition creationWithHead :: "string option \<Rightarrow> pull_request_creation" where
  "creationWithHead v =
     (let headBranch = (case v of None \<Rightarrow> '''' | Some h \<Rightarrow> branchOf h) in if headBranch = '''' then None else Some headBranch)"

fun glabSourceBranchOf :: "string list \<Rightarrow> string option" where
  "glabSourceBranchOf [] = None"
| "glabSourceBranchOf (arg # as) =
     (if arg = ''--source-branch'' \<or> arg = ''-s'' then (case as of [] \<Rightarrow> None | v # _ \<Rightarrow> Some v)
      else if starts_with arg ''--source-branch='' then Some (drop (length ''--source-branch='') arg)
      else glabSourceBranchOf as)"

record api_request =
  endpoint :: "string option"
  api_method :: "string option"
  api_fields :: "string list"
  hasInput :: bool

definition API_FIELD_OPTIONS :: "string list" where "API_FIELD_OPTIONS = [''-f'', ''-F'', ''--field'', ''--raw-field'']"

definition API_OPTIONS_WITH_OTHER_VALUE :: "string list" where
  "API_OPTIONS_WITH_OTHER_VALUE = [''-H'', ''--header'', ''-q'', ''--jq'', ''-t'', ''--template'', ''--hostname'', ''--cache'']"

text \<open>\<open>.\<close> matches any character but the four line terminators.\<close>

definition starts_a_line_char :: "string \<Rightarrow> bool" where
  "starts_a_line_char s \<longleftrightarrow> s \<noteq> [] \<and> hd s \<noteq> NL \<and> hd s \<noteq> CR \<and>
     \<not> starts_with s [CHR 0xE2, CHR 0x80, CHR 0xA8] \<and> \<not> starts_with s [CHR 0xE2, CHR 0x80, CHR 0xA9]"

function api_loop :: "string list \<Rightarrow> api_request \<Rightarrow> api_request" where
  "api_loop [] req = req"
| "api_loop (arg # as) req =
     (if arg = ''-X'' \<or> arg = ''--method'' then
        api_loop (drop 1 as) (req\<lparr>api_method := (case as of [] \<Rightarrow> None | v # _ \<Rightarrow> Some v)\<rparr>)
      else if starts_with arg ''--method='' then api_loop as (req\<lparr>api_method := Some (drop (length ''--method='') arg)\<rparr>)
      else if starts_with arg ''-X'' \<and> \<not> starts_with arg ''--'' then api_loop as (req\<lparr>api_method := Some (drop 2 arg)\<rparr>)
      else if arg \<in> set API_FIELD_OPTIONS then api_loop (drop 1 as) (req\<lparr>api_fields := api_fields req @ take 1 as\<rparr>)
      else if starts_with arg ''--field='' then api_loop as (req\<lparr>api_fields := api_fields req @ [drop (length ''--field='') arg]\<rparr>)
      else if starts_with arg ''--raw-field='' then api_loop as (req\<lparr>api_fields := api_fields req @ [drop (length ''--raw-field='') arg]\<rparr>)
      else if (starts_with arg ''-f'' \<or> starts_with arg ''-F'') \<and> starts_a_line_char (drop 2 arg) then
        api_loop as (req\<lparr>api_fields := api_fields req @ [drop 2 arg]\<rparr>)
      else if arg = ''--input'' then api_loop (drop 1 as) (req\<lparr>hasInput := True\<rparr>)
      else if arg \<in> set API_OPTIONS_WITH_OTHER_VALUE then api_loop (drop 1 as) req
      else api_loop as (if \<not> starts_with arg ''-'' \<and> endpoint req = None then req\<lparr>endpoint := Some arg\<rparr> else req))"
  by pat_completeness auto
termination by (relation "measure (length \<circ> fst)") auto

definition apiRequestOf :: "string list \<Rightarrow> api_request" where
  "apiRequestOf as = api_loop as \<lparr>endpoint = None, api_method = None, api_fields = [], hasInput = False\<rparr>"

definition PULLS_ENDPOINT :: rx where
  "PULLS_ENDPOINT = seq [Alt AtStart (lit ''/''), lit ''pulls'', opt (lit ''/''), AtEnd]"

definition apiCreationOf :: "(string \<Rightarrow> string) \<Rightarrow> string list \<Rightarrow> pull_request_creation option" where
  "apiCreationOf upper as =
     (let req = apiRequestOf as;
          endpointPath = map_option (takeWhile (\<lambda>c. c \<noteq> CHR ''?'' \<and> c \<noteq> CHR ''#'')) (endpoint req);
          targetsPulls = (case endpointPath of None \<Rightarrow> False | Some p \<Rightarrow> rx_test PULLS_ENDPOINT p);
          carriesBody = (api_fields req \<noteq> [] \<or> hasInput req);
          effectiveMethod = upper (opt_default (if carriesBody then ''POST'' else ''GET'') (api_method req))
      in if \<not> targetsPulls \<or> effectiveMethod \<noteq> ''POST'' then None
         else Some (creationWithHead (map_option (drop 5) (find (\<lambda>f. starts_with f ''head='') (api_fields req)))))"

definition creationOf :: "(string \<Rightarrow> string) \<Rightarrow> simple_command \<Rightarrow> pull_request_creation option" where
  "creationOf upper c =
     (let as = argsWithoutRepoOptionsAroundGroup (program c) (args c)
      in if program c = ''glab'' then
           (if take 1 as = [''mr''] \<and> (take 1 (drop 1 as) = [''create''] \<or> take 1 (drop 1 as) = [''new''])
            then Some (creationWithHead (glabSourceBranchOf (drop 2 as))) else None)
         else if program c \<noteq> ''gh'' then None
         else if take 1 as = [''api''] then apiCreationOf upper (drop 1 as)
         else if take 2 as = [''pr'', ''create''] then Some (creationWithHead (headValueOf (drop 2 as))) else None)"

definition pullRequestCreationsOf :: "(string \<Rightarrow> string) \<Rightarrow> string \<Rightarrow> pull_request_creation list" where
  "pullRequestCreationsOf upper commandText =
     concat (map (\<lambda>c. case creationOf upper c of None \<Rightarrow> [] | Some p \<Rightarrow> [p]) (ca_commands (analyzeCommand commandText)))"

section \<open>Predicates\<close>

record predicate_context =
  pc_command :: "simple_command option"
  pc_writtenPaths :: "string list"
  pc_request :: policy_request

definition rx_times :: "nat \<Rightarrow> rx \<Rightarrow> rx" where "rx_times n r = seq (replicate n r)"

primrec rx_upto :: "nat \<Rightarrow> rx \<Rightarrow> rx" where
  "rx_upto 0 r = Eps"
| "rx_upto (Suc n) r = opt (Cat r (rx_upto n r))"

definition hex_digit :: rx where "hex_digit = one_of ''0123456789abcdefABCDEF''"

definition SESSION_ID_OR_PREFIX :: rx where
  "SESSION_ID_OR_PREFIX = whole [rx_times 8 hex_digit, rx_upto 4 (seq [lit ''-'', hex_digit, rx_upto 11 hex_digit])]"

definition GIT_OPTIONS_WITH_VALUE :: "string list" where
  "GIT_OPTIONS_WITH_VALUE = [''-C'', ''-c'', ''--git-dir'', ''--work-tree'', ''--namespace'', ''--exec-path'']"

definition FILE_COPYING_PROGRAMS :: "string list" where "FILE_COPYING_PROGRAMS = [''cp'', ''mv'']"
definition SEARCH_PROGRAMS :: "string list" where "SEARCH_PROGRAMS = [''rg'', ''grep'']"
definition WORKTREE_TEMPLATE :: string where "WORKTREE_TEMPLATE = ''{worktree}''"
definition SCRATCH_TEMPLATE :: string where "SCRATCH_TEMPLATE = ''{scratch}''"
definition TOOL_RESULTS_TEMPLATE :: string where "TOOL_RESULTS_TEMPLATE = ''{toolResults}''"

primrec asList :: "one_or_many \<Rightarrow> string list" where
  "asList (One v) = [v]"
| "asList (Many vs) = vs"

definition nonOptionArgs :: "string list \<Rightarrow> string list" where
  "nonOptionArgs as = filter (\<lambda>arg. \<not> is_option arg) as"

fun subcommand_loop :: "bool \<Rightarrow> string list \<Rightarrow> string option" where
  "subcommand_loop skipsValuedOptions [] = None"
| "subcommand_loop skipsValuedOptions (arg # as) =
     (if \<not> is_option arg then Some arg
      else subcommand_loop skipsValuedOptions (if skipsValuedOptions \<and> arg \<in> set GIT_OPTIONS_WITH_VALUE then drop 1 as else as))"

definition subcommandOf :: "simple_command \<Rightarrow> string option" where
  "subcommandOf c = subcommand_loop (program c = ''git'') (args c)"

text \<open>The clusters of short flags, without their dash, and the names of the long ones.\<close>

definition flagsOf :: "string list \<Rightarrow> string list \<times> string list" where
  "flagsOf as =
     (let before = takeWhile (\<lambda>arg. arg \<noteq> ''--'') as
      in (map (drop 1) (filter (\<lambda>arg. \<not> starts_with arg ''--'' \<and> is_option arg) before),
          map (\<lambda>arg. takeWhile (\<lambda>c. c \<noteq> CHR ''='') (drop 2 arg)) (filter (\<lambda>arg. starts_with arg ''--'') before)))"

text \<open>A flag of one character is looked for among the characters of the clusters.\<close>

definition hasFlagGroups :: "simple_command \<Rightarrow> flag_groups \<Rightarrow> bool" where
  "hasFlagGroups c groups =
     (let (short, long) = flagsOf (args c);
          isGroupPresent = (\<lambda>aliases. list_ex (\<lambda>alias.
             if utf16_length alias = 1 then list_ex (\<lambda>cluster. text_includes cluster alias) short else alias \<in> set long) aliases)
      in (case fg_all groups of None \<Rightarrow> True | Some gs \<Rightarrow> list_all isGroupPresent gs) \<and>
         (case fg_any groups of None \<Rightarrow> True | Some gs \<Rightarrow> list_ex isGroupPresent gs) \<and>
         (case fg_none groups of None \<Rightarrow> True | Some gs \<Rightarrow> \<not> list_ex isGroupPresent gs))"

definition startsWithWords :: "simple_command \<Rightarrow> string list \<Rightarrow> bool" where
  "startsWithWords c sequence =
     (let as = (if program c = ''gh'' \<or> program c = ''glab'' then argsWithoutRepoOptionsAroundGroup (program c) (args c) else args c);
          ws = program c # as
      in length sequence \<le> length ws \<and>
         list_all (\<lambda>(alternatives, w). w \<in> set (split_on (CHR ''|'') alternatives)) (zip sequence ws))"

definition isRecursiveFlag :: "string \<Rightarrow> bool" where
  "isRecursiveFlag arg \<longleftrightarrow>
     arg = ''--recursive'' \<or>
     (starts_with arg ''-'' \<and> \<not> starts_with arg ''--'' \<and> (CHR ''r'' \<in> set arg \<or> CHR ''R'' \<in> set arg))"

definition isRepoWideSearch :: "simple_command \<Rightarrow> bool" where
  "isRepoWideSearch c =
     (if fedByPipe c \<or> program c \<notin> set SEARCH_PROGRAMS then False
      else if program c = ''grep'' \<and> \<not> list_ex isRecursiveFlag (args c) then False
      else searchedPaths (parseSearchArguments (program c) (args c)) = [])"

definition writtenPathsOf :: "simple_command \<Rightarrow> string list" where
  "writtenPathsOf c =
     (let redirected = map cr_target (filter (\<lambda>r. cr_operator r \<in> set FILE_WRITING_REDIRECTS \<or>
            (cr_operator r = GtAmp \<and> \<not> rx_test DESCRIPTOR_TARGET (cr_target r))) (redirects c));
          operands = nonOptionArgs (args c);
          lastOperand = (if operands = [] then [] else [last operands]);
          byProgram = (if program c = ''tee'' then operands
            else if program c \<in> set FILE_COPYING_PROGRAMS then lastOperand
            else if program c = ''dd'' then map (drop 3) (filter (\<lambda>arg. starts_with arg ''of='') (args c))
            else [])
      in redirected @ byProgram)"

definition resolveTemplate :: "policy_request \<Rightarrow> string \<Rightarrow> string list" where
  "resolveTemplate req template =
     (if starts_with template WORKTREE_TEMPLATE then
        (case pr_worktreeRoot req of None \<Rightarrow> [] | Some root \<Rightarrow> [root @ drop (length WORKTREE_TEMPLATE) template])
      else if template = SCRATCH_TEMPLATE then pr_scratchRoots req
      else if template = TOOL_RESULTS_TEMPLATE then (case pr_toolResultsRoot req of None \<Rightarrow> [] | Some root \<Rightarrow> [root])
      else [template])"

definition rootsOf :: "string list \<Rightarrow> policy_request \<Rightarrow> string list" where
  "rootsOf templates req = concat (map (resolveTemplate req) templates)"

definition addressesFleetSession :: "policy_request \<Rightarrow> bool" where
  "addressesFleetSession req =
     (case pr_recipient req of
        None \<Rightarrow> False
      | Some recipient \<Rightarrow> rx_test SESSION_ID_OR_PREFIX recipient \<or> pr_recipientNamesManager req = Some True)"

definition on_command :: "predicate_context \<Rightarrow> (simple_command \<Rightarrow> bool) \<Rightarrow> bool" where
  "on_command ctx P = (case pc_command ctx of None \<Rightarrow> False | Some c \<Rightarrow> P c)"

definition when_given :: "'a option \<Rightarrow> ('a \<Rightarrow> bool) \<Rightarrow> bool" where
  "when_given key P = (case key of None \<Rightarrow> True | Some v \<Rightarrow> P v)"

text \<open>The checks of one predicate that do not look into others, in the order of \<open>CHECKS\<close>.\<close>

definition own_checks :: "file_system \<Rightarrow> rule_predicate \<Rightarrow> predicate_context \<Rightarrow> bool" where
  "own_checks fs p ctx \<longleftrightarrow>
     rp_otherKeys p = [] \<and>
     when_given (rp_program p) (\<lambda>v. on_command ctx (\<lambda>c. program c \<in> set (asList v))) \<and>
     when_given (rp_subcommand p) (\<lambda>v. on_command ctx (\<lambda>c. opt_default '''' (subcommandOf c) \<in> set (asList v))) \<and>
     when_given (rp_flags p) (\<lambda>groups. on_command ctx (\<lambda>c. hasFlagGroups c groups)) \<and>
     when_given (rp_commandPrefix p) (\<lambda>prefixes. on_command ctx (\<lambda>c. list_ex (startsWithWords c) prefixes)) \<and>
     when_given (rp_repoWideSearch p) (\<lambda>wanted. on_command ctx isRepoWideSearch = wanted) \<and>
     when_given (rp_writesPathMatching p) (\<lambda>globs.
       list_ex (\<lambda>path. list_ex (\<lambda>glob. globMatches glob path) globs)
         (pc_writtenPaths ctx @ (case pc_command ctx of None \<Rightarrow> [] | Some c \<Rightarrow> writtenPathsOf c))) \<and>
     when_given (rp_argMatching p) (\<lambda>globs. on_command ctx (\<lambda>c. list_ex (\<lambda>arg. list_ex (\<lambda>glob. globMatches glob arg) globs) (args c))) \<and>
     when_given (rp_readsOnlyWithin p) (\<lambda>templates. on_command ctx (\<lambda>c.
       isPlainReadWithin c \<lparr>rs_cwd = pr_cwd (pc_request ctx), rs_roots = rootsOf templates (pc_request ctx)\<rparr>)) \<and>
     when_given (rp_recipientIsFleetSession p) (\<lambda>wanted. addressesFleetSession (pc_request ctx) = wanted) \<and>
     when_given (rp_writesFilesOutside p) (\<lambda>templates. on_command ctx (\<lambda>c.
       writesFileOutside c \<lparr>rs_cwd = pr_cwd (pc_request ctx), rs_roots = rootsOf templates (pc_request ctx)\<rparr>)) \<and>
     when_given (rp_runsDeclaredCommand p) (\<lambda>declared. on_command ctx (\<lambda>c. runsDeclaredCommand fs c declared (pc_request ctx)))"

fun matchesPredicate :: "file_system \<Rightarrow> rule_predicate \<Rightarrow> predicate_context \<Rightarrow> bool" where
  "matchesPredicate fs (RulePredicate ks prog sub fl pre wide wr ag rd rc wo dc anyOf allOf no) ctx \<longleftrightarrow>
     own_checks fs (RulePredicate ks prog sub fl pre wide wr ag rd rc wo dc anyOf allOf no) ctx \<and>
     (case anyOf of None \<Rightarrow> True | Some children \<Rightarrow> list_ex (\<lambda>child. matchesPredicate fs child ctx) children) \<and>
     (case allOf of None \<Rightarrow> True | Some children \<Rightarrow> list_all (\<lambda>child. matchesPredicate fs child ctx) children) \<and>
     (case no of None \<Rightarrow> True | Some child \<Rightarrow> \<not> matchesPredicate fs child ctx)"

section \<open>Evaluation\<close>

definition DEFAULT_PROFILE :: string where "DEFAULT_PROFILE = ''default''"
definition BASH_TOOL :: string where "BASH_TOOL = ''Bash''"
definition ALLOW :: policy_verdict where "ALLOW = Allow None None False"

record profile_plan =
  ruleIds :: "string list"
  isObserving :: bool

definition caseInsensitiveIncludes :: "(string \<Rightarrow> string) \<Rightarrow> string \<Rightarrow> string \<Rightarrow> bool" where
  "caseInsensitiveIncludes lower haystack needle = text_includes (lower haystack) (lower needle)"

definition hasProfile :: "(string \<times> policy_profile) list \<Rightarrow> string \<Rightarrow> bool" where
  "hasProfile profiles name \<longleftrightarrow> name \<in> set (map fst profiles)"

definition profileNameFor :: "(string \<Rightarrow> string) \<Rightarrow> string option \<Rightarrow> command_policy_document \<Rightarrow> string" where
  "profileNameFor lower role policy =
     (case role of
        None \<Rightarrow> DEFAULT_PROFILE
      | Some r \<Rightarrow>
          (case find (\<lambda>(mapped, _). lower mapped = lower r) (cp_roleToProfile policy) of
             None \<Rightarrow> DEFAULT_PROFILE
           | Some (_, profile) \<Rightarrow> profile))"

definition profileNameOf :: "(string \<Rightarrow> string) \<Rightarrow> string option \<Rightarrow> command_policy_document \<Rightarrow> string" where
  "profileNameOf lower role policy =
     (let mappedName = profileNameFor lower role policy
      in if hasProfile (cp_profiles policy) mappedName then mappedName else DEFAULT_PROFILE)"

function ruleIdsOfProfile :: "(string \<times> policy_profile) list \<Rightarrow> string \<Rightarrow> string list \<Rightarrow> string list" where
  "ruleIdsOfProfile profiles name visited =
     (if name \<in> set visited then []
      else (case map_of profiles name of
              None \<Rightarrow> []
            | Some profile \<Rightarrow>
                (let inherited = (case pf_extends profile of
                       None \<Rightarrow> []
                     | Some parent \<Rightarrow> ruleIdsOfProfile profiles parent (name # visited))
                 in inherited @ pf_rules profile)))"
  by pat_completeness auto
termination
proof (relation "measure (\<lambda>(profiles, name, visited). card (fst ` set profiles - set visited))", goal_cases)
  case (2 profiles name visited profile parent)
  then have "name \<in> fst ` set profiles - set visited" by (force dest: map_of_SomeD)
  then have "card (fst ` set profiles - insert name (set visited)) < card (fst ` set profiles - set visited)"
    by (intro psubset_card_mono) auto
  then show ?case by simp
qed simp

declare ruleIdsOfProfile.simps [simp del]

definition without_repeats :: "'a list \<Rightarrow> 'a list" where
  "without_repeats xs = rev (remdups (rev xs))"

definition planFor :: "(string \<Rightarrow> string) \<Rightarrow> policy_request \<Rightarrow> command_policy_document \<Rightarrow> profile_plan" where
  "planFor lower req policy =
     (let name = profileNameOf lower (pr_role req) policy;
          profile = map_of (cp_profiles policy) name
      in \<lparr>ruleIds = without_repeats (ruleIdsOfProfile (cp_profiles policy) name []),
          isObserving = (cp_mode policy = Observe \<or> (case profile of None \<Rightarrow> False | Some p \<Rightarrow> pf_mode p = Some ProfileObserve))\<rparr>)"

definition isInScope :: "(string \<Rightarrow> string) \<Rightarrow> policy_rule \<Rightarrow> policy_request \<Rightarrow> bool" where
  "isInScope lower rule req \<longleftrightarrow>
     when_given (ru_tools rule) (\<lambda>tools. pr_toolName req \<in> set tools) \<and>
     when_given (ru_harnesses rule) (\<lambda>harnesses. pr_harness req \<in> set harnesses) \<and>
     when_given (ru_actor rule) (\<lambda>a. a = ActorAny \<or> (a = ActorSession \<and> pr_actor req = SessionActor) \<or> (a = ActorSubagent \<and> pr_actor req = SubagentActor)) \<and>
     when_given (ru_presence rule) (\<lambda>p. p = PresenceAny \<or> (p = PresenceAttended \<and> pr_presence req = Attended) \<or> (p = PresenceUnattended \<and> pr_presence req = Unattended)) \<and>
     when_given (ru_models rule) (\<lambda>aliases. case pr_model req of None \<Rightarrow> False | Some model \<Rightarrow> list_ex (caseInsensitiveIncludes lower model) aliases)"

definition isEscapedByMarker :: "policy_rule \<Rightarrow> policy_request \<Rightarrow> bool" where
  "isEscapedByMarker rule req =
     (case (ru_commandMarker rule, pr_command req) of
        (Some marker, Some t) \<Rightarrow> pr_presence req = Attended \<and> text_includes t marker
      | _ \<Rightarrow> False)"

definition contextsOf :: "policy_request \<Rightarrow> command_analysis option \<Rightarrow> predicate_context list" where
  "contextsOf req analysis =
     (case analysis of
        Some a \<Rightarrow> map (\<lambda>c. \<lparr>pc_command = Some c, pc_writtenPaths = [], pc_request = req\<rparr>) (ca_commands a)
      | None \<Rightarrow> [\<lparr>pc_command = None, pc_writtenPaths = opt_default [] (pr_filePaths req), pc_request = req\<rparr>])"

definition ruleMatches :: "file_system \<Rightarrow> policy_rule \<Rightarrow> predicate_context list \<Rightarrow> command_analysis option \<Rightarrow> bool" where
  "ruleMatches fs rule contexts analysis =
     (if ru_appliesTo rule \<noteq> Some EveryCommand then list_ex (matchesPredicate fs (ru_when rule)) contexts
      else (let isFullyRead = ((case analysis of None \<Rightarrow> False | Some a \<Rightarrow> ca_status a = Complete) \<and> 0 < length contexts)
            in isFullyRead \<and> list_all (matchesPredicate fs (ru_when rule)) contexts))"

definition refusalOf :: "policy_rule \<Rightarrow> bool \<Rightarrow> policy_verdict" where
  "refusalOf rule observing =
     (if observing then Allow None (Some \<lparr>ob_ruleId = ru_id rule, ob_reason = ru_reason rule, ob_alternative = ru_alternative rule\<rparr>) False
      else if ru_decision rule = DecideAsk then Ask (ru_id rule) (ru_reason rule)
      else Deny (ru_id rule) (ru_reason rule) (opt_default '''' (ru_alternative rule)))"

definition applicableRulesOf :: "(string \<Rightarrow> string) \<Rightarrow> profile_plan \<Rightarrow> command_policy_document \<Rightarrow> policy_request \<Rightarrow> policy_rule list" where
  "applicableRulesOf lower plan policy req =
     (let rulesById = map_of (rev (map (\<lambda>rule. (ru_id rule, rule)) (cp_rules policy)))
      in concat (map (\<lambda>ruleId. case rulesById ruleId of
             None \<Rightarrow> []
           | Some rule \<Rightarrow> if isInScope lower rule req \<and> \<not> isEscapedByMarker rule req then [rule] else []) (ruleIds plan)))"

text \<open>The loop over the applicable rules.\<close>

fun judge_rules :: "(policy_rule \<Rightarrow> bool) \<Rightarrow> bool \<Rightarrow> string option \<Rightarrow> policy_rule list \<Rightarrow> policy_verdict" where
  "judge_rules applies observing allowedBy [] = Allow allowedBy None False"
| "judge_rules applies observing allowedBy (rule # rules) =
     (if \<not> applies rule then judge_rules applies observing allowedBy rules
      else if ru_decision rule \<noteq> DecideAllow then refusalOf rule observing
      else judge_rules applies observing (case allowedBy of None \<Rightarrow> Some (ru_id rule) | Some r \<Rightarrow> Some r) rules)"

definition analysis_of :: "policy_request \<Rightarrow> command_analysis option" where
  "analysis_of req = (if pr_toolName req = BASH_TOOL then map_option analyzeCommand (pr_command req) else None)"

definition evaluateCommandPolicy :: "file_system \<Rightarrow> (string \<Rightarrow> string) \<Rightarrow> policy_request \<Rightarrow> command_policy_document \<Rightarrow> policy_verdict" where
  "evaluateCommandPolicy fs lower req policy =
     (if cp_mode policy = Off then ALLOW
      else if pr_toolName req = BASH_TOOL \<and> pr_command req = None then ALLOW
      else (let analysis = analysis_of req
            in if map_option ca_status analysis = Some LimitExceeded then Allow None None True
               else (let contexts = contextsOf req analysis;
                         plan = planFor lower req policy
                     in judge_rules (\<lambda>rule. ruleMatches fs rule contexts analysis) (isObserving plan) None
                          (applicableRulesOf lower plan policy req))))"

section \<open>The loop over the rules\<close>

lemma judge_rules_find:
  "judge_rules applies observing allowedBy rs =
     (case find (\<lambda>r. applies r \<and> ru_decision r \<noteq> DecideAllow) rs of
        Some r \<Rightarrow> refusalOf r observing
      | None \<Rightarrow> Allow (case allowedBy of Some r \<Rightarrow> Some r | None \<Rightarrow> map_option ru_id (find applies rs)) None False)"
  by (induction rs arbitrary: allowedBy) (auto split: option.splits)

lemma applicable_rule:
  assumes "rule \<in> set (applicableRulesOf lower plan policy req)"
  shows "rule \<in> set (cp_rules policy) \<and> ru_id rule \<in> set (ruleIds plan) \<and> isInScope lower rule req \<and> \<not> isEscapedByMarker rule req"
proof -
  let ?byId = "map_of (rev (map (\<lambda>rule. (ru_id rule, rule)) (cp_rules policy)))"
  obtain i where i: "i \<in> set (ruleIds plan)" "?byId i = Some rule" "isInScope lower rule req" "\<not> isEscapedByMarker rule req"
    using assms by (auto simp: applicableRulesOf_def Let_def split: option.splits if_splits)
  then have "(i, rule) \<in> set (rev (map (\<lambda>rule. (ru_id rule, rule)) (cp_rules policy)))" by (blast dest: map_of_SomeD)
  then show ?thesis using i by auto
qed

definition judged :: "file_system \<Rightarrow> (string \<Rightarrow> string) \<Rightarrow> policy_request \<Rightarrow> command_policy_document \<Rightarrow> policy_verdict" where
  "judged fs lower req policy =
     judge_rules (\<lambda>rule. ruleMatches fs rule (contextsOf req (analysis_of req)) (analysis_of req)) (isObserving (planFor lower req policy)) None
       (applicableRulesOf lower (planFor lower req policy) policy req)"

lemma evaluate_cases:
  "evaluateCommandPolicy fs lower req policy = ALLOW \<or> evaluateCommandPolicy fs lower req policy = Allow None None True \<or>
   cp_mode policy \<noteq> Off \<and> evaluateCommandPolicy fs lower req policy = judged fs lower req policy"
  by (simp add: evaluateCommandPolicy_def judged_def Let_def)

lemma evaluate_judged:
  "\<lbrakk>cp_mode policy \<noteq> Off; pr_toolName req = BASH_TOOL; pr_command req = Some t; ca_status (analyzeCommand t) \<noteq> LimitExceeded\<rbrakk>
   \<Longrightarrow> evaluateCommandPolicy fs lower req policy = judged fs lower req policy"
  by (simp add: evaluateCommandPolicy_def judged_def analysis_of_def Let_def)

section \<open>Inherited rules\<close>

definition parent_of :: "(string \<times> policy_profile) list \<Rightarrow> string \<Rightarrow> string option" where
  "parent_of profiles name = (case map_of profiles name of None \<Rightarrow> None | Some p \<Rightarrow> pf_extends p)"

definition extends_profile :: "(string \<times> policy_profile) list \<Rightarrow> string \<Rightarrow> string \<Rightarrow> bool" where
  "extends_profile profiles a b \<longleftrightarrow> parent_of profiles a = Some b"

definition own_rules :: "(string \<times> policy_profile) list \<Rightarrow> string \<Rightarrow> string set" where
  "own_rules profiles name = (case map_of profiles name of None \<Rightarrow> {} | Some p \<Rightarrow> set (pf_rules p))"

lemma ruleIds_sound:
  "x \<in> set (ruleIdsOfProfile profiles name visited) \<Longrightarrow> \<exists>b. (extends_profile profiles)\<^sup>*\<^sup>* name b \<and> x \<in> own_rules profiles b"
proof (induction profiles name visited rule: ruleIdsOfProfile.induct)
  case (1 profiles name visited)
  then obtain p where p: "name \<notin> set visited" "map_of profiles name = Some p"
    by (cases "map_of profiles name") (simp_all add: ruleIdsOfProfile.simps [of profiles name visited] split: if_splits)
  show ?case
  proof (cases "x \<in> set (pf_rules p)")
    case True
    then show ?thesis using p by (auto simp: own_rules_def)
  next
    case False
    then obtain q where q: "pf_extends p = Some q" "x \<in> set (ruleIdsOfProfile profiles q (name # visited))"
      using 1(2) p by (cases "pf_extends p") (simp_all add: ruleIdsOfProfile.simps [of profiles name visited])
    then obtain b where "(extends_profile profiles)\<^sup>*\<^sup>* q b" "x \<in> own_rules profiles b" using 1(1) p by blast
    moreover have "extends_profile profiles name q" using p q by (simp add: extends_profile_def parent_of_def)
    ultimately show ?thesis by (meson converse_rtranclp_into_rtranclp)
  qed
qed

lemma closed_reach:
  assumes "\<forall>v \<in> V. \<forall>w. R v w \<longrightarrow> w \<in> V" "R\<^sup>*\<^sup>* a b" "a \<in> V"
  shows "b \<in> V"
  using assms(2,3,1) by (induction rule: rtranclp_induct) auto

lemma ruleIds_complete:
  "\<lbrakk>\<forall>v \<in> set visited. \<forall>w. extends_profile profiles v w \<longrightarrow> w \<in> insert name (set visited);
    (extends_profile profiles)\<^sup>*\<^sup>* name b; x \<in> own_rules profiles b\<rbrakk>
   \<Longrightarrow> x \<in> set (ruleIdsOfProfile profiles name visited) \<or> (\<exists>v \<in> set visited. x \<in> own_rules profiles v)"
proof (induction profiles name visited rule: ruleIdsOfProfile.induct)
  case (1 profiles name visited)
  show ?case
  proof (cases "name \<in> set visited")
    case True
    then have "b \<in> set visited" using 1(2,3) closed_reach [of "set visited" "extends_profile profiles" name b] by (auto simp: insert_absorb)
    then show ?thesis using 1(4) by blast
  next
    case fresh: False
    show ?thesis
    proof (cases "map_of profiles name")
      case None
      then have "b = name" using 1(3) by (auto elim: converse_rtranclpE simp: extends_profile_def parent_of_def)
      then show ?thesis using None 1(4) by (simp add: own_rules_def)
    next
      case (Some p)
      have own: "set (pf_rules p) \<subseteq> set (ruleIdsOfProfile profiles name visited)"
        using fresh Some by (simp add: ruleIdsOfProfile.simps [of profiles name visited] Let_def)
      from 1(3) show ?thesis
      proof (cases rule: converse_rtranclpE)
        case base
        then show ?thesis using own Some 1(4) by (auto simp: own_rules_def)
      next
        case (step q)
        then have q: "pf_extends p = Some q" using Some by (simp add: extends_profile_def parent_of_def)
        have "\<forall>v \<in> set (name # visited). \<forall>w. extends_profile profiles v w \<longrightarrow> w \<in> insert q (set (name # visited))"
          using 1(2) step(1) by (auto simp: extends_profile_def)
        from 1(1) [OF fresh Some q this step(2) 1(4)]
        have "x \<in> set (ruleIdsOfProfile profiles q (name # visited)) \<or> x \<in> own_rules profiles name \<or> (\<exists>v \<in> set visited. x \<in> own_rules profiles v)" by auto
        then show ?thesis
          using own Some fresh q by (auto simp: own_rules_def ruleIdsOfProfile.simps [of profiles name visited] Let_def)
      qed
    qed
  qed
qed

section \<open>The rule that decides\<close>

text \<open>A profile and those it extends, up to one that extends none, an unknown one or one met before.\<close>

fun lineage :: "(string \<times> policy_profile) list \<Rightarrow> string list \<Rightarrow> string \<Rightarrow> string list \<Rightarrow> bool" where
  "lineage profiles seen name [] \<longleftrightarrow> name \<in> set seen \<or> map_of profiles name = None"
| "lineage profiles seen name (n # ns) \<longleftrightarrow>
     n = name \<and> name \<notin> set seen \<and> map_of profiles name \<noteq> None \<and>
     (case parent_of profiles name of None \<Rightarrow> ns = [] | Some q \<Rightarrow> lineage profiles (name # seen) q ns)"

definition listed_rules :: "(string \<times> policy_profile) list \<Rightarrow> string \<Rightarrow> string list" where
  "listed_rules profiles name = (case map_of profiles name of None \<Rightarrow> [] | Some p \<Rightarrow> pf_rules p)"

lemma lineage_rules: "lineage profiles seen name ns \<Longrightarrow> ruleIdsOfProfile profiles name seen = concat (map (listed_rules profiles) (rev ns))"
proof (induction ns arbitrary: seen name)
  case Nil
  then show ?case by (auto simp: ruleIdsOfProfile.simps [of profiles name seen] hasProfile_def)
next
  case (Cons n ns)
  then obtain p where "n = name" "name \<notin> set seen" "map_of profiles name = Some p" by auto
  then show ?case using Cons
    by (cases "pf_extends p") (simp_all add: ruleIdsOfProfile.simps [of profiles name seen] hasProfile_def parent_of_def listed_rules_def Let_def)
qed

lemma lineage_exists: "\<exists>ns. lineage profiles seen name ns"
proof (induction profiles name seen rule: ruleIdsOfProfile.induct)
  case (1 profiles name seen)
  show ?case
  proof (cases "name \<in> set seen \<or> map_of profiles name = None")
    case True
    then show ?thesis by (intro exI [of _ "[]"]) simp
  next
    case False
    then obtain p where p: "map_of profiles name = Some p" by auto
    show ?thesis
    proof (cases "pf_extends p")
      case None
      then show ?thesis using False p by (intro exI [of _ "[name]"]) (simp add: parent_of_def)
    next
      case (Some q)
      then obtain ns where "lineage profiles (name # seen) q ns" using 1 False p by blast
      then show ?thesis using False p Some by (intro exI [of _ "name # ns"]) (simp add: parent_of_def)
    qed
  qed
qed

text \<open>The last rule of a document with an id, which is the one its lists of ids name.\<close>

definition rule_named :: "command_policy_document \<Rightarrow> string \<Rightarrow> policy_rule \<Rightarrow> bool" where
  "rule_named policy i rule \<longleftrightarrow> (\<exists>xs ys. cp_rules policy = xs @ rule # ys \<and> ru_id rule = i \<and> i \<notin> ru_id ` set ys)"

lemma map_of_last: "map_of (rev (map (\<lambda>x. (f x, x)) xs)) i = Some x \<longleftrightarrow> (\<exists>as bs. xs = as @ x # bs \<and> f x = i \<and> i \<notin> f ` set bs)"
proof (induction xs rule: rev_induct)
  case (snoc a xs)
  show ?case
  proof (cases "f a = i")
    case True
    have "bs = []" if "xs @ [a] = as @ x # bs" "i \<notin> f ` set bs" for as bs using that True by (cases bs rule: rev_cases) auto
    then show ?thesis using True by fastforce
  next
    case False
    have "(\<exists>as bs. xs @ [a] = as @ x # bs \<and> f x = i \<and> i \<notin> f ` set bs) \<longleftrightarrow> (\<exists>as bs. xs = as @ x # bs \<and> f x = i \<and> i \<notin> f ` set bs)"
    proof
      assume "\<exists>as bs. xs @ [a] = as @ x # bs \<and> f x = i \<and> i \<notin> f ` set bs"
      then obtain as bs where h: "xs @ [a] = as @ x # bs" "f x = i" "i \<notin> f ` set bs" by blast
      then obtain bs' where "bs = bs' @ [a]" using False by (cases bs rule: rev_cases) auto
      then show "\<exists>as bs. xs = as @ x # bs \<and> f x = i \<and> i \<notin> f ` set bs" using h by (intro exI [of _ as] exI [of _ bs']) auto
    next
      assume "\<exists>as bs. xs = as @ x # bs \<and> f x = i \<and> i \<notin> f ` set bs"
      then obtain as bs where "xs = as @ x # bs" "f x = i" "i \<notin> f ` set bs" by blast
      then show "\<exists>as bs. xs @ [a] = as @ x # bs \<and> f x = i \<and> i \<notin> f ` set bs" using False by (intro exI [of _ as] exI [of _ "bs @ [a]"]) auto
    qed
    then show ?thesis using snoc False by simp
  qed
qed simp

lemma rule_named_map_of: "rule_named policy i rule \<longleftrightarrow> map_of (rev (map (\<lambda>rule. (ru_id rule, rule)) (cp_rules policy))) i = Some rule"
  by (simp add: map_of_last rule_named_def)

lemma rule_named_unique: "rule_named policy i rule \<Longrightarrow> rule_named policy i rule' \<Longrightarrow> rule = rule'"
  by (simp add: rule_named_map_of)

lemma find_append: "find P (xs @ ys) = (case find P xs of None \<Rightarrow> find P ys | Some x \<Rightarrow> Some x)"
  by (induction xs) auto

lemma find_first_listed: "find P xs = Some x \<longleftrightarrow> (\<exists>before after. xs = before @ x # after \<and> P x \<and> (\<forall>y \<in> set before. \<not> P y))"
proof
  show "find P xs = Some x \<Longrightarrow> \<exists>before after. xs = before @ x # after \<and> P x \<and> (\<forall>y \<in> set before. \<not> P y)"
  proof (induction xs)
    case (Cons a xs)
    show ?case
    proof (cases "P a")
      case True
      then show ?thesis using Cons by (intro exI [of _ "[]"] exI [of _ xs]) simp
    next
      case False
      then obtain before after where "xs = before @ x # after" "P x" "\<forall>y \<in> set before. \<not> P y" using Cons by auto
      then show ?thesis using False by (intro exI [of _ "a # before"] exI [of _ after]) simp
    qed
  qed simp
next
  assume "\<exists>before after. xs = before @ x # after \<and> P x \<and> (\<forall>y \<in> set before. \<not> P y)"
  then obtain before after where "xs = before @ x # after" "P x" "find P before = None" by (auto simp: find_None_iff)
  then show "find P xs = Some x" by (simp add: find_append)
qed

lemma find_without_repeats: "find P (without_repeats xs) = find P xs"
proof (induction xs rule: rev_induct)
  case (snoc x xs)
  have "find P xs \<noteq> None" if "x \<in> set xs" "P x" using that by (auto simp: find_None_iff)
  then show ?case using snoc by (auto simp: without_repeats_def find_append split: option.splits)
qed (simp add: without_repeats_def)

text \<open>A rule of the document that applies to a call and refuses it.\<close>

definition refuses :: "file_system \<Rightarrow> (string \<Rightarrow> string) \<Rightarrow> policy_request \<Rightarrow> policy_rule \<Rightarrow> bool" where
  "refuses fs lower req rule \<longleftrightarrow> ru_decision rule \<noteq> DecideAllow \<and> isInScope lower rule req \<and> \<not> isEscapedByMarker rule req \<and>
     ruleMatches fs rule (contextsOf req (analysis_of req)) (analysis_of req)"

lemma find_applicable:
  "find (\<lambda>r. ruleMatches fs r (contextsOf req (analysis_of req)) (analysis_of req) \<and> ru_decision r \<noteq> DecideAllow) (applicableRulesOf lower plan policy req) = Some rule
   \<longleftrightarrow> find (\<lambda>i. \<exists>r. rule_named policy i r \<and> refuses fs lower req r) (ruleIds plan) = Some (ru_id rule) \<and> rule_named policy (ru_id rule) rule"
proof -
  let ?byId = "map_of (rev (map (\<lambda>rule. (ru_id rule, rule)) (cp_rules policy)))"
  have named: "?byId i = Some r \<longleftrightarrow> rule_named policy i r" for i r by (simp only: rule_named_map_of)
  have "find (\<lambda>r. ruleMatches fs r (contextsOf req (analysis_of req)) (analysis_of req) \<and> ru_decision r \<noteq> DecideAllow)
      (concat (map (\<lambda>i. case ?byId i of None \<Rightarrow> [] | Some r \<Rightarrow> if isInScope lower r req \<and> \<not> isEscapedByMarker r req then [r] else []) ids))
    = (case find (\<lambda>i. \<exists>r. ?byId i = Some r \<and> refuses fs lower req r) ids of None \<Rightarrow> None | Some i \<Rightarrow> ?byId i)" for ids
    by (induction ids) (auto simp: refuses_def split: option.splits)
  then have "find (\<lambda>r. ruleMatches fs r (contextsOf req (analysis_of req)) (analysis_of req) \<and> ru_decision r \<noteq> DecideAllow) (applicableRulesOf lower plan policy req) = Some rule
    \<longleftrightarrow> (\<exists>i. find (\<lambda>i. \<exists>r. rule_named policy i r \<and> refuses fs lower req r) (ruleIds plan) = Some i \<and> rule_named policy i rule)"
    by (simp add: applicableRulesOf_def Let_def named split: option.splits)
  also have "\<dots> \<longleftrightarrow> find (\<lambda>i. \<exists>r. rule_named policy i r \<and> refuses fs lower req r) (ruleIds plan) = Some (ru_id rule) \<and> rule_named policy (ru_id rule) rule"
    by (auto simp: rule_named_def)
  finally show ?thesis .
qed

text \<open>A call that is judged with effect: the policy and the profile of the caller enforce, and a shell command was read within the limits.\<close>

definition enforced :: "(string \<Rightarrow> string) \<Rightarrow> policy_request \<Rightarrow> command_policy_document \<Rightarrow> bool" where
  "enforced lower req policy \<longleftrightarrow> cp_mode policy = Enforce \<and>
     (\<forall>p. map_of (cp_profiles policy) (profileNameOf lower (pr_role req) policy) = Some p \<longrightarrow> pf_mode p \<noteq> Some ProfileObserve) \<and>
     (pr_toolName req = BASH_TOOL \<longrightarrow> (\<exists>t. pr_command req = Some t \<and> ca_status (analyzeCommand t) \<noteq> LimitExceeded))"

lemma observing_plan: "isObserving (planFor lower req policy) \<longleftrightarrow> cp_mode policy = Observe \<or> \<not> (\<forall>p. map_of (cp_profiles policy) (profileNameOf lower (pr_role req) policy) = Some p \<longrightarrow> pf_mode p \<noteq> Some ProfileObserve)"
  by (auto simp: planFor_def Let_def split: option.splits)

lemma evaluate_enforced:
  "enforced lower req policy \<Longrightarrow> evaluateCommandPolicy fs lower req policy = judged fs lower req policy \<and> \<not> isObserving (planFor lower req policy)"
  by (auto simp: enforced_def observing_plan evaluateCommandPolicy_def judged_def analysis_of_def Let_def)

lemma evaluate_not_enforced: "\<not> enforced lower req policy \<Longrightarrow> \<exists>a obs d. evaluateCommandPolicy fs lower req policy = Allow a obs d"
proof -
  assume not: "\<not> enforced lower req policy"
  consider "cp_mode policy = Off" | "pr_toolName req = BASH_TOOL" "\<not> (\<exists>t. pr_command req = Some t \<and> ca_status (analyzeCommand t) \<noteq> LimitExceeded)" | "isObserving (planFor lower req policy)"
    using not unfolding enforced_def observing_plan by (cases "cp_mode policy") blast+
  then show ?thesis
  proof cases
    case 3
    then have "\<exists>a obs d. judged fs lower req policy = Allow a obs d" by (auto simp: judged_def judge_rules_find refusalOf_def split: option.splits)
    then show ?thesis using evaluate_cases [of fs lower req policy] by (auto simp: ALLOW_def)
  qed (auto simp: evaluateCommandPolicy_def ALLOW_def analysis_of_def Let_def)
qed

section \<open>Examples\<close>





section \<open>Properties\<close>



text \<open>C2: The first refusing rule wins. A verdict is a refusal exactly when the call is judged with effect and some rule of the document,
  listed by the profile of the caller or by one it extends, those furthest up the line first, refuses the call while no rule
  listed before it does; the verdict then has the decision, the id and the reason of that rule. In every other case the call is
  allowed: in a policy switched off or observing, on a profile that observes, for a command whose analysis hit its limits, or
  when no listed rule refuses.\<close>

theorem first_refusing_rule_wins:
  "(\<exists>ns before after rule. enforced lower req policy \<and> lineage (cp_profiles policy) [] (profileNameOf lower (pr_role req) policy) ns
      \<and> concat (map (listed_rules (cp_profiles policy)) (rev ns)) = before @ ru_id rule # after
      \<and> rule_named policy (ru_id rule) rule \<and> refuses fs lower req rule \<and> (\<nexists>i r. i \<in> set before \<and> rule_named policy i r \<and> refuses fs lower req r)
      \<and> verdict = (if ru_decision rule = DecideAsk then Ask (ru_id rule) (ru_reason rule) else Deny (ru_id rule) (ru_reason rule) (opt_default '''' (ru_alternative rule))))
   \<longleftrightarrow> evaluateCommandPolicy fs lower req policy = verdict \<and> (\<forall>allowedBy observed degraded. verdict \<noteq> Allow allowedBy observed degraded)"
proof (cases "enforced lower req policy")
  case False
  then show ?thesis using evaluate_not_enforced [OF False, of fs] by auto
next
  case True
  let ?name = "profileNameOf lower (pr_role req) policy"
  let ?refuses = "\<lambda>i. \<exists>r. rule_named policy i r \<and> refuses fs lower req r"
  obtain ns where ns: "lineage (cp_profiles policy) [] ?name ns" using lineage_exists by blast
  have ids: "concat (map (listed_rules (cp_profiles policy)) (rev ns')) = ruleIdsOfProfile (cp_profiles policy) ?name []" if "lineage (cp_profiles policy) [] ?name ns'" for ns'
    using lineage_rules [OF that] by simp
  have found: "find ?refuses (ruleIdsOfProfile (cp_profiles policy) ?name []) = Some (ru_id rule) \<and> rule_named policy (ru_id rule) rule \<longleftrightarrow>
      (\<exists>before after. ruleIdsOfProfile (cp_profiles policy) ?name [] = before @ ru_id rule # after \<and> rule_named policy (ru_id rule) rule \<and> refuses fs lower req rule
        \<and> (\<nexists>i r. i \<in> set before \<and> rule_named policy i r \<and> refuses fs lower req r))" for rule
    unfolding find_first_listed using rule_named_unique by blast
  have "evaluateCommandPolicy fs lower req policy = judge_rules (\<lambda>rule. ruleMatches fs rule (contextsOf req (analysis_of req)) (analysis_of req)) False None (applicableRulesOf lower (planFor lower req policy) policy req)"
    using evaluate_enforced [OF True, of fs] by (simp add: judged_def)
  then have "evaluateCommandPolicy fs lower req policy = verdict \<and> (\<forall>a obs d. verdict \<noteq> Allow a obs d) \<longleftrightarrow>
      (\<exists>rule. find (\<lambda>r. ruleMatches fs r (contextsOf req (analysis_of req)) (analysis_of req) \<and> ru_decision r \<noteq> DecideAllow) (applicableRulesOf lower (planFor lower req policy) policy req) = Some rule
        \<and> verdict = refusalOf rule False)"
    by (auto simp: judge_rules_find refusalOf_def split: option.splits)
  also have "\<dots> \<longleftrightarrow> (\<exists>rule. find ?refuses (ruleIdsOfProfile (cp_profiles policy) ?name []) = Some (ru_id rule) \<and> rule_named policy (ru_id rule) rule \<and> verdict = refusalOf rule False)"
    unfolding find_applicable by (simp add: planFor_def Let_def find_without_repeats)
  finally have refused: "evaluateCommandPolicy fs lower req policy = verdict \<and> (\<forall>a obs d. verdict \<noteq> Allow a obs d) \<longleftrightarrow>
      (\<exists>rule. (find ?refuses (ruleIdsOfProfile (cp_profiles policy) ?name []) = Some (ru_id rule) \<and> rule_named policy (ru_id rule) rule) \<and> verdict = refusalOf rule False)" by simp
  have swap: "(\<exists>ns before after rule. enforced lower req policy \<and> lineage (cp_profiles policy) [] ?name ns \<and> concat (map (listed_rules (cp_profiles policy)) (rev ns)) = before @ ru_id rule # after \<and> R before rule)
      \<longleftrightarrow> (\<exists>rule before after. ruleIdsOfProfile (cp_profiles policy) ?name [] = before @ ru_id rule # after \<and> R before rule)" for R
    using True ns ids by (metis (no_types))
  show ?thesis unfolding refused found swap by (simp add: refusalOf_def) blast
qed

text \<open>A denial always names a rule: it is a deny rule of the document, listed for the caller's profile, in scope
  of the request, not escaped by a marker, and its predicate holds.\<close>

theorem denial_names_its_rule:
  assumes "evaluateCommandPolicy fs lower req policy = Deny i reason alternative"
  shows "\<exists>rule \<in> set (cp_rules policy). ru_id rule = i \<and> ru_reason rule = reason \<and> ru_decision rule = DecideDeny \<and>
    i \<in> set (ruleIds (planFor lower req policy)) \<and> isInScope lower rule req \<and> \<not> isEscapedByMarker rule req \<and>
    ruleMatches fs rule (contextsOf req (analysis_of req)) (analysis_of req)"
proof -
  let ?applies = "\<lambda>rule. ruleMatches fs rule (contextsOf req (analysis_of req)) (analysis_of req)"
  let ?rules = "applicableRulesOf lower (planFor lower req policy) policy req"
  have "judged fs lower req policy = Deny i reason alternative"
    using evaluate_cases [of fs lower req policy] assms by (auto simp: ALLOW_def)
  then obtain r where r: "find (\<lambda>r. ?applies r \<and> ru_decision r \<noteq> DecideAllow) ?rules = Some r"
      "refusalOf r (isObserving (planFor lower req policy)) = Deny i reason alternative"
    by (auto simp: judged_def judge_rules_find split: option.splits)
  have member: "r \<in> set ?rules" "?applies r" "ru_decision r \<noteq> DecideAllow" using find_SomeD [OF r(1)] by auto
  have "ru_id r = i" "ru_reason r = reason" "ru_decision r = DecideDeny"
    using r(2) member(3) by (cases "ru_decision r"; simp add: refusalOf_def split: if_splits)+
  then show ?thesis using applicable_rule [OF member(1)] member(2) by blast
qed

text \<open>Switched off or only observing, the policy refuses nothing: every verdict is an allow.\<close>

theorem observing_never_refuses:
  assumes "cp_mode policy \<noteq> Enforce"
  shows "\<exists>allowedBy observed degraded. evaluateCommandPolicy fs lower req policy = Allow allowedBy observed degraded"
proof -
  have "isObserving (planFor lower req policy)" if "cp_mode policy \<noteq> Off"
    using assms that by (cases "cp_mode policy") (simp_all add: planFor_def Let_def)
  then have "\<exists>a b d. judged fs lower req policy = Allow a b d" if "cp_mode policy \<noteq> Off"
    using that by (auto simp: judged_def judge_rules_find refusalOf_def split: option.splits)
  then show ?thesis using evaluate_cases [of fs lower req policy] by (auto simp: ALLOW_def)
qed

text \<open>A profile applies exactly the rules of the profiles it reaches through \<open>extends\<close>, itself included, also
  when the profiles extend each other in a cycle.\<close>

theorem profile_rules_are_inherited:
  "set (ruleIdsOfProfile profiles name [])
   = {ruleId. \<exists>ancestor. (extends_profile profiles)\<^sup>*\<^sup>* name ancestor \<and> ruleId \<in> own_rules profiles ancestor}"
  using ruleIds_sound [of _ profiles name "[]"] ruleIds_complete [of "[]" profiles name] by auto

text \<open>A text that could not be read to its end is vouched for by no rule that must cover every command: when all
  allow rules are of that kind, the verdict on it names no allow rule.\<close>

theorem partial_text_is_never_vouched:
  assumes "pr_toolName req = BASH_TOOL" "pr_command req = Some t" "sr_isPartial (scanShell t)"
    "list_all (\<lambda>r. ru_decision r = DecideAllow \<longrightarrow> ru_appliesTo r = Some EveryCommand) (cp_rules policy)"
  shows "evaluateCommandPolicy fs lower req policy \<noteq> Allow (Some ruleId) observed degraded"
proof
  assume h: "evaluateCommandPolicy fs lower req policy = Allow (Some ruleId) observed degraded"
  let ?applies = "\<lambda>rule. ruleMatches fs rule (contextsOf req (analysis_of req)) (analysis_of req)"
  let ?rules = "applicableRulesOf lower (planFor lower req policy) policy req"
  have "judged fs lower req policy = Allow (Some ruleId) observed degraded"
    using evaluate_cases [of fs lower req policy] h by (auto simp: ALLOW_def)
  then have none: "find (\<lambda>r. ?applies r \<and> ru_decision r \<noteq> DecideAllow) ?rules = None"
    and some: "map_option ru_id (find ?applies ?rules) = Some ruleId"
    by (auto simp: judged_def judge_rules_find refusalOf_def split: option.splits if_splits)
  then obtain r where r: "r \<in> set ?rules" "?applies r" using find_SomeD [of ?applies ?rules] by auto
  then have "ru_decision r = DecideAllow" using none by (auto simp: find_None_iff)
  then have "ru_appliesTo r = Some EveryCommand" using applicable_rule [OF r(1)] assms(4) by (auto simp: list_all_iff)
  moreover have "ca_status (analyzeCommand t) \<noteq> Complete" using assms(3) by (rule analyzeCommand_partial)
  ultimately show False using r(2) assms(1,2) by (simp add: ruleMatches_def analysis_of_def)
qed

end
