(* ===== verification/Fleet_Interfaces.thy ===== *)
theory Fleet_Interfaces
  imports Fleet_Prelude
begin

text \<open>
  The contracts several components share. A \<open>fifo_mailbox\<close> hands out what waits for a key in order: the
  message queue of a session and the waiting list of a manager's proposals both promise it. An \<open>advancing\<close>
  machine never takes an entry back to a lower rank (the revision of a law), and a \<open>one_way\<close> machine is one whose
  entries stay as they are once they reached the highest (a settled fire, a withdrawn law). \<open>kept_by_steps\<close> takes an invariant
  from one call to any sequence of calls, and \<open>tracked_by_steps\<close> also what a call leaves between the state before and the
  state after.
\<close>

section \<open>Mailboxes\<close>

locale fifo_mailbox =
  fixes ok :: "'t \<Rightarrow> bool"
    and waiting :: "'k \<Rightarrow> 't \<Rightarrow> 'i list"
    and next_of :: "'k \<Rightarrow> 't \<Rightarrow> 'i option"
    and take_out :: "'k \<Rightarrow> 'i \<Rightarrow> 't \<Rightarrow> 't"
  assumes next_is_head: "ok t \<Longrightarrow> next_of k t = (case waiting k t of [] \<Rightarrow> None | i # _ \<Rightarrow> Some i)"
    and take_removes: "ok t \<Longrightarrow> waiting k t = i # is \<Longrightarrow> waiting k (take_out k i t) = is"
    and take_keeps_others: "ok t \<Longrightarrow> waiting k t = i # is \<Longrightarrow> k' \<noteq> k \<Longrightarrow> waiting k' (take_out k i t) = waiting k' t"
    and take_ok: "ok t \<Longrightarrow> waiting k t = i # is \<Longrightarrow> ok (take_out k i t)"
begin

primrec drain :: "nat \<Rightarrow> 'k \<Rightarrow> 't \<Rightarrow> 'i list \<times> 't" where
  "drain 0 k t = ([], t)"
| "drain (Suc n) k t =
     (case next_of k t of
        None \<Rightarrow> ([], t)
      | Some i \<Rightarrow> (let (is, t') = drain n k (take_out k i t) in (i # is, t')))"

lemma drain_state:
  "ok t \<Longrightarrow> ok (snd (drain n k t)) \<and> fst (drain n k t) = take n (waiting k t) \<and> waiting k (snd (drain n k t)) = drop n (waiting k t) \<and>
   (\<forall>k'. k' \<noteq> k \<longrightarrow> waiting k' (snd (drain n k t)) = waiting k' t)"
proof (induction n arbitrary: t)
  case (Suc n)
  show ?case
  proof (cases "waiting k t")
    case Nil
    then show ?thesis using Suc.prems by (simp add: next_is_head)
  next
    case (Cons i "is")
    let ?t = "take_out k i t"
    have "ok ?t" "waiting k ?t = is" using Suc.prems Cons take_ok take_removes by blast+
    then show ?thesis
      using Suc.IH [of ?t] Suc.prems Cons take_keeps_others by (simp add: next_is_head split_beta)
  qed
qed simp

lemma drain_in_order: "ok t \<Longrightarrow> fst (drain n k t) = take n (waiting k t)"
  using drain_state by blast

lemma drain_leaves: "ok t \<Longrightarrow> waiting k (snd (drain n k t)) = drop n (waiting k t)"
  using drain_state by blast

lemma drain_spares_others: "ok t \<Longrightarrow> k' \<noteq> k \<Longrightarrow> waiting k' (snd (drain n k t)) = waiting k' t"
  using drain_state by blast

end

section \<open>One-way machines\<close>

text \<open>\<open>entry\<close> reads the entry of a key and \<open>rank\<close> orders the entries: every step moves each existing entry to one of at
  least its rank.\<close>

locale advancing =
  fixes entry :: "'t \<Rightarrow> 'k \<Rightarrow> 'e option"
    and rank :: "'e \<Rightarrow> nat"
    and step :: "'op \<Rightarrow> 't \<Rightarrow> 't"
  assumes never_back: "entry t k = Some e \<Longrightarrow> \<exists>e'. entry (step op t) k = Some e' \<and> rank e \<le> rank e'"
begin

lemma run_never_back:
  "entry t k = Some e \<Longrightarrow> \<exists>e'. entry (fold step ops t) k = Some e' \<and> rank e \<le> rank e'"
proof (induction ops arbitrary: t e)
  case (Cons op ops)
  from never_back [OF Cons.prems] obtain e1 where "entry (step op t) k = Some e1" "rank e \<le> rank e1" by blast
  with Cons.IH [OF this(1)] show ?case by (auto intro: le_trans)
qed simp

end

text \<open>Where there is a highest rank, an entry that reached it is never changed.\<close>

locale one_way = advancing entry rank step
  for entry :: "'t \<Rightarrow> 'k \<Rightarrow> 'e option" and rank :: "'e \<Rightarrow> nat" and step :: "'op \<Rightarrow> 't \<Rightarrow> 't" +
  fixes top :: nat
  assumes final_stays: "entry t k = Some e \<Longrightarrow> top \<le> rank e \<Longrightarrow> entry (step op t) k = Some e"
begin

lemma run_final_stays:
  "entry t k = Some e \<Longrightarrow> top \<le> rank e \<Longrightarrow> entry (fold step ops t) k = Some e"
  by (induction ops arbitrary: t) (simp_all add: final_stays)

end

section \<open>Sequences of calls\<close>

locale kept_by_steps =
  fixes ok :: "'s \<Rightarrow> bool"
    and step :: "'op \<Rightarrow> 's \<Rightarrow> 's"
  assumes step_kept: "ok s \<Longrightarrow> ok (step op s)"
begin

lemma run_kept: "ok s \<Longrightarrow> ok (fold step ops s)"
  by (induction ops arbitrary: s) (simp_all add: step_kept)

end

locale tracked_by_steps = kept_by_steps ok step
  for ok :: "'s \<Rightarrow> bool" and step :: "'op \<Rightarrow> 's \<Rightarrow> 's" +
  fixes track :: "'s \<Rightarrow> 's \<Rightarrow> bool"
  assumes track_refl: "track s s"
    and track_trans: "track s s1 \<Longrightarrow> track s1 s2 \<Longrightarrow> track s s2"
    and step_tracked: "ok s \<Longrightarrow> track s (step op s)"
begin

lemma run_tracked: "ok s \<Longrightarrow> track s (fold step ops s)"
proof (induction ops arbitrary: s)
  case (Cons op ops)
  have "track s (step op s)" by (rule step_tracked [OF Cons.prems])
  moreover have "track (step op s) (fold step ops (step op s))" by (rule Cons.IH [OF step_kept [OF Cons.prems]])
  ultimately have "track s (fold step ops (step op s))" by (rule track_trans)
  then show ?case by simp
qed (simp add: track_refl)

end

end
