(* ===== verification/Fire_Ledger.thy ===== *)
theory Fire_Ledger
  imports Message_Queue
begin

text \<open>
  The ledger of the trigger fires (\<^verbatim>\<open>triggers/fireLedger.ts\<close>) and the daily purge of the events it no longer needs
  (\<^verbatim>\<open>triggers/fireRetention.ts\<close>).

  The table \<^verbatim>\<open>trigger_fires\<close> is the list of its rows in rowid order. A new row takes the highest rowid plus one,
  as SQLite does; the id is the primary key, and a pair of trigger and dedup key occurs once. The event of a fire
  stays the JSON text the table holds. The ledger promises that a fire never goes back to an earlier state and
  that a settled one stays as it is (the contract \<open>one_way\<close>); the purge empties exactly the events of the fires
  settled before its limit.
\<close>

section \<open>Fires\<close>

datatype ledger_state = Accepted | Attempted | Completed | Cancelled | NeedsReview

datatype fire_reason =
    Interrupted | Stale | Superseded | Batched | Disarmed | TargetUnavailable | TargetNotEligible | Cooldown | DailyCap
  | BreakerOpen | ChainDepth | ActionFailed

record trigger_fire =
  tf_id :: string
  tf_triggerId :: string
  tf_dedupKey :: string
  tf_ledgerState :: ledger_state
  tf_firedAt :: instant
  tf_settledAt :: "instant option"
  tf_settleReason :: "fire_reason option"
  tf_runId :: "string option"
  tf_eventDigest :: "string option"
  tf_eventJson :: string
  tf_chainDepth :: nat

text \<open>A row has two columns a fire does not show.\<close>

record fire_row = trigger_fire +
  fr_rowid :: nat
  fr_effectStartedAt :: "instant option"

type_synonym fire_table = "fire_row list"

definition toFire :: "fire_row \<Rightarrow> trigger_fire" where
  "toFire r = trigger_fire.truncate r"

definition STATES_THAT_REACHED_THE_EFFECT :: "ledger_state list" where
  "STATES_THAT_REACHED_THE_EFFECT = [Attempted, Completed, NeedsReview]"

definition FORGOTTEN_EVENT_JSON :: string where "FORGOTTEN_EVENT_JSON = [CHR 0x7B, CHR 0x7D]"

definition STATES_THAT_CAN_BE_FORGOTTEN :: "ledger_state list" where
  "STATES_THAT_CAN_BE_FORGOTTEN = [Completed, Cancelled]"

record fire_view =
  fv_id :: string
  fv_triggerId :: string
  fv_ledgerState :: ledger_state
  fv_firedAt :: instant
  fv_settledAt :: "instant option"
  fv_reason :: "fire_reason option"
  fv_runId :: "string option"
  fv_chainDepth :: nat

definition fireViewOf :: "trigger_fire \<Rightarrow> fire_view" where
  "fireViewOf f =
     \<lparr>fv_id = tf_id f, fv_triggerId = tf_triggerId f, fv_ledgerState = tf_ledgerState f, fv_firedAt = tf_firedAt f,
      fv_settledAt = tf_settledAt f, fv_reason = tf_settleReason f, fv_runId = tf_runId f, fv_chainDepth = tf_chainDepth f\<rparr>"

section \<open>The ledger\<close>

text \<open>An \<open>UPDATE\<close>: the rows a condition selects are changed; how many there were, and the table.\<close>

definition update_fires :: "(fire_row \<Rightarrow> bool) \<Rightarrow> (fire_row \<Rightarrow> fire_row) \<Rightarrow> fire_table \<Rightarrow> nat \<times> fire_table" where
  "update_fires P f t = (length (filter P t), map (\<lambda>r. if P r then f r else r) t)"

record accept_input =
  ai_id :: string
  ai_triggerId :: string
  ai_dedupKey :: string
  ai_firedAt :: instant
  ai_eventDigest :: string
  ai_eventJson :: string
  ai_chainDepth :: nat

definition accepted_row :: "accept_input \<Rightarrow> nat \<Rightarrow> fire_row" where
  "accepted_row i rowid =
     \<lparr>tf_id = ai_id i, tf_triggerId = ai_triggerId i, tf_dedupKey = ai_dedupKey i, tf_ledgerState = Accepted, tf_firedAt = ai_firedAt i,
      tf_settledAt = None, tf_settleReason = None, tf_runId = None, tf_eventDigest = Some (ai_eventDigest i), tf_eventJson = ai_eventJson i,
      tf_chainDepth = ai_chainDepth i, fr_rowid = rowid, fr_effectStartedAt = None\<rparr>"

definition next_rowid :: "fire_table \<Rightarrow> nat" where
  "next_rowid t = Suc (Max (set (0 # map fr_rowid t)))"

datatype ledger_error = FireIdTaken

definition get_row :: "string \<Rightarrow> fire_table \<Rightarrow> fire_row option" where
  "get_row i t = find (\<lambda>r. tf_id r = i) t"

definition get_fire :: "string \<Rightarrow> fire_table \<Rightarrow> trigger_fire option" where
  "get_fire i t = map_option toFire (get_row i t)"

definition getByDedupKey :: "string \<Rightarrow> string \<Rightarrow> fire_table \<Rightarrow> trigger_fire option" where
  "getByDedupKey trig key t = map_option toFire (find (\<lambda>r. tf_triggerId r = trig \<and> tf_dedupKey r = key) t)"

text \<open>Whether the fire is new, the fire, and the table. An id that is taken violates the primary key.\<close>

definition accept :: "accept_input \<Rightarrow> fire_table \<Rightarrow> ledger_error + (bool \<times> trigger_fire) \<times> fire_table" where
  "accept i t =
     (case getByDedupKey (ai_triggerId i) (ai_dedupKey i) t of
        Some f \<Rightarrow> Inr ((False, f), t)
      | None \<Rightarrow>
          if ai_id i \<in> set (map tf_id t) then Inl FireIdTaken
          else (let r = accepted_row i (next_rowid t) in Inr ((True, toFire r), t @ [r])))"

definition listOfTrigger :: "string \<Rightarrow> nat \<Rightarrow> ledger_state option \<Rightarrow> fire_table \<Rightarrow> trigger_fire list" where
  "listOfTrigger trig limit state t =
     map toFire (take limit (rev (sort_key tf_firedAt
       (filter (\<lambda>r. tf_triggerId r = trig \<and> (case state of None \<Rightarrow> True | Some s \<Rightarrow> tf_ledgerState r = s)) t))))"

definition listAccepted :: "fire_table \<Rightarrow> trigger_fire list" where
  "listAccepted t = map toFire (sort_key tf_firedAt (filter (\<lambda>r. tf_ledgerState r = Accepted) t))"

definition markAttempted :: "string \<Rightarrow> instant \<Rightarrow> fire_table \<Rightarrow> bool \<times> fire_table" where
  "markAttempted i effectStartedAt t =
     (let (n, t') = update_fires (\<lambda>r. tf_id r = i \<and> tf_ledgerState r = Accepted)
                      (\<lambda>r. r\<lparr>tf_ledgerState := Attempted, fr_effectStartedAt := Some effectStartedAt\<rparr>) t
      in (0 < n, t'))"

definition markCompleted :: "string \<Rightarrow> instant \<Rightarrow> string option \<Rightarrow> fire_table \<Rightarrow> fire_table" where
  "markCompleted i settledAt runId t =
     snd (update_fires (\<lambda>r. tf_id r = i \<and> tf_ledgerState r = Attempted)
       (\<lambda>r. r\<lparr>tf_ledgerState := Completed, tf_settledAt := Some settledAt, tf_runId := (case runId of None \<Rightarrow> tf_runId r | Some x \<Rightarrow> Some x)\<rparr>) t)"

definition markCancelled :: "string \<Rightarrow> instant \<Rightarrow> fire_reason \<Rightarrow> fire_table \<Rightarrow> fire_table" where
  "markCancelled i settledAt reason t =
     snd (update_fires (\<lambda>r. tf_id r = i \<and> tf_ledgerState r \<in> {Accepted, Attempted})
       (\<lambda>r. r\<lparr>tf_ledgerState := Cancelled, tf_settledAt := Some settledAt, tf_settleReason := Some reason\<rparr>) t)"

definition markInterruptedForReview :: "instant \<Rightarrow> fire_table \<Rightarrow> nat \<times> fire_table" where
  "markInterruptedForReview settledAt t =
     update_fires (\<lambda>r. tf_ledgerState r = Attempted)
       (\<lambda>r. r\<lparr>tf_ledgerState := NeedsReview, tf_settledAt := Some settledAt, tf_settleReason := Some Interrupted\<rparr>) t"

definition can_be_forgotten :: "instant \<Rightarrow> fire_row \<Rightarrow> bool" where
  "can_be_forgotten settledBefore r \<longleftrightarrow>
     tf_ledgerState r \<in> set STATES_THAT_CAN_BE_FORGOTTEN \<and> (case tf_settledAt r of None \<Rightarrow> False | Some at \<Rightarrow> at < settledBefore)
     \<and> tf_eventJson r \<noteq> FORGOTTEN_EVENT_JSON"

text \<open>The inner \<open>SELECT\<close>: the first rows, in rowid order, whose event can go.\<close>

definition due_rows :: "instant \<Rightarrow> nat \<Rightarrow> nat \<Rightarrow> fire_table \<Rightarrow> nat list" where
  "due_rows settledBefore afterRowid batchSize t =
     map fr_rowid (take batchSize (filter (\<lambda>r. afterRowid < fr_rowid r \<and> can_be_forgotten settledBefore r) t))"

definition forget_rows :: "nat list \<Rightarrow> fire_table \<Rightarrow> fire_table" where
  "forget_rows rows t = snd (update_fires (\<lambda>r. fr_rowid r \<in> set rows) (\<lambda>r. r\<lparr>tf_eventJson := FORGOTTEN_EVENT_JSON\<rparr>) t)"

text \<open>How many events were emptied, the last row emptied, and the table.\<close>

definition forgetSettledEvents :: "instant \<Rightarrow> nat \<Rightarrow> nat \<Rightarrow> fire_table \<Rightarrow> nat \<times> nat \<times> fire_table" where
  "forgetSettledEvents settledBefore afterRowid batchSize t =
     (let rows = due_rows settledBefore afterRowid batchSize t
      in (length rows, fold max rows afterRowid, forget_rows rows t))"

definition reached_effect :: "fire_row \<Rightarrow> bool" where
  "reached_effect r \<longleftrightarrow> tf_ledgerState r \<in> set STATES_THAT_REACHED_THE_EFFECT"

definition countEffectsStartedBetween :: "string \<Rightarrow> instant \<Rightarrow> instant \<Rightarrow> string \<Rightarrow> fire_table \<Rightarrow> nat" where
  "countEffectsStartedBetween trig from until exceptId t =
     length (filter (\<lambda>r. tf_triggerId r = trig \<and> (case fr_effectStartedAt r of None \<Rightarrow> False | Some at \<Rightarrow> from \<le> at \<and> at < until)
                       \<and> tf_id r \<noteq> exceptId \<and> reached_effect r) t)"

definition latestReachedEffectAt :: "string \<Rightarrow> string \<Rightarrow> fire_table \<Rightarrow> instant option" where
  "latestReachedEffectAt trig exceptId t =
     (case map (\<lambda>r. opt_default (tf_firedAt r) (tf_settledAt r)) (filter (\<lambda>r. tf_triggerId r = trig \<and> tf_id r \<noteq> exceptId \<and> reached_effect r) t) of
        [] \<Rightarrow> None
      | at # ats \<Rightarrow> Some (fold max ats at))"

definition listAcceptedOf :: "string \<Rightarrow> fire_table \<Rightarrow> trigger_fire list" where
  "listAcceptedOf trig t = map toFire (sort_key tf_firedAt (filter (\<lambda>r. tf_triggerId r = trig \<and> tf_ledgerState r = Accepted) t))"

text \<open>The join with the message queue: the message of a fire carries the id of the fire.\<close>

definition messages_of_fires :: "fire_table \<Rightarrow> message_table \<Rightarrow> (fire_row \<times> queued_message) list" where
  "messages_of_fires t msgs = [(f, m). f \<leftarrow> t, m \<leftarrow> msgs, qm_id m = tf_id f]"

definition causesOf :: "string list \<Rightarrow> instant \<Rightarrow> instant \<Rightarrow> fire_table \<Rightarrow> message_table \<Rightarrow> (string \<times> nat) list" where
  "causesOf sessionIds since until t msgs =
     (if sessionIds = [] then []
      else remdups (map (\<lambda>(f, m). (tf_triggerId f, tf_chainDepth f))
             (filter (\<lambda>(f, m). qm_sessionId m \<in> set sessionIds \<and> since \<le> qm_createdAt m \<and> qm_createdAt m \<le> until \<and> reached_effect f)
               (messages_of_fires t msgs))))"

definition deepestChainMessagedSince :: "string list \<Rightarrow> instant \<Rightarrow> fire_table \<Rightarrow> message_table \<Rightarrow> nat" where
  "deepestChainMessagedSince sessionIds since t msgs =
     (if sessionIds = [] then 0
      else fold max (map (\<lambda>(f, m). tf_chainDepth f)
             (filter (\<lambda>(f, m). qm_sessionId m \<in> set sessionIds \<and> since \<le> tf_firedAt f \<and> reached_effect f) (messages_of_fires t msgs))) 0)"

section \<open>The purge\<close>

definition FIRE_PRUNE_BATCH_SIZE :: nat where "FIRE_PRUNE_BATCH_SIZE = 1000"
definition MILLISECONDS_PER_DAY :: nat where "MILLISECONDS_PER_DAY = 24 * 60 * 60 * 1000"
definition DEFAULT_FIRE_RETENTION_DAYS :: nat where "DEFAULT_FIRE_RETENTION_DAYS = 90"

record prune_report =
  pr_forgotten :: nat
  pr_batches :: nat

definition forgettable :: "instant \<Rightarrow> fire_table \<Rightarrow> nat" where
  "forgettable settledBefore t = length (filter (can_be_forgotten settledBefore) t)"

lemma forgotten_not_forgettable [simp]: "\<not> can_be_forgotten b (r\<lparr>tf_eventJson := FORGOTTEN_EVENT_JSON\<rparr>)"
  by (simp add: can_be_forgotten_def)

lemma filter_take_all: "\<forall>x \<in> set (take k xs). P x \<Longrightarrow> length (take k xs) \<le> length (filter P xs)"
proof -
  assume all: "\<forall>x \<in> set (take k xs). P x"
  have "length (filter P xs) = length (filter P (take k xs)) + length (filter P (drop k xs))"
    by (metis append_take_drop_id filter_append length_append)
  moreover have "filter P (take k xs) = take k xs" using all by (simp add: filter_id_conv)
  ultimately show ?thesis by simp
qed

lemma forgettable_split:
  "forgettable b t = length (filter (\<lambda>r. can_be_forgotten b r \<and> P r) t) + length (filter (\<lambda>r. can_be_forgotten b r \<and> \<not> P r) t)"
  unfolding forgettable_def by (induction t) auto

lemma forgettable_rest: "forgettable b (forget_rows rows t) = length (filter (\<lambda>r. can_be_forgotten b r \<and> fr_rowid r \<notin> set rows) t)"
  unfolding forgettable_def forget_rows_def update_fires_def by (induction t) auto

lemma due_rows_forgettable:
  "length (due_rows b a k t) \<le> length (filter (\<lambda>r. can_be_forgotten b r \<and> fr_rowid r \<in> set (due_rows b a k t)) t)"
proof -
  let ?due = "filter (\<lambda>r. a < fr_rowid r \<and> can_be_forgotten b r) t" and ?rows = "set (due_rows b a k t)"
  have "length (due_rows b a k t) \<le> length (filter (\<lambda>r. fr_rowid r \<in> ?rows) ?due)"
    using filter_take_all [of k ?due "\<lambda>r. fr_rowid r \<in> ?rows"] by (simp add: due_rows_def)
  also have "\<dots> \<le> length (filter (\<lambda>r. can_be_forgotten b r \<and> fr_rowid r \<in> ?rows) t)"
    unfolding filter_filter by (rule length_filter_mono) blast
  finally show ?thesis .
qed

lemma forgettable_after_forgetting:
  assumes "forgetSettledEvents b a k t = (n, l, t')"
  shows "forgettable b t' + n \<le> forgettable b t"
proof -
  have parts: "n = length (due_rows b a k t)" "t' = forget_rows (due_rows b a k t) t"
    using assms by (auto simp: forgetSettledEvents_def Let_def)
  show ?thesis
    unfolding parts using forgettable_rest [of b "due_rows b a k t" t] due_rows_forgettable [of b a k t]
      forgettable_split [of b t "\<lambda>r. fr_rowid r \<in> set (due_rows b a k t)"] by linarith
qed

text \<open>The loop of \<open>forgetOldEvents\<close>; \<open>isStopped n\<close> says whether the purge was stopped once \<open>n\<close> batches were done. It always
  ends: a full batch leaves a thousand events fewer.\<close>

function prune_loop :: "instant \<Rightarrow> (nat \<Rightarrow> bool) \<Rightarrow> nat \<Rightarrow> prune_report \<Rightarrow> fire_table \<Rightarrow> prune_report \<times> fire_table" where
  "prune_loop settledBefore isStopped afterRowid report t =
     (if isStopped (pr_batches report) then (report, t)
      else (let (forgotten, lastRowid, t') = forgetSettledEvents settledBefore afterRowid FIRE_PRUNE_BATCH_SIZE t;
                report' = \<lparr>pr_forgotten = pr_forgotten report + forgotten, pr_batches = pr_batches report + 1\<rparr>
            in if forgotten < FIRE_PRUNE_BATCH_SIZE then (report', t')
               else prune_loop settledBefore isStopped lastRowid report' t'))"
  by pat_completeness auto
termination
proof (relation "measure (\<lambda>(b, _, _, _, t). forgettable b t)", goal_cases)
  case (2 b isStopped a report t x forgotten y lastRowid t' report')
  have "forgettable b t' + forgotten \<le> forgettable b t"
    by (rule forgettable_after_forgetting [of b a FIRE_PRUNE_BATCH_SIZE t forgotten lastRowid t']) (use 2 in simp)
  with 2 show ?case by (simp add: FIRE_PRUNE_BATCH_SIZE_def)
qed simp

declare prune_loop.simps [simp del]

definition forgetOldEvents :: "instant \<Rightarrow> nat \<Rightarrow> (nat \<Rightarrow> bool) \<Rightarrow> fire_table \<Rightarrow> prune_report \<times> fire_table" where
  "forgetOldEvents now retentionDays isStopped t =
     prune_loop (now - retentionDays * MILLISECONDS_PER_DAY) isStopped 0 \<lparr>pr_forgotten = 0, pr_batches = 0\<rparr> t"

section \<open>What the ledger promises\<close>

definition ledger_ok :: "fire_table \<Rightarrow> bool" where
  "ledger_ok t \<longleftrightarrow>
     distinct (map tf_id t) \<and> distinct (map (\<lambda>r. (tf_triggerId r, tf_dedupKey r)) t) \<and>
     sorted_wrt (<) (map fr_rowid t) \<and> list_all (\<lambda>r. 0 < fr_rowid r) t"

datatype ledger_op =
    OpAccept accept_input
  | OpAttempted string instant
  | OpCompleted string instant "string option"
  | OpCancelled string instant fire_reason
  | OpInterrupted instant
  | OpForget instant nat nat

fun ledger_step :: "ledger_op \<Rightarrow> fire_table \<Rightarrow> fire_table" where
  "ledger_step (OpAccept i) t = (case accept i t of Inl _ \<Rightarrow> t | Inr (_, t') \<Rightarrow> t')"
| "ledger_step (OpAttempted i at) t = snd (markAttempted i at t)"
| "ledger_step (OpCompleted i at runId) t = markCompleted i at runId t"
| "ledger_step (OpCancelled i at reason) t = markCancelled i at reason t"
| "ledger_step (OpInterrupted at) t = snd (markInterruptedForReview at t)"
| "ledger_step (OpForget settledBefore afterRowid batchSize) t = snd (snd (forgetSettledEvents settledBefore afterRowid batchSize t))"

lemmas ledger_update_defs = markAttempted_def markCompleted_def markCancelled_def markInterruptedForReview_def forgetSettledEvents_def
  forget_rows_def update_fires_def Let_def split_beta

text \<open>What an update that is not an insertion keeps of every row.\<close>

definition keeps_keys :: "(fire_row \<Rightarrow> fire_row) \<Rightarrow> bool" where
  "keeps_keys f \<longleftrightarrow> (\<forall>r. tf_id (f r) = tf_id r \<and> tf_triggerId (f r) = tf_triggerId r \<and> tf_dedupKey (f r) = tf_dedupKey r \<and> fr_rowid (f r) = fr_rowid r)"

lemma ledger_ok_map: "keeps_keys f \<Longrightarrow> ledger_ok (map f t) = ledger_ok t"
  by (simp add: ledger_ok_def keeps_keys_def comp_def list_all_iff)

lemma update_keeps: "keeps_keys f \<Longrightarrow> \<exists>g. keeps_keys g \<and> snd (update_fires P f t) = map g t"
  by (rule exI [of _ "\<lambda>r. if P r then f r else r"]) (simp add: keeps_keys_def update_fires_def)

lemma step_is_update:
  "(\<exists>i. op = OpAccept i) \<or> (\<exists>f. keeps_keys f \<and> ledger_step op t = map f t)"
proof (cases op)
  case (OpForget b a k)
  then show ?thesis by (simp add: forgetSettledEvents_def Let_def forget_rows_def) (rule update_keeps, simp add: keeps_keys_def)
qed (simp_all add: markAttempted_def markCompleted_def markCancelled_def markInterruptedForReview_def split_beta,
     (rule update_keeps, simp add: keeps_keys_def)+)

lemma rowids_below_next: "r \<in> set t \<Longrightarrow> fr_rowid r < next_rowid t"
  by (auto simp: next_rowid_def less_Suc_eq_le intro!: Max_ge)

lemma find_None_map: "find P xs = None \<longleftrightarrow> (\<forall>x \<in> set xs. \<not> P x)"
  by (auto simp: find_None_iff)

lemma accept_cases:
  obtains (duplicate) f where "accept i t = Inr ((False, f), t)" "getByDedupKey (ai_triggerId i) (ai_dedupKey i) t = Some f"
  | (taken) "accept i t = Inl FireIdTaken" "ai_id i \<in> set (map tf_id t)"
  | (inserted) "accept i t = Inr ((True, toFire (accepted_row i (next_rowid t))), t @ [accepted_row i (next_rowid t)])"
      "getByDedupKey (ai_triggerId i) (ai_dedupKey i) t = None" "ai_id i \<notin> set (map tf_id t)"
  by (cases "getByDedupKey (ai_triggerId i) (ai_dedupKey i) t"; cases "ai_id i \<in> set (map tf_id t)") (auto simp: accept_def Let_def)

lemma ledger_ok_accept: "ledger_ok t \<Longrightarrow> ledger_ok (ledger_step (OpAccept i) t)"
proof (cases rule: accept_cases [of i t])
  case inserted
  assume "ledger_ok t"
  moreover have "0 < next_rowid t" by (simp add: next_rowid_def)
  ultimately show ?thesis using inserted rowids_below_next [of _ t]
    by (auto simp: ledger_ok_def accepted_row_def sorted_wrt_append getByDedupKey_def find_None_map)
qed simp_all

lemma ledger_ok_step: "ledger_ok t \<Longrightarrow> ledger_ok (ledger_step op t)"
  using step_is_update [of op t] ledger_ok_accept ledger_ok_map by metis

text \<open>How far a fire got: its state, when and why it settled, and its run.\<close>

type_synonym fire_status = "ledger_state \<times> instant option \<times> fire_reason option \<times> string option"

definition status_of :: "fire_row \<Rightarrow> fire_status" where
  "status_of r = (tf_ledgerState r, tf_settledAt r, tf_settleReason r, tf_runId r)"

definition fire_status :: "fire_table \<Rightarrow> string \<Rightarrow> fire_status option" where
  "fire_status t i = map_option status_of (get_row i t)"

fun state_rank :: "ledger_state \<Rightarrow> nat" where
  "state_rank Accepted = 0"
| "state_rank Attempted = 1"
| "state_rank _ = 2"

lemma get_row_map: "(\<And>r. tf_id (f r) = tf_id r) \<Longrightarrow> get_row i (map f t) = map_option f (get_row i t)"
  by (induction t) (auto simp: get_row_def)

lemma get_row_append: "get_row i t = Some r \<Longrightarrow> get_row i (t @ u) = Some r"
  by (induction t) (auto simp: get_row_def split: if_splits)

lemma status_step:
  assumes "get_row i t = Some r"
  shows "\<exists>r'. get_row i (ledger_step op t) = Some r' \<and> state_rank (tf_ledgerState r) \<le> state_rank (tf_ledgerState r')
       \<and> (2 \<le> state_rank (tf_ledgerState r) \<longrightarrow> status_of r' = status_of r)"
proof (cases op)
  case (OpAccept x)
  then show ?thesis using assms by (cases rule: accept_cases [of x t]) (auto simp: get_row_append)
qed (use assms in \<open>cases "tf_ledgerState r"; simp add: ledger_update_defs get_row_map status_of_def\<close>)+

interpretation ledger: one_way fire_status "state_rank \<circ> fst" ledger_step 2
proof
  fix t k e op
  assume "fire_status t k = Some e"
  then obtain r where r: "get_row k t = Some r" "e = status_of r" by (auto simp: fire_status_def)
  from status_step [OF r(1), of op] obtain r' where r': "get_row k (ledger_step op t) = Some r'"
    "state_rank (tf_ledgerState r) \<le> state_rank (tf_ledgerState r')" "2 \<le> state_rank (tf_ledgerState r) \<Longrightarrow> status_of r' = status_of r" by blast
  show "\<exists>e'. fire_status (ledger_step op t) k = Some e' \<and> (state_rank \<circ> fst) e \<le> (state_rank \<circ> fst) e'"
    using r r' by (auto simp: fire_status_def status_of_def)
  show "fire_status (ledger_step op t) k = Some e" if "2 \<le> (state_rank \<circ> fst) e"
    using r r' that by (auto simp: fire_status_def status_of_def)
qed

section \<open>What the purge does\<close>

definition forgotten_row :: "instant \<Rightarrow> fire_row \<Rightarrow> fire_row" where
  "forgotten_row b r = (if can_be_forgotten b r then r\<lparr>tf_eventJson := FORGOTTEN_EVENT_JSON\<rparr> else r)"

text \<open>The rows a purge still has to look at lie behind its cursor.\<close>

definition cursor_ok :: "instant \<Rightarrow> nat \<Rightarrow> fire_table \<Rightarrow> bool" where
  "cursor_ok b a t \<longleftrightarrow> sorted_wrt (<) (map fr_rowid t) \<and> (\<forall>r \<in> set t. can_be_forgotten b r \<longrightarrow> a < fr_rowid r)"

lemma due_rows_cursor: "cursor_ok b a t \<Longrightarrow> due_rows b a k t = map fr_rowid (take k (filter (can_be_forgotten b) t))"
proof -
  assume "cursor_ok b a t"
  then have "filter (\<lambda>r. a < fr_rowid r \<and> can_be_forgotten b r) t = filter (can_be_forgotten b) t"
    by (intro filter_cong) (auto simp: cursor_ok_def)
  then show ?thesis by (simp add: due_rows_def)
qed

lemma rowid_inj: "sorted_wrt (<) (map fr_rowid t) \<Longrightarrow> r \<in> set t \<Longrightarrow> r' \<in> set t \<Longrightarrow> fr_rowid r = fr_rowid r' \<Longrightarrow> r = r'"
  by (meson distinct_map inj_onD strict_sorted_iff strict_sorted_imp_sorted sorted_wrt_map)

lemma forget_all_due:
  assumes "sorted_wrt (<) (map fr_rowid t)"
  shows "forget_rows (map fr_rowid (filter (can_be_forgotten b) t)) t = map (forgotten_row b) t"
proof -
  have "fr_rowid r \<in> fr_rowid ` set (filter (can_be_forgotten b) t) \<longleftrightarrow> can_be_forgotten b r" if "r \<in> set t" for r
    using that rowid_inj [OF assms that] by auto
  then show ?thesis by (simp add: forget_rows_def update_fires_def forgotten_row_def)
qed

lemma forgotten_row_forget_rows: "map (forgotten_row b) (forget_rows (due_rows b a k t) t) = map (forgotten_row b) t"
  if "sorted_wrt (<) (map fr_rowid t)"
proof -
  have "can_be_forgotten b r" if r: "r \<in> set t" "fr_rowid r \<in> set (due_rows b a k t)" for r
  proof -
    from r(2) obtain r' where "r' \<in> set (take k (filter (\<lambda>r. a < fr_rowid r \<and> can_be_forgotten b r) t))" "fr_rowid r' = fr_rowid r"
      unfolding due_rows_def by auto
    then have "r' \<in> set t" "can_be_forgotten b r'" "fr_rowid r' = fr_rowid r" by (auto dest: in_set_takeD)
    then show ?thesis using rowid_inj [OF \<open>sorted_wrt (<) (map fr_rowid t)\<close> _ r(1)] by blast
  qed
  then show ?thesis by (auto simp: forget_rows_def update_fires_def forgotten_row_def)
qed

lemma filter_forget_rows: "filter (can_be_forgotten b) (forget_rows rows t) = filter (\<lambda>r. fr_rowid r \<notin> set rows) (filter (can_be_forgotten b) t)"
  unfolding forget_rows_def update_fires_def snd_conv by (induction t) auto

lemma forgettable_rows_rest:
  assumes "cursor_ok b a t"
  shows "filter (can_be_forgotten b) (forget_rows (due_rows b a k t) t) = drop k (filter (can_be_forgotten b) t)"
proof -
  let ?D = "filter (can_be_forgotten b) t" and ?rows = "due_rows b a k t"
  have "sorted_wrt (<) (map fr_rowid t)" using assms by (simp add: cursor_ok_def)
  then have "distinct (map fr_rowid ?D)" by (intro distinct_map_filter) (simp add: strict_sorted_iff)
  have "filter (can_be_forgotten b) (forget_rows ?rows t) = filter (\<lambda>r. fr_rowid r \<notin> set ?rows) ?D"
    by (rule filter_forget_rows)
  also have "\<dots> = drop k ?D"
    using filter_drop_taken [OF \<open>distinct (map fr_rowid ?D)\<close>, of k] by (simp add: due_rows_cursor [OF assms])
  finally show ?thesis .
qed

lemma fold_max_less: "a < (y :: nat) \<Longrightarrow> \<forall>x \<in> set xs. x < y \<Longrightarrow> fold max xs a < y"
  by (induction xs arbitrary: a) auto

lemma cursor_moves:
  assumes "cursor_ok b a t"
  shows "cursor_ok b (fold max (due_rows b a k t) a) (forget_rows (due_rows b a k t) t)"
proof -
  let ?D = "filter (can_be_forgotten b) t" and ?t = "forget_rows (due_rows b a k t) t"
  have rowids: "map fr_rowid ?t = map fr_rowid t" by (auto simp: forget_rows_def update_fires_def)
  have "sorted_wrt (<) (map fr_rowid ?D)" using assms unfolding cursor_ok_def sorted_wrt_map by (simp add: sorted_wrt_filter)
  then have "sorted_wrt (<) (map fr_rowid (take k ?D @ drop k ?D))" by simp
  then have sorted: "\<forall>x \<in> set (take k ?D). \<forall>y \<in> set (drop k ?D). fr_rowid x < fr_rowid y"
    unfolding map_append sorted_wrt_append by simp
  have "fold max (due_rows b a k t) a < fr_rowid r" if "r \<in> set ?t" "can_be_forgotten b r" for r
  proof -
    have "r \<in> set (filter (can_be_forgotten b) ?t)" using that by simp
    then have "r \<in> set (drop k ?D)" unfolding forgettable_rows_rest [OF assms] .
    moreover from this have "a < fr_rowid r" using assms by (auto simp: cursor_ok_def dest: in_set_dropD)
    ultimately show ?thesis using sorted by (intro fold_max_less) (auto simp: due_rows_cursor [OF assms])
  qed
  then show ?thesis using assms rowids by (simp add: cursor_ok_def)
qed

lemma prune_loop_exact:
  assumes "cursor_ok b a t"
  shows "prune_loop b (\<lambda>_. False) a report t =
    (\<lparr>pr_forgotten = pr_forgotten report + forgettable b t, pr_batches = pr_batches report + forgettable b t div 1000 + 1\<rparr>,
     map (forgotten_row b) t)"
  using assms
proof (induction "forgettable b t" arbitrary: a report t rule: less_induct)
  case less
  let ?rows = "due_rows b a 1000 t" and ?D = "filter (can_be_forgotten b) t"
  have sorted: "sorted_wrt (<) (map fr_rowid t)" using less.prems by (simp add: cursor_ok_def)
  have step: "forgetSettledEvents b a FIRE_PRUNE_BATCH_SIZE t = (length ?rows, fold max ?rows a, forget_rows ?rows t)"
    by (simp add: forgetSettledEvents_def FIRE_PRUNE_BATCH_SIZE_def Let_def)
  have rows: "length ?rows = min 1000 (forgettable b t)" by (simp add: due_rows_cursor [OF less.prems] forgettable_def min.commute)
  show ?case
  proof (cases "forgettable b t < 1000")
    case True
    then have "?rows = map fr_rowid ?D" by (simp add: due_rows_cursor [OF less.prems] forgettable_def)
    then show ?thesis using True rows step by (subst prune_loop.simps) (simp add: FIRE_PRUNE_BATCH_SIZE_def forget_all_due [OF sorted] Let_def)
  next
    case False
    let ?t = "forget_rows ?rows t"
    have rest: "forgettable b ?t = forgettable b t - 1000" using forgettable_rows_rest [OF less.prems, of 1000] by (simp add: forgettable_def)
    have "forgettable b t div 1000 = (forgettable b t - 1000) div 1000 + 1" using False by (simp add: le_div_geq)
    then show ?thesis
      using False rows step rest less.hyps [OF _ cursor_moves [OF less.prems, of 1000]] forgotten_row_forget_rows [OF sorted]
      by (subst prune_loop.simps) (simp add: FIRE_PRUNE_BATCH_SIZE_def Let_def)
  qed
qed

section \<open>Effects\<close>

definition fire_key :: "fire_row \<Rightarrow> string \<times> string" where
  "fire_key r = (tf_triggerId r, tf_dedupKey r)"

text \<open>The keys (trigger and dedup key) of the fires whose effect starts over a sequence of operations of the ledger: an effect
  starts only when \<open>markAttempted\<close> answers true.\<close>

definition started_by :: "ledger_op \<Rightarrow> fire_table \<Rightarrow> (string \<times> string) list" where
  "started_by op t =
     (case op of
        OpAttempted i at \<Rightarrow> if fst (markAttempted i at t) then map fire_key (filter (\<lambda>r. tf_id r = i \<and> tf_ledgerState r = Accepted) t) else []
      | _ \<Rightarrow> [])"

fun starts :: "ledger_op list \<Rightarrow> fire_table \<Rightarrow> (string \<times> string) list" where
  "starts [] t = []"
| "starts (op # ops) t = started_by op t @ starts ops (ledger_step op t)"

lemma row_updated: "r \<in> set t \<Longrightarrow> Q (if P r then f r else r) \<Longrightarrow> \<exists>r' \<in> set (snd (update_fires P f t)). Q r'"
  by (rule bexI [of _ "if P r then f r else r"]) (auto simp: update_fires_def)

lemma row_step:
  assumes "r \<in> set t"
  shows "\<exists>r' \<in> set (ledger_step op t). fire_key r' = fire_key r \<and> state_rank (tf_ledgerState r) \<le> state_rank (tf_ledgerState r')"
proof (cases op)
  case (OpAccept x)
  then show ?thesis using assms by (cases rule: accept_cases [of x t]) auto
qed (simp_all add: markAttempted_def markCompleted_def markCancelled_def markInterruptedForReview_def forgetSettledEvents_def forget_rows_def Let_def split_beta,
     (rule row_updated [OF assms], auto simp: fire_key_def)+)

lemma started_row: "k \<in> set (started_by op t) \<Longrightarrow> \<exists>r \<in> set t. fire_key r = k \<and> tf_ledgerState r = Accepted"
  by (auto simp: started_by_def split: ledger_op.splits if_splits)

lemma fire_key_unique: "ledger_ok t \<Longrightarrow> r \<in> set t \<Longrightarrow> r' \<in> set t \<Longrightarrow> fire_key r = fire_key r' \<Longrightarrow> r = r'"
proof -
  assume "ledger_ok t" "r \<in> set t" "r' \<in> set t" "fire_key r = fire_key r'"
  moreover from this(1) have "inj_on fire_key (set t)" by (simp add: ledger_ok_def fire_key_def [abs_def] distinct_map)
  ultimately show "r = r'" by (simp add: inj_onD)
qed

lemma started_never_again:
  "ledger_ok t \<Longrightarrow> r \<in> set t \<Longrightarrow> fire_key r = k \<Longrightarrow> tf_ledgerState r \<noteq> Accepted \<Longrightarrow> k \<notin> set (starts ops t)"
proof (induction ops arbitrary: t r)
  case (Cons op ops)
  have "k \<notin> set (started_by op t)" using started_row fire_key_unique Cons.prems by metis
  moreover obtain r' where "r' \<in> set (ledger_step op t)" "fire_key r' = k" "state_rank (tf_ledgerState r) \<le> state_rank (tf_ledgerState r')"
    using row_step [OF Cons.prems(2)] Cons.prems(3) by blast
  moreover from this(3) Cons.prems(4) have "tf_ledgerState r' \<noteq> Accepted" by (cases "tf_ledgerState r") auto
  ultimately show ?case using Cons.IH [OF ledger_ok_step [OF Cons.prems(1)]] by simp
qed simp

lemma started_once_by: "ledger_ok t \<Longrightarrow> distinct (started_by op t)"
proof (cases op)
  case (OpAttempted i at)
  assume "ledger_ok t"
  then have "distinct (map fire_key t)" by (simp add: ledger_ok_def fire_key_def [abs_def])
  then show ?thesis using OpAttempted by (simp add: started_by_def distinct_map_filter)
qed (simp_all add: started_by_def)

lemma started_leaves_accepted:
  assumes "k \<in> set (started_by op t)"
  shows "\<exists>r \<in> set (ledger_step op t). fire_key r = k \<and> tf_ledgerState r \<noteq> Accepted"
proof (cases op)
  case (OpAttempted i at)
  with assms obtain r where "r \<in> set t" "fire_key r = k" "tf_id r = i" "tf_ledgerState r = Accepted"
    by (auto simp: started_by_def split: if_splits)
  then show ?thesis unfolding OpAttempted ledger_step.simps markAttempted_def split_beta Let_def snd_conv
    by (intro row_updated) (auto simp: fire_key_def)
qed (use assms in \<open>simp_all add: started_by_def\<close>)

lemma starts_distinct: "ledger_ok t \<Longrightarrow> distinct (starts ops t)"
proof (induction ops arbitrary: t)
  case (Cons op ops)
  have ok: "ledger_ok (ledger_step op t)" using Cons.prems by (rule ledger_ok_step)
  have "k \<notin> set (starts ops (ledger_step op t))" if "k \<in> set (started_by op t)" for k
    using started_leaves_accepted [OF that] started_never_again [OF ok] by blast
  then show ?case using Cons.IH [OF ok] started_once_by [OF Cons.prems] by auto
qed simp

section \<open>Properties\<close>

definition example_input :: "string \<Rightarrow> string \<Rightarrow> accept_input" where
  "example_input i key = \<lparr>ai_id = i, ai_triggerId = ''t1'', ai_dedupKey = key, ai_firedAt = 5, ai_eventDigest = ''d'', ai_eventJson = ''event'', ai_chainDepth = 1\<rparr>"

definition example_ledger :: fire_table where
  "example_ledger = [accepted_row (example_input ''f1'' ''k1'') 1, (accepted_row (example_input ''f2'' ''k2'') 2)\<lparr>tf_ledgerState := Cancelled, tf_settledAt := Some 7\<rparr>]"

text \<open>C11: A settled fire stays as it is: once a fire is completed, cancelled or set aside for a review, no sequence of operations
  changes its state, the moment and the reason it settled, or its run; so a fire that was interrupted never runs
  again.\<close>

theorem settled_fire_stays:
  assumes "fire_status t i = Some (s, settled, reason, run)" "s \<in> {Completed, Cancelled, NeedsReview}"
  shows "fire_status (fold ledger_step ops t) i = Some (s, settled, reason, run)"
  using ledger.run_final_stays [OF assms(1)] assms(2) by auto

theorem settled_fire_stays_witness:
  "fire_status (fold ledger_step [OpAttempted ''f2'' 8, OpAccept (example_input ''f3'' ''k2''), OpForget 100 0 10] example_ledger) ''f2'' = Some (Cancelled, Some 7, None, None)"
  by (rule settled_fire_stays)
    (simp_all add: fire_status_def get_row_def status_of_def example_ledger_def accepted_row_def example_input_def)

text \<open>C15: The purge does exactly what it says and ends: run to its end on a sound ledger, it empties the event of each completed or
  cancelled fire that settled before its limit, touches nothing else, reports how many events it emptied, and
  takes one batch more than the full thousands among them.\<close>

theorem purge_forgets_exactly:
  assumes "ledger_ok t"
  shows "forgetOldEvents now days (\<lambda>_. False) t =
    (let b = now - days * MILLISECONDS_PER_DAY
     in (\<lparr>pr_forgotten = forgettable b t, pr_batches = forgettable b t div 1000 + 1\<rparr>, map (forgotten_row b) t))"
proof -
  have "cursor_ok (now - days * MILLISECONDS_PER_DAY) 0 t" using assms by (auto simp: cursor_ok_def ledger_ok_def list_all_iff)
  from prune_loop_exact [OF this] show ?thesis by (simp add: forgetOldEvents_def Let_def)
qed

theorem purge_forgets_exactly_witness:
  "fst (forgetOldEvents (MILLISECONDS_PER_DAY + 8) 1 (\<lambda>_. False) example_ledger) = \<lparr>pr_forgotten = 1, pr_batches = 1\<rparr>"
proof -
  have "ledger_ok example_ledger" by (simp add: ledger_ok_def example_ledger_def accepted_row_def example_input_def)
  from purge_forgets_exactly [OF this, of "MILLISECONDS_PER_DAY + 8" 1] show ?thesis
    by (simp add: Let_def forgettable_def can_be_forgotten_def example_ledger_def accepted_row_def example_input_def
        STATES_THAT_CAN_BE_FORGOTTEN_def FORGOTTEN_EVENT_JSON_def)
qed

end
