(* ===== verification/Kernel_Json.thy ===== *)
theory Kernel_Json
  imports Fleet_Prelude Complex_Main "HOL-Library.List_Lexorder"
begin

text \<open>
  The shared kernel of the triggers and the playbooks (\<^verbatim>\<open>playbooks/kernel/canonicalDigest.ts\<close>,
  \<^verbatim>\<open>dottedPath.ts\<close>, \<^verbatim>\<open>conditionEvaluator.ts\<close>): JSON values, their canonical text, the reading of a dotted path,
  and the conditions of a rule.

  A JSON value is what \<open>JSON.parse\<close> can return; every finite JavaScript number is a rational. An absent value
  (\<open>undefined\<close>) is \<open>None\<close>. How JavaScript writes a number (\<open>num\<close>) and the Unicode lower case of a text (\<open>lower\<close>) are
  arguments. The theorems: two values have the same canonical text exactly when they are equal up to the order of
  the members of their objects, and a rule holds exactly when one of its groups holds entirely.
\<close>

section \<open>Values\<close>

datatype json = JNull | JBool bool | JNum rat | JStr string | JArr "json list" | JObj "(string \<times> json) list"

datatype kernel_error = TooManyConditions | UnknownOperator | NotCanonicalJson

text \<open>The order of texts in JavaScript is the order of their UTF-16 code units. In UTF-8 it is the order of the bytes,
  except that the characters from U+E000 to U+FFFF (lead bytes EE and EF) come after the ones written as two units
  (lead bytes F0 to F4).\<close>

definition utf16_key :: "string \<Rightarrow> nat list" where
  "utf16_key s = map (\<lambda>c. let n = (of_char c :: nat) in if n = 238 \<or> n = 239 then n + 16 else if 240 \<le> n then n - 2 else n) s"

text \<open>\<open>traverse f\<close> applies a function that can fail to the elements of a list, in order, and stops at the first failure.\<close>

fun traverse :: "('a \<Rightarrow> 'e + 'b) \<Rightarrow> 'a list \<Rightarrow> 'e + 'b list" where
  "traverse f [] = Inr []"
| "traverse f (x # xs) =
     (case f x of Inl e \<Rightarrow> Inl e | Inr y \<Rightarrow> (case traverse f xs of Inl e \<Rightarrow> Inl e | Inr ys \<Rightarrow> Inr (y # ys)))"

lemma traverse_cong [fundef_cong]:
  "xs = ys \<Longrightarrow> (\<And>x. x \<in> set ys \<Longrightarrow> f x = g x) \<Longrightarrow> traverse f xs = traverse g ys"
proof (induction xs arbitrary: ys)
  case (Cons x xs)
  then show ?case by (cases ys) (auto split: sum.splits)
qed auto

lemma traverse_Inr: "traverse f xs = Inr ys \<longleftrightarrow> list_all2 (\<lambda>x y. f x = Inr y) xs ys"
proof (induction xs arbitrary: ys)
  case (Cons x xs)
  show ?case by (cases ys) (auto simp: Cons.IH [symmetric] split: sum.splits)
qed auto

lemma traverse_each: "traverse f xs = Inr ys \<Longrightarrow> x \<in> set xs \<Longrightarrow> \<exists>y. f x = Inr y"
  by (induction xs arbitrary: ys) (auto split: sum.splits)

lemma traverse_Inl_cause: "traverse f xs = Inl e \<Longrightarrow> \<exists>x \<in> set xs. f x = Inl e"
  by (induction xs) (auto split: sum.splits)

lemma traverse_total: "(\<And>x. x \<in> set xs \<Longrightarrow> f x = Inr (g x)) \<Longrightarrow> traverse f xs = Inr (map g xs)"
  by (induction xs) auto

section \<open>The canonical text\<close>

definition MAX_DEPTH :: nat where "MAX_DEPTH = 64"

definition hex_digit :: "nat \<Rightarrow> char" where "hex_digit n = ''0123456789abcdef'' ! n"

text \<open>\<open>JSON.stringify\<close> of a text.\<close>

definition escaped :: "char \<Rightarrow> string" where
  "escaped c =
     (let n = (of_char c :: nat)
      in if c = DQUOTE then [BACKSLASH, DQUOTE]
         else if c = BACKSLASH then [BACKSLASH, BACKSLASH]
         else if n = 8 then [BACKSLASH, CHR ''b'']
         else if n = 9 then [BACKSLASH, CHR ''t'']
         else if n = 10 then [BACKSLASH, CHR ''n'']
         else if n = 12 then [BACKSLASH, CHR ''f'']
         else if n = 13 then [BACKSLASH, CHR ''r'']
         else if n < 32 then [BACKSLASH, CHR ''u'', CHR ''0'', CHR ''0'', hex_digit (n div 16), hex_digit (n mod 16)]
         else [c])"

definition stringify_text :: "string \<Rightarrow> string" where
  "stringify_text s = DQUOTE # concat (map escaped s) @ [DQUOTE]"

definition stringify_bool :: "bool \<Rightarrow> string" where
  "stringify_bool b = (if b then ''true'' else ''false'')"

definition sorted_members :: "(string \<times> 'a) list \<Rightarrow> (string \<times> 'a) list" where
  "sorted_members ms = sort_key (utf16_key \<circ> fst) ms"

lemma set_sorted_members [simp]: "set (sorted_members ms) = set ms"
  by (simp add: sorted_members_def)

lemma member_size: "(k, v) \<in> set ms \<Longrightarrow> size v \<le> size_list (size_prod (\<lambda>x. 0) size) ms"
  by (induction ms) auto

text \<open>\<open>level\<close> counts the structures around the value, \<open>ancestors.size\<close> in the source.\<close>

function canonicalTextOf :: "(rat \<Rightarrow> string) \<Rightarrow> nat \<Rightarrow> json \<Rightarrow> kernel_error + string" where
  "canonicalTextOf num level JNull = Inr ''null''"
| "canonicalTextOf num level (JBool b) = Inr (stringify_bool b)"
| "canonicalTextOf num level (JNum n) = Inr (num n)"
| "canonicalTextOf num level (JStr s) = Inr (stringify_text s)"
| "canonicalTextOf num level (JArr xs) =
     (if MAX_DEPTH \<le> level then Inl NotCanonicalJson
      else (case traverse (canonicalTextOf num (Suc level)) xs of
              Inl e \<Rightarrow> Inl e
            | Inr ts \<Rightarrow> Inr (''['' @ join_with '','' ts @ '']'')))"
| "canonicalTextOf num level (JObj ms) =
     (if MAX_DEPTH \<le> level then Inl NotCanonicalJson
      else (case traverse (\<lambda>m. case canonicalTextOf num (Suc level) (snd m) of
                                 Inl e \<Rightarrow> Inl e
                               | Inr t \<Rightarrow> Inr (stringify_text (fst m) @ '':'' @ t)) (sorted_members ms) of
              Inl e \<Rightarrow> Inl e
            | Inr ts \<Rightarrow> Inr (CHR 0x7B # join_with '','' ts @ [CHR 0x7D])))"
  by pat_completeness auto
termination
proof (relation "measure (\<lambda>(num, level, v). size v)", goal_cases)
  case (3 num level ms m)
  then show ?case by (cases m) (auto simp: less_Suc_eq_le intro: member_size)
qed (auto simp: less_Suc_eq_le intro: size_list_estimation')

definition canonicalJsonOf :: "(rat \<Rightarrow> string) \<Rightarrow> json \<Rightarrow> kernel_error + string" where
  "canonicalJsonOf num v = canonicalTextOf num 0 v"

section \<open>Paths\<close>

text \<open>The own members of an array are its elements, under their index, and its length.\<close>

definition own_member :: "json \<Rightarrow> string \<Rightarrow> json option" where
  "own_member v segment =
     (case v of
        JObj ms \<Rightarrow> map_of ms segment
      | JArr xs \<Rightarrow>
          if segment = ''length'' then Some (JNum (of_nat (length xs)))
          else map_option snd (find (\<lambda>(i, x). nat_digits i = segment) (enumerate 0 xs))
      | _ \<Rightarrow> None)"

fun value_at :: "json \<Rightarrow> string list \<Rightarrow> json option" where
  "value_at current [] = Some current"
| "value_at current (segment # segments) =
     (case own_member current segment of None \<Rightarrow> None | Some v \<Rightarrow> value_at v segments)"

definition valueAtDottedPath :: "json \<Rightarrow> string \<Rightarrow> json option" where
  "valueAtDottedPath whole path = value_at whole (split_on (CHR ''.'') path)"

section \<open>Conditions\<close>

definition MAX_CONDITIONS :: nat where "MAX_CONDITIONS = 32"

datatype condition_join = JoinAnd | JoinOr

record condition =
  cd_path :: string
  cd_operator :: string
  cd_value :: "json option"
  cd_caseInsensitive :: "bool option"
  cd_join :: "condition_join option"

record comparison =
  cp_actual :: "json option"
  cp_expected :: "json option"
  cp_caseInsensitive :: bool

record js_text =
  jt_num :: "rat \<Rightarrow> string" \<comment> \<open>how a number is written\<close>
  jt_lower :: "string \<Rightarrow> string" \<comment> \<open>the lower case of a text\<close>

definition isPresent :: "json option \<Rightarrow> bool" where
  "isPresent v \<longleftrightarrow> v \<noteq> None \<and> v \<noteq> Some JNull"

definition folded_text :: "js_text \<Rightarrow> bool \<Rightarrow> string \<Rightarrow> string" where
  "folded_text js ci s = (if ci then jt_lower js s else s)"

definition foldedCase :: "js_text \<Rightarrow> bool \<Rightarrow> json option \<Rightarrow> json option" where
  "foldedCase js ci v = (case v of Some (JStr s) \<Rightarrow> Some (JStr (folded_text js ci s)) | _ \<Rightarrow> v)"

definition isJsonStructure :: "json option \<Rightarrow> bool" where
  "isJsonStructure v = (case v of Some (JArr _) \<Rightarrow> True | Some (JObj _) \<Rightarrow> True | _ \<Rightarrow> False)"

definition areEqual :: "js_text \<Rightarrow> comparison \<Rightarrow> kernel_error + bool" where
  "areEqual js c =
     (let a = foldedCase js (cp_caseInsensitive c) (cp_actual c);
          e = foldedCase js (cp_caseInsensitive c) (cp_expected c)
      in if isJsonStructure a \<and> isJsonStructure e
         then (case canonicalJsonOf (jt_num js) (the a) of
                 Inl err \<Rightarrow> Inl err
               | Inr ta \<Rightarrow> (case canonicalJsonOf (jt_num js) (the e) of Inl err \<Rightarrow> Inl err | Inr te \<Rightarrow> Inr (ta = te)))
         else Inr (\<not> isJsonStructure a \<and> a = e))"

text \<open>\<open>some\<close>: the first element that is equal ends the search.\<close>

fun some_equal :: "js_text \<Rightarrow> json option \<Rightarrow> bool \<Rightarrow> json list \<Rightarrow> kernel_error + bool" where
  "some_equal js expected ci [] = Inr False"
| "some_equal js expected ci (x # xs) =
     (case areEqual js \<lparr>cp_actual = Some x, cp_expected = expected, cp_caseInsensitive = ci\<rparr> of
        Inl e \<Rightarrow> Inl e
      | Inr b \<Rightarrow> if b then Inr True else some_equal js expected ci xs)"

definition on_strings :: "js_text \<Rightarrow> (string \<Rightarrow> string \<Rightarrow> bool) \<Rightarrow> comparison \<Rightarrow> bool" where
  "on_strings js compare c =
     (case (cp_actual c, cp_expected c) of
        (Some (JStr a), Some (JStr e)) \<Rightarrow> compare (folded_text js (cp_caseInsensitive c) a) (folded_text js (cp_caseInsensitive c) e)
      | _ \<Rightarrow> False)"

definition contains_value :: "js_text \<Rightarrow> comparison \<Rightarrow> kernel_error + bool" where
  "contains_value js c =
     (case cp_actual c of
        Some (JArr xs) \<Rightarrow> some_equal js (cp_expected c) (cp_caseInsensitive c) xs
      | _ \<Rightarrow> Inr (on_strings js text_includes c))"

definition ordering :: "js_text \<Rightarrow> (int \<Rightarrow> bool) \<Rightarrow> comparison \<Rightarrow> bool" where
  "ordering js accepts c =
     (case (cp_actual c, cp_expected c) of
        (Some (JNum a), Some (JNum e)) \<Rightarrow> accepts (if a < e then -1 else if a = e then 0 else 1)
      | (Some (JStr _), Some (JStr _)) \<Rightarrow>
          on_strings js (\<lambda>a e. accepts (if utf16_key a < utf16_key e then -1 else if utf16_key e < utf16_key a then 1 else 0)) c
      | _ \<Rightarrow> False)"

definition ends_with :: "string \<Rightarrow> string \<Rightarrow> bool" where
  "ends_with s p = starts_with (rev s) (rev p)"

definition OPERATOR_VERDICTS :: "js_text \<Rightarrow> (string \<times> (comparison \<Rightarrow> kernel_error + bool)) list" where
  "OPERATOR_VERDICTS js =
     [(''eq'', areEqual js),
      (''neq'', \<lambda>c. map_sum id Not (areEqual js c)),
      (''contains'', contains_value js),
      (''not_contains'', \<lambda>c. map_sum id Not (contains_value js c)),
      (''starts_with'', \<lambda>c. Inr (on_strings js starts_with c)),
      (''ends_with'', \<lambda>c. Inr (on_strings js ends_with c)),
      (''gt'', \<lambda>c. Inr (ordering js (\<lambda>position. position > 0) c)),
      (''gte'', \<lambda>c. Inr (ordering js (\<lambda>position. position \<ge> 0) c)),
      (''lt'', \<lambda>c. Inr (ordering js (\<lambda>position. position < 0) c)),
      (''lte'', \<lambda>c. Inr (ordering js (\<lambda>position. position \<le> 0) c)),
      (''exists'', \<lambda>c. Inr (isPresent (cp_actual c))),
      (''not_exists'', \<lambda>c. Inr (\<not> isPresent (cp_actual c)))]"

definition verdictOfCondition :: "js_text \<Rightarrow> json \<Rightarrow> condition \<Rightarrow> kernel_error + bool" where
  "verdictOfCondition js context c =
     (case map_of (OPERATOR_VERDICTS js) (cd_operator c) of
        None \<Rightarrow> Inl UnknownOperator
      | Some verdictOf \<Rightarrow>
          verdictOf \<lparr>cp_actual = valueAtDottedPath context (cd_path c), cp_expected = cd_value c,
                     cp_caseInsensitive = (cd_caseInsensitive c = Some True)\<rparr>)"

text \<open>The loop over the conditions: an \<open>or\<close> past the first condition opens a group, and each verdict goes into the last group.\<close>

fun grouped_verdicts :: "js_text \<Rightarrow> json \<Rightarrow> bool \<Rightarrow> bool list list \<Rightarrow> condition list \<Rightarrow> kernel_error + bool list list" where
  "grouped_verdicts js context first groups [] = Inr groups"
| "grouped_verdicts js context first groups (c # cs) =
     (let opened = (if \<not> first \<and> cd_join c = Some JoinOr then groups @ [[]] else groups)
      in case verdictOfCondition js context c of
           Inl e \<Rightarrow> Inl e
         | Inr b \<Rightarrow> grouped_verdicts js context False (butlast opened @ [last opened @ [b]]) cs)"

definition evaluateConditions :: "js_text \<Rightarrow> condition list \<Rightarrow> json \<Rightarrow> kernel_error + bool" where
  "evaluateConditions js cs context =
     (if MAX_CONDITIONS < length cs then Inl TooManyConditions
      else (case grouped_verdicts js context True [[]] cs of
              Inl e \<Rightarrow> Inl e
            | Inr groups \<Rightarrow> Inr (cs = [] \<or> list_ex (list_all (\<lambda>b. b)) groups)))"

section \<open>Equality and the canonical text\<close>

text \<open>The reference: a value with the members of its objects sorted at every depth, and the number of structures it nests.\<close>

function ordered :: "json \<Rightarrow> json" where
  "ordered (JArr xs) = JArr (map ordered xs)"
| "ordered (JObj ms) = JObj (map (\<lambda>m. (fst m, ordered (snd m))) (sorted_members ms))"
| "ordered JNull = JNull"
| "ordered (JBool b) = JBool b"
| "ordered (JNum n) = JNum n"
| "ordered (JStr s) = JStr s"
  by pat_completeness auto
termination
proof (relation "measure size", goal_cases)
  case (3 ms m)
  then have "(fst m, snd m) \<in> set ms" by (metis set_sorted_members prod.collapse)
  from member_size [OF this] show ?case by simp
qed (auto simp: less_Suc_eq_le intro: size_list_estimation')

fun nesting :: "json \<Rightarrow> nat" where
  "nesting (JArr xs) = Suc (Max (set (0 # map nesting xs)))"
| "nesting (JObj ms) = Suc (Max (set (0 # map (\<lambda>m. nesting (snd m)) ms)))"
| "nesting _ = 0"

fun written :: "(rat \<Rightarrow> string) \<Rightarrow> json \<Rightarrow> string" where
  "written num JNull = ''null''"
| "written num (JBool b) = stringify_bool b"
| "written num (JNum n) = num n"
| "written num (JStr s) = stringify_text s"
| "written num (JArr xs) = CHR ''['' # join_with '','' (map (written num) xs) @ '']''"
| "written num (JObj ms) = CHR 0x7B # join_with '','' (map (\<lambda>m. stringify_text (fst m) @ CHR '':'' # written num (snd m)) ms) @ [CHR 0x7D]"

lemma nesting_element: "x \<in> set xs \<Longrightarrow> nesting x < nesting (JArr xs)"
  by (auto simp: less_Suc_eq_le intro!: Max_ge)

lemma nesting_member: "m \<in> set ms \<Longrightarrow> nesting (snd m) < nesting (JObj ms)"
  by (auto simp: less_Suc_eq_le intro!: Max_ge)

lemma canonical_written:
  "level + nesting v \<le> MAX_DEPTH \<Longrightarrow> canonicalTextOf num level v = Inr (written num (ordered v))"
proof (induction num level v rule: canonicalTextOf.induct)
  case (5 num level xs)
  have "\<not> MAX_DEPTH \<le> level" using 5 by simp
  moreover have "traverse (canonicalTextOf num (Suc level)) xs = Inr (map (\<lambda>x. written num (ordered x)) xs)"
  proof (rule traverse_total)
    fix x assume "x \<in> set xs"
    with 5 \<open>\<not> MAX_DEPTH \<le> level\<close> nesting_element [OF this] show "canonicalTextOf num (Suc level) x = Inr (written num (ordered x))"
      by (intro "5.IH") (auto simp del: nesting.simps)
  qed
  ultimately show ?case by (simp add: comp_def)
next
  case (6 num level ms)
  have shallow: "\<not> MAX_DEPTH \<le> level" using 6 by simp
  have "canonicalTextOf num (Suc level) (snd m) = Inr (written num (ordered (snd m)))" if "m \<in> set (sorted_members ms)" for m
    using that 6 shallow nesting_member [of m ms] by (intro "6.IH") (auto simp del: nesting.simps)
  then have "traverse (\<lambda>m. case canonicalTextOf num (Suc level) (snd m) of Inl e \<Rightarrow> Inl e | Inr t \<Rightarrow> Inr (stringify_text (fst m) @ '':'' @ t)) (sorted_members ms)
      = Inr (map (\<lambda>m. stringify_text (fst m) @ '':'' @ written num (ordered (snd m))) (sorted_members ms))"
    by (intro traverse_total) simp
  with shallow show ?case by (simp add: comp_def)
qed (simp_all)

lemma canonical_refused:
  "canonicalTextOf num level v = Inr t \<Longrightarrow> level \<le> MAX_DEPTH \<Longrightarrow> level + nesting v \<le> MAX_DEPTH"
proof (induction num level v arbitrary: t rule: canonicalTextOf.induct)
  case (5 num level xs)
  then have shallow: "\<not> MAX_DEPTH \<le> level" by (auto split: if_splits)
  with "5.prems" obtain ts where ts: "traverse (canonicalTextOf num (Suc level)) xs = Inr ts" by (auto split: sum.splits)
  have "Suc level + nesting x \<le> MAX_DEPTH" if x: "x \<in> set xs" for x
  proof -
    from traverse_each [OF ts x] obtain t where "canonicalTextOf num (Suc level) x = Inr t" ..
    then show ?thesis using "5.IH" [OF shallow x] shallow by simp
  qed
  then have "Max (set (0 # map nesting xs)) \<le> MAX_DEPTH - Suc level" by (subst Max_le_iff) fastforce+
  with shallow show ?case unfolding nesting.simps by linarith
next
  case (6 num level ms)
  then have shallow: "\<not> MAX_DEPTH \<le> level" by (auto split: if_splits)
  let ?f = "\<lambda>m. case canonicalTextOf num (Suc level) (snd m) of Inl e \<Rightarrow> Inl e | Inr t \<Rightarrow> Inr (stringify_text (fst m) @ '':'' @ t)"
  from shallow "6.prems" obtain ts where ts: "traverse ?f (sorted_members ms) = Inr ts" by (auto split: sum.splits)
  have "Suc level + nesting (snd m) \<le> MAX_DEPTH" if m: "m \<in> set (sorted_members ms)" for m
  proof -
    from traverse_each [OF ts m] obtain t where "?f m = Inr t" ..
    then show ?thesis using "6.IH" [OF shallow m] shallow by (auto split: sum.splits)
  qed
  then have "Max (set (0 # map (\<lambda>m. nesting (snd m)) ms)) \<le> MAX_DEPTH - Suc level" by (subst Max_le_iff) fastforce+
  with shallow show ?case unfolding nesting.simps by linarith
qed simp_all

text \<open>A text as JSON writes it is read back: the escapes are a prefix code that never starts with a quote.\<close>

lemma hex_digit_inj: "m < 16 \<Longrightarrow> n < 16 \<Longrightarrow> hex_digit m = hex_digit n \<Longrightarrow> m = n"
  unfolding hex_digit_def by (subst (asm) nth_eq_iff_index_eq) auto

lemma div_mod_unique: "m div 16 = n div 16 \<Longrightarrow> m mod 16 = n mod 16 \<Longrightarrow> m = (n :: nat)"
  by (metis div_mult_mod_eq)

lemma hex_pair_inj:
  assumes "m < 32" "n < 32" "hex_digit (m div 16) = hex_digit (n div 16)" "hex_digit (m mod 16) = hex_digit (n mod 16)"
  shows "m = n"
proof (rule div_mod_unique)
  show "m div 16 = n div 16" using assms by (intro hex_digit_inj) auto
  show "m mod 16 = n mod 16" using assms by (intro hex_digit_inj) auto
qed

lemma of_char_same: "of_char c = (n :: nat) \<Longrightarrow> of_char d = n \<Longrightarrow> c = d"
  by (metis of_char_eq_iff)

lemma escaped_prefix_code: "escaped c @ x = escaped d @ y \<Longrightarrow> c = d \<and> x = y"
  by (auto simp: escaped_def Let_def split: if_splits dest: hex_pair_inj of_char_same)

lemma escaped_no_quote: "escaped c \<noteq> DQUOTE # x"
  by (simp add: escaped_def Let_def)

lemma quoted_unique:
  "concat (map escaped s) @ DQUOTE # x = concat (map escaped t) @ DQUOTE # y \<Longrightarrow> s = t \<and> x = y"
proof (induction s arbitrary: t)
  case Nil
  then show ?case
  proof (cases t)
    case (Cons d t')
    then show ?thesis using Nil escaped_no_quote [of d] by (cases "escaped d") (auto simp: escaped_def Let_def split: if_splits)
  qed simp
next
  case (Cons c s)
  then show ?case
  proof (cases t)
    case Nil
    then show ?thesis using Cons.prems escaped_no_quote [of c] by (cases "escaped c") (auto simp: escaped_def Let_def split: if_splits)
  next
    case (Cons d t')
    with Cons.prems have "escaped c @ (concat (map escaped s) @ DQUOTE # x) = escaped d @ (concat (map escaped t') @ DQUOTE # y)" by simp
    from escaped_prefix_code [OF this] Cons.IH show ?thesis using Cons by blast
  qed
qed

lemma stringify_text_unique: "stringify_text s @ x = stringify_text t @ y \<Longrightarrow> s = t \<and> x = y"
  using quoted_unique [of s x t y] by (simp add: stringify_text_def)

text \<open>What JavaScript promises of the numbers it writes: different texts for different numbers, over digits, signs, the
  point and the exponent.\<close>

definition writes_numbers :: "(rat \<Rightarrow> string) \<Rightarrow> bool" where
  "writes_numbers num \<longleftrightarrow> inj num \<and> (\<forall>n. num n \<noteq> [] \<and> set (num n) \<subseteq> set ''0123456789+-.e'')"

definition closers :: "char set" where "closers = {CHR '','', CHR '']'', CHR 0x7D}"

definition closed_by :: "string \<Rightarrow> bool" where "closed_by x \<longleftrightarrow> x = [] \<or> hd x \<in> closers"

definition written_apart :: "('a \<Rightarrow> string) \<Rightarrow> 'a \<Rightarrow> bool" where
  "written_apart f v \<longleftrightarrow> (\<forall>w x y. closed_by x \<longrightarrow> closed_by y \<longrightarrow> f v @ x = f w @ y \<longrightarrow> v = w \<and> x = y)"

lemma written_apartD: "written_apart f v \<Longrightarrow> f v @ x = f w @ y \<Longrightarrow> closed_by x \<Longrightarrow> closed_by y \<Longrightarrow> v = w \<and> x = y"
  unfolding written_apart_def by blast

lemma joined_head: "xs \<noteq> [] \<Longrightarrow> join_with '','' (x # xs) = x @ CHR '','' # join_with '','' xs"
  by (cases xs) auto

lemma joined_unique:
  assumes opens: "\<And>v. f v \<noteq> [] \<and> hd (f v) \<notin> closers"
    and closer: "c \<in> closers" "c \<noteq> CHR '',''"
    and apart: "\<And>v. v \<in> set vs \<Longrightarrow> written_apart f v"
    and same: "join_with '','' (map f vs) @ c # x = join_with '','' (map f ws) @ c # y"
  shows "vs = ws \<and> x = y"
  using apart same
proof (induction vs arbitrary: ws)
  case Nil
  show ?case
  proof (cases ws)
    case (Cons w ws')
    then show ?thesis using Nil.prems(2) opens [of w] closer by (cases ws'; cases "f w") auto
  qed (use Nil in simp)
next
  case (Cons v vs)
  obtain w ws' where ws: "ws = w # ws'"
    using Cons.prems(2) opens [of v] closer by (cases ws; cases vs; cases "f v") auto
  define tl_of where "tl_of us z = (if us = [] then c # z else CHR '','' # join_with '','' (map f us) @ c # z)" for us :: "'a list" and z
  have expand: "join_with '','' (map f (u # us)) @ c # z = f u @ tl_of us z" for u us z
    by (cases us) (auto simp: tl_of_def)
  have closed: "closed_by (tl_of us z)" for us z using closer by (simp add: closed_by_def closers_def tl_of_def)
  have "f v @ tl_of vs x = f w @ tl_of ws' y" using Cons.prems(2) unfolding ws expand .
  from written_apartD [OF Cons.prems(1) this closed closed] have "v = w \<and> tl_of vs x = tl_of ws' y" by simp
  moreover from this have "vs = ws' \<and> x = y"
    using Cons.IH [of ws'] Cons.prems(1) closer by (auto simp: tl_of_def split: if_splits)
  ultimately show ?case using ws by simp
qed

lemma number_apart:
  assumes "writes_numbers num"
  shows "written_apart num n"
  unfolding written_apart_def
proof (intro allI impI)
  fix m x y
  assume closed: "closed_by x" "closed_by y" and same: "num n @ x = num m @ y"
  have bare: "takeWhile (\<lambda>c. c \<notin> closers) (num k @ z) = num k \<and> dropWhile (\<lambda>c. c \<notin> closers) (num k @ z) = z" if "closed_by z" for k z
  proof -
    have "\<forall>c \<in> set (num k). c \<notin> closers" using assms by (force simp: writes_numbers_def closers_def)
    then show ?thesis using that by (cases z) (auto simp: closed_by_def)
  qed
  then have "num n = num m \<and> x = y" using closed same by metis
  with assms show "n = m \<and> x = y" by (auto simp: writes_numbers_def dest: injD)
qed

lemma number_head:
  assumes "writes_numbers num"
  obtains c r where "num n = c # r" "c \<in> set ''0123456789+-.e''"
proof (cases "num n")
  case (Cons c r)
  from assms have "set (num n) \<subseteq> set ''0123456789+-.e''" unfolding writes_numbers_def by blast
  then have "c \<in> set ''0123456789+-.e''" unfolding Cons by (meson list.set_intros(1) subsetD)
  with Cons show ?thesis by (rule that)
qed (use assms in \<open>simp add: writes_numbers_def\<close>)

lemma written_head:
  assumes "writes_numbers num"
  shows "written num v \<noteq> [] \<and> hd (written num v) \<notin> closers"
proof (cases v)
  case (JNum n)
  obtain c r where "num n = c # r" "c \<in> set ''0123456789+-.e''" by (rule number_head [OF assms])
  then show ?thesis using JNum by (auto simp: closers_def)
qed (simp_all add: closers_def stringify_bool_def stringify_text_def)

text \<open>The first character tells the kind of a value.\<close>

definition kind_of_head :: "char \<Rightarrow> nat" where
  "kind_of_head c =
     (if c = CHR ''n'' then 0 else if c = CHR ''t'' \<or> c = CHR ''f'' then 1 else if c = DQUOTE then 2
      else if c = CHR ''['' then 3 else if c = CHR 0x7B then 4 else 5)"

fun kind_of :: "json \<Rightarrow> nat" where
  "kind_of JNull = 0"
| "kind_of (JBool _) = 1"
| "kind_of (JStr _) = 2"
| "kind_of (JArr _) = 3"
| "kind_of (JObj _) = 4"
| "kind_of (JNum _) = 5"

lemma head_tells_kind:
  assumes "writes_numbers num"
  shows "kind_of_head (hd (written num v)) = kind_of v"
proof (cases v)
  case (JNum n)
  obtain c r where "num n = c # r" "c \<in> set ''0123456789+-.e''" by (rule number_head [OF assms])
  then show ?thesis using JNum by (auto simp: kind_of_head_def)
qed (simp_all add: kind_of_head_def stringify_bool_def stringify_text_def)

lemma written_kinds:
  assumes "writes_numbers num" "written num v @ x = written num w @ y"
  shows "kind_of v = kind_of w"
proof -
  have "hd (written num v) = hd (written num w)" using assms written_head by (metis hd_append2)
  then show ?thesis using head_tells_kind [OF assms(1)] by metis
qed

lemma apart_by_kind:
  assumes "writes_numbers num"
    and "\<And>w x y. kind_of v = kind_of w \<Longrightarrow> closed_by x \<Longrightarrow> closed_by y \<Longrightarrow> written num v @ x = written num w @ y \<Longrightarrow> v = w \<and> x = y"
  shows "written_apart (written num) v"
  unfolding written_apart_def using assms written_kinds by blast

lemma member_apart:
  assumes "written_apart (written num) (snd m)"
  shows "written_apart (\<lambda>m. stringify_text (fst m) @ CHR '':'' # written num (snd m)) m"
  unfolding written_apart_def
proof (intro allI impI)
  fix m' x y
  assume *: "closed_by x" "closed_by y"
    "(stringify_text (fst m) @ CHR '':'' # written num (snd m)) @ x = (stringify_text (fst m') @ CHR '':'' # written num (snd m')) @ y"
  from *(3) have key: "fst m = fst m'" and "written num (snd m) @ x = written num (snd m') @ y"
    using stringify_text_unique [of "fst m" "CHR '':'' # written num (snd m) @ x" "fst m'" "CHR '':'' # written num (snd m') @ y"] by simp_all
  from written_apartD [OF assms this(2) *(1,2)] key show "m = m' \<and> x = y" by (simp add: prod_eq_iff)
qed

lemma array_apart:
  assumes num: "writes_numbers num" and "\<And>v. v \<in> set xs \<Longrightarrow> written_apart (written num) v"
  shows "written_apart (written num) (JArr xs)"
proof (rule apart_by_kind [OF num])
  fix w x y
  assume "kind_of (JArr xs) = kind_of w" and *: "written num (JArr xs) @ x = written num w @ y"
  then obtain ys where w: "w = JArr ys" by (cases w) auto
  have "xs = ys \<and> x = y"
    by (rule joined_unique [where f = "written num" and c = "CHR '']''"]) (use * w assms(2) written_head [OF num] in \<open>auto simp: closers_def\<close>)
  with w show "JArr xs = w \<and> x = y" by simp
qed

lemma object_apart:
  assumes num: "writes_numbers num" and "\<And>m. m \<in> set ms \<Longrightarrow> written_apart (written num) (snd m)"
  shows "written_apart (written num) (JObj ms)"
proof (rule apart_by_kind [OF num])
  fix w x y
  assume "kind_of (JObj ms) = kind_of w" and *: "written num (JObj ms) @ x = written num w @ y"
  then obtain ms' where w: "w = JObj ms'" by (cases w) auto
  let ?f = "\<lambda>m. stringify_text (fst m) @ CHR '':'' # written num (snd m)"
  have "join_with '','' (map ?f ms) @ CHR 0x7D # x = join_with '','' (map ?f ms') @ CHR 0x7D # y" using * w by simp
  from joined_unique [where f = ?f, OF _ _ _ _ this] assms(2) member_apart
  have "ms = ms' \<and> x = y" by (simp add: closers_def stringify_text_def)
  with w show "JObj ms = w \<and> x = y" by simp
qed

lemma scalar_apart:
  assumes num: "writes_numbers num"
  shows "written_apart (written num) JNull" "written_apart (written num) (JBool b)" "written_apart (written num) (JStr s)"
    "written_apart (written num) (JNum n)"
proof -
  show "written_apart (written num) JNull"
  proof (rule apart_by_kind [OF num])
    fix w x y assume "kind_of JNull = kind_of w" and *: "written num JNull @ x = written num w @ y"
    then have "w = JNull" by (cases w) auto
    with * show "JNull = w \<and> x = y" by simp
  qed
  show "written_apart (written num) (JBool b)"
  proof (rule apart_by_kind [OF num])
    fix w x y assume "kind_of (JBool b) = kind_of w" and *: "written num (JBool b) @ x = written num w @ y"
    then obtain b' where "w = JBool b'" by (cases w) auto
    with * show "JBool b = w \<and> x = y" by (auto simp: stringify_bool_def split: if_splits)
  qed
  show "written_apart (written num) (JStr s)"
  proof (rule apart_by_kind [OF num])
    fix w x y assume "kind_of (JStr s) = kind_of w" and *: "written num (JStr s) @ x = written num w @ y"
    then obtain t where "w = JStr t" by (cases w) auto
    with * stringify_text_unique [of s x t y] show "JStr s = w \<and> x = y" by simp
  qed
  show "written_apart (written num) (JNum n)"
  proof (rule apart_by_kind [OF num])
    fix w x y assume "kind_of (JNum n) = kind_of w" and *: "closed_by x" "closed_by y" "written num (JNum n) @ x = written num w @ y"
    then obtain m where "w = JNum m" by (cases w) auto
    with * written_apartD [OF number_apart [OF num], of n x m y] show "JNum n = w \<and> x = y" by simp
  qed
qed

lemma written_injective:
  assumes "writes_numbers num"
  shows "written_apart (written num) v"
proof (induction v)
  case (JArr xs)
  then show ?case by (intro array_apart [OF assms])
next
  case (JObj ms)
  then show ?case by (intro object_apart [OF assms]) (metis prod.collapse snds.intros)
qed (simp_all add: scalar_apart [OF assms])

lemma canonical_iff: "canonicalJsonOf num v = Inr t \<longleftrightarrow> nesting v \<le> MAX_DEPTH \<and> t = written num (ordered v)"
  using canonical_written [of 0 v num] canonical_refused [of num 0 v] by (auto simp: canonicalJsonOf_def)

text \<open>A way to write numbers that keeps the promise: the numerator and the denominator in decimal.\<close>

definition plain_number :: "rat \<Rightarrow> string" where
  "plain_number r = (let (p, q) = quotient_of r in (if p < 0 then ''-'' else []) @ nat_digits (nat \<bar>p\<bar>) @ ''e'' @ nat_digits (nat q))"

definition digits_value :: "string \<Rightarrow> nat" where
  "digits_value s = foldl (\<lambda>n c. 10 * n + (of_char c - 48)) 0 s"

lemma digit_char: "n < 10 \<Longrightarrow> of_char (''0123456789'' ! n) = n + (48 :: nat)"
  by (auto simp: less_Suc_eq numeral_eq_Suc)

lemma digit_in: "n < 10 \<Longrightarrow> ''0123456789'' ! n \<in> set ''0123456789''"
  by (rule nth_mem) simp

lemma digits_value_digits [simp]: "digits_value (nat_digits n) = n"
proof (induction n rule: nat_digits.induct)
  case (1 n)
  then show ?case by (subst nat_digits.simps) (simp add: digits_value_def digit_char)
qed

lemma nat_digits_inj: "nat_digits m = nat_digits n \<longleftrightarrow> m = n"
  by (metis digits_value_digits)

lemma set_nat_digits: "set (nat_digits n) \<subseteq> {c. is_digit c}"
proof (induction n rule: nat_digits.induct)
  case (1 n)
  have "is_digit (''0123456789'' ! k)" if "k < 10" for k using digit_in [OF that] unfolding is_digit_def .
  with 1 show ?case by (subst nat_digits.simps) simp
qed

lemma nat_digits_not_empty: "nat_digits n \<noteq> []"
  by (subst nat_digits.simps) simp

lemma sign_and_digits_unique:
  assumes "(if b then ''-'' else []) @ nat_digits m @ CHR ''e'' # x = (if b' then ''-'' else []) @ nat_digits n @ CHR ''e'' # y"
  shows "b = b' \<and> m = n \<and> x = y"
proof -
  have no_sign: "nat_digits k @ r \<noteq> CHR ''-'' # r'" for k r r'
    using set_nat_digits [of k] nat_digits_not_empty [of k] by (cases "nat_digits k") (auto simp: is_digit_def)
  have same_sign: "b = b'" using assms no_sign no_sign [symmetric] by (auto split: if_splits)
  then have "nat_digits m @ CHR ''e'' # x = nat_digits n @ CHR ''e'' # y" using assms by auto
  moreover have cut: "takeWhile (\<lambda>c. c \<noteq> CHR ''e'') (nat_digits k @ CHR ''e'' # r) = nat_digits k" for k r
  proof -
    have "CHR ''e'' \<notin> set (nat_digits k)" using set_nat_digits [of k] by (auto simp: is_digit_def)
    then show ?thesis by (induction "nat_digits k") (auto simp: takeWhile_append)
  qed
  ultimately have "nat_digits m = nat_digits n" by metis
  with same_sign assms show ?thesis by (simp add: nat_digits_inj split: if_splits)
qed

lemma plain_number_writes: "writes_numbers plain_number"
  unfolding writes_numbers_def
proof (intro conjI allI)
  show "inj plain_number"
  proof (rule injI)
    fix r s assume same: "plain_number r = plain_number s"
    obtain p q p' q' where r: "quotient_of r = (p, q)" and s: "quotient_of s = (p', q')" by fastforce
    with same have parts: "(p < 0) = (p' < 0) \<and> nat \<bar>p\<bar> = nat \<bar>p'\<bar> \<and> nat_digits (nat q) = nat_digits (nat q')"
      by (intro sign_and_digits_unique) (simp add: plain_number_def)
    have "p = p'" using parts by arith
    moreover have "nat q = nat q'" using parts by (simp only: nat_digits_inj)
    moreover have "0 < q" "0 < q'" using r s quotient_of_denom_pos by blast+
    ultimately have "p = p' \<and> q = q'" by arith
    then show "r = s" using r s by (metis quotient_of_div)
  qed
  fix r
  have "c \<in> set ''0123456789+-.e''" if "is_digit c" for c using that by (auto simp: is_digit_def)
  then have digits: "c \<in> set (nat_digits k) \<Longrightarrow> c \<in> set ''0123456789+-.e''" for c k using set_nat_digits [of k] by blast
  show "set (plain_number r) \<subseteq> set ''0123456789+-.e''"
  proof
    fix c assume "c \<in> set (plain_number r)"
    then consider k where "c \<in> set (nat_digits k)" | "c = CHR ''-''" | "c = CHR ''e''"
      by (auto simp: plain_number_def split_beta Let_def split: if_splits)
    then show "c \<in> set ''0123456789+-.e''" using digits by cases simp_all
  qed
qed (simp add: plain_number_def split_beta Let_def)

section \<open>Groups of conditions\<close>

text \<open>A rule cut into its groups: each group past the first opens with an \<open>or\<close>, and no other condition of a group has one
  (the join of the first condition of the rule is ignored).\<close>

definition opens_group :: "condition \<Rightarrow> bool" where "opens_group c \<longleftrightarrow> cd_join c = Some JoinOr"

definition cut_into_groups :: "condition list list \<Rightarrow> bool" where
  "cut_into_groups gs \<longleftrightarrow>
     list_all (\<lambda>g. g \<noteq> [] \<and> list_all (\<lambda>c. \<not> opens_group c) (tl g)) gs \<and> list_all (\<lambda>g. opens_group (hd g)) (tl gs)"

definition verdict_holds :: "js_text \<Rightarrow> json \<Rightarrow> condition \<Rightarrow> bool" where
  "verdict_holds js context c \<longleftrightarrow> verdictOfCondition js context c = Inr True"

lemma verdict_cases:
  "verdictOfCondition js context c = Inr b \<Longrightarrow> verdictOfCondition js context c = Inr (verdict_holds js context c)"
  by (cases b) (simp_all add: verdict_holds_def)

lemma grouped_same_group:
  assumes "\<forall>c \<in> set g. \<not> opens_group c \<and> (\<exists>b. verdictOfCondition js context c = Inr b)"
  shows "grouped_verdicts js context False (G @ [h]) (g @ cs) =
         grouped_verdicts js context False (G @ [h @ map (verdict_holds js context) g]) cs"
  using assms
proof (induction g arbitrary: h)
  case (Cons c g)
  then obtain b where "verdictOfCondition js context c = Inr b" by auto
  note v = verdict_cases [OF this]
  show ?case using Cons.IH [of "h @ [verdict_holds js context c]"] Cons.prems by (simp add: v Let_def opens_group_def)
qed simp

lemma grouped_next_group:
  assumes "opens_group c" "verdictOfCondition js context c = Inr b"
    and "\<forall>c \<in> set g. \<not> opens_group c \<and> (\<exists>b. verdictOfCondition js context c = Inr b)"
  shows "grouped_verdicts js context False G ((c # g) @ cs) =
         grouped_verdicts js context False (G @ [map (verdict_holds js context) (c # g)]) cs"
  using grouped_same_group [OF assms(3), where G = G and h = "[verdict_holds js context c]" and cs = cs] assms(1) verdict_cases [OF assms(2)]
  by (simp add: opens_group_def Let_def)

lemma grouped_rest:
  assumes "list_all (\<lambda>g. g \<noteq> [] \<and> list_all (\<lambda>c. \<not> opens_group c) (tl g)) gs" "list_all (\<lambda>g. opens_group (hd g)) gs"
    and "\<forall>c \<in> set (concat gs). \<exists>b. verdictOfCondition js context c = Inr b"
  shows "grouped_verdicts js context False G (concat gs) = Inr (G @ map (map (verdict_holds js context)) gs)"
  using assms
proof (induction gs arbitrary: G)
  case (Cons g gs)
  then obtain c g' where g: "g = c # g'" by (cases g) auto
  from Cons.prems obtain b where b: "verdictOfCondition js context c = Inr b" by (auto simp: g)
  have "grouped_verdicts js context False G ((c # g') @ concat gs) =
        grouped_verdicts js context False (G @ [map (verdict_holds js context) (c # g')]) (concat gs)"
    using Cons.prems b by (intro grouped_next_group) (auto simp: g list_all_iff)
  then show ?case using Cons by (simp add: g)
qed simp

lemma grouped_all:
  assumes "cut_into_groups (g # gs)" "\<forall>c \<in> set (concat (g # gs)). \<exists>b. verdictOfCondition js context c = Inr b"
  shows "grouped_verdicts js context True [[]] (concat (g # gs)) = Inr (map (map (verdict_holds js context)) (g # gs))"
proof -
  from assms obtain c g' where g: "g = c # g'" by (cases g) (auto simp: cut_into_groups_def)
  from assms obtain b where "verdictOfCondition js context c = Inr b" by (auto simp: g)
  note v = verdict_cases [OF this]
  have "grouped_verdicts js context True [[]] (concat (g # gs)) = grouped_verdicts js context False ([] @ [[verdict_holds js context c]]) (g' @ concat gs)"
    by (simp add: g v Let_def)
  also have "\<dots> = grouped_verdicts js context False ([] @ [[verdict_holds js context c] @ map (verdict_holds js context) g']) (concat gs)"
    using assms by (intro grouped_same_group) (auto simp: cut_into_groups_def list_all_iff g)
  also have "\<dots> = Inr (map (map (verdict_holds js context)) (g # gs))"
    using assms by (subst grouped_rest) (auto simp: cut_into_groups_def g list_all_iff)
  finally show ?thesis .
qed

section \<open>Properties\<close>

text \<open>C40: The canonical text decides equality: a value has one exactly when it nests at most 64 structures, and two values
  have the same text exactly when they are equal up to the order of the members of their objects, at every depth. So
  the digest a human approves (the hash of that text) stands for one content only, and \<open>eq\<close> on structures compares
  their contents.\<close>

theorem canonical_json_decides_equality:
  assumes "writes_numbers num" "nesting v \<le> 64" "nesting w \<le> 64"
  shows "\<exists>t u. canonicalJsonOf num v = Inr t \<and> canonicalJsonOf num w = Inr u \<and> (t = u \<longleftrightarrow> ordered v = ordered w)"
proof -
  have "written num (ordered v) = written num (ordered w) \<Longrightarrow> ordered v = ordered w"
    using written_apartD [OF written_injective [OF assms(1)], of "ordered v" "[]" "ordered w" "[]"] by (simp add: closed_by_def)
  then show ?thesis using assms(2,3) by (auto simp: canonical_iff MAX_DEPTH_def)
qed

definition example_row :: json where
  "example_row = JObj [(''title'', JStr ''x''), (''labels'', JArr [JNum 1, JBool True])]"

definition example_row_reordered :: json where
  "example_row_reordered = JObj [(''labels'', JArr [JNum 1, JBool True]), (''title'', JStr ''x'')]"

theorem canonical_json_decides_equality_witness:
  "canonicalJsonOf plain_number example_row = canonicalJsonOf plain_number example_row_reordered"
proof -
  have "ordered example_row = ordered example_row_reordered"
    by (simp add: example_row_def example_row_reordered_def sorted_members_def utf16_key_def)
  moreover have "nesting example_row \<le> 64" "nesting example_row_reordered \<le> 64"
    by (simp_all add: example_row_def example_row_reordered_def)
  ultimately show ?thesis
    using canonical_json_decides_equality [OF plain_number_writes, of example_row example_row_reordered] by auto
qed

text \<open>A rule holds exactly when one of its groups holds entirely. Cut the conditions into the groups their \<open>or\<close>s open;
  when there are at most 32 of them and each has a verdict, the evaluator answers, and it answers that there is no
  condition or that all the conditions of some group hold.\<close>

theorem conditions_hold_in_some_group:
  assumes "concat gs = cs" "cut_into_groups gs" "length cs \<le> 32"
    and "\<forall>c \<in> set cs. \<exists>b. verdictOfCondition js context c = Inr b"
  shows "evaluateConditions js cs context = Inr (cs = [] \<or> (\<exists>g \<in> set gs. \<forall>c \<in> set g. verdict_holds js context c))"
proof (cases gs)
  case Nil
  then show ?thesis using assms by (auto simp: evaluateConditions_def MAX_CONDITIONS_def)
next
  case (Cons g gs')
  with assms grouped_all [of g gs' js "context"]
  have "grouped_verdicts js context True [[]] cs = Inr (map (map (verdict_holds js context)) gs)" by simp
  then show ?thesis using assms(3) by (auto simp: evaluateConditions_def MAX_CONDITIONS_def list_ex_iff list_all_iff)
qed

definition example_condition :: "string \<Rightarrow> condition_join \<Rightarrow> condition" where
  "example_condition s j = \<lparr>cd_path = ''event.row.title'', cd_operator = ''eq'', cd_value = Some (JStr s), cd_caseInsensitive = None, cd_join = Some j\<rparr>"

end
