(* ===== verification/Trigger_Store.thy ===== *)
theory Trigger_Store
  imports Kernel_Json Message_Queue
begin

text \<open>
  The triggers a fleet keeps: their content (\<^verbatim>\<open>shared/src/triggers.ts\<close>), the table they are stored in
  (\<^verbatim>\<open>triggers/triggerRepository.ts\<close>) and the service that creates, edits, arms and disarms them
  (\<^verbatim>\<open>triggers/triggerService.ts\<close>).

  The table is the list of its rows in rowid order. The verifier of human proofs has a state of its own type, since
  a proof is spent when it is accepted; it is an argument, as are the hash, the clock and the source of new ids. The
  service promises that an armed trigger is, as it stands, what a human approved: every edit disarms, and arming
  needs a proof for that trigger at its current revision.
\<close>

section \<open>The content of a trigger\<close>

datatype trigger_when =
    SessionStateWhen string "nat option" \<comment> \<open>state, minutes\<close>
  | SilentRunWhen nat \<comment> \<open>minutes\<close>
  | DataStoreQueryWhen string string "string option" "rat option" \<comment> \<open>store, event, operator, value\<close>
  | CronWhen string string string \<comment> \<open>expression, time zone, catch up\<close>
  | IntegrationRecordsWhen string string "string option" \<comment> \<open>item, event, field\<close>

datatype trigger_run =
    PromptManager "string option" string \<comment> \<open>manager, prompt\<close>
  | Notify string string \<comment> \<open>title, message\<close>
  | PromptSession string string \<comment> \<open>session, prompt\<close>
  | CloseSession string
  | RunPlaybook string "json option" \<comment> \<open>playbook, inputs\<close>

datatype batch_mode = PerEvent | PerBatch
datatype backlog_policy = FireAll | FireLatestOnly | DiscardStale

record trigger_policy =
  tp_cooldownSeconds :: nat
  tp_maxFiresPerDay :: "nat option"
  tp_batchMode :: batch_mode
  tp_backlogPolicy :: backlog_policy
  tp_backlogMaxAgeMinutes :: "nat option"

record trigger_condition =
  tc_id :: string
  tc_lhs :: string
  tc_op :: string
  tc_rhs :: "json option"
  tc_join :: condition_join
  tc_caseInsensitive :: bool

definition kernelConditionsOf :: "trigger_condition list \<Rightarrow> condition list" where
  "kernelConditionsOf cs =
     map (\<lambda>c. \<lparr>cd_path = tc_lhs c, cd_operator = tc_op c, cd_value = tc_rhs c, cd_caseInsensitive = Some (tc_caseInsensitive c),
               cd_join = Some (tc_join c)\<rparr>) cs"

fun whenSource :: "trigger_when \<Rightarrow> string" where
  "whenSource (SessionStateWhen _ _) = ''session_state''"
| "whenSource (SilentRunWhen _) = ''silent_run''"
| "whenSource (DataStoreQueryWhen _ _ _ _) = ''data_store_query''"
| "whenSource (CronWhen _ _ _) = ''cron''"
| "whenSource (IntegrationRecordsWhen _ _ _) = ''integration_records''"

fun EVENT_PREFIXES_BY_SOURCE :: "trigger_when \<Rightarrow> string list" where
  "EVENT_PREFIXES_BY_SOURCE (SessionStateWhen _ _) = [''event.session.'']"
| "EVENT_PREFIXES_BY_SOURCE (SilentRunWhen _) = [''event.session.'']"
| "EVENT_PREFIXES_BY_SOURCE (DataStoreQueryWhen _ _ _ _) = [''event.row.'', ''event.previous.'']"
| "EVENT_PREFIXES_BY_SOURCE (CronWhen _ _ _) = [''event.slot.'']"
| "EVENT_PREFIXES_BY_SOURCE (IntegrationRecordsWhen _ _ _) = [''event.record.'', ''event.previous.'']"

definition DEFAULT_TRIGGER_WHEN :: trigger_when where "DEFAULT_TRIGGER_WHEN = SessionStateWhen ''idle'' (Some 10)"
definition DEFAULT_TRIGGER_RUN :: trigger_run where "DEFAULT_TRIGGER_RUN = Notify ''Trigger fired'' ''A trigger fired.''"

record trigger_record =
  tr_id :: string
  tr_projectId :: string
  tr_ownerManagerId :: "string option"
  tr_title :: string
  tr_when :: trigger_when
  tr_conditions :: "trigger_condition list"
  tr_run :: trigger_run
  tr_policy :: trigger_policy
  tr_contentRev :: nat
  tr_armedAt :: "instant option"
  tr_approvedRev :: "nat option"
  tr_approvedGraphDigest :: "string option"
  tr_createdAt :: instant
  tr_updatedAt :: instant

text \<open>What an edit replaces; the owner can be replaced by none.\<close>

record trigger_content =
  ct_title :: "string option"
  ct_when :: "trigger_when option"
  ct_conditions :: "trigger_condition list option"
  ct_run :: "trigger_run option"
  ct_policy :: "trigger_policy option"
  ct_ownerManagerId :: "string option option"

section \<open>The table\<close>

type_synonym trigger_table = "trigger_record list"

definition repo_insert :: "trigger_record \<Rightarrow> trigger_table \<Rightarrow> trigger_table option" where
  "repo_insert tr t =
     (if tr_id tr \<in> set (map tr_id t) then None
      else Some (t @ [tr\<lparr>tr_contentRev := 1, tr_armedAt := None, tr_approvedRev := None, tr_approvedGraphDigest := None, tr_updatedAt := tr_createdAt tr\<rparr>]))"

definition repo_get :: "string \<Rightarrow> trigger_table \<Rightarrow> trigger_record option" where
  "repo_get i t = find (\<lambda>tr. tr_id tr = i) t"

text \<open>SQLite orders texts by their bytes.\<close>

definition utf8_key :: "string \<Rightarrow> nat list" where "utf8_key s = map of_char s"

definition listOfProject :: "string \<Rightarrow> trigger_table \<Rightarrow> trigger_record list" where
  "listOfProject p t = sort_key tr_createdAt (sort_key (utf8_key \<circ> tr_id) (filter (\<lambda>tr. tr_projectId tr = p) t))"

definition listArmed :: "trigger_table \<Rightarrow> trigger_record list" where
  "listArmed t = sort_key tr_createdAt (sort_key (utf8_key \<circ> tr_id) (filter (\<lambda>tr. tr_armedAt tr \<noteq> None) t))"

definition repo_delete :: "string \<Rightarrow> trigger_table \<Rightarrow> bool \<times> trigger_table" where
  "repo_delete i t = (list_ex (\<lambda>tr. tr_id tr = i) t, filter (\<lambda>tr. tr_id tr \<noteq> i) t)"

definition with_content :: "trigger_content \<Rightarrow> instant \<Rightarrow> trigger_record \<Rightarrow> trigger_record" where
  "with_content ct now tr =
     tr\<lparr>tr_title := opt_default (tr_title tr) (ct_title ct), tr_when := opt_default (tr_when tr) (ct_when ct),
        tr_conditions := opt_default (tr_conditions tr) (ct_conditions ct), tr_run := opt_default (tr_run tr) (ct_run ct),
        tr_policy := opt_default (tr_policy tr) (ct_policy ct), tr_ownerManagerId := opt_default (tr_ownerManagerId tr) (ct_ownerManagerId ct),
        tr_contentRev := tr_contentRev tr + 1, tr_armedAt := None, tr_approvedRev := None, tr_approvedGraphDigest := None, tr_updatedAt := now\<rparr>"

definition replaceContent :: "string \<Rightarrow> nat \<Rightarrow> trigger_content \<Rightarrow> instant \<Rightarrow> trigger_table \<Rightarrow> bool \<times> trigger_table" where
  "replaceContent i expectedRev ct now t =
     (let P = (\<lambda>tr. tr_id tr = i \<and> tr_contentRev tr = expectedRev)
      in (list_ex P t, map (\<lambda>tr. if P tr then with_content ct now tr else tr) t))"

definition repo_arm :: "string \<Rightarrow> nat \<Rightarrow> string \<Rightarrow> instant \<Rightarrow> trigger_table \<Rightarrow> bool \<times> trigger_table" where
  "repo_arm i approvedRev digest now t =
     (let P = (\<lambda>tr. tr_id tr = i \<and> tr_contentRev tr = approvedRev)
      in (list_ex P t, map (\<lambda>tr. if P tr then tr\<lparr>tr_armedAt := Some now, tr_approvedRev := Some approvedRev, tr_approvedGraphDigest := Some digest\<rparr> else tr) t))"

definition repo_disarm :: "string \<Rightarrow> trigger_table \<Rightarrow> trigger_table" where
  "repo_disarm i t = map (\<lambda>tr. if tr_id tr = i then tr\<lparr>tr_armedAt := None, tr_approvedRev := None, tr_approvedGraphDigest := None\<rparr> else tr) t"

section \<open>What a human approves\<close>

definition opt_member :: "string \<Rightarrow> json option \<Rightarrow> (string \<times> json) list" where
  "opt_member k v = (case v of None \<Rightarrow> [] | Some x \<Rightarrow> [(k, x)])"

fun when_json :: "trigger_when \<Rightarrow> json" where
  "when_json (SessionStateWhen s m) = JObj ([(''source'', JStr ''session_state''), (''state'', JStr s)] @ opt_member ''minutes'' (map_option (JNum \<circ> of_nat) m))"
| "when_json (SilentRunWhen m) = JObj [(''source'', JStr ''silent_run''), (''minutes'', JNum (of_nat m))]"
| "when_json (DataStoreQueryWhen s e p v) =
     JObj ([(''source'', JStr ''data_store_query''), (''storeId'', JStr s), (''event'', JStr e)] @ opt_member ''op'' (map_option JStr p) @ opt_member ''value'' (map_option JNum v))"
| "when_json (CronWhen e z c) = JObj [(''source'', JStr ''cron''), (''expression'', JStr e), (''timezone'', JStr z), (''catchUp'', JStr c)]"
| "when_json (IntegrationRecordsWhen i e f) =
     JObj ([(''source'', JStr ''integration_records''), (''itemId'', JStr i), (''event'', JStr e)] @ opt_member ''field'' (map_option JStr f))"

fun run_json :: "trigger_run \<Rightarrow> json" where
  "run_json (PromptManager m p) = JObj ([(''kind'', JStr ''prompt_manager'')] @ opt_member ''managerId'' (map_option JStr m) @ [(''prompt'', JStr p)])"
| "run_json (Notify t m) = JObj [(''kind'', JStr ''notify''), (''title'', JStr t), (''message'', JStr m)]"
| "run_json (PromptSession s p) = JObj [(''kind'', JStr ''prompt_session''), (''sessionId'', JStr s), (''prompt'', JStr p)]"
| "run_json (CloseSession s) = JObj [(''kind'', JStr ''close_session''), (''sessionId'', JStr s)]"
| "run_json (RunPlaybook p i) = JObj ([(''kind'', JStr ''run_playbook''), (''playbookId'', JStr p)] @ opt_member ''inputs'' i)"

definition join_name :: "condition_join \<Rightarrow> string" where
  "join_name j = (case j of JoinAnd \<Rightarrow> ''and'' | JoinOr \<Rightarrow> ''or'')"

definition condition_json :: "trigger_condition \<Rightarrow> json" where
  "condition_json c =
     JObj ([(''id'', JStr (tc_id c)), (''lhs'', JStr (tc_lhs c)), (''op'', JStr (tc_op c))] @ opt_member ''rhs'' (tc_rhs c)
       @ [(''join'', JStr (join_name (tc_join c))), (''caseInsensitive'', JBool (tc_caseInsensitive c))])"

definition policy_json :: "trigger_policy \<Rightarrow> json" where
  "policy_json p =
     JObj ([(''cooldownSeconds'', JNum (of_nat (tp_cooldownSeconds p)))]
       @ opt_member ''maxFiresPerDay'' (map_option (JNum \<circ> of_nat) (tp_maxFiresPerDay p))
       @ [(''batchMode'', JStr (case tp_batchMode p of PerEvent \<Rightarrow> ''per_event'' | PerBatch \<Rightarrow> ''per_batch'')),
          (''backlogPolicy'', JStr (case tp_backlogPolicy p of FireAll \<Rightarrow> ''fire_all'' | FireLatestOnly \<Rightarrow> ''fire_latest_only'' | DiscardStale \<Rightarrow> ''discard_stale''))]
       @ opt_member ''backlogMaxAgeMinutes'' (map_option (JNum \<circ> of_nat) (tp_backlogMaxAgeMinutes p)))"

definition approvedGraphOf :: "trigger_record \<Rightarrow> json" where
  "approvedGraphOf tr =
     JObj [(''ownerManagerId'', case tr_ownerManagerId tr of None \<Rightarrow> JNull | Some i \<Rightarrow> JStr i), (''when'', when_json (tr_when tr)),
           (''conditions'', JArr (map condition_json (tr_conditions tr))), (''run'', run_json (tr_run tr)), (''policy'', policy_json (tr_policy tr))]"

record kernel_env =
  ke_js :: js_text
  ke_sha256 :: "string \<Rightarrow> string"

definition canonicalDigestOf :: "kernel_env \<Rightarrow> json \<Rightarrow> kernel_error + string" where
  "canonicalDigestOf env v = map_sum id (ke_sha256 env) (canonicalJsonOf (jt_num (ke_js env)) v)"

text \<open>The digest of what a trigger approves exists: the schemas keep a trigger far from 64 levels.\<close>

definition isArmedAsItStands :: "kernel_env \<Rightarrow> trigger_record \<Rightarrow> bool" where
  "isArmedAsItStands env tr \<longleftrightarrow>
     tr_armedAt tr \<noteq> None \<and>
     (case canonicalDigestOf env (approvedGraphOf tr) of Inl _ \<Rightarrow> False | Inr d \<Rightarrow> tr_approvedGraphDigest tr = Some d)"

section \<open>Checks\<close>

datatype service_error =
    TriggerNotFound | StaleRevision nat | InvalidBody | TooManyTriggerConditions | TriggerFieldPrefix | ProjectNotFound | HumanProofRequired

definition MAX_TRIGGER_CONDITIONS :: nat where "MAX_TRIGGER_CONDITIONS = 32"
definition MAX_TITLE_CHARS :: nat where "MAX_TITLE_CHARS = 200"
definition DEFAULT_TITLE :: string where "DEFAULT_TITLE = ''Untitled Trigger''"

definition assertEvaluableByTheKernel :: "js_text \<Rightarrow> trigger_condition list \<Rightarrow> service_error + unit" where
  "assertEvaluableByTheKernel js cs =
     (case evaluateConditions js (kernelConditionsOf cs) (JObj []) of Inl _ \<Rightarrow> Inl InvalidBody | Inr _ \<Rightarrow> Inr ())"

definition assertWithinTheCap :: "'a list \<Rightarrow> service_error + unit" where
  "assertWithinTheCap cs = (if MAX_TRIGGER_CONDITIONS < length cs then Inl TooManyTriggerConditions else Inr ())"

definition assertEveryPathReadsTheEventOfTheSource :: "trigger_when \<Rightarrow> trigger_condition list \<Rightarrow> service_error + unit" where
  "assertEveryPathReadsTheEventOfTheSource w cs =
     (if list_ex (\<lambda>c. \<not> list_ex (\<lambda>prefix. starts_with (tc_lhs c) prefix) (EVENT_PREFIXES_BY_SOURCE w)) cs then Inl TriggerFieldPrefix else Inr ())"

definition assertDocumentIsSound :: "js_text \<Rightarrow> trigger_when \<Rightarrow> trigger_condition list \<Rightarrow> service_error + unit" where
  "assertDocumentIsSound js w cs =
     (case assertWithinTheCap cs of
        Inl e \<Rightarrow> Inl e
      | Inr _ \<Rightarrow> (case assertEvaluableByTheKernel js cs of Inl e \<Rightarrow> Inl e | Inr _ \<Rightarrow> assertEveryPathReadsTheEventOfTheSource w cs))"

definition withFirstJoinForced :: "trigger_condition list \<Rightarrow> trigger_condition list" where
  "withFirstJoinForced cs = (case cs of [] \<Rightarrow> [] | c # cs' \<Rightarrow> c\<lparr>tc_join := JoinAnd\<rparr> # cs')"

definition titleOf :: "string option \<Rightarrow> service_error + string" where
  "titleOf requested =
     (let trimmed = (case requested of None \<Rightarrow> [] | Some s \<Rightarrow> js_trim (filter (\<lambda>c. c \<noteq> CHR 0x00) s));
          title = (if trimmed = [] then DEFAULT_TITLE else trimmed)
      in if MAX_TITLE_CHARS < utf16_length title then Inl InvalidBody else Inr title)"

section \<open>The service\<close>

text \<open>\<open>consume\<close> is the verifier of human proofs: it answers for a proof and a trigger, and its state moves on.\<close>

record 'p trigger_service =
  ts_table :: trigger_table
  ts_proofs :: 'p

definition ts_getById :: "string \<Rightarrow> 'p trigger_service \<Rightarrow> service_error + trigger_record" where
  "ts_getById i st = (case repo_get i (ts_table st) of None \<Rightarrow> Inl TriggerNotFound | Some tr \<Rightarrow> Inr tr)"

definition getInProject :: "string \<Rightarrow> string \<Rightarrow> 'p trigger_service \<Rightarrow> service_error + trigger_record" where
  "getInProject p ref st =
     (let ofProject = listOfProject p (ts_table st)
      in case find (\<lambda>tr. tr_id tr = ref) ofProject of
           Some tr \<Rightarrow> Inr tr
         | None \<Rightarrow> (case filter (\<lambda>tr. tr_title tr = ref) ofProject of [] \<Rightarrow> Inl TriggerNotFound | [tr] \<Rightarrow> Inr tr | _ \<Rightarrow> Inl InvalidBody))"

record create_input =
  ci_projectId :: string
  ci_ownerManagerId :: "string option"
  ci_title :: "string option"
  ci_when :: "trigger_when option"
  ci_conditions :: "trigger_condition list" \<comment> \<open>as \<open>conditionsWithIds\<close> numbered them\<close>
  ci_run :: "trigger_run option"
  ci_policy :: trigger_policy

definition ts_create :: "js_text \<Rightarrow> (string \<Rightarrow> bool) \<Rightarrow> instant \<Rightarrow> string \<Rightarrow> create_input \<Rightarrow> 'p trigger_service \<Rightarrow> service_error + trigger_record \<times> 'p trigger_service" where
  "ts_create js projectExists now newId i st =
     (if \<not> projectExists (ci_projectId i) then Inl ProjectNotFound
      else (let w = opt_default DEFAULT_TRIGGER_WHEN (ci_when i); cs = withFirstJoinForced (ci_conditions i)
            in case assertDocumentIsSound js w cs of
                 Inl e \<Rightarrow> Inl e
               | Inr _ \<Rightarrow> (case titleOf (ci_title i) of
                   Inl e \<Rightarrow> Inl e
                 | Inr title \<Rightarrow>
                     (let tr = \<lparr>tr_id = newId, tr_projectId = ci_projectId i, tr_ownerManagerId = ci_ownerManagerId i, tr_title = title, tr_when = w,
                                tr_conditions = cs, tr_run = opt_default DEFAULT_TRIGGER_RUN (ci_run i), tr_policy = ci_policy i, tr_contentRev = 1,
                                tr_armedAt = None, tr_approvedRev = None, tr_approvedGraphDigest = None, tr_createdAt = now, tr_updatedAt = now\<rparr>
                      in case repo_insert tr (ts_table st) of
                           None \<Rightarrow> Inl InvalidBody
                         | Some t \<Rightarrow> (case repo_get newId t of None \<Rightarrow> Inl TriggerNotFound | Some tr' \<Rightarrow> Inr (tr', st\<lparr>ts_table := t\<rparr>))))))"

definition ts_delete :: "string \<Rightarrow> 'p trigger_service \<Rightarrow> service_error + 'p trigger_service" where
  "ts_delete i st =
     (let (wasDeleted, t) = repo_delete i (ts_table st) in if wasDeleted then Inr (st\<lparr>ts_table := t\<rparr>) else Inl TriggerNotFound)"

definition sound_content :: "js_text \<Rightarrow> trigger_record \<Rightarrow> trigger_content \<Rightarrow> service_error + trigger_content" where
  "sound_content js current edited =
     (let ct = edited\<lparr>ct_conditions := map_option withFirstJoinForced (ct_conditions edited)\<rparr>
      in case assertDocumentIsSound js (opt_default (tr_when current) (ct_when ct)) (opt_default (tr_conditions current) (ct_conditions ct)) of
           Inl e \<Rightarrow> Inl e
         | Inr _ \<Rightarrow> (case ct_title ct of
             None \<Rightarrow> Inr ct
           | Some s \<Rightarrow> (case titleOf (Some s) of Inl e \<Rightarrow> Inl e | Inr title \<Rightarrow> Inr (ct\<lparr>ct_title := Some title\<rparr>))))"

definition ts_edit :: "js_text \<Rightarrow> instant \<Rightarrow> string \<Rightarrow> (trigger_record \<Rightarrow> trigger_content) \<Rightarrow> nat option \<Rightarrow> 'p trigger_service \<Rightarrow> service_error + trigger_record \<times> 'p trigger_service" where
  "ts_edit js now i edit expectedRev st =
     (case ts_getById i st of
        Inl e \<Rightarrow> Inl e
      | Inr current \<Rightarrow>
          if expectedRev \<noteq> None \<and> expectedRev \<noteq> Some (tr_contentRev current) then Inl (StaleRevision (tr_contentRev current))
          else (case sound_content js current (edit current) of
                  Inl e \<Rightarrow> Inl e
                | Inr ct \<Rightarrow>
                    (let (wasReplaced, t) = replaceContent i (tr_contentRev current) ct now (ts_table st)
                     in if \<not> wasReplaced then Inl (StaleRevision (tr_contentRev current))
                        else (case repo_get i t of None \<Rightarrow> Inl TriggerNotFound | Some tr \<Rightarrow> Inr (tr, st\<lparr>ts_table := t\<rparr>)))))"

text \<open>A refusal past the proof leaves the proof spent: the state comes back with the error.\<close>

definition ts_arm :: "kernel_env \<Rightarrow> (string option \<Rightarrow> string \<Rightarrow> 'p \<Rightarrow> bool \<times> 'p) \<Rightarrow> instant \<Rightarrow> string \<Rightarrow> nat \<Rightarrow> string option \<Rightarrow> 'p trigger_service \<Rightarrow> (service_error + trigger_record) \<times> 'p trigger_service" where
  "ts_arm env consume now i approvedRev proof st =
     (case ts_getById i st of
        Inl e \<Rightarrow> (Inl e, st)
      | Inr tr \<Rightarrow>
          if approvedRev \<noteq> tr_contentRev tr then (Inl (StaleRevision (tr_contentRev tr)), st)
          else (let (isProvenHuman, p) = consume proof i (ts_proofs st); spent = st\<lparr>ts_proofs := p\<rparr>
                in if \<not> isProvenHuman then (Inl HumanProofRequired, spent)
                   else (case canonicalDigestOf env (approvedGraphOf tr) of
                           Inl _ \<Rightarrow> (Inl InvalidBody, spent)
                         | Inr digest \<Rightarrow>
                             (let (wasArmed, t) = repo_arm i approvedRev digest now (ts_table st)
                              in if \<not> wasArmed then (Inl (StaleRevision (tr_contentRev tr)), spent)
                                 else (case repo_get i t of
                                         None \<Rightarrow> (Inl TriggerNotFound, spent)
                                       | Some armed \<Rightarrow> (Inr armed, spent\<lparr>ts_table := t\<rparr>))))))"

definition ts_disarm :: "string \<Rightarrow> 'p trigger_service \<Rightarrow> service_error + trigger_record \<times> 'p trigger_service" where
  "ts_disarm i st =
     (case ts_getById i st of
        Inl e \<Rightarrow> Inl e
      | Inr _ \<Rightarrow> (let t = repo_disarm i (ts_table st)
                  in case repo_get i t of None \<Rightarrow> Inl TriggerNotFound | Some tr \<Rightarrow> Inr (tr, st\<lparr>ts_table := t\<rparr>)))"

section \<open>An armed trigger is what a human approved\<close>

datatype service_op =
    SvCreate instant string create_input
  | SvEdit instant string "trigger_record \<Rightarrow> trigger_content" "nat option"
  | SvArm instant string nat "string option"
  | SvDisarm string
  | SvDelete string

text \<open>An approval: a human gave a proof for a trigger, at a revision, when its content was the one noted.\<close>

type_synonym approval = "string \<times> nat \<times> json"

definition approval_by :: "(string option \<Rightarrow> string \<Rightarrow> 'p \<Rightarrow> bool \<times> 'p) \<Rightarrow> service_op \<Rightarrow> 'p trigger_service \<Rightarrow> approval list" where
  "approval_by consume op st =
     (case op of
        SvArm now i rv pr \<Rightarrow> (case repo_get i (ts_table st) of
          None \<Rightarrow> []
        | Some tr \<Rightarrow> if rv = tr_contentRev tr \<and> fst (consume pr i (ts_proofs st)) then [(i, rv, approvedGraphOf tr)] else [])
      | _ \<Rightarrow> [])"

definition service_step :: "kernel_env \<Rightarrow> (string \<Rightarrow> bool) \<Rightarrow> (string option \<Rightarrow> string \<Rightarrow> 'p \<Rightarrow> bool \<times> 'p) \<Rightarrow> service_op \<Rightarrow> 'p trigger_service \<Rightarrow> 'p trigger_service" where
  "service_step env projectExists consume op st =
     (case op of
        SvCreate now newId i \<Rightarrow> (case ts_create (ke_js env) projectExists now newId i st of Inl _ \<Rightarrow> st | Inr (_, st') \<Rightarrow> st')
      | SvEdit now i edit rv \<Rightarrow> (case ts_edit (ke_js env) now i edit rv st of Inl _ \<Rightarrow> st | Inr (_, st') \<Rightarrow> st')
      | SvArm now i rv pr \<Rightarrow> snd (ts_arm env consume now i rv pr st)
      | SvDisarm i \<Rightarrow> (case ts_disarm i st of Inl _ \<Rightarrow> st | Inr (_, st') \<Rightarrow> st')
      | SvDelete i \<Rightarrow> (case ts_delete i st of Inl _ \<Rightarrow> st | Inr st' \<Rightarrow> st'))"

fun service_run :: "kernel_env \<Rightarrow> (string \<Rightarrow> bool) \<Rightarrow> (string option \<Rightarrow> string \<Rightarrow> 'p \<Rightarrow> bool \<times> 'p) \<Rightarrow> service_op list \<Rightarrow> 'p trigger_service \<times> approval list \<Rightarrow> 'p trigger_service \<times> approval list" where
  "service_run env pe consume [] s = s"
| "service_run env pe consume (op # ops) (st, seen) = service_run env pe consume ops (service_step env pe consume op st, seen @ approval_by consume op st)"

definition approved_in :: "kernel_env \<Rightarrow> approval list \<Rightarrow> trigger_record \<Rightarrow> bool" where
  "approved_in env seen tr \<longleftrightarrow>
     tr_armedAt tr \<noteq> None \<longrightarrow> (tr_id tr, tr_contentRev tr, approvedGraphOf tr) \<in> set seen \<and> isArmedAsItStands env tr"

definition store_ok :: "kernel_env \<Rightarrow> 'p trigger_service \<times> approval list \<Rightarrow> bool" where
  "store_ok env s \<longleftrightarrow> distinct (map tr_id (ts_table (fst s))) \<and> list_all (approved_in env (snd s)) (ts_table (fst s))"

lemma approved_in_mono: "approved_in env seen tr \<Longrightarrow> approved_in env (seen @ later) tr"
  by (auto simp: approved_in_def)

lemma disarmed_approved: "tr_armedAt tr = None \<Longrightarrow> approved_in env seen tr"
  by (simp add: approved_in_def)

text \<open>What an update must do to keep the store sound: keep the ids, and leave each row approved.\<close>

lemma store_ok_update:
  assumes "store_ok env (st, seen)" "\<And>tr. tr_id (f tr) = tr_id tr"
    and "\<And>tr. tr \<in> set (ts_table st) \<Longrightarrow> approved_in env seen tr \<Longrightarrow> approved_in env seen' (f tr)"
  shows "store_ok env (st\<lparr>ts_table := map f (ts_table st)\<rparr>, seen')"
  using assms by (auto simp: store_ok_def comp_def list_all_iff)

lemma repo_get_unique: "distinct (map tr_id t) \<Longrightarrow> repo_get i t = Some tr \<Longrightarrow> tr' \<in> set t \<Longrightarrow> tr_id tr' = i \<Longrightarrow> tr' = tr"
  unfolding repo_get_def by (metis (mono_tags, lifting) distinct_map find_Some_iff inj_onD nth_mem)

lemma edited_approved [simp]: "approved_in env seen (with_content ct now tr)"
  by (simp add: approved_in_def with_content_def)

lemma unarmed_approved [simp]: "approved_in env seen (tr\<lparr>tr_armedAt := None, tr_approvedRev := x, tr_approvedGraphDigest := y\<rparr>)"
  by (simp add: approved_in_def)

lemma with_content_id [simp]: "tr_id (with_content ct now tr) = tr_id tr"
  by (simp add: with_content_def)

lemma store_ok_create: "store_ok env (st, seen) \<Longrightarrow> store_ok env (service_step env pe consume (SvCreate now newId i) st, seen)"
  by (auto simp: service_step_def ts_create_def Let_def repo_insert_def store_ok_def disarmed_approved split: sum.splits option.splits if_splits)

lemma store_ok_edit: "store_ok env (st, seen) \<Longrightarrow> store_ok env (service_step env pe consume (SvEdit now i edit rv) st, seen)"
  by (auto simp: service_step_def ts_edit_def Let_def replaceContent_def split: sum.splits option.splits if_splits
      intro!: store_ok_update)

lemma store_ok_disarm: "store_ok env (st, seen) \<Longrightarrow> store_ok env (service_step env pe consume (SvDisarm i) st, seen)"
  by (auto simp: service_step_def ts_disarm_def Let_def repo_disarm_def split: sum.splits option.splits
      intro!: store_ok_update)

lemma store_ok_delete: "store_ok env (st, seen) \<Longrightarrow> store_ok env (service_step env pe consume (SvDelete i) st, seen)"
  by (auto simp: service_step_def ts_delete_def Let_def repo_delete_def store_ok_def list_all_iff distinct_map_filter split: sum.splits if_splits)

lemma store_ok_arm:
  assumes ok: "store_ok env (st, seen)"
  shows "store_ok env (service_step env pe consume (SvArm now i rv pr) st, seen @ approval_by consume (SvArm now i rv pr) st)"
proof (cases "fst (ts_arm env consume now i rv pr st)")
  case (Inl e)
  then have "ts_table (snd (ts_arm env consume now i rv pr st)) = ts_table st"
    by (auto simp: ts_arm_def Let_def split_beta split: sum.splits option.splits if_splits)
  with ok show ?thesis by (auto simp: store_ok_def service_step_def list_all_iff intro: approved_in_mono)
next
  case (Inr armed)
  then obtain tr digest where tr: "repo_get i (ts_table st) = Some tr" "rv = tr_contentRev tr" "fst (consume pr i (ts_proofs st))"
      "canonicalDigestOf env (approvedGraphOf tr) = Inr digest"
    and table: "ts_table (snd (ts_arm env consume now i rv pr st)) = snd (repo_arm i rv digest now (ts_table st))"
    by (auto simp: ts_arm_def ts_getById_def Let_def split_beta split: sum.splits option.splits if_splits)
  let ?armed = "\<lambda>tr. tr\<lparr>tr_armedAt := Some now, tr_approvedRev := Some rv, tr_approvedGraphDigest := Some digest\<rparr>"
  have this_row: "approved_in env (seen @ [(i, rv, approvedGraphOf tr)]) (?armed tr)"
    using tr by (auto simp: approved_in_def isArmedAsItStands_def approvedGraphOf_def repo_get_def find_Some_iff)
  have "approved_in env (seen @ [(i, rv, approvedGraphOf tr)]) (if tr_id tr' = i \<and> tr_contentRev tr' = rv then ?armed tr' else tr')"
    if "tr' \<in> set (ts_table st)" "approved_in env seen tr'" for tr'
    using that this_row repo_get_unique [OF _ tr(1)] ok by (auto simp: store_ok_def intro: approved_in_mono)
  then have "store_ok env (st\<lparr>ts_table := snd (repo_arm i rv digest now (ts_table st))\<rparr>, seen @ [(i, rv, approvedGraphOf tr)])"
    unfolding repo_arm_def Let_def snd_conv by (intro store_ok_update [OF ok]) auto
  then show ?thesis using tr table by (simp add: store_ok_def service_step_def approval_by_def)
qed

lemma store_ok_step:
  "store_ok env (st, seen) \<Longrightarrow> store_ok env (service_step env pe consume op st, seen @ approval_by consume op st)"
  using store_ok_create store_ok_edit store_ok_arm store_ok_disarm store_ok_delete by (cases op) (auto simp: approval_by_def)

lemma store_ok_run: "store_ok env s \<Longrightarrow> store_ok env (service_run env pe consume ops s)"
proof (induction ops arbitrary: s)
  case (Cons op ops)
  then show ?case by (cases s) (simp add: store_ok_step)
qed simp

section \<open>Properties\<close>

text \<open>C8: A trigger runs only as a human approved it. Over any sequence of creations, edits, armings, disarmings and
  deletions from an empty store, each trigger that is armed was armed with an accepted human proof, for that
  trigger, at the revision and with the very owner, source, conditions, action and policy it has now; and its digest
  still matches, so the engine sees it armed. Whatever is edited has to be approved again.\<close>

theorem armed_as_a_human_approved:
  assumes "service_run env projectExists consume ops (\<lparr>ts_table = [], ts_proofs = p\<rparr>, []) = (st, approvals)"
    and "tr \<in> set (ts_table st)" "tr_armedAt tr \<noteq> None"
  shows "(tr_id tr, tr_contentRev tr, approvedGraphOf tr) \<in> set approvals \<and> isArmedAsItStands env tr"
proof -
  have "store_ok env (\<lparr>ts_table = [], ts_proofs = p\<rparr>, [])" by (simp add: store_ok_def)
  from store_ok_run [OF this, of projectExists consume ops] assms show ?thesis
    by (auto simp: store_ok_def list_all_iff approved_in_def)
qed

lemma canonicalDigest_exists: "nesting v \<le> 64 \<Longrightarrow> \<exists>d. canonicalDigestOf env v = Inr d"
  using canonical_iff [of "jt_num (ke_js env)" v, THEN iffD2] by (simp add: canonicalDigestOf_def MAX_DEPTH_def)

definition example_env :: kernel_env where
  "example_env = \<lparr>ke_js = \<lparr>jt_num = plain_number, jt_lower = id\<rparr>, ke_sha256 = id\<rparr>"

definition example_consume :: "string option \<Rightarrow> string \<Rightarrow> string list \<Rightarrow> bool \<times> string list" where
  "example_consume pr i proofs = (case pr of None \<Rightarrow> (False, proofs) | Some x \<Rightarrow> (x \<in> set proofs, remove1 x proofs))"

definition example_create :: create_input where
  "example_create = \<lparr>ci_projectId = ''p'', ci_ownerManagerId = None, ci_title = None, ci_when = None, ci_conditions = [], ci_run = None,
     ci_policy = \<lparr>tp_cooldownSeconds = 0, tp_maxFiresPerDay = None, tp_batchMode = PerEvent, tp_backlogPolicy = FireAll, tp_backlogMaxAgeMinutes = None\<rparr>\<rparr>"

definition example_trigger :: trigger_record where
  "example_trigger = \<lparr>tr_id = ''t1'', tr_projectId = ''p'', tr_ownerManagerId = None, tr_title = DEFAULT_TITLE, tr_when = DEFAULT_TRIGGER_WHEN,
     tr_conditions = [], tr_run = DEFAULT_TRIGGER_RUN, tr_policy = ci_policy example_create, tr_contentRev = 1,
     tr_armedAt = None, tr_approvedRev = None, tr_approvedGraphDigest = None, tr_createdAt = 1, tr_updatedAt = 1\<rparr>"

lemma example_created:
  "ts_create (ke_js example_env) (\<lambda>_. True) 1 ''t1'' example_create \<lparr>ts_table = [], ts_proofs = p\<rparr> = Inr (example_trigger, \<lparr>ts_table = [example_trigger], ts_proofs = p\<rparr>)"
proof -
  have "utf16_length DEFAULT_TITLE \<le> MAX_TITLE_CHARS" "js_trim [] = []" by (simp_all add: DEFAULT_TITLE_def MAX_TITLE_CHARS_def utf16_length_def js_trim_def)
  then show ?thesis
    by (simp add: ts_create_def example_create_def example_trigger_def Let_def assertDocumentIsSound_def assertWithinTheCap_def
        assertEvaluableByTheKernel_def kernelConditionsOf_def evaluateConditions_def assertEveryPathReadsTheEventOfTheSource_def
        withFirstJoinForced_def titleOf_def repo_insert_def repo_get_def opt_default_def not_less)
qed

theorem armed_as_a_human_approved_witness:
  "\<exists>st approvals tr.
     service_run example_env (\<lambda>_. True) example_consume [SvCreate 1 ''t1'' example_create, SvArm 2 ''t1'' 1 (Some ''gesture'')]
       (\<lparr>ts_table = [], ts_proofs = [''gesture'']\<rparr>, []) = (st, approvals) \<and>
     ts_table st = [tr] \<and> (''t1'', 1, approvedGraphOf tr) \<in> set approvals \<and> isArmedAsItStands example_env tr"
proof -
  have "nesting (approvedGraphOf example_trigger) \<le> 64"
    by (simp add: approvedGraphOf_def example_trigger_def example_create_def DEFAULT_TRIGGER_WHEN_def DEFAULT_TRIGGER_RUN_def policy_json_def opt_member_def)
  then obtain d where d: "canonicalDigestOf example_env (approvedGraphOf example_trigger) = Inr d" using canonicalDigest_exists by blast
  define armed where "armed = example_trigger\<lparr>tr_armedAt := Some 2, tr_approvedRev := Some 1, tr_approvedGraphDigest := Some d\<rparr>"
  have run: "service_run example_env (\<lambda>_. True) example_consume [SvCreate 1 ''t1'' example_create, SvArm 2 ''t1'' 1 (Some ''gesture'')]
      (\<lparr>ts_table = [], ts_proofs = [''gesture'']\<rparr>, []) = (\<lparr>ts_table = [armed], ts_proofs = []\<rparr>, [(''t1'', 1, approvedGraphOf example_trigger)])"
    using d by (simp add: service_step_def approval_by_def example_created ts_arm_def ts_getById_def repo_get_def example_consume_def repo_arm_def armed_def
        Let_def del: One_nat_def) (simp add: example_trigger_def)
  have "tr_id armed = ''t1''" "tr_contentRev armed = 1" "tr_armedAt armed \<noteq> None" by (simp_all add: armed_def example_trigger_def)
  with armed_as_a_human_approved [OF run, of armed] run show ?thesis by simp
qed

end
