(* ===== verification/Trigger_Engine.thy ===== *)
theory Trigger_Engine
  imports Fire_Ledger Trigger_Store
begin

text \<open>
  The engine that turns events into fires (\<^verbatim>\<open>triggers/triggerEngine.ts\<close>), the policy it judges a fire by
  (\<^verbatim>\<open>triggers/firePolicy.ts\<close>) and the breaker that caps the effects of a minute (\<^verbatim>\<open>triggers/fireBreaker.ts\<close>).

  The engine is a record of the tables it writes, the breaker, the timers of the batches that wait, the notices it
  gave and the effects it ran. Everything outside it is a world of a type of its own: the clock, the new ids, the message queue
  and the performing of an effect read the world and may change it. An effect does not itself offer events to the engine.

  The engine only touches the ledger through the ledger's operations, and runs an effect only for a fire it just
  moved to \<open>attempted\<close> (\<open>advances\<close>); so the promises of the ledger are promises of the engine.
\<close>

section \<open>The breaker\<close>

definition MAX_FIRES_PER_MINUTE :: nat where "MAX_FIRES_PER_MINUTE = 30"
definition WINDOW_MS :: nat where "WINDOW_MS = 60000"

definition tryStart :: "instant \<Rightarrow> instant list \<Rightarrow> bool \<times> instant list" where
  "tryStart now startedAt =
     (let recent = dropWhile (\<lambda>t. t + WINDOW_MS \<le> now) startedAt
      in if MAX_FIRES_PER_MINUTE \<le> length recent then (False, recent) else (True, recent @ [now]))"

section \<open>The policy\<close>

datatype policy_outcome = Proceed | CancelFire fire_reason | Hold nat

definition policyVerdictOf :: "(instant \<Rightarrow> instant \<times> instant) \<Rightarrow> trigger_record \<Rightarrow> trigger_fire \<Rightarrow> fire_table \<Rightarrow> instant \<Rightarrow> policy_outcome" where
  "policyVerdictOf localDayBounds trig fire ledger now =
     (let policy = tr_policy trig;
          (from, until) = localDayBounds now;
          firesToday = countEffectsStartedBetween (tr_id trig) from until (tf_id fire) ledger;
          isOverTheDailyCap = (case tp_maxFiresPerDay policy of None \<Rightarrow> False | Some cap \<Rightarrow> cap \<le> firesToday)
      in if isOverTheDailyCap then CancelFire DailyCap
         else (let cooldownEndsAt = (case latestReachedEffectAt (tr_id trig) (tf_id fire) ledger of
                                       None \<Rightarrow> 0
                                     | Some t \<Rightarrow> t + tp_cooldownSeconds policy * 1000);
                   isInCooldown = (0 < tp_cooldownSeconds policy \<and> now < cooldownEndsAt)
               in if \<not> isInCooldown then Proceed
                  else (case tp_batchMode policy of PerBatch \<Rightarrow> Hold (cooldownEndsAt - now) | PerEvent \<Rightarrow> CancelFire Cooldown)))"

section \<open>The engine\<close>

definition MAX_EVENT_JSON_CHARS :: nat where "MAX_EVENT_JSON_CHARS = 8192"
definition MAX_CHAIN_DEPTH :: nat where "MAX_CHAIN_DEPTH = 2"
definition MINUTE_MS :: nat where "MINUTE_MS = 60000"
definition DEFAULT_STALE_BACKLOG_MINUTES :: nat where "DEFAULT_STALE_BACKLOG_MINUTES = 60"
definition CHAIN_CAUSE_WINDOW_MINUTES :: nat where "CHAIN_CAUSE_WINDOW_MINUTES = 60"

datatype action_result = ActionCompleted "string option" | ActionCancelled fire_reason

datatype submit_result = NotArmed | Filtered | EventTooLarge | Duplicate string | Fired string ledger_state

datatype engine_error = KernelFailure kernel_error | LedgerFailure ledger_error

record settled_fire =
  sf_triggerId :: string
  sf_fireId :: string
  sf_ledgerState :: ledger_state
  sf_reason :: "fire_reason option"

record 'w engine_env =
  en_kernel :: kernel_env
  en_clock :: "'w \<Rightarrow> instant"
  en_newId :: "'w \<Rightarrow> string \<times> 'w"
  en_messages :: "'w \<Rightarrow> message_table"
  en_perform :: "trigger_record \<Rightarrow> trigger_fire \<Rightarrow> nat \<Rightarrow> 'w \<Rightarrow> action_result option \<times> 'w" \<comment> \<open>None: it threw\<close>
  en_stringify :: "json \<Rightarrow> string"
  en_localDayBounds :: "instant \<Rightarrow> instant \<times> instant"

record 'w engine =
  eg_triggers :: trigger_table
  eg_ledger :: fire_table
  eg_breaker :: "instant list"
  eg_timers :: "(string \<times> instant) list" \<comment> \<open>the triggers whose batch waits, and when it is due\<close>
  eg_settled :: "settled_fire list"
  eg_opened :: "string list" \<comment> \<open>the triggers the breaker disarmed\<close>
  eg_effects :: "(string \<times> string) list" \<comment> \<open>trigger and dedup key of each effect performed\<close>
  eg_world :: 'w

definition now_of :: "'w engine_env \<Rightarrow> 'w engine \<Rightarrow> instant" where
  "now_of env st = en_clock env (eg_world st)"

definition sessionIdsOf :: "json \<Rightarrow> string list" where
  "sessionIdsOf event =
     concat (map (\<lambda>k. case Option.bind (own_member event ''session'') (\<lambda>s. own_member s k) of Some (JStr i) \<Rightarrow> [i] | _ \<Rightarrow> []) [''id'', ''parentId''])"

definition chainDepthOf :: "'w engine_env \<Rightarrow> json \<Rightarrow> 'w engine \<Rightarrow> nat" where
  "chainDepthOf env event st =
     deepestChainMessagedSince (sessionIdsOf event) (now_of env st - CHAIN_CAUSE_WINDOW_MINUTES * MINUTE_MS) (eg_ledger st) (en_messages env (eg_world st)) + 1"

datatype accept_outcome = AcceptFiltered | AcceptTooLarge | AcceptDuplicate trigger_fire | AcceptAccepted trigger_fire

definition engine_accept ::
  "'w engine_env \<Rightarrow> trigger_record \<Rightarrow> string \<Rightarrow> json \<Rightarrow> instant \<Rightarrow> nat option \<Rightarrow> 'w engine \<Rightarrow> (engine_error + accept_outcome) \<times> 'w engine" where
  "engine_accept env trig dedupKey event firedAt causedByChainDepth st =
     (case evaluateConditions (ke_js (en_kernel env)) (kernelConditionsOf (tr_conditions trig)) (JObj [(''event'', event)]) of
        Inl e \<Rightarrow> (Inl (KernelFailure e), st)
      | Inr False \<Rightarrow> (Inr AcceptFiltered, st)
      | Inr True \<Rightarrow>
          (let eventJson = en_stringify env event
           in if MAX_EVENT_JSON_CHARS < utf16_length eventJson then (Inr AcceptTooLarge, st)
              else (let (i, w) = en_newId env (eg_world st); named = st\<lparr>eg_world := w\<rparr>
                    in case canonicalDigestOf (en_kernel env) event of
                         Inl e \<Rightarrow> (Inl (KernelFailure e), named)
                       | Inr digest \<Rightarrow>
                           (case accept \<lparr>ai_id = i, ai_triggerId = tr_id trig, ai_dedupKey = dedupKey, ai_firedAt = firedAt, ai_eventDigest = digest,
                                         ai_eventJson = eventJson, ai_chainDepth = max (chainDepthOf env event named) (opt_default 0 causedByChainDepth + 1)\<rparr>
                                   (eg_ledger named) of
                              Inl e \<Rightarrow> (Inl (LedgerFailure e), named)
                            | Inr ((wasAccepted, fire), ledger) \<Rightarrow>
                                (Inr (if wasAccepted then AcceptAccepted fire else AcceptDuplicate fire), named\<lparr>eg_ledger := ledger\<rparr>)))))"

definition settle_notice :: "trigger_fire \<Rightarrow> ledger_state \<Rightarrow> fire_reason option \<Rightarrow> 'w engine \<Rightarrow> 'w engine" where
  "settle_notice fire state reason st =
     st\<lparr>eg_settled := eg_settled st @ [\<lparr>sf_triggerId = tf_triggerId fire, sf_fireId = tf_id fire, sf_ledgerState = state, sf_reason = reason\<rparr>]\<rparr>"

definition cancel_fire :: "'w engine_env \<Rightarrow> trigger_fire \<Rightarrow> fire_reason \<Rightarrow> 'w engine \<Rightarrow> 'w engine" where
  "cancel_fire env fire reason st =
     settle_notice fire Cancelled (Some reason) (st\<lparr>eg_ledger := markCancelled (tf_id fire) (now_of env st) reason (eg_ledger st)\<rparr>)"

definition openBreaker :: "'w engine_env \<Rightarrow> trigger_record \<Rightarrow> trigger_fire \<Rightarrow> 'w engine \<Rightarrow> 'w engine" where
  "openBreaker env trig fire st =
     (let st' = cancel_fire env fire BreakerOpen (st\<lparr>eg_triggers := repo_disarm (tr_id trig) (eg_triggers st)\<rparr>)
      in st'\<lparr>eg_opened := eg_opened st' @ [tr_id trig]\<rparr>)"

definition scheduleDrain :: "'w engine_env \<Rightarrow> string \<Rightarrow> nat \<Rightarrow> 'w engine \<Rightarrow> 'w engine" where
  "scheduleDrain env i waitMs st =
     (if i \<in> set (map fst (eg_timers st)) then st else st\<lparr>eg_timers := eg_timers st @ [(i, now_of env st + waitMs)]\<rparr>)"

definition performSafely :: "'w engine_env \<Rightarrow> trigger_record \<Rightarrow> trigger_fire \<Rightarrow> nat \<Rightarrow> 'w engine \<Rightarrow> action_result \<times> 'w engine" where
  "performSafely env trig fire batchSize st =
     (let (result, w) = en_perform env trig fire batchSize (eg_world st);
          st' = st\<lparr>eg_world := w, eg_effects := eg_effects st @ [(tf_triggerId fire, tf_dedupKey fire)]\<rparr>
      in (opt_default (ActionCancelled ActionFailed) result, st'))"

definition run_fire :: "'w engine_env \<Rightarrow> trigger_record \<Rightarrow> trigger_fire \<Rightarrow> nat \<Rightarrow> 'w engine \<Rightarrow> ledger_state \<times> 'w engine" where
  "run_fire env trig fire batchSize st =
     (let (stillOwnsTheFire, ledger) = markAttempted (tf_id fire) (now_of env st) (eg_ledger st)
      in if \<not> stillOwnsTheFire
         then (case get_fire (tf_id fire) ledger of None \<Rightarrow> Cancelled | Some f \<Rightarrow> tf_ledgerState f, st\<lparr>eg_ledger := ledger\<rparr>)
         else (let (result, done) = performSafely env trig fire batchSize (st\<lparr>eg_ledger := ledger\<rparr>); settledAt = now_of env done
               in case result of
                    ActionCompleted runId \<Rightarrow>
                      (Completed, settle_notice fire Completed None (done\<lparr>eg_ledger := markCompleted (tf_id fire) settledAt runId (eg_ledger done)\<rparr>))
                  | ActionCancelled reason \<Rightarrow>
                      (Cancelled, settle_notice fire Cancelled (Some reason) (done\<lparr>eg_ledger := markCancelled (tf_id fire) settledAt reason (eg_ledger done)\<rparr>))))"

definition process_fire :: "'w engine_env \<Rightarrow> trigger_record \<Rightarrow> trigger_fire \<Rightarrow> nat \<Rightarrow> 'w engine \<Rightarrow> ledger_state \<times> 'w engine" where
  "process_fire env trig fire batchSize st =
     (if MAX_CHAIN_DEPTH < tf_chainDepth fire then (Cancelled, cancel_fire env fire ChainDepth st)
      else (case policyVerdictOf (en_localDayBounds env) trig fire (eg_ledger st) (now_of env st) of
              CancelFire reason \<Rightarrow> (Cancelled, cancel_fire env fire reason st)
            | Hold waitMs \<Rightarrow> (Accepted, scheduleDrain env (tr_id trig) waitMs st)
            | Proceed \<Rightarrow>
                (let (fits, breaker) = tryStart (now_of env st) (eg_breaker st); st' = st\<lparr>eg_breaker := breaker\<rparr>
                 in if fits then run_fire env trig fire batchSize st' else (Cancelled, openBreaker env trig fire st'))))"

definition backlogMaxAgeMsOf :: "trigger_record \<Rightarrow> nat option" where
  "backlogMaxAgeMsOf trig =
     (case tp_backlogMaxAgeMinutes (tr_policy trig) of
        Some m \<Rightarrow> Some (m * MINUTE_MS)
      | None \<Rightarrow> if tp_backlogPolicy (tr_policy trig) = DiscardStale then Some (DEFAULT_STALE_BACKLOG_MINUTES * MINUTE_MS) else None)"

definition cancel_all :: "'w engine_env \<Rightarrow> fire_reason \<Rightarrow> trigger_fire list \<Rightarrow> 'w engine \<Rightarrow> 'w engine" where
  "cancel_all env reason fires st = fold (\<lambda>fire. cancel_fire env fire reason) fires st"

definition replayBacklogOf :: "'w engine_env \<Rightarrow> trigger_record \<Rightarrow> trigger_fire list \<Rightarrow> 'w engine \<Rightarrow> 'w engine" where
  "replayBacklogOf env trig acceptedFires st =
     (if \<not> isArmedAsItStands (en_kernel env) trig then cancel_all env Disarmed acceptedFires st
      else (let now = now_of env st;
                isFreshEnough = (\<lambda>fire. case backlogMaxAgeMsOf trig of None \<Rightarrow> True | Some age \<Rightarrow> now \<le> tf_firedAt fire + age);
                fresh = filter isFreshEnough acceptedFires;
                st1 = cancel_all env Stale (filter (\<lambda>fire. \<not> isFreshEnough fire) acceptedFires) st;
                latestOnly = (tp_backlogPolicy (tr_policy trig) = FireLatestOnly);
                toReplay = (if latestOnly then drop (length fresh - 1) fresh else fresh);
                st2 = cancel_all env Superseded (if latestOnly then take (length fresh - 1) fresh else []) st1
            in fold (\<lambda>fire st. snd (process_fire env trig fire 1 st)) toReplay st2))"

definition submit :: "'w engine_env \<Rightarrow> string \<Rightarrow> string \<Rightarrow> json \<Rightarrow> nat option \<Rightarrow> 'w engine \<Rightarrow> (engine_error + submit_result) \<times> 'w engine" where
  "submit env triggerId dedupKey event causedByChainDepth st =
     (case repo_get triggerId (eg_triggers st) of
        None \<Rightarrow> (Inr NotArmed, st)
      | Some trig \<Rightarrow>
          if \<not> isArmedAsItStands (en_kernel env) trig then (Inr NotArmed, st)
          else (let (outcome, st') = engine_accept env trig dedupKey event (now_of env st) causedByChainDepth st
                in case outcome of
                     Inl e \<Rightarrow> (Inl e, st')
                   | Inr AcceptFiltered \<Rightarrow> (Inr Filtered, st')
                   | Inr AcceptTooLarge \<Rightarrow> (Inr EventTooLarge, st')
                   | Inr (AcceptDuplicate fire) \<Rightarrow> (Inr (Duplicate (tf_id fire)), st')
                   | Inr (AcceptAccepted fire) \<Rightarrow> (let (state, st'') = process_fire env trig fire 1 st' in (Inr (Fired (tf_id fire) state), st''))))"

record backlog_offer =
  bo_dedupKey :: string
  bo_event :: json
  bo_dueAt :: instant
  bo_causedByChainDepth :: "nat option"

fun accept_offers :: "'w engine_env \<Rightarrow> trigger_record \<Rightarrow> backlog_offer list \<Rightarrow> 'w engine \<Rightarrow> (engine_error + trigger_fire list) \<times> 'w engine" where
  "accept_offers env trig [] st = (Inr [], st)"
| "accept_offers env trig (offer # offers) st =
     (let (outcome, st') = engine_accept env trig (bo_dedupKey offer) (bo_event offer) (bo_dueAt offer) (bo_causedByChainDepth offer) st
      in case outcome of
           Inl e \<Rightarrow> (Inl e, st')
         | Inr (AcceptAccepted fire) \<Rightarrow> (let (rest, st'') = accept_offers env trig offers st' in (map_sum id (\<lambda>fires. fire # fires) rest, st''))
         | Inr _ \<Rightarrow> accept_offers env trig offers st')"

definition submitBacklog :: "'w engine_env \<Rightarrow> string \<Rightarrow> backlog_offer list \<Rightarrow> 'w engine \<Rightarrow> (engine_error + unit) \<times> 'w engine" where
  "submitBacklog env triggerId offers st =
     (case repo_get triggerId (eg_triggers st) of
        None \<Rightarrow> (Inr (), st)
      | Some trig \<Rightarrow>
          if \<not> isArmedAsItStands (en_kernel env) trig then (Inr (), st)
          else (let (outcome, st') = accept_offers env trig (sort_key bo_dueAt offers) st
                in case outcome of
                     Inl e \<Rightarrow> (Inl e, st')
                   | Inr [] \<Rightarrow> (Inr (), st')
                   | Inr fires \<Rightarrow> (Inr (), replayBacklogOf env trig fires st')))"

definition replay_trigger :: "'w engine_env \<Rightarrow> trigger_fire list \<Rightarrow> string \<Rightarrow> 'w engine \<Rightarrow> 'w engine" where
  "replay_trigger env accepted triggerId st =
     (case repo_get triggerId (eg_triggers st) of
        None \<Rightarrow> st
      | Some trig \<Rightarrow> replayBacklogOf env trig (filter (\<lambda>fire. tf_triggerId fire = triggerId) accepted) st)"

text \<open>The triggers in the order their first fire was met.\<close>

definition replayAcceptedBacklog :: "'w engine_env \<Rightarrow> 'w engine \<Rightarrow> 'w engine" where
  "replayAcceptedBacklog env st =
     (let accepted = listAccepted (eg_ledger st)
      in fold (replay_trigger env accepted) (rev (remdups (rev (map tf_triggerId accepted)))) st)"

definition recover :: "'w engine_env \<Rightarrow> 'w engine \<Rightarrow> 'w engine" where
  "recover env st =
     replayAcceptedBacklog env (st\<lparr>eg_ledger := snd (markInterruptedForReview (now_of env st) (eg_ledger st))\<rparr>)"

definition stop_engine :: "'w engine \<Rightarrow> 'w engine" where
  "stop_engine st = st\<lparr>eg_timers := []\<rparr>"

definition drainBatchOf :: "'w engine_env \<Rightarrow> string \<Rightarrow> 'w engine \<Rightarrow> 'w engine" where
  "drainBatchOf env triggerId st =
     (let held = listAcceptedOf triggerId (eg_ledger st)
      in if held = [] then st
         else (case repo_get triggerId (eg_triggers st) of
                 None \<Rightarrow> cancel_all env Disarmed held st
               | Some trig \<Rightarrow>
                   if \<not> isArmedAsItStands (en_kernel env) trig then cancel_all env Disarmed held st
                   else snd (process_fire env trig (last held) (length held) (cancel_all env Batched (butlast held) st))))"

text \<open>The callback of the timer of a batch.\<close>

definition drain_timer :: "'w engine_env \<Rightarrow> string \<Rightarrow> 'w engine \<Rightarrow> 'w engine" where
  "drain_timer env triggerId st =
     drainBatchOf env triggerId (st\<lparr>eg_timers := filter (\<lambda>(i, _). i \<noteq> triggerId) (eg_timers st)\<rparr>)"

section \<open>The engine advances the ledger\<close>

text \<open>A fire in hand is a copy of a row: same id, same trigger, same dedup key.\<close>

definition known_fire :: "trigger_fire \<Rightarrow> fire_table \<Rightarrow> bool" where
  "known_fire f t \<longleftrightarrow> (\<exists>r \<in> set t. tf_id r = tf_id f \<and> fire_key r = (tf_triggerId f, tf_dedupKey f))"

lemma toFire_simps [simp]:
  "tf_id (toFire r) = tf_id r" "tf_triggerId (toFire r) = tf_triggerId r" "tf_dedupKey (toFire r) = tf_dedupKey r"
  "tf_ledgerState (toFire r) = tf_ledgerState r" "tf_chainDepth (toFire r) = tf_chainDepth r" "tf_firedAt (toFire r) = tf_firedAt r"
  by (simp_all add: toFire_def trigger_fire.truncate_def)

lemma known_toFire: "r \<in> set t \<Longrightarrow> known_fire (toFire r) t"
  by (auto simp: known_fire_def fire_key_def)

lemma known_step: "known_fire f t \<Longrightarrow> known_fire f (ledger_step op t)"
proof (cases "\<exists>i. op = OpAccept i")
  case True
  then obtain i where "op = OpAccept i" by blast
  moreover assume "known_fire f t"
  ultimately show ?thesis by (cases rule: accept_cases [of i t]) (auto simp: known_fire_def)
next
  case False
  then obtain g where "keeps_keys g" "ledger_step op t = map g t" using step_is_update by blast
  moreover assume "known_fire f t"
  ultimately show ?thesis by (auto simp: known_fire_def keeps_keys_def fire_key_def)
qed

text \<open>The contract of every operation of the engine: what it did to the ledger is a sequence of the ledger's operations, and
  the effects it performed are the ones those operations started.\<close>

definition advances :: "'w engine \<Rightarrow> 'w engine \<Rightarrow> bool" where
  "advances st st' \<longleftrightarrow>
     (\<exists>ops. eg_ledger st' = fold ledger_step ops (eg_ledger st) \<and> eg_effects st' = eg_effects st @ starts ops (eg_ledger st))"

definition ready :: "trigger_fire list \<Rightarrow> 'w engine \<Rightarrow> bool" where
  "ready fires st \<longleftrightarrow> ledger_ok (eg_ledger st) \<and> (\<forall>f \<in> set fires. known_fire f (eg_ledger st))"

named_theorems engine_steps \<open>the operations of the engine advance the ledger\<close>

lemma starts_append: "starts (a @ b) t = starts a t @ starts b (fold ledger_step a t)"
  by (induction a arbitrary: t) simp_all

lemma advances_by:
  "eg_ledger st' = fold ledger_step ops (eg_ledger st) \<Longrightarrow> eg_effects st' = eg_effects st @ starts ops (eg_ledger st) \<Longrightarrow> advances st st'"
  by (auto simp: advances_def)

lemma advances_same: "eg_ledger st' = eg_ledger st \<Longrightarrow> eg_effects st' = eg_effects st \<Longrightarrow> advances st st'"
  by (rule advances_by [of _ "[]"]) simp_all

lemma advances_refl [simp]: "advances st st"
  by (rule advances_same) simp_all

lemma advances_trans: "advances a b \<Longrightarrow> advances b c \<Longrightarrow> advances a c"
proof -
  assume "advances a b" "advances b c"
  then obtain o1 o2 where "eg_ledger b = fold ledger_step o1 (eg_ledger a)" "eg_effects b = eg_effects a @ starts o1 (eg_ledger a)"
    "eg_ledger c = fold ledger_step o2 (eg_ledger b)" "eg_effects c = eg_effects b @ starts o2 (eg_ledger b)"
    unfolding advances_def by blast
  then show ?thesis by (intro advances_by [of _ "o1 @ o2"]) (simp_all add: starts_append)
qed

interpretation ledger_ops: kept_by_steps ledger_ok ledger_step
  by unfold_locales (rule ledger_ok_step)

interpretation known_ops: kept_by_steps "known_fire f" ledger_step for f
  by unfold_locales (rule known_step)

lemmas ledger_run_ok = ledger_ops.run_kept
lemmas ledger_run_known = known_ops.run_kept

lemma ready_advances: "ready fires st \<Longrightarrow> advances st st' \<Longrightarrow> ready fires st'"
  unfolding ready_def advances_def using ledger_run_ok ledger_run_known by auto

lemma fold_advances:
  "(\<And>x st. x \<in> set xs \<Longrightarrow> ready fires st \<Longrightarrow> advances st (f x st)) \<Longrightarrow> ready fires st \<Longrightarrow> advances st (fold f xs st)"
proof (induction xs arbitrary: st)
  case (Cons x xs)
  have "advances st (f x st)" using Cons.prems by simp
  moreover from this have "advances (f x st) (fold f xs (f x st))" using Cons ready_advances by force
  ultimately show ?case by (simp add: advances_trans)
qed simp

lemma cancel_advances [engine_steps]: "advances st (cancel_fire env fire reason st)"
  by (rule advances_by [of _ "[OpCancelled (tf_id fire) (now_of env st) reason]"])
    (simp_all add: cancel_fire_def settle_notice_def started_by_def)

lemma cancel_all_advances [engine_steps]: "advances st (cancel_all env reason fires st)"
  unfolding cancel_all_def by (induction fires arbitrary: st) (auto intro: advances_trans cancel_advances)

lemma openBreaker_advances [engine_steps]: "advances st (openBreaker env trig fire st)"
  by (rule advances_by [of _ "[OpCancelled (tf_id fire) (now_of env st) BreakerOpen]"])
    (simp_all add: openBreaker_def cancel_fire_def settle_notice_def started_by_def now_of_def Let_def)

lemma scheduleDrain_advances [engine_steps]: "advances st (scheduleDrain env i waitMs st)"
  by (rule advances_same) (simp_all add: scheduleDrain_def)

lemma started_single:
  assumes "ledger_ok t" "known_fire f t" "fst (markAttempted (tf_id f) moment t)"
  shows "started_by (OpAttempted (tf_id f) moment) t = [(tf_triggerId f, tf_dedupKey f)]"
proof -
  from assms(2) obtain r where r: "r \<in> set t" "tf_id r = tf_id f" "fire_key r = (tf_triggerId f, tf_dedupKey f)" by (auto simp: known_fire_def)
  let ?rows = "filter (\<lambda>r. tf_id r = tf_id f \<and> tf_ledgerState r = Accepted) t"
  have "inj_on tf_id (set t)" "distinct t" using assms(1) by (auto simp: ledger_ok_def distinct_map)
  have only: "\<forall>x \<in> set ?rows. x = r"
  proof
    fix x assume "x \<in> set ?rows"
    then have "x \<in> set t" "tf_id x = tf_id r" using r by auto
    then show "x = r" using inj_onD [OF \<open>inj_on tf_id (set t)\<close>] r(1) by blast
  qed
  have "?rows \<noteq> []" using assms(3) by (simp add: markAttempted_def update_fires_def)
  moreover have "distinct ?rows" using \<open>distinct t\<close> by simp
  ultimately have "?rows = [r]" using only by (cases ?rows rule: remdups_adj.cases) auto
  then show ?thesis using assms(3) r by (simp add: started_by_def)
qed

lemma not_attempted: "\<not> fst (markAttempted i moment t) \<Longrightarrow> started_by (OpAttempted i moment) t = []"
  by (simp add: started_by_def)

lemma run_fire_advances [engine_steps]:
  assumes "ready [fire] st"
  shows "advances st (snd (run_fire env trig fire batchSize st))"
proof (cases "fst (markAttempted (tf_id fire) (now_of env st) (eg_ledger st))")
  case False
  then show ?thesis
    by (intro advances_by [of _ "[OpAttempted (tf_id fire) (now_of env st)]"]) (simp_all add: run_fire_def split_beta Let_def not_attempted)
next
  case True
  obtain ledger where att: "markAttempted (tf_id fire) (now_of env st) (eg_ledger st) = (True, ledger)" using True by (metis prod.collapse)
  obtain result after where perf: "performSafely env trig fire batchSize (st\<lparr>eg_ledger := ledger\<rparr>) = (result, after)" by fastforce
  then have mid: "eg_ledger after = ledger" "eg_effects after = eg_effects st @ [(tf_triggerId fire, tf_dedupKey fire)]"
    by (auto simp: performSafely_def split_beta Let_def)
  have started: "started_by (OpAttempted (tf_id fire) (now_of env st)) (eg_ledger st) = [(tf_triggerId fire, tf_dedupKey fire)]"
    using assms True by (intro started_single) (simp_all add: ready_def)
  show ?thesis
  proof (cases result)
    case (ActionCompleted runId)
    then show ?thesis using att perf mid started
      by (intro advances_by [of _ "[OpAttempted (tf_id fire) (now_of env st), OpCompleted (tf_id fire) (now_of env after) runId]"])
        (simp_all add: run_fire_def settle_notice_def started_by_def [of "OpCompleted _ _ _"])
  next
    case (ActionCancelled reason)
    then show ?thesis using att perf mid started
      by (intro advances_by [of _ "[OpAttempted (tf_id fire) (now_of env st), OpCancelled (tf_id fire) (now_of env after) reason]"])
        (simp_all add: run_fire_def settle_notice_def started_by_def [of "OpCancelled _ _ _"])
  qed
qed

lemma process_fire_advances [engine_steps]:
  assumes "ready [fire] st"
  shows "advances st (snd (process_fire env trig fire batchSize st))"
proof -
  have breaker: "advances st (st\<lparr>eg_breaker := b\<rparr>)" for b by (rule advances_same) simp_all
  then have ready: "ready [fire] (st\<lparr>eg_breaker := b\<rparr>)" for b using ready_advances [OF assms] by blast
  have "advances st (snd (run_fire env trig fire batchSize (st\<lparr>eg_breaker := b\<rparr>)))" for b
    by (rule advances_trans [OF breaker run_fire_advances [OF ready]])
  moreover have "advances st (openBreaker env trig fire (st\<lparr>eg_breaker := b\<rparr>))" for b
    by (rule advances_trans [OF breaker openBreaker_advances])
  ultimately show ?thesis
    by (simp add: process_fire_def split_beta Let_def engine_steps split: policy_outcome.splits)
qed

lemma accept_known: "accept i t = Inr ((True, f), t') \<Longrightarrow> known_fire f t'"
  by (cases rule: accept_cases [of i t]) (auto intro: known_toFire)

lemma engine_accept_advances [engine_steps]: "advances st (snd (engine_accept env trig key event firedAt caused st))"
proof -
  have world: "advances st (st\<lparr>eg_world := w\<rparr>)" for w by (rule advances_same) simp_all
  have accepted: "advances st (st\<lparr>eg_world := w, eg_ledger := t\<rparr>)" if "accept i (eg_ledger st) = Inr (x, t)" for w t i x
    using that by (intro advances_by [of _ "[OpAccept i]"]) (simp_all add: started_by_def)
  show ?thesis
    by (auto simp: engine_accept_def Let_def split_beta world intro: accepted split: sum.splits bool.splits)
qed

lemma engine_accept_known:
  "engine_accept env trig key event firedAt caused st = (Inr (AcceptAccepted fire), st') \<Longrightarrow> known_fire fire (eg_ledger st')"
  by (auto simp: engine_accept_def Let_def split_beta intro: accept_known split: sum.splits bool.splits if_splits)

lemma ready_subset: "ready fires st \<Longrightarrow> set fires' \<subseteq> set fires \<Longrightarrow> ready fires' st"
  by (auto simp: ready_def)

lemma replayBacklogOf_advances [engine_steps]:
  fixes st :: "'a engine"
  assumes "ready fires st"
  shows "advances st (replayBacklogOf env trig fires st)"
proof -
  have run: "advances s (fold (\<lambda>fire s. snd (process_fire env trig fire 1 s)) todo s)" if "advances st s" "set todo \<subseteq> set fires" for s todo
  proof (rule fold_advances [of _ fires])
    fix x and s' :: "'a engine"
    assume "x \<in> set todo" "ready fires s'"
    then have "ready [x] s'" using that by (auto simp: ready_def)
    then show "advances s' (snd (process_fire env trig x 1 s'))" by (rule process_fire_advances)
  qed (use ready_advances [OF assms] that in blast)
  have replay: "advances st (fold (\<lambda>fire s. snd (process_fire env trig fire 1 s)) todo (cancel_all env Superseded old (cancel_all env Stale late st)))"
    if "set todo \<subseteq> set fires" for todo old late
  proof -
    have "advances st (cancel_all env Superseded old (cancel_all env Stale late st))"
      by (rule advances_trans [OF cancel_all_advances cancel_all_advances])
    then show ?thesis using run that by (blast intro: advances_trans)
  qed
  have "set (drop n (filter P fires)) \<subseteq> set fires" "set (filter P fires) \<subseteq> set fires" for n P
    by (auto dest: in_set_dropD)
  then show ?thesis unfolding replayBacklogOf_def Let_def by (simp add: cancel_all_advances replay del: One_nat_def)
qed

lemma submit_advances [engine_steps]:
  assumes "ledger_ok (eg_ledger st)"
  shows "advances st (snd (submit env i key event caused st))"
proof (cases "repo_get i (eg_triggers st)")
  case (Some trig)
  obtain outcome st' where acc: "engine_accept env trig key event (now_of env st) caused st = (outcome, st')" by fastforce
  then have st': "advances st st'" using engine_accept_advances by (metis snd_conv)
  have "advances st (snd (process_fire env trig fire 1 st'))" if "outcome = Inr (AcceptAccepted fire)" for fire
  proof (rule advances_trans [OF st' process_fire_advances])
    have "ready [] st'" using ready_advances [OF _ st', of "[]"] assms by (simp add: ready_def)
    then show "ready [fire] st'" using engine_accept_known acc that by (auto simp: ready_def)
  qed
  then show ?thesis using Some acc st' by (auto simp: submit_def split_beta split: sum.splits accept_outcome.splits)
qed (simp add: submit_def)

lemma accept_offers_advances:
  "ledger_ok (eg_ledger st) \<Longrightarrow> advances st (snd (accept_offers env trig offers st)) \<and>
   (\<forall>fires. fst (accept_offers env trig offers st) = Inr fires \<longrightarrow> ready fires (snd (accept_offers env trig offers st)))"
proof (induction offers arbitrary: st)
  case Nil
  then show ?case by (simp add: ready_def)
next
  case (Cons offer offers)
  obtain outcome st1 where acc: "engine_accept env trig (bo_dedupKey offer) (bo_event offer) (bo_dueAt offer) (bo_causedByChainDepth offer) st = (outcome, st1)"
    by fastforce
  then have st1: "advances st st1" using engine_accept_advances by (metis snd_conv)
  then have ok: "ledger_ok (eg_ledger st1)" using ready_advances [of "[]" st st1] Cons.prems by (simp add: ready_def)
  note rest = Cons.IH [OF ok]
  show ?case
  proof (cases outcome)
    case (Inr o1)
    show ?thesis
    proof (cases o1)
      case (AcceptAccepted fire)
      have "known_fire fire (eg_ledger st1)" using acc Inr AcceptAccepted engine_accept_known by blast
      then have "ready [fire] (snd (accept_offers env trig offers st1))"
        using ready_advances [of "[fire]" st1] rest ok by (simp add: ready_def)
      then show ?thesis using acc Inr AcceptAccepted rest st1
        by (cases "fst (accept_offers env trig offers st1)") (auto simp: split_beta ready_def intro: advances_trans)
    qed (use acc Inr rest st1 in \<open>auto intro: advances_trans\<close>)
  qed (use acc st1 in simp)
qed

lemma submitBacklog_advances [engine_steps]:
  assumes "ledger_ok (eg_ledger st)"
  shows "advances st (snd (submitBacklog env i offers st))"
proof (cases "repo_get i (eg_triggers st)")
  case (Some trig)
  obtain outcome st' where acc: "accept_offers env trig (sort_key bo_dueAt offers) st = (outcome, st')" by fastforce
  with accept_offers_advances [OF assms, of env trig "sort_key bo_dueAt offers"]
  have "advances st st'" "\<And>fires. outcome = Inr fires \<Longrightarrow> ready fires st'" by auto
  then show ?thesis using Some acc
    by (auto simp: submitBacklog_def split: sum.splits list.splits intro: advances_trans [OF _ replayBacklogOf_advances])
qed (simp add: submitBacklog_def)

lemma listed_known: "fire \<in> set (listAccepted t) \<Longrightarrow> known_fire fire t" "fire \<in> set (listAcceptedOf i t) \<Longrightarrow> known_fire fire t"
  by (auto simp: listAccepted_def listAcceptedOf_def intro: known_toFire)

lemma recover_advances [engine_steps]:
  fixes st :: "'a engine"
  assumes "ledger_ok (eg_ledger st)"
  shows "advances st (recover env st)"
proof -
  let ?st = "st\<lparr>eg_ledger := snd (markInterruptedForReview (now_of env st) (eg_ledger st))\<rparr>"
  let ?accepted = "listAccepted (eg_ledger ?st)"
  have st: "advances st ?st" by (rule advances_by [of _ "[OpInterrupted (now_of env st)]"]) (simp_all add: started_by_def)
  have "ready [] ?st" using ready_advances [OF _ st, of "[]"] assms by (simp add: ready_def)
  then have ready: "ready ?accepted ?st" using listed_known by (auto simp: ready_def)
  have "advances s (replay_trigger env ?accepted i s)" if "ready ?accepted s" for s :: "'a engine" and i
    using replayBacklogOf_advances [OF ready_subset [OF that]] by (auto simp: replay_trigger_def split: option.splits)
  then have "advances ?st (replayAcceptedBacklog env ?st)"
    unfolding replayAcceptedBacklog_def Let_def by (intro fold_advances [OF _ ready])
  with st show ?thesis unfolding recover_def by (rule advances_trans)
qed

lemma drainBatchOf_advances:
  fixes st :: "'a engine"
  assumes "ledger_ok (eg_ledger st)"
  shows "advances st (drainBatchOf env i st)"
proof -
  let ?held = "listAcceptedOf i (eg_ledger st)"
  let ?st = "cancel_all env Batched (butlast ?held) st"
  have "ready ?held st" using assms listed_known by (auto simp: ready_def)
  then have "ready ?held ?st" by (rule ready_advances [OF _ cancel_all_advances])
  then have "advances st (snd (process_fire env trig (last ?held) (length ?held) ?st))" if "?held \<noteq> []" for trig
    using that by (intro advances_trans [OF cancel_all_advances process_fire_advances]) (auto simp: ready_def)
  then show ?thesis unfolding drainBatchOf_def Let_def by (simp add: cancel_all_advances split: option.splits)
qed

lemma drain_timer_advances [engine_steps]:
  assumes "ledger_ok (eg_ledger st)"
  shows "advances st (drain_timer env i st)"
proof -
  let ?st = "st\<lparr>eg_timers := filter (\<lambda>(j, _). j \<noteq> i) (eg_timers st)\<rparr>"
  have "advances st ?st" by (rule advances_same) simp_all
  moreover have "advances ?st (drainBatchOf env i ?st)" using assms by (intro drainBatchOf_advances) simp
  ultimately show ?thesis unfolding drain_timer_def by (rule advances_trans)
qed

section \<open>Lives of the engine\<close>

text \<open>What the engine does, operation by operation.\<close>

inductive engine_op :: "'w engine_env \<Rightarrow> 'w engine \<Rightarrow> 'w engine \<Rightarrow> bool" for env where
  submitted: "engine_op env st (snd (submit env i key event caused st))"
| backlog: "engine_op env st (snd (submitBacklog env i offers st))"
| drained: "engine_op env st (drain_timer env i st)"
| recovered: "engine_op env st (recover env st)"
| stopped: "engine_op env st (stop_engine st)"

text \<open>A life interleaves whole operations, changes around the engine (edits of the triggers, time, messages, a new process
  with an empty breaker and no timers) and crashes, which cut an operation after any number of its writes. Deleting a trigger
  deletes its fires in the database (migration 064) and keeps them here; no later trigger has its id.\<close>

inductive engine_step :: "'w engine_env \<Rightarrow> 'w engine \<Rightarrow> 'w engine \<Rightarrow> bool" for env where
  whole: "engine_op env st st' \<Longrightarrow> engine_step env st st'"
| around: "eg_ledger st' = eg_ledger st \<Longrightarrow> eg_effects st' = eg_effects st \<Longrightarrow> engine_step env st st'"
| crashed: "engine_op env st whole \<Longrightarrow> eg_ledger whole = fold ledger_step writes (eg_ledger st) \<Longrightarrow>
    eg_ledger st' = fold ledger_step (take n writes) (eg_ledger st) \<Longrightarrow>
    eg_effects st' = eg_effects st @ starts (take n writes) (eg_ledger st) \<Longrightarrow> engine_step env st st'"

inductive_cases engine_opE: "engine_op env st st'"

lemma engine_op_advances: "engine_op env st st' \<Longrightarrow> ledger_ok (eg_ledger st) \<Longrightarrow> advances st st'"
  by (induction rule: engine_op.induct) (auto simp: engine_steps stop_engine_def intro: advances_same)

lemma engine_step_advances: "engine_step env st st' \<Longrightarrow> ledger_ok (eg_ledger st) \<Longrightarrow> advances st st'"
  by (induction rule: engine_step.induct) (auto intro: engine_op_advances advances_same advances_by)

lemma life_advances: "(engine_step env)\<^sup>*\<^sup>* st st' \<Longrightarrow> ledger_ok (eg_ledger st) \<Longrightarrow> advances st st'"
proof (induction rule: rtranclp_induct)
  case (step b c)
  from step.IH step.prems have "advances st b" by simp
  moreover from this step.prems have "ledger_ok (eg_ledger b)" using ready_advances [of "[]" st b] by (simp add: ready_def)
  ultimately show ?case using engine_step_advances [OF step.hyps(2)] advances_trans by blast
qed simp

section \<open>The cap of the breaker\<close>

text \<open>The breaker asked at a sequence of moments: the effects it let start.\<close>

fun granted :: "instant list \<Rightarrow> instant list \<Rightarrow> instant list" where
  "granted [] startedAt = []"
| "granted (now # moments) startedAt =
     (let (fits, startedAt') = tryStart now startedAt in (if fits then [now] else []) @ granted moments startedAt')"

definition in_window :: "instant \<Rightarrow> instant list \<Rightarrow> instant list" where
  "in_window x ts = filter (\<lambda>t. x \<le> t \<and> t < x + WINDOW_MS) ts"

text \<open>What the breaker remembers of the effects it let start so far is the end of their list.\<close>

definition breaker_ok :: "instant \<Rightarrow> instant list \<Rightarrow> instant list \<Rightarrow> bool" where
  "breaker_ok now started remembered \<longleftrightarrow>
     sorted started \<and> list_all (\<lambda>t. t \<le> now) started \<and> remembered = dropWhile (\<lambda>t. t + WINDOW_MS \<le> now) started
     \<and> (\<forall>x. length (in_window x started) \<le> MAX_FIRES_PER_MINUTE)"

lemma dropWhile_later: "now \<le> later \<Longrightarrow> dropWhile (\<lambda>t. t + w \<le> later) (dropWhile (\<lambda>t. t + w \<le> now) ts) = dropWhile (\<lambda>t. t + w \<le> (later :: nat)) ts"
  by (induction ts) auto

lemma window_remembered:
  assumes "sorted ts" "x \<le> now" "now < x + w"
  shows "length (filter (\<lambda>t. x \<le> t \<and> t < x + w) ts) \<le> length (dropWhile (\<lambda>t. t + w \<le> (now :: nat)) ts)"
  using assms(1)
proof (induction ts)
  case (Cons t ts)
  show ?case
  proof (cases "t + w \<le> now")
    case True
    then show ?thesis using Cons assms by simp
  next
    case False
    then show ?thesis by (simp add: le_SucI)
  qed
qed simp

lemma breaker_step:
  assumes "breaker_ok now started remembered" "now \<le> later" "tryStart later remembered = (fits, remembered')"
  shows "breaker_ok later (started @ (if fits then [later] else [])) remembered'"
proof -
  let ?recent = "dropWhile (\<lambda>t. t + WINDOW_MS \<le> later) started"
  have recent: "dropWhile (\<lambda>t. t + WINDOW_MS \<le> later) remembered = ?recent"
    using assms(1) dropWhile_later [OF assms(2)] by (simp add: breaker_ok_def)
  have sorted: "sorted started" and early: "\<forall>t \<in> set started. t \<le> now" using assms(1) by (auto simp: breaker_ok_def list_all_iff)
  show ?thesis
  proof (cases "MAX_FIRES_PER_MINUTE \<le> length ?recent")
    case True
    then show ?thesis using assms recent by (auto simp: breaker_ok_def tryStart_def Let_def list_all_iff)
  next
    case False
    have "length (in_window x (started @ [later])) \<le> MAX_FIRES_PER_MINUTE" for x
    proof (cases "x \<le> later \<and> later < x + WINDOW_MS")
      case True
      then show ?thesis using window_remembered [OF sorted, of x later WINDOW_MS] False by (simp add: in_window_def)
    next
      case other: False
      then show ?thesis using assms(1) by (auto simp: in_window_def breaker_ok_def)
    qed
    moreover have "?recent @ [later] = dropWhile (\<lambda>t. t + WINDOW_MS \<le> later) (started @ [later])"
      by (induction started) (auto simp: WINDOW_MS_def)
    ultimately show ?thesis using assms recent False sorted early
      by (auto simp: breaker_ok_def tryStart_def Let_def list_all_iff sorted_append)
  qed
qed

lemma granted_capped:
  "breaker_ok now started remembered \<Longrightarrow> sorted (now # moments) \<Longrightarrow> length (in_window x (started @ granted moments remembered)) \<le> MAX_FIRES_PER_MINUTE"
proof (induction moments arbitrary: now started remembered)
  case Nil
  then show ?case by (simp add: breaker_ok_def)
next
  case (Cons later moments)
  obtain fits remembered' where step: "tryStart later remembered = (fits, remembered')" by fastforce
  let ?new = "if fits then [later] else []"
  have "breaker_ok later (started @ ?new) remembered'" using breaker_step [OF Cons.prems(1) _ step] Cons.prems(2) by simp
  from Cons.IH [OF this] Cons.prems(2) have "length (in_window x ((started @ ?new) @ granted moments remembered')) \<le> MAX_FIRES_PER_MINUTE" by simp
  then show ?case by (simp only: granted.simps step Let_def prod.case append_assoc)
qed

section \<open>Properties\<close>

text \<open>C6: An effect runs at most once for a trigger and a dedup key, whatever happens to the daemon. Take any life of the engine from
  a sound ledger with no effect run yet: events offered one by one or as a backlog, batches drained, triggers edited
  or disarmed around it, the daemon restarted, or stopped dead in the middle of an operation. No pair of trigger
  and dedup key ever has its effect performed twice, and the ledger stays sound.\<close>

theorem no_effect_twice:
  assumes "(engine_step env)\<^sup>*\<^sup>* st st'" "ledger_ok (eg_ledger st)" "eg_effects st = []"
  shows "distinct (eg_effects st') \<and> ledger_ok (eg_ledger st')"
proof -
  from life_advances [OF assms(1,2)] obtain ops where "eg_ledger st' = fold ledger_step ops (eg_ledger st)" "eg_effects st' = starts ops (eg_ledger st)"
    using assms(3) unfolding advances_def by auto
  then show ?thesis using starts_distinct [OF assms(2)] ledger_run_ok [OF assms(2)] by simp
qed

definition example_engine_env :: "nat engine_env" where
  "example_engine_env = \<lparr>en_kernel = example_env, en_clock = id, en_newId = (\<lambda>w. (nat_digits w, w + 1)), en_messages = (\<lambda>_. []),
     en_perform = (\<lambda>trig fire n w. (Some (ActionCompleted None), w + 1)), en_stringify = (\<lambda>_. ''event''), en_localDayBounds = (\<lambda>t. (0, t + 1))\<rparr>"

definition example_engine :: "nat engine" where
  "example_engine = \<lparr>eg_triggers = [], eg_ledger = example_ledger, eg_breaker = [], eg_timers = [], eg_settled = [], eg_opened = [], eg_effects = [], eg_world = 20\<rparr>"

theorem no_effect_twice_witness:
  "distinct (eg_effects (recover example_engine_env example_engine)) \<and> ledger_ok (eg_ledger (recover example_engine_env example_engine))"
proof (rule no_effect_twice [where st = example_engine])
  show "(engine_step example_engine_env)\<^sup>*\<^sup>* example_engine (recover example_engine_env example_engine)"
    by (intro r_into_rtranclp engine_step.whole engine_op.recovered)
  show "ledger_ok (eg_ledger example_engine)"
    by (simp add: example_engine_def ledger_ok_def example_ledger_def accepted_row_def example_input_def)
qed (simp add: example_engine_def)

text \<open>C9: The breaker keeps its promise on a sliding minute: asked at any moments in order, it lets at most thirty effects start
  in any sixty seconds, wherever the minute begins.\<close>

theorem at_most_thirty_in_a_minute:
  assumes "sorted moments"
  shows "length (in_window x (granted moments [])) \<le> 30"
proof (cases moments)
  case (Cons now rest)
  have "breaker_ok now [] []" by (simp add: breaker_ok_def in_window_def)
  from granted_capped [OF this, of moments x] show ?thesis using assms Cons by (simp add: MAX_FIRES_PER_MINUTE_def)
qed (simp add: in_window_def)

theorem at_most_thirty_in_a_minute_witness: "length (in_window 0 (granted (replicate 40 7) [])) \<le> 30"
  by (rule at_most_thirty_in_a_minute) simp

end
