(* ===== verification/Civil_Calendar.thy ===== *)
theory Civil_Calendar
  imports Fleet_Prelude
begin

text \<open>
  The dates of the language (ECMAScript, \<open>Date\<close>): days and years of the proleptic Gregorian calendar, the fields of an
  instant in UTC, and \<open>Date.UTC\<close>, which reads the years 0 to 99 as 1900 to 1999. A day is the number of days since the first
  of January 1970, an instant a number of milliseconds.
\<close>

section \<open>Years\<close>

definition leap_year :: "int \<Rightarrow> bool" where
  "leap_year y \<longleftrightarrow> y mod 4 = 0 \<and> (y mod 100 \<noteq> 0 \<or> y mod 400 = 0)"

definition DayFromYear :: "int \<Rightarrow> int" where
  "DayFromYear y = 365 * (y - 1970) + (y - 1969) div 4 - (y - 1901) div 100 + (y - 1601) div 400"

definition DaysInYear :: "int \<Rightarrow> int" where
  "DaysInYear y = (if leap_year y then 366 else 365)"

lemma div_next: "0 < (n :: int) \<Longrightarrow> (x + 1) div n = x div n + (if (x + 1) mod n = 0 then 1 else 0)"
proof -
  assume n: "0 < n"
  have x: "x + 1 = n * (x div n) + (x mod n + 1)" by simp
  have m: "0 \<le> x mod n" "x mod n < n" using n by simp_all
  show ?thesis
  proof (cases "x mod n + 1 = n")
    case True
    then have "x + 1 = n * (x div n + 1)" using x by (simp add: distrib_left)
    then show ?thesis using n by simp
  next
    case False
    then have "(x + 1) div n = x div n" "(x + 1) mod n = x mod n + 1"
      using m x int_div_pos_eq [of "x + 1" n "x div n" "x mod n + 1"] int_mod_pos_eq [of "x + 1" n "x div n" "x mod n + 1"] by simp_all
    then show ?thesis using m by simp
  qed
qed

lemma DayFromYear_Suc: "DayFromYear (y + 1) = DayFromYear y + DaysInYear y"
proof -
  have "(y - 1968) mod 4 = y mod 4" using mod_mult_self1 [of y "- 492" 4] by simp
  then have q: "(y + 1 - 1969) div 4 = (y - 1969) div 4 + (if y mod 4 = 0 then 1 else 0)" using div_next [of 4 "y - 1969"] by simp
  have "(y - 1900) mod 100 = y mod 100" using mod_mult_self1 [of y "- 19" 100] by simp
  then have c: "(y + 1 - 1901) div 100 = (y - 1901) div 100 + (if y mod 100 = 0 then 1 else 0)" using div_next [of 100 "y - 1901"] by simp
  have "(y - 1600) mod 400 = y mod 400" using mod_mult_self1 [of y "- 4" 400] by simp
  then have f: "(y + 1 - 1601) div 400 = (y - 1601) div 400 + (if y mod 400 = 0 then 1 else 0)" using div_next [of 400 "y - 1601"] by simp
  have nested: "y mod 100 = 0 \<Longrightarrow> y mod 4 = 0" "y mod 400 = 0 \<Longrightarrow> y mod 100 = 0"
    using mod_mod_cancel [of 4 100 y] mod_mod_cancel [of 100 400 y] by auto
  have leap: "(if y mod 4 = 0 then 1 else 0) - (if y mod 100 = 0 then 1 else 0) + (if y mod 400 = 0 then 1 else 0) = (if leap_year y then 1 else (0 :: int))"
    using nested unfolding leap_year_def by presburger
  have "i - j + k = l \<Longrightarrow> 365 * (y + 1 - 1970) + (A + i) - (B + j) + (C + k) = 365 * (y - 1970) + A - B + C + (365 + l)" for A B C i j k l :: int
    by simp
  from this [OF leap] show ?thesis unfolding DayFromYear_def q c f DaysInYear_def by (cases "leap_year y") simp_all
qed

lemma DaysInYear_bounds: "365 \<le> DaysInYear y" "DaysInYear y \<le> 366"
  by (simp_all add: DaysInYear_def)

lemma DayFromYear_add: "365 * int k \<le> DayFromYear (y + int k) - DayFromYear y \<and> DayFromYear (y + int k) - DayFromYear y \<le> 366 * int k"
proof (induction k)
  case (Suc k)
  have "DayFromYear (y + int (Suc k)) = DayFromYear (y + int k) + DaysInYear (y + int k)"
    using DayFromYear_Suc [of "y + int k"] by (simp add: add.commute add.left_commute)
  then show ?case using Suc DaysInYear_bounds [of "y + int k"] by simp
qed simp

lemma DayFromYear_mono: "y \<le> z \<Longrightarrow> 365 * (z - y) \<le> DayFromYear z - DayFromYear y \<and> DayFromYear z - DayFromYear y \<le> 366 * (z - y)"
  using DayFromYear_add [of "nat (z - y)" y] by simp

text \<open>The year of a day, found upwards from a year that cannot be later.\<close>

function year_from :: "int \<Rightarrow> int \<Rightarrow> int" where
  "year_from y d = (if DayFromYear (y + 1) \<le> d then year_from (y + 1) d else y)"
  by pat_completeness auto
termination
proof (relation "measure (\<lambda>(y, d). nat (d - DayFromYear y))", goal_cases)
  case (2 y d)
  then show ?case using DayFromYear_Suc [of y] DaysInYear_bounds(1) [of y] by simp
qed simp

declare year_from.simps [simp del]

definition YearFromDay :: "int \<Rightarrow> int" where
  "YearFromDay d = year_from (1970 + d div (if 0 \<le> d then 366 else 365)) d"

lemma year_from_spec: "DayFromYear y \<le> d \<Longrightarrow> DayFromYear (year_from y d) \<le> d \<and> d < DayFromYear (year_from y d + 1)"
proof (induction y d rule: year_from.induct)
  case (1 y d)
  then show ?case by (subst (1 2) year_from.simps) auto
qed

lemma DayFromYear_1970: "DayFromYear 1970 = 0"
  by (simp add: DayFromYear_def)

lemma YearFromDay_spec: "DayFromYear (YearFromDay d) \<le> d \<and> d < DayFromYear (YearFromDay d + 1)"
proof -
  have "DayFromYear (1970 + d div (if 0 \<le> d then 366 else 365)) \<le> d"
  proof (cases "0 \<le> d")
    case True
    then have "0 \<le> d div 366" "366 * (d div 366) \<le> d" by simp_all
    then show ?thesis using True DayFromYear_mono [of 1970 "1970 + d div 366"] by (simp add: DayFromYear_1970)
  next
    case False
    then have "d div 365 \<le> 0" "365 * (d div 365) \<le> d" by (simp_all add: div_nonpos_pos_le0)
    then show ?thesis using False DayFromYear_mono [of "1970 + d div 365" 1970] by (simp add: DayFromYear_1970)
  qed
  then show ?thesis unfolding YearFromDay_def by (rule year_from_spec)
qed

lemma YearFromDay_unique:
  assumes "DayFromYear y \<le> d" "d < DayFromYear (y + 1)"
  shows "YearFromDay d = y"
proof -
  have "\<not> y + 1 \<le> YearFromDay d" "\<not> YearFromDay d + 1 \<le> y"
    using assms YearFromDay_spec [of d] DayFromYear_mono [of "y + 1" "YearFromDay d"] DayFromYear_mono [of "YearFromDay d + 1" y] by auto
  then show ?thesis by simp
qed

section \<open>Months\<close>

definition month_starts :: "int list" where
  "month_starts = [0, 31, 59, 90, 120, 151, 181, 212, 243, 273, 304, 334]"

text \<open>The first day of a month, from 0 to 11, within its year.\<close>

definition MonthStart :: "bool \<Rightarrow> nat \<Rightarrow> int" where
  "MonthStart is_leap k = month_starts ! k + (if is_leap \<and> 2 \<le> k then 1 else 0)"

definition MonthOf :: "bool \<Rightarrow> int \<Rightarrow> nat" where
  "MonthOf is_leap d = length (takeWhile (\<lambda>k. MonthStart is_leap k \<le> d) [1..<12])"

lemma month_list: "[Suc 0..<12] = [1, 2, 3, 4, 5, 6, 7, 8, 9, 10, 11 :: nat]"
  by (simp add: upt_rec)

lemma MonthOf_spec:
  assumes "0 \<le> d" "d < (if is_leap then 366 else 365)"
  shows "MonthOf is_leap d < 12" "MonthStart is_leap (MonthOf is_leap d) \<le> d" "d - MonthStart is_leap (MonthOf is_leap d) < 31"
  using assms by (auto simp: MonthOf_def month_list MonthStart_def month_starts_def split: if_splits)

section \<open>Days\<close>

definition MakeDay :: "int \<Rightarrow> int \<Rightarrow> int \<Rightarrow> int" where
  "MakeDay y m d = (let ym = y + m div 12 in DayFromYear ym + MonthStart (leap_year ym) (nat (m mod 12)) + d - 1)"

definition DayInYear :: "int \<Rightarrow> int" where
  "DayInYear d = d - DayFromYear (YearFromDay d)"

text \<open>Months count from 0, as in the language.\<close>

definition MonthFromDay :: "int \<Rightarrow> int" where
  "MonthFromDay d = int (MonthOf (leap_year (YearFromDay d)) (DayInYear d))"

definition DateFromDay :: "int \<Rightarrow> int" where
  "DateFromDay d = DayInYear d - MonthStart (leap_year (YearFromDay d)) (nat (MonthFromDay d)) + 1"

definition WeekDay :: "int \<Rightarrow> int" where
  "WeekDay d = (4 + d) mod 7"

lemma DayInYear_bounds: "0 \<le> DayInYear d \<and> DayInYear d < (if leap_year (YearFromDay d) then 366 else 365)"
  using YearFromDay_spec [of d] DayFromYear_Suc [of "YearFromDay d"] by (simp add: DayInYear_def DaysInYear_def)

lemma MonthFromDay_bounds: "0 \<le> MonthFromDay d \<and> MonthFromDay d < 12"
  using DayInYear_bounds [of d] MonthOf_spec(1) by (simp add: MonthFromDay_def)

lemma DateFromDay_bounds: "1 \<le> DateFromDay d \<and> DateFromDay d \<le> 31"
  using DayInYear_bounds [of d] MonthOf_spec(2,3) [of "DayInYear d" "leap_year (YearFromDay d)"] by (simp add: DateFromDay_def MonthFromDay_def)

lemma MakeDay_fields: "MakeDay (YearFromDay d) (MonthFromDay d) (DateFromDay d) = d"
  using MonthFromDay_bounds [of d] by (simp add: MakeDay_def Let_def DateFromDay_def DayInYear_def div_pos_pos_trivial mod_pos_pos_trivial)

section \<open>Instants\<close>

definition DAY_MS :: int where "DAY_MS = 86400000"
definition HOUR_MS :: int where "HOUR_MS = 3600000"
definition MINUTE_MS :: int where "MINUTE_MS = 60000"

lemmas ms_defs = DAY_MS_def HOUR_MS_def MINUTE_MS_def

record civil_fields =
  cf_year :: int
  cf_month :: int \<comment> \<open>from 1\<close>
  cf_dayOfMonth :: int
  cf_hour :: int
  cf_minute :: int

definition date_UTC :: "int \<Rightarrow> int \<Rightarrow> int \<Rightarrow> int \<Rightarrow> int \<Rightarrow> int \<Rightarrow> int" where
  "date_UTC y m d h mi s =
     (let yr = (if 0 \<le> y \<and> y \<le> 99 then 1900 + y else y)
      in MakeDay yr m d * DAY_MS + h * HOUR_MS + mi * MINUTE_MS + s * 1000)"

text \<open>The fields the methods \<open>getUTC...\<close> read.\<close>

definition utc_fields :: "int \<Rightarrow> civil_fields" where
  "utc_fields t =
     (let d = t div DAY_MS
      in \<lparr>cf_year = YearFromDay d, cf_month = MonthFromDay d + 1, cf_dayOfMonth = DateFromDay d,
          cf_hour = t div HOUR_MS mod 24, cf_minute = t div MINUTE_MS mod 60\<rparr>)"

definition utc_weekday :: "int \<Rightarrow> int" where
  "utc_weekday t = WeekDay (t div DAY_MS)"

lemma later_years: "- 100000 \<le> d \<Longrightarrow> 100 \<le> YearFromDay d"
proof (rule ccontr)
  assume d: "- 100000 \<le> d" and "\<not> 100 \<le> YearFromDay d"
  then have "DayFromYear (YearFromDay d + 1) \<le> DayFromYear 100" using DayFromYear_mono [of "YearFromDay d + 1" 100] by auto
  moreover have "DayFromYear 100 < - 100000" by (simp add: DayFromYear_def)
  ultimately show False using YearFromDay_spec [of d] d by linarith
qed

lemma date_UTC_day:
  assumes "- 100000 \<le> d"
  shows "date_UTC (YearFromDay d) (MonthFromDay d) (DateFromDay d) h mi s = d * DAY_MS + h * HOUR_MS + mi * MINUTE_MS + s * 1000"
  using later_years [OF assms] MakeDay_fields [of d] by (simp add: date_UTC_def Let_def)

lemma clock_fields: "t div HOUR_MS mod 24 * HOUR_MS + t div MINUTE_MS mod 60 * MINUTE_MS + t mod MINUTE_MS = t mod DAY_MS"
proof -
  let ?q = "t div 60000"
  have "t div 3600000 = ?q div 60" using zdiv_zmult2_eq [of 60 t 60000] by simp
  moreover have "?q mod 1440 = 60 * (?q div 60 mod 24) + ?q mod 60" using zmod_zmult2_eq [of 24 ?q 60] by simp
  moreover have "t mod 86400000 = 60000 * (?q mod 1440) + t mod 60000" using zmod_zmult2_eq [of 1440 t 60000] by simp
  ultimately show ?thesis unfolding ms_defs by simp
qed

text \<open>Reading the fields of an instant and writing them back cuts it to the minute.\<close>

lemma fields_round_trip:
  assumes "- 100000 * DAY_MS \<le> t"
  shows "date_UTC (cf_year (utc_fields t)) (cf_month (utc_fields t) - 1) (cf_dayOfMonth (utc_fields t)) (cf_hour (utc_fields t)) (cf_minute (utc_fields t)) 0 = t - t mod MINUTE_MS"
proof -
  have "- 100000 \<le> t div DAY_MS" using assms by (simp add: DAY_MS_def)
  then have "date_UTC (YearFromDay (t div DAY_MS)) (MonthFromDay (t div DAY_MS)) (DateFromDay (t div DAY_MS)) h mi 0 = t div DAY_MS * DAY_MS + (h * HOUR_MS + mi * MINUTE_MS)" for h mi
    by (simp add: date_UTC_day)
  moreover have "t div DAY_MS * DAY_MS + (t mod DAY_MS - t mod MINUTE_MS) = t - t mod MINUTE_MS" using div_mult_mod_eq [of t DAY_MS] by linarith
  ultimately show ?thesis unfolding clock_fields [symmetric] by (simp add: utc_fields_def Let_def)
qed

section \<open>Dates of a year\<close>

definition MonthLength :: "bool \<Rightarrow> nat \<Rightarrow> int" where
  "MonthLength is_leap k = (if k = 11 then (if is_leap then 366 else 365) else MonthStart is_leap (k + 1)) - MonthStart is_leap k"

lemma twelve_cases: "k < 12 \<Longrightarrow> k \<in> {0, 1, 2, 3, 4, 5, 6, 7, 8, 9, 10, 11 :: nat}"
  by (simp add: less_Suc_eq numeral_eq_Suc)

lemma MonthOf_start:
  assumes "k < 12" "0 \<le> e" "e < MonthLength is_leap k"
  shows "MonthOf is_leap (MonthStart is_leap k + e) = k" "0 \<le> MonthStart is_leap k + e" "MonthStart is_leap k + e < (if is_leap then 366 else 365)"
  using twelve_cases [OF assms(1)] assms(2,3)
  by (cases is_leap; auto simp: MonthOf_def month_list MonthStart_def month_starts_def MonthLength_def)+

lemma fields_of_MakeDay:
  assumes "k < 12" "1 \<le> dd" "dd \<le> MonthLength (leap_year y) k"
  shows "YearFromDay (MakeDay y (int k) dd) = y" "MonthFromDay (MakeDay y (int k) dd) = int k" "DateFromDay (MakeDay y (int k) dd) = dd"
proof -
  have d: "MakeDay y (int k) dd = DayFromYear y + (MonthStart (leap_year y) k + (dd - 1))" using assms(1) by (simp add: MakeDay_def)
  note m = MonthOf_start [OF assms(1), of "dd - 1" "leap_year y"]
  have m': "MonthOf (leap_year y) (MonthStart (leap_year y) k + (dd - 1)) = k" "0 \<le> MonthStart (leap_year y) k + (dd - 1)"
    "MonthStart (leap_year y) k + (dd - 1) < DaysInYear y" using m assms by (simp_all add: DaysInYear_def)
  show y: "YearFromDay (MakeDay y (int k) dd) = y"
    unfolding d using m' DayFromYear_Suc [of y] by (intro YearFromDay_unique) simp_all
  have "DayInYear (MakeDay y (int k) dd) = MonthStart (leap_year y) k + (dd - 1)" unfolding DayInYear_def y by (simp add: d)
  then show "MonthFromDay (MakeDay y (int k) dd) = int k" "DateFromDay (MakeDay y (int k) dd) = dd"
    using m'(1) by (simp_all add: MonthFromDay_def DateFromDay_def y)
qed

text \<open>Over twenty-eight years, every date of a leap year falls on every day of the week.\<close>

lemma leap_year_on_weekday: "0 \<le> r \<Longrightarrow> r < 7 \<Longrightarrow> \<exists>y. 2000 \<le> y \<and> leap_year y \<and> DayFromYear y mod 7 = r"
proof -
  assume "0 \<le> r" "r < 7"
  then have "r = 0 \<or> r = 1 \<or> r = 2 \<or> r = 3 \<or> r = 4 \<or> r = 5 \<or> r = 6" by auto
  moreover have "2000 \<le> y \<and> leap_year y \<and> DayFromYear y mod 7 = q"
    if "(y, q) \<in> {(2000, 2), (2004, 0), (2008, 5), (2012, 3), (2016, 1), (2020, 6), (2024, 4)}" for y q
    using that by (auto simp: leap_year_def DayFromYear_def)
  ultimately show ?thesis by (elim disjE) blast+
qed

lemma date_on_weekday:
  assumes "k < 12" "1 \<le> dd" "dd \<le> MonthLength True k" "0 \<le> w" "w < 7"
  shows "\<exists>d. 0 \<le> d \<and> MonthFromDay d = int k \<and> DateFromDay d = dd \<and> WeekDay d = w"
proof -
  let ?e = "MonthStart True k + (dd - 1)"
  obtain y where y: "2000 \<le> y" "leap_year y" "DayFromYear y mod 7 = (w - 4 - ?e) mod 7"
    using leap_year_on_weekday [of "(w - 4 - ?e) mod 7"] by auto
  have d: "MakeDay y (int k) dd = DayFromYear y + ?e" using assms(1) y(2) by (simp add: MakeDay_def)
  have "WeekDay (DayFromYear y + ?e) = (4 + ?e + DayFromYear y) mod 7" by (simp add: WeekDay_def algebra_simps)
  also have "\<dots> = (4 + ?e + DayFromYear y mod 7) mod 7" by (rule mod_add_right_eq [symmetric])
  also have "\<dots> = w" unfolding y(3) mod_add_right_eq using assms by simp
  finally have "WeekDay (MakeDay y (int k) dd) = w" by (simp add: d)
  moreover have "0 \<le> MakeDay y (int k) dd" using d y(1) DayFromYear_mono [of 1970 y] MonthOf_start(2) [OF assms(1), of "dd - 1" True] assms by (simp add: DayFromYear_1970)
  ultimately show ?thesis using fields_of_MakeDay [OF assms(1,2), of y] assms(3) y(2) by auto
qed

end
