(* ===== verification/Cron_Schedule.thy ===== *)
theory Cron_Schedule
  imports Civil_Calendar Kernel_Json
begin

text \<open>
  Cron expressions (\<^verbatim>\<open>shared/cronExpression.ts\<close>) and their slots in a time zone (\<^verbatim>\<open>core/triggers/cronCalendar.ts\<close>). A number
  of the expression is a natural number; the sets of the schedule are sets of them. The zone is the function that gives the
  year, month, day, hour, minute and second its wall clock reads at an instant (the formatter of the language, whose data is
  not part of the program).
\<close>

section \<open>The expression\<close>

definition MAX_CRON_EXPRESSION_CHARS :: nat where "MAX_CRON_EXPRESSION_CHARS = 100"

record cron_schedule =
  cs_minutes :: "nat set"
  cs_hours :: "nat set"
  cs_daysOfMonth :: "nat set"
  cs_months :: "nat set"
  cs_daysOfWeek :: "nat set"
  cs_isDayOfMonthWildcard :: bool
  cs_isDayOfWeekWildcard :: bool

record civil_day =
  cd_month :: nat
  cd_dayOfMonth :: nat
  cd_weekday :: nat

record field_spec =
  fs_min :: nat
  fs_max :: nat
  fs_names :: "string list"
  fs_firstNameValue :: nat

definition MINUTE :: field_spec where "MINUTE = \<lparr>fs_min = 0, fs_max = 59, fs_names = [], fs_firstNameValue = 0\<rparr>"
definition HOUR :: field_spec where "HOUR = \<lparr>fs_min = 0, fs_max = 23, fs_names = [], fs_firstNameValue = 0\<rparr>"
definition DAY_OF_MONTH :: field_spec where "DAY_OF_MONTH = \<lparr>fs_min = 1, fs_max = 31, fs_names = [], fs_firstNameValue = 0\<rparr>"
definition MONTH :: field_spec where
  "MONTH = \<lparr>fs_min = 1, fs_max = 12, fs_names = [''JAN'', ''FEB'', ''MAR'', ''APR'', ''MAY'', ''JUN'', ''JUL'', ''AUG'', ''SEP'', ''OCT'', ''NOV'', ''DEC''],
     fs_firstNameValue = 1\<rparr>"
definition DAY_OF_WEEK :: field_spec where
  "DAY_OF_WEEK = \<lparr>fs_min = 0, fs_max = 7, fs_names = [''SUN'', ''MON'', ''TUE'', ''WED'', ''THU'', ''FRI'', ''SAT''], fs_firstNameValue = 0\<rparr>"

definition LONGEST_MONTH_DAYS :: "nat list" where
  "LONGEST_MONTH_DAYS = [31, 29, 31, 30, 31, 30, 31, 31, 30, 31, 30, 31]"

definition is_letter :: "char \<Rightarrow> bool" where
  "is_letter c \<longleftrightarrow> (let n = (of_char c :: nat) in 65 \<le> n \<and> n \<le> 90 \<or> 97 \<le> n \<and> n \<le> 122)"

definition upper_char :: "char \<Rightarrow> char" where
  "upper_char c = (let n = (of_char c :: nat) in if 97 \<le> n \<and> n \<le> 122 then char_of (n - 32) else c)"

definition is_number :: "string \<Rightarrow> bool" where
  "is_number s \<longleftrightarrow> s \<noteq> [] \<and> list_all is_digit s"

definition is_field_text :: "string \<Rightarrow> bool" where
  "is_field_text s \<longleftrightarrow> s \<noteq> [] \<and> list_all (\<lambda>c. is_digit c \<or> is_letter c \<or> c \<in> set ''*,/-'') s"

definition valueOf :: "string \<Rightarrow> field_spec \<Rightarrow> nat option" where
  "valueOf token spec =
     (if is_number token then Some (digits_value token)
      else map_option (\<lambda>i. i + fs_firstNameValue spec) (find_index (\<lambda>n. n = map upper_char token) (fs_names spec)))"

definition rangeOf :: "string \<Rightarrow> field_spec \<Rightarrow> (nat \<times> nat) option" where
  "rangeOf base spec =
     (if base = ''*'' then Some (fs_min spec, fs_max spec)
      else (case split_on CHR ''-'' base of
              [one] \<Rightarrow> (case valueOf one spec of
                  Some v \<Rightarrow> if fs_min spec \<le> v \<and> v \<le> fs_max spec then Some (v, v) else None
                | None \<Rightarrow> None)
            | [lower, upper] \<Rightarrow> (case (valueOf lower spec, valueOf upper spec) of
                  (Some v, Some w) \<Rightarrow> if fs_min spec \<le> v \<and> w \<le> fs_max spec \<and> v \<le> w then Some (v, w) else None
                | _ \<Rightarrow> None)
            | _ \<Rightarrow> None))"

function stepped :: "nat \<Rightarrow> nat \<Rightarrow> nat \<Rightarrow> nat list" where
  "stepped v w step = (if 0 < step \<and> v \<le> w then v # stepped (v + step) w step else [])"
  by pat_completeness auto
termination by (relation "measure (\<lambda>(v, w, step). Suc w - v)") auto

declare stepped.simps [simp del]

definition itemValuesOf :: "string \<Rightarrow> field_spec \<Rightarrow> nat list option" where
  "itemValuesOf item spec =
     (case split_on CHR ''/'' item of
        base # others \<Rightarrow>
          if base = [] \<or> 1 < length others then None
          else (let stepText = (case others of [] \<Rightarrow> None | s # _ \<Rightarrow> Some s);
                    step = (case stepText of None \<Rightarrow> 1 | Some s \<Rightarrow> if is_number s then digits_value s else 0);
                    span = fs_max spec - fs_min spec + 1
                in case rangeOf base spec of
                     None \<Rightarrow> None
                   | Some (v, w) \<Rightarrow>
                       (let isSingleValueWithStep = (stepText \<noteq> None \<and> CHR ''-'' \<notin> set base \<and> base \<noteq> ''*'')
                        in if 1 \<le> step \<and> step \<le> span then Some (stepped v (if isSingleValueWithStep then fs_max spec else w) step) else None))
      | [] \<Rightarrow> None)"

fun item_values :: "field_spec \<Rightarrow> nat set \<Rightarrow> string list \<Rightarrow> nat set option" where
  "item_values spec found [] = Some found"
| "item_values spec found (item # items) =
     (case itemValuesOf item spec of None \<Rightarrow> None | Some vs \<Rightarrow> item_values spec (found \<union> set vs) items)"

definition fieldValuesOf :: "string \<Rightarrow> field_spec \<Rightarrow> nat set option" where
  "fieldValuesOf field spec = (if is_field_text field then item_values spec {} (split_on CHR '','' field) else None)"

definition isWildcard :: "string \<Rightarrow> bool" where
  "isWildcard field \<longleftrightarrow> starts_with field ''*''"

definition withQuestionMarksAsStars :: "string \<Rightarrow> string" where
  "withQuestionMarksAsStars expression = map (\<lambda>c. if c = CHR ''?'' then CHR ''*'' else c) expression"

definition daysOfMonthEverExist :: "nat set \<Rightarrow> nat set \<Rightarrow> bool" where
  "daysOfMonthEverExist daysOfMonth months \<longleftrightarrow> (\<exists>month \<in> months. \<exists>day \<in> daysOfMonth. day \<le> LONGEST_MONTH_DAYS ! (month - 1))"

text \<open>Splitting at runs of white space, a text that neither starts nor ends with one.\<close>

lemma length_trim_start: "length (trim_start n spaces s) \<le> length s"
proof (induction n arbitrary: s)
  case (Suc n)
  have "length (trim_start n spaces (drop k s)) \<le> length s" for k using Suc.IH [of "drop k s"] by (rule le_trans) simp
  then show ?case by (simp split: option.split)
qed simp

function split_white :: "string \<Rightarrow> string \<Rightarrow> string list" where
  "split_white word [] = [rev word]"
| "split_white word (c # s) =
     (case find (\<lambda>w. starts_with (c # s) w) WHITE_SPACE of
        None \<Rightarrow> split_white (c # word) s
      | Some w \<Rightarrow> rev word # split_white [] (trim_start (length s) WHITE_SPACE (drop (length w - 1) s)))"
  by pat_completeness auto
termination
  by (relation "measure (\<lambda>(word, s). length s)") (auto intro!: le_less_trans [OF length_trim_start])

definition cronScheduleOf :: "string \<Rightarrow> cron_schedule option" where
  "cronScheduleOf expression =
     (if MAX_CRON_EXPRESSION_CHARS < utf16_length expression then None
      else (case split_white [] (js_trim (withQuestionMarksAsStars expression)) of
              [minuteField, hourField, dayOfMonthField, monthField, dayOfWeekField] \<Rightarrow>
                (case (fieldValuesOf minuteField MINUTE, fieldValuesOf hourField HOUR, fieldValuesOf dayOfMonthField DAY_OF_MONTH,
                       fieldValuesOf monthField MONTH, fieldValuesOf dayOfWeekField DAY_OF_WEEK) of
                   (Some minutes, Some hours, Some daysOfMonth, Some months, Some weekdays) \<Rightarrow>
                     (let isDayOfMonthWildcard = isWildcard dayOfMonthField; isDayOfWeekWildcard = isWildcard dayOfWeekField
                      in if \<not> isDayOfMonthWildcard \<and> isDayOfWeekWildcard \<and> \<not> daysOfMonthEverExist daysOfMonth months then None
                         else Some \<lparr>cs_minutes = minutes, cs_hours = hours, cs_daysOfMonth = daysOfMonth, cs_months = months,
                                    cs_daysOfWeek = (\<lambda>d. d mod 7) ` weekdays, cs_isDayOfMonthWildcard = isDayOfMonthWildcard,
                                    cs_isDayOfWeekWildcard = isDayOfWeekWildcard\<rparr>)
                 | _ \<Rightarrow> None)
            | _ \<Rightarrow> None))"

definition daySatisfies :: "cron_schedule \<Rightarrow> civil_day \<Rightarrow> bool" where
  "daySatisfies schedule day \<longleftrightarrow>
     cd_month day \<in> cs_months schedule \<and>
     (let matchesDayOfMonth = cd_dayOfMonth day \<in> cs_daysOfMonth schedule; matchesDayOfWeek = cd_weekday day \<in> cs_daysOfWeek schedule
      in if \<not> cs_isDayOfMonthWildcard schedule \<and> \<not> cs_isDayOfWeekWildcard schedule then matchesDayOfMonth \<or> matchesDayOfWeek
         else matchesDayOfMonth \<and> matchesDayOfWeek)"

section \<open>What a schedule holds\<close>

lemma set_stepped: "0 < step \<Longrightarrow> v \<le> w \<Longrightarrow> v \<in> set (stepped v w step) \<and> set (stepped v w step) \<subseteq> {v..w}"
proof (induction v w step rule: stepped.induct)
  case (1 v w step)
  show ?case
  proof (cases "v + step \<le> w")
    case True
    then show ?thesis using 1 by (subst (1 2) stepped.simps) auto
  next
    case False
    then show ?thesis using 1 by (subst (1 2) stepped.simps) (simp add: stepped.simps [of "v + step"])
  qed
qed

lemma rangeOf_bounds: "rangeOf base spec = Some (v, w) \<Longrightarrow> fs_min spec \<le> fs_max spec \<Longrightarrow> fs_min spec \<le> v \<and> v \<le> w \<and> w \<le> fs_max spec"
  by (auto simp: rangeOf_def split: if_splits list.splits option.splits)

lemma itemValuesOf_bounds:
  assumes "itemValuesOf item spec = Some vs" "fs_min spec \<le> fs_max spec"
  shows "vs \<noteq> [] \<and> set vs \<subseteq> {fs_min spec..fs_max spec}"
proof -
  obtain base v w step top where r: "rangeOf base spec = Some (v, w)" and vs: "vs = stepped v top step" "0 < step" "top = w \<or> top = fs_max spec"
    using assms(1) by (auto simp: itemValuesOf_def Let_def split: list.splits if_splits option.splits)
  note b = rangeOf_bounds [OF r assms(2)]
  have "v \<in> set vs \<and> set vs \<subseteq> {v..top}" unfolding vs(1) by (rule set_stepped) (use b vs in auto)
  then show ?thesis using b vs(3) by auto
qed

lemma item_values_bounds:
  "item_values spec found items = Some vs \<Longrightarrow> fs_min spec \<le> fs_max spec \<Longrightarrow> found \<subseteq> {fs_min spec..fs_max spec} \<Longrightarrow> items \<noteq> [] \<or> found \<noteq> {} \<Longrightarrow>
   vs \<noteq> {} \<and> vs \<subseteq> {fs_min spec..fs_max spec}"
proof (induction items arbitrary: found)
  case (Cons item items)
  then obtain us where us: "itemValuesOf item spec = Some us" "item_values spec (found \<union> set us) items = Some vs" by (auto split: option.splits)
  from itemValuesOf_bounds [OF us(1) Cons.prems(2)] show ?case using Cons.prems us(2) by (intro Cons.IH [OF us(2)]) auto
qed simp

lemma fieldValuesOf_bounds: "fieldValuesOf field spec = Some vs \<Longrightarrow> fs_min spec \<le> fs_max spec \<Longrightarrow> vs \<noteq> {} \<and> vs \<subseteq> {fs_min spec..fs_max spec}"
  by (auto simp: fieldValuesOf_def split: if_splits dest!: item_values_bounds)

lemma digit_field_char: "is_digit c \<Longrightarrow> c \<notin> {CHR '','', CHR ''/'', CHR ''-'', CHR ''*''}"
  by (auto simp: is_digit_def)

lemma single_value_read_back:
  assumes "fs_min spec \<le> n" "n \<le> fs_max spec"
  shows "itemValuesOf (nat_digits n) spec = Some [n]"
proof -
  have digits: "\<forall>c \<in> set (nat_digits n). is_digit c" using set_nat_digits [of n] by auto
  then have no: "c \<notin> set (nat_digits n)" if "c \<in> {CHR '','', CHR ''/'', CHR ''-'', CHR ''*''}" for c using that digit_field_char by blast
  have num: "is_number (nat_digits n)" using digits by (simp add: is_number_def nat_digits_not_empty list_all_iff)
  have "split_on CHR ''/'' (nat_digits n) = [nat_digits n]" "split_on CHR ''-'' (nat_digits n) = [nat_digits n]"
    using no by (simp_all add: split_on_absent)
  moreover have "nat_digits n \<noteq> ''*''" using num by (auto simp: is_number_def is_digit_def)
  moreover have "stepped n n 1 = [n]" by (subst stepped.simps, simp, subst stepped.simps, simp)
  ultimately show ?thesis using assms num
    by (simp add: itemValuesOf_def rangeOf_def valueOf_def nat_digits_not_empty Let_def)
qed

lemma listed_values_read_back:
  assumes "xs \<noteq> []" "set xs \<subseteq> {fs_min spec..fs_max spec}"
  shows "fieldValuesOf (join_with '','' (map nat_digits xs)) spec = Some (set xs)"
proof -
  have clean: "\<forall>l \<in> set (map nat_digits xs). CHR '','' \<notin> set l" using set_nat_digits digit_field_char by fastforce
  have chars: "set (join_with '','' ls) \<subseteq> insert CHR '','' (\<Union>(set ` set ls))" for ls
    by (induction ls rule: induct_list012) auto
  have "join_with '','' (map nat_digits xs) \<noteq> []" using assms(1) nat_digits_not_empty by (cases xs; cases "tl xs") auto
  moreover have "is_digit c" if "c \<in> \<Union>(set ` set (map nat_digits xs))" for c using that set_nat_digits by fastforce
  ultimately have "is_field_text (join_with '','' (map nat_digits xs))"
    using chars [of "map nat_digits xs"] by (fastforce simp: is_field_text_def list_all_iff)
  moreover have "item_values spec found (map nat_digits ys) = Some (found \<union> set ys)" if "set ys \<subseteq> {fs_min spec..fs_max spec}" for found ys
    using that by (induction ys arbitrary: found) (auto simp: single_value_read_back)
  ultimately show ?thesis using assms split_join [OF _ clean] by (simp add: fieldValuesOf_def)
qed

end
