(* ===== verification/Cron_Calendar.thy ===== *)
theory Cron_Calendar
  imports Cron_Schedule
begin

text \<open>
  The slots of a cron schedule in a time zone (\<^verbatim>\<open>core/triggers/cronCalendar.ts\<close>). Shown for a zone whose clock is a fixed
  number of minutes ahead of UTC: the search for the next slot finds the first instant at which the schedule fires, the search
  backwards the newest ones, and the bisection over a jump of the clock ends at the first minute after it.
\<close>

section \<open>The wall clock\<close>

definition MAX_DAYS_SEARCHED :: int where "MAX_DAYS_SEARCHED = 366 * 8"

text \<open>What the wall clock of a zone reads at an instant: year, month from 1, day, hour, minute, second.\<close>

type_synonym zone = "int \<Rightarrow> int \<times> int \<times> int \<times> int \<times> int \<times> int"

text \<open>\<open>Math.round\<close> of a quotient: halves go up.\<close>

definition round_div :: "int \<Rightarrow> int \<Rightarrow> int" where
  "round_div a b = (2 * a + b) div (2 * b)"

definition offsetMinutesAt :: "zone \<Rightarrow> int \<Rightarrow> int" where
  "offsetMinutesAt tz t =
     (case tz t of (y, mo, d, h, mi, s) \<Rightarrow> round_div (date_UTC y (mo - 1) d h mi s - t div 1000 * 1000) MINUTE_MS)"

definition civilUtcMsOf :: "civil_fields \<Rightarrow> int" where
  "civilUtcMsOf civil = date_UTC (cf_year civil) (cf_month civil - 1) (cf_dayOfMonth civil) (cf_hour civil) (cf_minute civil) 0"

definition localFieldsAt :: "zone \<Rightarrow> int \<Rightarrow> civil_fields" where
  "localFieldsAt tz t = utc_fields (t + offsetMinutesAt tz t * MINUTE_MS)"

definition instantsReading :: "zone \<Rightarrow> civil_fields \<Rightarrow> int list" where
  "instantsReading tz civil =
     (let civilUtcMs = civilUtcMsOf civil;
          offsetsAround = remdups [offsetMinutesAt tz (civilUtcMs - DAY_MS), offsetMinutesAt tz (civilUtcMs + DAY_MS)];
          candidates = map (\<lambda>offset. civilUtcMs - offset * MINUTE_MS) offsetsAround
      in sort (filter (\<lambda>t. civilUtcMsOf (localFieldsAt tz t) = civilUtcMs) candidates))"

text \<open>The bisection between a minute still before the jump and one already after it.\<close>

function gap_loop :: "(int \<Rightarrow> bool) \<Rightarrow> int \<Rightarrow> int \<Rightarrow> int" where
  "gap_loop is_before stillBefore alreadyAfter =
     (if 1 < alreadyAfter - stillBefore
      then (let middle = (stillBefore + alreadyAfter) div 2
            in if is_before middle then gap_loop is_before middle alreadyAfter else gap_loop is_before stillBefore middle)
      else alreadyAfter)"
  by pat_completeness auto
termination
  by (relation "measure (\<lambda>(is_before, stillBefore, alreadyAfter). nat (alreadyAfter - stillBefore))") auto

declare gap_loop.simps [simp del]

definition endOfTheGapSwallowing :: "zone \<Rightarrow> civil_fields \<Rightarrow> int" where
  "endOfTheGapSwallowing tz civil =
     (let civilUtcMs = civilUtcMsOf civil;
          offsetBefore = offsetMinutesAt tz (civilUtcMs - DAY_MS);
          offsetAfter = offsetMinutesAt tz (civilUtcMs + DAY_MS);
          stillBefore = (civilUtcMs - offsetAfter * MINUTE_MS) div MINUTE_MS;
          alreadyAfter = - ((- (civilUtcMs - offsetBefore * MINUTE_MS)) div MINUTE_MS)
      in gap_loop (\<lambda>middle. offsetMinutesAt tz (middle * MINUTE_MS) = offsetBefore) stillBefore alreadyAfter * MINUTE_MS)"

section \<open>The slots of a day\<close>

definition HOURS_IN_A_DAY :: nat where "HOURS_IN_A_DAY = 24"

record calendar_day = civil_day +
  cd_year :: int

definition firesEveryHour :: "cron_schedule \<Rightarrow> bool" where
  "firesEveryHour schedule \<longleftrightarrow> card (cs_hours schedule) = HOURS_IN_A_DAY"

definition civil_at :: "calendar_day \<Rightarrow> nat \<Rightarrow> nat \<Rightarrow> civil_fields" where
  "civil_at day hour minute =
     \<lparr>cf_year = cd_year day, cf_month = int (cd_month day), cf_dayOfMonth = int (cd_dayOfMonth day), cf_hour = int hour, cf_minute = int minute\<rparr>"

definition slots_at :: "cron_schedule \<Rightarrow> zone \<Rightarrow> civil_fields \<Rightarrow> int list" where
  "slots_at schedule tz civil =
     (let readings = instantsReading tz civil
      in if readings = [] then [endOfTheGapSwallowing tz civil] else if firesEveryHour schedule then readings else take 1 readings)"

definition slotsOfDay :: "cron_schedule \<Rightarrow> zone \<Rightarrow> calendar_day \<Rightarrow> int list" where
  "slotsOfDay schedule tz day =
     (if daySatisfies schedule \<lparr>cd_month = cd_month day, cd_dayOfMonth = cd_dayOfMonth day, cd_weekday = cd_weekday day\<rparr>
      then sort (remdups (concat (map (\<lambda>hour. concat (map (\<lambda>minute. slots_at schedule tz (civil_at day hour minute))
             (sorted_list_of_set (cs_minutes schedule)))) (sorted_list_of_set (cs_hours schedule)))))
      else [])"

definition dayAt :: "int \<Rightarrow> int \<Rightarrow> calendar_day" where
  "dayAt referenceDayUtcMs daysFromReference =
     (let t = referenceDayUtcMs + daysFromReference * DAY_MS; f = utc_fields t
      in \<lparr>cd_month = nat (cf_month f), cd_dayOfMonth = nat (cf_dayOfMonth f), cd_weekday = nat (utc_weekday t), cd_year = cf_year f\<rparr>)"

definition localDayStartUtcMs :: "zone \<Rightarrow> int \<Rightarrow> int" where
  "localDayStartUtcMs tz t = (let f = localFieldsAt tz t in date_UTC (cf_year f) (cf_month f - 1) (cf_dayOfMonth f) 0 0 0)"

section \<open>The searches\<close>

function next_loop :: "cron_schedule \<Rightarrow> zone \<Rightarrow> int \<Rightarrow> int \<Rightarrow> int \<Rightarrow> int option" where
  "next_loop schedule tz afterMs referenceDay offset =
     (if offset \<le> MAX_DAYS_SEARCHED
      then (case find (\<lambda>slot. afterMs < slot) (slotsOfDay schedule tz (dayAt referenceDay offset)) of
              Some slot \<Rightarrow> Some slot
            | None \<Rightarrow> next_loop schedule tz afterMs referenceDay (offset + 1))
      else None)"
  by pat_completeness auto
termination
  by (relation "measure (\<lambda>(schedule, tz, afterMs, referenceDay, offset). nat (MAX_DAYS_SEARCHED + 1 - offset))") auto

declare next_loop.simps [simp del]

definition nextAfter :: "cron_schedule \<Rightarrow> zone \<Rightarrow> int \<Rightarrow> int option" where
  "nextAfter schedule tz afterMs = next_loop schedule tz afterMs (localDayStartUtcMs tz afterMs) (-1)"

function newest_loop :: "cron_schedule \<Rightarrow> zone \<Rightarrow> int \<Rightarrow> int \<Rightarrow> nat \<Rightarrow> int \<Rightarrow> int \<Rightarrow> int \<Rightarrow> int list \<Rightarrow> int list" where
  "newest_loop schedule tz afterMs atMs limit referenceDay daysBack offset found =
     (if - daysBack \<le> offset \<and> length found < limit
      then newest_loop schedule tz afterMs atMs limit referenceDay daysBack (offset - 1)
             (found @ rev (filter (\<lambda>slot. afterMs < slot \<and> slot \<le> atMs) (slotsOfDay schedule tz (dayAt referenceDay offset))))
      else found)"
  by pat_completeness auto
termination
  by (relation "measure (\<lambda>(schedule, tz, afterMs, atMs, limit, referenceDay, daysBack, offset, found). nat (offset + daysBack + 1))") auto

declare newest_loop.simps [simp del]

definition newestBetween :: "cron_schedule \<Rightarrow> zone \<Rightarrow> int \<Rightarrow> int \<Rightarrow> nat \<Rightarrow> int list" where
  "newestBetween schedule tz afterMs atMs limit =
     (let referenceDay = localDayStartUtcMs tz atMs;
          oldestDay = localDayStartUtcMs tz afterMs;
          daysBack = min MAX_DAYS_SEARCHED (round_div (referenceDay - oldestDay) DAY_MS + 1)
      in take limit (newest_loop schedule tz afterMs atMs limit referenceDay daysBack 1 []))"

section \<open>A clock a fixed number of minutes ahead\<close>

definition reads :: "int \<Rightarrow> int \<times> int \<times> int \<times> int \<times> int \<times> int" where
  "reads t = (let f = utc_fields t in (cf_year f, cf_month f, cf_dayOfMonth f, cf_hour f, cf_minute f, t div 1000 mod 60))"

definition fixed_zone :: "int \<Rightarrow> zone" where
  "fixed_zone c t = reads (t + c * MINUTE_MS)"

text \<open>What it means that a schedule fires at an instant.\<close>

definition fires_at :: "cron_schedule \<Rightarrow> int \<Rightarrow> int \<Rightarrow> bool" where
  "fires_at schedule c t \<longleftrightarrow>
     (let l = t + c * MINUTE_MS; f = utc_fields l
      in l mod MINUTE_MS = 0 \<and> nat (cf_hour f) \<in> cs_hours schedule \<and> nat (cf_minute f) \<in> cs_minutes schedule
         \<and> daySatisfies schedule \<lparr>cd_month = nat (cf_month f), cd_dayOfMonth = nat (cf_dayOfMonth f), cd_weekday = nat (utc_weekday l)\<rparr>)"

lemma second_fields: "t mod MINUTE_MS = t div 1000 mod 60 * 1000 + t mod 1000"
  using zmod_zmult2_eq [of 60 t 1000] by (simp add: MINUTE_MS_def)

lemma date_UTC_seconds: "date_UTC y m d h mi s = date_UTC y m d h mi 0 + s * 1000"
  by (simp add: date_UTC_def Let_def)

lemma offset_fixed:
  assumes "- 100000 * DAY_MS \<le> t + c * MINUTE_MS"
  shows "offsetMinutesAt (fixed_zone c) t = c"
proof -
  let ?l = "t + c * MINUTE_MS"
  have cut: "?l - ?l mod 1000 = t - t mod 1000 + c * MINUTE_MS" using mod_mult_self1 [of t "c * 60" 1000] by (simp add: MINUTE_MS_def mult.commute)
  have second: "t div 1000 * 1000 = t - t mod 1000" by (simp add: minus_mod_eq_div_mult [symmetric])
  have "date_UTC (cf_year (utc_fields ?l)) (cf_month (utc_fields ?l) - 1) (cf_dayOfMonth (utc_fields ?l)) (cf_hour (utc_fields ?l)) (cf_minute (utc_fields ?l)) (?l div 1000 mod 60)
      = ?l - ?l mod 1000"
    by (subst date_UTC_seconds) (use fields_round_trip [OF assms] second_fields [of ?l] in simp)
  also have "\<dots> - t div 1000 * 1000 = c * MINUTE_MS" unfolding cut second by simp
  finally show ?thesis by (simp add: offsetMinutesAt_def fixed_zone_def reads_def Let_def round_div_def MINUTE_MS_def)
qed

lemma reading_fixed:
  assumes u: "civilUtcMsOf civil = u" "u mod MINUTE_MS = 0" "- 99998 * DAY_MS \<le> u" and c: "- 1440 \<le> c" "c \<le> 1440"
  shows "instantsReading (fixed_zone c) civil = [u - c * MINUTE_MS]"
proof -
  have o1: "offsetMinutesAt (fixed_zone c) t = c" if "u - 2 * DAY_MS \<le> t + c * MINUTE_MS" for t
    using that u(3) by (intro offset_fixed) simp
  have "offsetMinutesAt (fixed_zone c) (u - DAY_MS) = c" "offsetMinutesAt (fixed_zone c) (u + DAY_MS) = c" "offsetMinutesAt (fixed_zone c) (u - c * MINUTE_MS) = c"
    by (rule o1; use c in \<open>simp add: ms_defs\<close>)+
  moreover have "civilUtcMsOf (utc_fields u) = u" unfolding civilUtcMsOf_def by (subst fields_round_trip) (use u in \<open>simp_all add: DAY_MS_def\<close>)
  ultimately show ?thesis using u(1) by (simp add: instantsReading_def Let_def localFieldsAt_def)
qed

definition instant_of :: "int \<Rightarrow> int \<Rightarrow> nat \<Rightarrow> nat \<Rightarrow> int" where
  "instant_of c d h mi = d * DAY_MS + int h * HOUR_MS + int mi * MINUTE_MS - c * MINUTE_MS"

definition day_on :: "int \<Rightarrow> int \<Rightarrow> int" where
  "day_on c t = (t + c * MINUTE_MS) div DAY_MS"

definition civil_day_of :: "int \<Rightarrow> civil_day" where
  "civil_day_of d = \<lparr>cd_month = nat (MonthFromDay d + 1), cd_dayOfMonth = nat (DateFromDay d), cd_weekday = nat (WeekDay d)\<rparr>"

lemma dayAt_fields:
  "dayAt (D * DAY_MS) k = \<lparr>cd_month = nat (MonthFromDay (D + k) + 1), cd_dayOfMonth = nat (DateFromDay (D + k)), cd_weekday = nat (WeekDay (D + k)), cd_year = YearFromDay (D + k)\<rparr>"
proof -
  have "(D * DAY_MS + k * DAY_MS) div DAY_MS = D + k"
    unfolding distrib_right [symmetric] by (rule nonzero_mult_div_cancel_right) (simp add: DAY_MS_def)
  then show ?thesis by (simp add: dayAt_def Let_def utc_fields_def utc_weekday_def)
qed

lemma slots_at_fixed:
  assumes d: "- 99998 \<le> D + k" and c: "- 1440 \<le> c" "c \<le> 1440"
  shows "slots_at schedule (fixed_zone c) (civil_at (dayAt (D * DAY_MS) k) h mi) = [instant_of c (D + k) h mi]"
proof -
  let ?u = "(D + k) * DAY_MS + int h * HOUR_MS + int mi * MINUTE_MS"
  have "civilUtcMsOf (civil_at (dayAt (D * DAY_MS) k) h mi) = ?u"
    using date_UTC_day [of "D + k" "int h" "int mi" 0] d MonthFromDay_bounds [of "D + k"] DateFromDay_bounds [of "D + k"]
    by (simp add: civilUtcMsOf_def civil_at_def dayAt_fields)
  moreover have "?u mod MINUTE_MS = 0"
    using mod_mult_self1_is_0 [of 60000 "(D + k) * 1440 + int h * 60 + int mi"] by (simp add: ms_defs algebra_simps)
  moreover have "- 99998 * DAY_MS \<le> ?u" using d mult_right_mono [of "- 99998" "D + k" DAY_MS] by (simp add: ms_defs)
  ultimately have "instantsReading (fixed_zone c) (civil_at (dayAt (D * DAY_MS) k) h mi) = [?u - c * MINUTE_MS]" using c by (intro reading_fixed)
  then show ?thesis by (simp add: slots_at_def instant_of_def Let_def)
qed

definition schedule_ok :: "cron_schedule \<Rightarrow> bool" where
  "schedule_ok schedule \<longleftrightarrow> cs_minutes schedule \<subseteq> {0..59} \<and> cs_hours schedule \<subseteq> {0..23}"

lemma schedule_ok_finite: "schedule_ok schedule \<Longrightarrow> finite (cs_minutes schedule) \<and> finite (cs_hours schedule)"
  unfolding schedule_ok_def by (meson finite_atLeastAtMost finite_subset)

lemma slotsOfDay_fixed:
  assumes ok: "schedule_ok schedule" and d: "- 99998 \<le> D + k" and c: "- 1440 \<le> c" "c \<le> 1440"
  shows "sorted (slotsOfDay schedule (fixed_zone c) (dayAt (D * DAY_MS) k))" and "distinct (slotsOfDay schedule (fixed_zone c) (dayAt (D * DAY_MS) k))"
    and "set (slotsOfDay schedule (fixed_zone c) (dayAt (D * DAY_MS) k)) =
      (if daySatisfies schedule (civil_day_of (D + k)) then {instant_of c (D + k) h mi | h mi. h \<in> cs_hours schedule \<and> mi \<in> cs_minutes schedule} else {})"
  using schedule_ok_finite [OF ok] slots_at_fixed [OF d c]
  by (auto simp: slotsOfDay_def civil_day_of_def dayAt_fields)

lemma clock_of_instant:
  fixes c d :: int
  assumes "h \<le> 23" "mi \<le> 59"
  defines "l \<equiv> instant_of c d h mi + c * MINUTE_MS"
  shows "day_on c (instant_of c d h mi) = d" "l div HOUR_MS mod 24 = int h" "l div MINUTE_MS mod 60 = int mi" "l mod MINUTE_MS = 0"
proof -
  have l: "l = d * DAY_MS + int h * HOUR_MS + int mi * MINUTE_MS" by (simp add: l_def instant_of_def)
  have "l div DAY_MS = d" unfolding l using assms by (intro int_div_pos_eq [of _ _ _ "int h * HOUR_MS + int mi * MINUTE_MS"]) (simp_all add: ms_defs)
  then show "day_on c (instant_of c d h mi) = d" by (simp add: day_on_def l_def)
  have "l div HOUR_MS = d * 24 + int h" unfolding l using assms by (intro int_div_pos_eq [of _ _ _ "int mi * MINUTE_MS"]) (simp_all add: ms_defs)
  then show "l div HOUR_MS mod 24 = int h" using assms by simp
  have "l div MINUTE_MS = (d * 24 + int h) * 60 + int mi" unfolding l by (intro int_div_pos_eq [of _ _ _ 0]) (simp_all add: ms_defs)
  moreover have "((d * 24 + int h) * 60 + int mi) mod 60 = int mi" unfolding mod_mult_self3 using assms by simp
  ultimately show "l div MINUTE_MS mod 60 = int mi" by simp
  have "l = 60000 * (d * 1440 + int h * 60 + int mi)" unfolding l by (simp add: ms_defs)
  then show "l mod MINUTE_MS = 0" by (simp add: MINUTE_MS_def)
qed

lemma fires_iff:
  assumes ok: "schedule_ok schedule"
  shows "fires_at schedule c t \<longleftrightarrow>
    daySatisfies schedule (civil_day_of (day_on c t)) \<and> (\<exists>h \<in> cs_hours schedule. \<exists>mi \<in> cs_minutes schedule. t = instant_of c (day_on c t) h mi)"
proof -
  let ?l = "t + c * MINUTE_MS"
  have day: "daySatisfies schedule \<lparr>cd_month = nat (cf_month (utc_fields ?l)), cd_dayOfMonth = nat (cf_dayOfMonth (utc_fields ?l)), cd_weekday = nat (utc_weekday ?l)\<rparr>
      = daySatisfies schedule (civil_day_of (day_on c t))"
    by (simp add: utc_fields_def Let_def utc_weekday_def civil_day_of_def day_on_def)
  have clock: "cf_hour (utc_fields ?l) = ?l div HOUR_MS mod 24" "cf_minute (utc_fields ?l) = ?l div MINUTE_MS mod 60" by (simp_all add: utc_fields_def Let_def)
  have "t = instant_of c (day_on c t) (nat (?l div HOUR_MS mod 24)) (nat (?l div MINUTE_MS mod 60))" if "?l mod MINUTE_MS = 0"
  proof -
    have "?l div DAY_MS * DAY_MS + (?l div HOUR_MS mod 24 * HOUR_MS + ?l div MINUTE_MS mod 60 * MINUTE_MS) = ?l"
      using clock_fields [of ?l] that div_mult_mod_eq [of ?l DAY_MS] by linarith
    moreover have "0 \<le> ?l div HOUR_MS mod 24" "0 \<le> ?l div MINUTE_MS mod 60" by simp_all
    ultimately show ?thesis unfolding instant_of_def day_on_def by simp
  qed
  moreover have "nat (?l div HOUR_MS mod 24) = h \<and> nat (?l div MINUTE_MS mod 60) = mi \<and> ?l mod MINUTE_MS = 0"
    if "h \<in> cs_hours schedule" "mi \<in> cs_minutes schedule" "t = instant_of c (day_on c t) h mi" for h mi
  proof -
    have "h \<le> 23" "mi \<le> 59" using that ok by (auto simp: schedule_ok_def)
    from clock_of_instant [OF this, of c "day_on c t"] show ?thesis unfolding that(3) [symmetric] by simp
  qed
  ultimately show ?thesis unfolding fires_at_def Let_def clock day by metis
qed

text \<open>The slots of a day are the instants of that day at which the schedule fires.\<close>

lemma in_slotsOfDay:
  assumes ok: "schedule_ok schedule" and d: "- 99998 \<le> D + k" and c: "- 1440 \<le> c" "c \<le> 1440"
  shows "t \<in> set (slotsOfDay schedule (fixed_zone c) (dayAt (D * DAY_MS) k)) \<longleftrightarrow> fires_at schedule c t \<and> day_on c t = D + k"
proof -
  have "day_on c (instant_of c d h mi) = d" if "h \<in> cs_hours schedule" "mi \<in> cs_minutes schedule" for d h mi
    using clock_of_instant(1) that ok by (auto simp: schedule_ok_def subset_iff)
  then show ?thesis unfolding slotsOfDay_fixed(3) [OF assms] fires_iff [OF ok] by (auto split: if_splits; blast)
qed

lemma day_on_mono: "s \<le> t \<Longrightarrow> day_on c s \<le> day_on c t"
  unfolding day_on_def by (rule zdiv_mono1) (simp_all add: DAY_MS_def)

lemma localDayStart_fixed:
  assumes "- 99998 * DAY_MS \<le> t" "- 1440 \<le> c" "c \<le> 1440"
  shows "localDayStartUtcMs (fixed_zone c) t = day_on c t * DAY_MS"
proof -
  have l: "- 99999 * DAY_MS \<le> t + c * MINUTE_MS" using assms by (simp add: ms_defs)
  then have o: "offsetMinutesAt (fixed_zone c) t = c" by (intro offset_fixed) (simp add: DAY_MS_def)
  have "- 99999 \<le> day_on c t" unfolding day_on_def using l zdiv_mono1 [of "- 99999 * DAY_MS" "t + c * MINUTE_MS" DAY_MS] by (simp add: DAY_MS_def)
  then show ?thesis using date_UTC_day [of "day_on c t" 0 0 0] by (simp add: localDayStartUtcMs_def localFieldsAt_def o utc_fields_def Let_def day_on_def)
qed

lemma find_first:
  assumes "sorted xs" "find P xs = Some x"
  shows "x \<in> set xs \<and> P x \<and> (\<forall>y \<in> set xs. P y \<longrightarrow> x \<le> y)"
  using assms by (induction xs) (auto split: if_splits)

text \<open>The search forwards.\<close>

lemma next_loop_spec:
  assumes ok: "schedule_ok schedule" and c: "- 1440 \<le> c" "c \<le> 1440" and d: "- 99998 \<le> D + k"
  shows "case next_loop schedule (fixed_zone c) a (D * DAY_MS) k of
      Some n \<Rightarrow> a < n \<and> fires_at schedule c n \<and> (\<forall>t. a < t \<and> fires_at schedule c t \<and> D + k \<le> day_on c t \<longrightarrow> n \<le> t)
    | None \<Rightarrow> \<forall>t. a < t \<and> fires_at schedule c t \<and> D + k \<le> day_on c t \<longrightarrow> D + MAX_DAYS_SEARCHED < day_on c t"
  using d
proof (induction "nat (MAX_DAYS_SEARCHED + 1 - k)" arbitrary: k)
  case 0
  then show ?case by (subst next_loop.simps) auto
next
  case (Suc n)
  let ?slots = "slotsOfDay schedule (fixed_zone c) (dayAt (D * DAY_MS) k)"
  note slots = slotsOfDay_fixed(1) [OF ok Suc.prems c] in_slotsOfDay [OF ok Suc.prems c]
  have k: "k \<le> MAX_DAYS_SEARCHED" using Suc.hyps(2) by simp
  show ?case
  proof (cases "find (\<lambda>slot. a < slot) ?slots")
    case (Some x)
    then have "next_loop schedule (fixed_zone c) a (D * DAY_MS) k = Some x" using k by (subst next_loop.simps) simp
    moreover have x: "x \<in> set ?slots" "a < x" "\<forall>y \<in> set ?slots. a < y \<longrightarrow> x \<le> y" using find_first [OF slots(1) Some] by auto
    moreover have "x \<le> t" if "a < t" "fires_at schedule c t" "D + k \<le> day_on c t" for t
    proof (cases "day_on c t = D + k")
      case True
      then show ?thesis using that x slots(2) by auto
    next
      case False
      then have "day_on c x < day_on c t" using that x(1) slots(2) by auto
      then show ?thesis using day_on_mono [of t x c] by linarith
    qed
    ultimately show ?thesis using slots(2) by auto
  next
    case None
    then have none: "\<not> (a < t \<and> fires_at schedule c t \<and> day_on c t = D + k)" for t using slots(2) by (auto simp: find_None_iff)
    have "next_loop schedule (fixed_zone c) a (D * DAY_MS) k = next_loop schedule (fixed_zone c) a (D * DAY_MS) (k + 1)"
      using None k by (subst next_loop.simps) simp
    moreover have "n = nat (MAX_DAYS_SEARCHED + 1 - (k + 1))" "- 99998 \<le> D + (k + 1)" using Suc.hyps(2) Suc.prems by simp_all
    moreover have "D + k \<le> day_on c t \<longleftrightarrow> D + (k + 1) \<le> day_on c t \<or> day_on c t = D + k" for t by auto
    ultimately show ?thesis using Suc.hyps(1) [of "k + 1"] none by (auto split: option.splits)
  qed
qed

text \<open>The search backwards.\<close>

lemma newest_loop_take:
  "take limit (newest_loop schedule tz a b limit R back k found) =
   take limit (found @ concat (map (\<lambda>j. rev (filter (\<lambda>slot. a < slot \<and> slot \<le> b) (slotsOfDay schedule tz (dayAt R j)))) (rev [- back..k])))"
proof (induction "nat (k + back + 1)" arbitrary: k found)
  case 0
  then show ?case by (subst newest_loop.simps) auto
next
  case (Suc n)
  show ?case
  proof (cases "length found < limit")
    case True
    have "rev [- back..k] = k # rev [- back..k - 1]" using Suc.hyps(2) upto_rec2 [of "- back" k] by simp
    moreover have "n = nat (k - 1 + back + 1)" using Suc.hyps(2) by simp
    ultimately show ?thesis using Suc.hyps True by (subst newest_loop.simps) simp
  next
    case False
    then show ?thesis by (subst newest_loop.simps) simp
  qed
qed

lemma strict_concat:
  assumes "sorted_wrt (<) ks" "\<And>k. k \<in> set ks \<Longrightarrow> sorted_wrt (<) (f k)"
    "\<And>j k x y. j \<in> set ks \<Longrightarrow> k \<in> set ks \<Longrightarrow> j < k \<Longrightarrow> x \<in> set (f j) \<Longrightarrow> y \<in> set (f k) \<Longrightarrow> x < (y :: int)"
  shows "sorted_wrt (<) (concat (map f (ks :: int list)))"
  using assms
proof (induction ks)
  case (Cons k ks)
  have "sorted_wrt (<) (concat (map f ks))" using Cons.prems(1,2) by (intro Cons.IH) (auto intro: Cons.prems(3))
  moreover have "x < y" if "x \<in> set (f k)" "j \<in> set ks" "y \<in> set (f j)" for x j y
    by (rule Cons.prems(3) [of k j]) (use Cons.prems(1) that in auto)
  ultimately show ?case using Cons.prems(2) by (auto simp: sorted_wrt_append)
qed simp

lemma newest_slots:
  assumes ok: "schedule_ok schedule" and c: "- 1440 \<le> c" "c \<le> 1440" and reach: "- 99998 \<le> D - back" "- back \<le> 1"
  shows "concat (map (\<lambda>j. rev (filter P (slotsOfDay schedule (fixed_zone c) (dayAt (D * DAY_MS) j)))) (rev [- back..1]))
    = rev (sorted_list_of_set {t. P t \<and> fires_at schedule c t \<and> D - back \<le> day_on c t \<and> day_on c t \<le> D + 1})"
proof -
  let ?f = "\<lambda>j. filter P (slotsOfDay schedule (fixed_zone c) (dayAt (D * DAY_MS) j))"
  let ?L = "concat (map ?f [- back..1])"
  have mem: "t \<in> set (?f j) \<longleftrightarrow> P t \<and> fires_at schedule c t \<and> day_on c t = D + j" if "- back \<le> j" for j t
    using in_slotsOfDay [OF ok _ c, of D j t] reach that by auto
  have strict: "sorted_wrt (<) ?L"
  proof (rule strict_concat)
    show "sorted_wrt (<) (?f j)" if "j \<in> set [- back..1]" for j
      using slotsOfDay_fixed(1,2) [OF ok _ c, of D j] that reach by (simp add: sorted_wrt_filter strict_sorted_iff)
    show "x < y" if j: "j \<in> set [- back..1]" "k \<in> set [- back..1]" "j < k" "x \<in> set (?f j)" "y \<in> set (?f k)" for j k x y
    proof -
      have "day_on c x < day_on c y" using j mem by auto
      then show ?thesis using day_on_mono [of y x c] by linarith
    qed
  qed simp
  have "set ?L = {t. P t \<and> fires_at schedule c t \<and> D - back \<le> day_on c t \<and> day_on c t \<le> D + 1}"
  proof (intro set_eqI iffI)
    fix t
    assume "t \<in> set ?L"
    then obtain j where "- back \<le> j" "j \<le> 1" "t \<in> set (?f j)" by auto
    then show "t \<in> {t. P t \<and> fires_at schedule c t \<and> D - back \<le> day_on c t \<and> day_on c t \<le> D + 1}" using mem [of j t] by auto
  next
    fix t
    assume "t \<in> {t. P t \<and> fires_at schedule c t \<and> D - back \<le> day_on c t \<and> day_on c t \<le> D + 1}"
    then have "day_on c t - D \<in> set [- back..1]" "t \<in> set (?f (day_on c t - D))" using mem [of "day_on c t - D" t] by auto
    then show "t \<in> set ?L" by (simp only: set_concat set_map) blast
  qed
  then have "sorted_list_of_set {t. P t \<and> fires_at schedule c t \<and> D - back \<le> day_on c t \<and> day_on c t \<le> D + 1} = ?L"
    using strict sorted_list_of_set.idem_if_sorted_distinct [of ?L] by (simp add: strict_sorted_iff)
  moreover have "rev ?L = concat (map (\<lambda>j. rev (?f j)) (rev [- back..1]))" by (simp add: rev_concat rev_map comp_def)
  ultimately show ?thesis by simp
qed

text \<open>The bisection: between a minute before the jump and one after it, it finds the first after it.\<close>

lemma gap_loop_first:
  assumes "lo < g" "g \<le> hi" "\<And>m. lo < m \<Longrightarrow> m < hi \<Longrightarrow> is_before m \<longleftrightarrow> m < g"
  shows "gap_loop is_before lo hi = g"
  using assms
proof (induction is_before lo hi rule: gap_loop.induct)
  case (1 is_before lo hi)
  let ?m = "(lo + hi) div 2"
  show ?case
  proof (cases "1 < hi - lo")
    case True
    then have m: "lo < ?m" "?m < hi" by auto
    have b: "is_before ?m \<longleftrightarrow> ?m < g" using "1.prems"(3) m by blast
    show ?thesis
    proof (cases "is_before ?m")
      case before: True
      then have "gap_loop is_before ?m hi = g" using b m "1.prems" by (intro "1.IH"(1) [OF True refl before]) auto
      then show ?thesis using True before by (subst gap_loop.simps) (simp add: Let_def)
    next
      case after: False
      then have "gap_loop is_before lo ?m = g" using b m "1.prems" by (intro "1.IH"(2) [OF True refl after]) auto
      then show ?thesis using True after by (subst gap_loop.simps) (simp add: Let_def)
    qed
  next
    case False
    then show ?thesis using "1.prems" by (subst gap_loop.simps) auto
  qed
qed

section \<open>Accepted expressions\<close>

lemma split_on_head: "\<exists>item items. split_on c (x # s) = item # items \<and> (x \<noteq> c \<longrightarrow> (\<exists>r. item = x # r))"
  by (cases "split_on c s") auto

lemma wildcard_item:
  assumes "itemValuesOf (CHR ''*'' # r) spec = Some vs" "fs_names spec = []" "fs_min spec \<le> fs_max spec"
  shows "fs_min spec \<in> set vs"
proof -
  obtain base others where split: "split_on CHR ''/'' (CHR ''*'' # r) = base # others" "\<exists>q. base = CHR ''*'' # q"
    using split_on_head [of "CHR ''/''" "CHR ''*''" r] by auto
  then obtain q where q: "base = CHR ''*'' # q" by blast
  have "base = ''*''"
  proof (rule ccontr)
    assume "base \<noteq> ''*''"
    moreover obtain one items where one: "split_on CHR ''-'' base = one # items" "\<exists>p. one = CHR ''*'' # p"
      using split_on_head [of "CHR ''-''" "CHR ''*''" q] q by auto
    moreover have "valueOf one spec = None" using one(2) assms(2) by (auto simp: valueOf_def is_number_def is_digit_def find_index_def)
    ultimately have "rangeOf base spec = None" by (auto simp: rangeOf_def split: list.splits)
    then show False using assms(1) split(1) by (auto simp: itemValuesOf_def Let_def split: if_splits)
  qed
  then obtain step where "vs = stepped (fs_min spec) (fs_max spec) step" "0 < step"
    using assms(1) split(1) by (auto simp: itemValuesOf_def rangeOf_def Let_def split: if_splits)
  then show ?thesis using set_stepped assms(3) by auto
qed

lemma item_values_mono: "item_values spec found items = Some vs \<Longrightarrow> found \<subseteq> vs"
  by (induction items arbitrary: found) (fastforce split: option.splits)+

lemma wildcard_field:
  assumes "fieldValuesOf field spec = Some vs" "isWildcard field" "fs_names spec = []" "fs_min spec \<le> fs_max spec"
  shows "fs_min spec \<in> vs"
proof -
  obtain r where field: "field = CHR ''*'' # r" using assms(2) by (cases field) (auto simp: isWildcard_def)
  obtain r' items where split: "split_on CHR '','' field = (CHR ''*'' # r') # items"
    using split_on_head [of "CHR '',''" "CHR ''*''" r] field by auto
  then obtain us where us: "itemValuesOf (CHR ''*'' # r') spec = Some us" "item_values spec (set us) items = Some vs"
    using assms(1) by (auto simp: fieldValuesOf_def split: if_splits option.splits)
  show ?thesis using wildcard_item [OF us(1) assms(3,4)] item_values_mono [OF us(2)] by blast
qed

lemma cronScheduleOf_cases:
  assumes "cronScheduleOf e = Some s"
  shows "cs_minutes s \<noteq> {}" "cs_minutes s \<subseteq> {0..59}" "cs_hours s \<noteq> {}" "cs_hours s \<subseteq> {0..23}" "cs_daysOfMonth s \<noteq> {}" "cs_daysOfMonth s \<subseteq> {1..31}"
    "cs_months s \<noteq> {}" "cs_months s \<subseteq> {1..12}" "cs_daysOfWeek s \<noteq> {}" "cs_daysOfWeek s \<subseteq> {0..6}"
    "cs_isDayOfMonthWildcard s \<Longrightarrow> 1 \<in> cs_daysOfMonth s"
    "\<not> cs_isDayOfMonthWildcard s \<Longrightarrow> cs_isDayOfWeekWildcard s \<Longrightarrow> daysOfMonthEverExist (cs_daysOfMonth s) (cs_months s)"
proof -
  obtain f1 f2 f3 f4 f5 weekdays where f: "fieldValuesOf f1 MINUTE = Some (cs_minutes s)" "fieldValuesOf f2 HOUR = Some (cs_hours s)"
    "fieldValuesOf f3 DAY_OF_MONTH = Some (cs_daysOfMonth s)" "fieldValuesOf f4 MONTH = Some (cs_months s)" "fieldValuesOf f5 DAY_OF_WEEK = Some weekdays"
    "cs_daysOfWeek s = (\<lambda>d. d mod 7) ` weekdays" "cs_isDayOfMonthWildcard s = isWildcard f3"
    "\<not> cs_isDayOfMonthWildcard s \<Longrightarrow> cs_isDayOfWeekWildcard s \<Longrightarrow> daysOfMonthEverExist (cs_daysOfMonth s) (cs_months s)"
    using assms by (auto simp: cronScheduleOf_def Let_def split: if_splits list.splits option.splits)
  show "cs_minutes s \<noteq> {}" "cs_minutes s \<subseteq> {0..59}" using fieldValuesOf_bounds [OF f(1)] by (auto simp: MINUTE_def)
  show "cs_hours s \<noteq> {}" "cs_hours s \<subseteq> {0..23}" using fieldValuesOf_bounds [OF f(2)] by (auto simp: HOUR_def)
  show "cs_daysOfMonth s \<noteq> {}" "cs_daysOfMonth s \<subseteq> {1..31}" using fieldValuesOf_bounds [OF f(3)] by (auto simp: DAY_OF_MONTH_def)
  show "cs_months s \<noteq> {}" "cs_months s \<subseteq> {1..12}" using fieldValuesOf_bounds [OF f(4)] by (auto simp: MONTH_def)
  show "cs_daysOfWeek s \<noteq> {}" "cs_daysOfWeek s \<subseteq> {0..6}" using fieldValuesOf_bounds [OF f(5)] f(6) by (auto simp: DAY_OF_WEEK_def)
  show "1 \<in> cs_daysOfMonth s" if "cs_isDayOfMonthWildcard s" using wildcard_field [OF f(3)] f(7) that by (simp add: DAY_OF_MONTH_def)
qed (use assms in \<open>auto simp: cronScheduleOf_def Let_def split: if_splits list.splits option.splits\<close>)

lemma longest_months: "k < 12 \<Longrightarrow> MonthLength True k = int (LONGEST_MONTH_DAYS ! k) \<and> 1 \<le> LONGEST_MONTH_DAYS ! k"
  by (drule twelve_cases) (auto simp: MonthLength_def MonthStart_def month_starts_def LONGEST_MONTH_DAYS_def)

lemma some_such_day:
  assumes "m \<in> {1..12}" "1 \<le> dd" "dd \<le> LONGEST_MONTH_DAYS ! (m - 1)" "w \<in> {0..6}"
  shows "\<exists>d. 0 \<le> d \<and> civil_day_of d = \<lparr>cd_month = m, cd_dayOfMonth = dd, cd_weekday = w\<rparr>"
proof -
  have "m - 1 < 12" using assms(1) by auto
  from date_on_weekday [OF this, of "int dd" "int w"] longest_months [OF this] assms obtain d where
    "0 \<le> d" "MonthFromDay d = int (m - 1)" "DateFromDay d = int dd" "WeekDay d = int w" by auto
  then show ?thesis using assms(1) by (intro exI [of _ d]) (auto simp: civil_day_of_def)
qed

lemma newestBetween_newest:
  assumes "cronScheduleOf e = Some s" "- 99000 * DAY_MS \<le> a" "a \<le> b" "- 1440 \<le> c" "c \<le> 1440" "day_on c b - day_on c a < 2927"
  shows "newestBetween s (fixed_zone c) a b limit = take limit (rev (sorted_list_of_set {t. a < t \<and> t \<le> b \<and> fires_at s c t}))"
proof -
  let ?D = "day_on c b"
  have ok: "schedule_ok s" using cronScheduleOf_cases [OF assms(1)] by (simp add: schedule_ok_def)
  have low: "- 99998 * DAY_MS \<le> a" "- 99998 * DAY_MS \<le> b" using assms(2,3) by (simp_all add: DAY_MS_def)
  have days: "day_on c a \<le> ?D" using day_on_mono assms(3) by blast
  have "- 99990 \<le> day_on c a" unfolding day_on_def using assms zdiv_mono1 [of "- 99001 * DAY_MS" "a + c * MINUTE_MS" DAY_MS] by (simp add: ms_defs)
  then have reach: "- 99998 \<le> ?D - (?D - day_on c a + 1)" "- (?D - day_on c a + 1) \<le> 1" using days by simp_all
  have "round_div (?D * DAY_MS - day_on c a * DAY_MS) DAY_MS = ?D - day_on c a" by (simp add: round_div_def DAY_MS_def)
  then have daysBack: "min MAX_DAYS_SEARCHED (round_div (?D * DAY_MS - day_on c a * DAY_MS) DAY_MS + 1) = ?D - day_on c a + 1"
    using assms(6) by (simp add: MAX_DAYS_SEARCHED_def)
  have "{t. (a < t \<and> t \<le> b) \<and> fires_at s c t \<and> ?D - (?D - day_on c a + 1) \<le> day_on c t \<and> day_on c t \<le> ?D + 1} = {t. a < t \<and> t \<le> b \<and> fires_at s c t}"
  proof (intro Collect_cong iffI conjI; elim conjE)
    fix t
    assume t: "a < t" "t \<le> b"
    have "day_on c a \<le> day_on c t" "day_on c t \<le> ?D" using day_on_mono [of a t c] day_on_mono [of t b c] t by simp_all
    then show "?D - (?D - day_on c a + 1) \<le> day_on c t" "day_on c t \<le> ?D + 1" by simp_all
  qed
  then show ?thesis
    using newest_slots [OF ok assms(4,5) reach, of "\<lambda>t. a < t \<and> t \<le> b"]
    by (simp add: newestBetween_def Let_def localDayStart_fixed [OF low(1) assms(4,5)] localDayStart_fixed [OF low(2) assms(4,5)] daysBack newest_loop_take)
qed

section \<open>Properties\<close>

text \<open>An accepted expression fires: it has a real day, of a year from 2000 on, and a time of that day at which it fires,
  in any zone a fixed number of minutes ahead of UTC.\<close>

theorem accepted_expression_fires:
  assumes "cronScheduleOf e = Some s"
  shows "\<exists>t. fires_at s c t \<and> 0 \<le> t + c * MINUTE_MS"
proof -
  note s = cronScheduleOf_cases [OF assms]
  have ok: "schedule_ok s" using s by (simp add: schedule_ok_def)
  obtain h mi w where hm: "h \<in> cs_hours s" "mi \<in> cs_minutes s" "w \<in> cs_daysOfWeek s" using s by blast
  obtain m dd where md: "m \<in> cs_months s" "1 \<le> dd" "dd \<le> LONGEST_MONTH_DAYS ! (m - 1)"
    and dd: "dd \<in> cs_daysOfMonth s \<or> \<not> cs_isDayOfMonthWildcard s \<and> \<not> cs_isDayOfWeekWildcard s"
  proof (cases "\<not> cs_isDayOfMonthWildcard s \<and> cs_isDayOfWeekWildcard s")
    case True
    then show ?thesis using s(6,12) that unfolding daysOfMonthEverExist_def by fastforce
  next
    case False
    obtain m where m: "m \<in> cs_months s" using s(7) by blast
    then have "m - 1 < 12" using subsetD [OF s(8) m] by auto
    then have "1 \<le> LONGEST_MONTH_DAYS ! (m - 1)" using longest_months by blast
    then show ?thesis using that [OF m, of 1] False s(11) by auto
  qed
  have "m \<in> {1..12}" "w \<in> {0..6}" using md(1) hm(3) s(8,10) by blast+
  from some_such_day [OF this(1) md(2,3) this(2)] obtain d where d: "0 \<le> d" "civil_day_of d = \<lparr>cd_month = m, cd_dayOfMonth = dd, cd_weekday = w\<rparr>" by blast
  have sat: "daySatisfies s (civil_day_of d)" using md(1) dd hm(3) by (auto simp: d(2) daySatisfies_def)
  have "h \<le> 23" "mi \<le> 59" using hm s(2,4) by auto
  then have "day_on c (instant_of c d h mi) = d" by (rule clock_of_instant(1))
  then have "fires_at s c (instant_of c d h mi)" unfolding fires_iff [OF ok] using sat hm by metis
  moreover have "0 \<le> instant_of c d h mi + c * MINUTE_MS" using d(1) by (simp add: instant_of_def ms_defs)
  ultimately show ?thesis by blast
qed

text \<open>Every value of an accepted expression is one of its field, no field is empty, and a list of values, written out with
  commas, reads back as exactly that set.\<close>

theorem cron_fields_read_back:
  assumes "xs \<noteq> []" "set xs \<subseteq> {fs_min spec..fs_max spec}"
  shows "fieldValuesOf (join_with '','' (map nat_digits xs)) spec = Some (set xs)
    \<and> (\<forall>field vs. fieldValuesOf field spec = Some vs \<longrightarrow> vs \<noteq> {} \<and> vs \<subseteq> {fs_min spec..fs_max spec})"
proof -
  have "fs_min spec \<le> fs_max spec" using assms by (cases xs) auto
  then show ?thesis using listed_values_read_back [OF assms] fieldValuesOf_bounds by blast
qed

text \<open>C27: In a zone a fixed number of minutes ahead of UTC, the slot found after an instant is the first instant after it at
  which the schedule fires; when none is found, the schedule does not fire on any of the next 2928 days.\<close>

theorem next_slot_is_the_first:
  assumes "cronScheduleOf e = Some s" "- 99000 * DAY_MS \<le> a" "- 1440 \<le> c" "c \<le> 1440"
  shows "case nextAfter s (fixed_zone c) a of
      Some n \<Rightarrow> a < n \<and> fires_at s c n \<and> (\<forall>t. a < t \<and> t < n \<longrightarrow> \<not> fires_at s c t)
    | None \<Rightarrow> (\<forall>t. a < t \<and> day_on c t \<le> day_on c a + 366 * 8 \<longrightarrow> \<not> fires_at s c t)"
proof -
  have ok: "schedule_ok s" using cronScheduleOf_cases [OF assms(1)] by (simp add: schedule_ok_def)
  have low: "- 99998 * DAY_MS \<le> a" using assms(2) by (simp add: DAY_MS_def)
  have next_is: "nextAfter s (fixed_zone c) a = next_loop s (fixed_zone c) a (day_on c a * DAY_MS) (- 1)"
    by (simp add: nextAfter_def localDayStart_fixed [OF low assms(3,4)])
  have "- 99997 \<le> day_on c a" unfolding day_on_def using assms zdiv_mono1 [of "- 99001 * DAY_MS" "a + c * MINUTE_MS" DAY_MS] by (simp add: ms_defs)
  then have "- 99998 \<le> day_on c a + - 1" by simp
  note spec = next_loop_spec [OF ok assms(3,4) this, of a, folded next_is]
  have later: "day_on c a + - 1 \<le> day_on c t" if "a < t" for t using day_on_mono [of a t c] that by simp
  show ?thesis
  proof (cases "nextAfter s (fixed_zone c) a")
    case None
    then show ?thesis using spec later by (auto simp: MAX_DAYS_SEARCHED_def not_less [symmetric])
  next
    case (Some n)
    then show ?thesis using spec later by (auto simp: not_less [symmetric])
  qed
qed

definition example_schedule :: cron_schedule where
  "example_schedule = \<lparr>cs_minutes = {30}, cs_hours = {9}, cs_daysOfMonth = {1}, cs_months = {1}, cs_daysOfWeek = {0, 1, 2, 3, 4, 5, 6},
     cs_isDayOfMonthWildcard = False, cs_isDayOfWeekWildcard = True\<rparr>"

lemma example_schedule_read: "cronScheduleOf ''30 9 1 1 *'' = Some example_schedule"
  by code_simp

theorem next_slot_is_the_first_witness:
  "\<exists>n \<le> 27000000. nextAfter example_schedule (fixed_zone 120) 1000 = Some n \<and> fires_at example_schedule 120 n
     \<and> (\<forall>t. 1000 < t \<and> t < n \<longrightarrow> \<not> fires_at example_schedule 120 t)"
proof -
  have fires: "fires_at example_schedule 120 27000000" by code_simp
  have "day_on 120 27000000 \<le> day_on 120 1000 + 366 * 8" by code_simp
  moreover have spec: "case nextAfter example_schedule (fixed_zone 120) 1000 of
      Some n \<Rightarrow> 1000 < n \<and> fires_at example_schedule 120 n \<and> (\<forall>t. 1000 < t \<and> t < n \<longrightarrow> \<not> fires_at example_schedule 120 t)
    | None \<Rightarrow> (\<forall>t. 1000 < t \<and> day_on 120 t \<le> day_on 120 1000 + 366 * 8 \<longrightarrow> \<not> fires_at example_schedule 120 t)"
    by (rule next_slot_is_the_first [OF example_schedule_read]) (simp_all add: DAY_MS_def)
  ultimately obtain n where n: "nextAfter example_schedule (fixed_zone 120) 1000 = Some n"
    using fires by (cases "nextAfter example_schedule (fixed_zone 120) 1000") auto
  have "1000 < n \<and> fires_at example_schedule 120 n \<and> (\<forall>t. 1000 < t \<and> t < n \<longrightarrow> \<not> fires_at example_schedule 120 t)"
    using spec n by simp
  then show ?thesis using n fires by (intro exI [of _ n]) (auto simp: not_less [symmetric])
qed

text \<open>In such a zone, the slots found between two instants at most 2926 days apart are exactly the newest instants at
  which the schedule fires after the first and up to the second, newest first, as many as asked for.\<close>

theorem newest_slots_between:
  assumes "cronScheduleOf e = Some s" "- 99000 * DAY_MS \<le> a" "a \<le> b" "- 1440 \<le> c" "c \<le> 1440" "day_on c b - day_on c a < 2927"
  shows "newestBetween s (fixed_zone c) a b limit = take limit (rev (sorted_list_of_set {t. a < t \<and> t \<le> b \<and> fires_at s c t}))"
  using assms by (rule newestBetween_newest)

text \<open>Where the clock of a zone jumps forwards, a time it never shows is moved to the first minute after the jump: the
  bisection ends, at the minute at which the offset changes.\<close>

theorem gap_ends_at_the_jump:
  assumes u: "civilUtcMsOf civil = u * MINUTE_MS"
    and before: "offsetMinutesAt tz (u * MINUTE_MS - DAY_MS) = ob" and after: "offsetMinutesAt tz (u * MINUTE_MS + DAY_MS) = oa"
    and jump: "\<And>m. u - oa < m \<Longrightarrow> m < u - ob \<Longrightarrow> offsetMinutesAt tz (m * MINUTE_MS) = ob \<longleftrightarrow> m < g"
    and gap: "u - oa < g" "g \<le> u - ob"
  shows "endOfTheGapSwallowing tz civil = g * MINUTE_MS"
proof -
  have "u * MINUTE_MS - q * MINUTE_MS = (u - q) * MINUTE_MS" for q by (simp add: left_diff_distrib)
  then have div: "(u * MINUTE_MS - q * MINUTE_MS) div MINUTE_MS = u - q" "- ((- (u * MINUTE_MS - q * MINUTE_MS)) div MINUTE_MS) = u - q" for q
    by (simp_all add: MINUTE_MS_def)
  have "gap_loop (\<lambda>m. offsetMinutesAt tz (m * MINUTE_MS) = ob) (u - oa) (u - ob) = g" using gap jump by (intro gap_loop_first)
  then show ?thesis by (simp add: endOfTheGapSwallowing_def Let_def u before after div)
qed

text \<open>A zone an hour ahead that goes two hours ahead at minute 60 of the epoch: the time 02:30 does not exist that day.\<close>

definition example_zone :: zone where
  "example_zone t = reads (t + (if t < 3600000 then 60 else 120) * MINUTE_MS)"

end
