(* ===== verification/Cron_Source.thy ===== *)
theory Cron_Source
  imports Trigger_Engine Cron_Calendar Fleet_Interfaces
begin

text \<open>
  The source that offers the slots of the cron triggers to the engine (\<^verbatim>\<open>triggers/cronSource.ts\<close>) and the table of what
  the sources remember (\<^verbatim>\<open>triggers/triggerCursors.ts\<close>). The JSON of a cursor is kept as what the sources read of it. A
  timer is its trigger and the instant it is due; the zones are arguments. A throw in the work of one trigger is caught, and
  leaves what was done before it.
\<close>

section \<open>Cursors\<close>

datatype cursor_value =
    CronCursor "int option" \<comment> \<open>of kind cron; None when its instant is not a date\<close>
  | TableCursor json
  | WaitCursor json
  | CorruptedCursor

type_synonym cursor_table = "(string \<times> cursor_value) list"

definition save_cursor :: "string \<Rightarrow> cursor_value \<Rightarrow> cursor_table \<Rightarrow> cursor_table" where
  "save_cursor i v t =
     (if i \<in> set (map fst t) then map (\<lambda>(j, u). if j = i then (j, v) else (j, u)) t else t @ [(i, v)])"

definition read_cursor :: "string \<Rightarrow> cursor_table \<Rightarrow> cursor_value option" where
  "read_cursor i t = (case map_of t i of Some CorruptedCursor \<Rightarrow> None | v \<Rightarrow> v)"

definition isPermanentCursor :: "cursor_value \<Rightarrow> bool" where
  "isPermanentCursor v = (case v of CronCursor _ \<Rightarrow> True | TableCursor _ \<Rightarrow> True | _ \<Rightarrow> False)"

definition takeAll :: "cursor_table \<Rightarrow> (string \<times> cursor_value) list \<times> cursor_table" where
  "takeAll t =
     (let parsedCursors = filter (\<lambda>(i, v). v \<noteq> CorruptedCursor \<and> \<not> isPermanentCursor v) t
      in (parsedCursors, filter (\<lambda>(i, v). i \<notin> set (map fst parsedCursors)) t))"

section \<open>What is offered\<close>

definition MAX_WAIT_MS :: int where "MAX_WAIT_MS = 60 * 60000"
definition ON_TIME_WITHIN_MS :: int where "ON_TIME_WITHIN_MS = 2 * 60000"
definition MAX_LIVE_SLOTS :: nat where "MAX_LIVE_SLOTS = 3"
definition RUN_ALL_CAP :: nat where "RUN_ALL_CAP = 5"

text \<open>\<open>padStart\<close> with zeros, and \<open>toISOString\<close>.\<close>

definition padded :: "nat \<Rightarrow> nat \<Rightarrow> string" where
  "padded w n = replicate (w - length (nat_digits n)) CHR ''0'' @ nat_digits n"

definition toISOString :: "int \<Rightarrow> string" where
  "toISOString t =
     (let f = utc_fields t; y = cf_year f
      in (if 0 \<le> y \<and> y \<le> 9999 then padded 4 (nat y) else (if y < 0 then ''-'' else ''+'') @ padded 6 (nat \<bar>y\<bar>))
         @ ''-'' @ padded 2 (nat (cf_month f)) @ ''-'' @ padded 2 (nat (cf_dayOfMonth f)) @ ''T'' @ padded 2 (nat (cf_hour f))
         @ '':'' @ padded 2 (nat (cf_minute f)) @ '':'' @ padded 2 (nat (t div 1000 mod 60)) @ ''.'' @ padded 3 (nat (t mod 1000)) @ ''Z'')"

definition dedupKeyOf :: "int \<Rightarrow> string" where
  "dedupKeyOf slotMs = ''cron:'' @ toISOString slotMs"

definition int_digits :: "int \<Rightarrow> string" where
  "int_digits n = (if n < 0 then ''-'' else []) @ nat_digits (nat \<bar>n\<bar>)"

definition eventOf :: "zone \<Rightarrow> int \<Rightarrow> json" where
  "eventOf tz slotMs =
     (let f = localFieldsAt tz slotMs;
          localDate = int_digits (cf_year f) @ ''-'' @ padded 2 (nat (cf_month f)) @ ''-'' @ padded 2 (nat (cf_dayOfMonth f));
          localTime = padded 2 (nat (cf_hour f)) @ '':'' @ padded 2 (nat (cf_minute f))
      in JObj [(''slot'', JObj [(''at'', JStr (toISOString slotMs)), (''localDate'', JStr localDate), (''localTime'', JStr localTime)])])"

definition offerOf :: "zone \<Rightarrow> int \<Rightarrow> backlog_offer" where
  "offerOf tz slotMs = \<lparr>bo_dedupKey = dedupKeyOf slotMs, bo_event = eventOf tz slotMs, bo_dueAt = nat slotMs, bo_causedByChainDepth = None\<rparr>"

definition MISSED_SLOTS_KEPT_BY :: "string \<Rightarrow> int list \<Rightarrow> int list" where
  "MISSED_SLOTS_KEPT_BY catchUp missedNewestFirst =
     (if catchUp = ''run_once'' then take 1 missedNewestFirst else if catchUp = ''run_all'' then take RUN_ALL_CAP missedNewestFirst else [])"

text \<open>The newest slot due and the slots to offer, oldest first; None when nothing is due.\<close>

definition slots_due :: "cron_schedule \<Rightarrow> zone \<Rightarrow> string \<Rightarrow> int \<Rightarrow> int \<Rightarrow> (int \<times> int list) option" where
  "slots_due schedule tz catchUp throughMs now =
     (let firstLiveMs = now - ON_TIME_WITHIN_MS;
          liveNewestFirst = newestBetween schedule tz (max throughMs (firstLiveMs - 1)) now MAX_LIVE_SLOTS;
          missedNewestFirst = newestBetween schedule tz throughMs (firstLiveMs - 1) RUN_ALL_CAP
      in case liveNewestFirst @ missedNewestFirst of
           [] \<Rightarrow> None
         | newestDue # _ \<Rightarrow> Some (newestDue, sort (liveNewestFirst @ MISSED_SLOTS_KEPT_BY catchUp missedNewestFirst)))"

section \<open>The source\<close>

record 'w cron_source =
  cr_engine :: "'w engine"
  cr_cursors :: cursor_table
  cr_timers :: "(string \<times> int) list"

record 'w cron_env =
  ce_engine :: "'w engine_env"
  ce_zone :: "string \<Rightarrow> zone"

definition cron_now :: "'w cron_env \<Rightarrow> 'w cron_source \<Rightarrow> int" where
  "cron_now env s = int (now_of (ce_engine env) (cr_engine s))"

definition isCronTrigger :: "trigger_record \<Rightarrow> bool" where
  "isCronTrigger tr = (case tr_when tr of CronWhen _ _ _ \<Rightarrow> True | _ \<Rightarrow> False)"

definition armedCronTriggers :: "'w cron_source \<Rightarrow> trigger_record list" where
  "armedCronTriggers s = filter isCronTrigger (listArmed (eg_triggers (cr_engine s)))"

definition cancelTimer :: "string \<Rightarrow> 'w cron_source \<Rightarrow> 'w cron_source" where
  "cancelTimer i s = s\<lparr>cr_timers := filter (\<lambda>(j, _). j \<noteq> i) (cr_timers s)\<rparr>"

definition cursorOf :: "string \<Rightarrow> 'w cron_source \<Rightarrow> int option" where
  "cursorOf i s = (case read_cursor i (cr_cursors s) of Some (CronCursor through) \<Rightarrow> through | _ \<Rightarrow> None)"

definition cursorAtArmingOf :: "trigger_record \<Rightarrow> int option" where
  "cursorAtArmingOf tr = map_option int (tr_armedAt tr)"

text \<open>The schedule, the zone and the catch-up of a cron trigger.\<close>

definition calendarOf :: "'w cron_env \<Rightarrow> trigger_record \<Rightarrow> (cron_schedule \<times> zone \<times> string) option" where
  "calendarOf env tr =
     (case tr_when tr of
        CronWhen expression timezone catchUp \<Rightarrow> map_option (\<lambda>schedule. (schedule, ce_zone env timezone, catchUp)) (cronScheduleOf expression)
      | _ \<Rightarrow> None)"

definition setTimer :: "'w cron_env \<Rightarrow> string \<Rightarrow> 'w cron_source \<Rightarrow> 'w cron_source" where
  "setTimer env i s =
     (let s1 = cancelTimer i s; now = cron_now env s1
      in case find (\<lambda>tr. tr_id tr = i) (armedCronTriggers s1) of
           None \<Rightarrow> s1
         | Some tr \<Rightarrow>
             (case Option.bind (calendarOf env tr) (\<lambda>(schedule, tz, _). nextAfter schedule tz now) of
                None \<Rightarrow> s1
              | Some nextSlot \<Rightarrow> s1\<lparr>cr_timers := cr_timers s1 @ [(i, now + min (max (nextSlot - now) 1) MAX_WAIT_MS)]\<rparr>))"

definition startFromNow :: "'w cron_env \<Rightarrow> trigger_record \<Rightarrow> 'w cron_source \<Rightarrow> 'w cron_source" where
  "startFromNow env tr s =
     (if \<not> isCronTrigger tr then s
      else (let through = max (opt_default 0 (cursorOf (tr_id tr) s)) (cron_now env s)
            in setTimer env (tr_id tr) (s\<lparr>cr_cursors := save_cursor (tr_id tr) (CronCursor (Some through)) (cr_cursors s)\<rparr>)))"

definition wake :: "'w cron_env \<Rightarrow> trigger_record \<Rightarrow> 'w cron_source \<Rightarrow> (engine_error + unit) \<times> 'w cron_source" where
  "wake env tr s =
     (let i = tr_id tr; s1 = cancelTimer i s
      in case (case cursorOf i s1 of Some through \<Rightarrow> Some through | None \<Rightarrow> cursorAtArmingOf tr) of
           None \<Rightarrow> (Inr (), startFromNow env tr s1)
         | Some throughMs \<Rightarrow>
             (case calendarOf env tr of
                None \<Rightarrow> (Inr (), s1)
              | Some (schedule, tz, catchUp) \<Rightarrow>
                  (case slots_due schedule tz catchUp throughMs (cron_now env s1) of
                     None \<Rightarrow> (Inr (), setTimer env i s1)
                   | Some (newestDue, slotsToOffer) \<Rightarrow>
                       (let (outcome, eg) = submitBacklog (ce_engine env) i (map (offerOf tz) slotsToOffer) (cr_engine s1); s2 = s1\<lparr>cr_engine := eg\<rparr>
                        in case outcome of
                             Inl e \<Rightarrow> (Inl e, s2)
                           | Inr _ \<Rightarrow> (Inr (), setTimer env i (s2\<lparr>cr_cursors := save_cursor i (CronCursor (Some newestDue)) (cr_cursors s2)\<rparr>))))))"

text \<open>The throw of one trigger is logged and the others go on.\<close>

definition guarded_wake :: "'w cron_env \<Rightarrow> trigger_record \<Rightarrow> 'w cron_source \<Rightarrow> 'w cron_source" where
  "guarded_wake env tr s = snd (wake env tr s)"

definition start_source :: "'w cron_env \<Rightarrow> 'w cron_source \<Rightarrow> 'w cron_source" where
  "start_source env s = fold (guarded_wake env) (armedCronTriggers s) s"

definition stop_source :: "'w cron_source \<Rightarrow> 'w cron_source" where
  "stop_source s = s\<lparr>cr_timers := []\<rparr>"

definition sync_source :: "string \<Rightarrow> 'w cron_source \<Rightarrow> 'w cron_source" where
  "sync_source i s = (if find (\<lambda>tr. tr_id tr = i) (armedCronTriggers s) = None then cancelTimer i s else s)"

text \<open>The callback of a timer.\<close>

definition timer_rings :: "'w cron_env \<Rightarrow> string \<Rightarrow> 'w cron_source \<Rightarrow> 'w cron_source" where
  "timer_rings env i s =
     (let s1 = cancelTimer i s
      in case find (\<lambda>tr. tr_id tr = i) (armedCronTriggers s1) of None \<Rightarrow> s1 | Some tr \<Rightarrow> guarded_wake env tr s1)"

section \<open>The cursor never moves back\<close>

lemma newest_loop_within:
  "set (newest_loop schedule tz a b limit R back k found) \<subseteq> set found \<union> {t. a < t \<and> t \<le> b}"
proof (induction "nat (k + back + 1)" arbitrary: k found)
  case 0
  then show ?case by (subst newest_loop.simps) auto
next
  case (Suc n)
  have "n = nat (k - 1 + back + 1)" using Suc.hyps(2) by simp
  note step = Suc.hyps(1) [OF this]
  have "set (newest_loop schedule tz a b limit R back (k - 1) (found @ rev (filter (\<lambda>slot. a < slot \<and> slot \<le> b) xs))) \<subseteq> set found \<union> {t. a < t \<and> t \<le> b}" for xs
    by (rule order_trans [OF step]) auto
  then show ?case by (subst newest_loop.simps) simp
qed

lemma newestBetween_within: "t \<in> set (newestBetween schedule tz a b limit) \<Longrightarrow> a < t \<and> t \<le> b"
  using newest_loop_within by (fastforce simp: newestBetween_def Let_def dest: in_set_takeD)

lemma slots_due_within:
  assumes "slots_due schedule tz catchUp through now = Some (newestDue, slots)"
  shows "through < newestDue \<and> newestDue \<le> now \<and> (\<forall>t \<in> set slots. through < t \<and> t \<le> now)"
proof -
  define live where "live = newestBetween schedule tz (max through (now - ON_TIME_WITHIN_MS - 1)) now MAX_LIVE_SLOTS"
  define missed where "missed = newestBetween schedule tz through (now - ON_TIME_WITHIN_MS - 1) RUN_ALL_CAP"
  have "max through (now - ON_TIME_WITHIN_MS - 1) < t \<and> t \<le> now" if "t \<in> set live" for t using that unfolding live_def by (rule newestBetween_within)
  moreover have "through < t \<and> t \<le> now - ON_TIME_WITHIN_MS - 1" if "t \<in> set missed" for t using that unfolding missed_def by (rule newestBetween_within)
  ultimately have all: "through < t \<and> t \<le> now" if "t \<in> set live \<union> set missed" for t using that by (fastforce simp: ON_TIME_WITHIN_MS_def)
  obtain rest where due: "live @ missed = newestDue # rest" "slots = sort (live @ MISSED_SLOTS_KEPT_BY catchUp missed)"
    using assms unfolding slots_due_def Let_def live_def [symmetric] missed_def [symmetric] by (auto split: list.splits)
  have "newestDue \<in> set live \<union> set missed" using arg_cong [OF due(1), of set] by auto
  moreover have "set slots \<subseteq> set live \<union> set missed" unfolding due(2) by (auto simp: MISSED_SLOTS_KEPT_BY_def dest: in_set_takeD)
  ultimately show ?thesis using all by blast
qed

lemma map_of_save: "map_of (save_cursor i v t) j = (if j = i then Some v else map_of t j)"
proof (cases "i \<in> set (map fst t)")
  case True
  have "map_of (map (\<lambda>(j, u). if j = i then (j, v) else (j, u)) t) j = (if j = i then (if i \<in> set (map fst t) then Some v else None) else map_of t j)"
    by (induction t) (auto, metis fst_conv imageI)
  then show ?thesis using True by (simp add: save_cursor_def)
next
  case False
  then have "map_of t i = None" by (simp add: map_of_eq_None_iff)
  then show ?thesis using False by (auto simp: save_cursor_def map_add_def split: option.splits)
qed

lemma cursor_saved: "cursorOf j (s\<lparr>cr_cursors := save_cursor i (CronCursor (Some t)) (cr_cursors s)\<rparr>) = (if j = i then Some t else cursorOf j s)"
  by (simp add: cursorOf_def read_cursor_def map_of_save)

lemma cursor_kept [simp]: "cursorOf j (cancelTimer i s) = cursorOf j s" "cursorOf j (setTimer env i s) = cursorOf j s" "cursorOf j (s\<lparr>cr_engine := eg\<rparr>) = cursorOf j s"
  "cursorOf j (s\<lparr>cr_timers := ts\<rparr>) = cursorOf j s"
  by (simp_all add: cursorOf_def cancelTimer_def setTimer_def Let_def split: option.splits)

definition no_further_back :: "'w cron_source \<Rightarrow> 'w cron_source \<Rightarrow> bool" where
  "no_further_back s s' \<longleftrightarrow> (\<forall>i t. cursorOf i s = Some t \<longrightarrow> (\<exists>t'. cursorOf i s' = Some t' \<and> t \<le> t'))"

lemma no_further_back_trans: "no_further_back a b \<Longrightarrow> no_further_back b c \<Longrightarrow> no_further_back a c"
  unfolding no_further_back_def by (meson order_trans)

lemma no_further_back_refl: "no_further_back s s"
  by (simp add: no_further_back_def)

lemma startFromNow_cursor: "no_further_back s (startFromNow env tr s)"
  by (auto simp: no_further_back_def startFromNow_def Let_def cursor_saved)

lemma wake_cursor: "no_further_back s (snd (wake env tr s))"
proof -
  let ?i = "tr_id tr" and ?s = "cancelTimer (tr_id tr) s"
  have start: "no_further_back s (startFromNow env tr ?s)"
    using startFromNow_cursor [of ?s env tr] by (simp add: no_further_back_def)
  have saved: "no_further_back s (setTimer env ?i ((?s\<lparr>cr_engine := eg\<rparr>)\<lparr>cr_cursors := save_cursor ?i (CronCursor (Some t)) (cr_cursors (?s\<lparr>cr_engine := eg\<rparr>))\<rparr>))"
    if "\<And>u. cursorOf ?i s = Some u \<Longrightarrow> u \<le> t" for eg t
    using that by (auto simp: no_further_back_def cursorOf_def read_cursor_def map_of_save cancelTimer_def setTimer_def Let_def split: option.splits if_splits)
  show ?thesis
  proof (cases "(case cursorOf ?i ?s of Some through \<Rightarrow> Some through | None \<Rightarrow> cursorAtArmingOf tr)")
    case None
    then show ?thesis using start by (simp add: wake_def Let_def)
  next
    case (Some through)
    show ?thesis
    proof (cases "calendarOf env tr")
      case None
      with Some show ?thesis by (simp add: wake_def Let_def no_further_back_def)
    next
      case cal: (Some x)
      obtain schedule tz catchUp where x: "x = (schedule, tz, catchUp)" by (cases x)
      show ?thesis
      proof (cases "slots_due schedule tz catchUp through (cron_now env ?s)")
        case None
        with Some cal show ?thesis by (simp add: wake_def Let_def x no_further_back_def)
      next
        case due: (Some y)
        obtain newestDue slots where y: "y = (newestDue, slots)" by (cases y)
        have "through < newestDue" using slots_due_within due y by blast
        moreover have "cursorOf ?i s = Some u \<Longrightarrow> u = through" for u using Some by (auto split: option.splits)
        ultimately have "\<And>u. cursorOf ?i s = Some u \<Longrightarrow> u \<le> newestDue" by fastforce
        then show ?thesis using Some cal due saved [of newestDue]
          by (auto simp: wake_def Let_def x y no_further_back_refl split: prod.splits sum.splits) (simp add: no_further_back_def)
      qed
    qed
  qed
qed

lemma guarded_wake_cursor: "no_further_back s (guarded_wake env tr s)"
  by (simp add: guarded_wake_def wake_cursor)

lemma fold_wake_cursor: "no_further_back s (fold (guarded_wake env) trs s)"
  by (induction trs arbitrary: s) (use guarded_wake_cursor no_further_back_trans no_further_back_refl in \<open>fastforce\<close>)+

datatype 'w cron_op = Start | Stop | Sync string | Arm trigger_record | TimerRings string | EngineMoves "'w engine"

definition cron_step :: "'w cron_env \<times> 'w cron_op \<Rightarrow> 'w cron_source \<Rightarrow> 'w cron_source" where
  "cron_step call s =
     (case snd call of
        Start \<Rightarrow> start_source (fst call) s
      | Stop \<Rightarrow> stop_source s
      | Sync i \<Rightarrow> sync_source i s
      | Arm tr \<Rightarrow> startFromNow (fst call) tr s
      | TimerRings i \<Rightarrow> timer_rings (fst call) i s
      | EngineMoves eg \<Rightarrow> s\<lparr>cr_engine := eg\<rparr>)"

lemma cron_step_cursor: "no_further_back s (cron_step call s)"
proof (cases "snd call")
  case Start
  then show ?thesis by (simp add: cron_step_def start_source_def fold_wake_cursor)
next
  case (Arm tr)
  then show ?thesis by (simp add: cron_step_def startFromNow_cursor)
next
  case (TimerRings i)
  have "no_further_back s (guarded_wake env tr (cancelTimer i s))" for env tr
    using guarded_wake_cursor [of "cancelTimer i s" env tr] by (simp add: no_further_back_def)
  then show ?thesis using TimerRings by (simp add: cron_step_def timer_rings_def Let_def no_further_back_def split: option.splits)
qed (simp_all add: cron_step_def stop_source_def sync_source_def no_further_back_def)

interpretation cron_cursors: advancing "\<lambda>s i. cursorOf i s" nat cron_step
proof
  fix t :: "'a cron_source" and k e op
  assume "cursorOf k t = Some e"
  then obtain e' where "cursorOf k (cron_step op t) = Some e'" "e \<le> e'" using cron_step_cursor [of t op] unfolding no_further_back_def by blast
  then show "\<exists>e'. cursorOf k (cron_step op t) = Some e' \<and> nat e \<le> nat e'" by (auto intro: nat_mono)
qed

section \<open>One key per slot\<close>

lemma length_nat_digits: "n < 10 ^ Suc w \<Longrightarrow> length (nat_digits n) \<le> Suc w"
proof (induction w arbitrary: n)
  case 0
  then show ?case by (subst nat_digits.simps) simp
next
  case (Suc w)
  then have "n div 10 < 10 ^ Suc w" by (simp add: div_less_iff_less_mult mult.commute)
  then show ?case using Suc.IH by (subst nat_digits.simps) simp
qed

lemma length_padded: "n < 10 ^ Suc w \<Longrightarrow> length (padded (Suc w) n) = Suc w"
  using length_nat_digits [of n w] by (simp add: padded_def)

lemma padded_value: "digits_value (padded w n) = n"
proof -
  have "foldl (\<lambda>n c. 10 * n + (of_char c - 48)) 0 (replicate k CHR ''0'') = (0 :: nat)" for k by (induction k) simp_all
  then have "digits_value (padded w n) = digits_value (nat_digits n)" by (simp add: padded_def digits_value_def)
  then show ?thesis by simp
qed

lemma padded_inj: "padded w m = padded w n \<Longrightarrow> m = n"
  using padded_value by metis

lemma padded_cut:
  assumes "padded (Suc w) m @ r = padded (Suc w) n @ q" "m < 10 ^ Suc w" "n < 10 ^ Suc w"
  shows "m = n \<and> r = q"
  using assms length_padded [of m w] length_padded [of n w] by (auto dest: padded_inj)

lemma clock_bounds:
  "0 \<le> t div HOUR_MS mod 24" "t div HOUR_MS mod 24 < 24" "0 \<le> t div Civil_Calendar.MINUTE_MS mod 60" "t div Civil_Calendar.MINUTE_MS mod 60 < 60"
  "0 \<le> t div 1000 mod 60" "t div 1000 mod 60 < 60" "0 \<le> t mod 1000" "t mod 1000 < (1000 :: int)"
  by simp_all

definition iso_parts :: "int \<Rightarrow> nat list" where
  "iso_parts t = (let d = t div DAY_MS in [nat (YearFromDay d), nat (MonthFromDay d + 1), nat (DateFromDay d), nat (t div HOUR_MS mod 24),
     nat (t div Civil_Calendar.MINUTE_MS mod 60), nat (t div 1000 mod 60), nat (t mod 1000)])"

lemma iso_parts_inj:
  assumes "iso_parts s = iso_parts t" "0 \<le> YearFromDay (s div DAY_MS)" "0 \<le> YearFromDay (t div DAY_MS)"
  shows "s = t"
proof -
  note b = MonthFromDay_bounds DateFromDay_bounds
  have "YearFromDay (s div DAY_MS) = YearFromDay (t div DAY_MS)" "MonthFromDay (s div DAY_MS) = MonthFromDay (t div DAY_MS)"
    "DateFromDay (s div DAY_MS) = DateFromDay (t div DAY_MS)"
    using assms b [of "s div DAY_MS"] b [of "t div DAY_MS"] by (auto simp: iso_parts_def Let_def eq_nat_nat_iff)
  then have day: "s div DAY_MS = t div DAY_MS" using MakeDay_fields by metis
  have clock: "s div HOUR_MS mod 24 = t div HOUR_MS mod 24" "s div Civil_Calendar.MINUTE_MS mod 60 = t div Civil_Calendar.MINUTE_MS mod 60"
    "s div 1000 mod 60 = t div 1000 mod 60" "s mod 1000 = t mod 1000"
    using assms(1) by (auto simp: iso_parts_def Let_def eq_nat_nat_iff)
  have "s mod DAY_MS = t mod DAY_MS" unfolding clock_fields [symmetric] second_fields clock by (rule refl)
  then show ?thesis using day by (metis div_mult_mod_eq)
qed

lemma iso_parts_bounds:
  assumes "iso_parts t = [y, mo, d, h, mi, s, ms]" "YearFromDay (t div DAY_MS) \<le> 9999"
  shows "y < 10 ^ Suc 3" "mo < 10 ^ Suc 1" "d < 10 ^ Suc 1" "h < 10 ^ Suc 1" "mi < 10 ^ Suc 1" "s < 10 ^ Suc 1"
proof -
  have eqs: "y = nat (YearFromDay (t div DAY_MS))" "mo = nat (MonthFromDay (t div DAY_MS) + 1)" "d = nat (DateFromDay (t div DAY_MS))"
    "h = nat (t div HOUR_MS mod 24)" "mi = nat (t div Civil_Calendar.MINUTE_MS mod 60)" "s = nat (t div 1000 mod 60)"
    using assms(1) unfolding iso_parts_def Let_def by simp_all
  have small: "nat x < 10 ^ Suc 1" if "x < 60" for x :: int using that by simp
  show "y < 10 ^ Suc 3" unfolding eqs(1) using assms(2) by simp
  show "mo < 10 ^ Suc 1" "d < 10 ^ Suc 1" unfolding eqs using MonthFromDay_bounds [of "t div DAY_MS"] DateFromDay_bounds [of "t div DAY_MS"] by (intro small; linarith)+
  show "h < 10 ^ Suc 1" "mi < 10 ^ Suc 1" "s < 10 ^ Suc 1" unfolding eqs by (rule small, rule less_le_trans [OF clock_bounds(2)], simp) (rule small, rule clock_bounds)+
qed

lemma toISOString_parts:
  assumes "0 \<le> YearFromDay (t div DAY_MS)" "YearFromDay (t div DAY_MS) \<le> 9999"
  shows "toISOString t = (case iso_parts t of [y, mo, d, h, mi, s, ms] \<Rightarrow>
    padded 4 y @ ''-'' @ padded 2 mo @ ''-'' @ padded 2 d @ ''T'' @ padded 2 h @ '':'' @ padded 2 mi @ '':'' @ padded 2 s @ ''.'' @ padded 3 ms @ ''Z'')"
  using assms by (simp add: toISOString_def iso_parts_def utc_fields_def Let_def)

lemma toISOString_inj:
  assumes y: "0 \<le> YearFromDay (s div DAY_MS)" "YearFromDay (s div DAY_MS) \<le> 9999" "0 \<le> YearFromDay (t div DAY_MS)" "YearFromDay (t div DAY_MS) \<le> 9999"
    and same: "toISOString s = toISOString t"
  shows "s = t"
proof -
  obtain y1 mo1 d1 h1 mi1 s1 ms1 where p1: "iso_parts s = [y1, mo1, d1, h1, mi1, s1, ms1]" by (simp add: iso_parts_def Let_def)
  obtain y2 mo2 d2 h2 mi2 s2 ms2 where p2: "iso_parts t = [y2, mo2, d2, h2, mi2, s2, ms2]" by (simp add: iso_parts_def Let_def)
  note b1 = iso_parts_bounds [OF p1 y(2)] and b2 = iso_parts_bounds [OF p2 y(4)]
  let ?str = "\<lambda>y mo d h mi s ms. padded (Suc 3) y @ ''-'' @ padded (Suc 1) mo @ ''-'' @ padded (Suc 1) d @ ''T'' @ padded (Suc 1) h @ '':'' @ padded (Suc 1) mi @ '':''
    @ padded (Suc 1) s @ ''.'' @ padded 3 ms @ ''Z''"
  have "?str y1 mo1 d1 h1 mi1 s1 ms1 = ?str y2 mo2 d2 h2 mi2 s2 ms2"
    using same toISOString_parts [OF y(1,2)] toISOString_parts [OF y(3,4)] by (simp add: p1 p2 eval_nat_numeral)
  from padded_cut [OF this b1(1) b2(1)] have 1: "y1 = y2" "padded (Suc 1) mo1 @ ''-'' @ padded (Suc 1) d1 @ ''T'' @ padded (Suc 1) h1 @ '':'' @ padded (Suc 1) mi1 @ '':''
    @ padded (Suc 1) s1 @ ''.'' @ padded 3 ms1 @ ''Z'' = padded (Suc 1) mo2 @ ''-'' @ padded (Suc 1) d2 @ ''T'' @ padded (Suc 1) h2 @ '':'' @ padded (Suc 1) mi2 @ '':''
    @ padded (Suc 1) s2 @ ''.'' @ padded 3 ms2 @ ''Z''" by simp_all
  from padded_cut [OF 1(2) b1(2) b2(2)] have 2: "mo1 = mo2" "padded (Suc 1) d1 @ ''T'' @ padded (Suc 1) h1 @ '':'' @ padded (Suc 1) mi1 @ '':''
    @ padded (Suc 1) s1 @ ''.'' @ padded 3 ms1 @ ''Z'' = padded (Suc 1) d2 @ ''T'' @ padded (Suc 1) h2 @ '':'' @ padded (Suc 1) mi2 @ '':''
    @ padded (Suc 1) s2 @ ''.'' @ padded 3 ms2 @ ''Z''" by simp_all
  from padded_cut [OF 2(2) b1(3) b2(3)] have 3: "d1 = d2" "padded (Suc 1) h1 @ '':'' @ padded (Suc 1) mi1 @ '':'' @ padded (Suc 1) s1 @ ''.'' @ padded 3 ms1 @ ''Z''
    = padded (Suc 1) h2 @ '':'' @ padded (Suc 1) mi2 @ '':'' @ padded (Suc 1) s2 @ ''.'' @ padded 3 ms2 @ ''Z''" by simp_all
  from padded_cut [OF 3(2) b1(4) b2(4)] have 4: "h1 = h2" "padded (Suc 1) mi1 @ '':'' @ padded (Suc 1) s1 @ ''.'' @ padded 3 ms1 @ ''Z''
    = padded (Suc 1) mi2 @ '':'' @ padded (Suc 1) s2 @ ''.'' @ padded 3 ms2 @ ''Z''" by simp_all
  from padded_cut [OF 4(2) b1(5) b2(5)] have 5: "mi1 = mi2" "padded (Suc 1) s1 @ ''.'' @ padded 3 ms1 @ ''Z'' = padded (Suc 1) s2 @ ''.'' @ padded 3 ms2 @ ''Z''" by simp_all
  from padded_cut [OF 5(2) b1(6) b2(6)] have 6: "s1 = s2" "padded 3 ms1 @ ''Z'' = padded 3 ms2 @ ''Z''" by simp_all
  note same_parts = 1(1) 2(1) 3(1) 4(1) 5(1) 6
  have "iso_parts s = iso_parts t" using same_parts padded_inj [of 3 ms1 ms2] by (simp add: p1 p2)
  then show ?thesis using iso_parts_inj y by blast
qed

section \<open>Which slots are offered\<close>









section \<open>Properties\<close>






text \<open>The cursor of a cron trigger never moves back, whatever timers ring, triggers are armed and zones or clocks jump, so
  no slot it covers is offered again.\<close>

theorem cron_cursor_never_moves_back:
  assumes "cursorOf i s = Some t" "0 < t"
  shows "\<exists>t'. cursorOf i (fold cron_step calls s) = Some t' \<and> t \<le> t'"
  using cron_cursors.run_never_back [where t = s and k = i and e = t and ops = calls] assms by (auto simp: nat_le_eq_zle)

text \<open>Two slots, of the years 0 to 9999, have the same key only when they are the same instant, so the ledger that admits
  a key once admits each slot once and none for another.\<close>

theorem one_key_per_slot:
  assumes "0 \<le> YearFromDay (s div DAY_MS)" "YearFromDay (s div DAY_MS) \<le> 9999" "0 \<le> YearFromDay (t div DAY_MS)" "YearFromDay (t div DAY_MS) \<le> 9999"
  shows "dedupKeyOf s = dedupKeyOf t \<longleftrightarrow> s = t"
  using toISOString_inj [OF assms] by (auto simp: dedupKeyOf_def)

end
