(* ===== verification/Human_Text.thy ===== *)
theory Human_Text
  imports Fleet_Prelude
begin

text \<open>
  The texts a human reads: what is visible of a text (\<^verbatim>\<open>governance/visibleText.ts\<close>), the claims agents back with a run
  (\<^verbatim>\<open>review/sanitizedReproClaim.ts\<close>, \<^verbatim>\<open>shared/reproClaim.ts\<close>), blank texts (\<^verbatim>\<open>shared/isBlankText.ts\<close>) and the text two
  spellings are compared by (\<open>comparable\<close> of \<^verbatim>\<open>escalation/floorClasses.ts\<close>). The tables of Unicode (its classes, the
  composed form, the lower case) and the masking of secrets are arguments, gathered in \<open>text_env\<close>; a predicate on a
  character takes its bytes.
\<close>

section \<open>Characters\<close>

record text_env =
  te_masked :: "string \<Rightarrow> string" \<comment> \<open>\<open>maskedSecrets\<close>\<close>
  te_format :: "string \<Rightarrow> bool" \<comment> \<open>\<open>\p{Cf}\<close>\<close>
  te_separator :: "string \<Rightarrow> bool" \<comment> \<open>\<open>\p{Z}\<close>\<close>
  te_ignorable :: "string \<Rightarrow> bool" \<comment> \<open>\<open>\p{Default_Ignorable_Code_Point}\<close>\<close>
  te_nfc :: "string \<Rightarrow> string" \<comment> \<open>\<open>normalize('NFC')\<close>\<close>
  te_lower :: "string \<Rightarrow> string" \<comment> \<open>\<open>toLowerCase\<close>\<close>

definition is_continuation :: "char \<Rightarrow> bool" where
  "is_continuation c \<longleftrightarrow> 128 \<le> (of_char c :: int) \<and> (of_char c :: int) < 192"

text \<open>The characters of a text, each as its bytes.\<close>

function utf8_chars :: "string \<Rightarrow> string list" where
  "utf8_chars [] = []"
| "utf8_chars (c # s) =
     (if (of_char c :: int) < 128 then [c] # utf8_chars s
      else (c # takeWhile is_continuation s) # utf8_chars (dropWhile is_continuation s))"
  by pat_completeness auto
termination
  by (relation "measure length") (simp_all add: length_dropWhile_le le_imp_less_Suc)

lemma concat_utf8_chars [simp]: "concat (utf8_chars s) = s"
  by (induction s rule: utf8_chars.induct) simp_all

lemma utf8_chars_ascii:
  assumes "c \<in> set s" "(of_char c :: int) < 128"
  shows "[c] \<in> set (utf8_chars s)"
  using assms
proof (induction s rule: utf8_chars.induct)
  case (2 d s)
  have "c \<in> set (dropWhile is_continuation s)" if "c \<in> set s"
    using that 2(4) by (induction s) (auto simp: is_continuation_def)
  then show ?case using 2 by (cases "c = d") auto
qed simp

text \<open>The code point: the bits of the first byte that are not its mark, then six bits of each other byte.\<close>

definition code_point :: "string \<Rightarrow> int" where
  "code_point ch =
     (let lead = of_char (hd ch) :: int
      in foldl (\<lambda>n c. n * 64 + of_char c mod 64)
           (if lead < 128 then lead else if lead < 224 then lead mod 32 else if lead < 240 then lead mod 16 else lead mod 8) (tl ch))"

definition is_control :: "string \<Rightarrow> bool" where
  "is_control ch \<longleftrightarrow> (let n = code_point ch in n < 32 \<or> 127 \<le> n \<and> n \<le> 159)"

definition is_space :: "string \<Rightarrow> bool" where
  "is_space ch \<longleftrightarrow> ch \<in> set WHITE_SPACE"

lemma is_space_code [code]:
  "is_space ch \<longleftrightarrow> (case ch of [c] \<Rightarrow> c \<in> {CHR '' '', CHR 0x09, CHR 0x0A, CHR 0x0B, CHR 0x0C, CHR 0x0D} | _ \<Rightarrow> ch \<in> set WHITE_SPACE)"
  by (auto simp: is_space_def WHITE_SPACE_def split: list.splits)

text \<open>\<open>text.replace(/\s+/g, ' ')\<close>.\<close>

function collapse_chars :: "string list \<Rightarrow> string list" where
  "collapse_chars [] = []"
| "collapse_chars (ch # cs) =
     (if is_space ch then '' '' # collapse_chars (dropWhile is_space cs) else ch # collapse_chars cs)"
  by pat_completeness auto
termination
  by (relation "measure length") (simp_all add: length_dropWhile_le le_imp_less_Suc)

definition collapse_spaces :: "string \<Rightarrow> string" where
  "collapse_spaces s = concat (collapse_chars (utf8_chars s))"

definition oneLine :: "string \<Rightarrow> string" where
  "oneLine s = js_trim (collapse_spaces s)"

definition ESC :: char where "ESC = CHR 0x1B"

text \<open>The sequences \<open>ESC [ parameters intermediates final\<close> taken out; the three classes are disjoint, so taking as many
  parameters and intermediates as there are is the only way to read one.\<close>

function without_sequences :: "(char \<Rightarrow> bool) \<Rightarrow> string \<Rightarrow> string" where
  "without_sequences parameter [] = []"
| "without_sequences parameter (c # s) =
     (if c = ESC \<and> starts_with s ''['' then
        (let rest = dropWhile (\<lambda>c. 32 \<le> (of_char c :: int) \<and> (of_char c :: int) \<le> 47) (dropWhile parameter (tl s))
         in if rest \<noteq> [] \<and> 64 \<le> (of_char (hd rest) :: int) \<and> (of_char (hd rest) :: int) \<le> 126
            then without_sequences parameter (tl rest) else c # without_sequences parameter s)
      else c # without_sequences parameter s)"
  by pat_completeness auto
termination
proof (relation "measure (length \<circ> snd)"; (simp; fail)?)
  fix parameter :: "char \<Rightarrow> bool" and s and rest :: string
  assume rest: "rest = dropWhile (\<lambda>c. 32 \<le> (of_char c :: int) \<and> (of_char c :: int) \<le> 47) (dropWhile parameter (tl s))"
  have "length rest \<le> length (tl s)" unfolding rest by (rule order.trans [OF length_dropWhile_le length_dropWhile_le])
  then show "((parameter, tl rest), parameter, c # s) \<in> measure (length \<circ> snd)" for c by simp
qed

section \<open>What a human sees\<close>

definition is_parameter :: "char \<Rightarrow> bool" where
  "is_parameter c \<longleftrightarrow> 48 \<le> (of_char c :: int) \<and> (of_char c :: int) \<le> 63"

definition BLANK_LOOKING_LETTERS :: "int list" where
  "BLANK_LOOKING_LETTERS = [0x2800, 0x3164, 0x115F, 0x1160, 0xFFA0]"

definition is_visible :: "text_env \<Rightarrow> string \<Rightarrow> bool" where
  "is_visible te ch \<longleftrightarrow>
     (is_control ch \<longrightarrow> ch = [NL] \<or> ch = [CHR 0x09]) \<and> \<not> te_format te ch \<and> code_point ch \<notin> {0x2028, 0x2029}
     \<and> code_point ch \<notin> set BLANK_LOOKING_LETTERS"

definition visibleTextOf :: "text_env \<Rightarrow> string \<Rightarrow> string" where
  "visibleTextOf te s =
     js_trim (concat (filter (is_visible te) (utf8_chars (normalizeLineEndings (without_sequences is_parameter s)))))"

definition humanReadableText :: "text_env \<Rightarrow> string \<Rightarrow> string" where
  "humanReadableText te s = te_masked te (visibleTextOf te s)"

definition isBlankText :: "text_env \<Rightarrow> string \<Rightarrow> bool" where
  "isBlankText te s \<longleftrightarrow>
     list_all (\<lambda>ch. te_separator te ch \<or> te_format te ch \<or> is_control ch \<or> te_ignorable te ch \<or> is_space ch
                    \<or> code_point ch = 0x2800 \<or> code_point ch = 0xFFFC) (utf8_chars s)"

definition comparable :: "text_env \<Rightarrow> string \<Rightarrow> string" where
  "comparable te s =
     js_trim (te_lower te (te_nfc te (concat (filter (\<lambda>ch. \<not> is_control ch \<and> \<not> te_format te ch) (utf8_chars (collapse_spaces s))))))"

section \<open>Claims backed by a run\<close>

datatype repro_status = Proven | Plausible | NotReproduced

record repro_claim =
  rc_claim :: string
  rc_status :: repro_status
  rc_command :: "string option"
  rc_output :: "string option"

definition isExecutedClaim :: "repro_claim \<Rightarrow> bool" where
  "isExecutedClaim c \<longleftrightarrow> rc_status c \<noteq> NotReproduced"

definition is_colour_parameter :: "char \<Rightarrow> bool" where
  "is_colour_parameter c \<longleftrightarrow> is_digit c \<or> c = CHR '';'' \<or> c = CHR ''?''"

definition withoutControlCharacters :: "text_env \<Rightarrow> string \<Rightarrow> string" where
  "withoutControlCharacters te s =
     concat (filter
       (\<lambda>ch. (let n = code_point ch in \<not> (n \<le> 8 \<or> 11 \<le> n \<and> n \<le> 31 \<or> n = 127) \<and> \<not> (128 \<le> n \<and> n \<le> 159) \<and> \<not> (0xE0000 \<le> n \<and> n \<le> 0xE007F))
             \<and> \<not> te_format te ch)
       (utf8_chars (without_sequences is_colour_parameter s)))"

definition withLfLineBreaks :: "string \<Rightarrow> string" where
  "withLfLineBreaks s =
     concat (map (\<lambda>ch. if code_point ch = 0x2028 \<or> code_point ch = 0x2029 then [NL] else ch) (utf8_chars (normalizeLineEndings s)))"

definition claimOf :: "text_env \<Rightarrow> string \<Rightarrow> string" where
  "claimOf te s = te_masked te (oneLine (withoutControlCharacters te s))"

definition commandOf :: "text_env \<Rightarrow> string \<Rightarrow> string" where
  "commandOf te s = te_masked te (oneLine (withoutControlCharacters te s))"

definition outputOf :: "text_env \<Rightarrow> string \<Rightarrow> string" where
  "outputOf te s = te_masked te (js_trim (withoutControlCharacters te (withLfLineBreaks s)))"

definition sanitizedReproClaim :: "text_env \<Rightarrow> repro_claim \<Rightarrow> repro_claim" where
  "sanitizedReproClaim te c =
     (let cleanCommand = (case rc_command c of None \<Rightarrow> '''' | Some s \<Rightarrow> commandOf te s);
          cleanOutput = (case rc_output c of None \<Rightarrow> '''' | Some s \<Rightarrow> outputOf te s)
      in \<lparr>rc_claim = claimOf te (rc_claim c), rc_status = rc_status c,
          rc_command = (if cleanCommand = '''' then None else Some cleanCommand),
          rc_output = (if cleanOutput = '''' then None else Some cleanOutput)\<rparr>)"

definition hasBlankClaim :: "text_env \<Rightarrow> repro_claim \<Rightarrow> bool" where
  "hasBlankClaim te c \<longleftrightarrow> isBlankText te (rc_claim c)"

definition lacksExecutedEvidence :: "text_env \<Rightarrow> repro_claim \<Rightarrow> bool" where
  "lacksExecutedEvidence te c \<longleftrightarrow>
     (let isExecuted = rc_status c \<noteq> NotReproduced;
          showsTheRun = (case (rc_command c, rc_output c) of (Some cmd, Some out) \<Rightarrow> \<not> isBlankText te cmd \<and> \<not> isBlankText te out | _ \<Rightarrow> False)
      in isExecuted \<and> \<not> showsTheRun)"

lemma sanitized_status [simp]: "rc_status (sanitizedReproClaim te c) = rc_status c"
  by (simp add: sanitizedReproClaim_def Let_def)

section \<open>Trimming\<close>

lemma trim_start_suffix: "\<exists>w. s = w @ trim_start n spaces s"
proof (induction n arbitrary: s)
  case (Suc n)
  show ?case
  proof (cases "find (\<lambda>w. starts_with s w) spaces")
    case (Some w)
    then obtain r where s: "s = w @ r" using find_SomeD [OF Some] by (auto simp: starts_with_prefix prefix_def)
    obtain v where "r = v @ trim_start n spaces r" using Suc.IH by blast
    then show ?thesis using Some s by (auto intro: exI [of _ "w @ v"])
  qed simp
qed simp

text \<open>With rounds enough, nothing of the list is left at the front.\<close>

lemma trim_start_done:
  assumes "[] \<notin> set spaces" "length s \<le> n" "w \<in> set spaces"
  shows "\<not> starts_with (trim_start n spaces s) w"
  using assms
proof (induction n arbitrary: s)
  case 0
  then show ?case by (cases w) auto
next
  case (Suc n)
  show ?case
  proof (cases "find (\<lambda>w. starts_with s w) spaces")
    case None
    moreover have "\<forall>v \<in> set spaces. \<not> starts_with s v" using None by (simp add: find_None_iff)
    ultimately show ?thesis using Suc.prems by simp
  next
    case (Some v)
    then have "v \<noteq> []" using find_SomeD [OF Some] Suc.prems by auto
    then have "0 < length v" by simp
    then have "length (drop (length v) s) \<le> n" using Suc.prems(2) by (simp only: length_drop)
    then show ?thesis using Suc Some by simp
  qed
qed

lemma trim_start_id: "\<forall>w \<in> set spaces. \<not> starts_with s w \<Longrightarrow> trim_start n spaces s = s"
  by (cases n) (auto split: option.splits dest: find_SomeD)

lemma js_trim_idem [simp]: "js_trim (js_trim s) = js_trim s"
proof -
  have no_empty: "[] \<notin> set WHITE_SPACE" "[] \<notin> set (map rev WHITE_SPACE)" by (simp_all add: WHITE_SPACE_def)
  let ?front = "trim_start (length s) WHITE_SPACE s"
  have front: "\<not> starts_with ?front w" if "w \<in> set WHITE_SPACE" for w
    using trim_start_done [OF no_empty(1) order.refl that] .
  obtain v where v: "rev ?front = v @ rev (js_trim s)"
    using trim_start_suffix [of "rev ?front" "length ?front" "map rev WHITE_SPACE"] by (auto simp: js_trim_def Let_def)
  then have "?front = js_trim s @ rev v" by (metis rev_append rev_rev_ident)
  then have "\<not> starts_with (js_trim s) w" if "w \<in> set WHITE_SPACE" for w
    using front [OF that] by (auto simp: starts_with_prefix prefix_def)
  then have one: "trim_start n WHITE_SPACE (js_trim s) = js_trim s" for n by (simp add: trim_start_id)
  have "\<not> starts_with (rev (js_trim s)) w" if "w \<in> set (map rev WHITE_SPACE)" for w
    using trim_start_done [OF no_empty(2) _ that, of "rev ?front" "length ?front"] by (simp add: js_trim_def Let_def)
  then have two: "trim_start n (map rev WHITE_SPACE) (rev (js_trim s)) = rev (js_trim s)" for n by (simp add: trim_start_id)
  show ?thesis by (subst js_trim_def) (simp only: Let_def one two rev_rev_ident)
qed

section \<open>An instance\<close>

text \<open>An environment in which no secret is masked and every character is one of the ASCII classes.\<close>

definition plain_texts :: text_env where
  "plain_texts = \<lparr>te_masked = id, te_format = (\<lambda>_. False), te_separator = (\<lambda>ch. ch = '' ''), te_ignorable = (\<lambda>_. False), te_nfc = id, te_lower = toLowerCase\<rparr>"

end
