(* ===== verification/Governance.thy ===== *)
theory Governance
  imports Fleet_Interfaces Human_Text "HOL-Library.Multiset"
begin

text \<open>
  The governance of a manager: the proposals it files and a human answers (\<^verbatim>\<open>governance/governanceQueueService.ts\<close>,
  \<^verbatim>\<open>proposalRepository.ts\<close>, \<^verbatim>\<open>waitingProposalRepository.ts\<close>, \<^verbatim>\<open>proposalInput.ts\<close>) and the laws an approval enacts
  (\<^verbatim>\<open>lawRepository.ts\<close>).

  Each table is the list of its rows in rowid order. A payload is stored as the JSON of a record with fixed fields, so
  two payloads have the same text exactly when they are equal. Each operation of the service runs in a transaction:
  it answers with an error and changes nothing, or with its result and the new state. The clock and the new ids read a
  world of their own type; the tables of Unicode, the masking of secrets and the directory of
  managers and resources are arguments.
\<close>

section \<open>Proposals, grants and laws\<close>

definition MAX_PENDING_PROPOSALS_PER_MANAGER :: nat where "MAX_PENDING_PROPOSALS_PER_MANAGER = 10"
definition MAX_QUEUED_PROPOSALS_PER_MANAGER :: nat where "MAX_QUEUED_PROPOSALS_PER_MANAGER = 50"
definition MAX_DENIED_HISTORY_PER_MANAGER :: nat where "MAX_DENIED_HISTORY_PER_MANAGER = 20"
definition MAX_AUDIT_HISTORY_PER_MANAGER :: nat where "MAX_AUDIT_HISTORY_PER_MANAGER = 50"
definition MAX_LAW_TEXT_CHARS :: nat where "MAX_LAW_TEXT_CHARS = 2000"
definition MAX_PERMISSION_FIELD_CHARS :: nat where "MAX_PERMISSION_FIELD_CHARS = 500"
definition MAX_INCIDENT_CHARS :: nat where "MAX_INCIDENT_CHARS = 1000"
definition MAX_ROLE_CHARS :: nat where "MAX_ROLE_CHARS = 80"
definition MAX_DENIAL_REASON_CHARS :: nat where "MAX_DENIAL_REASON_CHARS = 500"
definition HUMAN_ACTOR :: string where "HUMAN_ACTOR = ''admin''"

datatype proposal_status = Pending | Approved | Denied | Withdrawn

datatype resource_type = DataStore | Note | Playbook | Integration
datatype resource_access = Read | ReadWrite | Append | Run | Use

definition ACCESSES_BY_RESOURCE_TYPE :: "resource_type \<Rightarrow> resource_access list" where
  "ACCESSES_BY_RESOURCE_TYPE ty = (case ty of DataStore \<Rightarrow> [Read, ReadWrite] | Note \<Rightarrow> [Read, ReadWrite, Append] | Playbook \<Rightarrow> [Run] | Integration \<Rightarrow> [Use])"

definition GRANTABLE_RESOURCE_TYPES :: "resource_type list" where "GRANTABLE_RESOURCE_TYPES = [DataStore, Note]"

text \<open>The kind of a proposal is the constructor of its payload.\<close>

datatype proposal_payload =
    LawPayload string
  | PermissionPayload string string string string \<comment> \<open>action, scope, condition, exclusions\<close>
  | ResourceAccessPayload resource_type string resource_access string \<comment> \<open>type, id, access, role\<close>

record proposal =
  pp_id :: string
  pp_managerId :: string
  pp_status :: proposal_status
  pp_incident :: string
  pp_payload :: proposal_payload
  pp_denialReason :: "string option"
  pp_createdAt :: instant
  pp_decidedAt :: "instant option"

record waiting_proposal =
  wp_id :: string
  wp_managerId :: string
  wp_incident :: string
  wp_payload :: proposal_payload
  wp_createdAt :: instant

record resource_grant =
  rg_id :: string
  rg_managerId :: string
  rg_resourceType :: resource_type
  rg_resourceId :: string
  rg_role :: string
  rg_access :: resource_access
  rg_proposalId :: "string option"
  rg_grantedAt :: instant

datatype law_status = Active | LawWithdrawn
datatype law_source = FromProposal | FromLegacy | FromImport

record law =
  lw_id :: string
  lw_managerId :: string
  lw_text :: string
  lw_status :: law_status
  lw_revision :: nat
  lw_createdAt :: instant
  lw_updatedAt :: instant
  lw_withdrawnAt :: "instant option"
  lw_approvedBy :: "string option"
  lw_updatedBy :: "string option"
  lw_withdrawnBy :: "string option"
  lw_source :: law_source
  lw_sourceKey :: "string option"
  lw_sourceCreatedAt :: "instant option"
  lw_proposalId :: "string option"

datatype governance_error =
    NotAManager | InvalidBody | QueueFull | ProposalNotFound | AlreadyResolved | LawNotFound | LawRevisionConflict nat | LawIsWithdrawn
  | StoreNotFound string | NoteNotFound string | UniqueViolation

section \<open>What is filed\<close>

definition requiredText :: "text_env \<Rightarrow> nat \<Rightarrow> string \<Rightarrow> governance_error + string" where
  "requiredText te maxChars s =
     (let visible = visibleTextOf te s
      in if visible = [] then Inl InvalidBody else if maxChars < utf16_length visible then Inl InvalidBody else Inr visible)"

definition storedText :: "text_env \<Rightarrow> nat \<Rightarrow> string \<Rightarrow> governance_error + string" where
  "storedText te maxChars s =
     (case requiredText te maxChars s of
        Inl e \<Rightarrow> Inl e
      | Inr visible \<Rightarrow> (let masked = te_masked te visible in if maxChars < utf16_length masked then Inl InvalidBody else Inr masked))"

definition storedIncident :: "text_env \<Rightarrow> string \<Rightarrow> governance_error + string" where
  "storedIncident te s = storedText te MAX_INCIDENT_CHARS s"

definition storedDenialReason :: "text_env \<Rightarrow> string option \<Rightarrow> governance_error + string" where
  "storedDenialReason te reason = (case reason of None \<Rightarrow> Inl InvalidBody | Some s \<Rightarrow> requiredText te MAX_DENIAL_REASON_CHARS s)"

definition storedLawText :: "text_env \<Rightarrow> string \<Rightarrow> governance_error + string" where
  "storedLawText te s = storedText te MAX_LAW_TEXT_CHARS s"

definition lawPayloadOf :: "text_env \<Rightarrow> string \<Rightarrow> governance_error + proposal_payload" where
  "lawPayloadOf te s = map_sum id LawPayload (storedText te MAX_LAW_TEXT_CHARS s)"

definition permissionPayloadOf :: "text_env \<Rightarrow> string \<Rightarrow> string \<Rightarrow> string \<Rightarrow> string \<Rightarrow> governance_error + proposal_payload" where
  "permissionPayloadOf te action scope condition exclusions =
     (case storedText te MAX_PERMISSION_FIELD_CHARS action of Inl e \<Rightarrow> Inl e | Inr a \<Rightarrow>
      (case storedText te MAX_PERMISSION_FIELD_CHARS scope of Inl e \<Rightarrow> Inl e | Inr s \<Rightarrow>
       (case storedText te MAX_PERMISSION_FIELD_CHARS condition of Inl e \<Rightarrow> Inl e | Inr c \<Rightarrow>
        (case storedText te MAX_PERMISSION_FIELD_CHARS exclusions of Inl e \<Rightarrow> Inl e | Inr x \<Rightarrow> Inr (PermissionPayload a s c x)))))"

definition resource_type_of :: "string \<Rightarrow> resource_type option" where
  "resource_type_of = map_of [(''dataStore'', DataStore), (''note'', Note), (''playbook'', Playbook), (''integration'', Integration)]"

definition resource_access_of :: "string \<Rightarrow> resource_access option" where
  "resource_access_of = map_of [(''read'', Read), (''readWrite'', ReadWrite), (''append'', Append), (''run'', Run), (''use'', Use)]"

definition resourceAccessPayloadOf :: "text_env \<Rightarrow> string \<Rightarrow> string \<Rightarrow> string \<Rightarrow> string \<Rightarrow> governance_error + proposal_payload" where
  "resourceAccessPayloadOf te resourceType resourceId access role =
     (case resource_type_of resourceType of None \<Rightarrow> Inl InvalidBody | Some ty \<Rightarrow>
      (case resource_access_of access of None \<Rightarrow> Inl InvalidBody | Some ac \<Rightarrow>
        if ty \<notin> set GRANTABLE_RESOURCE_TYPES then Inl InvalidBody
        else if ac \<notin> set (ACCESSES_BY_RESOURCE_TYPE ty) then Inl InvalidBody
        else (case requiredText te MAX_PERMISSION_FIELD_CHARS resourceId of Inl e \<Rightarrow> Inl e | Inr i \<Rightarrow>
              (case storedText te MAX_ROLE_CHARS role of Inl e \<Rightarrow> Inl e | Inr r \<Rightarrow> Inr (ResourceAccessPayload ty i ac r)))))"

section \<open>The tables\<close>

definition insert_proposal :: "proposal \<Rightarrow> proposal list \<Rightarrow> proposal list option" where
  "insert_proposal p ps = (if pp_id p \<in> set (map pp_id ps) then None else Some (ps @ [p]))"

definition find_proposal :: "string \<Rightarrow> proposal list \<Rightarrow> proposal option" where
  "find_proposal i ps = find (\<lambda>p. pp_id p = i) ps"

definition findPendingTwin :: "string \<Rightarrow> proposal_payload \<Rightarrow> proposal list \<Rightarrow> proposal option" where
  "findPendingTwin m payload ps = find (\<lambda>p. pp_managerId p = m \<and> pp_payload p = payload \<and> pp_status p = Pending) ps"

definition with_status :: "string \<Rightarrow> proposal_status set \<Rightarrow> proposal list \<Rightarrow> proposal list" where
  "with_status m statuses ps = filter (\<lambda>p. pp_managerId p = m \<and> pp_status p \<in> statuses) ps"

definition countPendingOf :: "string \<Rightarrow> proposal list \<Rightarrow> nat" where
  "countPendingOf m ps = length (with_status m {Pending} ps)"

definition answerIfPending :: "string \<Rightarrow> proposal_status \<Rightarrow> string option \<Rightarrow> instant \<Rightarrow> proposal list \<Rightarrow> bool \<times> proposal list" where
  "answerIfPending i status denialReason decidedAt ps =
     (let P = (\<lambda>p. pp_id p = i \<and> pp_status p = Pending)
      in (length (filter P ps) = 1,
          map (\<lambda>p. if P p then p\<lparr>pp_status := status, pp_denialReason := denialReason, pp_decidedAt := Some decidedAt\<rparr> else p) ps))"

definition newest_answer_first :: "proposal list \<Rightarrow> proposal list" where
  "newest_answer_first ps = rev (sort_key (\<lambda>p. opt_default 0 (pp_decidedAt p)) ps)"

definition allWithStatus :: "proposal_status \<Rightarrow> proposal list \<Rightarrow> proposal list" where
  "allWithStatus status ps =
     (let found = filter (\<lambda>p. pp_status p = status) ps
      in if status = Pending then sort_key pp_createdAt found else newest_answer_first found)"

definition pendingOf :: "string \<Rightarrow> proposal list \<Rightarrow> proposal list" where
  "pendingOf m ps = sort_key pp_createdAt (with_status m {Pending} ps)"

definition deniedOf :: "string \<Rightarrow> proposal list \<Rightarrow> proposal list" where
  "deniedOf m ps = newest_answer_first (with_status m {Denied} ps)"

definition auditHistoryOf :: "string \<Rightarrow> proposal list \<Rightarrow> proposal list" where
  "auditHistoryOf m ps = newest_answer_first (with_status m {Approved, Withdrawn} ps)"

text \<open>The ids that go, and the table without them.\<close>

definition evictOldestBeyond :: "string \<Rightarrow> proposal_status set \<Rightarrow> nat \<Rightarrow> proposal list \<Rightarrow> string list \<times> proposal list" where
  "evictOldestBeyond m statuses keep ps =
     (let gone = map pp_id (drop keep (newest_answer_first (with_status m statuses ps)))
      in (gone, filter (\<lambda>p. pp_id p \<notin> set gone) ps))"

definition upsertGrant :: "resource_grant \<Rightarrow> resource_grant list \<Rightarrow> resource_grant list" where
  "upsertGrant g gs =
     (let same = (\<lambda>h. rg_managerId h = rg_managerId g \<and> rg_resourceType h = rg_resourceType g \<and> rg_resourceId h = rg_resourceId g)
      in if list_ex same gs
         then map (\<lambda>h. if same h then h\<lparr>rg_role := rg_role g, rg_access := rg_access g, rg_proposalId := rg_proposalId g, rg_grantedAt := rg_grantedAt g\<rparr> else h) gs
         else gs @ [g])"

definition grantsOf :: "string \<Rightarrow> resource_grant list \<Rightarrow> resource_grant list" where
  "grantsOf m gs = sort_key rg_grantedAt (filter (\<lambda>g. rg_managerId g = m) gs)"

definition waiting_of :: "string \<Rightarrow> waiting_proposal list \<Rightarrow> waiting_proposal list" where
  "waiting_of m ws = sort_key wp_createdAt (filter (\<lambda>w. wp_managerId w = m) ws)"

definition insert_waiting :: "waiting_proposal \<Rightarrow> waiting_proposal list \<Rightarrow> waiting_proposal list option" where
  "insert_waiting w ws = (if wp_id w \<in> set (map wp_id ws) then None else Some (ws @ [w]))"

text \<open>A twin with its rank in the waiting list, from 1.\<close>

definition findTwin :: "string \<Rightarrow> proposal_payload \<Rightarrow> waiting_proposal list \<Rightarrow> (waiting_proposal \<times> nat) option" where
  "findTwin m payload ws =
     (case find (\<lambda>w. wp_managerId w = m \<and> wp_payload w = payload) ws of
        None \<Rightarrow> None
      | Some twin \<Rightarrow> find (\<lambda>(w, position). wp_id w = wp_id twin) (zip (waiting_of m ws) [1..<Suc (length (waiting_of m ws))]))"

definition countWaiting :: "string \<Rightarrow> waiting_proposal list \<Rightarrow> nat" where
  "countWaiting m ws = length (filter (\<lambda>w. wp_managerId w = m) ws)"

definition oldest_waiting :: "string \<Rightarrow> waiting_proposal list \<Rightarrow> waiting_proposal option" where
  "oldest_waiting m ws = (case waiting_of m ws of [] \<Rightarrow> None | w # _ \<Rightarrow> Some w)"

definition without_waiting :: "string \<Rightarrow> waiting_proposal list \<Rightarrow> waiting_proposal list" where
  "without_waiting i ws = filter (\<lambda>w. wp_id w \<noteq> i) ws"

definition released_proposal :: "waiting_proposal \<Rightarrow> proposal" where
  "released_proposal w =
     \<lparr>pp_id = wp_id w, pp_managerId = wp_managerId w, pp_status = Pending, pp_incident = wp_incident w, pp_payload = wp_payload w,
      pp_denialReason = None, pp_createdAt = wp_createdAt w, pp_decidedAt = None\<rparr>"

definition deleteOf :: "string \<Rightarrow> string \<Rightarrow> waiting_proposal list \<Rightarrow> bool \<times> waiting_proposal list" where
  "deleteOf m i ws =
     (let P = (\<lambda>w. wp_id w = i \<and> wp_managerId w = m) in (length (filter P ws) = 1, filter (\<lambda>w. \<not> P w) ws))"

section \<open>Laws\<close>

definition find_law :: "string \<Rightarrow> law list \<Rightarrow> law option" where
  "find_law i ls = find (\<lambda>l. lw_id l = i) ls"

text \<open>The id and the proposal of a law are unique, and so is the key of an imported one.\<close>

definition insert_law :: "law \<Rightarrow> law list \<Rightarrow> law list option" where
  "insert_law l ls =
     (if list_ex (\<lambda>k. lw_id k = lw_id l \<or> lw_proposalId k \<noteq> None \<and> lw_proposalId k = lw_proposalId l
                     \<or> lw_sourceKey k \<noteq> None \<and> lw_sourceKey k = lw_sourceKey l) ls then None else Some (ls @ [l]))"

definition law_of_approved :: "string \<Rightarrow> string \<Rightarrow> string \<Rightarrow> string \<Rightarrow> string \<Rightarrow> instant \<Rightarrow> law" where
  "law_of_approved i m body approvedBy proposalId approvedAt =
     \<lparr>lw_id = i, lw_managerId = m, lw_text = body, lw_status = Active, lw_revision = 1, lw_createdAt = approvedAt, lw_updatedAt = approvedAt,
      lw_withdrawnAt = None, lw_approvedBy = Some approvedBy, lw_updatedBy = Some approvedBy, lw_withdrawnBy = None, lw_source = FromProposal,
      lw_sourceKey = None, lw_sourceCreatedAt = None, lw_proposalId = Some proposalId\<rparr>"

definition law_from_import :: "string \<Rightarrow> string \<Rightarrow> string \<Rightarrow> string \<Rightarrow> string \<Rightarrow> instant \<Rightarrow> instant \<Rightarrow> law" where
  "law_from_import i m body sourceKey importedBy createdAt sourceCreatedAt =
     \<lparr>lw_id = i, lw_managerId = m, lw_text = body, lw_status = Active, lw_revision = 1, lw_createdAt = createdAt, lw_updatedAt = createdAt,
      lw_withdrawnAt = None, lw_approvedBy = Some importedBy, lw_updatedBy = Some importedBy, lw_withdrawnBy = None, lw_source = FromImport,
      lw_sourceKey = Some sourceKey, lw_sourceCreatedAt = Some sourceCreatedAt, lw_proposalId = None\<rparr>"

definition findBySourceKey :: "string \<Rightarrow> law list \<Rightarrow> law option" where
  "findBySourceKey key ls = find (\<lambda>l. lw_sourceKey l = Some key) ls"

definition update_laws :: "(law \<Rightarrow> bool) \<Rightarrow> (law \<Rightarrow> law) \<Rightarrow> law list \<Rightarrow> bool \<times> law list" where
  "update_laws P f ls = (list_ex P ls, map (\<lambda>l. if P l then f l else l) ls)"

definition replaceTextFromImport :: "string \<Rightarrow> string \<Rightarrow> string \<Rightarrow> instant \<Rightarrow> law list \<Rightarrow> bool \<times> law list" where
  "replaceTextFromImport i body importedBy updatedAt ls =
     update_laws (\<lambda>l. lw_id l = i \<and> lw_status l = Active \<and> lw_updatedBy l = Some importedBy)
       (\<lambda>l. l\<lparr>lw_text := body, lw_revision := lw_revision l + 1, lw_updatedAt := updatedAt, lw_updatedBy := Some importedBy\<rparr>) ls"

definition replaceTextIfRevision :: "string \<Rightarrow> nat \<Rightarrow> string \<Rightarrow> string \<Rightarrow> instant \<Rightarrow> law list \<Rightarrow> bool \<times> law list" where
  "replaceTextIfRevision i expectedRevision body updatedBy updatedAt ls =
     update_laws (\<lambda>l. lw_id l = i \<and> lw_revision l = expectedRevision \<and> lw_status l = Active)
       (\<lambda>l. l\<lparr>lw_text := body, lw_revision := lw_revision l + 1, lw_updatedAt := updatedAt, lw_updatedBy := Some updatedBy\<rparr>) ls"

definition withdrawIfRevision :: "string \<Rightarrow> nat \<Rightarrow> string \<Rightarrow> instant \<Rightarrow> law list \<Rightarrow> bool \<times> law list" where
  "withdrawIfRevision i expectedRevision withdrawnBy withdrawnAt ls =
     update_laws (\<lambda>l. lw_id l = i \<and> lw_revision l = expectedRevision \<and> lw_status l = Active)
       (\<lambda>l. l\<lparr>lw_status := LawWithdrawn, lw_revision := lw_revision l + 1, lw_updatedAt := withdrawnAt, lw_updatedBy := Some withdrawnBy,
              lw_withdrawnAt := Some withdrawnAt, lw_withdrawnBy := Some withdrawnBy\<rparr>) ls"

definition lawsOf :: "string \<Rightarrow> law list \<Rightarrow> law list" where
  "lawsOf m ls = sort_key lw_createdAt (filter (\<lambda>l. lw_managerId l = m) ls)"

section \<open>The service\<close>

datatype governance_event =
    Proposed proposal
  | QueueChanged string nat
  | Resolved proposal
  | LawCreated law
  | LawUpdated law
  | LawGone law
  | DecisionNotified proposal "string option" "string list"

record 'w governance =
  gv_proposals :: "proposal list"
  gv_waiting :: "waiting_proposal list"
  gv_grants :: "resource_grant list"
  gv_laws :: "law list"
  gv_evicted :: "string \<Rightarrow> nat"
  gv_events :: "governance_event list"
  gv_world :: 'w

record 'w governance_env =
  gn_text :: text_env
  gn_clock :: "'w \<Rightarrow> instant"
  gn_newId :: "'w \<Rightarrow> string \<times> 'w"
  gn_isManager :: "string \<Rightarrow> bool"
  gn_projectIdOf :: "string \<Rightarrow> string option"
  gn_storeProjectId :: "string \<Rightarrow> string option"
  gn_noteProjectId :: "string \<Rightarrow> string option"

definition gv_now :: "'w governance_env \<Rightarrow> 'w governance \<Rightarrow> instant" where
  "gv_now env st = gn_clock env (gv_world st)"

definition emit :: "governance_event list \<Rightarrow> 'w governance \<Rightarrow> 'w governance" where
  "emit es st = st\<lparr>gv_events := gv_events st @ es\<rparr>"

definition requireResourceOfManagerProject :: "'w governance_env \<Rightarrow> string \<Rightarrow> proposal_payload \<Rightarrow> governance_error + unit" where
  "requireResourceOfManagerProject env m payload =
     (case payload of
        ResourceAccessPayload ty i _ _ \<Rightarrow>
          (let owner = (if ty = DataStore then gn_storeProjectId env i else gn_noteProjectId env i)
           in if owner \<noteq> None \<and> owner = gn_projectIdOf env m then Inr () else Inl (if ty = DataStore then StoreNotFound i else NoteNotFound i))
      | _ \<Rightarrow> Inr ())"

datatype filed_status = FiledPending | FiledQueued

record proposal_filed =
  pf_id :: string
  pf_deduplicated :: bool
  pf_status :: filed_status
  pf_position :: "nat option"
  pf_queuedCount :: nat

definition enqueueUnlessDuplicate :: "'w governance_env \<Rightarrow> string \<Rightarrow> string \<Rightarrow> proposal_payload \<Rightarrow> 'w governance \<Rightarrow> governance_error + proposal_filed \<times> 'w governance" where
  "enqueueUnlessDuplicate env m incident payload st =
     (let queuedCountBefore = countWaiting m (gv_waiting st)
      in case findPendingTwin m payload (gv_proposals st) of
           Some p \<Rightarrow> Inr (\<lparr>pf_id = pp_id p, pf_deduplicated = True, pf_status = FiledPending, pf_position = None, pf_queuedCount = queuedCountBefore\<rparr>, st)
         | None \<Rightarrow> (case findTwin m payload (gv_waiting st) of
             Some (w, position) \<Rightarrow>
               Inr (\<lparr>pf_id = wp_id w, pf_deduplicated = True, pf_status = FiledQueued, pf_position = Some position, pf_queuedCount = queuedCountBefore\<rparr>, st)
           | None \<Rightarrow>
               (let (i, w) = gn_newId env (gv_world st); createdAt = gn_clock env w; named = st\<lparr>gv_world := w\<rparr>
                in if countPendingOf m (gv_proposals st) < MAX_PENDING_PROPOSALS_PER_MANAGER \<and> queuedCountBefore = 0
                   then (let p = \<lparr>pp_id = i, pp_managerId = m, pp_status = Pending, pp_incident = incident, pp_payload = payload, pp_denialReason = None,
                                  pp_createdAt = createdAt, pp_decidedAt = None\<rparr>
                         in case insert_proposal p (gv_proposals st) of
                              None \<Rightarrow> Inl UniqueViolation
                            | Some ps \<Rightarrow> Inr (\<lparr>pf_id = i, pf_deduplicated = False, pf_status = FiledPending, pf_position = None, pf_queuedCount = 0\<rparr>,
                                              emit [Proposed p] (named\<lparr>gv_proposals := ps\<rparr>)))
                   else if MAX_QUEUED_PROPOSALS_PER_MANAGER \<le> queuedCountBefore then Inl QueueFull
                   else (case insert_waiting \<lparr>wp_id = i, wp_managerId = m, wp_incident = incident, wp_payload = payload, wp_createdAt = createdAt\<rparr> (gv_waiting st) of
                           None \<Rightarrow> Inl UniqueViolation
                         | Some ws \<Rightarrow>
                             (let position = length (waiting_of m ws)
                              in Inr (\<lparr>pf_id = wp_id (last (waiting_of m ws)), pf_deduplicated = False, pf_status = FiledQueued, pf_position = Some position, pf_queuedCount = position\<rparr>,
                                      emit [QueueChanged m position] (named\<lparr>gv_waiting := ws\<rparr>)))))))"

definition proposeLaw :: "'w governance_env \<Rightarrow> string \<Rightarrow> string \<Rightarrow> string \<Rightarrow> 'w governance \<Rightarrow> governance_error + proposal_filed \<times> 'w governance" where
  "proposeLaw env m body incident st =
     (if \<not> gn_isManager env m then Inl NotAManager
      else (case storedIncident (gn_text env) incident of Inl e \<Rightarrow> Inl e | Inr inc \<Rightarrow>
            (case lawPayloadOf (gn_text env) body of Inl e \<Rightarrow> Inl e | Inr payload \<Rightarrow> enqueueUnlessDuplicate env m inc payload st)))"

definition proposePermission :: "'w governance_env \<Rightarrow> string \<Rightarrow> string \<Rightarrow> string \<Rightarrow> string \<Rightarrow> string \<Rightarrow> string \<Rightarrow> 'w governance \<Rightarrow> governance_error + proposal_filed \<times> 'w governance" where
  "proposePermission env m action scope condition exclusions incident st =
     (if \<not> gn_isManager env m then Inl NotAManager
      else (case storedIncident (gn_text env) incident of Inl e \<Rightarrow> Inl e | Inr inc \<Rightarrow>
            (case permissionPayloadOf (gn_text env) action scope condition exclusions of Inl e \<Rightarrow> Inl e | Inr payload \<Rightarrow> enqueueUnlessDuplicate env m inc payload st)))"

definition requestResourceAccess :: "'w governance_env \<Rightarrow> string \<Rightarrow> string \<Rightarrow> string \<Rightarrow> string \<Rightarrow> string \<Rightarrow> string \<Rightarrow> 'w governance \<Rightarrow> governance_error + proposal_filed \<times> 'w governance" where
  "requestResourceAccess env m resourceType resourceId access role incident st =
     (if \<not> gn_isManager env m then Inl NotAManager
      else (case storedIncident (gn_text env) incident of Inl e \<Rightarrow> Inl e | Inr inc \<Rightarrow>
            (case resourceAccessPayloadOf (gn_text env) resourceType resourceId access role of Inl e \<Rightarrow> Inl e | Inr payload \<Rightarrow>
             (case requireResourceOfManagerProject env m payload of Inl e \<Rightarrow> Inl e | Inr _ \<Rightarrow> enqueueUnlessDuplicate env m inc payload st))))"

lemma oldest_waiting_in: "oldest_waiting m ws = Some w \<Longrightarrow> w \<in> set ws \<and> wp_managerId w = m"
proof -
  assume "oldest_waiting m ws = Some w"
  then have "w \<in> set (waiting_of m ws)" by (auto simp: oldest_waiting_def split: list.splits)
  then show ?thesis by (simp add: waiting_of_def)
qed

text \<open>The loop that fills the free places, oldest waiting proposal first; every round takes one from the waiting list.\<close>

function release_loop :: "string \<Rightarrow> proposal list \<Rightarrow> waiting_proposal list \<Rightarrow> governance_error + string list \<times> proposal list \<times> waiting_proposal list" where
  "release_loop m ps ws =
     (if countPendingOf m ps < MAX_PENDING_PROPOSALS_PER_MANAGER
      then (case oldest_waiting m ws of
              None \<Rightarrow> Inr ([], ps, ws)
            | Some w \<Rightarrow>
                (case insert_proposal (released_proposal w) ps of
                   None \<Rightarrow> Inl UniqueViolation
                 | Some ps' \<Rightarrow>
                     (case release_loop m ps' (without_waiting (wp_id w) ws) of
                        Inl e \<Rightarrow> Inl e
                      | Inr (ids, r) \<Rightarrow> Inr (wp_id w # ids, r))))
      else Inr ([], ps, ws))"
  by pat_completeness auto

termination
proof (relation "measure (\<lambda>(m, ps, ws). length ws)", goal_cases)
  case (2 m ps ws w ps')
  have "w \<in> set ws" using 2 oldest_waiting_in by blast
  then show ?case by (auto simp: without_waiting_def intro: length_filter_less)
qed simp

declare release_loop.simps [simp del]

definition releaseWaitingIntoFreePlaces :: "string \<Rightarrow> 'w governance \<Rightarrow> governance_error + (proposal list \<times> nat) \<times> 'w governance" where
  "releaseWaitingIntoFreePlaces m st =
     (case release_loop m (gv_proposals st) (gv_waiting st) of
        Inl e \<Rightarrow> Inl e
      | Inr (ids, ps, ws) \<Rightarrow>
          Inr ((concat (map (\<lambda>i. case find_proposal i ps of None \<Rightarrow> [] | Some p \<Rightarrow> [p]) ids), countWaiting m ws),
               st\<lparr>gv_proposals := ps, gv_waiting := ws\<rparr>))"

definition answer :: "'w governance_env \<Rightarrow> string \<Rightarrow> proposal_status \<Rightarrow> string option \<Rightarrow> 'w governance \<Rightarrow> governance_error + 'w governance" where
  "answer env i status denialReason st =
     (let (wasPending, ps) = answerIfPending i status denialReason (gv_now env st) (gv_proposals st)
      in if wasPending then Inr (st\<lparr>gv_proposals := ps\<rparr>)
         else if find_proposal i (gv_proposals st) = None then Inl ProposalNotFound else Inl AlreadyResolved)"

text \<open>Deleting a proposal leaves the laws and the grants that came from it, without their reference to it.\<close>

definition evict :: "string \<Rightarrow> proposal_status set \<Rightarrow> nat \<Rightarrow> 'w governance \<Rightarrow> nat \<times> 'w governance" where
  "evict m statuses keep st =
     (let (gone, ps) = evictOldestBeyond m statuses keep (gv_proposals st);
          unlinked = (\<lambda>ref. case ref of None \<Rightarrow> None | Some i \<Rightarrow> if i \<in> set gone then None else Some i)
      in (length gone,
          st\<lparr>gv_proposals := ps, gv_laws := map (\<lambda>l. l\<lparr>lw_proposalId := unlinked (lw_proposalId l)\<rparr>) (gv_laws st),
             gv_grants := map (\<lambda>g. g\<lparr>rg_proposalId := unlinked (rg_proposalId g)\<rparr>) (gv_grants st)\<rparr>))"

definition evictOldestAudit :: "string \<Rightarrow> 'w governance \<Rightarrow> 'w governance" where
  "evictOldestAudit m st = snd (evict m {Approved, Withdrawn} MAX_AUDIT_HISTORY_PER_MANAGER st)"

definition evictOldestDenials :: "string \<Rightarrow> 'w governance \<Rightarrow> 'w governance" where
  "evictOldestDenials m st =
     (let (evictedCount, st') = evict m {Denied} MAX_DENIED_HISTORY_PER_MANAGER st
      in st'\<lparr>gv_evicted := (gv_evicted st')(m := gv_evicted st' m + evictedCount)\<rparr>)"

definition announceQueueChange :: "string \<Rightarrow> proposal list \<Rightarrow> nat \<Rightarrow> bool \<Rightarrow> 'w governance \<Rightarrow> 'w governance" where
  "announceQueueChange m released queuedCount didQueueChange st =
     emit (map Proposed released @ (if didQueueChange then [QueueChanged m queuedCount] else [])) st"

definition withdraw :: "'w governance_env \<Rightarrow> string \<Rightarrow> string \<Rightarrow> 'w governance \<Rightarrow> governance_error + 'w governance" where
  "withdraw env m i st =
     (if \<not> gn_isManager env m then Inl NotAManager
      else (let (wasWaiting, ws) = deleteOf m i (gv_waiting st)
            in if wasWaiting then Inr (announceQueueChange m [] (countWaiting m ws) True (st\<lparr>gv_waiting := ws\<rparr>))
               else (case find_proposal i (gv_proposals st) of
                       None \<Rightarrow> Inl ProposalNotFound
                     | Some current \<Rightarrow>
                         if pp_managerId current \<noteq> m then Inl ProposalNotFound
                         else (case answer env i Withdrawn None st of
                                 Inl e \<Rightarrow> Inl e
                               | Inr answered \<Rightarrow>
                                   (let evicted = evictOldestAudit m answered;
                                        resolved = (case find_proposal i (gv_proposals evicted) of None \<Rightarrow> [] | Some p \<Rightarrow> [Resolved p])
                                    in case releaseWaitingIntoFreePlaces m evicted of
                                         Inl e \<Rightarrow> Inl e
                                       | Inr ((released, queuedCount), st') \<Rightarrow>
                                           Inr (announceQueueChange m released queuedCount (released \<noteq> []) (emit resolved st')))))))"

definition recordGrantOfApproved :: "'w governance_env \<Rightarrow> proposal \<Rightarrow> 'w governance \<Rightarrow> governance_error + 'w governance" where
  "recordGrantOfApproved env approved st =
     (case pp_payload approved of
        ResourceAccessPayload ty i ac r \<Rightarrow>
          (case requireResourceOfManagerProject env (pp_managerId approved) (pp_payload approved) of
             Inl e \<Rightarrow> Inl e
           | Inr _ \<Rightarrow>
               (let (gid, w) = gn_newId env (gv_world st)
                in Inr (st\<lparr>gv_world := w, gv_grants := upsertGrant \<lparr>rg_id = gid, rg_managerId = pp_managerId approved, rg_resourceType = ty, rg_resourceId = i,
                          rg_role = r, rg_access = ac, rg_proposalId = Some (pp_id approved), rg_grantedAt = gn_clock env w\<rparr> (gv_grants st)\<rparr>)))
      | _ \<Rightarrow> Inr st)"

definition recordLawOfApproved :: "'w governance_env \<Rightarrow> proposal \<Rightarrow> 'w governance \<Rightarrow> governance_error + law option \<times> 'w governance" where
  "recordLawOfApproved env approved st =
     (case pp_payload approved of
        LawPayload body \<Rightarrow>
          (let (i, w) = gn_newId env (gv_world st); l = law_of_approved i (pp_managerId approved) body HUMAN_ACTOR (pp_id approved) (opt_default 0 (pp_decidedAt approved))
           in case insert_law l (gv_laws st) of
                None \<Rightarrow> Inl UniqueViolation
              | Some ls \<Rightarrow> Inr (Some l, st\<lparr>gv_world := w, gv_laws := ls\<rparr>))
      | _ \<Rightarrow> Inr (None, st))"

datatype verdict = Approve | Deny

definition after_denial :: "proposal \<Rightarrow> 'w governance \<Rightarrow> governance_error + law option \<times> 'w governance" where
  "after_denial answered st = Inr (None, evictOldestDenials (pp_managerId answered) st)"

definition after_approval :: "'w governance_env \<Rightarrow> proposal \<Rightarrow> 'w governance \<Rightarrow> governance_error + law option \<times> 'w governance" where
  "after_approval env answered st =
     (case recordGrantOfApproved env answered st of Inl e \<Rightarrow> Inl e | Inr granted \<Rightarrow>
      (case recordLawOfApproved env answered granted of Inl e \<Rightarrow> Inl e | Inr (enacted, st') \<Rightarrow> Inr (enacted, evictOldestAudit (pp_managerId answered) st')))"

definition recordDecision :: "'w governance_env \<Rightarrow> string \<Rightarrow> verdict \<Rightarrow> string option \<Rightarrow> 'w governance
    \<Rightarrow> governance_error + (proposal \<times> law option \<times> proposal list \<times> nat) \<times> 'w governance" where
  "recordDecision env i v denialReason st =
     (case answer env i (case v of Approve \<Rightarrow> Approved | Deny \<Rightarrow> Denied) denialReason st of Inl e \<Rightarrow> Inl e | Inr st1 \<Rightarrow>
      (case find_proposal i (gv_proposals st1) of None \<Rightarrow> Inl ProposalNotFound | Some answered \<Rightarrow>
       (case (case v of Deny \<Rightarrow> after_denial answered st1 | Approve \<Rightarrow> after_approval env answered st1) of Inl e \<Rightarrow> Inl e | Inr (enacted, st2) \<Rightarrow>
        (case releaseWaitingIntoFreePlaces (pp_managerId answered) st2 of Inl e \<Rightarrow> Inl e | Inr ((released, queuedCount), st3) \<Rightarrow>
          Inr ((answered, enacted, released, queuedCount), st3)))))"

definition decide :: "'w governance_env \<Rightarrow> string \<Rightarrow> verdict \<Rightarrow> string option \<Rightarrow> 'w governance \<Rightarrow> governance_error + proposal \<times> 'w governance" where
  "decide env i v reason st =
     (case (case reason of None \<Rightarrow> Inr None | Some s \<Rightarrow> map_sum id Some (storedDenialReason (gn_text env) (Some s))) of Inl e \<Rightarrow> Inl e | Inr given \<Rightarrow>
      (case (case v of Approve \<Rightarrow> Inr None | Deny \<Rightarrow> map_sum id Some (storedDenialReason (gn_text env) reason)) of Inl e \<Rightarrow> Inl e | Inr denialReason \<Rightarrow>
       (case recordDecision env i v denialReason st of Inl e \<Rightarrow> Inl e | Inr ((answered, enacted, released, queuedCount), st') \<Rightarrow>
         Inr (answered,
              emit [DecisionNotified answered given (map pp_id released)]
                (announceQueueChange (pp_managerId answered) released queuedCount (released \<noteq> [])
                  (emit (Resolved answered # (case enacted of None \<Rightarrow> [] | Some l \<Rightarrow> [LawCreated l])) st'))))))"

definition changeLaw :: "string \<Rightarrow> bool \<times> law list \<Rightarrow> 'w governance \<Rightarrow> governance_error + law \<times> 'w governance" where
  "changeLaw i change st =
     (case find_law i (if fst change then snd change else gv_laws st) of
        None \<Rightarrow> Inl LawNotFound
      | Some l \<Rightarrow>
          if fst change then Inr (l, st\<lparr>gv_laws := snd change\<rparr>)
          else if lw_status l = LawWithdrawn then Inl LawIsWithdrawn else Inl (LawRevisionConflict (lw_revision l)))"

definition editLaw :: "'w governance_env \<Rightarrow> string \<Rightarrow> string \<Rightarrow> nat \<Rightarrow> 'w governance \<Rightarrow> governance_error + law \<times> 'w governance" where
  "editLaw env i body expectedRevision st =
     (case storedLawText (gn_text env) body of Inl e \<Rightarrow> Inl e | Inr newText \<Rightarrow>
      (case changeLaw i (replaceTextIfRevision i expectedRevision newText HUMAN_ACTOR (gv_now env st) (gv_laws st)) st of
         Inl e \<Rightarrow> Inl e
       | Inr (l, st') \<Rightarrow> Inr (l, emit [LawUpdated l] st')))"

definition withdrawLaw :: "'w governance_env \<Rightarrow> string \<Rightarrow> nat \<Rightarrow> 'w governance \<Rightarrow> governance_error + law \<times> 'w governance" where
  "withdrawLaw env i expectedRevision st =
     (case changeLaw i (withdrawIfRevision i expectedRevision HUMAN_ACTOR (gv_now env st) (gv_laws st)) st of
        Inl e \<Rightarrow> Inl e
      | Inr (l, st') \<Rightarrow> Inr (l, emit [LawGone l] st'))"

record governance_view =
  vw_laws :: "law list"
  vw_resourceGrants :: "resource_grant list"
  vw_pending :: "proposal list"
  vw_queued :: "waiting_proposal list"
  vw_denied :: "proposal list"
  vw_history :: "proposal list"
  vw_evictedDenials :: nat

definition viewOf :: "'w governance_env \<Rightarrow> string \<Rightarrow> 'w governance \<Rightarrow> governance_error + governance_view" where
  "viewOf env m st =
     (if \<not> gn_isManager env m then Inl NotAManager
      else Inr \<lparr>vw_laws = lawsOf m (gv_laws st), vw_resourceGrants = grantsOf m (gv_grants st), vw_pending = pendingOf m (gv_proposals st),
                vw_queued = waiting_of m (gv_waiting st), vw_denied = deniedOf m (gv_proposals st), vw_history = auditHistoryOf m (gv_proposals st),
                vw_evictedDenials = gv_evicted st m\<rparr>)"

definition listByStatus :: "proposal_status \<Rightarrow> 'w governance \<Rightarrow> proposal list" where
  "listByStatus status st = allWithStatus status (gv_proposals st)"

text \<open>The number of waiting proposals of each manager that has any.\<close>

definition countsByManager :: "waiting_proposal list \<Rightarrow> string \<rightharpoonup> nat" where
  "countsByManager ws = (\<lambda>m. if m \<in> set (map wp_managerId ws) then Some (length (filter (\<lambda>w. wp_managerId w = m) ws)) else None)"

definition queuedCounts :: "'w governance \<Rightarrow> string \<rightharpoonup> nat" where
  "queuedCounts st = countsByManager (gv_waiting st)"

section \<open>The invariant of the queue\<close>

definition waiting_rows :: "string \<Rightarrow> waiting_proposal list \<Rightarrow> waiting_proposal list" where
  "waiting_rows m ws = filter (\<lambda>w. wp_managerId w = m) ws"

definition asked :: "string \<Rightarrow> proposal list \<Rightarrow> waiting_proposal list \<Rightarrow> proposal_payload multiset" where
  "asked m ps ws = image_mset pp_payload (mset (with_status m {Pending} ps)) + image_mset wp_payload (mset (waiting_rows m ws))"

text \<open>The places of a manager: at most ten pending, at most fifty waiting, and no two that ask the same.\<close>

definition places_ok :: "string \<Rightarrow> proposal list \<Rightarrow> waiting_proposal list \<Rightarrow> bool" where
  "places_ok m ps ws \<longleftrightarrow> countPendingOf m ps \<le> 10 \<and> countWaiting m ws \<le> 50 \<and> (\<forall>x. count (asked m ps ws) x \<le> 1)"

text \<open>No proposal waits while a place is free.\<close>

definition places_filled :: "string \<Rightarrow> proposal list \<Rightarrow> waiting_proposal list \<Rightarrow> bool" where
  "places_filled m ps ws \<longleftrightarrow> (countWaiting m ws > 0 \<longrightarrow> countPendingOf m ps = 10)"

definition history_ok :: "string \<Rightarrow> proposal list \<Rightarrow> bool" where
  "history_ok m ps \<longleftrightarrow> length (with_status m {Denied} ps) \<le> 20 \<and> length (with_status m {Approved, Withdrawn} ps) \<le> 50"

definition ids_ok :: "proposal list \<Rightarrow> waiting_proposal list \<Rightarrow> bool" where
  "ids_ok ps ws \<longleftrightarrow> distinct (map pp_id ps) \<and> distinct (map wp_id ws)"

definition governance_ok :: "'w governance \<Rightarrow> bool" where
  "governance_ok st \<longleftrightarrow>
     ids_ok (gv_proposals st) (gv_waiting st) \<and>
     (\<forall>m. places_ok m (gv_proposals st) (gv_waiting st) \<and> places_filled m (gv_proposals st) (gv_waiting st) \<and> history_ok m (gv_proposals st))"

lemmas places_defs = places_ok_def places_filled_def countPendingOf_def countWaiting_def asked_def waiting_rows_def

lemma with_status_append [simp]: "with_status m S (ps @ qs) = with_status m S ps @ with_status m S qs"
  by (simp add: with_status_def)

lemma with_status_one [simp]: "with_status m S [p] = (if pp_managerId p = m \<and> pp_status p \<in> S then [p] else [])"
  by (simp add: with_status_def)

lemma waiting_rows_append [simp]: "waiting_rows m (ws @ vs) = waiting_rows m ws @ waiting_rows m vs"
  by (simp add: waiting_rows_def)

lemma waiting_rows_one [simp]: "waiting_rows m [w] = (if wp_managerId w = m then [w] else [])"
  by (simp add: waiting_rows_def)

lemma countWaiting_rows: "countWaiting m ws = length (waiting_rows m ws)"
  by (simp add: countWaiting_def waiting_rows_def)

lemma waiting_of_rows: "mset (waiting_of m ws) = mset (waiting_rows m ws)"
  by (simp add: waiting_of_def waiting_rows_def)

text \<open>Taking one waiting proposal out.\<close>

lemma without_waiting_rows:
  assumes "distinct (map wp_id ws)" "w \<in> set ws"
  shows "mset (waiting_rows m (without_waiting (wp_id w) ws)) = (if wp_managerId w = m then mset (waiting_rows m ws) - {#w#} else mset (waiting_rows m ws))"
proof -
  have "distinct ws" "inj_on wp_id (set ws)" using assms(1) by (auto simp: distinct_map)
  then have "filter (\<lambda>v. wp_id v \<noteq> wp_id w) ws = filter (\<lambda>v. v \<noteq> w) ws"
    by (intro filter_cong) (auto dest: inj_onD [OF _ _ _ assms(2)])
  also have "\<dots> = remove1 w ws" unfolding distinct_remove1_removeAll [OF \<open>distinct ws\<close>] removeAll_filter_not_eq by (rule filter_cong) auto
  finally have "without_waiting (wp_id w) ws = remove1 w ws" by (simp add: without_waiting_def)
  then show ?thesis using assms(2) by (auto simp: waiting_rows_def filter_remove1 mset_remove1)
qed

text \<open>What releasing waiting proposals of a manager keeps: what is asked, the answered proposals, the places of the others.\<close>

definition moves :: "string \<Rightarrow> proposal list \<times> waiting_proposal list \<Rightarrow> proposal list \<times> waiting_proposal list \<Rightarrow> bool" where
  "moves m s s' \<longleftrightarrow>
     ids_ok (fst s') (snd s') \<and> (\<forall>m'. asked m' (fst s') (snd s') = asked m' (fst s) (snd s))
     \<and> (\<forall>m' S. Pending \<notin> S \<longrightarrow> with_status m' S (fst s') = with_status m' S (fst s))
     \<and> (\<forall>m'. m' \<noteq> m \<longrightarrow> countPendingOf m' (fst s') = countPendingOf m' (fst s) \<and> countWaiting m' (snd s') = countWaiting m' (snd s))
     \<and> countWaiting m (snd s') \<le> countWaiting m (snd s)"

lemma moves_refl: "ids_ok ps ws \<Longrightarrow> moves m (ps, ws) (ps, ws)"
  by (simp add: moves_def)

lemma moves_trans: "moves m a b \<Longrightarrow> moves m b c \<Longrightarrow> moves m a c"
  by (simp add: moves_def)

lemma release_step:
  assumes ids: "ids_ok ps ws" and w: "oldest_waiting m ws = Some w" and ins: "insert_proposal (released_proposal w) ps = Some ps'"
  shows "moves m (ps, ws) (ps', without_waiting (wp_id w) ws)" and "countPendingOf m ps' = Suc (countPendingOf m ps)"
proof -
  let ?ws = "without_waiting (wp_id w) ws"
  have ps': "ps' = ps @ [released_proposal w]" "wp_id w \<notin> set (map pp_id ps)" using ins by (auto simp: insert_proposal_def released_proposal_def split: if_splits)
  have in_ws: "w \<in> set ws" "wp_managerId w = m" using oldest_waiting_in [OF w] by auto
  note rows = without_waiting_rows [OF _ in_ws(1)]
  have "ids_ok ps' ?ws" using ids ps' by (auto simp: ids_ok_def without_waiting_def distinct_map_filter released_proposal_def)
  moreover have "asked m' ps' ?ws = asked m' ps ws" for m'
  proof (cases "m' = m")
    case True
    have "w \<in># mset (waiting_rows m ws)" using in_ws by (simp add: waiting_rows_def)
    then have "image_mset wp_payload (mset (waiting_rows m ws)) = add_mset (wp_payload w) (image_mset wp_payload (mset (waiting_rows m ws) - {#w#}))"
      by (metis image_mset_add_mset insert_DiffM)
    then show ?thesis using True in_ws rows ids by (simp add: asked_def ps' released_proposal_def ids_ok_def)
  next
    case False
    then show ?thesis using in_ws rows ids by (simp add: asked_def ps' released_proposal_def ids_ok_def)
  qed
  moreover have "with_status m' S ps' = with_status m' S ps" if "Pending \<notin> S" for m' S
    using that by (simp add: ps' released_proposal_def)
  moreover have "countPendingOf m' ps' = countPendingOf m' ps" if "m' \<noteq> m" for m'
    using that in_ws by (simp add: ps' countPendingOf_def released_proposal_def)
  moreover have "countWaiting m' ?ws = countWaiting m' ws" if "m' \<noteq> m" for m'
    using that in_ws rows ids by (metis countWaiting_rows ids_ok_def size_mset)
  moreover have "countWaiting m ?ws \<le> countWaiting m ws"
    unfolding countWaiting_def without_waiting_def filter_filter by (rule length_filter_mono) simp
  ultimately show "moves m (ps, ws) (ps', ?ws)" by (simp add: moves_def)
  show "countPendingOf m ps' = Suc (countPendingOf m ps)" using in_ws by (simp add: ps' countPendingOf_def released_proposal_def)
qed

lemma release_loop_moves:
  "release_loop m ps ws = Inr (ids, ps', ws') \<Longrightarrow> ids_ok ps ws \<Longrightarrow> countPendingOf m ps \<le> 10 \<Longrightarrow>
   moves m (ps, ws) (ps', ws') \<and> countPendingOf m ps' \<le> 10 \<and> places_filled m ps' ws'"
proof (induction m ps ws arbitrary: ids rule: release_loop.induct)
  case (1 m ps ws)
  show ?case
  proof (cases "countPendingOf m ps < MAX_PENDING_PROPOSALS_PER_MANAGER")
    case False
    then show ?thesis using "1.prems" by (subst (asm) release_loop.simps) (auto simp: MAX_PENDING_PROPOSALS_PER_MANAGER_def places_filled_def moves_refl)
  next
    case True
    show ?thesis
    proof (cases "oldest_waiting m ws")
      case None
      then have "waiting_rows m ws = []" using waiting_of_rows [of m ws] by (simp add: oldest_waiting_def split: list.splits)
      then show ?thesis using None True "1.prems"
        by (subst (asm) release_loop.simps) (auto simp: places_filled_def moves_refl countWaiting_rows)
    next
      case (Some w)
      then obtain ps1 ids1 where ins: "insert_proposal (released_proposal w) ps = Some ps1"
        and rec: "release_loop m ps1 (without_waiting (wp_id w) ws) = Inr (ids1, ps', ws')"
        using True "1.prems"(1) unfolding release_loop.simps [of m ps ws] by (auto split: option.splits sum.splits)
      note step = release_step [OF "1.prems"(2) Some ins]
      have "ids_ok ps1 (without_waiting (wp_id w) ws)" using step(1) by (simp add: moves_def)
      moreover have "countPendingOf m ps1 \<le> 10" using step(2) True by (simp add: MAX_PENDING_PROPOSALS_PER_MANAGER_def)
      ultimately show ?thesis using "1.IH" [OF True Some ins rec] step(1) moves_trans by blast
    qed
  qed
qed

lemma answered_split:
  assumes "distinct (map pp_id ps)" "answerIfPending i s reason moment ps = (True, ps')"
  obtains a p b where "ps = a @ p # b" "pp_id p = i" "pp_status p = Pending"
    "ps' = a @ p\<lparr>pp_status := s, pp_denialReason := reason, pp_decidedAt := Some moment\<rparr> # b"
proof -
  have "filter (\<lambda>p. pp_id p = i \<and> pp_status p = Pending) ps \<noteq> []" using assms(2) by (auto simp: answerIfPending_def Let_def)
  then obtain p where p: "p \<in> set ps" "pp_id p = i" "pp_status p = Pending" by (auto simp: filter_empty_conv)
  from split_list [OF p(1)] obtain a b where ps: "ps = a @ p # b" by blast
  then have "\<forall>q \<in> set a \<union> set b. pp_id q \<noteq> i" using assms(1) p(2) by (auto simp: image_iff)
  then have others: "map (\<lambda>q. if pp_id q = i \<and> pp_status q = Pending then f q else q) a = a"
    "map (\<lambda>q. if pp_id q = i \<and> pp_status q = Pending then f q else q) b = b" for f
    by (auto simp: map_idI)
  have "ps' = a @ p\<lparr>pp_status := s, pp_denialReason := reason, pp_decidedAt := Some moment\<rparr> # b"
    using assms(2) p others by (auto simp: answerIfPending_def Let_def ps)
  with ps p show ?thesis by (intro that)
qed

lemma with_status_Cons [simp]: "with_status m S (p # b) = (if pp_managerId p = m \<and> pp_status p \<in> S then [p] else []) @ with_status m S b"
  by (simp add: with_status_def)

text \<open>What an answer does to the places and to the history of each manager.\<close>

lemma answer_effect:
  assumes ids: "ids_ok ps ws" and ans: "answerIfPending i s reason moment ps = (True, ps')" and s: "s \<noteq> Pending"
  shows "\<exists>m. ids_ok ps' ws \<and> (\<forall>p \<in> set ps \<union> set ps'. pp_id p = i \<longrightarrow> pp_managerId p = m)
    \<and> (\<forall>m'. places_ok m' ps ws \<longrightarrow> places_ok m' ps' ws) \<and> (\<forall>m'. m' \<noteq> m \<longrightarrow> countPendingOf m' ps' = countPendingOf m' ps)
    \<and> (\<forall>m' S. Pending \<notin> S \<longrightarrow> length (with_status m' S ps') = length (with_status m' S ps) + (if m' = m \<and> s \<in> S then 1 else 0))"
proof -
  obtain a p b where split: "ps = a @ p # b" "pp_id p = i" "pp_status p = Pending"
    "ps' = a @ p\<lparr>pp_status := s, pp_denialReason := reason, pp_decidedAt := Some moment\<rparr> # b"
    using answered_split [OF _ ans] ids unfolding ids_ok_def by metis
  have fewer: "count (asked m' ps' ws) x \<le> count (asked m' ps ws) x" for m' x using split s by (simp add: asked_def)
  have "places_ok m' ps' ws" if "places_ok m' ps ws" for m'
    using that split s le_trans [OF fewer] by (auto simp: places_ok_def countPendingOf_def)
  then show ?thesis
    using split ids s by (intro exI [of _ "pp_managerId p"]) (auto simp: ids_ok_def countPendingOf_def image_iff)
qed

lemma evict_effect:
  assumes "distinct (map pp_id ps)" "evictOldestBeyond m S k ps = (gone, ps')"
  shows "distinct (map pp_id ps')" "length (with_status m S ps') \<le> k"
    and "m' \<noteq> m \<or> S \<inter> T = {} \<Longrightarrow> with_status m' T ps' = with_status m' T ps"
proof -
  let ?X = "with_status m S ps" and ?Y = "newest_answer_first (with_status m S ps)"
  have gone: "set gone = pp_id ` set (drop k ?Y)" and ps': "ps' = filter (\<lambda>p. pp_id p \<notin> set gone) ps"
    using assms(2) by (auto simp: evictOldestBeyond_def Let_def)
  have same: "mset ?Y = mset ?X" by (simp add: newest_answer_first_def)
  have "distinct (map pp_id ?X)" using assms(1) by (simp add: with_status_def distinct_map_filter)
  then have dist: "distinct (map pp_id ?Y)" using same by (metis mset_eq_imp_distinct_iff mset_map)
  show "distinct (map pp_id ps')" using assms(1) by (simp add: ps' distinct_map_filter)
  have "length (with_status m S ps') = length (filter (\<lambda>p. pp_id p \<notin> set gone) ?X)" by (simp add: ps' with_status_def conj_commute)
  also have "\<dots> = length (filter (\<lambda>p. pp_id p \<notin> set gone) ?Y)" using same by (metis mset_filter size_mset)
  also have "\<dots> \<le> k" unfolding gone filter_keep_taken [OF dist] by simp
  finally show "length (with_status m S ps') \<le> k" .
  have "pp_id p \<notin> set gone" if p: "p \<in> set ps" "\<not> (pp_managerId p = m \<and> pp_status p \<in> S)" for p
  proof
    assume "pp_id p \<in> set gone"
    then obtain q where "q \<in> set (drop k ?Y)" "pp_id q = pp_id p" unfolding gone by auto
    moreover from this(1) have "q \<in> set ?X" unfolding mset_eq_setD [OF same, symmetric] by (rule in_set_dropD)
    ultimately have "q \<in> set ps" "pp_id q = pp_id p" "pp_managerId q = m \<and> pp_status q \<in> S" by (auto simp: with_status_def)
    then show False using assms(1) p by (metis distinct_map inj_onD)
  qed
  then show "m' \<noteq> m \<or> S \<inter> T = {} \<Longrightarrow> with_status m' T ps' = with_status m' T ps"
    unfolding ps' with_status_def filter_filter by (intro filter_cong) auto
qed

definition governance_inv :: "proposal list \<Rightarrow> waiting_proposal list \<Rightarrow> bool" where
  "governance_inv ps ws \<longleftrightarrow> ids_ok ps ws \<and> (\<forall>m. places_ok m ps ws \<and> places_filled m ps ws \<and> history_ok m ps)"

lemma governance_ok_inv: "governance_ok st = governance_inv (gv_proposals st) (gv_waiting st)"
  by (simp add: governance_ok_def governance_inv_def)

text \<open>The classes of answered proposals that are kept, and how many of each.\<close>

definition history_class :: "proposal_status \<Rightarrow> proposal_status set \<times> nat" where
  "history_class s = (if s = Denied then ({Denied}, 20) else ({Approved, Withdrawn}, 50))"

lemma settle_ok:
  assumes inv: "governance_inv ps ws" and ans: "answerIfPending i s reason moment ps = (True, ps1)" and s: "s \<noteq> Pending"
    and m: "\<exists>p \<in> set ps \<union> set ps1. pp_id p = i \<and> pp_managerId p = m"
    and evict: "evictOldestBeyond m (fst (history_class s)) (snd (history_class s)) ps1 = (gone, ps2)"
    and release: "release_loop m ps2 ws = Inr (ids, ps3, ws3)"
  shows "governance_inv ps3 ws3"
proof -
  have ok: "ids_ok ps ws" "\<And>m. places_ok m ps ws" "\<And>m. places_filled m ps ws" "\<And>m. history_ok m ps" using inv by (auto simp: governance_inv_def)
  obtain m1 where m1: "ids_ok ps1 ws" "\<forall>p \<in> set ps \<union> set ps1. pp_id p = i \<longrightarrow> pp_managerId p = m1"
    "\<forall>m'. places_ok m' ps ws \<longrightarrow> places_ok m' ps1 ws" "\<forall>m'. m' \<noteq> m1 \<longrightarrow> countPendingOf m' ps1 = countPendingOf m' ps"
    "\<forall>m' S. Pending \<notin> S \<longrightarrow> length (with_status m' S ps1) = length (with_status m' S ps) + (if m' = m1 \<and> s \<in> S then 1 else 0)"
    using answer_effect [OF ok(1) ans s] by blast
  have "m1 = m" using m m1(2) by auto
  note a = m1(1) m1(3) [rule_format, OF ok(2)] m1(4,5) [unfolded \<open>m1 = m\<close>, rule_format]
  have "distinct (map pp_id ps1)" using a(1) by (simp add: ids_ok_def)
  note e = evict_effect [OF this evict]
  have pending: "with_status m' {Pending} ps2 = with_status m' {Pending} ps1" for m'
    using s by (intro e(3)) (auto simp: history_class_def)
  have ids2: "ids_ok ps2 ws" using e(1) a(1) by (simp add: ids_ok_def)
  have places2: "places_ok m' ps2 ws" for m' using a(2) pending by (simp add: places_ok_def countPendingOf_def asked_def)
  have history2: "history_ok m' ps2" for m'
  proof (cases "m' = m")
    case True
    show ?thesis using True ok(4) [of m] a(4) [of "{Denied}" m] a(4) [of "{Approved, Withdrawn}" m] e(2) e(3) [of m "{Denied}"] e(3) [of m "{Approved, Withdrawn}"] s
      by (cases s) (auto simp: history_ok_def history_class_def)
  next
    case False
    then show ?thesis using ok(4) a(4) [of _ m'] e(3) [of m'] by (simp add: history_ok_def)
  qed
  from release_loop_moves [OF release ids2] places2 [of m]
  have r: "moves m (ps2, ws) (ps3, ws3)" "countPendingOf m ps3 \<le> 10" "places_filled m ps3 ws3" by (auto simp: places_ok_def)
  have others: "countPendingOf m' ps3 = countPendingOf m' ps \<and> countWaiting m' ws3 = countWaiting m' ws" if "m' \<noteq> m" for m'
    using r(1) a(3) pending that by (auto simp: moves_def countPendingOf_def)
  have "places_ok m' ps3 ws3 \<and> places_filled m' ps3 ws3 \<and> history_ok m' ps3" for m'
    using r others [of m'] places2 [of m'] ok(3) [of m'] history2 [of m'] ok(2) [of m']
    by (cases "m' = m") (auto simp: moves_def places_ok_def places_filled_def history_ok_def)
  then show ?thesis using r(1) by (simp add: governance_inv_def moves_def)
qed

text \<open>Filing a proposal.\<close>

lemma with_status_Nil [simp]: "with_status m S [] = []"
  by (simp add: with_status_def)

lemma waiting_rows_Nil [simp]: "waiting_rows m [] = []"
  by (simp add: waiting_rows_def)

lemma no_twin_asked:
  assumes "findPendingTwin m payload ps = None" "findTwin m payload ws = None"
  shows "count (asked m ps ws) payload = 0"
proof -
  have "\<forall>p \<in> set (with_status m {Pending} ps). pp_payload p \<noteq> payload"
    using assms(1) by (auto simp: findPendingTwin_def find_None_iff with_status_def)
  moreover have "\<forall>w \<in> set ws. \<not> (wp_managerId w = m \<and> wp_payload w = payload)"
  proof (cases "find (\<lambda>w. wp_managerId w = m \<and> wp_payload w = payload) ws")
    case None
    then show ?thesis by (simp add: find_None_iff)
  next
    case (Some twin)
    then have "twin \<in> set (waiting_of m ws)" by (auto simp: waiting_of_def find_Some_iff)
    then obtain j where "j < length (waiting_of m ws)" "waiting_of m ws ! j = twin" by (auto simp: in_set_conv_nth)
    then have "(twin, Suc j) \<in> set (zip (waiting_of m ws) [1..<Suc (length (waiting_of m ws))])"
      by (auto simp: in_set_zip nth_upt simp del: upt_Suc intro!: exI [of _ j])
    moreover have "\<not> (\<exists>x \<in> set (zip (waiting_of m ws) [1..<Suc (length (waiting_of m ws))]). case x of (w, position) \<Rightarrow> wp_id w = wp_id twin)"
      using assms(2) Some by (auto simp: findTwin_def find_None_iff simp del: upt_Suc)
    ultimately show ?thesis by fastforce
  qed
  then have "\<forall>w \<in> set (waiting_rows m ws). wp_payload w \<noteq> payload" by (auto simp: waiting_rows_def)
  ultimately show ?thesis by (auto simp: asked_def count_eq_zero_iff)
qed

lemma file_pending_inv:
  assumes "governance_inv ps ws" "insert_proposal p ps = Some ps'" "pp_status p = Pending" "count (asked (pp_managerId p) ps ws) (pp_payload p) = 0"
    "countPendingOf (pp_managerId p) ps < 10" "countWaiting (pp_managerId p) ws = 0"
  shows "governance_inv ps' ws"
proof -
  have ps': "ps' = ps @ [p]" "pp_id p \<notin> set (map pp_id ps)" using assms(2) by (auto simp: insert_proposal_def split: if_splits)
  have "ids_ok ps' ws" using assms(1) ps' by (auto simp: governance_inv_def ids_ok_def)
  moreover have "count (asked m ps' ws) x \<le> 1" for m x
    using assms(1,3,4) by (auto simp: governance_inv_def places_ok_def asked_def ps')
  moreover have "countPendingOf m ps' \<le> 10 \<and> places_filled m ps' ws \<and> history_ok m ps'" for m
    using assms(1,3,5,6) by (auto simp: governance_inv_def places_ok_def places_filled_def history_ok_def countPendingOf_def ps')
  ultimately show ?thesis using assms(1) by (simp add: governance_inv_def places_ok_def)
qed

lemma park_inv:
  assumes "governance_inv ps ws" "insert_waiting w ws = Some ws'" "count (asked (wp_managerId w) ps ws) (wp_payload w) = 0"
    "\<not> (countPendingOf (wp_managerId w) ps < 10 \<and> countWaiting (wp_managerId w) ws = 0)" "countWaiting (wp_managerId w) ws < 50"
  shows "governance_inv ps ws'"
proof -
  have ws': "ws' = ws @ [w]" "wp_id w \<notin> set (map wp_id ws)" using assms(2) by (auto simp: insert_waiting_def split: if_splits)
  have full: "countPendingOf (wp_managerId w) ps = 10"
    using assms(1,4) by (metis antisym_conv2 gr0I governance_inv_def places_filled_def places_ok_def)
  have "ids_ok ps ws'" using assms(1) ws' by (auto simp: governance_inv_def ids_ok_def)
  moreover have "count (asked m ps ws') x \<le> 1" for m x
    using assms(1,3) by (auto simp: governance_inv_def places_ok_def asked_def ws')
  moreover have "countWaiting m ws' \<le> 50 \<and> places_filled m ps ws'" for m
    using assms(1,5) full by (auto simp: governance_inv_def places_ok_def places_filled_def countWaiting_def ws')
  ultimately show ?thesis using assms(1) by (simp add: governance_inv_def places_ok_def)
qed

lemma enqueue_ok:
  assumes ok: "governance_ok st" and filed: "enqueueUnlessDuplicate env m incident payload st = Inr (r, st')"
  shows "governance_ok st'"
proof (cases "findPendingTwin m payload (gv_proposals st) = None \<and> findTwin m payload (gv_waiting st) = None")
  case False
  then show ?thesis using ok filed by (auto simp: enqueueUnlessDuplicate_def Let_def split: option.splits)
next
  case True
  let ?i = "fst (gn_newId env (gv_world st))" and ?w = "snd (gn_newId env (gv_world st))"
  let ?p = "\<lparr>pp_id = ?i, pp_managerId = m, pp_status = Pending, pp_incident = incident, pp_payload = payload, pp_denialReason = None,
    pp_createdAt = gn_clock env ?w, pp_decidedAt = None\<rparr>"
  let ?v = "\<lparr>wp_id = ?i, wp_managerId = m, wp_incident = incident, wp_payload = payload, wp_createdAt = gn_clock env ?w\<rparr>"
  have inv: "governance_inv (gv_proposals st) (gv_waiting st)" using ok by (simp add: governance_ok_inv)
  have fresh: "count (asked m (gv_proposals st) (gv_waiting st)) payload = 0" using True no_twin_asked by blast
  note filing = file_pending_inv [OF inv, of ?p] and park = park_inv [OF inv, of ?v]
  show ?thesis
  proof (cases "countPendingOf m (gv_proposals st) < 10 \<and> countWaiting m (gv_waiting st) = 0")
    case free: True
    then obtain ps where "insert_proposal ?p (gv_proposals st) = Some ps" "gv_proposals st' = ps" "gv_waiting st' = gv_waiting st"
      using True filed by (auto simp: enqueueUnlessDuplicate_def Let_def emit_def MAX_PENDING_PROPOSALS_PER_MANAGER_def split_beta split: option.splits)
    then show ?thesis using filing free fresh by (simp add: governance_ok_inv)
  next
    case taken: False
    then have "countWaiting m (gv_waiting st) < 50 \<and> (\<exists>ws. insert_waiting ?v (gv_waiting st) = Some ws \<and> gv_proposals st' = gv_proposals st \<and> gv_waiting st' = ws)"
      using True filed by (auto simp: enqueueUnlessDuplicate_def Let_def emit_def MAX_PENDING_PROPOSALS_PER_MANAGER_def MAX_QUEUED_PROPOSALS_PER_MANAGER_def
          split_beta split: option.splits if_splits)
    then show ?thesis using park taken fresh by (auto simp: governance_ok_inv)
  qed
qed

text \<open>Taking a waiting proposal back, answering one, changing a law.\<close>

lemma delete_waiting_inv:
  assumes "governance_inv ps ws"
  shows "governance_inv ps (snd (deleteOf m i ws))"
proof -
  let ?ws = "snd (deleteOf m i ws)"
  have rows: "waiting_rows m' ?ws = filter (\<lambda>w. \<not> (wp_id w = i \<and> wp_managerId w = m)) (waiting_rows m' ws)" for m'
    by (simp add: deleteOf_def Let_def waiting_rows_def conj_commute)
  have fewer: "countWaiting m' ?ws \<le> countWaiting m' ws" for m' by (simp add: countWaiting_rows rows)
  have "count (asked m' ps ?ws) x \<le> count (asked m' ps ws) x" for m' x
    by (simp add: asked_def rows) (meson image_mset_subseteq_mono mset_subset_eq_count multiset_filter_subset)
  then have "count (asked m' ps ?ws) x \<le> 1" for m' x using assms by (meson governance_inv_def le_trans places_ok_def)
  moreover have "ids_ok ps ?ws" using assms by (simp add: governance_inv_def ids_ok_def deleteOf_def Let_def distinct_map_filter)
  moreover have "countWaiting m' ?ws \<le> 50 \<and> places_filled m' ps ?ws" for m'
    using assms fewer [of m'] by (auto simp: governance_inv_def places_ok_def places_filled_def intro: le_trans)
  ultimately show ?thesis using assms by (simp add: governance_inv_def places_ok_def)
qed

lemma answer_Inr:
  "answer env i s reason st = Inr st1 \<Longrightarrow>
   answerIfPending i s reason (gv_now env st) (gv_proposals st) = (True, gv_proposals st1) \<and> st1 = st\<lparr>gv_proposals := gv_proposals st1\<rparr>"
  by (auto simp: answer_def Let_def split: prod.splits if_splits)

lemma evict_state:
  "gv_proposals (snd (evict m S k st)) = snd (evictOldestBeyond m S k (gv_proposals st))"
  "gv_waiting (snd (evict m S k st)) = gv_waiting st" "gv_world (snd (evict m S k st)) = gv_world st" "gv_events (snd (evict m S k st)) = gv_events st"
  by (simp_all add: evict_def Let_def split_beta)

lemma releaseWaiting_Inr:
  "releaseWaitingIntoFreePlaces m st = Inr (r, st') \<Longrightarrow>
   (\<exists>ids. release_loop m (gv_proposals st) (gv_waiting st) = Inr (ids, gv_proposals st', gv_waiting st'))
   \<and> st' = st\<lparr>gv_proposals := gv_proposals st', gv_waiting := gv_waiting st'\<rparr>"
  by (auto simp: releaseWaitingIntoFreePlaces_def split: sum.splits prod.splits)

lemma settled_state_ok:
  assumes ok: "governance_ok st" and ans: "answer env i s reason st = Inr st1" and s: "s \<noteq> Pending"
    and p: "find_proposal i (gv_proposals st) = Some p \<or> find_proposal i (gv_proposals st1) = Some p" "pp_managerId p = m"
    and st2: "gv_proposals st2 = snd (evictOldestBeyond m (fst (history_class s)) (snd (history_class s)) (gv_proposals st1))" "gv_waiting st2 = gv_waiting st1"
    and release: "releaseWaitingIntoFreePlaces m st2 = Inr (r, st3)"
  shows "governance_ok st3"
proof -
  have p': "\<exists>p \<in> set (gv_proposals st) \<union> set (gv_proposals st1). pp_id p = i \<and> pp_managerId p = m"
    using p by (auto simp: find_proposal_def dest!: find_SomeD)
  have evict: "evictOldestBeyond m (fst (history_class s)) (snd (history_class s)) (gv_proposals st1)
      = (fst (evictOldestBeyond m (fst (history_class s)) (snd (history_class s)) (gv_proposals st1)), gv_proposals st2)"
    by (simp add: st2(1))
  have w: "gv_waiting st2 = gv_waiting st" using answer_Inr [OF ans] by (metis governance.select_convs(2) governance.surjective governance.update_convs(1) st2(2))
  from releaseWaiting_Inr [OF release] obtain ids where "release_loop m (gv_proposals st2) (gv_waiting st) = Inr (ids, gv_proposals st3, gv_waiting st3)"
    unfolding w by blast
  from settle_ok [OF ok [unfolded governance_ok_inv] conjunct1 [OF answer_Inr [OF ans]] s p' evict this] show ?thesis
    by (simp add: governance_ok_inv)
qed

lemma announced_ok [simp]:
  "governance_ok (emit es st) = governance_ok st" "governance_ok (announceQueueChange m released n b st) = governance_ok st"
  "governance_ok (st\<lparr>gv_laws := ls\<rparr>) = governance_ok st" "governance_ok (st\<lparr>gv_world := w\<rparr>) = governance_ok st"
  by (simp_all add: governance_ok_def emit_def announceQueueChange_def)

lemma withdraw_ok:
  assumes ok: "governance_ok st" and run: "withdraw env m i st = Inr st'"
  shows "governance_ok st'"
proof (cases "fst (deleteOf m i (gv_waiting st))")
  case True
  have "gv_proposals st' = gv_proposals st" "gv_waiting st' = snd (deleteOf m i (gv_waiting st))"
    using True run by (auto simp: withdraw_def Let_def split_beta announceQueueChange_def emit_def split: if_splits)
  then show ?thesis using ok delete_waiting_inv by (simp add: governance_ok_inv)
next
  case False
  then obtain p st1 r st3 where p: "find_proposal i (gv_proposals st) = Some p" "pp_managerId p = m" and ans: "answer env i Withdrawn None st = Inr st1"
    and rel: "releaseWaitingIntoFreePlaces m (evictOldestAudit m st1) = Inr (r, st3)" and ok3: "governance_ok st' = governance_ok st3"
    using run by (auto simp: withdraw_def Let_def split: prod.splits if_splits option.splits sum.splits)
  have "governance_ok st3"
    by (rule settled_state_ok [OF ok ans _ disjI1 [OF p(1)] p(2) _ _ rel]) (simp_all add: evictOldestAudit_def evict_state history_class_def MAX_AUDIT_HISTORY_PER_MANAGER_def)
  then show ?thesis using ok3 by simp
qed

text \<open>What the decisions change besides the proposals and the waiting list.\<close>

lemma recordGrant_Inr:
  "recordGrantOfApproved env p st = Inr st' \<Longrightarrow> st' = st\<lparr>gv_grants := gv_grants st', gv_world := gv_world st'\<rparr>"
  by (auto simp: recordGrantOfApproved_def Let_def split: proposal_payload.splits sum.splits prod.splits)

lemma recordLaw_Inr:
  "recordLawOfApproved env p st = Inr (enacted, st') \<Longrightarrow> st' = st\<lparr>gv_laws := gv_laws st', gv_world := gv_world st'\<rparr>"
  by (auto simp: recordLawOfApproved_def Let_def split: proposal_payload.splits option.splits prod.splits)

lemma after_approval_Inr:
  assumes "after_approval env p st = Inr (enacted, st')"
  obtains granted recorded where "recordGrantOfApproved env p st = Inr granted" "recordLawOfApproved env p granted = Inr (enacted, recorded)"
    "st' = evictOldestAudit (pp_managerId p) recorded" "gv_proposals recorded = gv_proposals st" "gv_waiting recorded = gv_waiting st"
proof -
  obtain granted recorded where g: "recordGrantOfApproved env p st = Inr granted" and r: "recordLawOfApproved env p granted = Inr (enacted, recorded)"
    and e: "st' = evictOldestAudit (pp_managerId p) recorded"
    using assms by (auto simp: after_approval_def split: sum.splits prod.splits)
  have "gv_proposals recorded = gv_proposals st" "gv_waiting recorded = gv_waiting st"
    by (subst recordLaw_Inr [OF r], simp, subst recordGrant_Inr [OF g], simp)+
  with g r e that show ?thesis by blast
qed

lemma decided_state:
  assumes "(case v of Deny \<Rightarrow> after_denial p st1 | Approve \<Rightarrow> after_approval env p st1) = Inr (enacted, st2)"
  defines "s \<equiv> case v of Approve \<Rightarrow> Approved | Deny \<Rightarrow> Denied"
  shows "gv_proposals st2 = snd (evictOldestBeyond (pp_managerId p) (fst (history_class s)) (snd (history_class s)) (gv_proposals st1)) \<and> gv_waiting st2 = gv_waiting st1"
proof (cases v)
  case Deny
  then show ?thesis using assms(1)
    by (auto simp: s_def after_denial_def evictOldestDenials_def history_class_def MAX_DENIED_HISTORY_PER_MANAGER_def evict_def Let_def split: prod.splits)
next
  case Approve
  then have "after_approval env p st1 = Inr (enacted, st2)" using assms(1) by simp
  from after_approval_Inr [OF this] show ?thesis using Approve
    by (metis evictOldestAudit_def evict_state(1,2) MAX_AUDIT_HISTORY_PER_MANAGER_def history_class_def fst_conv snd_conv s_def verdict.simps(3) proposal_status.distinct(7))
qed

lemma decide_Inr:
  assumes "decide env i v reason st = Inr (p, st')"
  obtains denialReason st1 enacted st2 released queued st3 given where
    "answer env i (case v of Approve \<Rightarrow> Approved | Deny \<Rightarrow> Denied) denialReason st = Inr st1" "find_proposal i (gv_proposals st1) = Some p"
    "(case v of Deny \<Rightarrow> after_denial p st1 | Approve \<Rightarrow> after_approval env p st1) = Inr (enacted, st2)"
    "releaseWaitingIntoFreePlaces (pp_managerId p) st2 = Inr ((released, queued), st3)"
    "st' = emit [DecisionNotified p given (map pp_id released)] (announceQueueChange (pp_managerId p) released queued (released \<noteq> [])
        (emit (Resolved p # (case enacted of None \<Rightarrow> [] | Some l \<Rightarrow> [LawCreated l])) st3))"
proof -
  obtain denialReason given enacted released queued st3 where r: "recordDecision env i v denialReason st = Inr ((p, enacted, released, queued), st3)"
    and e: "st' = emit [DecisionNotified p given (map pp_id released)] (announceQueueChange (pp_managerId p) released queued (released \<noteq> [])
        (emit (Resolved p # (case enacted of None \<Rightarrow> [] | Some l \<Rightarrow> [LawCreated l])) st3))"
    using assms unfolding decide_def by (force split: sum.splits prod.splits)
  from r obtain st1 st2 where "answer env i (case v of Approve \<Rightarrow> Approved | Deny \<Rightarrow> Denied) denialReason st = Inr st1"
    "find_proposal i (gv_proposals st1) = Some p" "(case v of Deny \<Rightarrow> after_denial p st1 | Approve \<Rightarrow> after_approval env p st1) = Inr (enacted, st2)"
    "releaseWaitingIntoFreePlaces (pp_managerId p) st2 = Inr ((released, queued), st3)"
    unfolding recordDecision_def by (force split: sum.splits prod.splits option.splits)
  with e that show ?thesis by blast
qed

lemma decide_ok:
  assumes ok: "governance_ok st" and run: "decide env i v reason st = Inr (p, st')"
  shows "governance_ok st'"
proof (rule decide_Inr [OF run])
  fix denialReason st1 enacted st2 released queued st3 given
  assume ans: "answer env i (case v of Approve \<Rightarrow> Approved | Deny \<Rightarrow> Denied) denialReason st = Inr st1"
    and p: "find_proposal i (gv_proposals st1) = Some p"
    and after: "(case v of Deny \<Rightarrow> after_denial p st1 | Approve \<Rightarrow> after_approval env p st1) = Inr (enacted, st2)"
    and rel: "releaseWaitingIntoFreePlaces (pp_managerId p) st2 = Inr ((released, queued), st3)"
    and st': "st' = emit [DecisionNotified p given (map pp_id released)] (announceQueueChange (pp_managerId p) released queued (released \<noteq> [])
        (emit (Resolved p # (case enacted of None \<Rightarrow> [] | Some l \<Rightarrow> [LawCreated l])) st3))"
  note d = decided_state [OF after]
  have "governance_ok st3" by (rule settled_state_ok [OF ok ans _ disjI2 [OF p] refl conjunct1 [OF d] conjunct2 [OF d] rel]) (simp split: verdict.split)
  then show ?thesis by (simp add: st')
qed

section \<open>Runs of the service\<close>

text \<open>The calls of the managers and of the human, each in the environment it finds; a call that fails changes nothing, and
  the world the clock and the ids read may move between two calls.\<close>

datatype 'w governance_op =
    ProposeLaw string string string
  | ProposePermission string string string string string string
  | RequestResourceAccess string string string string string string
  | WithdrawProposal string string
  | Decide string verdict "string option"
  | EditLaw string string nat
  | WithdrawLaw string nat
  | WorldMoves 'w

definition governance_call :: "'w governance_env \<Rightarrow> 'w governance_op \<Rightarrow> 'w governance \<Rightarrow> governance_error + 'w governance" where
  "governance_call env op st =
     (case op of
        ProposeLaw m body incident \<Rightarrow> map_sum id snd (proposeLaw env m body incident st)
      | ProposePermission m action scope condition exclusions incident \<Rightarrow> map_sum id snd (proposePermission env m action scope condition exclusions incident st)
      | RequestResourceAccess m ty i ac r incident \<Rightarrow> map_sum id snd (requestResourceAccess env m ty i ac r incident st)
      | WithdrawProposal m i \<Rightarrow> withdraw env m i st
      | Decide i v reason \<Rightarrow> map_sum id snd (decide env i v reason st)
      | EditLaw i body expected \<Rightarrow> map_sum id snd (editLaw env i body expected st)
      | WithdrawLaw i expected \<Rightarrow> map_sum id snd (withdrawLaw env i expected st)
      | WorldMoves w \<Rightarrow> Inr (st\<lparr>gv_world := w\<rparr>))"

definition governance_step :: "'w governance_env \<times> 'w governance_op \<Rightarrow> 'w governance \<Rightarrow> 'w governance" where
  "governance_step call st = (case governance_call (fst call) (snd call) st of Inl _ \<Rightarrow> st | Inr st' \<Rightarrow> st')"

definition governance_run :: "('w governance_env \<times> 'w governance_op) list \<Rightarrow> 'w governance \<Rightarrow> 'w governance" where
  "governance_run calls st = fold governance_step calls st"

definition governance_start :: "'w \<Rightarrow> 'w governance" where
  "governance_start w = \<lparr>gv_proposals = [], gv_waiting = [], gv_grants = [], gv_laws = [], gv_evicted = (\<lambda>_. 0), gv_events = [], gv_world = w\<rparr>"

lemma governance_run_snoc: "governance_run (calls @ [c]) st = governance_step c (governance_run calls st)"
  by (simp add: governance_run_def)

lemma map_sum_Inr_iff: "map_sum f g x = Inr y \<longleftrightarrow> (\<exists>z. x = Inr z \<and> y = g z)"
  by (cases x) auto

text \<open>The three ways to file a proposal end in the same queue.\<close>

lemma propose_enqueues:
  "proposeLaw env m body incident st = Inr x \<Longrightarrow> \<exists>inc payload. enqueueUnlessDuplicate env m inc payload st = Inr x"
  "proposePermission env m action scope condition exclusions incident st = Inr x \<Longrightarrow> \<exists>inc payload. enqueueUnlessDuplicate env m inc payload st = Inr x"
  "requestResourceAccess env m ty i ac r incident st = Inr x \<Longrightarrow> \<exists>inc payload. enqueueUnlessDuplicate env m inc payload st = Inr x"
  by (auto simp: proposeLaw_def proposePermission_def requestResourceAccess_def split: if_splits sum.splits)

lemma changeLaw_Inr: "changeLaw i change st = Inr (l, st') \<Longrightarrow> fst change \<and> st' = st\<lparr>gv_laws := snd change\<rparr> \<and> find_law i (snd change) = Some l"
  by (auto simp: changeLaw_def split: option.splits if_splits)

lemma editLaw_Inr:
  assumes "editLaw env i body r st = Inr (l, st')"
  obtains newText where "storedLawText (gn_text env) body = Inr newText"
    "fst (replaceTextIfRevision i r newText HUMAN_ACTOR (gv_now env st) (gv_laws st))"
    "find_law i (snd (replaceTextIfRevision i r newText HUMAN_ACTOR (gv_now env st) (gv_laws st))) = Some l"
    "st' = emit [LawUpdated l] (st\<lparr>gv_laws := snd (replaceTextIfRevision i r newText HUMAN_ACTOR (gv_now env st) (gv_laws st))\<rparr>)"
  using assms by (auto simp: editLaw_def split: sum.splits dest!: changeLaw_Inr)

lemma withdrawLaw_Inr:
  assumes "withdrawLaw env i r st = Inr (l, st')"
  shows "st' = emit [LawGone l] (st\<lparr>gv_laws := snd (withdrawIfRevision i r HUMAN_ACTOR (gv_now env st) (gv_laws st))\<rparr>)"
  using assms by (auto simp: withdrawLaw_def split: sum.splits dest!: changeLaw_Inr)

lemma governance_step_ok:
  assumes ok: "governance_ok st"
  shows "governance_ok (governance_step call st)"
proof (cases "governance_call (fst call) (snd call) st")
  case (Inr st')
  have "governance_ok st'"
  proof (cases "snd call")
    case (EditLaw i body r)
    then show ?thesis using Inr ok by (auto simp: governance_call_def map_sum_Inr_iff elim!: editLaw_Inr)
  next
    case (WithdrawLaw i r)
    then show ?thesis using Inr ok by (auto simp: governance_call_def map_sum_Inr_iff dest!: withdrawLaw_Inr)
  qed (use Inr ok in \<open>auto simp: governance_call_def map_sum_Inr_iff dest!: propose_enqueues intro: enqueue_ok withdraw_ok decide_ok\<close>)
  then show ?thesis using Inr by (simp add: governance_step_def)
qed (use ok in \<open>simp add: governance_step_def\<close>)

lemma governance_start_ok: "governance_ok (governance_start w)"
  by (simp add: governance_ok_def governance_start_def ids_ok_def places_defs history_ok_def)

interpretation governance_calls: kept_by_steps governance_ok governance_step
  by unfold_locales (rule governance_step_ok)

lemma governance_run_ok: "governance_ok st \<Longrightarrow> governance_ok (governance_run calls st)"
  unfolding governance_run_def by (rule governance_calls.run_kept)

section \<open>Where laws and grants come from\<close>

definition approved_proposal :: "('w governance_env \<times> 'w governance_op) list \<Rightarrow> 'w governance \<Rightarrow> proposal \<Rightarrow> bool" where
  "approved_proposal calls st p \<longleftrightarrow>
     (\<exists>env reason. (env, Decide (pp_id p) Approve reason) \<in> set calls) \<and> Resolved p \<in> set (gv_events st) \<and> pp_status p = Approved"

definition law_grounds :: "('w governance_env \<times> 'w governance_op) list \<Rightarrow> 'w governance \<Rightarrow> string \<times> string \<times> string \<Rightarrow> bool" where
  "law_grounds calls st v \<longleftrightarrow>
     (case v of (i, m, body) \<Rightarrow> \<exists>p proposed. approved_proposal calls st p \<and> pp_managerId p = m \<and> pp_payload p = LawPayload proposed
        \<and> (body = proposed \<or> (\<exists>env s r. (env, EditLaw i s r) \<in> set calls \<and> storedLawText (gn_text env) s = Inr body)))"

definition grant_grounds :: "('w governance_env \<times> 'w governance_op) list \<Rightarrow> 'w governance \<Rightarrow> string \<times> proposal_payload \<Rightarrow> bool" where
  "grant_grounds calls st v \<longleftrightarrow> (\<exists>p. approved_proposal calls st p \<and> pp_managerId p = fst v \<and> pp_payload p = snd v)"

definition law_content :: "law \<Rightarrow> string \<times> string \<times> string" where
  "law_content l = (lw_id l, lw_managerId l, lw_text l)"

definition grant_content :: "resource_grant \<Rightarrow> string \<times> proposal_payload" where
  "grant_content g = (rg_managerId g, ResourceAccessPayload (rg_resourceType g) (rg_resourceId g) (rg_access g) (rg_role g))"

definition grounded :: "('w governance_env \<times> 'w governance_op) list \<Rightarrow> 'w governance \<Rightarrow> bool" where
  "grounded calls st \<longleftrightarrow> (\<forall>v \<in> law_content ` set (gv_laws st). law_grounds calls st v) \<and> (\<forall>v \<in> grant_content ` set (gv_grants st). grant_grounds calls st v)"

lemma grounds_mono:
  assumes "set calls \<subseteq> set calls'" "set (gv_events st) \<subseteq> set (gv_events st')"
  shows "law_grounds calls st v \<Longrightarrow> law_grounds calls' st' v" "grant_grounds calls st u \<Longrightarrow> grant_grounds calls' st' u"
proof -
  have a: "approved_proposal calls st p \<Longrightarrow> approved_proposal calls' st' p" for p using assms by (auto simp: approved_proposal_def)
  show "law_grounds calls st v \<Longrightarrow> law_grounds calls' st' v" using a assms(1) by (cases v) (force simp: law_grounds_def)
  show "grant_grounds calls st u \<Longrightarrow> grant_grounds calls' st' u" using a by (auto simp: grant_grounds_def)
qed

text \<open>A step that adds neither a law nor a grant.\<close>

definition adds_nothing :: "'w governance \<Rightarrow> 'w governance \<Rightarrow> bool" where
  "adds_nothing st st' \<longleftrightarrow> set (gv_events st) \<subseteq> set (gv_events st') \<and> law_content ` set (gv_laws st') \<subseteq> law_content ` set (gv_laws st)
     \<and> grant_content ` set (gv_grants st') \<subseteq> grant_content ` set (gv_grants st)"

lemma adds_nothing_grounded: "grounded calls st \<Longrightarrow> set calls \<subseteq> set calls' \<Longrightarrow> adds_nothing st st' \<Longrightarrow> grounded calls' st'"
  unfolding grounded_def adds_nothing_def by (meson grounds_mono subsetD)

lemma adds_nothing_trans: "adds_nothing a b \<Longrightarrow> adds_nothing b c \<Longrightarrow> adds_nothing a c"
  unfolding adds_nothing_def by (meson order_trans)

lemma evict_contents:
  "map law_content (gv_laws (snd (evict m S k st))) = map law_content (gv_laws st)"
  "map grant_content (gv_grants (snd (evict m S k st))) = map grant_content (gv_grants st)"
  by (simp_all add: evict_def Let_def split_beta law_content_def grant_content_def)

lemma evict_adds_nothing: "adds_nothing st (snd (evict m S k st))"
  using evict_contents [of m S k st, THEN arg_cong [of _ _ set]] by (simp add: adds_nothing_def evict_state)

lemma enqueue_adds_nothing: "enqueueUnlessDuplicate env m incident payload st = Inr (r, st') \<Longrightarrow> adds_nothing st st'"
  by (auto simp: adds_nothing_def enqueueUnlessDuplicate_def Let_def emit_def split: option.splits prod.splits if_splits)

lemma emit_adds_nothing: "adds_nothing st (emit es st)" "adds_nothing st (announceQueueChange m released n b st)"
  by (simp_all add: adds_nothing_def emit_def announceQueueChange_def)

lemma answer_adds_nothing: "answer env i s reason st = Inr st1 \<Longrightarrow> adds_nothing st st1"
  by (subst conjunct2 [OF answer_Inr], assumption) (simp add: adds_nothing_def)

lemma release_adds_nothing: "releaseWaitingIntoFreePlaces m st = Inr (r, st') \<Longrightarrow> adds_nothing st st'"
  by (subst conjunct2 [OF releaseWaiting_Inr], assumption) (simp add: adds_nothing_def)

lemma withdraw_adds_nothing:
  assumes run: "withdraw env m i st = Inr st'"
  shows "adds_nothing st st'"
proof (cases "fst (deleteOf m i (gv_waiting st))")
  case True
  then show ?thesis using run by (auto simp: withdraw_def Let_def split_beta announceQueueChange_def emit_def adds_nothing_def split: if_splits)
next
  case False
  then obtain st1 r st3 es n b where "answer env i Withdrawn None st = Inr st1" "releaseWaitingIntoFreePlaces m (evictOldestAudit m st1) = Inr (r, st3)"
    "st' = announceQueueChange m (fst r) n b (emit es st3)"
    using run by (auto simp: withdraw_def Let_def split: prod.splits if_splits option.splits sum.splits)
  then show ?thesis
    by (metis adds_nothing_trans answer_adds_nothing emit_adds_nothing evictOldestAudit_def evict_adds_nothing release_adds_nothing)
qed

text \<open>A decision adds at most the law and the grant of the proposal it approves.\<close>

lemma denial_adds_nothing: "after_denial p st = Inr (enacted, st') \<Longrightarrow> adds_nothing st st'"
proof -
  assume "after_denial p st = Inr (enacted, st')"
  then have "adds_nothing st st' = adds_nothing st (snd (evict (pp_managerId p) {Denied} MAX_DENIED_HISTORY_PER_MANAGER st))"
    by (auto simp: after_denial_def evictOldestDenials_def Let_def split_beta adds_nothing_def)
  then show ?thesis using evict_adds_nothing by blast
qed

lemma upsertGrant_contents: "grant_content ` set (upsertGrant g gs) \<subseteq> insert (grant_content g) (grant_content ` set gs)"
  by (auto simp: upsertGrant_def Let_def grant_content_def)

definition adds_of :: "proposal \<Rightarrow> 'w governance \<Rightarrow> 'w governance \<Rightarrow> bool" where
  "adds_of p st st' \<longleftrightarrow> set (gv_events st) \<subseteq> set (gv_events st')
     \<and> (\<forall>l \<in> set (gv_laws st'). law_content l \<in> law_content ` set (gv_laws st) \<or> lw_managerId l = pp_managerId p \<and> pp_payload p = LawPayload (lw_text l))
     \<and> (\<forall>g \<in> set (gv_grants st'). grant_content g \<in> grant_content ` set (gv_grants st) \<or> grant_content g = (pp_managerId p, pp_payload p))"

lemma adds_nothing_of: "adds_nothing st st' \<Longrightarrow> adds_of p st st'"
  by (auto simp: adds_nothing_def adds_of_def)

lemma adds_of_then: "adds_of p a b \<Longrightarrow> adds_nothing b c \<Longrightarrow> adds_of p a c"
  unfolding adds_of_def adds_nothing_def law_content_def by (fastforce simp: image_subset_iff image_iff)

lemma approval_adds:
  assumes "after_approval env p st = Inr (enacted, st')"
  shows "adds_of p st st'"
proof (rule after_approval_Inr [OF assms])
  fix granted recorded
  assume g: "recordGrantOfApproved env p st = Inr granted" and r: "recordLawOfApproved env p granted = Inr (enacted, recorded)"
    and st': "st' = evictOldestAudit (pp_managerId p) recorded"
  have grants: "\<forall>g \<in> set (gv_grants granted). grant_content g \<in> grant_content ` set (gv_grants st) \<or> grant_content g = (pp_managerId p, pp_payload p)"
  proof (cases "pp_payload p")
    case (ResourceAccessPayload ty i ac r)
    then obtain new where new: "gv_grants granted = upsertGrant new (gv_grants st)" "grant_content new = (pp_managerId p, pp_payload p)"
      using g by (auto simp: recordGrantOfApproved_def grant_content_def Let_def split: sum.splits prod.splits)
    then show ?thesis using upsertGrant_contents [of new "gv_grants st"] by (auto simp: image_subset_iff)
  qed (use g in \<open>auto simp: recordGrantOfApproved_def\<close>)
  have laws: "\<forall>l \<in> set (gv_laws recorded). l \<in> set (gv_laws granted) \<or> lw_managerId l = pp_managerId p \<and> pp_payload p = LawPayload (lw_text l)"
    using r by (auto simp: recordLawOfApproved_def Let_def insert_law_def law_of_approved_def split: proposal_payload.splits option.splits prod.splits if_splits)
  have same: "gv_laws granted = gv_laws st" "gv_events granted = gv_events st" by (subst recordGrant_Inr [OF g], simp)+
  have same': "gv_grants recorded = gv_grants granted" "gv_events recorded = gv_events granted" by (subst recordLaw_Inr [OF r], simp)+
  have "adds_of p st recorded" using grants laws same same' by (auto simp: adds_of_def)
  then show ?thesis using st' adds_of_then evict_adds_nothing by (metis evictOldestAudit_def)
qed

lemma answered_status:
  assumes "distinct (map pp_id ps)" "answerIfPending i s reason moment ps = (True, ps')" "p \<in> set ps'" "pp_id p = i"
  shows "pp_status p = s"
proof (rule answered_split [OF assms(1,2)])
  fix a q b
  assume "ps = a @ q # b" "pp_id q = i" "ps' = a @ q\<lparr>pp_status := s, pp_denialReason := reason, pp_decidedAt := Some moment\<rparr> # b"
  then show ?thesis using assms by (auto simp: image_iff)
qed

lemma decide_adds:
  assumes run: "decide env i v reason st = Inr (p, st')"
  shows "Resolved p \<in> set (gv_events st')" "v = Deny \<Longrightarrow> adds_nothing st st'" "adds_of p st st'"
    and "governance_ok st \<Longrightarrow> v = Approve \<Longrightarrow> pp_id p = i \<and> pp_status p = Approved"
proof -
  obtain denialReason st1 enacted st2 released queued st3 given where
    a: "answer env i (case v of Approve \<Rightarrow> Approved | Deny \<Rightarrow> Denied) denialReason st = Inr st1" "find_proposal i (gv_proposals st1) = Some p"
    "(case v of Deny \<Rightarrow> after_denial p st1 | Approve \<Rightarrow> after_approval env p st1) = Inr (enacted, st2)"
    "releaseWaitingIntoFreePlaces (pp_managerId p) st2 = Inr ((released, queued), st3)"
    "st' = emit [DecisionNotified p given (map pp_id released)] (announceQueueChange (pp_managerId p) released queued (released \<noteq> [])
        (emit (Resolved p # (case enacted of None \<Rightarrow> [] | Some l \<Rightarrow> [LawCreated l])) st3))"
    by (rule decide_Inr [OF run])
  show "Resolved p \<in> set (gv_events st')" by (simp add: a(5) emit_def announceQueueChange_def)
  have start: "adds_nothing st st1" by (rule answer_adds_nothing [OF a(1)])
  have last: "adds_nothing st2 st'" using release_adds_nothing [OF a(4)] emit_adds_nothing a(5) adds_nothing_trans by metis
  show denied: "adds_nothing st st'" if "v = Deny"
    using a(3) that start last denial_adds_nothing adds_nothing_trans by (metis verdict.simps(4))
  show "adds_of p st st'"
  proof (cases v)
    case Approve
    then have "adds_of p st1 st2" using a(3) approval_adds by (metis verdict.simps(3))
    then have "adds_of p st1 st'" using last by (rule adds_of_then)
    then show ?thesis using conjunct2 [OF answer_Inr [OF a(1)]] by (simp add: adds_of_def) (metis governance.select_convs(3,4,6) governance.surjective governance.update_convs(1))
  qed (use denied adds_nothing_of in blast)
  show "pp_id p = i \<and> pp_status p = Approved" if "governance_ok st" "v = Approve"
  proof -
    have d: "distinct (map pp_id (gv_proposals st))" using that(1) by (simp add: governance_ok_def ids_ok_def)
    have "pp_id p = i" "p \<in> set (gv_proposals st1)" using find_SomeD [OF a(2) [unfolded find_proposal_def]] by auto
    then show ?thesis using answered_status [OF d conjunct1 [OF answer_Inr [OF a(1)]]] by (simp add: that(2))
  qed
qed

text \<open>Nothing is in force that was not approved.\<close>

lemma grounded_adds_of:
  assumes "grounded calls st" "adds_of p st st'" "approved_proposal calls' st' p" "set calls \<subseteq> set calls'"
  shows "grounded calls' st'"
proof -
  note mono = grounds_mono [OF assms(4), of st st']
  have es: "set (gv_events st) \<subseteq> set (gv_events st')" using assms(2) by (simp add: adds_of_def)
  have "law_grounds calls' st' (law_content l)" if "l \<in> set (gv_laws st')" for l
  proof (cases "law_content l \<in> law_content ` set (gv_laws st)")
    case True
    then show ?thesis using assms(1) by (intro mono(1) [OF es]) (auto simp: grounded_def)
  next
    case False
    then have "lw_managerId l = pp_managerId p \<and> pp_payload p = LawPayload (lw_text l)" using assms(2) that by (auto simp: adds_of_def)
    then show ?thesis using assms(3) by (auto simp: law_grounds_def law_content_def)
  qed
  moreover have "grant_grounds calls' st' (grant_content g)" if "g \<in> set (gv_grants st')" for g
  proof (cases "grant_content g \<in> grant_content ` set (gv_grants st)")
    case True
    then show ?thesis using assms(1) by (intro mono(2) [OF es]) (auto simp: grounded_def)
  next
    case False
    then have "grant_content g = (pp_managerId p, pp_payload p)" using assms(2) that by (auto simp: adds_of_def)
    then show ?thesis using assms(3) by (auto simp: grant_grounds_def)
  qed
  ultimately show ?thesis by (auto simp: grounded_def)
qed

lemma law_grounds_edit:
  "law_grounds calls st (i, m, b) \<Longrightarrow> (env, EditLaw i s r) \<in> set calls \<Longrightarrow> storedLawText (gn_text env) s = Inr b' \<Longrightarrow> law_grounds calls st (i, m, b')"
  unfolding law_grounds_def by blast

lemma edit_grounded:
  assumes g: "grounded calls st" and run: "editLaw env i body r st = Inr (l, st')"
  shows "grounded (calls @ [(env, EditLaw i body r)]) st'"
proof (rule editLaw_Inr [OF run])
  fix newText
  let ?ls = "snd (replaceTextIfRevision i r newText HUMAN_ACTOR (gv_now env st) (gv_laws st))"
  assume t: "storedLawText (gn_text env) body = Inr newText" and st': "st' = emit [LawUpdated l] (st\<lparr>gv_laws := ?ls\<rparr>)"
  have "set calls \<subseteq> set (calls @ [(env, EditLaw i body r)])" "set (gv_events st) \<subseteq> set (gv_events st')" by (auto simp: st' emit_def)
  note mono = grounds_mono [OF this]
  have "law_grounds (calls @ [(env, EditLaw i body r)]) st' (law_content k)" if "k \<in> set ?ls" for k
  proof -
    from that obtain k0 where k0: "k0 \<in> set (gv_laws st)" "k = k0 \<or> lw_id k0 = i \<and> law_content k = (i, lw_managerId k0, newText)"
      by (auto simp: replaceTextIfRevision_def update_laws_def law_content_def split: if_splits)
    have "law_grounds (calls @ [(env, EditLaw i body r)]) st' (law_content k0)" using g k0(1) by (intro mono(1)) (auto simp: grounded_def)
    then show ?thesis using k0(2) law_grounds_edit [OF _ _ t, of "calls @ [(env, EditLaw i body r)]" st' i _ _ r] by (auto simp: law_content_def)
  qed
  then show ?thesis using g mono(2) by (auto simp: grounded_def st' emit_def)
qed

lemma grounded_step:
  assumes ok: "governance_ok st" and g: "grounded calls st"
  shows "grounded (calls @ [call]) (governance_step call st)"
proof (cases "governance_call (fst call) (snd call) st")
  case (Inl e)
  then show ?thesis using g by (auto intro: adds_nothing_grounded simp: governance_step_def adds_nothing_def)
next
  case (Inr st')
  obtain env op where call: "call = (env, op)" by (cases call)
  have unaided: "grounded (calls @ [call]) st'" if "adds_nothing st st'"
    by (rule adds_nothing_grounded [OF g _ that]) auto
  have "grounded (calls @ [call]) st'"
  proof (cases op)
    case (Decide i v reason)
    then obtain p where p: "decide env i v reason st = Inr (p, st')" using Inr call by (auto simp: governance_call_def map_sum_Inr_iff)
    note d = decide_adds [OF p]
    show ?thesis
    proof (cases v)
      case Approve
      have "approved_proposal (calls @ [call]) st' p" using d(1) d(4) [OF ok Approve] by (auto simp: approved_proposal_def call Decide Approve)
      then show ?thesis by (rule grounded_adds_of [OF g d(3)]) auto
    next
      case Deny
      show ?thesis by (rule unaided [OF d(2) [OF Deny]])
    qed
  next
    case (EditLaw i body r)
    then show ?thesis using Inr call g by (auto simp: governance_call_def map_sum_Inr_iff intro: edit_grounded)
  next
    case (WithdrawLaw i r)
    then obtain l where "st' = emit [LawGone l] (st\<lparr>gv_laws := snd (withdrawIfRevision i r HUMAN_ACTOR (gv_now env st) (gv_laws st))\<rparr>)"
      using Inr call withdrawLaw_Inr by (fastforce simp: governance_call_def map_sum_Inr_iff)
    then have "adds_nothing st st'" by (auto simp: adds_nothing_def emit_def withdrawIfRevision_def update_laws_def law_content_def)
    from unaided [OF this] show ?thesis .
  next
    case (WorldMoves w)
    then show ?thesis using Inr call unaided by (auto simp: governance_call_def adds_nothing_def)
  qed (use Inr call unaided in \<open>auto simp: governance_call_def map_sum_Inr_iff dest!: propose_enqueues dest: enqueue_adds_nothing withdraw_adds_nothing\<close>)
  then show ?thesis using Inr by (simp add: governance_step_def)
qed

lemma grounded_run: "grounded calls (governance_run calls (governance_start w))"
proof (induction calls rule: rev_induct)
  case (snoc c calls)
  then show ?case using grounded_step [OF governance_run_ok [OF governance_start_ok] snoc] by (simp add: governance_run_snoc)
qed (simp add: governance_run_def governance_start_def grounded_def)

section \<open>The life of a law\<close>

definition law_state :: "law \<Rightarrow> law_status \<times> nat \<times> string \<times> string" where
  "law_state l = (lw_status l, lw_revision l, lw_text l, lw_managerId l)"

definition law_entry :: "'w governance \<Rightarrow> string \<Rightarrow> (law_status \<times> nat \<times> string \<times> string) option" where
  "law_entry st i = map_option law_state (find_law i (gv_laws st))"

definition law_rank :: "law_status \<times> nat \<times> string \<times> string \<Rightarrow> nat" where
  "law_rank e = (case fst e of Active \<Rightarrow> 0 | LawWithdrawn \<Rightarrow> 1)"

definition law_revision :: "law_status \<times> nat \<times> string \<times> string \<Rightarrow> nat" where
  "law_revision e = fst (snd e)"

text \<open>The laws of a later table: each law as it was, or an active one at its next revision.\<close>

definition laws_follow :: "law list \<Rightarrow> law list \<Rightarrow> bool" where
  "laws_follow ls ls' \<longleftrightarrow>
     (distinct (map lw_id ls) \<longrightarrow> distinct (map lw_id ls')) \<and>
     (\<forall>i l. find_law i ls = Some l \<longrightarrow> (\<exists>l'. find_law i ls' = Some l' \<and> (law_state l' = law_state l \<or> lw_status l = Active \<and> lw_revision l' = Suc (lw_revision l))))"

definition laws_kept :: "law list \<Rightarrow> law list \<Rightarrow> bool" where
  "laws_kept ls ls' \<longleftrightarrow>
     (distinct (map lw_id ls) \<longrightarrow> distinct (map lw_id ls')) \<and>
     (\<forall>i l. find_law i ls = Some l \<longrightarrow> (\<exists>l'. find_law i ls' = Some l' \<and> law_state l' = law_state l))"

lemma laws_kept_follow: "laws_kept ls ls' \<Longrightarrow> laws_follow ls ls'"
  unfolding laws_kept_def laws_follow_def by blast

lemma laws_kept_refl [simp]: "laws_kept ls ls"
  by (simp add: laws_kept_def)

lemma laws_kept_trans: "laws_kept a b \<Longrightarrow> laws_kept b c \<Longrightarrow> laws_kept a c"
  unfolding laws_kept_def by metis

lemma find_law_map: "(\<And>l. lw_id (f l) = lw_id l) \<Longrightarrow> find_law i (map f ls) = map_option f (find_law i ls)"
  by (induction ls) (auto simp: find_law_def)

lemma laws_kept_map: "(\<And>l. lw_id (f l) = lw_id l \<and> law_state (f l) = law_state l) \<Longrightarrow> laws_kept ls (map f ls)"
proof -
  assume f: "\<And>l. lw_id (f l) = lw_id l \<and> law_state (f l) = law_state l"
  then have "map lw_id (map f ls) = map lw_id ls" by simp
  then show ?thesis using f by (simp add: laws_kept_def find_law_map del: map_map)
qed

lemma laws_kept_insert: "insert_law l ls = Some ls' \<Longrightarrow> laws_kept ls ls'"
proof -
  assume ins: "insert_law l ls = Some ls'"
  then have ls': "ls' = ls @ [l]" "lw_id l \<notin> set (map lw_id ls)" by (auto simp: insert_law_def list_ex_iff split: if_splits)
  have "find_law i (ls @ [l]) = Some k" if "find_law i ls = Some k" for i k
    using that by (induction ls) (auto simp: find_law_def)
  then show ?thesis using ls' by (auto simp: laws_kept_def)
qed

lemma laws_follow_update:
  assumes "\<And>l. P l \<Longrightarrow> lw_status l = Active" "\<And>l. lw_id (f l) = lw_id l" "\<And>l. lw_revision (f l) = Suc (lw_revision l)"
  shows "laws_follow ls (snd (update_laws P f ls))"
proof -
  have "find_law i (map (\<lambda>l. if P l then f l else l) ls) = map_option (\<lambda>l. if P l then f l else l) (find_law i ls)" for i
    by (rule find_law_map) (simp add: assms(2))
  moreover have "map lw_id (map (\<lambda>l. if P l then f l else l) ls) = map lw_id ls" by (simp add: assms(2))
  ultimately show ?thesis using assms by (simp add: laws_follow_def update_laws_def del: map_map)
qed

lemma revision_follows:
  "laws_follow ls (snd (replaceTextIfRevision i r body actor moment ls))" "laws_follow ls (snd (withdrawIfRevision i r actor moment ls))"
  unfolding replaceTextIfRevision_def withdrawIfRevision_def by (rule laws_follow_update; simp)+

lemma evict_laws: "laws_kept (gv_laws st) (gv_laws (snd (evict m S k st)))"
  by (simp add: evict_def Let_def split_beta law_state_def laws_kept_map)

lemma laws_unchanged:
  "enqueueUnlessDuplicate env m incident payload st = Inr (r, st') \<Longrightarrow> gv_laws st' = gv_laws st"
  "answer env i s reason st = Inr st1 \<Longrightarrow> gv_laws st1 = gv_laws st"
  "releaseWaitingIntoFreePlaces m st = Inr (x, st2) \<Longrightarrow> gv_laws st2 = gv_laws st"
  "recordGrantOfApproved env p st = Inr st3 \<Longrightarrow> gv_laws st3 = gv_laws st"
  "gv_laws (emit es st) = gv_laws st" "gv_laws (announceQueueChange m released n b st) = gv_laws st"
proof -
  show "enqueueUnlessDuplicate env m incident payload st = Inr (r, st') \<Longrightarrow> gv_laws st' = gv_laws st"
    by (auto simp: enqueueUnlessDuplicate_def Let_def emit_def split: option.splits prod.splits if_splits)
  show "answer env i s reason st = Inr st1 \<Longrightarrow> gv_laws st1 = gv_laws st" by (drule answer_Inr) (metis governance.ext_inject governance.surjective governance.update_convs(1))
  show "releaseWaitingIntoFreePlaces m st = Inr (x, st2) \<Longrightarrow> gv_laws st2 = gv_laws st"
    by (auto simp: releaseWaitingIntoFreePlaces_def split: sum.splits prod.splits)
  show "recordGrantOfApproved env p st = Inr st3 \<Longrightarrow> gv_laws st3 = gv_laws st"
    by (auto simp: recordGrantOfApproved_def Let_def split: proposal_payload.splits sum.splits prod.splits)
qed (simp_all add: emit_def announceQueueChange_def)

lemma withdraw_laws:
  assumes run: "withdraw env m i st = Inr st'"
  shows "laws_kept (gv_laws st) (gv_laws st')"
proof (cases "fst (deleteOf m i (gv_waiting st))")
  case True
  then show ?thesis using run by (auto simp: withdraw_def Let_def split_beta announceQueueChange_def emit_def split: if_splits)
next
  case False
  then obtain st1 r st3 where "answer env i Withdrawn None st = Inr st1" "releaseWaitingIntoFreePlaces m (evictOldestAudit m st1) = Inr (r, st3)"
    "gv_laws st' = gv_laws st3"
    using run by (auto simp: withdraw_def Let_def laws_unchanged(5,6) split: prod.splits if_splits option.splits sum.splits)
  then show ?thesis using laws_unchanged(2,3) evict_laws by (metis evictOldestAudit_def)
qed

lemma decide_laws:
  assumes run: "decide env i v reason st = Inr (p, st')"
  shows "laws_kept (gv_laws st) (gv_laws st')"
proof (rule decide_Inr [OF run])
  fix denialReason st1 enacted st2 released queued st3 given
  assume a: "answer env i (case v of Approve \<Rightarrow> Approved | Deny \<Rightarrow> Denied) denialReason st = Inr st1"
    "(case v of Deny \<Rightarrow> after_denial p st1 | Approve \<Rightarrow> after_approval env p st1) = Inr (enacted, st2)"
    "releaseWaitingIntoFreePlaces (pp_managerId p) st2 = Inr ((released, queued), st3)"
    "st' = emit [DecisionNotified p given (map pp_id released)] (announceQueueChange (pp_managerId p) released queued (released \<noteq> [])
        (emit (Resolved p # (case enacted of None \<Rightarrow> [] | Some l \<Rightarrow> [LawCreated l])) st3))"
  have same: "gv_laws st1 = gv_laws st" "gv_laws st' = gv_laws st2" using a laws_unchanged by metis+
  have "laws_kept (gv_laws st1) (gv_laws st2)"
  proof (cases v)
    case Deny
    then have "gv_laws st2 = gv_laws (snd (evict (pp_managerId p) {Denied} MAX_DENIED_HISTORY_PER_MANAGER st1))"
      using a(2) by (auto simp: after_denial_def evictOldestDenials_def Let_def split_beta)
    then show ?thesis by (simp add: evict_laws)
  next
    case Approve
    then have "after_approval env p st1 = Inr (enacted, st2)" using a(2) by simp
    from after_approval_Inr [OF this] obtain granted recorded where r: "recordGrantOfApproved env p st1 = Inr granted"
      "recordLawOfApproved env p granted = Inr (enacted, recorded)" "st2 = evictOldestAudit (pp_managerId p) recorded" by metis
    have "laws_kept (gv_laws granted) (gv_laws recorded)" using r(2)
      by (auto simp: recordLawOfApproved_def Let_def laws_kept_insert split: proposal_payload.splits option.splits prod.splits)
    then show ?thesis using r laws_unchanged(4) evict_laws laws_kept_trans by (metis evictOldestAudit_def)
  qed
  then show ?thesis by (simp add: same)
qed

lemma governance_step_laws: "laws_follow (gv_laws st) (gv_laws (governance_step call st))"
proof (cases "governance_call (fst call) (snd call) st")
  case (Inl e)
  then show ?thesis by (simp add: governance_step_def laws_kept_follow)
next
  case (Inr st')
  have "laws_follow (gv_laws st) (gv_laws st')"
  proof (cases "snd call")
    case (EditLaw i body r)
    then obtain l where "editLaw (fst call) i body r st = Inr (l, st')" using Inr by (auto simp: governance_call_def map_sum_Inr_iff)
    then show ?thesis by (rule editLaw_Inr) (simp add: laws_unchanged(5) revision_follows)
  next
    case (WithdrawLaw i r)
    then obtain l where "withdrawLaw (fst call) i r st = Inr (l, st')" using Inr by (auto simp: governance_call_def map_sum_Inr_iff)
    then show ?thesis by (subst withdrawLaw_Inr, assumption) (simp add: laws_unchanged(5) revision_follows)
  qed (use Inr in \<open>auto simp: governance_call_def map_sum_Inr_iff laws_kept_follow dest!: propose_enqueues laws_unchanged(1) withdraw_laws decide_laws\<close>)
  then show ?thesis using Inr by (simp add: governance_step_def)
qed

interpretation law_revisions: advancing law_entry law_revision governance_step
proof
  fix t :: "'a governance" and k e op
  assume "law_entry t k = Some e"
  then show "\<exists>e'. law_entry (governance_step op t) k = Some e' \<and> law_revision e \<le> law_revision e'"
    using governance_step_laws [of t op] unfolding laws_follow_def law_entry_def law_revision_def law_state_def by fastforce
qed

interpretation law_life: one_way law_entry law_rank governance_step 1
proof
  fix t :: "'a governance" and k e op
  assume "law_entry t k = Some e"
  then obtain l l' where l: "find_law k (gv_laws t) = Some l" "e = law_state l" and l': "find_law k (gv_laws (governance_step op t)) = Some l'"
    "law_state l' = law_state l \<or> lw_status l = Active \<and> lw_revision l' = Suc (lw_revision l)"
    using governance_step_laws [of t op] unfolding laws_follow_def law_entry_def by blast
  then show "\<exists>e'. law_entry (governance_step op t) k = Some e' \<and> law_rank e \<le> law_rank e'"
    by (auto simp: law_entry_def law_rank_def law_state_def)
  assume "1 \<le> law_rank e"
  then show "law_entry (governance_step op t) k = Some e"
    using l l' by (auto simp: law_entry_def law_rank_def law_state_def split: law_status.splits)
qed

section \<open>The waiting list\<close>

lemma waiting_after_release:
  assumes "distinct (map wp_id ws)" "waiting_of m ws = w # rest"
  shows "waiting_of m (without_waiting (wp_id w) ws) = rest" and "m' \<noteq> m \<Longrightarrow> waiting_of m' (without_waiting (wp_id w) ws) = waiting_of m' ws"
proof -
  have w: "w \<in> set (waiting_of m ws)" by (simp add: assms(2))
  have d: "distinct (map wp_id (waiting_of m ws))"
    using assms(1) waiting_of_rows [of m ws] by (metis distinct_map_filter mset_eq_imp_distinct_iff mset_map waiting_rows_def)
  have "waiting_of m (without_waiting (wp_id w) ws) = filter (\<lambda>v. wp_id v \<noteq> wp_id w) (waiting_of m ws)"
    by (simp add: waiting_of_def without_waiting_def filter_sort conj_commute)
  also have "\<dots> = rest" using d assms(2) by (simp add: filter_id_conv) (metis imageI)
  finally show "waiting_of m (without_waiting (wp_id w) ws) = rest" .
  assume m': "m' \<noteq> m"
  have "w \<in> set ws" "wp_managerId w = m" using w by (auto simp: waiting_of_def)
  then have "wp_id v \<noteq> wp_id w" if "v \<in> set ws" "wp_managerId v = m'" for v
    using that m' assms(1) by (metis distinct_map inj_onD)
  then have "filter (\<lambda>v. wp_managerId v = m' \<and> wp_id v \<noteq> wp_id w) ws = filter (\<lambda>v. wp_managerId v = m') ws" by (intro filter_cong) auto
  then show "waiting_of m' (without_waiting (wp_id w) ws) = waiting_of m' ws"
    by (simp add: waiting_of_def without_waiting_def conj_commute)
qed

interpretation waiting_list: fifo_mailbox "\<lambda>ws. distinct (map wp_id ws)" waiting_of oldest_waiting "\<lambda>_ w. without_waiting (wp_id w)"
proof
  show "distinct (map wp_id (without_waiting (wp_id w) ws))" if "distinct (map wp_id ws)" for w ws
    using that by (simp add: without_waiting_def distinct_map_filter)
qed (simp_all add: oldest_waiting_def waiting_after_release)

lemma release_loop_drains:
  assumes "distinct (map wp_id ws)" "set (map wp_id ws) \<inter> set (map pp_id ps) = {}"
  shows "release_loop m ps ws =
    (case waiting_list.drain (10 - countPendingOf m ps) m ws of (q, ws') \<Rightarrow> Inr (map wp_id q, ps @ map released_proposal q, ws'))"
  using assms
proof (induction "10 - countPendingOf m ps" arbitrary: ps ws)
  case 0
  then show ?case by (subst release_loop.simps) (simp add: MAX_PENDING_PROPOSALS_PER_MANAGER_def)
next
  case (Suc n)
  show ?case
  proof (cases "oldest_waiting m ws")
    case None
    then show ?thesis using Suc.hyps(2) by (subst release_loop.simps) (simp add: Suc.hyps(2) [symmetric])
  next
    case (Some w)
    let ?ps = "ps @ [released_proposal w]" and ?ws = "without_waiting (wp_id w) ws"
    have w: "w \<in> set ws" "wp_managerId w = m" using oldest_waiting_in [OF Some] by auto
    then have ins: "insert_proposal (released_proposal w) ps = Some ?ps" using Suc.prems(2) by (auto simp: insert_proposal_def released_proposal_def)
    have c: "countPendingOf m ?ps = Suc (countPendingOf m ps)" using w by (simp add: countPendingOf_def released_proposal_def)
    have n: "n = 10 - countPendingOf m ?ps" using Suc.hyps(2) c by simp
    have "distinct (map wp_id ?ws)" using Suc.prems(1) by (simp add: without_waiting_def distinct_map_filter)
    moreover have "set (map wp_id ?ws) \<inter> set (map pp_id ?ps) = {}" using Suc.prems(2) by (auto simp: without_waiting_def released_proposal_def)
    ultimately have "release_loop m ?ps ?ws = (case waiting_list.drain n m ?ws of (q, ws') \<Rightarrow> Inr (map wp_id q, ?ps @ map released_proposal q, ws'))"
      using Suc.hyps(1) [OF n, of ?ws] unfolding n by blast
    moreover have "countPendingOf m ps < MAX_PENDING_PROPOSALS_PER_MANAGER" using Suc.hyps(2) by (simp add: MAX_PENDING_PROPOSALS_PER_MANAGER_def)
    ultimately show ?thesis using Some ins
      by (subst release_loop.simps) (simp add: Suc.hyps(2) [symmetric] split_beta)
  qed
qed

lemma distinct_by_count: "(\<And>x. count (mset xs) x \<le> 1) \<Longrightarrow> distinct xs"
proof (induction xs)
  case (Cons a xs)
  have "count (mset xs) x \<le> 1" for x by (rule le_trans [OF _ Cons.prems [of x]]) simp
  moreover have "count (mset xs) a = 0" using Cons.prems [of a] by simp
  ultimately show ?case using Cons.IH by (simp add: count_eq_zero_iff)
qed simp

lemma laws_distinct_run: "distinct (map lw_id (gv_laws st)) \<Longrightarrow> distinct (map lw_id (gv_laws (governance_run calls st)))"
  unfolding governance_run_def by (induction calls arbitrary: st) (use governance_step_laws in \<open>auto simp: laws_follow_def\<close>)

lemma find_law_unique: "distinct (map lw_id ls) \<Longrightarrow> l \<in> set ls \<Longrightarrow> find_law (lw_id l) ls = Some l"
  by (induction ls) (auto simp: find_law_def image_iff)

lemma edit_moves_on:
  assumes d: "distinct (map lw_id (gv_laws st))" and run: "editLaw env i body r st = Inr (l, st1)"
  shows "law_entry st1 i = Some (law_state l) \<and> lw_revision l = Suc r \<and> distinct (map lw_id (gv_laws st1))"
proof (rule editLaw_Inr [OF run])
  fix newText
  let ?P = "\<lambda>l. lw_id l = i \<and> lw_revision l = r \<and> lw_status l = Active"
  let ?f = "\<lambda>l. l\<lparr>lw_text := newText, lw_revision := lw_revision l + 1, lw_updatedAt := gv_now env st, lw_updatedBy := Some HUMAN_ACTOR\<rparr>"
  let ?ls = "snd (replaceTextIfRevision i r newText HUMAN_ACTOR (gv_now env st) (gv_laws st))"
  assume hit: "fst (replaceTextIfRevision i r newText HUMAN_ACTOR (gv_now env st) (gv_laws st))" and found: "find_law i ?ls = Some l"
    and st1: "st1 = emit [LawUpdated l] (st\<lparr>gv_laws := ?ls\<rparr>)"
  from hit obtain k where k: "k \<in> set (gv_laws st)" "?P k" by (auto simp: replaceTextIfRevision_def update_laws_def list_ex_iff)
  have "?ls = map (\<lambda>l. if ?P l then ?f l else l) (gv_laws st)" by (simp add: replaceTextIfRevision_def update_laws_def)
  then have "find_law i ?ls = map_option (\<lambda>l. if ?P l then ?f l else l) (find_law i (gv_laws st))" by (simp only:, intro find_law_map) simp
  then have "l = ?f k" using found find_law_unique [OF d k(1)] k(2) by simp
  moreover have "distinct (map lw_id ?ls)" using d revision_follows(1) unfolding laws_follow_def by blast
  ultimately show ?thesis using found k(2) by (simp add: law_entry_def st1 emit_def)
qed

lemma stale_revision_refused:
  assumes "distinct (map lw_id (gv_laws st))" "find_law i (gv_laws st) = Some k" "lw_revision k \<noteq> r"
  shows "\<exists>e e'. editLaw env i body r st = Inl e \<and> withdrawLaw env i r st = Inl e'"
proof -
  have "\<not> (lw_id l = i \<and> lw_revision l = r \<and> lw_status l = Active)" if "l \<in> set (gv_laws st)" for l
    using find_law_unique [OF assms(1) that] assms(2,3) by auto
  then have "\<not> fst (replaceTextIfRevision i r b a t (gv_laws st))" "\<not> fst (withdrawIfRevision i r a t (gv_laws st))" for b a t
    by (auto simp: replaceTextIfRevision_def withdrawIfRevision_def update_laws_def list_ex_iff)
  then show ?thesis using assms(2) by (auto simp: editLaw_def withdrawLaw_def changeLaw_def split: sum.splits)
qed

section \<open>Properties\<close>

definition example_genv :: "nat governance_env" where
  "example_genv = \<lparr>gn_text = plain_texts, gn_clock = id, gn_newId = (\<lambda>w. (replicate w CHR ''x'', Suc w)), gn_isManager = (\<lambda>_. True),
     gn_projectIdOf = (\<lambda>_. Some ''p''), gn_storeProjectId = (\<lambda>_. Some ''p''), gn_noteProjectId = (\<lambda>_. None)\<rparr>"

definition example_calls :: "(nat governance_env \<times> nat governance_op) list" where
  "example_calls = map (Pair example_genv)
     [ProposeLaw ''m'' ''be kind'' ''why'', ProposeLaw ''m'' ''be kind'' ''again'', RequestResourceAccess ''m'' ''dataStore'' ''s'' ''read'' ''reader'' ''why'',
      Decide ''x'' Approve None, Decide ''xx'' Approve None, EditLaw ''xxx'' ''be very kind'' 1]"

text \<open>C20: Whatever the managers and the human call, in any order and with any failures, a manager has at most ten pending
  proposals, fifty waiting ones, twenty denied and fifty answered in its history; nobody waits while a place is free, and no
  two of its open proposals ask for the same thing.\<close>

theorem queue_within_its_places:
  assumes "viewOf env m (governance_run calls (governance_start w)) = Inr v"
  shows "length (vw_pending v) \<le> MAX_PENDING_PROPOSALS_PER_MANAGER \<and> length (vw_queued v) \<le> MAX_QUEUED_PROPOSALS_PER_MANAGER
    \<and> length (vw_denied v) \<le> MAX_DENIED_HISTORY_PER_MANAGER \<and> length (vw_history v) \<le> MAX_AUDIT_HISTORY_PER_MANAGER
    \<and> (vw_queued v \<noteq> [] \<longrightarrow> length (vw_pending v) = MAX_PENDING_PROPOSALS_PER_MANAGER)
    \<and> distinct (map pp_payload (vw_pending v) @ map wp_payload (vw_queued v))"
proof -
  let ?st = "governance_run calls (governance_start w)"
  have v: "vw_pending v = pendingOf m (gv_proposals ?st)" "vw_queued v = waiting_of m (gv_waiting ?st)"
    "vw_denied v = deniedOf m (gv_proposals ?st)" "vw_history v = auditHistoryOf m (gv_proposals ?st)"
    using assms by (auto simp: viewOf_def split: if_splits)
  have ok: "places_ok m (gv_proposals ?st) (gv_waiting ?st)" "places_filled m (gv_proposals ?st) (gv_waiting ?st)" "history_ok m (gv_proposals ?st)"
    using governance_run_ok [OF governance_start_ok, of calls w] by (simp_all add: governance_ok_def)
  have len: "length (vw_queued v) = countWaiting m (gv_waiting ?st)" "length (vw_pending v) = countPendingOf m (gv_proposals ?st)"
    by (simp_all add: v waiting_of_def countWaiting_def pendingOf_def countPendingOf_def)
  have "mset (map pp_payload (vw_pending v) @ map wp_payload (vw_queued v)) = asked m (gv_proposals ?st) (gv_waiting ?st)"
    by (simp add: v asked_def pendingOf_def waiting_of_rows)
  then have "distinct (map pp_payload (vw_pending v) @ map wp_payload (vw_queued v))"
    using ok(1) by (intro distinct_by_count) (simp add: places_ok_def)
  moreover have "vw_queued v \<noteq> [] \<longrightarrow> length (vw_pending v) = 10" using ok(2) len by (auto simp: places_filled_def)
  ultimately show ?thesis using ok len
    by (simp add: places_ok_def history_ok_def v(3,4) deniedOf_def auditHistoryOf_def newest_answer_first_def MAX_PENDING_PROPOSALS_PER_MANAGER_def
        MAX_QUEUED_PROPOSALS_PER_MANAGER_def MAX_DENIED_HISTORY_PER_MANAGER_def MAX_AUDIT_HISTORY_PER_MANAGER_def)
qed

theorem queue_within_its_places_witness:
  "length (vw_history (projr (viewOf example_genv ''m'' (governance_run example_calls (governance_start (1::nat)))))) = 2
   \<and> length (vw_history (projr (viewOf example_genv ''m'' (governance_run example_calls (governance_start (1::nat)))))) \<le> 50"
proof -
  let ?v = "projr (viewOf example_genv ''m'' (governance_run example_calls (governance_start 1)))"
  have view: "viewOf example_genv ''m'' (governance_run example_calls (governance_start 1)) = Inr ?v" by (simp add: viewOf_def example_genv_def)
  have "length (vw_history ?v) = 2" by code_simp
  then show ?thesis using queue_within_its_places [OF view] by (simp add: MAX_AUDIT_HISTORY_PER_MANAGER_def)
qed

text \<open>C18: No law and no grant without a human's approval: after any calls, every law comes from a law proposal of its
  manager the human approved, and its text is the proposed one or one the human wrote in an edit of that law; every grant is,
  with its resource, its access and its role, what an approved request of its manager asked for.\<close>

theorem in_force_only_if_approved:
  "(\<forall>l \<in> set (gv_laws (governance_run calls (governance_start w))). \<exists>p proposed.
      approved_proposal calls (governance_run calls (governance_start w)) p \<and> pp_managerId p = lw_managerId l \<and> pp_payload p = LawPayload proposed
      \<and> (lw_text l = proposed \<or> (\<exists>env s r. (env, EditLaw (lw_id l) s r) \<in> set calls \<and> storedLawText (gn_text env) s = Inr (lw_text l))))
   \<and> (\<forall>g \<in> set (gv_grants (governance_run calls (governance_start w))). \<exists>p.
      approved_proposal calls (governance_run calls (governance_start w)) p \<and> pp_managerId p = rg_managerId g
      \<and> pp_payload p = ResourceAccessPayload (rg_resourceType g) (rg_resourceId g) (rg_access g) (rg_role g))"
  using grounded_run [of calls w] by (simp add: grounded_def law_grounds_def grant_grounds_def law_content_def grant_content_def)

theorem in_force_only_if_approved_witness:
  "map lw_text (gv_laws (governance_run example_calls (governance_start (1::nat)))) = [''be very kind'']
   \<and> (\<exists>p. approved_proposal example_calls (governance_run example_calls (governance_start (1::nat))) p \<and> pp_managerId p = ''m'')"
proof -
  let ?st = "governance_run example_calls (governance_start (1::nat))"
  have laws: "map lw_text (gv_laws ?st) = [''be very kind'']" "map lw_managerId (gv_laws ?st) = [''m'']" by code_simp+
  then have "hd (gv_laws ?st) \<in> set (gv_laws ?st)" "lw_managerId (hd (gv_laws ?st)) = ''m''" by auto
  then show ?thesis using conjunct1 [OF in_force_only_if_approved [of example_calls 1]] laws(1) by metis
qed

text \<open>C24: No edit of a law is lost: once an edit made at a revision went through, neither an edit nor a withdrawal made at that
  revision goes through any more, whatever is called in between.\<close>

theorem no_law_edit_lost:
  assumes "editLaw env i body r (governance_run calls (governance_start w)) = Inr (l, st1)"
  shows "\<exists>e e'. editLaw env' i body' r (governance_run calls' st1) = Inl e \<and> withdrawLaw env' i r (governance_run calls' st1) = Inl e'"
proof -
  have "distinct (map lw_id (gv_laws (governance_run calls (governance_start w))))" by (rule laws_distinct_run) (simp add: governance_start_def)
  from edit_moves_on [OF this assms] have one: "law_entry st1 i = Some (law_state l)" "lw_revision l = Suc r" "distinct (map lw_id (gv_laws st1))" by auto
  from law_revisions.run_never_back [OF one(1), of calls'] obtain e where "law_entry (governance_run calls' st1) i = Some e" "Suc r \<le> law_revision e"
    using one(2) by (auto simp: governance_run_def law_revision_def law_state_def)
  then obtain k where "find_law i (gv_laws (governance_run calls' st1)) = Some k" "lw_revision k \<noteq> r" by (auto simp: law_entry_def law_revision_def law_state_def)
  from stale_revision_refused [OF laws_distinct_run [OF one(3)] this] show ?thesis by blast
qed

theorem no_law_edit_lost_witness:
  "\<exists>e. editLaw example_genv ''xxx'' ''mine'' 1 (governance_run [] (snd (projr (editLaw example_genv ''xxx'' ''be very kind'' 1
      (governance_run (butlast example_calls) (governance_start (1::nat))))))) = Inl e"
proof -
  let ?r = "editLaw example_genv ''xxx'' ''be very kind'' 1 (governance_run (butlast example_calls) (governance_start (1::nat)))"
  have "isl ?r = False" by code_simp
  then have "?r = Inr (fst (projr ?r), snd (projr ?r))" by (cases ?r) auto
  from no_law_edit_lost [OF this, of example_genv "''mine''" "[]"] show ?thesis by blast
qed

text \<open>A withdrawn law is final: through any further calls it keeps its text, its revision and its manager, and stays
  withdrawn.\<close>

theorem withdrawn_law_stays:
  assumes "find_law i (gv_laws st) = Some l" "lw_status l = LawWithdrawn"
  shows "\<exists>l'. find_law i (gv_laws (governance_run calls st)) = Some l' \<and> lw_status l' = LawWithdrawn \<and> lw_revision l' = lw_revision l
    \<and> lw_text l' = lw_text l \<and> lw_managerId l' = lw_managerId l"
proof -
  have "law_entry st i = Some (law_state l)" "1 \<le> law_rank (law_state l)" using assms by (simp_all add: law_entry_def law_rank_def law_state_def)
  from law_life.run_final_stays [OF this, of calls] show ?thesis using assms by (auto simp: governance_run_def law_entry_def law_state_def)
qed

text \<open>Free places go to those who wait, oldest first: releasing into the free places of a manager always ends, moves the
  first of its waiting list into the proposals, as many as there are places, and leaves the waiting lists of the others.\<close>

theorem waiting_released_in_order:
  assumes "distinct (map wp_id ws)" "set (map wp_id ws) \<inter> set (map pp_id ps) = {}"
  shows "\<exists>ws'. release_loop m ps ws = Inr (map wp_id (take (10 - countPendingOf m ps) (waiting_of m ws)),
      ps @ map released_proposal (take (10 - countPendingOf m ps) (waiting_of m ws)), ws')
    \<and> waiting_of m ws' = drop (10 - countPendingOf m ps) (waiting_of m ws) \<and> (\<forall>m'. m' \<noteq> m \<longrightarrow> waiting_of m' ws' = waiting_of m' ws)"
  using release_loop_drains [OF assms, of m] waiting_list.drain_in_order [OF assms(1), of "10 - countPendingOf m ps" m]
    waiting_list.drain_leaves [OF assms(1), of m "10 - countPendingOf m ps"] waiting_list.drain_spares_others [OF assms(1), where k = m and n = "10 - countPendingOf m ps"]
  by (simp add: split_beta)

end
