(* ===== verification/Question_Routing.thy ===== *)
theory Question_Routing
  imports Human_Text Path_Glob
begin

text \<open>
  Who answers a question of a manager's plan (\<^verbatim>\<open>escalation/questionRouting.ts\<close>): a human, the manager's own proof or the
  arbiter. The classes come from \<^verbatim>\<open>shared/escalation.ts\<close>; the code adds the classes it finds in the text and the paths of the
  question (\<^verbatim>\<open>escalation/floorClasses.ts\<close>), so a manager cannot keep a question from a human by the class it writes.
\<close>

section \<open>Classes and policies\<close>

datatype escalating_class = Contract | Security | DeploymentClass | HistoryRewrite | DodWaiver | Spend | VisualQa

definition ESCALATING_CLASSES :: "escalating_class list" where
  "ESCALATING_CLASSES = [Contract, Security, DeploymentClass, HistoryRewrite, DodWaiver, Spend, VisualQa]"

definition class_name :: "escalating_class \<Rightarrow> string" where
  "class_name c = (case c of Contract \<Rightarrow> ''contract'' | Security \<Rightarrow> ''security'' | DeploymentClass \<Rightarrow> ''deployment'' | HistoryRewrite \<Rightarrow> ''history_rewrite''
     | DodWaiver \<Rightarrow> ''dod_waiver'' | Spend \<Rightarrow> ''spend'' | VisualQa \<Rightarrow> ''visual_qa'')"

definition UNREMOVABLE_ESCALATING_CLASSES :: "escalating_class list" where
  "UNREMOVABLE_ESCALATING_CLASSES = [Contract, Security]"

text \<open>A class as it was declared; \<open>UnknownClass\<close> stands for a text outside the vocabulary.\<close>

datatype declared_class = Factual | Technical | Escalating escalating_class | UnknownClass

definition questionClassOf :: "string \<Rightarrow> declared_class" where
  "questionClassOf s =
     (case map_of ([(''factual'', Factual), (''technical'', Technical)] @ map (\<lambda>c. (class_name c, Escalating c)) ESCALATING_CLASSES) s of
        Some d \<Rightarrow> d | None \<Rightarrow> UnknownClass)"

definition MAX_QUESTIONS_PER_BATCH :: nat where "MAX_QUESTIONS_PER_BATCH = 20"

record plan_question =
  pq_id :: string
  pq_text :: string
  pq_class :: string
  pq_options :: "string list option"
  pq_recommendation :: "string option"
  pq_paths :: "string list option"
  pq_resolution :: "repro_claim option"
  pq_reopens :: "string option"

record extra_rule =
  xr_class :: escalating_class
  xr_pathGlob :: "string option"
  xr_keyword :: "string option"

datatype ask_user_gate = GateOff | GateWarn | GateEnforce

record escalation_policy =
  ep_humanClasses :: "escalating_class list"
  ep_extraRules :: "extra_rule list"
  ep_arbiterModel :: string
  ep_maxArbiterRunsPerTicket :: nat
  ep_criteriaStatusColumn :: string
  ep_approvedOption :: string
  ep_askUserGate :: ask_user_gate

definition keepsUnremovableClasses :: "escalating_class list \<Rightarrow> bool" where
  "keepsUnremovableClasses humanClasses \<longleftrightarrow> list_all (\<lambda>c. c \<in> set humanClasses) UNREMOVABLE_ESCALATING_CLASSES"

text \<open>What \<open>EscalationPolicySchema\<close> requires of the classes, the rules and the number of runs.\<close>

definition policy_ok :: "escalation_policy \<Rightarrow> bool" where
  "policy_ok policy \<longleftrightarrow>
     keepsUnremovableClasses (ep_humanClasses policy) \<and> length (ep_extraRules policy) \<le> 40
     \<and> list_all (\<lambda>r. xr_pathGlob r \<noteq> None \<or> xr_keyword r \<noteq> None) (ep_extraRules policy)
     \<and> 1 \<le> ep_maxArbiterRunsPerTicket policy \<and> ep_maxArbiterRunsPerTicket policy \<le> 10"

definition DEFAULT_ESCALATION_POLICY :: escalation_policy where
  "DEFAULT_ESCALATION_POLICY =
     \<lparr>ep_humanClasses = ESCALATING_CLASSES, ep_extraRules = [], ep_arbiterModel = ''opus'', ep_maxArbiterRunsPerTicket = 3, ep_criteriaStatusColumn = ''criteria_status'',
      ep_approvedOption = ''approved'', ep_askUserGate = GateWarn\<rparr>"

section \<open>The floor\<close>

record floor_rule =
  fr_class :: escalating_class
  fr_pathGlobs :: "string list"
  fr_keywords :: "string list"

definition E_ACUTE :: string where "E_ACUTE = [CHR 0xC3, CHR 0xA9]"
definition APOSTROPHE :: string where "APOSTROPHE = [CHR 0x27]"

definition BUILT_IN_RULES :: "floor_rule list" where
  "BUILT_IN_RULES =
     [\<lparr>fr_class = Contract,
       fr_pathGlobs = [''packages/shared/src/mcpContract.ts'', ''**/contract.pinned.json'', ''**/db/migrations/**'', ''docs/mcp-contract.md'', ''docs/errors.md'', ''**/api/**Routes.ts''],
       fr_keywords = [''contract_version'', ''migration'', ''breaking change'', ''public api'', ''sch'' @ E_ACUTE @ ''ma d'' @ APOSTROPHE @ ''api'', ''nouveau code d'' @ APOSTROPHE @ ''erreur'']\<rparr>,
      \<lparr>fr_class = Security,
       fr_pathGlobs = [''**/policy/**'', ''**/redact*'', ''**/auth/**'', ''**/*token*'', ''**/harness/**/*Hooks.ts''],
       fr_keywords = [''secret'', ''token'', ''credential'', ''permission'', ''sandbox'', ''redaction'', ''injection'', ''authentification'']\<rparr>,
      \<lparr>fr_class = DeploymentClass,
       fr_pathGlobs = [''.github/workflows/**'', ''**/Dockerfile*'', ''**/tauri.conf.json'', ''scripts/release*''],
       fr_keywords = [''deploy'', ''release'', ''device'', ''install'', ''signing'', ''appareil'']\<rparr>,
      \<lparr>fr_class = HistoryRewrite, fr_pathGlobs = [],
       fr_keywords = [''force-push'', ''rebase'', ''filter-branch'', ''reset --hard'', ''amend'', ''r'' @ E_ACUTE @ E_ACUTE @ ''criture d'' @ APOSTROPHE @ ''historique'']\<rparr>,
      \<lparr>fr_class = DodWaiver, fr_pathGlobs = [],
       fr_keywords = [''waive'', ''waiver'', ''skip qa'', ''skip the test'', ''without qa'', ''d'' @ E_ACUTE @ ''rogation'', ''ignore the criterion'']\<rparr>,
      \<lparr>fr_class = Spend, fr_pathGlobs = [],
       fr_keywords = [''budget'', ''billing'', ''paid plan'', ''purchase'', ''subscription'', ''d'' @ E_ACUTE @ ''pense'', ''co'' @ [CHR 0xC3, CHR 0xBB] @ ''t'']\<rparr>,
      \<lparr>fr_class = VisualQa, fr_pathGlobs = [],
       fr_keywords = [''visual qa'', ''human qa'', ''pixel'', ''design review'', ''qa visuelle'']\<rparr>]"

definition segmentsOfPath :: "text_env \<Rightarrow> string \<Rightarrow> string list" where
  "segmentsOfPath te path =
     filter (\<lambda>segment. segment \<noteq> '''' \<and> segment \<noteq> ''.'')
       (split_on (CHR ''/'') (map (\<lambda>c. if c = CHR 0x5C then CHR ''/'' else c) (comparable te path)))"

definition asRule :: "extra_rule \<Rightarrow> floor_rule" where
  "asRule r = \<lparr>fr_class = xr_class r, fr_pathGlobs = (case xr_pathGlob r of None \<Rightarrow> [] | Some g \<Rightarrow> [g]),
               fr_keywords = (case xr_keyword r of None \<Rightarrow> [] | Some k \<Rightarrow> [k])\<rparr>"

text \<open>The loop of \<open>matchesSegment\<close>: the pattern and the segment from their indices on, and for the last star the pattern
  after it with the segment from the place it was tried at.\<close>

function floor_loop :: "string \<Rightarrow> string \<Rightarrow> (string \<times> string) option \<Rightarrow> bool" where
  "floor_loop p [] star = (filter (\<lambda>c. c \<noteq> CHR ''*'') p = [])"
| "floor_loop p (x # t) star =
     (if p \<noteq> [] \<and> hd p \<noteq> CHR ''*'' \<and> hd p = x then floor_loop (tl p) t (map_option (\<lambda>(sp, taken). (sp, taken @ [x])) star)
      else if p \<noteq> [] \<and> hd p = CHR ''*'' then floor_loop (tl p) (x # t) (Some (tl p, []))
      else (case star of
              Some (sp, taken) \<Rightarrow> floor_loop sp (tl (taken @ x # t)) (Some (sp, []))
            | None \<Rightarrow> False))"
  by pat_completeness auto
termination
  by (relation "measures [\<lambda>(p, t, star). case star of None \<Rightarrow> Suc (length t) | Some (sp, taken) \<Rightarrow> length taken + length t,
                          \<lambda>(p, t, star). length p]")
     (auto split: option.splits)

declare floor_loop.simps(2) [simp del]

definition matchesSegment :: "string \<Rightarrow> string \<Rightarrow> bool" where
  "matchesSegment patternSegment segment = floor_loop patternSegment segment None"

text \<open>A row of the table from the right: the cells of \<open>below\<close> are those of the glob segments after this one, the last cell
  stands for the end of the path.\<close>

fun floor_cells :: "string \<Rightarrow> bool list \<Rightarrow> string list \<Rightarrow> bool list" where
  "floor_cells seg below [] = [seg = ''**'' \<and> hd below]"
| "floor_cells seg below (x # xs) =
     (let right = floor_cells seg (tl below) xs
      in (if seg = ''**'' then hd below \<or> hd right else matchesSegment seg x \<and> hd (tl below)) # right)"

definition matchesPath :: "string list \<Rightarrow> string list \<Rightarrow> bool" where
  "matchesPath globSegments pathSegments =
     hd (foldr (\<lambda>seg below. floor_cells seg below pathSegments) globSegments (replicate (length pathSegments) False @ [True]))"

definition mentionsKeyword :: "text_env \<Rightarrow> string list \<Rightarrow> string \<Rightarrow> bool" where
  "mentionsKeyword te fs keyword = list_ex (\<lambda>field. text_includes field (comparable te keyword)) fs"

definition question_fields :: "text_env \<Rightarrow> plan_question \<Rightarrow> string list" where
  "question_fields te q =
     map (comparable te) (pq_text q # opt_default [] (pq_options q) @ (case pq_recommendation q of None \<Rightarrow> [] | Some r \<Rightarrow> [r]) @ opt_default [] (pq_paths q))"

definition isInFloor :: "text_env \<Rightarrow> plan_question \<Rightarrow> floor_rule \<Rightarrow> bool" where
  "isInFloor te q rule \<longleftrightarrow>
     list_ex (mentionsKeyword te (question_fields te q)) (fr_keywords rule)
     \<or> list_ex (\<lambda>glob. list_ex (\<lambda>path. matchesPath (segmentsOfPath te glob) (segmentsOfPath te path)) (opt_default [] (pq_paths q))) (fr_pathGlobs rule)"

definition computeFloorClasses :: "text_env \<Rightarrow> plan_question \<Rightarrow> extra_rule list \<Rightarrow> escalating_class list" where
  "computeFloorClasses te q extraRules =
     (let rules = BUILT_IN_RULES @ map asRule extraRules;
          classesInFloor = map fr_class (filter (isInFloor te q) rules)
      in filter (\<lambda>c. c \<in> set classesInFloor) ESCALATING_CLASSES)"

section \<open>Routing\<close>

datatype question_route = ToHuman | ToSelf | ToArbiter

record question_routing =
  qr_declared :: declared_class
  qr_computed :: "escalating_class list"
  qr_effective :: "escalating_class list"
  qr_disabledByProject :: "escalating_class list"
  qr_route :: question_route

definition routeOf :: "bool \<Rightarrow> bool \<Rightarrow> bool \<Rightarrow> bool \<Rightarrow> question_route" where
  "routeOf isUnknown hasClassOnHumanList isEscalatingOnlyThroughDisabledClasses isFactualAndProvenByARun =
     (if isUnknown \<or> hasClassOnHumanList then ToHuman
      else if isEscalatingOnlyThroughDisabledClasses then ToArbiter
      else if isFactualAndProvenByARun then ToSelf
      else ToArbiter)"

definition routeQuestion :: "text_env \<Rightarrow> plan_question \<Rightarrow> escalation_policy \<Rightarrow> question_routing" where
  "routeQuestion te q policy =
     (let declared = questionClassOf (pq_class q);
          computed = computeFloorClasses te q (ep_extraRules policy);
          effective = filter (\<lambda>c. c \<in> set computed \<or> Escalating c = declared) ESCALATING_CLASSES;
          disabledByProject = filter (\<lambda>c. c \<notin> set (ep_humanClasses policy)) effective;
          isUnknown = (declared = UnknownClass);
          hasClassOnHumanList = (length disabledByProject < length effective);
          isReopeningAnArbiterDecision = (pq_reopens q \<noteq> None);
          isFactualAndProvenByARun = (\<not> isReopeningAnArbiterDecision \<and> declared = Factual
             \<and> (case pq_resolution q of None \<Rightarrow> False | Some r \<Rightarrow> isExecutedClaim r));
          isEscalatingOnlyThroughDisabledClasses = (effective \<noteq> [] \<and> \<not> hasClassOnHumanList)
      in \<lparr>qr_declared = declared, qr_computed = computed, qr_effective = effective, qr_disabledByProject = disabledByProject,
          qr_route = routeOf isUnknown hasClassOnHumanList isEscalatingOnlyThroughDisabledClasses isFactualAndProvenByARun\<rparr>)"

section \<open>Globs of the floor\<close>

interpretation floor: last_star_loop "\<lambda>c x. c = x" floor_loop
proof
  show "floor_loop p [] star \<longleftrightarrow> dropWhile (\<lambda>c. c = CHR ''*'') p = []" for p star
    by (simp add: dropWhile_eq_Nil_conv filter_empty_conv)
  show "floor_loop (CHR ''*'' # p) (x # t) star \<longleftrightarrow> floor_loop p (x # t) (Some (p, []))" for p x t star
    by (subst floor_loop.simps(2)) simp
  show "floor_loop (c # p) (x # t) star \<longleftrightarrow> floor_loop p t (map_option (\<lambda>(sp, taken). (sp, taken @ [x])) star)"
    if "c \<noteq> CHR ''*''" "c = x" for c x p t star
    using that by (subst floor_loop.simps(2)) simp
  show "floor_loop p (x # t) star \<longleftrightarrow> (\<exists>sp taken. star = Some (sp, taken) \<and> floor_loop sp (tl (taken @ x # t)) (Some (sp, [])))"
    if "p = [] \<or> hd p \<noteq> CHR ''*'' \<and> hd p \<noteq> x" for p x t star
    using that by (subst floor_loop.simps(2), cases p) (auto split: option.splits)
qed

text \<open>The reading the table decides: a \<open>**\<close> segment stands for any number of segments, a \<open>*\<close> for any run of characters.\<close>

fun floor_spec :: "string list \<Rightarrow> string list \<Rightarrow> bool" where
  "floor_spec [] xs \<longleftrightarrow> xs = []"
| "floor_spec (p # ps) xs \<longleftrightarrow>
     (if p = ''**'' then \<exists>k \<le> length xs. floor_spec ps (drop k xs)
      else (case xs of [] \<Rightarrow> False | x # xs' \<Rightarrow> star_spec (\<lambda>c x. c = x) p x \<and> floor_spec ps xs'))"

definition suffixes_of :: "string list \<Rightarrow> string list list" where
  "suffixes_of xs = map (\<lambda>k. drop k xs) [0..<Suc (length xs)]"

lemma suffixes_of_simps [simp]: "suffixes_of [] = [[]]" "suffixes_of (x # xs) = (x # xs) # suffixes_of xs"
  unfolding suffixes_of_def by (simp, subst upt_conv_Cons) (simp_all del: upt_Suc add: map_Suc_upt [symmetric] o_def)

lemma floor_cells_spec:
  "floor_cells seg (map (floor_spec ps) (suffixes_of xs)) xs = map (floor_spec (seg # ps)) (suffixes_of xs)"
proof (induction xs)
  case (Cons x xs)
  have hd: "hd (map f (suffixes_of xs)) = f xs" for f :: "string list \<Rightarrow> bool" by (cases xs) simp_all
  have "floor_cells seg (map (floor_spec ps) (suffixes_of (x # xs))) (x # xs)
      = (if seg = ''**'' then floor_spec ps (x # xs) \<or> floor_spec (seg # ps) xs else matchesSegment seg x \<and> floor_spec ps xs)
        # map (floor_spec (seg # ps)) (suffixes_of xs)"
    unfolding suffixes_of_simps list.map floor_cells.simps list.sel Cons.IH Let_def hd ..
  then show ?case by (simp add: matchesSegment_def floor.from_the_start ex_le_Suc)
qed simp

lemma floor_table:
  "foldr (\<lambda>seg below. floor_cells seg below xs) gs (replicate (length xs) False @ [True]) = map (floor_spec gs) (suffixes_of xs)"
proof (induction gs)
  case Nil
  show ?case by (induction xs) simp_all
qed (simp add: floor_cells_spec)

lemma matchesPath_spec: "matchesPath gs xs \<longleftrightarrow> floor_spec gs xs"
  unfolding matchesPath_def floor_table by (cases xs) simp_all

section \<open>Routes\<close>

lemma effective_shorter: "length (filter P xs) < length xs \<longleftrightarrow> (\<exists>x \<in> set xs. \<not> P x)"
  by (induction xs) (auto simp: less_Suc_eq_le)

lemma set_ESCALATING_CLASSES [simp]: "c \<in> set ESCALATING_CLASSES"
  by (cases c) (simp_all add: ESCALATING_CLASSES_def)

lemma effective_classes:
  "c \<in> set (qr_effective (routeQuestion te q policy)) \<longleftrightarrow>
   c \<in> set (computeFloorClasses te q (ep_extraRules policy)) \<or> questionClassOf (pq_class q) = Escalating c"
  by (auto simp: routeQuestion_def Let_def)

lemma route_human_iff:
  "qr_route (routeQuestion te q policy) = ToHuman \<longleftrightarrow>
   questionClassOf (pq_class q) = UnknownClass
   \<or> (\<exists>c \<in> set (qr_effective (routeQuestion te q policy)). c \<in> set (ep_humanClasses policy))"
  by (auto simp: routeQuestion_def Let_def routeOf_def effective_shorter)

lemma floor_classes:
  "c \<in> set (computeFloorClasses te q extra) \<longleftrightarrow> (\<exists>rule \<in> set (BUILT_IN_RULES @ map asRule extra). fr_class rule = c \<and> isInFloor te q rule)"
  by (auto simp: computeFloorClasses_def Let_def)

lemma questionClassOf_class_name [simp]: "questionClassOf (class_name c) = Escalating c"
  by (cases c) (simp_all add: questionClassOf_def class_name_def ESCALATING_CLASSES_def)

section \<open>Properties\<close>

text \<open>The table of \<open>matchesPath\<close>, filled from the end and with a single remembered star per segment, finds a path in a
  glob exactly when the path can be read as the glob, whatever number of segments each \<open>**\<close> and of characters each \<open>*\<close>
  stands for: no path of a protected area is missed.\<close>

theorem floor_table_is_complete: "matchesPath globSegments pathSegments \<longleftrightarrow> floor_spec globSegments pathSegments"
  by (rule matchesPath_spec)

text \<open>C10: A question that touches a contract or security, whether its class says so or a keyword or a path of a rule (the
  built-in ones or those of the project) is found in it, goes to a human under every policy the schema accepts; so does
  a question whose class is outside the vocabulary. The class the manager writes never takes a question from the human.\<close>

theorem contract_and_security_reach_a_human:
  assumes "policy_ok policy" "c \<in> {Contract, Security}"
    and "pq_class q = class_name c
      \<or> (\<exists>rule \<in> set (BUILT_IN_RULES @ map asRule (ep_extraRules policy)). fr_class rule = c \<and> isInFloor te q rule)
      \<or> questionClassOf (pq_class q) = UnknownClass"
  shows "qr_route (routeQuestion te q policy) = ToHuman"
proof -
  have "c \<in> set (ep_humanClasses policy)"
    using assms(1,2) by (auto simp: policy_ok_def keepsUnremovableClasses_def UNREMOVABLE_ESCALATING_CLASSES_def)
  then show ?thesis using assms(3) unfolding route_human_iff effective_classes floor_classes Bex_def by auto
qed

definition example_question :: plan_question where
  "example_question = \<lparr>pq_id = ''q1'', pq_text = ''Where is the TOKEN kept?'', pq_class = ''technical'', pq_options = None, pq_recommendation = None,
     pq_paths = None, pq_resolution = None, pq_reopens = None\<rparr>"

theorem contract_and_security_reach_a_human_witness:
  "qr_route (routeQuestion plain_texts example_question DEFAULT_ESCALATION_POLICY) = ToHuman"
proof (rule contract_and_security_reach_a_human [of _ Security])
  show "policy_ok DEFAULT_ESCALATION_POLICY" by code_simp
  have "isInFloor plain_texts example_question (BUILT_IN_RULES ! 1)" by code_simp
  moreover have "fr_class (BUILT_IN_RULES ! 1) = Security" by code_simp
  moreover have "BUILT_IN_RULES ! 1 \<in> set (BUILT_IN_RULES @ map asRule (ep_extraRules DEFAULT_ESCALATION_POLICY))" by (simp add: BUILT_IN_RULES_def)
  ultimately show "pq_class example_question = class_name Security
      \<or> (\<exists>rule \<in> set (BUILT_IN_RULES @ map asRule (ep_extraRules DEFAULT_ESCALATION_POLICY)). fr_class rule = Security \<and> isInFloor plain_texts example_question rule)
      \<or> questionClassOf (pq_class example_question) = UnknownClass" by blast
qed simp

end
