(* ===== verification/Escalation_Store.thy ===== *)
theory Escalation_Store
  imports Question_Routing
begin

text \<open>
  The tables of the escalation ladder, \<^verbatim>\<open>escalation/escalationRepository.ts\<close>: the batches of questions a manager submits, the
  questions, the decisions of the arbiter and the escalations that reach a human. Each table is the list of its rows in rowid
  order; an insertion that breaks a key or the unique index on the pending escalations answers \<open>None\<close>. A column stored as
  JSON holds the value itself. The columns \<open>reopens_batch_id\<close> and \<open>reopens_question_id\<close> are set together, so they are one
  optional pair. The removal of a manager, which takes its rows along, is not an operation here.
\<close>

section \<open>Rows\<close>

datatype question_status = QOpen | QDecided | QSelfResolved | QPendingHuman | QAnswered
datatype criteria_opinion = Favourable | Unfavourable | NotAsked
datatype verdict = VDecided | VNeedsHuman
datatype escalation_status = EPending | EAnswered

record stored_batch =
  bt_id :: string
  bt_managerId :: string
  bt_ticket :: string
  bt_planNoteId :: string
  bt_planNoteRev :: nat
  bt_createdAt :: instant
  bt_arbiterRuns :: nat
  bt_criteriaOpinion :: "(criteria_opinion \<times> string list) option"

record stored_question =
  qn_batchId :: string
  qn_questionId :: string
  qn_text :: string
  qn_declaredClass :: string
  qn_computedClasses :: "escalating_class list"
  qn_effectiveClasses :: "escalating_class list"
  qn_route :: question_route
  qn_status :: question_status
  qn_reason :: "string option"
  qn_options :: "string list option"
  qn_recommendation :: "string option"
  qn_paths :: "string list option"
  qn_resolution :: "repro_claim option"
  qn_reopens :: "(string \<times> string) option"
  qn_escalationId :: "string option"
  qn_humanAnswer :: "string option"
  qn_answeredAt :: "instant option"

record handover_refusal =
  hr_reason :: string
  hr_refusal :: string
  hr_hint :: "string option"
  hr_at :: instant

record stored_escalation =
  ec_id :: string
  ec_managerId :: string
  ec_ticket :: string
  ec_status :: escalation_status
  ec_body :: string
  ec_createdAt :: instant
  ec_resolvedAt :: "instant option"
  ec_handoverRefusal :: "handover_refusal option"

record arbiter_decision =
  ad_batchId :: string
  ad_questionId :: string
  ad_verdict :: verdict
  ad_decision :: string
  ad_rationale :: string
  ad_raiseTo :: "escalating_class option"
  ad_evidence :: "repro_claim option"
  ad_arbiterSessionId :: string
  ad_planNoteRev :: nat
  ad_createdAt :: instant

record escalation_tables =
  et_batches :: "stored_batch list"
  et_questions :: "stored_question list"
  et_escalations :: "stored_escalation list"
  et_decisions :: "arbiter_decision list"

definition qn_key :: "stored_question \<Rightarrow> string \<times> string" where
  "qn_key q = (qn_batchId q, qn_questionId q)"

text \<open>\<open>UPDATE ... SET ... WHERE ...\<close>.\<close>

definition update_where :: "('r \<Rightarrow> bool) \<Rightarrow> ('r \<Rightarrow> 'r) \<Rightarrow> 'r list \<Rightarrow> 'r list" where
  "update_where P f rows = map (\<lambda>r. if P r then f r else r) rows"

section \<open>Batches\<close>

definition insertBatch :: "stored_batch \<Rightarrow> escalation_tables \<Rightarrow> escalation_tables option" where
  "insertBatch b t =
     (if bt_id b \<in> bt_id ` set (et_batches t) then None else Some (t\<lparr>et_batches := et_batches t @ [b]\<rparr>))"

definition findBatch :: "string \<Rightarrow> escalation_tables \<Rightarrow> stored_batch option" where
  "findBatch i t = find (\<lambda>b. bt_id b = i) (et_batches t)"

definition batchesOfTicket :: "string \<Rightarrow> string \<Rightarrow> escalation_tables \<Rightarrow> stored_batch list" where
  "batchesOfTicket m ticket t = filter (\<lambda>b. bt_managerId b = m \<and> bt_ticket b = ticket) (et_batches t)"

definition addArbiterRun :: "string \<Rightarrow> escalation_tables \<Rightarrow> escalation_tables" where
  "addArbiterRun batchId t =
     t\<lparr>et_batches := update_where (\<lambda>b. bt_id b = batchId) (\<lambda>b. b\<lparr>bt_arbiterRuns := bt_arbiterRuns b + 1\<rparr>) (et_batches t)\<rparr>"

definition arbiterRunsOfTicket :: "string \<Rightarrow> string \<Rightarrow> escalation_tables \<Rightarrow> nat" where
  "arbiterRunsOfTicket m ticket t = sum_list (map bt_arbiterRuns (batchesOfTicket m ticket t))"

definition recordCriteriaOpinion :: "string \<Rightarrow> criteria_opinion \<Rightarrow> string list \<Rightarrow> escalation_tables \<Rightarrow> escalation_tables" where
  "recordCriteriaOpinion batchId opinion reasons t =
     t\<lparr>et_batches := update_where (\<lambda>b. bt_id b = batchId) (\<lambda>b. b\<lparr>bt_criteriaOpinion := Some (opinion, reasons)\<rparr>) (et_batches t)\<rparr>"

section \<open>Questions\<close>

definition insertQuestion :: "stored_question \<Rightarrow> escalation_tables \<Rightarrow> escalation_tables option" where
  "insertQuestion q t =
     (if qn_key q \<in> qn_key ` set (et_questions t) then None else Some (t\<lparr>et_questions := et_questions t @ [q]\<rparr>))"

definition decidedQuestionForReopen :: "string \<Rightarrow> string \<Rightarrow> string \<Rightarrow> escalation_tables \<Rightarrow> stored_question option" where
  "decidedQuestionForReopen m ticket questionId t =
     find (\<lambda>q. list_ex (\<lambda>b. bt_id b = qn_batchId q \<and> bt_managerId b = m \<and> bt_ticket b = ticket) (et_batches t)
               \<and> qn_questionId q = questionId \<and> qn_status q = QDecided) (rev (et_questions t))"

definition isReopened :: "string \<times> string \<Rightarrow> escalation_tables \<Rightarrow> bool" where
  "isReopened key t \<longleftrightarrow> list_ex (\<lambda>q. qn_reopens q = Some key) (et_questions t)"

definition questionsOfBatch :: "string \<Rightarrow> escalation_tables \<Rightarrow> stored_question list" where
  "questionsOfBatch batchId t = filter (\<lambda>q. qn_batchId q = batchId) (et_questions t)"

definition batchIdsWithOpenArbiterQuestions :: "escalation_tables \<Rightarrow> string list" where
  "batchIdsWithOpenArbiterQuestions t =
     rev (remdups (rev (map qn_batchId (filter (\<lambda>q. qn_route q = ToArbiter \<and> qn_status q = QOpen) (et_questions t)))))"

definition questionsOfEscalation :: "string \<Rightarrow> escalation_tables \<Rightarrow> stored_question list" where
  "questionsOfEscalation i t = filter (\<lambda>q. qn_escalationId q = Some i) (et_questions t)"

definition coalesce :: "'a option \<Rightarrow> 'a option \<Rightarrow> 'a option" where
  "coalesce x y = (case x of None \<Rightarrow> y | Some _ \<Rightarrow> x)"

text \<open>The answer tells whether a row changed; the key of a question is unique, so one row does.\<close>

definition transitionQuestion ::
  "string \<times> string \<Rightarrow> question_status \<Rightarrow> question_status \<Rightarrow> string option \<Rightarrow> string option \<Rightarrow> instant option \<Rightarrow> escalation_tables \<Rightarrow> bool \<times> escalation_tables" where
  "transitionQuestion key from to reason humanAnswer answeredAt t =
     (list_ex (\<lambda>q. qn_key q = key \<and> qn_status q = from) (et_questions t),
      t\<lparr>et_questions := update_where (\<lambda>q. qn_key q = key \<and> qn_status q = from)
          (\<lambda>q. q\<lparr>qn_status := to, qn_reason := coalesce reason (qn_reason q), qn_humanAnswer := coalesce humanAnswer (qn_humanAnswer q),
                 qn_answeredAt := coalesce answeredAt (qn_answeredAt q)\<rparr>) (et_questions t)\<rparr>)"

definition deferOpenQuestionToHuman :: "string \<times> string \<Rightarrow> escalating_class list \<Rightarrow> string \<Rightarrow> escalation_tables \<Rightarrow> bool \<times> escalation_tables" where
  "deferOpenQuestionToHuman key effectiveClasses reason t =
     (list_ex (\<lambda>q. qn_key q = key \<and> qn_status q = QOpen) (et_questions t),
      t\<lparr>et_questions := update_where (\<lambda>q. qn_key q = key \<and> qn_status q = QOpen)
          (\<lambda>q. q\<lparr>qn_status := QPendingHuman, qn_reason := Some reason, qn_effectiveClasses := effectiveClasses\<rparr>) (et_questions t)\<rparr>)"

definition attachQuestionToEscalation :: "string \<times> string \<Rightarrow> string \<Rightarrow> escalation_tables \<Rightarrow> escalation_tables" where
  "attachQuestionToEscalation key i t =
     t\<lparr>et_questions := update_where (\<lambda>q. qn_key q = key) (\<lambda>q. q\<lparr>qn_escalationId := Some i\<rparr>) (et_questions t)\<rparr>"

section \<open>Escalations and decisions\<close>

definition findEscalation :: "string \<Rightarrow> escalation_tables \<Rightarrow> stored_escalation option" where
  "findEscalation i t = find (\<lambda>e. ec_id e = i) (et_escalations t)"

definition findPendingEscalation :: "string \<Rightarrow> string \<Rightarrow> escalation_tables \<Rightarrow> stored_escalation option" where
  "findPendingEscalation m ticket t = find (\<lambda>e. ec_managerId e = m \<and> ec_ticket e = ticket \<and> ec_status e = EPending) (et_escalations t)"

definition insertEscalation :: "string \<Rightarrow> string \<Rightarrow> string \<Rightarrow> string \<Rightarrow> instant \<Rightarrow> escalation_tables \<Rightarrow> escalation_tables option" where
  "insertEscalation i m ticket body createdAt t =
     (if findEscalation i t \<noteq> None \<or> findPendingEscalation m ticket t \<noteq> None then None
      else Some (t\<lparr>et_escalations := et_escalations t @
             [\<lparr>ec_id = i, ec_managerId = m, ec_ticket = ticket, ec_status = EPending, ec_body = body, ec_createdAt = createdAt,
               ec_resolvedAt = None, ec_handoverRefusal = None\<rparr>]\<rparr>))"

definition escalationsWithStatus :: "escalation_status \<Rightarrow> escalation_tables \<Rightarrow> stored_escalation list" where
  "escalationsWithStatus status t = sort_key ec_createdAt (filter (\<lambda>e. ec_status e = status) (et_escalations t))"

definition escalationsOfManager :: "string \<Rightarrow> escalation_tables \<Rightarrow> stored_escalation list" where
  "escalationsOfManager m t = sort_key ec_createdAt (filter (\<lambda>e. ec_managerId e = m) (et_escalations t))"

definition updateEscalationBody :: "string \<Rightarrow> string \<Rightarrow> escalation_tables \<Rightarrow> escalation_tables" where
  "updateEscalationBody i body t =
     t\<lparr>et_escalations := update_where (\<lambda>e. ec_id e = i \<and> ec_status e = EPending) (\<lambda>e. e\<lparr>ec_body := body\<rparr>) (et_escalations t)\<rparr>"

definition setHandoverRefusal :: "string \<Rightarrow> handover_refusal option \<Rightarrow> escalation_tables \<Rightarrow> escalation_tables" where
  "setHandoverRefusal i refusal t =
     t\<lparr>et_escalations := update_where (\<lambda>e. ec_id e = i \<and> ec_status e = EPending) (\<lambda>e. e\<lparr>ec_handoverRefusal := refusal\<rparr>) (et_escalations t)\<rparr>"

definition answerEscalationIfPending :: "string \<Rightarrow> instant \<Rightarrow> escalation_tables \<Rightarrow> bool \<times> escalation_tables" where
  "answerEscalationIfPending i resolvedAt t =
     (list_ex (\<lambda>e. ec_id e = i \<and> ec_status e = EPending) (et_escalations t),
      t\<lparr>et_escalations := update_where (\<lambda>e. ec_id e = i \<and> ec_status e = EPending)
          (\<lambda>e. e\<lparr>ec_status := EAnswered, ec_resolvedAt := Some resolvedAt\<rparr>) (et_escalations t)\<rparr>)"

definition insertArbiterDecision :: "arbiter_decision \<Rightarrow> escalation_tables \<Rightarrow> escalation_tables" where
  "insertArbiterDecision d t = t\<lparr>et_decisions := et_decisions t @ [d]\<rparr>"

definition decisionsOfBatch :: "string \<Rightarrow> escalation_tables \<Rightarrow> arbiter_decision list" where
  "decisionsOfBatch batchId t = filter (\<lambda>d. ad_batchId d = batchId) (et_decisions t)"

section \<open>The body of an escalation\<close>

definition ESCALATION_ITEM_PREFIX :: string where "ESCALATION_ITEM_PREFIX = ''[esc:''"
definition UNCLASSIFIED_LABEL :: string where "UNCLASSIFIED_LABEL = ''unclassified''"
definition MAX_BODY_CHARS :: nat where "MAX_BODY_CHARS = 2000"

text \<open>The first code units of a text; a character cut in half is stored as the replacement character.\<close>

fun utf16_take :: "nat \<Rightarrow> string list \<Rightarrow> string" where
  "utf16_take n [] = []"
| "utf16_take n (ch # cs) =
     (if utf16_length ch \<le> n then ch @ utf16_take (n - utf16_length ch) cs
      else if n = 0 then [] else [CHR 0xEF, CHR 0xBF, CHR 0xBD])"

definition cappedAt :: "string \<Rightarrow> nat \<Rightarrow> string" where
  "cappedAt s maxChars =
     (if maxChars < utf16_length s then utf16_take (maxChars - 1) (utf8_chars s) @ [CHR 0xE2, CHR 0x80, CHR 0xA6] else s)"

definition classLabelsOf :: "stored_question list \<Rightarrow> string list" where
  "classLabelsOf qs =
     (let effectiveClasses = map class_name (filter (\<lambda>c. list_ex (\<lambda>q. c \<in> set (qn_effectiveClasses q)) qs) ESCALATING_CLASSES)
      in if list_ex (\<lambda>q. qn_reason q = Some UNCLASSIFIED_LABEL) qs then effectiveClasses @ [UNCLASSIFIED_LABEL] else effectiveClasses)"

text \<open>\<open>question.options && ...\<close> keeps the line of an empty list of options; an empty recommendation has no line.\<close>

definition lineOfQuestion :: "stored_question \<Rightarrow> nat \<Rightarrow> string list" where
  "lineOfQuestion q position =
     (let classes = (if qn_effectiveClasses q \<noteq> [] then join_with '', '' (map class_name (qn_effectiveClasses q))
                     else opt_default (qn_declaredClass q) (qn_reason q))
      in [nat_digits position @ ''. ['' @ qn_questionId q @ '' '' @ [CHR 0xC2, CHR 0xB7] @ '' '' @ classes @ ''] '' @ qn_text q]
         @ (case qn_options q of None \<Rightarrow> [] | Some os \<Rightarrow> [''   options: '' @ join_with '' | '' os])
         @ (case qn_recommendation q of None \<Rightarrow> [] | Some r \<Rightarrow> if r = '''' then [] else [''   the manager recommends: '' @ r]))"

definition renderEscalationBody :: "string \<Rightarrow> string \<Rightarrow> stored_question list \<Rightarrow> string" where
  "renderEscalationBody i ticket qs =
     (let header = ''Escalation '' @ i @ '' on '' @ ticket @ '': '' @ nat_digits (length qs) @ '' question(s) '' @ [CHR 0xE2, CHR 0x80, CHR 0x94] @ '' ''
                   @ join_with '', '' (classLabelsOf qs)
      in cappedAt (join_with [NL] (header # '''' # concat (map2 lineOfQuestion qs [1..<Suc (length qs)]))) MAX_BODY_CHARS)"

definition escalationItemOf :: "string \<Rightarrow> string \<Rightarrow> string" where
  "escalationItemOf i ticket = ESCALATION_ITEM_PREFIX @ i @ ''] Escalation on '' @ ticket @ '': a human answer is needed, see the Inbox''"

end
