(* ===== verification/Working_State.thy ===== *)
theory Working_State
  imports Fleet_Interfaces Human_Text
begin

text \<open>
  The working state of a session: six lists of short lines the agent keeps up to date (\<^verbatim>\<open>shared/workingState.ts\<close>,
  \<^verbatim>\<open>workingState/workingStateService.ts\<close>), the text its mirror file holds (\<^verbatim>\<open>renderWorkingState.ts\<close>), and the refusal of the
  end of a turn while the state is missing, old or behind the fleet (\<^verbatim>\<open>stateFreshness.ts\<close>, \<^verbatim>\<open>stopRefusal.ts\<close>).

  The table has one row per session, so it is a map. Whether the file system takes the mirror is an argument; the
  children of a session and their reopenings are read from rows the caller passes.
\<close>

section \<open>The sections\<close>

definition WORKING_STATE_MAX_ITEMS_PER_SECTION :: nat where "WORKING_STATE_MAX_ITEMS_PER_SECTION = 20"
definition WORKING_STATE_MAX_ITEM_CHARACTERS :: nat where "WORKING_STATE_MAX_ITEM_CHARACTERS = 300"

record sections =
  ws_plan :: "string list"
  ws_todo :: "string list"
  ws_remaining :: "string list"
  ws_questionsForHuman :: "string list"
  ws_internalQuestions :: "string list"
  ws_blockers :: "string list"

definition REFUSED_CODE_POINT_RANGES :: "(int \<times> int) list" where
  "REFUSED_CODE_POINT_RANGES =
     [(0x00, 0x08), (0x0A, 0x1F), (0x7F, 0x7F), (0x85, 0x85), (0x2028, 0x2029), (0x202A, 0x202E), (0x2066, 0x2069)]"

definition isRefusedCodePoint :: "int \<Rightarrow> bool" where
  "isRefusedCodePoint n \<longleftrightarrow> list_ex (\<lambda>(first, final). first \<le> n \<and> n \<le> final) REFUSED_CODE_POINT_RANGES"

definition isPrintableSingleLine :: "string \<Rightarrow> bool" where
  "isPrintableSingleLine item \<longleftrightarrow> \<not> list_ex (\<lambda>ch. isRefusedCodePoint (code_point ch)) (utf8_chars item)"

definition isNotHeading :: "string \<Rightarrow> bool" where
  "isNotHeading item \<longleftrightarrow> \<not> starts_with item ''#''"

text \<open>What \<open>SectionSchema\<close> makes of an item: trimmed first, then checked.\<close>

definition item_schema :: "string \<Rightarrow> string option" where
  "item_schema item =
     (let trimmed = js_trim item
      in if 1 \<le> utf16_length trimmed \<and> utf16_length trimmed \<le> WORKING_STATE_MAX_ITEM_CHARACTERS \<and> isPrintableSingleLine trimmed \<and> isNotHeading trimmed
         then Some trimmed else None)"

definition SectionSchema :: "string list \<Rightarrow> string list option" where
  "SectionSchema items =
     (if length items \<le> WORKING_STATE_MAX_ITEMS_PER_SECTION \<and> list_all (\<lambda>item. item_schema item \<noteq> None) items
      then Some (map (\<lambda>item. the (item_schema item)) items) else None)"

definition WorkingStateSectionsSchema :: "sections \<Rightarrow> sections option" where
  "WorkingStateSectionsSchema s =
     (case (SectionSchema (ws_plan s), SectionSchema (ws_todo s), SectionSchema (ws_remaining s),
            SectionSchema (ws_questionsForHuman s), SectionSchema (ws_internalQuestions s), SectionSchema (ws_blockers s)) of
        (Some p, Some t, Some r, Some q, Some i, Some b) \<Rightarrow>
          Some \<lparr>ws_plan = p, ws_todo = t, ws_remaining = r, ws_questionsForHuman = q, ws_internalQuestions = i, ws_blockers = b\<rparr>
      | _ \<Rightarrow> None)"

section \<open>The mirror text\<close>

definition HEADING_OF_SECTION :: "string list" where
  "HEADING_OF_SECTION =
     [''Plan'', ''Todo'', ''Reste '' @ [CHR 0xC3, CHR 0xA0] @ '' faire'', ''Questions pour l'' @ [CHR 0x27] @ ''humain'', ''Questions internes'', ''Blocages'']"

definition WORKING_STATE_SECTIONS :: "sections \<Rightarrow> string list list" where
  "WORKING_STATE_SECTIONS s =
     [ws_plan s, ws_todo s, ws_remaining s, ws_questionsForHuman s, ws_internalQuestions s, ws_blockers s]"

definition NOTHING_LINE :: string where "NOTHING_LINE = ''(rien)''"

definition section_lines :: "string list \<Rightarrow> string list" where
  "section_lines items = (if items = [] then [NOTHING_LINE] else map (\<lambda>item. ''- '' @ item) items)"

definition render_section :: "string \<Rightarrow> string list \<Rightarrow> string" where
  "render_section heading items = ''## '' @ heading @ [NL] @ join_with [NL] (section_lines items) @ [NL]"

definition renderWorkingState :: "sections \<Rightarrow> string" where
  "renderWorkingState s = join_with [NL] (map2 render_section HEADING_OF_SECTION (WORKING_STATE_SECTIONS s))"

section \<open>The service\<close>

record stored_state =
  sd_sections :: sections
  sd_updatedAt :: instant

record working_states =
  wt_rows :: "string \<Rightarrow> stored_state option"
  wt_mirrors :: "string \<Rightarrow> string option" \<comment> \<open>the files under \<open>stateRoot\<close>\<close>

datatype working_state_error = SectionsRefused | WorkingStateTooLarge nat nat

record state_update =
  su_updatedAt :: instant
  su_mirrorWarning :: bool
  su_newQuestionCount :: nat \<comment> \<open>told to the \<open>onQuestionsAsked\<close> listeners when it is not 0\<close>

definition isSafeMirrorFileStem :: "string \<Rightarrow> bool" where
  "isSafeMirrorFileStem sessionId \<longleftrightarrow> length sessionId = 36 \<and> list_all (\<lambda>c. is_digit c \<or> c \<in> set ''abcdef-'') sessionId"

definition newQuestionsOf :: "string list \<Rightarrow> string list \<Rightarrow> string list" where
  "newQuestionsOf alreadyAsked nowAsked = filter (\<lambda>q. q \<notin> set alreadyAsked) (rev (remdups (rev nowAsked)))"

definition writeMirror :: "bool \<Rightarrow> string \<Rightarrow> sections \<Rightarrow> working_states \<Rightarrow> bool \<times> working_states" where
  "writeMirror takesFile sessionId s st =
     (if isSafeMirrorFileStem sessionId \<and> takesFile
      then (False, st\<lparr>wt_mirrors := (wt_mirrors st)(sessionId \<mapsto> renderWorkingState s)\<rparr>) else (True, st))"

definition get_state :: "string \<Rightarrow> working_states \<Rightarrow> stored_state option" where
  "get_state sessionId st = wt_rows st sessionId"

definition update_state ::
  "nat \<Rightarrow> bool \<Rightarrow> instant \<Rightarrow> string \<Rightarrow> sections \<Rightarrow> working_states \<Rightarrow> working_state_error + state_update \<times> working_states" where
  "update_state maxBytes takesFile now sessionId candidate st =
     (case WorkingStateSectionsSchema candidate of
        None \<Rightarrow> Inl SectionsRefused
      | Some s \<Rightarrow>
          (let bytes = length (renderWorkingState s)
           in if maxBytes < bytes then Inl (WorkingStateTooLarge bytes maxBytes)
              else (let asked = (case get_state sessionId st of None \<Rightarrow> [] | Some sd \<Rightarrow> ws_questionsForHuman (sd_sections sd));
                        stored = st\<lparr>wt_rows := (wt_rows st)(sessionId \<mapsto> \<lparr>sd_sections = s, sd_updatedAt = now\<rparr>)\<rparr>;
                        (warned, st') = writeMirror takesFile sessionId s stored
                    in Inr (\<lparr>su_updatedAt = now, su_mirrorWarning = warned, su_newQuestionCount = length (newQuestionsOf asked (ws_questionsForHuman s))\<rparr>, st'))))"

section \<open>The end of a turn\<close>

datatype change_kind = Spawned | ClosedKind | Reopened

record fleet_change =
  fc_name :: string
  fc_kind :: change_kind
  fc_changedAt :: instant

record child_row =
  ch_name :: string
  ch_parent :: "string option"
  ch_createdAt :: instant
  ch_closedAt :: "instant option"
  ch_reopenedAt :: "instant list" \<comment> \<open>its \<open>reopened\<close> rows of \<open>session_events\<close>\<close>

definition changes_of :: "string \<Rightarrow> child_row list \<Rightarrow> fleet_change list" where
  "changes_of sessionId rows =
     (let children = filter (\<lambda>c. ch_parent c = Some sessionId) rows
      in map (\<lambda>c. \<lparr>fc_name = ch_name c, fc_kind = Spawned, fc_changedAt = ch_createdAt c\<rparr>) children
         @ concat (map (\<lambda>c. case ch_closedAt c of None \<Rightarrow> [] | Some t \<Rightarrow> [\<lparr>fc_name = ch_name c, fc_kind = ClosedKind, fc_changedAt = t\<rparr>]) children)
         @ concat (map (\<lambda>c. map (\<lambda>t. \<lparr>fc_name = ch_name c, fc_kind = Reopened, fc_changedAt = t\<rparr>) (ch_reopenedAt c)) children))"

definition fleetChangedAt :: "string \<Rightarrow> child_row list \<Rightarrow> instant option" where
  "fleetChangedAt sessionId rows =
     (case changes_of sessionId rows of [] \<Rightarrow> None | c # cs \<Rightarrow> Some (fold max (map fc_changedAt cs) (fc_changedAt c)))"

fun text_le :: "string \<Rightarrow> string \<Rightarrow> bool" where
  "text_le [] t = True"
| "text_le (c # s) [] = False"
| "text_le (c # s) (d # t) = (if c = d then text_le s t else (of_char c :: int) < of_char d)"

text \<open>\<open>ORDER BY changedAt, name\<close>, by insertion.\<close>

definition fleetChanges :: "string \<Rightarrow> child_row list \<Rightarrow> fleet_change list" where
  "fleetChanges sessionId rows =
     (let earlier = (\<lambda>a b. fc_changedAt a < fc_changedAt b \<or> fc_changedAt a = fc_changedAt b \<and> text_le (fc_name a) (fc_name b));
          place = (\<lambda>c cs. takeWhile (\<lambda>d. \<not> (earlier c d)) cs @ c # dropWhile (\<lambda>d. \<not> (earlier c d)) cs)
      in foldr place (changes_of sessionId rows) [])"

definition MINUTE_MS :: nat where "MINUTE_MS = 60000"

definition ageMsOf :: "stored_state \<Rightarrow> instant \<Rightarrow> int" where
  "ageMsOf sd now = int now - int (sd_updatedAt sd)"

definition isOlderThanLimit :: "int \<Rightarrow> nat \<Rightarrow> bool" where
  "isOlderThanLimit ageMs maxAgeMinutes \<longleftrightarrow> int (maxAgeMinutes * MINUTE_MS) < ageMs"

definition isWrittenBeforeFleetChanged :: "stored_state \<Rightarrow> instant option \<Rightarrow> bool" where
  "isWrittenBeforeFleetChanged sd changedAt \<longleftrightarrow> (case changedAt of None \<Rightarrow> False | Some t \<Rightarrow> sd_updatedAt sd < t)"

definition ageInWholeMinutes :: "int \<Rightarrow> int" where
  "ageInWholeMinutes ageMs = ageMs div int MINUTE_MS"

definition MAX_CHILDREN_NAMED :: nat where "MAX_CHILDREN_NAMED = 10"

definition kind_name :: "change_kind \<Rightarrow> string" where
  "kind_name k = (case k of Spawned \<Rightarrow> ''spawned'' | ClosedKind \<Rightarrow> ''closed'' | Reopened \<Rightarrow> ''reopened'')"

definition distinctChildKindEntries :: "fleet_change list \<Rightarrow> string list" where
  "distinctChildKindEntries changes = rev (remdups (rev (map (\<lambda>c. fc_name c @ '' ('' @ kind_name (fc_kind c) @ '')'') changes)))"

datatype stop_reason =
    MissingState
  | StaleByAge int nat
  | StaleByFleet "string list" nat \<comment> \<open>the children named, and how many more\<close>
  | Oversize nat nat

record stop_settings =
  ss_enforce :: bool
  ss_maxAgeMinutes :: nat
  ss_maxBytes :: nat

definition staleByFleetReason :: "string \<Rightarrow> stored_state \<Rightarrow> child_row list \<Rightarrow> stop_reason" where
  "staleByFleetReason sessionId sd rows =
     (let entries = distinctChildKindEntries (filter (\<lambda>c. sd_updatedAt sd < fc_changedAt c) (fleetChanges sessionId rows));
          named = take MAX_CHILDREN_NAMED entries
      in StaleByFleet named (length entries - length named))"

definition reasonToRefuseStoredState :: "stop_settings \<Rightarrow> instant \<Rightarrow> string \<Rightarrow> child_row list \<Rightarrow> stored_state \<Rightarrow> stop_reason option" where
  "reasonToRefuseStoredState settings now sessionId rows sd =
     (let ageMs = ageMsOf sd now; bytes = length (renderWorkingState (sd_sections sd))
      in if isOlderThanLimit ageMs (ss_maxAgeMinutes settings) then Some (StaleByAge (ageInWholeMinutes ageMs) (ss_maxAgeMinutes settings))
         else if isWrittenBeforeFleetChanged sd (fleetChangedAt sessionId rows) then Some (staleByFleetReason sessionId sd rows)
         else if ss_maxBytes settings < bytes then Some (Oversize bytes (ss_maxBytes settings))
         else None)"

definition decide_stop :: "stop_settings \<Rightarrow> instant \<Rightarrow> child_row list \<Rightarrow> string \<Rightarrow> bool \<Rightarrow> working_states \<Rightarrow> stop_reason option" where
  "decide_stop settings now rows sessionId stopHookActive st =
     (if stopHookActive \<or> \<not> ss_enforce settings then None
      else case get_state sessionId st of
             None \<Rightarrow> Some MissingState
           | Some sd \<Rightarrow> reasonToRefuseStoredState settings now sessionId rows sd)"

section \<open>What is stored\<close>

definition item_ok :: "string \<Rightarrow> bool" where
  "item_ok item \<longleftrightarrow> item_schema item = Some item"

lemma item_schema_ok: "item_schema item = Some item' \<Longrightarrow> item_ok item'"
  by (auto simp: item_ok_def item_schema_def Let_def split: if_splits)

lemma SectionSchema_Some:
  "SectionSchema items = Some items' \<Longrightarrow> length items' = length items \<and> length items' \<le> WORKING_STATE_MAX_ITEMS_PER_SECTION \<and> list_all item_ok items'"
  by (fastforce simp: SectionSchema_def list_all_iff split: if_splits dest: item_schema_ok)

lemma SectionSchema_fixed:
  "length items \<le> WORKING_STATE_MAX_ITEMS_PER_SECTION \<Longrightarrow> list_all item_ok items \<Longrightarrow> SectionSchema items = Some items"
  by (auto simp: SectionSchema_def item_ok_def list_all_iff intro: map_idI)

lemmas section_sels = WORKING_STATE_SECTIONS_def

definition sections_ok :: "sections \<Rightarrow> bool" where
  "sections_ok s \<longleftrightarrow> list_all (\<lambda>items. length items \<le> WORKING_STATE_MAX_ITEMS_PER_SECTION \<and> list_all item_ok items) (WORKING_STATE_SECTIONS s)"

lemma schema_ok: "WorkingStateSectionsSchema s = Some s' \<Longrightarrow> sections_ok s'"
  by (auto simp: WorkingStateSectionsSchema_def sections_ok_def section_sels split: option.splits dest!: SectionSchema_Some)

lemma schema_fixed: "sections_ok s \<Longrightarrow> WorkingStateSectionsSchema s = Some s"
  by (simp add: WorkingStateSectionsSchema_def sections_ok_def section_sels SectionSchema_fixed)

section \<open>The mirror text reads back\<close>

text \<open>The text is its lines: a heading, the lines of the section, an empty line, for each section.\<close>

definition block_lines :: "string \<Rightarrow> string list \<Rightarrow> string list" where
  "block_lines heading items = (''## '' @ heading) # section_lines items @ ['''']"

lemma section_lines_ne [simp]: "section_lines items \<noteq> []"
  by (simp add: section_lines_def)

lemma render_section_lines: "render_section heading items = join_with [NL] (block_lines heading items)"
proof -
  have "block_lines heading items = [''## '' @ heading] @ section_lines items @ ['''']" by (simp add: block_lines_def)
  then have "join_with [NL] (block_lines heading items) = join_with [NL] ([''## '' @ heading] @ section_lines items @ [''''])" by simp
  also have "\<dots> = (''## '' @ heading) @ [NL] @ join_with [NL] (section_lines items) @ [NL]"
    by (subst join_with_append; (subst join_with_append)?; simp)
  finally show ?thesis by (simp add: render_section_def)
qed

lemma join_with_blocks:
  "\<forall>b \<in> set bs. b \<noteq> [] \<Longrightarrow> join_with [NL] (map (join_with [NL]) bs) = join_with [NL] (concat bs)"
proof (induction bs)
  case (Cons b bs)
  show ?case
  proof (cases bs)
    case (Cons b' bs')
    then have "concat bs \<noteq> []" using Cons.prems by auto
    then show ?thesis using Cons.IH Cons.prems Cons by (simp add: join_with_append)
  qed simp
qed simp

definition state_lines :: "sections \<Rightarrow> string list" where
  "state_lines s = concat (map2 block_lines HEADING_OF_SECTION (WORKING_STATE_SECTIONS s))"

lemma render_lines: "renderWorkingState s = join_with [NL] (state_lines s)"
proof -
  have "map2 render_section HEADING_OF_SECTION (WORKING_STATE_SECTIONS s)
      = map (join_with [NL]) (map2 block_lines HEADING_OF_SECTION (WORKING_STATE_SECTIONS s))"
    by (simp add: render_section_lines map2_map_map o_def case_prod_beta)
  moreover have "\<forall>b \<in> set (map2 block_lines HEADING_OF_SECTION (WORKING_STATE_SECTIONS s)). b \<noteq> []" by (auto simp: block_lines_def)
  ultimately show ?thesis unfolding renderWorkingState_def state_lines_def by (simp only: join_with_blocks)
qed

lemma item_ok_clean:
  assumes "item_ok item"
  shows "NL \<notin> set item \<and> item \<noteq> []"
proof -
  have "isPrintableSingleLine item" using assms by (auto simp: item_ok_def item_schema_def Let_def split: if_splits)
  moreover have "isRefusedCodePoint (code_point [NL])" by (simp add: isRefusedCodePoint_def REFUSED_CODE_POINT_RANGES_def code_point_def)
  ultimately have "[NL] \<notin> set (utf8_chars item)" by (auto simp: isPrintableSingleLine_def list_ex_iff)
  then have "NL \<notin> set item" using utf8_chars_ascii [of NL item] by auto
  moreover have "item \<noteq> []" using assms by (auto simp: item_ok_def item_schema_def Let_def utf16_length_def split: if_splits)
  ultimately show ?thesis by simp
qed

lemma section_lines_inj:
  "section_lines items = section_lines items' \<longleftrightarrow> items = items'"
  by (auto simp: section_lines_def NOTHING_LINE_def inj_map_eq_map inj_def)

lemma section_lines_clean:
  "list_all item_ok items \<Longrightarrow> l \<in> set (section_lines items) \<Longrightarrow> l \<noteq> [] \<and> NL \<notin> set l"
  using item_ok_clean by (auto simp: section_lines_def NOTHING_LINE_def list_all_iff split: if_splits)

lemma block_cut:
  assumes "list_all item_ok items" "list_all item_ok items'" "block_lines heading items @ ls = block_lines heading items' @ ls'"
  shows "items = items' \<and> ls = ls'"
proof -
  have "section_lines items @ '''' # ls = section_lines items' @ '''' # ls'" using assms(3) by (simp add: block_lines_def)
  moreover have "takeWhile (\<lambda>l. l \<noteq> []) (section_lines xs @ '''' # r) = section_lines xs" "dropWhile (\<lambda>l. l \<noteq> []) (section_lines xs @ '''' # r) = '''' # r"
    if "list_all item_ok xs" for xs and r :: "string list"
    using section_lines_clean [OF that] by (simp_all add: takeWhile_append2 dropWhile_append2)
  ultimately show ?thesis using assms(1,2) section_lines_inj by (metis list.inject)
qed

lemma state_lines_inj:
  assumes "sections_ok s" "sections_ok s'" "state_lines s = state_lines s'"
  shows "s = s'"
proof -
  have ok: "list_all item_ok (ws_plan s)" "list_all item_ok (ws_plan s')" "list_all item_ok (ws_todo s)" "list_all item_ok (ws_todo s')"
    "list_all item_ok (ws_remaining s)" "list_all item_ok (ws_remaining s')" "list_all item_ok (ws_questionsForHuman s)" "list_all item_ok (ws_questionsForHuman s')"
    "list_all item_ok (ws_internalQuestions s)" "list_all item_ok (ws_internalQuestions s')" "list_all item_ok (ws_blockers s)" "list_all item_ok (ws_blockers s')"
    using assms(1,2) by (simp_all add: sections_ok_def section_sels)
  note cut = block_cut [OF ok(1,2)] block_cut [OF ok(3,4)] block_cut [OF ok(5,6)] block_cut [OF ok(7,8)] block_cut [OF ok(9,10)]
    block_cut [OF ok(11,12), of _ "[]" "[]"]
  from assms(3) have "ws_plan s = ws_plan s' \<and> ws_todo s = ws_todo s' \<and> ws_remaining s = ws_remaining s' \<and>
      ws_questionsForHuman s = ws_questionsForHuman s' \<and> ws_internalQuestions s = ws_internalQuestions s' \<and> ws_blockers s = ws_blockers s'"
    unfolding state_lines_def HEADING_OF_SECTION_def section_sels zip_Cons_Cons list.map case_prod_conv concat.simps append_Nil2 zip_Nil
    using cut by blast
  then show ?thesis by simp
qed

lemma state_lines_clean:
  assumes "sections_ok s" "l \<in> set (state_lines s)"
  shows "NL \<notin> set l"
  using assms section_lines_clean
  by (fastforce simp: state_lines_def HEADING_OF_SECTION_def section_sels sections_ok_def block_lines_def)

lemma render_inj:
  assumes "sections_ok s" "sections_ok s'"
  shows "renderWorkingState s = renderWorkingState s' \<longleftrightarrow> s = s'"
proof
  have lines: "split_on NL (renderWorkingState x) = state_lines x" if "sections_ok x" for x
    unfolding render_lines using state_lines_clean [OF that]
    by (intro split_join) (auto simp: state_lines_def HEADING_OF_SECTION_def section_sels block_lines_def)
  assume "renderWorkingState s = renderWorkingState s'"
  then have "state_lines s = state_lines s'" using lines assms by metis
  then show "s = s'" using state_lines_inj assms by blast
qed simp

section \<open>Runs\<close>

text \<open>Updates of sessions one after the other, each with its instant and whether its file could be written; a refused one
  changes nothing.\<close>

definition state_step :: "nat \<Rightarrow> bool \<times> instant \<times> string \<times> sections \<Rightarrow> working_states \<Rightarrow> working_states" where
  "state_step maxBytes call st =
     (case call of (takesFile, now, sessionId, candidate) \<Rightarrow>
        (case update_state maxBytes takesFile now sessionId candidate st of Inl e \<Rightarrow> st | Inr (u, st') \<Rightarrow> st'))"

definition no_states :: working_states where
  "no_states = \<lparr>wt_rows = Map.empty, wt_mirrors = Map.empty\<rparr>"

definition stored_ok :: "nat \<Rightarrow> stored_state \<Rightarrow> bool" where
  "stored_ok maxBytes sd \<longleftrightarrow> sections_ok (sd_sections sd) \<and> length (renderWorkingState (sd_sections sd)) \<le> maxBytes"

lemma update_stateD:
  assumes "update_state maxBytes takesFile now sessionId candidate st = Inr (u, st')"
  shows "\<exists>s. WorkingStateSectionsSchema candidate = Some s \<and> stored_ok maxBytes \<lparr>sd_sections = s, sd_updatedAt = now\<rparr>
    \<and> wt_rows st' = (wt_rows st)(sessionId \<mapsto> \<lparr>sd_sections = s, sd_updatedAt = now\<rparr>)"
  using assms
  by (auto simp: update_state_def writeMirror_def stored_ok_def Let_def split: option.splits if_splits dest: schema_ok)

lemma run_stored_ok:
  "\<forall>sid sd. wt_rows st sid = Some sd \<longrightarrow> stored_ok maxBytes sd \<Longrightarrow>
   wt_rows (fold (state_step maxBytes) calls st) sid = Some sd \<Longrightarrow> stored_ok maxBytes sd"
proof (induction calls arbitrary: st)
  case (Cons call calls)
  have "\<forall>sid sd. wt_rows (state_step maxBytes call st) sid = Some sd \<longrightarrow> stored_ok maxBytes sd"
    using Cons.prems(1) by (fastforce simp: state_step_def split: sum.splits prod.splits if_splits dest!: update_stateD)
  with Cons show ?case by simp
qed simp

lemma set_fleetChanges: "set (fleetChanges sessionId rows) = set (changes_of sessionId rows)"
proof -
  have "set (foldr (\<lambda>c cs. takeWhile (\<lambda>d. \<not> P c d) cs @ c # dropWhile (\<lambda>d. \<not> P c d) cs) xs []) = set xs"
    for P and xs :: "fleet_change list"
    by (induction xs) (simp_all, metis Un_insert_right set_append takeWhile_dropWhile_id)
  then show ?thesis unfolding fleetChanges_def Let_def .
qed

lemma fleetChangedAt_bound:
  "isWrittenBeforeFleetChanged sd (fleetChangedAt sessionId rows) \<longleftrightarrow> (\<exists>c \<in> set (fleetChanges sessionId rows). sd_updatedAt sd < fc_changedAt c)"
proof -
  have "t < fold max ts (n::nat) \<longleftrightarrow> t < n \<or> (\<exists>x \<in> set ts. t < x)" for t ts n
    by (induction ts arbitrary: n) auto
  then show ?thesis
    by (auto simp: set_fleetChanges isWrittenBeforeFleetChanged_def fleetChangedAt_def split: list.splits)
qed

section \<open>Properties\<close>

text \<open>Whatever updates were made, every stored working state has the six sections its schema describes (short, printable,
  trimmed lines, at most twenty in each section), so reading it through the schema again changes nothing, and its text
  is within the cap.\<close>

theorem stored_states_are_well_typed:
  assumes "get_state sessionId (fold (state_step maxBytes) calls no_states) = Some sd"
  shows "WorkingStateSectionsSchema (sd_sections sd) = Some (sd_sections sd) \<and> length (renderWorkingState (sd_sections sd)) \<le> maxBytes"
  using run_stored_ok [of no_states maxBytes calls sessionId sd] assms schema_fixed by (simp add: get_state_def no_states_def stored_ok_def)

definition example_sections :: sections where
  "example_sections = \<lparr>ws_plan = ['' ship it ''], ws_todo = [], ws_remaining = [], ws_questionsForHuman = [''which name?''], ws_internalQuestions = [], ws_blockers = []\<rparr>"

text \<open>C35: The text of the mirror file tells the state it was written from: two accepted states have the same text exactly when
  they are the same.\<close>

theorem mirror_text_decides_the_state:
  assumes "WorkingStateSectionsSchema c = Some s" "WorkingStateSectionsSchema c' = Some s'"
  shows "renderWorkingState s = renderWorkingState s' \<longleftrightarrow> s = s'"
  using render_inj assms schema_ok by blast

theorem mirror_text_decides_the_state_witness:
  "renderWorkingState (the (WorkingStateSectionsSchema example_sections)) \<noteq> renderWorkingState (the (WorkingStateSectionsSchema (example_sections\<lparr>ws_todo := [''(rien)'']\<rparr>)))"
proof -
  have "WorkingStateSectionsSchema example_sections \<noteq> None" by code_simp
  moreover have "WorkingStateSectionsSchema (example_sections\<lparr>ws_todo := [''(rien)'']\<rparr>) \<noteq> None" by code_simp
  moreover have "ws_todo (the (WorkingStateSectionsSchema example_sections)) \<noteq> ws_todo (the (WorkingStateSectionsSchema (example_sections\<lparr>ws_todo := [''(rien)'']\<rparr>)))" by code_simp
  ultimately show ?thesis using mirror_text_decides_the_state by (metis not_None_eq option.sel)
qed

text \<open>While the refusal is enforced, a turn that did not just go on after a refusal ends exactly when the session has a
  working state that is not older than the limit, was written after every change of its fleet and is within the cap.\<close>

theorem turn_ends_exactly_with_a_fresh_state:
  assumes "ss_enforce settings"
  shows "decide_stop settings now rows sessionId False st = None \<longleftrightarrow>
    (\<exists>sd. get_state sessionId st = Some sd \<and> now \<le> sd_updatedAt sd + ss_maxAgeMinutes settings * 60000
      \<and> (\<forall>c \<in> set (fleetChanges sessionId rows). fc_changedAt c \<le> sd_updatedAt sd)
      \<and> length (renderWorkingState (sd_sections sd)) \<le> ss_maxBytes settings)"
proof -
  have "isOlderThanLimit (ageMsOf sd now) m \<longleftrightarrow> sd_updatedAt sd + m * 60000 < now" for sd m
    by (auto simp: isOlderThanLimit_def ageMsOf_def MINUTE_MS_def)
  then show ?thesis
    using assms by (auto simp: decide_stop_def reasonToRefuseStoredState_def fleetChangedAt_bound not_less Let_def split: option.splits)
       (force simp: not_le)
qed

end
