(* ===== verification/Escalations.thy ===== *)
theory Escalations
  imports Escalation_Store Working_State
begin

text \<open>
  The escalation service, \<^verbatim>\<open>escalation/escalationService.ts\<close>, with the audit writer it uses (\<^verbatim>\<open>auditWriter.ts\<close>): a manager
  submits the questions of a plan, each is routed, the arbiter decides those that wait for it, and those that need a human
  gather in the one open escalation of their ticket, listed in the working state of the manager.

  An operation that throws inside its transaction answers with the error and changes nothing. The clock, new ids, the notes
  and the journal table are functions of a world; the events the service sends out are appended to a list. The callers
  check that the manager exists and that its ticket is an identifier, so the foreign key and the check of the schema on them
  always hold.
\<close>

section \<open>State\<close>

datatype escalation_error =
    BlankClaim string | LacksEvidence string | ReopenNeedsEvidence string | ReopenOfUndecided string | ReopenedTwice string
  | HumanListFull | OpinionMismatch "string list" "string list" | FavourableHeldBack "string list"
  | AnswersMismatch "string list" "string list" "string list" | NothingToRetry
  | EscalationNotFound | EscalationResolved | UniqueKey | StateRefused working_state_error

text \<open>The errors with the code \<open>invalid_body\<close>.\<close>

definition is_invalid_body :: "escalation_error \<Rightarrow> bool" where
  "is_invalid_body e =
     (case e of EscalationNotFound \<Rightarrow> False | EscalationResolved \<Rightarrow> False | UniqueKey \<Rightarrow> False | StateRefused _ \<Rightarrow> False | _ \<Rightarrow> True)"

record question_view =
  qv_questionId :: string
  qv_text :: string
  qv_declaredClass :: string
  qv_effectiveClasses :: "escalating_class list"
  qv_answered :: bool
  qv_reason :: "string option"
  qv_options :: "string list option"
  qv_recommendation :: "string option"
  qv_humanAnswer :: "string option"
  qv_answeredAt :: "instant option"

record escalation_view =
  evw_escalation :: stored_escalation
  evw_questions :: "question_view list"

datatype escalation_event =
    EscalationRaised escalation_view
  | EscalationAnswered escalation_view
  | ManagerTold string string "string option"
  | AnswerNotified escalation_view

record 'w escalations =
  es_tables :: escalation_tables
  es_working :: working_states
  es_events :: "escalation_event list"
  es_world :: 'w

record journal_column =
  jc_id :: string
  jc_isText :: bool
  jc_displayName :: string

text \<open>\<open>ev_journalOf\<close> answers the journal table and the project of a manager that is bound to one; \<open>ev_appendNote\<close> and
  \<open>ev_insertRows\<close> answer \<open>None\<close> when they throw.\<close>

record 'w escalation_env =
  ev_text :: text_env
  ev_clock :: "'w \<Rightarrow> instant"
  ev_newId :: "'w \<Rightarrow> string \<times> 'w"
  ev_stateMaxBytes :: nat
  ev_takesFile :: bool
  ev_isMissionNote :: "string \<Rightarrow> bool"
  ev_noteRev :: "'w \<Rightarrow> string \<Rightarrow> nat option"
  ev_appendNote :: "string \<Rightarrow> string \<Rightarrow> string \<Rightarrow> 'w \<Rightarrow> 'w option"
  ev_journalOf :: "string \<Rightarrow> (string \<times> string) option"
  ev_journalColumns :: "string \<Rightarrow> journal_column list option"
  ev_insertRows :: "string \<Rightarrow> string \<Rightarrow> (string \<times> string) list list \<Rightarrow> 'w \<Rightarrow> 'w option"
  ev_decisionsReadable :: "string \<Rightarrow> string \<Rightarrow> string \<Rightarrow> bool"

definition es_now :: "'w escalation_env \<Rightarrow> 'w escalations \<Rightarrow> instant" where
  "es_now env st = ev_clock env (es_world st)"

definition on_tables :: "(escalation_tables \<Rightarrow> escalation_tables) \<Rightarrow> 'w escalations \<Rightarrow> 'w escalations" where
  "on_tables f st = st\<lparr>es_tables := f (es_tables st)\<rparr>"

definition send :: "escalation_event \<Rightarrow> 'w escalations \<Rightarrow> 'w escalations" where
  "send e st = st\<lparr>es_events := es_events st @ [e]\<rparr>"

section \<open>The audit trail\<close>

definition ARBITER_AUTHOR :: string where "ARBITER_AUTHOR = ''arbiter''"
definition JOURNAL_NOT_BOUND_WARNING :: string where "JOURNAL_NOT_BOUND_WARNING = ''journal_not_bound''"
definition JOURNAL_WRITE_FAILED_WARNING :: string where "JOURNAL_WRITE_FAILED_WARNING = ''journal_write_failed''"
definition PLAN_NOTE_UNAVAILABLE_WARNING :: string where "PLAN_NOTE_UNAVAILABLE_WARNING = ''plan_note_unavailable''"
definition JOURNAL_TEXT_COLUMN_NAMES :: "string list" where "JOURNAL_TEXT_COLUMN_NAMES = [''journal'', ''entry'']"
definition AUTHOR_COLUMN_NAME :: string where "AUTHOR_COLUMN_NAME = ''author''"

record audited_decision =
  au_questionId :: string
  au_questionText :: string
  au_verdict :: verdict
  au_decision :: string
  au_rationale :: string
  au_raiseTo :: "escalating_class option"
  au_evidence :: "repro_claim option"

definition nameOf :: "text_env \<Rightarrow> journal_column \<Rightarrow> string" where
  "nameOf te column = te_lower te (js_trim (te_nfc te (jc_displayName column)))"

definition repro_status_name :: "repro_status \<Rightarrow> string" where
  "repro_status_name s = (case s of Proven \<Rightarrow> ''proven'' | Plausible \<Rightarrow> ''plausible'' | NotReproduced \<Rightarrow> ''not_reproduced'')"

definition verdict_name :: "verdict \<Rightarrow> string" where
  "verdict_name v = (case v of VDecided \<Rightarrow> ''decided'' | VNeedsHuman \<Rightarrow> ''needs_human'')"

definition EM_DASH :: string where "EM_DASH = [CHR 0xE2, CHR 0x80, CHR 0x94]"
definition MIDDLE_DOT :: string where "MIDDLE_DOT = [CHR 0xC2, CHR 0xB7]"

definition sectionContentOf :: "stored_batch \<Rightarrow> string \<Rightarrow> audited_decision \<Rightarrow> nat \<Rightarrow> string" where
  "sectionContentOf b arbiterSessionId d auditedRev =
     join_with [NL, NL]
       ([''Ticket: '' @ bt_ticket b @ '' '' @ MIDDLE_DOT @ '' audited revision of this note: '' @ nat_digits auditedRev @ '' '' @ MIDDLE_DOT
           @ '' arbiter session: '' @ arbiterSessionId,
         ''Question: '' @ au_questionText d,
         ''Verdict: '' @ verdict_name (au_verdict d),
         ''Decision: '' @ au_decision d,
         ''Rationale: '' @ au_rationale d]
        @ (case au_raiseTo d of None \<Rightarrow> [] | Some c \<Rightarrow> [''Raised to: '' @ class_name c])
        @ (case au_evidence d of None \<Rightarrow> [] | Some r \<Rightarrow>
             [''Evidence ('' @ repro_status_name (rc_status r) @ ''): '' @ rc_claim r
              @ (case rc_command r of None \<Rightarrow> '''' | Some c \<Rightarrow> if c = '''' then '''' else '' '' @ EM_DASH @ '' '' @ c)]))"

text \<open>The loop over the decisions; an append that throws ends it, what was appended before stays.\<close>

fun append_sections :: "'w escalation_env \<Rightarrow> stored_batch \<Rightarrow> string \<Rightarrow> nat \<Rightarrow> audited_decision list \<Rightarrow> 'w \<Rightarrow> bool \<times> 'w" where
  "append_sections env b arbiterSessionId auditedRev [] w = (True, w)"
| "append_sections env b arbiterSessionId auditedRev (d # ds) w =
     (case ev_appendNote env (bt_planNoteId b) (''Arbiter decision '' @ bt_id b @ '' '' @ au_questionId d) (sectionContentOf b arbiterSessionId d auditedRev) w of
        None \<Rightarrow> (False, w)
      | Some w' \<Rightarrow> append_sections env b arbiterSessionId auditedRev ds w')"

definition appendDecisionSections :: "'w escalation_env \<Rightarrow> stored_batch \<Rightarrow> string \<Rightarrow> audited_decision list \<Rightarrow> 'w \<Rightarrow> (nat \<times> string list) \<times> 'w" where
  "appendDecisionSections env b arbiterSessionId ds w =
     (case ev_noteRev env w (bt_planNoteId b) of
        None \<Rightarrow> ((bt_planNoteRev b, [PLAN_NOTE_UNAVAILABLE_WARNING]), w)
      | Some auditedRev \<Rightarrow>
          if ev_isMissionNote env (bt_planNoteId b) then ((bt_planNoteRev b, [PLAN_NOTE_UNAVAILABLE_WARNING]), w)
          else (let (written, w') = append_sections env b arbiterSessionId auditedRev ds w
                in ((opt_default (bt_planNoteRev b) (ev_noteRev env w' (bt_planNoteId b)), if written then [] else [PLAN_NOTE_UNAVAILABLE_WARNING]), w')))"

definition journal :: "'w escalation_env \<Rightarrow> string \<Rightarrow> string list \<Rightarrow> string \<Rightarrow> 'w \<Rightarrow> string list \<times> 'w" where
  "journal env managerId entries author w =
     (case ev_journalOf env managerId of
        None \<Rightarrow> ([JOURNAL_NOT_BOUND_WARNING], w)
      | Some (logStoreId, projectId) \<Rightarrow>
          (case ev_journalColumns env logStoreId of
             None \<Rightarrow> ([JOURNAL_WRITE_FAILED_WARNING], w)
           | Some columns \<Rightarrow>
               (case find (\<lambda>c. jc_isText c \<and> nameOf (ev_text env) c \<in> set JOURNAL_TEXT_COLUMN_NAMES) columns of
                  None \<Rightarrow> ([JOURNAL_NOT_BOUND_WARNING], w)
                | Some textColumn \<Rightarrow>
                    (let items = (case find (\<lambda>c. jc_isText c \<and> nameOf (ev_text env) c = AUTHOR_COLUMN_NAME) columns of
                                    None \<Rightarrow> map (\<lambda>entry. [(jc_id textColumn, ''['' @ author @ ''] '' @ entry)]) entries
                                  | Some authorColumn \<Rightarrow> map (\<lambda>entry. [(jc_id textColumn, entry), (jc_id authorColumn, author)]) entries)
                     in case ev_insertRows env logStoreId projectId items w of
                          None \<Rightarrow> ([JOURNAL_WRITE_FAILED_WARNING], w)
                        | Some w' \<Rightarrow> ([], w')))))"

definition es_journal :: "'w escalation_env \<Rightarrow> string \<Rightarrow> string list \<Rightarrow> 'w escalations \<Rightarrow> string list \<times> 'w escalations" where
  "es_journal env managerId entries st =
     (let (warnings, w) = journal env managerId entries ARBITER_AUTHOR (es_world st) in (warnings, st\<lparr>es_world := w\<rparr>))"

section \<open>Views\<close>

definition truthy :: "string option \<Rightarrow> string option" where
  "truthy x = (if x = Some '''' then None else x)"

definition questionViewOf :: "stored_question \<Rightarrow> question_view" where
  "questionViewOf q =
     \<lparr>qv_questionId = qn_questionId q, qv_text = qn_text q, qv_declaredClass = qn_declaredClass q, qv_effectiveClasses = qn_effectiveClasses q,
      qv_answered = (qn_status q = QAnswered), qv_reason = truthy (qn_reason q), qv_options = qn_options q,
      qv_recommendation = truthy (qn_recommendation q), qv_humanAnswer = truthy (qn_humanAnswer q), qv_answeredAt = qn_answeredAt q\<rparr>"

definition viewOfStored :: "escalation_tables \<Rightarrow> stored_escalation \<Rightarrow> escalation_view" where
  "viewOfStored t e = \<lparr>evw_escalation = e, evw_questions = map questionViewOf (questionsOfEscalation (ec_id e) t)\<rparr>"

definition viewOf_escalation :: "string \<Rightarrow> escalation_tables \<Rightarrow> escalation_view option" where
  "viewOf_escalation i t = map_option (viewOfStored t) (findEscalation i t)"

definition listByStatus :: "escalation_status \<Rightarrow> 'w escalations \<Rightarrow> escalation_view list" where
  "listByStatus status st = map (viewOfStored (es_tables st)) (escalationsWithStatus status (es_tables st))"

definition listOfManager :: "string \<Rightarrow> 'w escalations \<Rightarrow> escalation_view list" where
  "listOfManager m st = map (viewOfStored (es_tables st)) (escalationsOfManager m (es_tables st))"

definition emitRaised :: "string \<Rightarrow> 'w escalations \<Rightarrow> 'w escalations" where
  "emitRaised i st = (case viewOf_escalation i (es_tables st) of None \<Rightarrow> st | Some v \<Rightarrow> send (EscalationRaised v) st)"

section \<open>Joining the escalation of a ticket\<close>

definition LIST_FULL_MESSAGE :: string where
  "LIST_FULL_MESSAGE = ''questions_for_human already holds 20 items, so the escalation cannot be listed there''"

definition LIST_FULL_HINT :: string where
  "LIST_FULL_HINT = ''Remove the answered questions with update_working_state, then submit again.''"

definition sectionsOf :: "stored_state option \<Rightarrow> sections" where
  "sectionsOf state =
     (case state of
        None \<Rightarrow> \<lparr>ws_plan = [], ws_todo = [], ws_remaining = [], ws_questionsForHuman = [], ws_internalQuestions = [], ws_blockers = []\<rparr>
      | Some sd \<Rightarrow> sd_sections sd)"

definition update_working :: "'w escalation_env \<Rightarrow> string \<Rightarrow> sections \<Rightarrow> 'w escalations \<Rightarrow> escalation_error + 'w escalations" where
  "update_working env managerId s st =
     (case update_state (ev_stateMaxBytes env) (ev_takesFile env) (es_now env st) managerId s (es_working st) of
        Inl e \<Rightarrow> Inl (StateRefused e)
      | Inr (_, working) \<Rightarrow> Inr (st\<lparr>es_working := working\<rparr>))"

definition ensureItemInQuestionsForHuman :: "'w escalation_env \<Rightarrow> string \<Rightarrow> stored_escalation \<Rightarrow> 'w escalations \<Rightarrow> escalation_error + 'w escalations" where
  "ensureItemInQuestionsForHuman env managerId e st =
     (let item = escalationItemOf (ec_id e) (ec_ticket e);
          s = sectionsOf (get_state managerId (es_working st))
      in if item \<in> set (ws_questionsForHuman s) then Inr st
         else if WORKING_STATE_MAX_ITEMS_PER_SECTION \<le> length (ws_questionsForHuman s) then Inl HumanListFull
         else update_working env managerId (s\<lparr>ws_questionsForHuman := ws_questionsForHuman s @ [item]\<rparr>) st)"

text \<open>What a hand-over does when the list is full: \<open>None\<close> refuses, \<open>Some reason\<close> marks the card with the reason.\<close>

definition listItemOrRefusal ::
  "'w escalation_env \<Rightarrow> string \<Rightarrow> stored_escalation \<Rightarrow> string option \<Rightarrow> 'w escalations \<Rightarrow> escalation_error + (string \<times> string) option \<times> 'w escalations" where
  "listItemOrRefusal env managerId e onFullList st =
     (case ensureItemInQuestionsForHuman env managerId e st of
        Inr st' \<Rightarrow> Inr (None, st')
      | Inl err \<Rightarrow>
          (case onFullList of
             None \<Rightarrow> Inl err
           | Some reason \<Rightarrow>
               if is_invalid_body err
               then Inr (Some (LIST_FULL_MESSAGE, LIST_FULL_HINT),
                         on_tables (setHandoverRefusal (ec_id e)
                           (Some \<lparr>hr_reason = reason, hr_refusal = LIST_FULL_MESSAGE, hr_hint = Some LIST_FULL_HINT, hr_at = es_now env st\<rparr>)) st)
               else Inl err))"

definition openEscalation :: "'w escalation_env \<Rightarrow> string \<Rightarrow> string \<Rightarrow> 'w escalations \<Rightarrow> escalation_error + stored_escalation \<times> 'w escalations" where
  "openEscalation env managerId ticket st =
     (let (i, w) = ev_newId env (es_world st)
      in and_then (or_fail UniqueKey (insertEscalation i managerId ticket '''' (ev_clock env w) (es_tables st))) (\<lambda>t.
         and_then (or_fail EscalationNotFound (findEscalation i t)) (\<lambda>e. Inr (e, st\<lparr>es_tables := t, es_world := w\<rparr>))))"

record escalated_to_human =
  eh_escalationId :: string
  eh_questionIds :: "string list"
  eh_listRefusal :: "(string \<times> string) option"

text \<open>The part of \<open>joinEscalation\<close> after the escalation is found or opened.\<close>

definition carry_questions ::
  "'w escalation_env \<Rightarrow> string \<Rightarrow> string \<Rightarrow> string \<Rightarrow> string list \<Rightarrow> string option \<Rightarrow> stored_escalation \<Rightarrow> 'w escalations \<Rightarrow> escalation_error + escalated_to_human \<times> 'w escalations" where
  "carry_questions env batchId managerId ticket questionIds onFullList e st =
     (let st2 = on_tables (fold (\<lambda>questionId. attachQuestionToEscalation (batchId, questionId) (ec_id e)) questionIds) st;
          body = renderEscalationBody (ec_id e) ticket (questionsOfEscalation (ec_id e) (es_tables st2));
          st3 = on_tables (updateEscalationBody (ec_id e) body) st2
      in and_then (listItemOrRefusal env managerId e onFullList st3) (\<lambda>(listRefusal, st4).
         let st5 = (if listRefusal = None \<and> ec_handoverRefusal e \<noteq> None then on_tables (setHandoverRefusal (ec_id e) None) st4 else st4)
         in Inr (\<lparr>eh_escalationId = ec_id e, eh_questionIds = questionIds, eh_listRefusal = listRefusal\<rparr>, st5)))"

definition joinEscalation ::
  "'w escalation_env \<Rightarrow> string \<Rightarrow> string \<Rightarrow> string \<Rightarrow> string list \<Rightarrow> string option \<Rightarrow> 'w escalations \<Rightarrow> escalation_error + escalated_to_human \<times> 'w escalations" where
  "joinEscalation env batchId managerId ticket questionIds onFullList st =
     and_then (case findPendingEscalation managerId ticket (es_tables st) of
                 Some e \<Rightarrow> Inr (e, st)
               | None \<Rightarrow> openEscalation env managerId ticket st)
       (\<lambda>(e, st1). carry_questions env batchId managerId ticket questionIds onFullList e st1)"

section \<open>Submitting the questions of a plan\<close>

definition ARBITER_DISPUTE_REASON :: string where "ARBITER_DISPUTE_REASON = ''arbiter_dispute''"
definition ARBITER_DEFERRED_REASON :: string where "ARBITER_DEFERRED_REASON = ''arbiter_deferred''"
definition ARBITER_UNAVAILABLE_REASON :: string where "ARBITER_UNAVAILABLE_REASON = ''arbiter_unavailable''"
definition ARBITER_QUOTA_REASON :: string where "ARBITER_QUOTA_REASON = ''arbiter_quota''"
definition CLASS_DISABLED_BY_PROJECT_REASON :: string where "CLASS_DISABLED_BY_PROJECT_REASON = ''class_disabled_by_project''"

record plan_question_batch =
  pb_managerId :: string
  pb_ticket :: string
  pb_planNoteId :: string
  pb_planNoteRev :: nat
  pb_questions :: "plan_question list"
  pb_policy :: escalation_policy

datatype reopen_kind = Review | Dispute

record reopen_plan =
  rp_kind :: reopen_kind
  rp_evidence :: repro_claim
  rp_contested :: "(string \<times> string) option"

record submitted_questions =
  sq_batchId :: string
  sq_selfResolved :: "string list"
  sq_arbiter :: "string list"
  sq_human :: "escalated_to_human option"
  sq_reopened :: "(string \<times> reopen_kind \<times> string option) list"

definition STATUS_OF_ROUTE :: "question_route \<Rightarrow> question_status" where
  "STATUS_OF_ROUTE r = (case r of ToHuman \<Rightarrow> QPendingHuman | ToSelf \<Rightarrow> QSelfResolved | ToArbiter \<Rightarrow> QOpen)"

definition reasonOf :: "question_routing \<Rightarrow> reopen_plan option \<Rightarrow> string option" where
  "reasonOf routing reopen =
     (if (case reopen of None \<Rightarrow> False | Some p \<Rightarrow> rp_kind p = Dispute) then Some ARBITER_DISPUTE_REASON
      else if qr_declared routing = UnknownClass then Some UNCLASSIFIED_LABEL
      else if qr_route routing = ToArbiter \<and> qr_disabledByProject routing \<noteq> [] then Some CLASS_DISABLED_BY_PROJECT_REASON
      else None)"

definition cleanResolutionOf :: "text_env \<Rightarrow> plan_question \<Rightarrow> escalation_error + repro_claim option" where
  "cleanResolutionOf te q =
     (case pq_resolution q of
        None \<Rightarrow> Inr None
      | Some r \<Rightarrow>
          (let clean = sanitizedReproClaim te r
           in if hasBlankClaim te clean then Inl (BlankClaim (pq_id q))
              else if lacksExecutedEvidence te clean then Inl (LacksEvidence (pq_id q))
              else Inr (Some clean)))"

fun withCleanResolutions :: "text_env \<Rightarrow> plan_question list \<Rightarrow> escalation_error + plan_question list" where
  "withCleanResolutions te [] = Inr []"
| "withCleanResolutions te (q # qs) =
     and_then (cleanResolutionOf te q) (\<lambda>r. and_then (withCleanResolutions te qs) (\<lambda>qs'. Inr (q\<lparr>pq_resolution := r\<rparr> # qs')))"

definition executedEvidenceOf :: "text_env \<Rightarrow> plan_question \<Rightarrow> escalation_error + repro_claim" where
  "executedEvidenceOf te q =
     (case pq_resolution q of
        None \<Rightarrow> Inl (ReopenNeedsEvidence (pq_id q))
      | Some r \<Rightarrow>
          (let evidence = sanitizedReproClaim te r
           in if \<not> hasBlankClaim te evidence \<and> isExecutedClaim evidence \<and> \<not> lacksExecutedEvidence te evidence
              then Inr evidence else Inl (ReopenNeedsEvidence (pq_id q))))"

fun planReopens ::
  "'w escalation_env \<Rightarrow> string \<Rightarrow> string \<Rightarrow> escalation_tables \<Rightarrow> plan_question list \<Rightarrow> (string \<Rightarrow> reopen_plan option) \<Rightarrow> (string \<times> string) list
   \<Rightarrow> escalation_error + (string \<Rightarrow> reopen_plan option)" where
  "planReopens env managerId ticket t [] plans contestedKeys = Inr plans"
| "planReopens env managerId ticket t (q # qs) plans contestedKeys =
     (case pq_reopens q of
        None \<Rightarrow> planReopens env managerId ticket t qs plans contestedKeys
      | Some reopens \<Rightarrow>
          and_then (executedEvidenceOf (ev_text env) q) (\<lambda>evidence.
          if \<not> ev_decisionsReadable env managerId ticket reopens
          then planReopens env managerId ticket t qs (plans(pq_id q \<mapsto> \<lparr>rp_kind = Dispute, rp_evidence = evidence, rp_contested = None\<rparr>)) contestedKeys
          else (case decidedQuestionForReopen managerId ticket reopens t of
                  None \<Rightarrow> Inl (ReopenOfUndecided (pq_id q))
                | Some target \<Rightarrow>
                    if qn_key target \<in> set contestedKeys \<or> isReopened (qn_key target) t then Inl (ReopenedTwice (pq_id q))
                    else planReopens env managerId ticket t qs
                           (plans(pq_id q \<mapsto> \<lparr>rp_kind = (if qn_reopens target \<noteq> None then Dispute else Review), rp_evidence = evidence,
                                              rp_contested = Some (qn_key target)\<rparr>))
                           (qn_key target # contestedKeys))))"

definition routingOf :: "text_env \<Rightarrow> plan_question \<Rightarrow> reopen_plan option \<Rightarrow> escalation_policy \<Rightarrow> question_routing" where
  "routingOf te q reopen policy =
     (let routing = routeQuestion te q policy
      in case reopen of None \<Rightarrow> routing | Some p \<Rightarrow> if rp_kind p = Dispute then routing\<lparr>qr_route := ToHuman\<rparr> else routing)"

definition newQuestionOf :: "text_env \<Rightarrow> string \<Rightarrow> plan_question \<Rightarrow> question_routing \<Rightarrow> reopen_plan option \<Rightarrow> stored_question" where
  "newQuestionOf te batchId q routing reopen =
     \<lparr>qn_batchId = batchId, qn_questionId = pq_id q, qn_text = humanReadableText te (pq_text q), qn_declaredClass = humanReadableText te (pq_class q),
      qn_computedClasses = qr_computed routing, qn_effectiveClasses = qr_effective routing, qn_route = qr_route routing,
      qn_status = STATUS_OF_ROUTE (qr_route routing), qn_reason = reasonOf routing reopen,
      qn_options = map_option (map (humanReadableText te)) (pq_options q), qn_recommendation = truthy (map_option (humanReadableText te) (pq_recommendation q)),
      qn_paths = map_option (map (humanReadableText te)) (pq_paths q),
      qn_resolution = (case reopen of None \<Rightarrow> pq_resolution q | Some p \<Rightarrow> Some (rp_evidence p)),
      qn_reopens = (case reopen of None \<Rightarrow> None | Some p \<Rightarrow> rp_contested p),
      qn_escalationId = None, qn_humanAnswer = None, qn_answeredAt = None\<rparr>"

fun insert_questions :: "stored_question list \<Rightarrow> escalation_tables \<Rightarrow> escalation_error + escalation_tables" where
  "insert_questions [] t = Inr t"
| "insert_questions (q # qs) t = and_then (or_fail UniqueKey (insertQuestion q t)) (insert_questions qs)"

definition routed_questions :: "text_env \<Rightarrow> string \<Rightarrow> escalation_policy \<Rightarrow> (string \<Rightarrow> reopen_plan option) \<Rightarrow> plan_question list \<Rightarrow> stored_question list" where
  "routed_questions te batchId policy plans qs =
     map (\<lambda>q. newQuestionOf te batchId q (routingOf te q (plans (pq_id q)) policy) (plans (pq_id q))) qs"

definition storeBatch :: "'w escalation_env \<Rightarrow> plan_question_batch \<Rightarrow> 'w escalations \<Rightarrow> escalation_error + submitted_questions \<times> 'w escalations" where
  "storeBatch env batch st =
     (let (batchId, w) = ev_newId env (es_world st);
          b = \<lparr>bt_id = batchId, bt_managerId = pb_managerId batch, bt_ticket = pb_ticket batch, bt_planNoteId = pb_planNoteId batch,
               bt_planNoteRev = pb_planNoteRev batch, bt_createdAt = ev_clock env w, bt_arbiterRuns = 0, bt_criteriaOpinion = None\<rparr>
      in and_then (or_fail UniqueKey (insertBatch b (es_tables st))) (\<lambda>t1.
         and_then (planReopens env (pb_managerId batch) (pb_ticket batch) t1 (pb_questions batch) Map.empty []) (\<lambda>plans.
         let rows = routed_questions (ev_text env) batchId (pb_policy batch) plans (pb_questions batch);
             idsOfRoute = (\<lambda>r. map qn_questionId (filter (\<lambda>q. qn_route q = r) rows));
             reopened = concat (map (\<lambda>q. case plans (pq_id q) of None \<Rightarrow> [] | Some p \<Rightarrow> [(pq_id q, rp_kind p, map_option snd (rp_contested p))]) (pb_questions batch))
         in and_then (insert_questions rows t1) (\<lambda>t2.
            let st2 = st\<lparr>es_tables := t2, es_world := w\<rparr>
            in and_then (if idsOfRoute ToHuman = [] then Inr (None, st2)
                         else and_then (joinEscalation env batchId (pb_managerId batch) (pb_ticket batch) (idsOfRoute ToHuman) None st2)
                                (\<lambda>(joined, st3). Inr (Some joined, st3))) (\<lambda>(human, st4).
               Inr (\<lparr>sq_batchId = batchId, sq_selfResolved = idsOfRoute ToSelf, sq_arbiter = idsOfRoute ToArbiter, sq_human = human, sq_reopened = reopened\<rparr>, st4))))))"

definition self_resolved_entry :: "string \<Rightarrow> stored_question \<Rightarrow> string" where
  "self_resolved_entry ticket q =
     (case qn_resolution q of
        None \<Rightarrow> ''''
      | Some r \<Rightarrow> ticket @ '' '' @ qn_questionId q @ '' self-resolved: '' @ rc_claim r @ '' ('' @ repro_status_name (rc_status r)
          @ (case rc_command r of None \<Rightarrow> '''' | Some c \<Rightarrow> if c = '''' then '''' else '', '' @ c) @ '')'')"

definition journalSelfResolved :: "'w escalation_env \<Rightarrow> string \<Rightarrow> string \<Rightarrow> submitted_questions \<Rightarrow> 'w escalations \<Rightarrow> 'w escalations" where
  "journalSelfResolved env managerId ticket submitted st =
     (if sq_selfResolved submitted = [] then st
      else snd (es_journal env managerId
             (map (self_resolved_entry ticket) (filter (\<lambda>q. qn_route q = ToSelf) (questionsOfBatch (sq_batchId submitted) (es_tables st)))) st))"

definition journalReopened :: "'w escalation_env \<Rightarrow> string \<Rightarrow> string \<Rightarrow> submitted_questions \<Rightarrow> 'w escalations \<Rightarrow> 'w escalations" where
  "journalReopened env managerId ticket submitted st =
     (if sq_reopened submitted = [] then st
      else snd (es_journal env managerId
             (map (\<lambda>(questionId, kind, contested).
                let subject = (case contested of None \<Rightarrow> ''an arbiter decision that could not be checked'' | Some c \<Rightarrow> ''the arbiter decision of '' @ c)
                in if kind = Review then ticket @ '' '' @ questionId @ '' reopens '' @ subject @ '': sent back to the arbiter with new evidence''
                   else ticket @ '' '' @ questionId @ '' contests '' @ subject @ '': escalated to the human ('' @ ARBITER_DISPUTE_REASON @ '')'')
              (sq_reopened submitted)) st))"

definition submitBatch :: "'w escalation_env \<Rightarrow> plan_question_batch \<Rightarrow> 'w escalations \<Rightarrow> escalation_error + submitted_questions \<times> 'w escalations" where
  "submitBatch env batch st =
     and_then (withCleanResolutions (ev_text env) (pb_questions batch)) (\<lambda>qs.
     and_then (storeBatch env (batch\<lparr>pb_questions := qs\<rparr>) st) (\<lambda>(submitted, st1).
     let st2 = journalReopened env (pb_managerId batch) (pb_ticket batch) submitted
                 (journalSelfResolved env (pb_managerId batch) (pb_ticket batch) submitted st1)
     in Inr (submitted, case sq_human submitted of None \<Rightarrow> st2 | Some h \<Rightarrow> emitRaised (eh_escalationId h) st2)))"

section \<open>The opinion of the arbiter\<close>

record opinion_decision =
  od_questionId :: string
  od_verdict :: verdict
  od_decision :: string
  od_rationale :: string
  od_raiseTo :: "escalating_class option"
  od_evidence :: "repro_claim option"

record arbiter_opinion =
  ao_batchId :: string
  ao_decisions :: "opinion_decision list"
  ao_opinion :: criteria_opinion
  ao_reasons :: "string list"

record recorded_opinion =
  ro_batchId :: string
  ro_decided :: "string list"
  ro_escalated :: "string list"
  ro_ignored :: "string list"
  ro_warnings :: "string list"

text \<open>What \<open>ArbiterOpinionSchema\<close> requires of the decisions.\<close>

definition hasDistinctQuestionIds :: "opinion_decision list \<Rightarrow> bool" where
  "hasDistinctQuestionIds ds \<longleftrightarrow> distinct (map od_questionId ds)"

definition handsToAHuman :: "opinion_decision \<Rightarrow> bool" where
  "handsToAHuman d \<longleftrightarrow> od_verdict d = VNeedsHuman \<or> od_raiseTo d \<noteq> None"

definition withClass :: "escalating_class list \<Rightarrow> escalating_class \<Rightarrow> escalating_class list" where
  "withClass classes addedClass = (if addedClass \<in> set classes then classes else classes @ [addedClass])"

definition assertOpinionDecidesTheArbiterQuestions :: "arbiter_opinion \<Rightarrow> stored_question list \<Rightarrow> escalation_error + unit" where
  "assertOpinionDecidesTheArbiterQuestions opinion qs =
     (let arbiterQuestionIds = map qn_questionId (filter (\<lambda>q. qn_route q = ToArbiter) qs);
          reportedIds = map od_questionId (ao_decisions opinion);
          missingIds = filter (\<lambda>i. i \<notin> set reportedIds) arbiterQuestionIds;
          foreignIds = filter (\<lambda>i. i \<notin> set arbiterQuestionIds) reportedIds
      in if missingIds = [] \<and> foreignIds = [] then Inr () else Inl (OpinionMismatch missingIds foreignIds))"

definition assertFavourableOpinionLeavesNothingToAHuman :: "arbiter_opinion \<Rightarrow> stored_question list \<Rightarrow> escalation_error + unit" where
  "assertFavourableOpinionLeavesNothingToAHuman opinion qs =
     (if ao_opinion opinion \<noteq> Favourable then Inr ()
      else (let holdsBack = map qn_questionId (filter (\<lambda>q. qn_status q = QPendingHuman) qs)
                            @ map od_questionId (filter handsToAHuman (ao_decisions opinion))
            in if holdsBack = [] then Inr () else Inl (FavourableHeldBack holdsBack)))"

fun cleanEvidenceOf :: "text_env \<Rightarrow> opinion_decision list \<Rightarrow> (string \<Rightarrow> repro_claim option) \<Rightarrow> escalation_error + (string \<Rightarrow> repro_claim option)" where
  "cleanEvidenceOf te [] clean = Inr clean"
| "cleanEvidenceOf te (d # ds) clean =
     (case od_evidence d of
        None \<Rightarrow> cleanEvidenceOf te ds clean
      | Some r \<Rightarrow>
          (let cleanEvidence = sanitizedReproClaim te r
           in if hasBlankClaim te cleanEvidence then Inl (BlankClaim (od_questionId d))
              else if lacksExecutedEvidence te cleanEvidence then Inl (LacksEvidence (od_questionId d))
              else cleanEvidenceOf te ds (clean(od_questionId d \<mapsto> cleanEvidence))))"

text \<open>One decision: the update it makes, and what was applied, if anything. \<open>questions\<close> is what was read before the transaction;
  the checks made before leave no decision without its question.\<close>

definition apply_decision ::
  "text_env \<Rightarrow> string \<Rightarrow> stored_question list \<Rightarrow> (string \<Rightarrow> repro_claim option) \<Rightarrow> opinion_decision \<Rightarrow> escalation_tables
   \<Rightarrow> (stored_question \<times> audited_decision option) option \<times> escalation_tables" where
  "apply_decision te batchId questions evidenceOf d t =
     (case find (\<lambda>q. qn_questionId q = od_questionId d) questions of
        None \<Rightarrow> (None, t)
      | Some q \<Rightarrow>
          (let effectiveClasses = (case od_raiseTo d of None \<Rightarrow> qn_effectiveClasses q | Some c \<Rightarrow> withClass (qn_effectiveClasses q) c);
               (isApplied, t') = (if handsToAHuman d then deferOpenQuestionToHuman (batchId, qn_questionId q) effectiveClasses ARBITER_DEFERRED_REASON t
                                  else transitionQuestion (batchId, qn_questionId q) QOpen QDecided None None None t)
           in (Some (q, if isApplied
                        then Some \<lparr>au_questionId = qn_questionId q, au_questionText = qn_text q, au_verdict = od_verdict d,
                                   au_decision = humanReadableText te (od_decision d), au_rationale = humanReadableText te (od_rationale d),
                                   au_raiseTo = od_raiseTo d, au_evidence = evidenceOf (qn_questionId q)\<rparr>
                        else None), t')))"

record applied_opinion =
  ap_applied :: "audited_decision list"
  ap_decided :: "string list"
  ap_escalated :: "string list"
  ap_ignored :: "string list"

definition nothing_applied :: applied_opinion where
  "nothing_applied = \<lparr>ap_applied = [], ap_decided = [], ap_escalated = [], ap_ignored = []\<rparr>"

fun apply_decisions ::
  "text_env \<Rightarrow> string \<Rightarrow> stored_question list \<Rightarrow> (string \<Rightarrow> repro_claim option) \<Rightarrow> opinion_decision list \<Rightarrow> applied_opinion \<Rightarrow> escalation_tables
   \<Rightarrow> applied_opinion \<times> escalation_tables" where
  "apply_decisions te batchId questions evidenceOf [] acc t = (acc, t)"
| "apply_decisions te batchId questions evidenceOf (d # ds) acc t =
     (case apply_decision te batchId questions evidenceOf d t of
        (None, t') \<Rightarrow> apply_decisions te batchId questions evidenceOf ds acc t'
      | (Some (q, None), t') \<Rightarrow> apply_decisions te batchId questions evidenceOf ds (acc\<lparr>ap_ignored := ap_ignored acc @ [qn_questionId q]\<rparr>) t'
      | (Some (q, Some audited), t') \<Rightarrow>
          apply_decisions te batchId questions evidenceOf ds
            (if handsToAHuman d then acc\<lparr>ap_escalated := ap_escalated acc @ [qn_questionId q], ap_applied := ap_applied acc @ [audited]\<rparr>
             else acc\<lparr>ap_decided := ap_decided acc @ [qn_questionId q], ap_applied := ap_applied acc @ [audited]\<rparr>) t')"

definition decision_row :: "string \<Rightarrow> string \<Rightarrow> nat \<Rightarrow> instant \<Rightarrow> audited_decision \<Rightarrow> arbiter_decision" where
  "decision_row batchId arbiterSessionId planNoteRev createdAt d =
     \<lparr>ad_batchId = batchId, ad_questionId = au_questionId d, ad_verdict = au_verdict d, ad_decision = au_decision d, ad_rationale = au_rationale d,
      ad_raiseTo = au_raiseTo d, ad_evidence = au_evidence d, ad_arbiterSessionId = arbiterSessionId, ad_planNoteRev = planNoteRev, ad_createdAt = createdAt\<rparr>"

definition applyOpinion ::
  "'w escalation_env \<Rightarrow> stored_batch \<Rightarrow> stored_question list \<Rightarrow> arbiter_opinion \<Rightarrow> string \<Rightarrow> (string \<Rightarrow> repro_claim option) \<Rightarrow> 'w escalations
   \<Rightarrow> escalation_error + (recorded_opinion \<times> audited_decision list \<times> string option) \<times> 'w escalations" where
  "applyOpinion env b questions opinion arbiterSessionId evidenceOf st =
     (let (acc, t1) = apply_decisions (ev_text env) (bt_id b) questions evidenceOf (ao_decisions opinion) nothing_applied (es_tables st);
          result = (\<lambda>warnings. \<lparr>ro_batchId = bt_id b, ro_decided = ap_decided acc, ro_escalated = ap_escalated acc, ro_ignored = ap_ignored acc, ro_warnings = warnings\<rparr>)
      in if ap_applied acc = [] then Inr ((result [], [], None), st\<lparr>es_tables := t1\<rparr>)
         else (let ((planNoteRev, warnings), w) = appendDecisionSections env b arbiterSessionId (ap_applied acc) (es_world st);
                   createdAt = ev_clock env w;
                   t2 = fold (\<lambda>d. insertArbiterDecision (decision_row (bt_id b) arbiterSessionId planNoteRev createdAt d)) (ap_applied acc) t1;
                   t3 = recordCriteriaOpinion (bt_id b) (ao_opinion opinion) (map (humanReadableText (ev_text env)) (ao_reasons opinion)) t2;
                   st3 = st\<lparr>es_tables := t3, es_world := w\<rparr>
               in if ap_escalated acc = [] then Inr ((result warnings, ap_applied acc, None), st3)
                  else and_then (joinEscalation env (bt_id b) (bt_managerId b) (bt_ticket b) (ap_escalated acc) None st3) (\<lambda>(joined, st4).
                       Inr ((result warnings, ap_applied acc, Some (eh_escalationId joined)), st4))))"

definition journalEntryOf :: "string \<Rightarrow> audited_decision \<Rightarrow> string" where
  "journalEntryOf ticket d =
     (let outcome = (if au_verdict d = VNeedsHuman \<or> au_raiseTo d \<noteq> None
                     then ''handed to the human'' @ (case au_raiseTo d of None \<Rightarrow> '''' | Some c \<Rightarrow> '' as '' @ class_name c) else ''decided'')
      in oneLine (ticket @ '' '' @ au_questionId d @ '' '' @ outcome @ '': '' @ au_decision d @ '' '' @ EM_DASH @ '' '' @ au_rationale d))"

definition criteria_name :: "criteria_opinion \<Rightarrow> string" where
  "criteria_name c = (case c of Favourable \<Rightarrow> ''favourable'' | Unfavourable \<Rightarrow> ''unfavourable'' | NotAsked \<Rightarrow> ''not_asked'')"

definition opinionMessageOf :: "string \<Rightarrow> recorded_opinion \<Rightarrow> criteria_opinion \<Rightarrow> string" where
  "opinionMessageOf ticket r criteria =
     (let decided = (if ro_decided r \<noteq> [] then ''decided '' @ join_with '','' (ro_decided r) else ''decided none'');
          escalated = (if ro_escalated r \<noteq> [] then ''; handed to the human: '' @ join_with '','' (ro_escalated r) else '''')
      in ''[arbiter] '' @ decided @ '' on '' @ ticket @ escalated @ ''; criteria '' @ criteria_name criteria)"

text \<open>What follows the transaction of \<open>recordArbiterOpinion\<close>.\<close>

definition tell_opinion ::
  "'w escalation_env \<Rightarrow> stored_batch \<Rightarrow> string \<Rightarrow> criteria_opinion \<Rightarrow> recorded_opinion \<times> audited_decision list \<times> string option \<Rightarrow> 'w escalations \<Rightarrow> recorded_opinion \<times> 'w escalations" where
  "tell_opinion env b arbiterSessionId criteria recorded st =
     (case recorded of (result, applied, escalationId) \<Rightarrow>
        (let st1 = (case escalationId of None \<Rightarrow> st | Some i \<Rightarrow> emitRaised i st)
         in if applied = [] then (result, st1)
            else (let (journalWarnings, st2) = es_journal env (bt_managerId b) (map (journalEntryOf (bt_ticket b)) applied) st1
                  in (result\<lparr>ro_warnings := ro_warnings result @ journalWarnings\<rparr>,
                      send (ManagerTold (bt_managerId b) (opinionMessageOf (bt_ticket b) result criteria) (Some arbiterSessionId)) st2))))"

definition recordArbiterOpinion :: "'w escalation_env \<Rightarrow> string \<Rightarrow> string \<Rightarrow> arbiter_opinion \<Rightarrow> 'w escalations \<Rightarrow> escalation_error + recorded_opinion \<times> 'w escalations" where
  "recordArbiterOpinion env managerId arbiterSessionId opinion st =
     (case findBatch (ao_batchId opinion) (es_tables st) of
        None \<Rightarrow> Inl EscalationNotFound
      | Some b \<Rightarrow>
          if bt_managerId b \<noteq> managerId then Inl EscalationNotFound
          else (let questions = questionsOfBatch (bt_id b) (es_tables st)
                in and_then (assertOpinionDecidesTheArbiterQuestions opinion questions) (\<lambda>_.
                   and_then (assertFavourableOpinionLeavesNothingToAHuman opinion questions) (\<lambda>_.
                   and_then (cleanEvidenceOf (ev_text env) (ao_decisions opinion) Map.empty) (\<lambda>evidenceOf.
                   and_then (applyOpinion env b questions opinion arbiterSessionId evidenceOf st) (\<lambda>(recorded, st1).
                   Inr (tell_opinion env b arbiterSessionId (ao_opinion opinion) recorded st1)))))))"

section \<open>Handing a batch to the human\<close>

text \<open>The filter of \<open>handWaitingQuestionsToHuman\<close> defers the questions as it goes through them.\<close>

definition defer_question :: "string \<Rightarrow> string \<Rightarrow> stored_question \<Rightarrow> stored_question list \<times> escalation_tables \<Rightarrow> stored_question list \<times> escalation_tables" where
  "defer_question batchId reason q acc =
     (let (isHanded, t) = deferOpenQuestionToHuman (batchId, qn_questionId q) (qn_effectiveClasses q) reason (snd acc)
      in (if isHanded then fst acc @ [q] else fst acc, t))"

definition handWaitingQuestionsToHuman :: "'w escalation_env \<Rightarrow> stored_batch \<Rightarrow> string \<Rightarrow> 'w escalations \<Rightarrow> escalation_error + escalated_to_human option \<times> 'w escalations" where
  "handWaitingQuestionsToHuman env b reason st =
     (let waiting = filter (\<lambda>q. qn_route q = ToArbiter \<and> qn_status q = QOpen) (questionsOfBatch (bt_id b) (es_tables st));
          (handed, t) = fold (defer_question (bt_id b) reason) waiting ([], es_tables st)
      in if handed = [] then Inr (None, st\<lparr>es_tables := t\<rparr>)
         else and_then (joinEscalation env (bt_id b) (bt_managerId b) (bt_ticket b) (map qn_questionId handed) (Some reason) (st\<lparr>es_tables := t\<rparr>))
                (\<lambda>(joined, st'). Inr (Some joined, st')))"

text \<open>What follows the transaction of \<open>escalateBatchToHuman\<close>.\<close>

definition tell_handover :: "'w escalation_env \<Rightarrow> stored_batch \<Rightarrow> string \<Rightarrow> escalated_to_human \<Rightarrow> 'w escalations \<Rightarrow> 'w escalations" where
  "tell_handover env b reason h st =
     (let st1 = emitRaised (eh_escalationId h) st; handedIds = join_with '','' (eh_questionIds h)
      in case eh_listRefusal h of
           None \<Rightarrow>
             send (ManagerTold (bt_managerId b) (''[arbiter] escalated '' @ handedIds @ '' on '' @ bt_ticket b @ '' to the human: '' @ reason) None)
               (snd (es_journal env (bt_managerId b) [bt_ticket b @ '' '' @ handedIds @ '' escalated to the human: '' @ reason] st1))
         | Some (refusal, _) \<Rightarrow>
             (let line = bt_ticket b @ '' '' @ handedIds @ '' escalated to the human ('' @ reason @ '') but not listed in questions_for_human: '' @ refusal
              in send (ManagerTold (bt_managerId b)
                   (''[arbiter] '' @ line @ ''. The card waits in the Inbox; a human can answer it or retry the listing.'') None)
                   (snd (es_journal env (bt_managerId b) [line] st1))))"

definition escalateBatchToHuman :: "'w escalation_env \<Rightarrow> string \<Rightarrow> string \<Rightarrow> 'w escalations \<Rightarrow> escalation_error + escalated_to_human option \<times> 'w escalations" where
  "escalateBatchToHuman env batchId reason st =
     (case findBatch batchId (es_tables st) of
        None \<Rightarrow> Inr (None, st)
      | Some b \<Rightarrow>
          and_then (handWaitingQuestionsToHuman env b reason st) (\<lambda>(escalated, st1).
          Inr (escalated, case escalated of None \<Rightarrow> st1 | Some h \<Rightarrow> tell_handover env b reason h st1)))"

definition journalMissingEarlierDecision :: "'w escalation_env \<Rightarrow> string \<Rightarrow> string \<Rightarrow> 'w escalations \<Rightarrow> 'w escalations" where
  "journalMissingEarlierDecision env batchId questionId st =
     (case findBatch batchId (es_tables st) of
        None \<Rightarrow> st
      | Some b \<Rightarrow> snd (es_journal env (bt_managerId b)
          [bt_ticket b @ '' '' @ questionId @ '' reopens an arbiter decision that is no longer stored: the arbiter reviews it without the earlier decision''] st))"

definition retryHandover :: "'w escalation_env \<Rightarrow> string \<Rightarrow> 'w escalations \<Rightarrow> escalation_error + escalation_view \<times> 'w escalations" where
  "retryHandover env i st =
     and_then (or_fail EscalationNotFound (findEscalation i (es_tables st))) (\<lambda>e.
     if ec_status e = EAnswered then Inl EscalationResolved
     else if ec_handoverRefusal e = None then Inl NothingToRetry
     else and_then (ensureItemInQuestionsForHuman env (ec_managerId e) e st) (\<lambda>st1.
          let st2 = emitRaised i (on_tables (setHandoverRefusal i None) st1);
              st3 = snd (es_journal env (ec_managerId e) [ec_ticket e @ '' escalation listed in questions_for_human after a human retried the hand-over''] st2)
          in and_then (or_fail EscalationNotFound (viewOf_escalation i (es_tables st3))) (\<lambda>v. Inr (v, st3))))"

section \<open>The answer of a human\<close>

definition requireOneAnswerPerQuestion :: "stored_question list \<Rightarrow> (string \<times> string) list \<Rightarrow> escalation_error + unit" where
  "requireOneAnswerPerQuestion pendingQuestions answers =
     (let expectedIds = rev (remdups (rev (map qn_questionId pendingQuestions)));
          answeredIds = map fst answers;
          unknownIds = filter (\<lambda>i. i \<notin> set expectedIds) answeredIds;
          repeatedIds = map snd (filter (\<lambda>(n, i). find_index (\<lambda>j. j = i) answeredIds \<noteq> Some n) (enumerate 0 answeredIds));
          missingIds = filter (\<lambda>i. i \<notin> set answeredIds) expectedIds
      in if unknownIds = [] \<and> repeatedIds = [] \<and> missingIds = [] then Inr () else Inl (AnswersMismatch unknownIds repeatedIds missingIds))"

definition answer_question :: "text_env \<Rightarrow> instant \<Rightarrow> stored_question list \<Rightarrow> string \<times> string \<Rightarrow> escalation_tables \<Rightarrow> escalation_tables" where
  "answer_question te answeredAt pendingQuestions given t =
     fold (\<lambda>q t. snd (transitionQuestion (qn_batchId q, fst given) QPendingHuman QAnswered None (Some (humanReadableText te (snd given))) (Some answeredAt) t))
       (filter (\<lambda>q. qn_questionId q = fst given) pendingQuestions) t"

definition removeItemFromQuestionsForHuman :: "'w escalation_env \<Rightarrow> string \<Rightarrow> string \<Rightarrow> 'w escalations \<Rightarrow> escalation_error + 'w escalations" where
  "removeItemFromQuestionsForHuman env managerId i st =
     (case get_state managerId (es_working st) of
        None \<Rightarrow> Inr st
      | Some sd \<Rightarrow>
          (let items = ws_questionsForHuman (sd_sections sd);
               kept = filter (\<lambda>item. \<not> starts_with item (ESCALATION_ITEM_PREFIX @ i @ '']'')) items
           in if length kept = length items then Inr st
              else update_working env managerId ((sd_sections sd)\<lparr>ws_questionsForHuman := kept\<rparr>) st))"

definition removeItemWithoutFailingTheAnswer :: "'w escalation_env \<Rightarrow> string \<Rightarrow> string \<Rightarrow> 'w escalations \<Rightarrow> 'w escalations" where
  "removeItemWithoutFailingTheAnswer env managerId i st =
     (case removeItemFromQuestionsForHuman env managerId i st of Inl e \<Rightarrow> st | Inr st' \<Rightarrow> st')"

definition answer_tables :: "text_env \<Rightarrow> instant \<Rightarrow> string \<Rightarrow> (string \<times> string) list \<Rightarrow> escalation_tables \<Rightarrow> escalation_error + escalation_tables" where
  "answer_tables te answeredAt i answers t =
     and_then (or_fail EscalationNotFound (findEscalation i t)) (\<lambda>e.
     if ec_status e = EAnswered then Inl EscalationResolved
     else (let pendingQuestions = filter (\<lambda>q. qn_status q = QPendingHuman) (questionsOfEscalation i t)
           in and_then (requireOneAnswerPerQuestion pendingQuestions answers) (\<lambda>_.
              Inr (snd (answerEscalationIfPending i answeredAt (fold (answer_question te answeredAt pendingQuestions) answers t))))))"

definition answer :: "'w escalation_env \<Rightarrow> string \<Rightarrow> (string \<times> string) list \<Rightarrow> 'w escalations \<Rightarrow> escalation_error + escalation_view \<times> 'w escalations" where
  "answer env i answers st =
     and_then (answer_tables (ev_text env) (es_now env st) i answers (es_tables st)) (\<lambda>t.
     let st1 = st\<lparr>es_tables := t\<rparr>
     in and_then (or_fail EscalationNotFound (viewOf_escalation i t)) (\<lambda>resolved.
        Inr (resolved, send (AnswerNotified resolved) (send (EscalationAnswered resolved)
               (removeItemWithoutFailingTheAnswer env (ec_managerId (evw_escalation resolved)) i st1)))))"

end
