(* ===== verification/Escalation_Laws.thy ===== *)
theory Escalation_Laws
  imports Escalations
begin

text \<open>
  What the escalation ladder keeps over any sequence of its operations, refused ones included: one open escalation per
  manager and ticket, which carries exactly the questions that wait for a human; the one way a question moves; the single
  reopening of a decision of the arbiter.
\<close>

section \<open>Runs\<close>

datatype escalation_op =
    SubmitQuestions plan_question_batch
  | ReportOpinion string string arbiter_opinion
  | HandOver string string
  | RetryListing string
  | AnswerCard string "(string \<times> string) list"
  | CountRun string
  | JournalMissing string string
  | EditState string sections

definition state_after :: "'w escalations \<Rightarrow> 'e + 'r \<times> 'w escalations \<Rightarrow> 'w escalations" where
  "state_after st r = (case r of Inl e \<Rightarrow> st | Inr (x, st') \<Rightarrow> st')"

definition escalation_step :: "'w escalation_env \<times> escalation_op \<Rightarrow> 'w escalations \<Rightarrow> 'w escalations" where
  "escalation_step call st =
     (case call of (env, op) \<Rightarrow>
        (case op of
           SubmitQuestions batch \<Rightarrow> state_after st (submitBatch env batch st)
         | ReportOpinion m s opinion \<Rightarrow> state_after st (recordArbiterOpinion env m s opinion st)
         | HandOver b reason \<Rightarrow> state_after st (escalateBatchToHuman env b reason st)
         | RetryListing i \<Rightarrow> state_after st (retryHandover env i st)
         | AnswerCard i answers \<Rightarrow> state_after st (answer env i answers st)
         | CountRun b \<Rightarrow> on_tables (addArbiterRun b) st
         | JournalMissing b q \<Rightarrow> journalMissingEarlierDecision env b q st
         | EditState m s \<Rightarrow> (case update_working env m s st of Inl e \<Rightarrow> st | Inr st' \<Rightarrow> st')))"

definition escalation_start :: "'w \<Rightarrow> 'w escalations" where
  "escalation_start w = \<lparr>es_tables = \<lparr>et_batches = [], et_questions = [], et_escalations = [], et_decisions = []\<rparr>, es_working = no_states, es_events = [], es_world = w\<rparr>"

definition escalation_run :: "('w escalation_env \<times> escalation_op) list \<Rightarrow> 'w escalations \<Rightarrow> 'w escalations" where
  "escalation_run calls st = fold escalation_step calls st"

section \<open>Results\<close>

lemma tables_on_tables [simp]: "es_tables (on_tables f st) = f (es_tables st)"
  by (simp add: on_tables_def)

lemma tables_send [simp]: "es_tables (send e st) = es_tables st"
  by (simp add: send_def)

lemma tables_emitRaised [simp]: "es_tables (emitRaised i st) = es_tables st"
  by (simp add: emitRaised_def split: option.splits)

lemma tables_es_journal [simp]: "es_tables (snd (es_journal env m entries st)) = es_tables st"
  by (simp add: es_journal_def split_beta)

lemma tables_es_journalD: "es_journal env m entries st = (ws, st') \<Longrightarrow> es_tables st' = es_tables st"
  using tables_es_journal [of env m entries st] by simp

lemma tables_update_working: "update_working env m s st = Inr st' \<Longrightarrow> es_tables st' = es_tables st"
  by (auto simp: update_working_def split: sum.splits)

lemma tables_ensureItem: "ensureItemInQuestionsForHuman env m e st = Inr st' \<Longrightarrow> es_tables st' = es_tables st"
  by (auto simp: ensureItemInQuestionsForHuman_def Let_def tables_update_working split: if_splits)

lemma tables_removeItem [simp]: "es_tables (removeItemWithoutFailingTheAnswer env m i st) = es_tables st"
  by (auto simp: removeItemWithoutFailingTheAnswer_def removeItemFromQuestionsForHuman_def Let_def tables_update_working
      split: sum.splits option.splits if_splits)

section \<open>What an escalation is\<close>

definition ec_core :: "stored_escalation \<Rightarrow> string \<times> string \<times> string \<times> escalation_status" where
  "ec_core e = (ec_id e, ec_managerId e, ec_ticket e, ec_status e)"

definition et_cores :: "escalation_tables \<Rightarrow> (string \<times> string \<times> string \<times> escalation_status) list" where
  "et_cores t = map ec_core (et_escalations t)"

lemma map_update_where: "(\<And>r. P r \<Longrightarrow> g (f r) = g r) \<Longrightarrow> map g (update_where P f rows) = map g rows"
  by (simp add: update_where_def)

lemma set_update_where: "r \<in> set (update_where P f rows) \<longleftrightarrow> (\<exists>s \<in> set rows. r = (if P s then f s else s))"
  by (auto simp: update_where_def)

lemma cores_body [simp]: "et_cores (updateEscalationBody i body t) = et_cores t"
  by (simp add: et_cores_def updateEscalationBody_def map_update_where ec_core_def)

lemma cores_refusal [simp]: "et_cores (setHandoverRefusal i r t) = et_cores t"
  by (simp add: et_cores_def setHandoverRefusal_def map_update_where ec_core_def)

lemma body_others [simp]:
  "et_batches (updateEscalationBody i body t) = et_batches t" "et_questions (updateEscalationBody i body t) = et_questions t"
  "et_batches (setHandoverRefusal i r t) = et_batches t" "et_questions (setHandoverRefusal i r t) = et_questions t"
  by (simp_all add: updateEscalationBody_def setHandoverRefusal_def)

lemma attach_fold:
  "fold (\<lambda>q. attachQuestionToEscalation (b, q) i) ids t =
   t\<lparr>et_questions := update_where (\<lambda>q. qn_batchId q = b \<and> qn_questionId q \<in> set ids) (\<lambda>q. q\<lparr>qn_escalationId := Some i\<rparr>) (et_questions t)\<rparr>"
proof (induction ids arbitrary: t)
  case Nil
  show ?case by (simp add: update_where_def)
next
  case (Cons x ids)
  show ?case unfolding fold_simps comp_apply Cons.IH
    by (auto simp: attachQuestionToEscalation_def update_where_def qn_key_def intro!: arg_cong [of _ _ "\<lambda>qs. t\<lparr>et_questions := qs\<rparr>"])
qed

definition opens_card :: "escalation_tables \<Rightarrow> string \<Rightarrow> string \<Rightarrow> string \<Rightarrow> escalation_tables \<Rightarrow> bool" where
  "opens_card t i m k t' \<longleftrightarrow>
     et_cores t' = et_cores t \<and> (i, m, k, EPending) \<in> set (et_cores t)
     \<or> et_cores t' = et_cores t @ [(i, m, k, EPending)] \<and> i \<notin> fst ` set (et_cores t) \<and> (\<forall>j. (j, m, k, EPending) \<notin> set (et_cores t))"

lemma findPending_None: "findPendingEscalation m k t = None \<longleftrightarrow> (\<forall>j. (j, m, k, EPending) \<notin> set (et_cores t))"
  by (simp add: findPendingEscalation_def find_None_iff et_cores_def ec_core_def image_iff) metis

lemma findPending_Some: "findPendingEscalation m k t = Some e \<Longrightarrow> (ec_id e, m, k, EPending) \<in> set (et_cores t)"
  by (auto simp: findPendingEscalation_def et_cores_def ec_core_def dest!: find_SomeD)

lemma findEscalation_None: "findEscalation i t = None \<longleftrightarrow> i \<notin> fst ` set (et_cores t)"
  by (auto simp: findEscalation_def find_None_iff et_cores_def ec_core_def image_iff)

lemma listItem_tables:
  assumes "listItemOrRefusal env m e full st = Inr (r, st')"
  shows "et_cores (es_tables st') = et_cores (es_tables st) \<and> et_batches (es_tables st') = et_batches (es_tables st)
    \<and> et_questions (es_tables st') = et_questions (es_tables st)"
  using assms tables_ensureItem
  by (fastforce simp: listItemOrRefusal_def split: sum.splits option.splits if_splits)

lemma openEscalation_tables:
  assumes "openEscalation env m k st = Inr (e, st1)" "findPendingEscalation m k (es_tables st) = None"
  shows "opens_card (es_tables st) (ec_id e) m k (es_tables st1) \<and> et_batches (es_tables st1) = et_batches (es_tables st)
    \<and> et_questions (es_tables st1) = et_questions (es_tables st)"
proof -
  obtain i w t where i: "ev_newId env (es_world st) = (i, w)" "insertEscalation i m k '''' (ev_clock env w) (es_tables st) = Some t"
    "findEscalation i t = Some e" "st1 = st\<lparr>es_tables := t, es_world := w\<rparr>"
    using assms(1) by (auto simp: openEscalation_def split: prod.splits)
  then have "ec_id e = i" by (auto simp: findEscalation_def dest: find_SomeD)
  with i assms(2) show ?thesis
    by (auto simp: insertEscalation_def opens_card_def findPending_None findEscalation_None et_cores_def ec_core_def split: if_splits)
qed

lemma carry_tables:
  assumes "carry_questions env b m k ids full e st = Inr (h, st')"
  shows "eh_escalationId h = ec_id e \<and> et_cores (es_tables st') = et_cores (es_tables st) \<and> et_batches (es_tables st') = et_batches (es_tables st)
    \<and> et_questions (es_tables st') = update_where (\<lambda>q. qn_batchId q = b \<and> qn_questionId q \<in> set ids) (\<lambda>q. q\<lparr>qn_escalationId := Some (ec_id e)\<rparr>) (et_questions (es_tables st))"
proof -
  have cores: "et_cores (t\<lparr>et_questions := qs\<rparr>) = et_cores t" for t qs by (simp add: et_cores_def)
  obtain st3 r st4 where l: "listItemOrRefusal env m e full st3 = Inr (r, st4)"
    and st3: "et_cores (es_tables st3) = et_cores (es_tables st)" "et_batches (es_tables st3) = et_batches (es_tables st)"
      "et_questions (es_tables st3) = update_where (\<lambda>q. qn_batchId q = b \<and> qn_questionId q \<in> set ids) (\<lambda>q. q\<lparr>qn_escalationId := Some (ec_id e)\<rparr>) (et_questions (es_tables st))"
    and st': "eh_escalationId h = ec_id e" "st' = (if r = None \<and> ec_handoverRefusal e \<noteq> None then on_tables (setHandoverRefusal (ec_id e) None) st4 else st4)"
    using assms unfolding carry_questions_def Let_def and_then_Inr by (auto simp: attach_fold cores)
  then show ?thesis using listItem_tables [OF l] by simp
qed

lemma joinEscalation_tables:
  assumes "joinEscalation env b m k ids full st = Inr (h, st')"
  shows "opens_card (es_tables st) (eh_escalationId h) m k (es_tables st')
    \<and> et_batches (es_tables st') = et_batches (es_tables st)
    \<and> et_questions (es_tables st') = update_where (\<lambda>q. qn_batchId q = b \<and> qn_questionId q \<in> set ids) (\<lambda>q. q\<lparr>qn_escalationId := Some (eh_escalationId h)\<rparr>) (et_questions (es_tables st))"
proof -
  obtain e st1 where e: "(case findPendingEscalation m k (es_tables st) of Some e \<Rightarrow> Inr (e, st) | None \<Rightarrow> openEscalation env m k st) = Inr (e, st1)"
    and c: "carry_questions env b m k ids full e st1 = Inr (h, st')"
    using assms unfolding joinEscalation_def by auto
  have "opens_card (es_tables st) (ec_id e) m k (es_tables st1) \<and> et_batches (es_tables st1) = et_batches (es_tables st)
    \<and> et_questions (es_tables st1) = et_questions (es_tables st)"
  proof (cases "findPendingEscalation m k (es_tables st)")
    case None
    then show ?thesis using e openEscalation_tables by simp
  next
    case (Some e')
    then show ?thesis using e findPending_Some [OF Some] by (simp add: opens_card_def)
  qed
  then show ?thesis using carry_tables [OF c] by (simp add: opens_card_def)
qed

section \<open>How questions move\<close>

text \<open>What no operation changes of a question.\<close>

definition qn_fixed :: "stored_question \<Rightarrow> (string \<times> string) \<times> string \<times> string \<times> question_route \<times> (string \<times> string) option" where
  "qn_fixed q = (qn_key q, qn_text q, qn_declaredClass q, qn_route q, qn_reopens q)"

text \<open>After the decisions of an opinion, or the deferral of a batch \<open>b\<close>, and before the questions \<open>E\<close> handed to the human
  are attached to their escalation.\<close>

definition judged :: "string \<Rightarrow> string set \<Rightarrow> stored_question \<Rightarrow> stored_question \<Rightarrow> bool" where
  "judged b E q q' \<longleftrightarrow>
     qn_fixed q' = qn_fixed q \<and> qn_escalationId q' = qn_escalationId q
     \<and> (q' = q \<or> qn_status q = QOpen \<and> qn_batchId q = b \<and> qn_status q' \<in> {QDecided, QPendingHuman})
     \<and> (qn_batchId q = b \<and> qn_questionId q \<in> E \<longleftrightarrow> qn_status q = QOpen \<and> qn_status q' = QPendingHuman)"

lemma judged_refl: "judged b {} q q"
  by (simp add: judged_def)

lemma list_all2_judged_refl: "list_all2 (judged b {}) qs qs"
  by (simp add: list_all2_same judged_refl)

lemma judged_keys: "list_all2 (judged b E) qs qs' \<Longrightarrow> map qn_key qs' = map qn_key qs"
  by (induction rule: list_all2_induct) (simp_all add: judged_def qn_fixed_def)

lemma key_unique:
  assumes "distinct (map f xs)" "x \<in> set xs" "y \<in> set xs" "f x = f y"
  shows "x = y"
  using assms by (meson distinct_map inj_onD)

lemma judged_update:
  assumes rel: "list_all2 (judged b E) qs qs'" and keys: "distinct (map qn_key qs)"
    and f: "\<And>q. qn_fixed (f q) = qn_fixed q \<and> qn_escalationId (f q) = qn_escalationId q \<and> qn_status (f q) = (if h then QPendingHuman else QDecided)"
    and found: "list_ex (\<lambda>q. qn_key q = (b, i) \<and> qn_status q = QOpen) qs'"
  shows "list_all2 (judged b (if h then insert i E else E)) qs (update_where (\<lambda>q. qn_key q = (b, i) \<and> qn_status q = QOpen) f qs')"
proof -
  from judged_keys [OF rel] keys have "distinct (map qn_key qs')" by simp
  then have only: "qn_status q = QOpen" if "q \<in> set qs'" "qn_key q = (b, i)" for q
    using found that key_unique by (metis (mono_tags, lifting) list_ex_iff)
  show ?thesis unfolding update_where_def list.rel_map
  proof (rule list.rel_mono_strong [OF rel])
    fix q q' assume q: "q \<in> set qs" "q' \<in> set qs'" "judged b E q q'"
    show "judged b (if h then insert i E else E) q (if qn_key q' = (b, i) \<and> qn_status q' = QOpen then f q' else q')"
    proof (cases "qn_key q' = (b, i)")
      case True
      then have "q' = q" "qn_status q' = QOpen" using only q by (auto simp: judged_def)
      then show ?thesis using True q f [of q'] by (auto simp: judged_def qn_key_def)
    next
      case False
      then show ?thesis using q by (auto simp: judged_def qn_fixed_def qn_key_def)
    qed
  qed
qed

lemma update_where_none: "\<not> list_ex P rows \<Longrightarrow> update_where P f rows = rows"
  by (auto simp: update_where_def list_ex_iff intro: map_idI)

lemma judged_defer:
  assumes "list_all2 (judged b E) qs (et_questions t)" "distinct (map qn_key qs)" "deferOpenQuestionToHuman (b, i) cs reason t = (applied, t')"
  shows "list_all2 (judged b (if applied then insert i E else E)) qs (et_questions t') \<and> et_batches t' = et_batches t \<and> et_cores t' = et_cores t"
  using judged_update [OF assms(1,2), where h = True and i = i and f = "\<lambda>q. q\<lparr>qn_status := QPendingHuman, qn_reason := Some reason, qn_effectiveClasses := cs\<rparr>"]
    assms(1,3) by (auto simp: deferOpenQuestionToHuman_def qn_fixed_def qn_key_def et_cores_def update_where_none)

lemma judged_decide:
  assumes "list_all2 (judged b E) qs (et_questions t)" "distinct (map qn_key qs)" "transitionQuestion (b, i) QOpen QDecided None None None t = (applied, t')"
  shows "list_all2 (judged b E) qs (et_questions t') \<and> et_batches t' = et_batches t \<and> et_cores t' = et_cores t"
  using judged_update [OF assms(1,2), where h = False and i = i and f = "\<lambda>q. q\<lparr>qn_status := QDecided, qn_reason := coalesce None (qn_reason q),
      qn_humanAnswer := coalesce None (qn_humanAnswer q), qn_answeredAt := coalesce None (qn_answeredAt q)\<rparr>"]
    assms(1,3) by (auto simp: transitionQuestion_def qn_fixed_def qn_key_def et_cores_def update_where_none)

lemma apply_decisions_judged:
  assumes "list_all2 (judged b (set (ap_escalated acc))) qs (et_questions t)" "distinct (map qn_key qs)"
    and "apply_decisions te b questions ev ds acc t = (acc', t')"
  shows "list_all2 (judged b (set (ap_escalated acc'))) qs (et_questions t') \<and> et_batches t' = et_batches t \<and> et_cores t' = et_cores t"
  using assms
proof (induction ds arbitrary: acc t)
  case (Cons d ds)
  obtain r t1 where r: "apply_decision te b questions ev d t = (r, t1)" by fastforce
  show ?case
  proof (cases "find (\<lambda>q. qn_questionId q = od_questionId d) questions")
    case None
    then show ?thesis using Cons.IH [OF Cons.prems(1,2)] Cons.prems(3) r by (simp add: apply_decision_def)
  next
    case (Some q)
    let ?upd = "if handsToAHuman d then deferOpenQuestionToHuman (b, qn_questionId q)
        (case od_raiseTo d of None \<Rightarrow> qn_effectiveClasses q | Some c \<Rightarrow> withClass (qn_effectiveClasses q) c) ARBITER_DEFERRED_REASON t
      else transitionQuestion (b, qn_questionId q) QOpen QDecided None None None t"
    obtain applied t2 where u: "?upd = (applied, t2)" by fastforce
    have t1: "t1 = t2" "\<exists>au. r = Some (q, if applied then Some au else None)" using r Some u by (auto simp: apply_decision_def split: prod.splits)
    have step: "list_all2 (judged b (if handsToAHuman d \<and> applied then insert (qn_questionId q) (set (ap_escalated acc)) else set (ap_escalated acc))) qs (et_questions t2)
        \<and> et_batches t2 = et_batches t \<and> et_cores t2 = et_cores t"
    proof (cases "handsToAHuman d")
      case True
      with u have "deferOpenQuestionToHuman (b, qn_questionId q)
          (case od_raiseTo d of None \<Rightarrow> qn_effectiveClasses q | Some c \<Rightarrow> withClass (qn_effectiveClasses q) c) ARBITER_DEFERRED_REASON t = (applied, t2)" by simp
      from judged_defer [OF Cons.prems(1,2) this] True show ?thesis by simp
    next
      case False
      with u have "transitionQuestion (b, qn_questionId q) QOpen QDecided None None None t = (applied, t2)" by simp
      from judged_decide [OF Cons.prems(1,2) this] False show ?thesis by simp
    qed
    obtain au where au: "r = Some (q, if applied then Some au else None)" using t1 by blast
    show ?thesis
    proof (cases applied)
      case True
      then show ?thesis
        using Cons.IH [where acc = "if handsToAHuman d then acc\<lparr>ap_escalated := ap_escalated acc @ [qn_questionId q], ap_applied := ap_applied acc @ [au]\<rparr>
            else acc\<lparr>ap_decided := ap_decided acc @ [qn_questionId q], ap_applied := ap_applied acc @ [au]\<rparr>" and t = t2] step Cons.prems(2,3) r t1(1) au
        by (auto split: if_splits)
    next
      case False
      then show ?thesis
        using Cons.IH [where acc = "acc\<lparr>ap_ignored := ap_ignored acc @ [qn_questionId q]\<rparr>" and t = t2] step Cons.prems(2,3) r t1(1) au by auto
    qed
  qed
qed simp

lemma defer_questions_judged:
  assumes "list_all2 (judged b (qn_questionId ` set (fst acc))) qs (et_questions (snd acc))" "distinct (map qn_key qs)"
  shows "list_all2 (judged b (qn_questionId ` set (fst (fold (defer_question b reason) ws acc)))) qs (et_questions (snd (fold (defer_question b reason) ws acc)))
    \<and> et_batches (snd (fold (defer_question b reason) ws acc)) = et_batches (snd acc) \<and> et_cores (snd (fold (defer_question b reason) ws acc)) = et_cores (snd acc)"
  using assms
proof (induction ws arbitrary: acc)
  case (Cons q ws)
  obtain applied t where t: "deferOpenQuestionToHuman (b, qn_questionId q) (qn_effectiveClasses q) reason (snd acc) = (applied, t)" by fastforce
  then have acc': "defer_question b reason q acc = (if applied then fst acc @ [q] else fst acc, t)" by (simp add: defer_question_def)
  from judged_defer [OF Cons.prems t] have "list_all2 (judged b (qn_questionId ` set (fst (defer_question b reason q acc)))) qs (et_questions (snd (defer_question b reason q acc)))
      \<and> et_batches t = et_batches (snd acc) \<and> et_cores t = et_cores (snd acc)"
    by (auto simp: acc' split: if_splits)
  then show ?case using Cons.IH [of "defer_question b reason q acc"] Cons.prems(2) by (simp add: acc')
qed simp

section \<open>The invariant\<close>

definition bt_core :: "stored_batch \<Rightarrow> string \<times> string \<times> string" where
  "bt_core b = (bt_id b, bt_managerId b, bt_ticket b)"

definition et_bcores :: "escalation_tables \<Rightarrow> (string \<times> string \<times> string) list" where
  "et_bcores t = map bt_core (et_batches t)"

text \<open>A question against the batches \<open>B\<close> and the escalations \<open>C\<close>: only the arbiter's questions are open or decided, a
  question that waits for a human is on a pending escalation of its own manager and ticket, an answered one on an answered.\<close>

definition question_ok :: "(string \<times> string \<times> string) set \<Rightarrow> (string \<times> string \<times> string \<times> escalation_status) set \<Rightarrow> stored_question \<Rightarrow> bool" where
  "question_ok B C q \<longleftrightarrow>
     (\<exists>m k. (qn_batchId q, m, k) \<in> B \<and>
        (case qn_status q of
           QOpen \<Rightarrow> qn_route q = ToArbiter \<and> qn_escalationId q = None
         | QDecided \<Rightarrow> qn_route q = ToArbiter \<and> qn_escalationId q = None
         | QSelfResolved \<Rightarrow> qn_route q = ToSelf \<and> qn_escalationId q = None
         | QPendingHuman \<Rightarrow> (\<exists>i. qn_escalationId q = Some i \<and> (i, m, k, EPending) \<in> C)
         | QAnswered \<Rightarrow> (\<exists>i. qn_escalationId q = Some i \<and> (i, m, k, EAnswered) \<in> C)))"

definition pending_of :: "(string \<times> string \<times> string \<times> escalation_status) list \<Rightarrow> (string \<times> string) list" where
  "pending_of cores = map (\<lambda>(i, m, k, s). (m, k)) (filter (\<lambda>(i, m, k, s). s = EPending) cores)"

definition tables_ok :: "escalation_tables \<Rightarrow> bool" where
  "tables_ok t \<longleftrightarrow>
     distinct (map fst (et_bcores t)) \<and> distinct (map qn_key (et_questions t)) \<and> distinct (map fst (et_cores t)) \<and> distinct (pending_of (et_cores t))
     \<and> (\<forall>q \<in> set (et_questions t). question_ok (set (et_bcores t)) (set (et_cores t)) q)"

definition reopens_ok :: "stored_question list \<Rightarrow> bool" where
  "reopens_ok qs \<longleftrightarrow>
     distinct (List.map_filter qn_reopens qs)
     \<and> (\<forall>q \<in> set qs. \<forall>key. qn_reopens q = Some key \<longrightarrow>
          (\<exists>y \<in> set qs. qn_key y = key \<and> qn_status y = QDecided \<and> (qn_reopens y \<noteq> None \<longrightarrow> qn_route q = ToHuman)))"

definition moved :: "stored_question \<Rightarrow> stored_question \<Rightarrow> bool" where
  "moved q q' \<longleftrightarrow>
     qn_fixed q' = qn_fixed q
     \<and> (q' = q \<or> qn_status q = QOpen \<and> qn_status q' \<in> {QDecided, QPendingHuman} \<or> qn_status q = QPendingHuman \<and> qn_status q' = QAnswered)"

lemma moved_refl [simp]: "moved q q"
  by (simp add: moved_def)

lemma moved_keys: "list_all2 moved qs qs' \<Longrightarrow> map qn_key qs' = map qn_key qs"
  by (induction rule: list_all2_induct) (simp_all add: moved_def qn_fixed_def)

lemma map_filter_moved: "list_all2 moved qs qs' \<Longrightarrow> List.map_filter qn_reopens qs' = List.map_filter qn_reopens qs"
  by (induction rule: list_all2_induct) (auto simp: moved_def qn_fixed_def List.map_filter_simps split: option.split)

lemma list_all2_left: "list_all2 R xs ys \<Longrightarrow> y \<in> set ys \<Longrightarrow> \<exists>x \<in> set xs. R x y"
  by (induction rule: list_all2_induct) auto

lemma list_all2_right: "list_all2 R xs ys \<Longrightarrow> x \<in> set xs \<Longrightarrow> \<exists>y \<in> set ys. R x y"
  by (induction rule: list_all2_induct) auto

lemma reopens_moved:
  assumes "list_all2 moved qs qs'" "reopens_ok qs"
  shows "reopens_ok qs'"
  unfolding reopens_ok_def
proof (intro conjI ballI allI impI)
  show "distinct (List.map_filter qn_reopens qs')" using assms by (simp add: map_filter_moved reopens_ok_def)
  fix q' key assume q': "q' \<in> set qs'" "qn_reopens q' = Some key"
  then obtain q where q: "q \<in> set qs" "moved q q'" using list_all2_left [OF assms(1)] by blast
  then have "qn_reopens q = Some key" "qn_route q = qn_route q'" using q' by (auto simp: moved_def qn_fixed_def)
  then obtain y where y: "y \<in> set qs" "qn_key y = key" "qn_status y = QDecided" "qn_reopens y \<noteq> None \<longrightarrow> qn_route q = ToHuman"
    using assms(2) q(1) unfolding reopens_ok_def by blast
  obtain y' where "y' \<in> set qs'" "moved y y'" using list_all2_right [OF assms(1) y(1)] by blast
  then have "y \<in> set qs'" using y(3) by (auto simp: moved_def)
  then show "\<exists>y \<in> set qs'. qn_key y = key \<and> qn_status y = QDecided \<and> (qn_reopens y \<noteq> None \<longrightarrow> qn_route q' = ToHuman)"
    using y \<open>qn_route q = qn_route q'\<close> by auto
qed

lemma question_ok_mono: "question_ok B C q \<Longrightarrow> B \<subseteq> B' \<Longrightarrow> C \<subseteq> C' \<Longrightarrow> question_ok B' C' q"
  unfolding question_ok_def by (fastforce split: question_status.splits)

lemma opens_card_ok:
  assumes "opens_card t i m k t'" "distinct (map fst (et_cores t))" "distinct (pending_of (et_cores t))"
  shows "distinct (map fst (et_cores t')) \<and> distinct (pending_of (et_cores t')) \<and> set (et_cores t) \<subseteq> set (et_cores t') \<and> (i, m, k, EPending) \<in> set (et_cores t')"
  using assms by (auto simp: opens_card_def pending_of_def)

text \<open>The questions of one batch judged, then those handed to the human attached to the escalation of its ticket.\<close>

lemma judged_then_joined:
  assumes ok: "tables_ok t" and b: "(b, m, k) \<in> set (et_bcores t)" and rel: "list_all2 (judged b E) (et_questions t) (et_questions t1)"
    and same: "et_bcores t1 = et_bcores t" "et_cores t1 = et_cores t" "et_bcores t2 = et_bcores t1"
    and card: "opens_card t1 i m k t2"
    and qs: "et_questions t2 = update_where (\<lambda>q. qn_batchId q = b \<and> qn_questionId q \<in> E) (\<lambda>q. q\<lparr>qn_escalationId := Some i\<rparr>) (et_questions t1)"
  shows "tables_ok t2 \<and> list_all2 moved (et_questions t) (et_questions t2)"
proof -
  have cores: "distinct (map fst (et_cores t2))" "distinct (pending_of (et_cores t2))" "set (et_cores t) \<subseteq> set (et_cores t2)" "(i, m, k, EPending) \<in> set (et_cores t2)"
    using opens_card_ok [OF card] ok same by (simp_all add: tables_ok_def)
  have moved: "list_all2 moved (et_questions t) (et_questions t2)"
    unfolding qs update_where_def list.rel_map
    by (rule list.rel_mono_strong [OF rel]) (auto simp: judged_def moved_def qn_fixed_def qn_key_def)
  have "question_ok (set (et_bcores t2)) (set (et_cores t2)) q'" if q': "q' \<in> set (et_questions t2)" for q'
  proof -
    obtain q q1 where q: "q \<in> set (et_questions t)" "judged b E q q1"
      "q' = (if qn_batchId q1 = b \<and> qn_questionId q1 \<in> E then q1\<lparr>qn_escalationId := Some i\<rparr> else q1)"
      using q' list_all2_left [OF rel] unfolding qs set_update_where by metis
    have old: "question_ok (set (et_bcores t2)) (set (et_cores t2)) q"
      using ok q(1) cores(3) question_ok_mono [of "set (et_bcores t)"] same by (auto simp: tables_ok_def)
    show ?thesis
    proof (cases "q1 = q")
      case True
      then show ?thesis using q(2,3) old by (auto simp: judged_def)
    next
      case False
      then have open_q: "qn_status q = QOpen" "qn_batchId q1 = b" "qn_status q1 \<in> {QDecided, QPendingHuman}" "qn_route q1 = qn_route q"
        "qn_escalationId q1 = qn_escalationId q" "qn_batchId q1 = b \<and> qn_questionId q1 \<in> E \<longleftrightarrow> qn_status q1 = QPendingHuman"
        using q(2) by (auto simp: judged_def qn_fixed_def qn_key_def)
      then have "qn_route q1 = ToArbiter" "qn_escalationId q1 = None" using old by (auto simp: question_ok_def)
      then show ?thesis using open_q q(3) b same cores(4) by (cases "qn_status q1") (auto simp: question_ok_def)
    qed
  qed
  then show ?thesis using ok moved cores same moved_keys [OF moved] by (simp add: tables_ok_def)
qed

section \<open>The operations keep it\<close>

text \<open>What an operation does to the questions: the old ones move, new ones may follow.\<close>

definition keeps :: "escalation_tables \<Rightarrow> escalation_tables \<Rightarrow> bool" where
  "keeps t t' \<longleftrightarrow>
     tables_ok t' \<and> (reopens_ok (et_questions t) \<longrightarrow> reopens_ok (et_questions t'))
     \<and> (\<exists>old new. et_questions t' = old @ new \<and> list_all2 moved (et_questions t) old)"

lemma keeps_moved: "tables_ok t' \<Longrightarrow> list_all2 moved (et_questions t) (et_questions t') \<Longrightarrow> keeps t t'"
  unfolding keeps_def using reopens_moved by (metis append_Nil2)

lemma keeps_refl: "tables_ok t \<Longrightarrow> keeps t t"
  by (rule keeps_moved) (simp_all add: list_all2_same)

lemma keeps_same:
  assumes "tables_ok t" "et_bcores t' = et_bcores t" "et_questions t' = et_questions t" "et_cores t' = et_cores t"
  shows "keeps t t'"
  using assms by (intro keeps_moved) (simp_all add: tables_ok_def list_all2_same)

lemma bcores_updates [simp]:
  "et_bcores (addArbiterRun b t) = et_bcores t" "et_bcores (recordCriteriaOpinion b opinion reasons t) = et_bcores t"
  by (simp_all add: et_bcores_def addArbiterRun_def recordCriteriaOpinion_def map_update_where bt_core_def)

lemma others_updates [simp]:
  "et_questions (addArbiterRun b t) = et_questions t" "et_cores (addArbiterRun b t) = et_cores t"
  "et_questions (recordCriteriaOpinion b opinion reasons t) = et_questions t" "et_cores (recordCriteriaOpinion b opinion reasons t) = et_cores t"
  by (simp_all add: addArbiterRun_def recordCriteriaOpinion_def et_cores_def)

lemma insert_decisions [simp]:
  "et_questions (fold (\<lambda>d. insertArbiterDecision (f d)) ds t) = et_questions t" "et_cores (fold (\<lambda>d. insertArbiterDecision (f d)) ds t) = et_cores t"
  "et_bcores (fold (\<lambda>d. insertArbiterDecision (f d)) ds t) = et_bcores t"
  by (induction ds arbitrary: t) (simp_all add: insertArbiterDecision_def et_cores_def et_bcores_def)

lemma judged_moved: "list_all2 (judged b {}) qs qs' \<Longrightarrow> list_all2 moved qs qs'"
  by (erule list.rel_mono_strong) (auto simp: judged_def moved_def)

text \<open>Nothing handed to the human: the judgement alone keeps the invariant.\<close>

lemma judged_only:
  assumes ok: "tables_ok t" and rel: "list_all2 (judged b {}) (et_questions t) (et_questions t1)"
    and same: "et_bcores t1 = et_bcores t" "et_cores t1 = et_cores t"
  shows "keeps t t1"
proof (rule keeps_moved)
  show moved: "list_all2 moved (et_questions t) (et_questions t1)" using judged_moved [OF rel] .
  have "question_ok (set (et_bcores t1)) (set (et_cores t1)) q1" if q1: "q1 \<in> set (et_questions t1)" for q1
  proof -
    obtain q where q: "q \<in> set (et_questions t)" "judged b {} q q1" using list_all2_left [OF rel q1] by blast
    then have "question_ok (set (et_bcores t1)) (set (et_cores t1)) q" using ok same by (simp add: tables_ok_def)
    then show ?thesis using q(2) by (auto simp: judged_def question_ok_def qn_fixed_def qn_key_def) blast
  qed
  then show "tables_ok t1" using ok moved same moved_keys [OF moved] by (simp add: tables_ok_def)
qed

lemma findBatch_core: "findBatch i t = Some b \<Longrightarrow> bt_id b = i \<and> (i, bt_managerId b, bt_ticket b) \<in> set (et_bcores t)"
  by (force simp: findBatch_def et_bcores_def bt_core_def dest: find_SomeD)

lemma et_bcores_cong: "et_batches t' = et_batches t \<Longrightarrow> et_bcores t' = et_bcores t"
  by (simp add: et_bcores_def)

lemma joined_keeps:
  assumes ok: "tables_ok t" and b: "(b, m, k) \<in> set (et_bcores t)" and rel: "list_all2 (judged b (set ids)) (et_questions t) (et_questions (es_tables st))"
    and same: "et_bcores (es_tables st) = et_bcores t" "et_cores (es_tables st) = et_cores t"
    and join: "joinEscalation env b m k ids full st = Inr (h, st')"
  shows "keeps t (es_tables st')"
proof -
  note j = joinEscalation_tables [OF join]
  then have "et_bcores (es_tables st') = et_bcores (es_tables st)" using et_bcores_cong by blast
  with judged_then_joined [OF ok b rel same, of "es_tables st'" "eh_escalationId h"] j show ?thesis by (simp add: keeps_moved)
qed

lemma escalated_are_applied:
  "apply_decisions te b questions ev ds acc t = (acc', t') \<Longrightarrow> (ap_applied acc = [] \<longrightarrow> ap_escalated acc = []) \<Longrightarrow>
   ap_applied acc' = [] \<longrightarrow> ap_escalated acc' = []"
proof (induction ds arbitrary: acc t)
  case (Cons d ds)
  obtain r t1 where "apply_decision te b questions ev d t = (r, t1)" by fastforce
  then show ?case using Cons by (auto split: option.splits prod.splits if_splits)
qed simp

lemma applyOpinion_keeps:
  assumes "applyOpinion env b questions opinion s ev st = Inr (r, st')" "tables_ok (es_tables st)" "(bt_id b, bt_managerId b, bt_ticket b) \<in> set (et_bcores (es_tables st))"
  shows "keeps (es_tables st) (es_tables st')"
proof -
  obtain acc t1 where acc: "apply_decisions (ev_text env) (bt_id b) questions ev (ao_decisions opinion) nothing_applied (es_tables st) = (acc, t1)" by fastforce
  have rel: "list_all2 (judged (bt_id b) (set (ap_escalated acc))) (et_questions (es_tables st)) (et_questions t1)"
    and same: "et_bcores t1 = et_bcores (es_tables st)" "et_cores t1 = et_cores (es_tables st)"
    using apply_decisions_judged [OF _ _ acc, of "et_questions (es_tables st)"] assms(2)
    by (simp_all add: nothing_applied_def list_all2_judged_refl tables_ok_def et_bcores_def)
  obtain rev warnings w where trail: "appendDecisionSections env b s (ap_applied acc) (es_world st) = ((rev, warnings), w)" by (metis surj_pair)
  show ?thesis
  proof (cases "ap_escalated acc = []")
    case True
    then show ?thesis using assms(1) judged_only [OF assms(2), of "bt_id b"] rel same
      by (auto simp: applyOpinion_def acc trail Let_def split: if_splits)
  next
    case False
    then have "ap_applied acc \<noteq> []" using escalated_are_applied [OF acc] by (auto simp: nothing_applied_def)
    with assms(1) False trail acc obtain h st3 where join: "joinEscalation env (bt_id b) (bt_managerId b) (bt_ticket b) (ap_escalated acc) None st3 = Inr (h, st')"
      and st3: "et_questions (es_tables st3) = et_questions t1" "et_bcores (es_tables st3) = et_bcores t1" "et_cores (es_tables st3) = et_cores t1"
      by (auto simp: applyOpinion_def Let_def)
    show ?thesis by (rule joined_keeps [OF assms(2,3) _ _ _ join]) (simp_all add: st3 rel same)
  qed
qed

lemma tables_tell_opinion: "tell_opinion env b s c recorded st = (r, st') \<Longrightarrow> es_tables st' = es_tables st"
  by (auto simp: tell_opinion_def Let_def split: prod.splits option.splits if_splits dest!: tables_es_journalD)

lemma tables_tell_handover [simp]: "es_tables (tell_handover env b reason h st) = es_tables st"
  unfolding tell_handover_def Let_def by (simp only: tables_send tables_es_journal tables_emitRaised split: option.split prod.split) simp

lemma recordArbiterOpinion_keeps:
  assumes "recordArbiterOpinion env m s opinion st = Inr (r, st')" "tables_ok (es_tables st)"
  shows "keeps (es_tables st) (es_tables st')"
proof -
  obtain b where b: "findBatch (ao_batchId opinion) (es_tables st) = Some b" using assms(1) by (auto simp: recordArbiterOpinion_def split: option.splits)
  with assms(1) obtain ev x st1 where one: "applyOpinion env b (questionsOfBatch (bt_id b) (es_tables st)) opinion s ev st = Inr (x, st1)"
    and st': "es_tables st' = es_tables st1"
    by (auto simp: recordArbiterOpinion_def Let_def tables_tell_opinion split: if_splits)
  from findBatch_core [OF b] applyOpinion_keeps [OF one assms(2)] st' show ?thesis by auto
qed

lemma escalateBatchToHuman_keeps:
  assumes "escalateBatchToHuman env i reason st = Inr (r, st')" "tables_ok (es_tables st)"
  shows "keeps (es_tables st) (es_tables st')"
proof (cases "findBatch i (es_tables st)")
  case None
  then show ?thesis using assms keeps_refl by (simp add: escalateBatchToHuman_def)
next
  case (Some b)
  obtain x st1 where x: "handWaitingQuestionsToHuman env b reason st = Inr (x, st1)" "es_tables st' = es_tables st1"
    using assms(1) Some by (auto simp: escalateBatchToHuman_def split: option.splits)
  obtain handed t where h: "fold (defer_question (bt_id b) reason)
      (filter (\<lambda>q. qn_route q = ToArbiter \<and> qn_status q = QOpen) (questionsOfBatch (bt_id b) (es_tables st))) ([], es_tables st) = (handed, t)" by fastforce
  have rel: "list_all2 (judged (bt_id b) (set (map qn_questionId handed))) (et_questions (es_tables st)) (et_questions t)"
    and same: "et_bcores t = et_bcores (es_tables st)" "et_cores t = et_cores (es_tables st)"
    using defer_questions_judged [of "bt_id b" "([], es_tables st)" "et_questions (es_tables st)" reason
        "filter (\<lambda>q. qn_route q = ToArbiter \<and> qn_status q = QOpen) (questionsOfBatch (bt_id b) (es_tables st))"] assms(2)
    by (simp_all add: h list_all2_judged_refl tables_ok_def et_bcores_def)
  note core = findBatch_core [OF Some]
  show ?thesis
  proof (cases "handed = []")
    case True
    then show ?thesis using x h judged_only [OF assms(2), of "bt_id b" t] rel same by (auto simp: handWaitingQuestionsToHuman_def)
  next
    case False
    then obtain j where "joinEscalation env (bt_id b) (bt_managerId b) (bt_ticket b) (map qn_questionId handed) (Some reason) (st\<lparr>es_tables := t\<rparr>) = Inr (j, st1)"
      using x(1) h by (auto simp: handWaitingQuestionsToHuman_def)
    from joined_keeps [OF assms(2) _ _ _ _ this] core rel same x(2) show ?thesis by simp
  qed
qed

lemma retryHandover_keeps:
  assumes "retryHandover env i st = Inr (r, st')" "tables_ok (es_tables st)"
  shows "keeps (es_tables st) (es_tables st')"
  using assms by (intro keeps_same) (auto simp: retryHandover_def Let_def et_bcores_def split: if_splits dest!: tables_ensureItem)

section \<open>Submissions\<close>

definition contested_of :: "(string \<Rightarrow> reopen_plan option) \<Rightarrow> plan_question \<Rightarrow> (string \<times> string) option" where
  "contested_of plans q = (case plans (pq_id q) of None \<Rightarrow> None | Some p \<Rightarrow> rp_contested p)"

definition plan_ok :: "escalation_tables \<Rightarrow> reopen_plan \<Rightarrow> bool" where
  "plan_ok t p \<longleftrightarrow>
     (\<forall>key. rp_contested p = Some key \<longrightarrow>
        \<not> isReopened key t \<and> (\<exists>y \<in> set (et_questions t). qn_key y = key \<and> qn_status y = QDecided \<and> (qn_reopens y \<noteq> None \<longrightarrow> rp_kind p = Dispute)))"

lemma map_filter_cong_set: "(\<And>x. x \<in> set xs \<Longrightarrow> f x = g x) \<Longrightarrow> List.map_filter f xs = List.map_filter g xs"
  by (induction xs) (simp_all add: List.map_filter_simps split: option.split)

lemma planReopens_plans:
  assumes "planReopens env m k t qs plans ck = Inr plans'" "distinct (map pq_id qs)" "\<forall>q \<in> set qs. plans (pq_id q) = None"
  shows "(\<forall>i. i \<notin> pq_id ` set qs \<longrightarrow> plans' i = plans i) \<and> distinct (List.map_filter (contested_of plans') qs)
    \<and> set (List.map_filter (contested_of plans') qs) \<inter> set ck = {} \<and> (\<forall>q \<in> set qs. \<forall>p. plans' (pq_id q) = Some p \<longrightarrow> plan_ok t p)"
  using assms
proof (induction qs arbitrary: plans ck)
  case (Cons q qs)
  have fresh: "pq_id q \<notin> pq_id ` set qs" "distinct (map pq_id qs)" using Cons.prems(2) by auto
  show ?case
  proof (cases "pq_reopens q")
    case None
    with Cons.prems(1) have "planReopens env m k t qs plans ck = Inr plans'" by simp
    from Cons.IH [OF this fresh(2)] Cons.prems(3) have IH: "(\<forall>i. i \<notin> pq_id ` set qs \<longrightarrow> plans' i = plans i)" "distinct (List.map_filter (contested_of plans') qs)"
      "set (List.map_filter (contested_of plans') qs) \<inter> set ck = {}" "\<forall>q \<in> set qs. \<forall>p. plans' (pq_id q) = Some p \<longrightarrow> plan_ok t p" by auto
    then have "plans' (pq_id q) = None" using fresh Cons.prems(3) by simp
    moreover from this have "contested_of plans' q = None" by (simp add: contested_of_def)
    ultimately show ?thesis using IH by (auto simp: List.map_filter_simps)
  next
    case (Some y)
    with Cons.prems(1) obtain evidence where "executedEvidenceOf (ev_text env) q = Inr evidence" by auto
    note some = Some this
    show ?thesis
    proof (cases "ev_decisionsReadable env m k y")
      case False
      let ?p = "\<lparr>rp_kind = Dispute, rp_evidence = evidence, rp_contested = None\<rparr>"
      from Cons.prems(1) some False have "planReopens env m k t qs (plans(pq_id q \<mapsto> ?p)) ck = Inr plans'" by simp
      moreover have "\<forall>q' \<in> set qs. (plans(pq_id q \<mapsto> ?p)) (pq_id q') = None" using Cons.prems(3) fresh(1) by (metis fun_upd_other imageI list.set_intros(2))
      ultimately have IH: "(\<forall>i. i \<notin> pq_id ` set qs \<longrightarrow> plans' i = (plans(pq_id q \<mapsto> ?p)) i)"
        "distinct (List.map_filter (contested_of plans') qs)" "set (List.map_filter (contested_of plans') qs) \<inter> set ck = {}"
        "\<forall>q \<in> set qs. \<forall>p. plans' (pq_id q) = Some p \<longrightarrow> plan_ok t p" using Cons.IH [OF _ fresh(2)] by blast+
      then have "plans' (pq_id q) = Some ?p" using fresh by simp
      moreover from this have "contested_of plans' q = None" by (simp add: contested_of_def)
      moreover have "plan_ok t ?p" by (simp add: plan_ok_def)
      ultimately show ?thesis using IH by (auto simp: List.map_filter_simps)
    next
      case True
      then obtain target where target: "decidedQuestionForReopen m k y t = Some target" "qn_key target \<notin> set ck" "\<not> isReopened (qn_key target) t"
        using Cons.prems(1) some by (auto split: option.splits if_splits)
      let ?p = "\<lparr>rp_kind = (if qn_reopens target \<noteq> None then Dispute else Review), rp_evidence = evidence, rp_contested = Some (qn_key target)\<rparr>"
      from Cons.prems(1) some True target have "planReopens env m k t qs (plans(pq_id q \<mapsto> ?p)) (qn_key target # ck) = Inr plans'" by simp
      moreover have "\<forall>q' \<in> set qs. (plans(pq_id q \<mapsto> ?p)) (pq_id q') = None" using Cons.prems(3) fresh(1) by (metis fun_upd_other imageI list.set_intros(2))
      ultimately have IH: "(\<forall>i. i \<notin> pq_id ` set qs \<longrightarrow> plans' i = (plans(pq_id q \<mapsto> ?p)) i)"
        "distinct (List.map_filter (contested_of plans') qs)" "set (List.map_filter (contested_of plans') qs) \<inter> set (qn_key target # ck) = {}"
        "\<forall>q \<in> set qs. \<forall>p. plans' (pq_id q) = Some p \<longrightarrow> plan_ok t p" using Cons.IH [OF _ fresh(2)] by blast+
      then have p: "plans' (pq_id q) = Some ?p" using fresh by simp
      have "target \<in> set (et_questions t) \<and> qn_status target = QDecided" using target(1) by (auto simp: decidedQuestionForReopen_def dest: find_SomeD)
      then have "plan_ok t ?p" using target(3) by (auto simp: plan_ok_def)
      moreover have "contested_of plans' q = Some (qn_key target)" using p by (simp add: contested_of_def)
      ultimately show ?thesis using IH p target(2) by (auto simp: List.map_filter_simps)
    qed
  qed
qed (simp add: List.map_filter_simps)

lemma insert_questions_rows:
  "insert_questions rows t = Inr t' \<Longrightarrow> distinct (map qn_key (et_questions t)) \<Longrightarrow>
   t' = t\<lparr>et_questions := et_questions t @ rows\<rparr> \<and> distinct (map qn_key (et_questions t @ rows))"
proof (induction rows arbitrary: t)
  case (Cons q rows)
  then obtain t1 where one: "insertQuestion q t = Some t1" "insert_questions rows t1 = Inr t'" by auto
  then have t1: "qn_key q \<notin> qn_key ` set (et_questions t)" "t1 = t\<lparr>et_questions := et_questions t @ [q]\<rparr>"
    by (auto simp: insertQuestion_def split: if_splits)
  then have "distinct (map qn_key (et_questions t1))" using Cons.prems(2) by simp
  from Cons.IH [OF one(2) this] show ?case by (simp add: t1(2))
qed simp

lemma routed_rows:
  assumes "q \<in> set (routed_questions te b policy plans qs)"
  shows "qn_batchId q = b \<and> qn_status q = STATUS_OF_ROUTE (qn_route q) \<and> qn_escalationId q = None"
  using assms by (auto simp: routed_questions_def newQuestionOf_def)

lemma routed_keys: "map qn_key (routed_questions te b policy plans qs) = map (\<lambda>q. (b, pq_id q)) qs"
  by (simp add: routed_questions_def newQuestionOf_def qn_key_def)

lemma routed_reopens: "List.map_filter qn_reopens (routed_questions te b policy plans qs) = List.map_filter (contested_of plans) qs"
  by (induction qs) (simp_all add: routed_questions_def newQuestionOf_def contested_of_def List.map_filter_simps split: option.split)

lemma routed_disputes:
  assumes "q \<in> set (routed_questions te b policy plans qs)" "qn_reopens q = Some key"
  shows "\<exists>p x. x \<in> set qs \<and> plans (pq_id x) = Some p \<and> rp_contested p = Some key \<and> (rp_kind p = Dispute \<longrightarrow> qn_route q = ToHuman)"
proof -
  obtain x where x: "x \<in> set qs" "q = newQuestionOf te b x (routingOf te x (plans (pq_id x)) policy) (plans (pq_id x))"
    using assms(1) by (auto simp: routed_questions_def)
  then obtain p where "plans (pq_id x) = Some p" "rp_contested p = Some key" using assms(2) by (auto simp: newQuestionOf_def split: option.splits)
  then show ?thesis using x by (intro exI [of _ p] exI [of _ x]) (simp add: newQuestionOf_def routingOf_def Let_def)
qed

text \<open>Attaching changes nothing the reopenings depend on.\<close>

lemma reopens_appended:
  assumes old: "reopens_ok qs" and new: "list_all2 (\<lambda>q q'. qn_fixed q' = qn_fixed q) rows rows'"
    and rows: "distinct (List.map_filter qn_reopens rows)"
    and targets: "\<And>q key. q \<in> set rows \<Longrightarrow> qn_reopens q = Some key \<Longrightarrow>
      (\<forall>x \<in> set qs. qn_reopens x \<noteq> Some key) \<and> (\<exists>y \<in> set qs. qn_key y = key \<and> qn_status y = QDecided \<and> (qn_reopens y \<noteq> None \<longrightarrow> qn_route q = ToHuman))"
  shows "reopens_ok (qs @ rows')"
proof -
  have same: "List.map_filter qn_reopens rows' = List.map_filter qn_reopens rows"
    using new by (induction rule: list_all2_induct) (auto simp: qn_fixed_def List.map_filter_simps split: option.split)
  have member: "key \<in> set (List.map_filter qn_reopens xs) \<longleftrightarrow> (\<exists>x \<in> set xs. qn_reopens x = Some key)" for key xs
    by (force simp: List.map_filter_def)
  have "List.map_filter qn_reopens (qs @ rows') = List.map_filter qn_reopens qs @ List.map_filter qn_reopens rows'" by (simp add: List.map_filter_def)
  moreover have "set (List.map_filter qn_reopens qs) \<inter> set (List.map_filter qn_reopens rows) = {}" using targets unfolding disjoint_iff member by blast
  ultimately have "distinct (List.map_filter qn_reopens (qs @ rows'))" using old rows same by (simp add: reopens_ok_def)
  moreover have "\<exists>y \<in> set (qs @ rows'). qn_key y = key \<and> qn_status y = QDecided \<and> (qn_reopens y \<noteq> None \<longrightarrow> qn_route q = ToHuman)"
    if q: "q \<in> set (qs @ rows')" "qn_reopens q = Some key" for q key
  proof (cases "q \<in> set qs")
    case True
    then show ?thesis using old q(2) unfolding reopens_ok_def set_append by blast
  next
    case False
    with q(1) list_all2_left [OF new] obtain q0 where "q0 \<in> set rows" "qn_fixed q = qn_fixed q0" by auto
    then show ?thesis using targets [of q0 key] q(2) by (auto simp: qn_fixed_def)
  qed
  ultimately show ?thesis unfolding reopens_ok_def by blast
qed

lemma storeBatch_parts:
  assumes "storeBatch env batch st = Inr (r, st')" "tables_ok (es_tables st)"
  shows "\<exists>b plans rows rows' t1. b \<notin> fst ` set (et_bcores (es_tables st)) \<and> rows = routed_questions (ev_text env) b (pb_policy batch) plans (pb_questions batch)
    \<and> et_questions t1 = et_questions (es_tables st) \<and> planReopens env (pb_managerId batch) (pb_ticket batch) t1 (pb_questions batch) Map.empty [] = Inr plans
    \<and> distinct (map qn_key (et_questions (es_tables st) @ rows))
    \<and> et_bcores (es_tables st') = et_bcores (es_tables st) @ [(b, pb_managerId batch, pb_ticket batch)]
    \<and> et_questions (es_tables st') = et_questions (es_tables st) @ rows'
    \<and> (rows' = rows \<and> et_cores (es_tables st') = et_cores (es_tables st) \<and> (\<forall>q \<in> set rows. qn_route q \<noteq> ToHuman)
       \<or> (\<exists>i. opens_card (es_tables st) i (pb_managerId batch) (pb_ticket batch) (es_tables st')
            \<and> rows' = map (\<lambda>q. if qn_route q = ToHuman then q\<lparr>qn_escalationId := Some i\<rparr> else q) rows))"
proof -
  obtain b w where b: "ev_newId env (es_world st) = (b, w)" by fastforce
  let ?t = "es_tables st" and ?m = "pb_managerId batch" and ?k = "pb_ticket batch"
  define t1 where "t1 = ?t\<lparr>et_batches := et_batches ?t @ [\<lparr>bt_id = b, bt_managerId = ?m, bt_ticket = ?k, bt_planNoteId = pb_planNoteId batch,
      bt_planNoteRev = pb_planNoteRev batch, bt_createdAt = ev_clock env w, bt_arbiterRuns = 0, bt_criteriaOpinion = None\<rparr>]\<rparr>"
  have t1: "et_questions t1 = et_questions ?t" "et_bcores t1 = et_bcores ?t @ [(b, ?m, ?k)]" "et_cores t1 = et_cores ?t"
    by (simp_all add: t1_def et_bcores_def bt_core_def et_cores_def)
  obtain plans t2 x where parts: "b \<notin> bt_id ` set (et_batches ?t)" "planReopens env ?m ?k t1 (pb_questions batch) Map.empty [] = Inr plans"
    "insert_questions (routed_questions (ev_text env) b (pb_policy batch) plans (pb_questions batch)) t1 = Inr t2"
    and join: "let ids = map qn_questionId (filter (\<lambda>q. qn_route q = ToHuman) (routed_questions (ev_text env) b (pb_policy batch) plans (pb_questions batch)))
      in if ids = [] then st' = st\<lparr>es_tables := t2, es_world := w\<rparr> else joinEscalation env b ?m ?k ids None (st\<lparr>es_tables := t2, es_world := w\<rparr>) = Inr (x, st')"
    using assms(1) b by (auto simp: storeBatch_def insertBatch_def t1_def Let_def split: if_splits)
  let ?rows = "routed_questions (ev_text env) b (pb_policy batch) plans (pb_questions batch)"
  have fresh: "b \<notin> fst ` set (et_bcores ?t)" using parts(1) by (auto simp: et_bcores_def bt_core_def)
  from insert_questions_rows [OF parts(3)] assms(2) t1(1)
  have t2: "t2 = t1\<lparr>et_questions := et_questions ?t @ ?rows\<rparr>" and keys: "distinct (map qn_key (et_questions ?t @ ?rows))" by (simp_all add: tables_ok_def)
  show ?thesis
  proof (cases "\<forall>q \<in> set ?rows. qn_route q \<noteq> ToHuman")
    case True
    then have "filter (\<lambda>q. qn_route q = ToHuman) ?rows = []" by simp
    then have "es_tables st' = t2" using join by simp
    moreover have "et_bcores t2 = et_bcores t1" "et_cores t2 = et_cores t1" "et_questions t2 = et_questions ?t @ ?rows" by (simp_all add: t2 et_bcores_def et_cores_def)
    ultimately show ?thesis using True t1 fresh keys parts(2) by (intro exI [of _ b] exI [of _ plans] exI [of _ ?rows] exI [of _ t1]) simp
  next
    case False
    let ?ids = "map qn_questionId (filter (\<lambda>q. qn_route q = ToHuman) ?rows)"
    have "?ids \<noteq> []" using False by (simp add: filter_empty_conv)
    then have "joinEscalation env b ?m ?k ?ids None (st\<lparr>es_tables := t2, es_world := w\<rparr>) = Inr (x, st')" using join by simp
    note j = joinEscalation_tables [OF this, simplified]
    let ?i = "eh_escalationId x"
    have old: "qn_batchId q \<noteq> b" if "q \<in> set (et_questions ?t)" for q
      using assms(2) that fresh by (force simp: tables_ok_def question_ok_def)
    have hit: "qn_batchId q = b \<and> qn_questionId q \<in> set ?ids \<longleftrightarrow> qn_route q = ToHuman" if q: "q \<in> set ?rows" for q
    proof
      assume "qn_batchId q = b \<and> qn_questionId q \<in> set ?ids"
      then obtain q' where q': "q' \<in> set ?rows" "qn_route q' = ToHuman" "qn_questionId q' = qn_questionId q" by auto
      then have "qn_key q' = qn_key q" using routed_rows q by (metis qn_key_def)
      then have "q' = q" using keys q q'(1) key_unique [of qn_key ?rows] by simp
      then show "qn_route q = ToHuman" using q' by simp
    qed (use q routed_rows in auto)
    have qs: "et_questions (es_tables st') = et_questions ?t @ map (\<lambda>q. if qn_route q = ToHuman then q\<lparr>qn_escalationId := Some ?i\<rparr> else q) ?rows"
      using j old hit by (auto simp: t2 update_where_def intro!: map_idI)
    have "et_cores t2 = et_cores ?t" using t1(3) by (simp add: t2 et_cores_def)
    then have "opens_card ?t ?i ?m ?k (es_tables st')" using j by (simp add: opens_card_def)
    moreover have "et_bcores (es_tables st') = et_bcores t1" using j by (simp add: t2 et_bcores_def)
    ultimately show ?thesis using qs t1 fresh keys parts(2)
      by (intro exI [of _ b] exI [of _ plans] exI [of _ ?rows] exI [of _ "map (\<lambda>q. if qn_route q = ToHuman then q\<lparr>qn_escalationId := Some ?i\<rparr> else q) ?rows"] exI [of _ t1]) auto
  qed
qed

lemma storeBatch_keeps:
  assumes "storeBatch env batch st = Inr (r, st')" "tables_ok (es_tables st)"
  shows "keeps (es_tables st) (es_tables st')"
proof -
  let ?t = "es_tables st" and ?t' = "es_tables st'" and ?m = "pb_managerId batch" and ?k = "pb_ticket batch"
  obtain b plans rows rows' t1 where p: "b \<notin> fst ` set (et_bcores ?t)" "rows = routed_questions (ev_text env) b (pb_policy batch) plans (pb_questions batch)"
    "et_questions t1 = et_questions ?t" "planReopens env ?m ?k t1 (pb_questions batch) Map.empty [] = Inr plans"
    "distinct (map qn_key (et_questions ?t @ rows))" "et_bcores ?t' = et_bcores ?t @ [(b, ?m, ?k)]" "et_questions ?t' = et_questions ?t @ rows'"
    and c: "rows' = rows \<and> et_cores ?t' = et_cores ?t \<and> (\<forall>q \<in> set rows. qn_route q \<noteq> ToHuman)
       \<or> (\<exists>i. opens_card ?t i ?m ?k ?t' \<and> rows' = map (\<lambda>q. if qn_route q = ToHuman then q\<lparr>qn_escalationId := Some i\<rparr> else q) rows)"
    using storeBatch_parts [OF assms] by blast
  have cores: "distinct (map fst (et_cores ?t'))" "distinct (pending_of (et_cores ?t'))" "set (et_cores ?t) \<subseteq> set (et_cores ?t')"
    using c opens_card_ok [of ?t _ ?m ?k ?t'] assms(2) by (auto simp: tables_ok_def)
  have fixed: "list_all2 (\<lambda>q q'. qn_fixed q' = qn_fixed q) rows rows'"
    using c by (auto simp: list_all2_same list.rel_map qn_fixed_def qn_key_def)
  have keys: "map qn_key rows' = map qn_key rows" using fixed by (induction rule: list_all2_induct) (simp_all add: qn_fixed_def)
  have "question_ok (set (et_bcores ?t')) (set (et_cores ?t')) q'" if q': "q' \<in> set rows'" for q'
  proof -
    from list_all2_left [OF fixed q'] obtain q where "q \<in> set rows" "qn_fixed q' = qn_fixed q" by blast
    then have "qn_batchId q' = b" using routed_rows p(2) by (auto simp: qn_fixed_def qn_key_def)
    moreover have "(case qn_status q' of
           QOpen \<Rightarrow> qn_route q' = ToArbiter \<and> qn_escalationId q' = None | QDecided \<Rightarrow> qn_route q' = ToArbiter \<and> qn_escalationId q' = None
         | QSelfResolved \<Rightarrow> qn_route q' = ToSelf \<and> qn_escalationId q' = None
         | QPendingHuman \<Rightarrow> (\<exists>i. qn_escalationId q' = Some i \<and> (i, ?m, ?k, EPending) \<in> set (et_cores ?t'))
         | QAnswered \<Rightarrow> (\<exists>i. qn_escalationId q' = Some i \<and> (i, ?m, ?k, EAnswered) \<in> set (et_cores ?t')))"
      using c
    proof (elim disjE exE conjE)
      assume "rows' = rows" "\<forall>q \<in> set rows. qn_route q \<noteq> ToHuman"
      then show ?thesis using routed_rows [of q'] q' p(2) by (cases "qn_route q'") (auto simp: STATUS_OF_ROUTE_def)
    next
      fix i assume i: "opens_card ?t i ?m ?k ?t'" "rows' = map (\<lambda>q. if qn_route q = ToHuman then q\<lparr>qn_escalationId := Some i\<rparr> else q) rows"
      then have "(i, ?m, ?k, EPending) \<in> set (et_cores ?t')" using opens_card_ok [OF i(1)] assms(2) by (simp add: tables_ok_def)
      moreover obtain q where "q \<in> set rows" "q' = (if qn_route q = ToHuman then q\<lparr>qn_escalationId := Some i\<rparr> else q)" using q' i(2) by auto
      ultimately show ?thesis using routed_rows [of q] p(2) by (cases "qn_route q") (auto simp: STATUS_OF_ROUTE_def)
    qed
    ultimately show ?thesis unfolding question_ok_def using p(6) by (intro exI [of _ ?m] exI [of _ ?k]) simp
  qed
  moreover have "question_ok (set (et_bcores ?t')) (set (et_cores ?t')) q" if "q \<in> set (et_questions ?t)" for q
  proof (rule question_ok_mono [OF _ _ cores(3)])
    show "question_ok (set (et_bcores ?t)) (set (et_cores ?t)) q" using assms(2) that by (simp add: tables_ok_def)
    show "set (et_bcores ?t) \<subseteq> set (et_bcores ?t')" by (auto simp: p(6))
  qed
  moreover have "distinct (map qn_key (et_questions ?t'))" using p(5) keys unfolding p(7) map_append by simp
  moreover have "distinct (map fst (et_bcores ?t'))" using assms(2) p(1) unfolding p(6) by (simp add: tables_ok_def)
  ultimately have ok: "tables_ok ?t'" unfolding tables_ok_def using cores(1,2) unfolding p(7) set_append by blast
  have "distinct (map pq_id (pb_questions batch))" using p(5) unfolding p(2) map_append routed_keys by (simp add: distinct_map inj_on_def)
  from planReopens_plans [OF p(4) this] have plans: "distinct (List.map_filter (contested_of plans) (pb_questions batch))"
    "\<forall>q \<in> set (pb_questions batch). \<forall>p. plans (pq_id q) = Some p \<longrightarrow> plan_ok t1 p" by auto
  have "reopens_ok (et_questions ?t')" if old: "reopens_ok (et_questions ?t)"
    unfolding p(7)
  proof (rule reopens_appended [OF old fixed])
    show "distinct (List.map_filter qn_reopens rows)" using plans(1) by (simp add: p(2) routed_reopens)
    fix q key assume q: "q \<in> set rows" "qn_reopens q = Some key"
    then obtain pl x where pl: "x \<in> set (pb_questions batch)" "plans (pq_id x) = Some pl" "rp_contested pl = Some key" "rp_kind pl = Dispute \<longrightarrow> qn_route q = ToHuman"
      using routed_disputes unfolding p(2) by blast
    then have "plan_ok t1 pl" using plans(2) by blast
    then show "(\<forall>x \<in> set (et_questions ?t). qn_reopens x \<noteq> Some key)
        \<and> (\<exists>y \<in> set (et_questions ?t). qn_key y = key \<and> qn_status y = QDecided \<and> (qn_reopens y \<noteq> None \<longrightarrow> qn_route q = ToHuman))"
      using pl(3,4) p(3) by (auto simp: plan_ok_def isReopened_def list_ex_iff)
  qed
  moreover have "list_all2 moved (et_questions ?t) (et_questions ?t)" by (simp add: list_all2_same)
  ultimately show ?thesis using ok p(7) unfolding keeps_def by blast
qed

lemma submitBatch_keeps:
  assumes "submitBatch env batch st = Inr (r, st')" "tables_ok (es_tables st)"
  shows "keeps (es_tables st) (es_tables st')"
proof -
  obtain batch' r1 st1 where one: "storeBatch env batch' st = Inr (r1, st1)" "es_tables st' = es_tables st1"
    using assms(1) by (auto simp: submitBatch_def Let_def journalReopened_def journalSelfResolved_def split: option.splits)
  from storeBatch_keeps [OF one(1) assms(2)] one(2) show ?thesis by simp
qed

section \<open>Answers\<close>

definition with_answer :: "instant \<Rightarrow> string \<Rightarrow> stored_question \<Rightarrow> stored_question" where
  "with_answer answeredAt s q = q\<lparr>qn_status := QAnswered, qn_humanAnswer := Some s, qn_answeredAt := Some answeredAt\<rparr>"

definition answered_question :: "text_env \<Rightarrow> instant \<Rightarrow> (string \<times> string) set \<Rightarrow> (string \<times> string) list \<Rightarrow> stored_question \<Rightarrow> stored_question" where
  "answered_question te answeredAt keys answers q =
     (if qn_status q = QPendingHuman \<and> qn_key q \<in> keys
      then (case map_of answers (qn_questionId q) of None \<Rightarrow> q | Some a \<Rightarrow> with_answer answeredAt (humanReadableText te a) q) else q)"

lemma transition_answer:
  "snd (transitionQuestion key QPendingHuman QAnswered None (Some s) (Some answeredAt) t) =
   t\<lparr>et_questions := update_where (\<lambda>q. qn_key q = key \<and> qn_status q = QPendingHuman) (with_answer answeredAt s) (et_questions t)\<rparr>"
  by (simp add: transitionQuestion_def coalesce_def with_answer_def [abs_def] cong: option.case_cong)

lemma fold_answers:
  "fold (\<lambda>q t. snd (transitionQuestion (key q) QPendingHuman QAnswered None (Some s) (Some answeredAt) t)) qs t =
   t\<lparr>et_questions := update_where (\<lambda>q. qn_key q \<in> key ` set qs \<and> qn_status q = QPendingHuman) (with_answer answeredAt s) (et_questions t)\<rparr>"
proof (induction qs arbitrary: t)
  case Nil
  show ?case by (simp add: update_where_def)
next
  case (Cons q qs)
  show ?case unfolding fold_simps comp_apply Cons.IH unfolding transition_answer
    by (auto simp: update_where_def with_answer_def qn_key_def intro!: arg_cong [of _ _ "\<lambda>qs. t\<lparr>et_questions := qs\<rparr>"])
qed

lemma answer_question_rows:
  "answer_question te answeredAt pending given t =
   t\<lparr>et_questions := map (answered_question te answeredAt (qn_key ` set pending) [given]) (et_questions t)\<rparr>"
proof -
  have hit: "qn_key q \<in> (\<lambda>p. (qn_batchId p, fst given)) ` set (filter (\<lambda>p. qn_questionId p = fst given) pending) \<and> qn_status q = QPendingHuman
      \<longleftrightarrow> qn_status q = QPendingHuman \<and> qn_key q \<in> qn_key ` set pending \<and> qn_questionId q = fst given" for q
    by (auto simp: qn_key_def)
  have "update_where (\<lambda>q. qn_key q \<in> (\<lambda>p. (qn_batchId p, fst given)) ` set (filter (\<lambda>p. qn_questionId p = fst given) pending) \<and> qn_status q = QPendingHuman)
      (with_answer answeredAt (humanReadableText te (snd given))) qs = map (answered_question te answeredAt (qn_key ` set pending) [given]) qs" for qs
    unfolding update_where_def hit by (cases given) (simp add: answered_question_def)
  then show ?thesis unfolding answer_question_def fold_answers [where key = "\<lambda>q. (qn_batchId q, fst given)"] by (rule arg_cong)
qed

lemma answered_question_Cons:
  "answered_question te answeredAt keys (given # answers) q = answered_question te answeredAt keys answers (answered_question te answeredAt keys [given] q)"
proof -
  have settled: "qn_status q \<noteq> QPendingHuman \<Longrightarrow> answered_question te answeredAt keys as q = q" for as q by (simp add: answered_question_def)
  obtain i a where given: "given = (i, a)" by (cases given)
  consider "qn_status q \<noteq> QPendingHuman \<or> qn_key q \<notin> keys" | "qn_status q = QPendingHuman" "qn_key q \<in> keys" "qn_questionId q = i"
    | "qn_status q = QPendingHuman" "qn_key q \<in> keys" "qn_questionId q \<noteq> i" by blast
  then show ?thesis
  proof cases
    case 2
    then have "answered_question te answeredAt keys (given # as) q = with_answer answeredAt (humanReadableText te a) q" for as
      by (simp add: answered_question_def given)
    then show ?thesis by (simp add: settled with_answer_def)
  qed (auto simp: answered_question_def given)
qed

lemma answers_rows:
  "fold (answer_question te answeredAt pending) answers t =
   t\<lparr>et_questions := map (answered_question te answeredAt (qn_key ` set pending) answers) (et_questions t)\<rparr>"
proof (induction answers arbitrary: t)
  case Nil
  have "map (answered_question te answeredAt (qn_key ` set pending) []) qs = qs" for qs by (rule map_idI) (simp add: answered_question_def)
  then show ?case by simp
next
  case (Cons given answers)
  show ?case unfolding fold_simps comp_apply Cons.IH unfolding answer_question_rows
    by (simp add: answered_question_Cons [of te answeredAt _ given answers, symmetric])
qed

lemma repeated_ids: "filter (\<lambda>(n, i). find_index (\<lambda>j. j = i) ids \<noteq> Some n) (enumerate 0 ids) = [] \<longleftrightarrow> distinct ids"
proof
  assume none: "filter (\<lambda>(n, i). find_index (\<lambda>j. j = i) ids \<noteq> Some n) (enumerate 0 ids) = []"
  then have first: "find_index (\<lambda>j. j = ids ! n) ids = Some n" if "n < length ids" for n
  proof -
    have "(n, ids ! n) \<in> set (enumerate 0 ids)" using that by (simp add: in_set_enumerate_eq)
    then show ?thesis using none unfolding filter_empty_conv by blast
  qed
  show "distinct ids" unfolding distinct_conv_nth
  proof (intro allI impI)
    fix m n assume "m < length ids" "n < length ids" "m \<noteq> n"
    then show "ids ! m \<noteq> ids ! n" using first by (metis option.inject)
  qed
next
  assume d: "distinct ids"
  have "find_index (\<lambda>j. j = ids ! n) ids = Some n" if "n < length ids" for n
  proof -
    have "find_index (\<lambda>j. j = ids ! n) ids \<noteq> None" using that by (auto simp: find_index_None)
    then obtain m where m: "find_index (\<lambda>j. j = ids ! n) ids = Some m" by blast
    from find_index_Some [OF m] d that have "m = n" using nth_eq_iff_index_eq [OF d, of m n] by simp
    with m show ?thesis by simp
  qed
  then show "filter (\<lambda>(n, i). find_index (\<lambda>j. j = i) ids \<noteq> Some n) (enumerate 0 ids) = []"
    by (auto simp: filter_empty_conv in_set_enumerate_eq)
qed

lemma one_answer_each:
  "requireOneAnswerPerQuestion pending answers = Inr () \<longleftrightarrow> distinct (map fst answers) \<and> set (map fst answers) = qn_questionId ` set pending"
proof -
  have covered: "filter (\<lambda>i. i \<notin> A) ys = [] \<longleftrightarrow> set ys \<subseteq> A" for A and ys :: "string list" by (auto simp: filter_empty_conv)
  then show ?thesis unfolding requireOneAnswerPerQuestion_def Let_def covered map_is_Nil_conv repeated_ids by auto
qed

definition closed_core :: "string \<Rightarrow> string \<times> string \<times> string \<times> escalation_status \<Rightarrow> string \<times> string \<times> string \<times> escalation_status" where
  "closed_core i c = (case c of (j, m, k, s) \<Rightarrow> (j, m, k, if j = i \<and> s = EPending then EAnswered else s))"

lemma answer_tables_result:
  assumes "answer_tables te answeredAt i answers t = Inr t'"
  shows "\<exists>pending. pending = filter (\<lambda>q. qn_status q = QPendingHuman) (questionsOfEscalation i t)
    \<and> distinct (map fst answers) \<and> set (map fst answers) = qn_questionId ` set pending
    \<and> et_questions t' = map (answered_question te answeredAt (qn_key ` set pending) answers) (et_questions t)
    \<and> et_bcores t' = et_bcores t \<and> et_cores t' = map (closed_core i) (et_cores t)"
proof -
  let ?pending = "filter (\<lambda>q. qn_status q = QPendingHuman) (questionsOfEscalation i t)"
  obtain u where "requireOneAnswerPerQuestion ?pending answers = Inr u"
    and t': "t' = snd (answerEscalationIfPending i answeredAt (fold (answer_question te answeredAt ?pending) answers t))"
    using assms by (auto simp: answer_tables_def Let_def split: if_splits)
  then have "distinct (map fst answers)" "set (map fst answers) = qn_questionId ` set ?pending" using one_answer_each by simp_all
  moreover have "et_cores t' = map (closed_core i) (et_cores t)"
    by (simp add: t' answers_rows answerEscalationIfPending_def et_cores_def update_where_def closed_core_def ec_core_def)
  ultimately show ?thesis by (simp add: t' answers_rows answerEscalationIfPending_def et_bcores_def)
qed

lemma pending_closed: "distinct (pending_of cores) \<Longrightarrow> distinct (pending_of (map (closed_core i) cores))"
proof -
  have "pending_of (map (closed_core i) cores) = map (\<lambda>(j, m, k, s). (m, k)) (filter (\<lambda>(j, m, k, s). j \<noteq> i) (filter (\<lambda>(j, m, k, s). s = EPending) cores))"
    by (induction cores) (auto simp: pending_of_def closed_core_def split: if_splits)
  then show "distinct (pending_of cores) \<Longrightarrow> ?thesis" unfolding pending_of_def by (simp only: distinct_map_filter)
qed

lemma answer_tables_keeps:
  assumes "answer_tables te answeredAt i answers t = Inr t'" "tables_ok t"
  shows "keeps t t'"
proof -
  let ?pending = "filter (\<lambda>q. qn_status q = QPendingHuman) (questionsOfEscalation i t)"
  have r: "set (map fst answers) = qn_questionId ` set ?pending" "et_questions t' = map (answered_question te answeredAt (qn_key ` set ?pending) answers) (et_questions t)"
    "et_bcores t' = et_bcores t" "et_cores t' = map (closed_core i) (et_cores t)"
    using answer_tables_result [OF assms(1)] by blast+
  have effect: "answered_question te answeredAt (qn_key ` set ?pending) answers q =
      (if qn_status q = QPendingHuman \<and> qn_escalationId q = Some i then with_answer answeredAt (humanReadableText te (the (map_of answers (qn_questionId q)))) q else q)"
    if q: "q \<in> set (et_questions t)" for q
  proof -
    have "qn_key q \<in> qn_key ` set ?pending \<longleftrightarrow> q \<in> set ?pending"
      using key_unique [of qn_key "et_questions t" q] q assms(2) by (auto simp: tables_ok_def questionsOfEscalation_def)
    then have "qn_status q = QPendingHuman \<and> qn_key q \<in> qn_key ` set ?pending \<longleftrightarrow> qn_status q = QPendingHuman \<and> qn_escalationId q = Some i"
      using q by (auto simp: questionsOfEscalation_def)
    moreover have "map_of answers (qn_questionId q) \<noteq> None" if "q \<in> set ?pending"
    proof -
      have "qn_questionId q \<in> set (map fst answers)" unfolding r(1) using that by (rule imageI)
      then show ?thesis by (simp add: map_of_eq_None_iff)
    qed
    moreover have "q \<in> set ?pending \<longleftrightarrow> qn_status q = QPendingHuman \<and> qn_escalationId q = Some i" using q by (auto simp: questionsOfEscalation_def)
    ultimately show ?thesis unfolding answered_question_def by (cases "qn_status q = QPendingHuman \<and> qn_escalationId q = Some i") auto
  qed
  have moved: "list_all2 moved (et_questions t) (et_questions t')"
  proof -
    have "moved q (answered_question te answeredAt (qn_key ` set ?pending) answers q)" if "q \<in> set (et_questions t)" for q
      unfolding effect [OF that] by (simp add: moved_def with_answer_def qn_fixed_def qn_key_def)
    then show ?thesis unfolding r(2) list.rel_map list_all2_same by blast
  qed
  have "question_ok (set (et_bcores t')) (set (et_cores t')) q'" if q': "q' \<in> set (et_questions t')" for q'
  proof -
    obtain q where q: "q \<in> set (et_questions t)" "q' = answered_question te answeredAt (qn_key ` set ?pending) answers q" using q' r(2) by auto
    then obtain m k where ok: "(qn_batchId q, m, k) \<in> set (et_bcores t)"
      "case qn_status q of QOpen \<Rightarrow> qn_route q = ToArbiter \<and> qn_escalationId q = None | QDecided \<Rightarrow> qn_route q = ToArbiter \<and> qn_escalationId q = None
       | QSelfResolved \<Rightarrow> qn_route q = ToSelf \<and> qn_escalationId q = None
       | QPendingHuman \<Rightarrow> (\<exists>i. qn_escalationId q = Some i \<and> (i, m, k, EPending) \<in> set (et_cores t))
       | QAnswered \<Rightarrow> (\<exists>i. qn_escalationId q = Some i \<and> (i, m, k, EAnswered) \<in> set (et_cores t))"
      using assms(2) unfolding tables_ok_def question_ok_def by blast
    have "(j, m, k, if j = i \<and> s = EPending then EAnswered else s) \<in> set (et_cores t')" if "(j, m, k, s) \<in> set (et_cores t)" for j s
      using that by (force simp: r(4) closed_core_def)
    then show ?thesis unfolding question_ok_def q(2) effect [OF q(1)] using ok r(3)
      by (intro exI [of _ m] exI [of _ k]) (fastforce simp: with_answer_def split: question_status.splits if_splits)
  qed
  then have "tables_ok t'" using assms(2) r(3,4) moved_keys [OF moved] pending_closed
    by (simp add: tables_ok_def o_def closed_core_def case_prod_beta)
  then show ?thesis using moved by (rule keeps_moved)
qed

lemma answer_keeps:
  assumes "answer env i answers st = Inr (v, st')" "tables_ok (es_tables st)"
  shows "keeps (es_tables st) (es_tables st')"
proof -
  obtain t where "answer_tables (ev_text env) (es_now env st) i answers (es_tables st) = Inr t" "es_tables st' = t"
    using assms(1) by (auto simp: answer_def Let_def)
  then show ?thesis using answer_tables_keeps assms(2) by blast
qed

lemma step_keeps: "tables_ok (es_tables st) \<Longrightarrow> keeps (es_tables st) (es_tables (escalation_step call st))"
proof -
  assume ok: "tables_ok (es_tables st)"
  obtain env op where call: "call = (env, op)" by (cases call)
  show ?thesis
  proof (cases op)
    case (SubmitQuestions x1)
    then show ?thesis using ok keeps_refl submitBatch_keeps by (fastforce simp: escalation_step_def call state_after_def split: sum.splits)
  next
    case (ReportOpinion x21 x22 x23)
    then show ?thesis using ok keeps_refl recordArbiterOpinion_keeps by (fastforce simp: escalation_step_def call state_after_def split: sum.splits)
  next
    case (HandOver x31 x32)
    then show ?thesis using ok keeps_refl escalateBatchToHuman_keeps by (fastforce simp: escalation_step_def call state_after_def split: sum.splits)
  next
    case (RetryListing x4)
    then show ?thesis using ok keeps_refl retryHandover_keeps by (fastforce simp: escalation_step_def call state_after_def split: sum.splits)
  next
    case (AnswerCard x51 x52)
    then show ?thesis using ok keeps_refl answer_keeps by (fastforce simp: escalation_step_def call state_after_def split: sum.splits)
  next
    case (CountRun x6)
    then show ?thesis using ok by (simp add: escalation_step_def call keeps_same)
  next
    case (JournalMissing x71 x72)
    then show ?thesis using ok keeps_refl by (auto simp: escalation_step_def call journalMissingEarlierDecision_def split: option.splits)
  next
    case (EditState x81 x82)
    then show ?thesis using ok keeps_refl by (auto simp: escalation_step_def call dest: tables_update_working split: sum.splits)
  qed
qed

section \<open>Reachable states\<close>

definition ladder_ok :: "'w escalations \<Rightarrow> bool" where
  "ladder_ok st \<longleftrightarrow> tables_ok (es_tables st) \<and> reopens_ok (et_questions (es_tables st))"

lemma step_ladder_ok: "ladder_ok st \<Longrightarrow> ladder_ok (escalation_step call st)"
  using step_keeps [of st call] by (auto simp: ladder_ok_def keeps_def)

interpretation ladder_calls: kept_by_steps ladder_ok escalation_step
  by unfold_locales (rule step_ladder_ok)

lemma run_ladder_ok: "ladder_ok (escalation_run calls (escalation_start w))"
proof -
  have "ladder_ok (escalation_start w)"
    by (simp add: ladder_ok_def escalation_start_def tables_ok_def et_bcores_def et_cores_def pending_of_def reopens_ok_def List.map_filter_simps)
  then show ?thesis unfolding escalation_run_def by (rule ladder_calls.run_kept)
qed

definition find_question :: "string \<times> string \<Rightarrow> 'w escalations \<Rightarrow> stored_question option" where
  "find_question key st = find (\<lambda>q. qn_key q = key) (et_questions (es_tables st))"

lemma find_moved:
  assumes "list_all2 moved qs old" "find (\<lambda>q. qn_key q = key) qs = Some q"
  shows "\<exists>q'. find (\<lambda>q. qn_key q = key) (old @ new) = Some q' \<and> moved q q'"
  using assms
proof (induction rule: list_all2_induct)
  case (Cons x xs y ys)
  then show ?case by (auto simp: moved_def qn_fixed_def split: if_splits)
qed simp

text \<open>The row of a question in a well-formed state, ranked by how far it went.\<close>

definition question_entry :: "'w escalations \<Rightarrow> string \<times> string \<Rightarrow> stored_question option" where
  "question_entry st key = (if tables_ok (es_tables st) then find_question key st else None)"

definition question_rank :: "stored_question \<Rightarrow> nat" where
  "question_rank q = (case qn_status q of QOpen \<Rightarrow> 0 | QPendingHuman \<Rightarrow> 1 | _ \<Rightarrow> 2)"

lemma question_entry_step:
  assumes "question_entry st key = Some q"
  shows "\<exists>q'. question_entry (escalation_step call st) key = Some q' \<and> moved q q'"
proof -
  have ok: "tables_ok (es_tables st)" "find_question key st = Some q" using assms by (auto simp: question_entry_def split: if_splits)
  from step_keeps [OF ok(1), of call] obtain old new where "tables_ok (es_tables (escalation_step call st))"
    "et_questions (es_tables (escalation_step call st)) = old @ new" "list_all2 moved (et_questions (es_tables st)) old"
    unfolding keeps_def by blast
  with find_moved [OF this(3), of key q new] ok(2) show ?thesis by (simp add: question_entry_def find_question_def)
qed

interpretation question_life: one_way question_entry question_rank escalation_step 2
proof
  fix t :: "'a escalations" and k e op
  assume e: "question_entry t k = Some e"
  from question_entry_step [OF e, of op] obtain e' where e': "question_entry (escalation_step op t) k = Some e'" "moved e e'" by blast
  then show "\<exists>e'. question_entry (escalation_step op t) k = Some e' \<and> question_rank e \<le> question_rank e'"
    by (auto simp: moved_def question_rank_def)
  assume "2 \<le> question_rank e"
  then have "e' = e" using e'(2) by (auto simp: moved_def question_rank_def)
  then show "question_entry (escalation_step op t) k = Some e" using e'(1) by simp
qed

lemma pending_unique:
  assumes "distinct (pending_of cores)" "(i, m, k, EPending) \<in> set cores" "(j, m, k, EPending) \<in> set cores"
  shows "i = j"
  using assms
proof (induction cores)
  case (Cons c cores)
  have "(m, k) \<in> set (pending_of cores)" if "(l, m, k, EPending) \<in> set cores" for l using that by (force simp: pending_of_def)
  then show ?case using Cons by (cases c) (auto simp: pending_of_def split: if_splits)
qed simp

lemma findPending_iff:
  assumes "tables_ok t" "(i, m, k, EPending) \<in> set (et_cores t)"
  shows "\<exists>e. findPendingEscalation m k t = Some e \<and> ec_id e = i"
proof -
  obtain e where e: "findPendingEscalation m k t = Some e" using assms(2) findPending_None [of m k t] by blast
  from pending_unique [OF _ findPending_Some [OF e] assms(2)] assms(1) e show ?thesis by (auto simp: tables_ok_def)
qed

lemma findBatch_of_core:
  assumes "tables_ok t" "(i, m, k) \<in> set (et_bcores t)"
  shows "\<exists>b. findBatch i t = Some b \<and> bt_managerId b = m \<and> bt_ticket b = k"
proof -
  have "findBatch i t \<noteq> None" using assms(2) by (auto simp: findBatch_def et_bcores_def bt_core_def find_None_iff)
  then obtain b where b: "findBatch i t = Some b" by blast
  from findBatch_core [OF b] key_unique [of fst "et_bcores t" "(i, bt_managerId b, bt_ticket b)" "(i, m, k)"] assms b show ?thesis
    by (auto simp: tables_ok_def)
qed

section \<open>What closes\<close>

lemma apply_decision_closes:
  assumes "apply_decision te b questions ev d t = (r, t')"
  shows "(\<forall>q' \<in> set (et_questions t'). qn_status q' = QOpen \<longrightarrow> q' \<in> set (et_questions t))
    \<and> (\<forall>q' \<in> set (et_questions t'). od_questionId d \<in> qn_questionId ` set questions \<and> qn_key q' = (b, od_questionId d) \<longrightarrow> qn_status q' \<noteq> QOpen)"
proof (cases "find (\<lambda>q. qn_questionId q = od_questionId d) questions")
  case None
  then have "t' = t" using assms by (simp add: apply_decision_def)
  moreover have "od_questionId d \<notin> qn_questionId ` set questions" using None by (auto simp: find_None_iff)
  ultimately show ?thesis by blast
next
  case (Some q)
  then have "qn_questionId q = od_questionId d" by (auto dest: find_SomeD)
  then have "\<exists>f. et_questions t' = update_where (\<lambda>q. qn_key q = (b, od_questionId d) \<and> qn_status q = QOpen) f (et_questions t) \<and> (\<forall>q. qn_status (f q) \<noteq> QOpen)"
    using assms Some by (auto simp: apply_decision_def deferOpenQuestionToHuman_def transitionQuestion_def split: if_splits intro!: exI)
  then obtain f where f: "et_questions t' = update_where (\<lambda>q. qn_key q = (b, od_questionId d) \<and> qn_status q = QOpen) f (et_questions t)" "\<forall>q. qn_status (f q) \<noteq> QOpen" by blast
  show ?thesis unfolding f(1) using f(2) by (auto simp: set_update_where split: if_splits) metis
qed

lemma apply_decisions_close:
  "apply_decisions te b questions ev ds acc t = (acc', t') \<Longrightarrow>
   (\<forall>q' \<in> set (et_questions t'). qn_status q' = QOpen \<longrightarrow> q' \<in> set (et_questions t))
   \<and> (\<forall>q' \<in> set (et_questions t'). \<forall>d \<in> set ds. od_questionId d \<in> qn_questionId ` set questions \<and> qn_key q' = (b, od_questionId d) \<longrightarrow> qn_status q' \<noteq> QOpen)"
proof (induction ds arbitrary: acc t)
  case (Cons d ds)
  obtain r t1 where r: "apply_decision te b questions ev d t = (r, t1)" by fastforce
  then obtain acc1 where "apply_decisions te b questions ev ds acc1 t1 = (acc', t')"
    using Cons.prems by (auto split: option.splits prod.splits)
  from Cons.IH [OF this] apply_decision_closes [OF r] show ?case by fastforce
qed simp

lemma applyOpinion_questions:
  assumes "applyOpinion env b questions opinion s ev st = Inr (r, st')"
  shows "\<exists>acc t1 ids i. apply_decisions (ev_text env) (bt_id b) questions ev (ao_decisions opinion) nothing_applied (es_tables st) = (acc, t1)
    \<and> et_questions (es_tables st') = update_where (\<lambda>q. qn_batchId q = bt_id b \<and> qn_questionId q \<in> set ids) (\<lambda>q. q\<lparr>qn_escalationId := Some i\<rparr>) (et_questions t1)"
proof -
  obtain acc t1 where acc: "apply_decisions (ev_text env) (bt_id b) questions ev (ao_decisions opinion) nothing_applied (es_tables st) = (acc, t1)" by fastforce
  obtain rev warnings w where trail: "appendDecisionSections env b s (ap_applied acc) (es_world st) = ((rev, warnings), w)" by (metis surj_pair)
  show ?thesis
  proof (cases "ap_escalated acc = [] \<or> ap_applied acc = []")
    case True
    then have "et_questions (es_tables st') = et_questions t1" using assms by (auto simp: applyOpinion_def acc trail Let_def split: if_splits)
    then show ?thesis using acc by (intro exI [of _ acc] exI [of _ t1] exI [of _ "[]"]) (simp add: update_where_def)
  next
    case False
    with assms trail acc obtain h st3 where join: "joinEscalation env (bt_id b) (bt_managerId b) (bt_ticket b) (ap_escalated acc) None st3 = Inr (h, st')"
      and "et_questions (es_tables st3) = et_questions t1" by (auto simp: applyOpinion_def Let_def)
    with joinEscalation_tables [OF join] acc show ?thesis by auto
  qed
qed

lemma recorded_opinion_closes:
  assumes "recordArbiterOpinion env m s opinion st = Inr (r, st')" "q \<in> set (questionsOfBatch (ao_batchId opinion) (es_tables st'))" "qn_route q = ToArbiter"
  shows "qn_status q \<noteq> QOpen"
proof
  assume open_q: "qn_status q = QOpen"
  obtain b where b: "findBatch (ao_batchId opinion) (es_tables st) = Some b" using assms(1) by (auto simp: recordArbiterOpinion_def split: option.splits)
  with assms(1) obtain ev x st1 u where one: "applyOpinion env b (questionsOfBatch (bt_id b) (es_tables st)) opinion s ev st = Inr (x, st1)"
    and st': "es_tables st' = es_tables st1" and exact: "assertOpinionDecidesTheArbiterQuestions opinion (questionsOfBatch (bt_id b) (es_tables st)) = Inr u"
    by (auto simp: recordArbiterOpinion_def Let_def tables_tell_opinion split: if_splits)
  have b_id: "bt_id b = ao_batchId opinion" using findBatch_core [OF b] by simp
  obtain acc t1 q1 where acc: "apply_decisions (ev_text env) (bt_id b) (questionsOfBatch (bt_id b) (es_tables st)) ev (ao_decisions opinion) nothing_applied (es_tables st) = (acc, t1)"
    and q1: "q1 \<in> set (et_questions t1)" "qn_key q1 = qn_key q" "qn_status q1 = qn_status q" "qn_route q1 = qn_route q"
    using applyOpinion_questions [OF one] assms(2) unfolding st' questionsOfBatch_def
    by (fastforce simp: set_update_where qn_key_def split: if_splits)
  then have "q1 \<in> set (questionsOfBatch (bt_id b) (es_tables st))"
    using apply_decisions_close [OF acc] open_q assms(2) b_id by (auto simp: questionsOfBatch_def qn_key_def)
  moreover from this have "qn_questionId q1 \<in> od_questionId ` set (ao_decisions opinion)"
    using exact q1(4) assms(3) by (auto simp: assertOpinionDecidesTheArbiterQuestions_def Let_def filter_empty_conv split: if_splits)
  then obtain d where d: "d \<in> set (ao_decisions opinion)" "od_questionId d = qn_questionId q1" by force
  moreover have "qn_key q1 = (bt_id b, od_questionId d)" using d(2) b_id assms(2) q1(2) by (auto simp: questionsOfBatch_def qn_key_def)
  ultimately have "qn_status q1 \<noteq> QOpen" using apply_decisions_close [OF acc] q1(1) by (metis imageI)
  then show False using open_q q1(3) by simp
qed

end
