(* ===== verification/Escalation_Claims.thy ===== *)
theory Escalation_Claims
  imports Escalation_Laws
begin

text \<open>
  The properties of the escalation ladder, over any calls of its operations from the empty tables, each with a concrete run
  it applies to.
\<close>

section \<open>A concrete run\<close>

definition example_env :: "nat escalation_env" where
  "example_env = \<lparr>ev_text = plain_texts, ev_clock = id, ev_newId = (\<lambda>w. (replicate w CHR ''x'', Suc w)), ev_stateMaxBytes = 6144, ev_takesFile = True,
     ev_isMissionNote = (\<lambda>_. False), ev_noteRev = (\<lambda>_ _. Some 3), ev_appendNote = (\<lambda>_ _ _ w. Some w), ev_journalOf = (\<lambda>_. None),
     ev_journalColumns = (\<lambda>_. None), ev_insertRows = (\<lambda>_ _ _ w. Some w), ev_decisionsReadable = (\<lambda>_ _ _. True)\<rparr>"

definition checked :: repro_claim where
  "checked = \<lparr>rc_claim = ''it is 3'', rc_status = Proven, rc_command = Some ''ls'', rc_output = Some ''3''\<rparr>"

definition asks :: "string \<Rightarrow> string \<Rightarrow> string option \<Rightarrow> plan_question_batch" where
  "asks i cls reopens =
     \<lparr>pb_managerId = ''m'', pb_ticket = ''T-1'', pb_planNoteId = ''n'', pb_planNoteRev = 3,
      pb_questions = [\<lparr>pq_id = i, pq_text = ''so?'', pq_class = cls, pq_options = None, pq_recommendation = None, pq_paths = None,
        pq_resolution = (if reopens = None then None else Some checked), pq_reopens = reopens\<rparr>],
      pb_policy = DEFAULT_ESCALATION_POLICY\<rparr>"

definition decides :: "string \<Rightarrow> string \<Rightarrow> arbiter_opinion" where
  "decides b i = \<lparr>ao_batchId = b, ao_decisions = [\<lparr>od_questionId = i, od_verdict = VDecided, od_decision = ''yes'', od_rationale = ''ok'', od_raiseTo = None, od_evidence = None\<rparr>],
     ao_opinion = NotAsked, ao_reasons = []\<rparr>"

lemma floor_so:
  assumes "pq_text q = ''so?''" "pq_options q = None" "pq_recommendation q = None" "pq_paths q = None"
  shows "computeFloorClasses plain_texts q [] = []"
proof -
  have "computeFloorClasses plain_texts q [] = computeFloorClasses plain_texts (hd (pb_questions (asks ''q1'' ''spend'' None))) []"
    using assms by (simp add: computeFloorClasses_def isInFloor_def [abs_def] question_fields_def asks_def cong: filter_cong)
  also have "\<dots> = []" by code_simp
  finally show ?thesis .
qed

lemma class_values [simp]: "questionClassOf ''spend'' = Escalating Spend" "questionClassOf ''technical'' = Technical" "questionClassOf ''contract'' = Escalating Contract"
  by code_simp+

lemma route_values [simp]:
  assumes "pq_text q = ''so?''" "pq_options q = None" "pq_recommendation q = None" "pq_paths q = None"
  shows "pq_class q = ''technical'' \<Longrightarrow> qr_route (routeQuestion plain_texts q DEFAULT_ESCALATION_POLICY) = ToArbiter"
    and "pq_class q = ''spend'' \<Longrightarrow> qr_route (routeQuestion plain_texts q DEFAULT_ESCALATION_POLICY) = ToHuman"
proof -
  have extra: "ep_extraRules DEFAULT_ESCALATION_POLICY = []" "ep_humanClasses DEFAULT_ESCALATION_POLICY = ESCALATING_CLASSES" by (simp_all add: DEFAULT_ESCALATION_POLICY_def)
  show "pq_class q = ''technical'' \<Longrightarrow> qr_route (routeQuestion plain_texts q DEFAULT_ESCALATION_POLICY) = ToArbiter"
    using floor_so [OF assms] extra by (simp add: routeQuestion_def routeOf_def)
  show "pq_class q = ''spend'' \<Longrightarrow> qr_route (routeQuestion plain_texts q DEFAULT_ESCALATION_POLICY) = ToHuman"
    using floor_so [OF assms] extra by (simp add: routeQuestion_def routeOf_def Let_def effective_shorter) (simp add: ESCALATING_CLASSES_def)
qed

lemmas submit_defs = escalation_step_def state_after_def submitBatch_def storeBatch_def asks_def example_env_def escalation_start_def and_then_def or_fail_def
  cleanResolutionOf_def insertBatch_def insertQuestion_def routed_questions_def newQuestionOf_def routingOf_def qn_key_def STATUS_OF_ROUTE_def
  journalSelfResolved_def journalReopened_def executedEvidenceOf_def decidedQuestionForReopen_def isReopened_def checked_def

lemmas opinion_defs = recordArbiterOpinion_def decides_def findBatch_def questionsOfBatch_def assertOpinionDecidesTheArbiterQuestions_def
  assertFavourableOpinionLeavesNothingToAHuman_def applyOpinion_def apply_decision_def handsToAHuman_def nothing_applied_def transitionQuestion_def update_where_def
  appendDecisionSections_def insertArbiterDecision_def recordCriteriaOpinion_def tell_opinion_def es_journal_def journal_def send_def opt_default_def

definition asked :: "(nat escalation_env \<times> escalation_op) list" where
  "asked = [(example_env, SubmitQuestions (asks ''q1'' ''technical'' None))]"

lemma asked_rows:
  "map (\<lambda>q. (qn_key q, qn_route q, qn_status q)) (et_questions (es_tables (escalation_run asked (escalation_start 1)))) = [((''x'', ''q1''), ToArbiter, QOpen)]"
  by (simp add: asked_def escalation_run_def submit_defs Let_def)

definition decided :: "(nat escalation_env \<times> escalation_op) list" where
  "decided = asked @ [(example_env, ReportOpinion ''m'' ''a'' (decides ''x'' ''q1''))]"

lemma decided_rows:
  "map (\<lambda>q. (qn_key q, qn_route q, qn_status q)) (et_questions (es_tables (escalation_run decided (escalation_start 1)))) = [((''x'', ''q1''), ToArbiter, QDecided)]"
  by (simp add: decided_def asked_def escalation_run_def submit_defs opinion_defs Let_def) (auto simp: image_iff)
section \<open>Properties\<close>

definition reached :: "('w escalation_env \<times> escalation_op) list \<Rightarrow> 'w \<Rightarrow> escalation_tables" where
  "reached calls w = es_tables (escalation_run calls (escalation_start w))"

text \<open>C12: Whatever is submitted, decided, handed over and answered, a manager has at most one open escalation per ticket, and every
  question that waits for a human is on the open escalation of its own manager and ticket.\<close>

theorem one_card_per_ticket:
  "(\<forall>e \<in> set (et_escalations (reached calls w)). \<forall>e' \<in> set (et_escalations (reached calls w)).
       ec_status e = EPending \<and> ec_status e' = EPending \<and> ec_managerId e = ec_managerId e' \<and> ec_ticket e = ec_ticket e' \<longrightarrow> ec_id e = ec_id e')
    \<and> (\<forall>q \<in> set (et_questions (reached calls w)). qn_status q = QPendingHuman \<longrightarrow>
       (\<exists>b e. findBatch (qn_batchId q) (reached calls w) = Some b \<and> findPendingEscalation (bt_managerId b) (bt_ticket b) (reached calls w) = Some e \<and> qn_escalationId q = Some (ec_id e)))"
proof -
  define t where "t = reached calls w"
  have ok: "tables_ok t" using run_ladder_ok [of calls w] by (simp add: ladder_ok_def t_def reached_def)
  have core: "(ec_id e, ec_managerId e, ec_ticket e, ec_status e) \<in> set (et_cores t)" if "e \<in> set (et_escalations t)" for e
    using that by (force simp: et_cores_def ec_core_def)
  have "ec_id e = ec_id e'" if "e \<in> set (et_escalations t)" "e' \<in> set (et_escalations t)" "ec_status e = EPending" "ec_status e' = EPending"
    "ec_managerId e = ec_managerId e'" "ec_ticket e = ec_ticket e'" for e e'
    using pending_unique [of "et_cores t" "ec_id e" "ec_managerId e" "ec_ticket e" "ec_id e'"] core that ok by (metis tables_ok_def)
  moreover have "\<exists>b e. findBatch (qn_batchId q) t = Some b \<and> findPendingEscalation (bt_managerId b) (bt_ticket b) t = Some e \<and> qn_escalationId q = Some (ec_id e)"
    if q: "q \<in> set (et_questions t)" "qn_status q = QPendingHuman" for q
  proof -
    obtain m k i where "(qn_batchId q, m, k) \<in> set (et_bcores t)" "qn_escalationId q = Some i" "(i, m, k, EPending) \<in> set (et_cores t)"
      using ok q unfolding tables_ok_def question_ok_def by fastforce
    then show ?thesis using findBatch_of_core [OF ok] findPending_iff [OF ok] by metis
  qed
  ultimately show ?thesis unfolding t_def by blast
qed

text \<open>A question the arbiter decided, the manager proved or a human answered stays as it is: no later call, whatever it is,
  decides it again, changes its answer or takes it back to the human.\<close>

theorem settled_question_stays:
  assumes "find_question key (escalation_run calls (escalation_start w)) = Some q" "qn_status q \<in> {QDecided, QSelfResolved, QAnswered}"
  shows "find_question key (escalation_run calls' (escalation_run calls (escalation_start w))) = Some q"
proof -
  let ?st = "escalation_run calls (escalation_start w)"
  have "question_entry ?st key = Some q" using assms(1) run_ladder_ok [of calls w] by (simp add: question_entry_def ladder_ok_def)
  moreover have "2 \<le> question_rank q" using assms(2) by (auto simp: question_rank_def)
  ultimately have "question_entry (fold escalation_step calls' ?st) key = Some q" by (rule question_life.run_final_stays)
  then show ?thesis by (simp add: question_entry_def escalation_run_def split: if_splits)
qed

text \<open>C16: A decision of the arbiter is contested at most once, and only a decided question is contested. The contest of the answer
  to a contest never reaches the arbiter: such a question is routed to the human.\<close>

theorem decision_contested_once:
  assumes "q \<in> set (et_questions (reached calls w))" "qn_reopens q = Some key"
  shows "(\<forall>q' \<in> set (et_questions (reached calls w)). qn_reopens q' = Some key \<longrightarrow> q' = q)
    \<and> (\<exists>y \<in> set (et_questions (reached calls w)). qn_key y = key \<and> qn_status y = QDecided \<and> (qn_reopens y \<noteq> None \<longrightarrow> qn_route q = ToHuman))"
proof -
  have "reopens_ok (et_questions (reached calls w))" using run_ladder_ok [of calls w] by (simp add: ladder_ok_def reached_def)
  then have distinct: "distinct (List.map_filter qn_reopens (et_questions (reached calls w)))"
    and "\<exists>y \<in> set (et_questions (reached calls w)). qn_key y = key \<and> qn_status y = QDecided \<and> (qn_reopens y \<noteq> None \<longrightarrow> qn_route q = ToHuman)"
    using assms unfolding reopens_ok_def by blast+
  moreover have "q' = q" if "q' \<in> set (et_questions (reached calls w))" "qn_reopens q' = Some key" for q'
    using map_filter_key [OF distinct that(1) assms(1) that(2) assms(2)] .
  ultimately show ?thesis by blast
qed

text \<open>An accepted answer settles the whole card: it names each waiting question once and no other, every question of the
  card that waited carries the text given for it, and the card is closed.\<close>

theorem answer_settles_the_card:
  assumes "answer env i answers (escalation_run calls (escalation_start w)) = Inr (v, st')"
    and "find_question key (escalation_run calls (escalation_start w)) = Some q" "qn_status q = QPendingHuman" "qn_escalationId q = Some i"
  shows "distinct (map fst answers)
    \<and> (\<exists>given q'. (qn_questionId q, given) \<in> set answers \<and> find_question key st' = Some q' \<and> qn_status q' = QAnswered
         \<and> qn_humanAnswer q' = Some (humanReadableText (ev_text env) given) \<and> qn_text q' = qn_text q)
    \<and> (\<forall>m k. (i, m, k, EPending) \<notin> set (et_cores (es_tables st')))"
proof -
  let ?st = "escalation_run calls (escalation_start w)"
  obtain t where t: "answer_tables (ev_text env) (es_now env ?st) i answers (es_tables ?st) = Inr t" "es_tables st' = t"
    using assms(1) by (auto simp: answer_def Let_def)
  from answer_tables_result [OF t(1)] obtain pending where p: "pending = filter (\<lambda>q. qn_status q = QPendingHuman) (questionsOfEscalation i (es_tables ?st))"
    "distinct (map fst answers)" "set (map fst answers) = qn_questionId ` set pending"
    "et_questions t = map (answered_question (ev_text env) (es_now env ?st) (qn_key ` set pending) answers) (et_questions (es_tables ?st))"
    "et_cores t = map (closed_core i) (et_cores (es_tables ?st))" by blast
  have q: "q \<in> set (et_questions (es_tables ?st))" "qn_key q = key" using assms(2) find_SomeD by (fastforce simp: find_question_def)+
  then have "q \<in> set pending" using assms(3,4) by (simp add: p(1) questionsOfEscalation_def)
  then have "qn_questionId q \<in> set (map fst answers)" unfolding p(3) by (rule imageI)
  then obtain given where given: "map_of answers (qn_questionId q) = Some given" by (metis map_of_eq_None_iff not_None_eq set_map)
  let ?a = "answered_question (ev_text env) (es_now env ?st) (qn_key ` set pending) answers"
  have "?a q = with_answer (es_now env ?st) (humanReadableText (ev_text env) given) q"
    using assms(3) given \<open>q \<in> set pending\<close> by (simp add: answered_question_def)
  moreover have "find (\<lambda>q. qn_key q = key) (map f xs) = map_option f (find (\<lambda>q. qn_key q = key) xs)" if "\<And>x. qn_key (f x) = qn_key x" for f xs
    using that by (induction xs) simp_all
  moreover have "qn_key (?a x) = qn_key x" for x by (simp add: answered_question_def with_answer_def qn_key_def split: option.split)
  ultimately have "find_question key st' = Some (with_answer (es_now env ?st) (humanReadableText (ev_text env) given) q)"
    using assms(2) by (simp add: find_question_def t(2) p(4))
  moreover have "(i, m, k, EPending) \<notin> set (et_cores t)" for m k by (auto simp: p(5) closed_core_def split: if_splits)
  ultimately show ?thesis using p(2) t(2) map_of_SomeD [OF given] by (auto simp: with_answer_def)
qed

text \<open>C22: The body of an answer holds at most twenty answers, but a card has no such limit: it gathers the questions of every
  batch of its ticket. Once more than twenty distinct questions wait on a card, every body the schema accepts is refused,
  so the card can never be answered.\<close>

theorem crowded_card_cannot_be_answered:
  assumes "findEscalation i (es_tables st) = Some e" "ec_status e = EPending" "length answers \<le> MAX_QUESTIONS_PER_BATCH"
    and "MAX_QUESTIONS_PER_BATCH < card (qn_questionId ` set (filter (\<lambda>q. qn_status q = QPendingHuman) (questionsOfEscalation i (es_tables st))))"
  shows "\<exists>unknown repeated missing. answer env i answers st = Inl (AnswersMismatch unknown repeated missing)"
proof -
  let ?pending = "filter (\<lambda>q. qn_status q = QPendingHuman) (questionsOfEscalation i (es_tables st))"
  have "card (set (map fst answers)) \<le> MAX_QUESTIONS_PER_BATCH" using assms(3) card_length [of "map fst answers"] by simp
  then have "set (map fst answers) \<noteq> qn_questionId ` set ?pending" using assms(4) by auto
  then have "requireOneAnswerPerQuestion ?pending answers \<noteq> Inr ()" using one_answer_each by blast
  then obtain u r m where "requireOneAnswerPerQuestion ?pending answers = Inl (AnswersMismatch u r m)"
    by (auto simp: requireOneAnswerPerQuestion_def Let_def split: if_splits)
  then show ?thesis using assms(1,2) by (auto simp: answer_def answer_tables_def and_then_def or_fail_def Let_def)
qed

lemma item_listed:
  "\<exists>u ws. update_state 6144 True now ''m'' \<lparr>ws_plan = [], ws_todo = [], ws_remaining = [], ws_questionsForHuman = [escalationItemOf ''xx'' ''T-1''],
     ws_internalQuestions = [], ws_blockers = []\<rparr> no_states = Inr (u, ws)" (is "\<exists>u ws. update_state _ _ _ _ ?s _ = _")
proof -
  have "WorkingStateSectionsSchema ?s \<noteq> None" by code_simp
  moreover have "length (renderWorkingState (the (WorkingStateSectionsSchema ?s))) \<le> 6144" by code_simp
  ultimately show ?thesis by (auto simp: update_state_def Let_def split: prod.splits)
qed

lemmas join_defs = joinEscalation_def openEscalation_def carry_questions_def listItemOrRefusal_def ensureItemInQuestionsForHuman_def update_working_def
  findPendingEscalation_def insertEscalation_def findEscalation_def attachQuestionToEscalation_def updateEscalationBody_def questionsOfEscalation_def
  WORKING_STATE_MAX_ITEMS_PER_SECTION_def on_tables_def update_where_def sectionsOf_def get_state_def emitRaised_def viewOf_escalation_def send_def es_now_def

definition raised :: "(nat escalation_env \<times> escalation_op) list" where
  "raised = [(example_env, SubmitQuestions (asks ''q1'' ''spend'' None))]"

lemma raised_rows:
  "map (\<lambda>q. (qn_key q, qn_status q, qn_escalationId q)) (et_questions (es_tables (escalation_run raised (escalation_start 1)))) = [((''x'', ''q1''), QPendingHuman, Some ''xx'')]"
  "map (\<lambda>e. (ec_id e, ec_status e)) (et_escalations (es_tables (escalation_run raised (escalation_start 1)))) = [(''xx'', EPending)]"
  "map (\<lambda>b. (bt_id b, bt_managerId b, bt_ticket b)) (et_batches (es_tables (escalation_run raised (escalation_start 1)))) = [(''x'', ''m'', ''T-1'')]"
proof -
  obtain u ws where item: "update_state 6144 True (Suc (Suc (Suc 0))) ''m'' \<lparr>ws_plan = [], ws_todo = [], ws_remaining = [], ws_questionsForHuman = [escalationItemOf ''xx'' ''T-1''],
     ws_internalQuestions = [], ws_blockers = []\<rparr> no_states = Inr (u, ws)" using item_listed by blast
  have [simp]: "wt_rows no_states = Map.empty" by (simp add: no_states_def)
  show "map (\<lambda>q. (qn_key q, qn_status q, qn_escalationId q)) (et_questions (es_tables (escalation_run raised (escalation_start 1)))) = [((''x'', ''q1''), QPendingHuman, Some ''xx'')]"
    by (simp add: raised_def escalation_run_def submit_defs join_defs item Let_def numeral_2_eq_2 numeral_3_eq_3)
  show  "map (\<lambda>e. (ec_id e, ec_status e)) (et_escalations (es_tables (escalation_run raised (escalation_start 1)))) = [(''xx'', EPending)]"
    by (simp add: raised_def escalation_run_def submit_defs join_defs item Let_def numeral_2_eq_2 numeral_3_eq_3)
  show "map (\<lambda>b. (bt_id b, bt_managerId b, bt_ticket b)) (et_batches (es_tables (escalation_run raised (escalation_start 1)))) = [(''x'', ''m'', ''T-1'')]"
    by (simp add: raised_def escalation_run_def submit_defs join_defs item Let_def numeral_2_eq_2 numeral_3_eq_3)
qed

definition waiting_card :: stored_escalation where
  "waiting_card = \<lparr>ec_id = ''c'', ec_managerId = ''m'', ec_ticket = ''T-1'', ec_status = EPending, ec_body = [], ec_createdAt = 0, ec_resolvedAt = None, ec_handoverRefusal = None\<rparr>"

definition waiting_question :: "string \<Rightarrow> stored_question" where
  "waiting_question i = \<lparr>qn_batchId = ''x'', qn_questionId = i, qn_text = ''so?'', qn_declaredClass = ''spend'', qn_computedClasses = [], qn_effectiveClasses = [Spend],
     qn_route = ToHuman, qn_status = QPendingHuman, qn_reason = None, qn_options = None, qn_recommendation = None, qn_paths = None, qn_resolution = None,
     qn_reopens = None, qn_escalationId = Some ''c'', qn_humanAnswer = None, qn_answeredAt = None\<rparr>"

definition crowded :: "nat escalations" where
  "crowded = \<lparr>es_tables = \<lparr>et_batches = [], et_questions = map (\<lambda>n. waiting_question (replicate n CHR ''q'')) [0..<21], et_escalations = [waiting_card], et_decisions = []\<rparr>,
     es_working = no_states, es_events = [], es_world = 1\<rparr>"

theorem one_card_per_ticket_witness:
  "\<exists>q e. et_questions (reached raised 1) = [q] \<and> findPendingEscalation ''m'' ''T-1'' (reached raised 1) = Some e \<and> qn_escalationId q = Some (ec_id e)"
proof -
  obtain q where q: "et_questions (reached raised 1) = [q]" "qn_status q = QPendingHuman" "qn_batchId q = ''x''"
    using raised_rows(1) by (auto simp: reached_def qn_key_def map_eq_Cons_conv)
  then obtain b e where b: "findBatch ''x'' (reached raised 1) = Some b"
    "findPendingEscalation (bt_managerId b) (bt_ticket b) (reached raised 1) = Some e" "qn_escalationId q = Some (ec_id e)"
    using one_card_per_ticket [of raised 1] by (metis list.set_intros(1))
  moreover have "map (\<lambda>b. (bt_id b, bt_managerId b, bt_ticket b)) (et_batches (reached raised 1)) = [(''x'', ''m'', ''T-1'')]"
    using raised_rows(3) by (simp add: reached_def)
  then have "bt_managerId b = ''m''" "bt_ticket b = ''T-1''" using b(1) by (auto simp: findBatch_def map_eq_Cons_conv split: if_splits)
  ultimately show ?thesis using q(1) by auto
qed

theorem crowded_card_cannot_be_answered_witness:
  "\<exists>u r m. answer example_env ''c'' [(''q'', ''yes'')] crowded = Inl (AnswersMismatch u r m)"
proof -
  have ids: "qn_questionId ` set (filter (\<lambda>q. qn_status q = QPendingHuman) (questionsOfEscalation ''c'' (es_tables crowded))) = (\<lambda>n. replicate n CHR ''q'') ` {0..<21}"
    by (auto simp: crowded_def waiting_question_def questionsOfEscalation_def image_image)
  have "inj_on (\<lambda>n. replicate n CHR ''q'') {0..<21::nat}" by (rule inj_onI) (metis length_replicate)
  then have "card ((\<lambda>n. replicate n CHR ''q'') ` {0..<21::nat}) = 21" by (simp add: card_image)
  then show ?thesis using crowded_card_cannot_be_answered [of "''c''" crowded waiting_card "[(''q'', ''yes'')]" example_env] unfolding ids
    by (simp add: crowded_def waiting_card_def findEscalation_def MAX_QUESTIONS_PER_BATCH_def)
qed

lemma checked_is_clean [simp]: "sanitizedReproClaim plain_texts checked = checked" "\<not> hasBlankClaim plain_texts checked" "\<not> lacksExecutedEvidence plain_texts checked" "isExecutedClaim checked"
  by code_simp+

definition contested :: "(nat escalation_env \<times> escalation_op) list" where
  "contested = decided @ [(example_env, SubmitQuestions (asks ''q2'' ''technical'' (Some ''q1'')))]"

lemma decided_rows_now:
  "map bt_core (et_batches (es_tables (escalation_run decided (escalation_start 1)))) = [(''x'', ''m'', ''T-1'')]"
  "map (\<lambda>q. (qn_key q, qn_status q, qn_reopens q)) (et_questions (es_tables (escalation_run decided (escalation_start 1)))) = [((''x'', ''q1''), QDecided, None)]"
  "es_world (escalation_run decided (escalation_start 1)) = 2"
  by ((simp add: bt_core_def decided_def asked_def escalation_run_def submit_defs opinion_defs Let_def numeral_2_eq_2 numeral_3_eq_3), (auto simp: image_iff)?)+

lemma contested_rows:
  "map (\<lambda>q. (qn_key q, qn_reopens q)) (et_questions (reached contested 1)) = [((''x'', ''q1''), None), ((''xx'', ''q2''), Some (''x'', ''q1''))]"
proof -
  let ?st = "escalation_run decided (escalation_start 1)"
  let ?q = "hd (pb_questions (asks ''q2'' ''technical'' (Some ''q1'')))"
  obtain b where b: "et_batches (es_tables ?st) = [b]" "bt_id b = ''x''" "bt_managerId b = ''m''" "bt_ticket b = ''T-1''"
    using decided_rows_now(1) by (auto simp: bt_core_def map_eq_Cons_conv)
  obtain q where q: "et_questions (es_tables ?st) = [q]" "qn_key q = (''x'', ''q1'')" "qn_status q = QDecided" "qn_reopens q = None"
    using decided_rows_now(2) by (auto simp: map_eq_Cons_conv)
  have id: "qn_batchId q = ''x''" "qn_questionId q = ''q1''" using q(2) by (simp_all add: qn_key_def)
  have clean: "cleanResolutionOf plain_texts ?q = Inr (Some checked)" "executedEvidenceOf plain_texts (?q\<lparr>pq_resolution := Some checked\<rparr>) = Inr checked"
    by (simp_all add: cleanResolutionOf_def executedEvidenceOf_def asks_def)
  have "qr_route (routeQuestion plain_texts (?q\<lparr>pq_resolution := Some checked\<rparr>) DEFAULT_ESCALATION_POLICY) = ToArbiter"
    by (rule route_values(1)) (simp_all add: asks_def)
  note known = b q id clean this decided_rows_now(3)
  have "escalation_run contested (escalation_start 1) = escalation_step (example_env, SubmitQuestions (asks ''q2'' ''technical'' (Some ''q1''))) ?st"
    by (simp add: contested_def escalation_run_def)
  then show ?thesis
    unfolding reached_def using known
    by (simp add: escalation_step_def state_after_def submitBatch_def storeBatch_def asks_def example_env_def and_then_def or_fail_def
      insertBatch_def insertQuestion_def routed_questions_def newQuestionOf_def routingOf_def STATUS_OF_ROUTE_def
      journalSelfResolved_def journalReopened_def decidedQuestionForReopen_def isReopened_def Let_def numeral_2_eq_2 findBatch_def qn_key_def)
qed

theorem decision_contested_once_witness:
  "\<exists>q q'. et_questions (reached contested 1) = [q, q'] \<and> qn_reopens q' = Some (''x'', ''q1'') \<and> qn_reopens q \<noteq> Some (''x'', ''q1'') \<and> qn_status q = QDecided"
proof -
  obtain q q' where q: "et_questions (reached contested 1) = [q, q']" "qn_key q = (''x'', ''q1'')" "qn_key q' = (''xx'', ''q2'')" "qn_reopens q' = Some (''x'', ''q1'')"
    using contested_rows by (auto simp: map_eq_Cons_conv)
  then have "(\<forall>p \<in> {q, q'}. qn_reopens p = Some (''x'', ''q1'') \<longrightarrow> p = q') \<and> (\<exists>y \<in> {q, q'}. qn_key y = (''x'', ''q1'') \<and> qn_status y = QDecided)"
    using decision_contested_once [of q' contested 1 "(''x'', ''q1'')"] by auto
  then show ?thesis using q by auto
qed

end
