(* ===== verification/Manager_Records.thy ===== *)
theory Manager_Records
  imports Fleet_Prelude
begin

text \<open>
  The record of a manager (\<^verbatim>\<open>managers/managerRepository.ts\<close>), as far as other components read it: its mode and its pulse. A
  watching manager gets pulses and messages, a sleeping one messages only, and nothing automated reaches a disabled one.
\<close>

datatype manager_mode = Watching | Sleeping | Disabled

record manager_record =
  mr_sessionId :: string
  mr_mode :: "manager_mode option"
  mr_pulseEnabled :: "bool option"
  mr_pulseSeconds :: nat

definition modeOf :: "manager_record \<Rightarrow> manager_mode" where
  "modeOf m = (case mr_mode m of Some mode \<Rightarrow> mode | None \<Rightarrow> if mr_pulseEnabled m = Some False then Sleeping else Watching)"

end
