(* ===== verification/Arbiter_Runs.thy ===== *)
theory Arbiter_Runs
  imports Escalation_Laws Manager_Records
begin

text \<open>
  The runner of the arbiters, \<^verbatim>\<open>escalation/arbiterRunner.ts\<close>, with the tools that drive it (\<^verbatim>\<open>mcp/escalationTools.ts\<close>,
  \<^verbatim>\<open>mcp/arbiterTools.ts\<close>): it spawns the arbiter of a batch, gives up on one that closes, expires or keeps sending refused
  opinions, tries once more and then hands the batch to the human.

  The methods are asynchronous. Each runs without interruption up to the promise it awaits, so a state carries what is
  awaited: the sessions being created, the failures a method has still to see, the sessions being closed and the timers of
  the retries. An event resumes one of them, and any other event may come between. The sessions, the managers and the file
  system are functions of the world of the escalations; the synchronous parts of the calls into them are functions on it.
\<close>

section \<open>State\<close>

definition ARBITER_ROLE :: string where "ARBITER_ROLE = ''arbiter''"
definition SLEEPING_MANAGER_EXPIRY_MS :: nat where "SLEEPING_MANAGER_EXPIRY_MS = 30 * 60000"
definition MIN_EXPIRY_MS :: nat where "MIN_EXPIRY_MS = 10 * 60000"
definition PULSES_BEFORE_EXPIRY :: nat where "PULSES_BEFORE_EXPIRY = 2"
definition MAX_REFUSED_OPINIONS :: nat where "MAX_REFUSED_OPINIONS = 3"
definition FAILURES_BEFORE_FAIL_CLOSED :: nat where "FAILURES_BEFORE_FAIL_CLOSED = 2"
definition MAX_CLOSE_ATTEMPTS :: nat where "MAX_CLOSE_ATTEMPTS = 3"
definition BATCH_TAG_LENGTH :: nat where "BATCH_TAG_LENGTH = 8"

definition batchTagOf :: "string \<Rightarrow> string" where
  "batchTagOf batchId = ''['' @ utf16_take BATCH_TAG_LENGTH (utf8_chars batchId) @ '']''"

definition expiryMsOf :: "manager_record \<Rightarrow> nat" where
  "expiryMsOf m = (if modeOf m = Sleeping then SLEEPING_MANAGER_EXPIRY_MS else max MIN_EXPIRY_MS (PULSES_BEFORE_EXPIRY * mr_pulseSeconds m * 1000))"

record fleet_session =
  fs_id :: string
  fs_name :: string
  fs_role :: "string option"
  fs_parentId :: "string option"
  fs_closed :: bool
  fs_directory :: string
  fs_branch :: "string option"
  fs_projectId :: "string option"
  fs_harness :: string

record model_table =
  mt_haiku :: string
  mt_sonnet :: string
  mt_opus :: string
  mt_fable :: string

definition resolveModel :: "text_env \<Rightarrow> model_table \<Rightarrow> string \<Rightarrow> string" where
  "resolveModel te table rungOrId =
     (let rung = te_lower te rungOrId
      in if rung = ''haiku'' then mt_haiku table else if rung = ''sonnet'' then mt_sonnet table
         else if rung = ''opus'' then mt_opus table else if rung = ''fable'' then mt_fable table else rungOrId)"

record earlier_decision =
  er_decision :: string
  er_rationale :: string

text \<open>What a session is created with; the first prompt is rendered from the last three fields.\<close>

record spawn_request =
  sr_directory :: string
  sr_readDirectory :: string
  sr_name :: string
  sr_model :: string
  sr_role :: string
  sr_parentId :: string
  sr_harness :: string
  sr_permissionMode :: string
  sr_projectId :: "string option"
  sr_batch :: stored_batch
  sr_questions :: "stored_question list"
  sr_earlier :: "string \<Rightarrow> earlier_decision option"

record run =
  rn_batchId :: string
  rn_managerId :: string
  rn_expiresInMs :: nat
  rn_refusedOpinions :: nat

text \<open>What a method awaits: a session being created, or a failure of its batch that it has still to see.\<close>

datatype awaited = Creating string string manager_record | Losing string

fun awaited_batch :: "awaited \<Rightarrow> string" where
  "awaited_batch (Creating b _ _) = b"
| "awaited_batch (Losing b) = b"

text \<open>A session being closed, the attempt, and the batch that \<open>retire\<close> recovers afterwards.\<close>

record closing =
  cl_sessionId :: string
  cl_attempt :: nat
  cl_thenLost :: "string option"

text \<open>\<open>ar_refused\<close> are the hand-overs that threw: to the log, or to the caller of the tool. \<open>ar_spawned\<close> are the sessions that were asked
  for over all lives of the daemon, a trace no definition reads.\<close>

record 'w runner =
  ar_ladder :: "'w escalations"
  ar_runs :: "string \<Rightarrow> run option"
  ar_failures :: "string \<Rightarrow> nat option"
  ar_journaled :: "string list"
  ar_workspaces :: "string \<Rightarrow> string option"
  ar_awaited :: "awaited list"
  ar_closing :: "closing list"
  ar_retries :: "(string \<times> nat) list"
  ar_stopped :: bool
  ar_refused :: "(string \<times> escalation_error) list"
  ar_spawned :: "spawn_request list"

record 'w runner_env =
  rv_ladder :: "'w escalation_env"
  rv_list :: "'w \<Rightarrow> fleet_session list"
  rv_get :: "'w \<Rightarrow> string \<Rightarrow> fleet_session option"
  rv_manager :: "'w \<Rightarrow> string \<Rightarrow> manager_record option"
  rv_escalationOf :: "'w \<Rightarrow> string \<Rightarrow> escalation_policy option"
  rv_planNote :: "'w \<Rightarrow> string \<Rightarrow> (string option \<times> nat) option"
  rv_models :: model_table
  rv_realPath :: "'w \<Rightarrow> string \<Rightarrow> string option"
  rv_ticketOf :: "string option \<Rightarrow> string option"
  rv_newWorkspace :: "'w \<Rightarrow> string option \<times> 'w"
  rv_removeWorkspace :: "string \<Rightarrow> 'w \<Rightarrow> 'w"
  rv_removeAllExcept :: "string list \<Rightarrow> 'w \<Rightarrow> 'w"
  rv_create :: "spawn_request \<Rightarrow> 'w \<Rightarrow> 'w"
  rv_close :: "string \<Rightarrow> 'w \<Rightarrow> 'w"

definition world_of :: "'w runner \<Rightarrow> 'w" where
  "world_of st = es_world (ar_ladder st)"

definition on_world :: "('w \<Rightarrow> 'w) \<Rightarrow> 'w runner \<Rightarrow> 'w runner" where
  "on_world f st = st\<lparr>ar_ladder := (ar_ladder st)\<lparr>es_world := f (es_world (ar_ladder st))\<rparr>\<rparr>"

definition tables_of :: "'w runner \<Rightarrow> escalation_tables" where
  "tables_of st = es_tables (ar_ladder st)"

definition escalationPolicyOf :: "('w \<Rightarrow> string \<Rightarrow> escalation_policy option) \<Rightarrow> 'w \<Rightarrow> string option \<Rightarrow> escalation_policy" where
  "escalationPolicyOf projects w projectId =
     opt_default DEFAULT_ESCALATION_POLICY (case projectId of None \<Rightarrow> None | Some p \<Rightarrow> projects w p)"

definition waitingQuestions :: "string \<Rightarrow> escalation_tables \<Rightarrow> stored_question list" where
  "waitingQuestions batchId t = filter (\<lambda>q. qn_route q = ToArbiter \<and> qn_status q = QOpen) (questionsOfBatch batchId t)"

section \<open>Starting an arbiter\<close>

datatype launch_outcome = Idle | Started | Escalated string "escalated_to_human option" | HandoverThrew escalation_error

definition failClosed :: "'w runner_env \<Rightarrow> string \<Rightarrow> string \<Rightarrow> 'w runner \<Rightarrow> launch_outcome \<times> 'w runner" where
  "failClosed env batchId reason st =
     (let st1 = st\<lparr>ar_failures := (ar_failures st)(batchId := None)\<rparr>
      in case escalateBatchToHuman (rv_ladder env) batchId reason (ar_ladder st1) of
           Inl e \<Rightarrow> (HandoverThrew e, st1\<lparr>ar_refused := ar_refused st1 @ [(batchId, e)]\<rparr>)
         | Inr (escalated, es) \<Rightarrow> (Escalated reason escalated, st1\<lparr>ar_ladder := es\<rparr>))"

definition journalMissingEarlierDecisionOnce :: "'w runner_env \<Rightarrow> string \<Rightarrow> string \<Rightarrow> 'w runner \<Rightarrow> 'w runner" where
  "journalMissingEarlierDecisionOnce env batchId questionId st =
     (let journalKey = batchId @ '':'' @ questionId
      in if journalKey \<in> set (ar_journaled st) then st
         else st\<lparr>ar_journaled := journalKey # ar_journaled st, ar_ladder := journalMissingEarlierDecision (rv_ladder env) batchId questionId (ar_ladder st)\<rparr>)"

fun earlierDecisionsOf :: "'w runner_env \<Rightarrow> string \<Rightarrow> stored_question list \<Rightarrow> 'w runner \<Rightarrow> (string \<Rightarrow> earlier_decision option) \<Rightarrow> (string \<Rightarrow> earlier_decision option) \<times> 'w runner" where
  "earlierDecisionsOf env batchId [] st earlier = (earlier, st)"
| "earlierDecisionsOf env batchId (q # qs) st earlier =
     (case qn_reopens q of
        None \<Rightarrow> earlierDecisionsOf env batchId qs st earlier
      | Some (reopensBatchId, reopensQuestionId) \<Rightarrow>
          (let decisions = filter (\<lambda>d. ad_questionId d = reopensQuestionId) (decisionsOfBatch reopensBatchId (tables_of st))
           in if decisions = [] then earlierDecisionsOf env batchId qs (journalMissingEarlierDecisionOnce env batchId (qn_questionId q) st) earlier
              else earlierDecisionsOf env batchId qs st
                     (earlier(qn_questionId q \<mapsto> \<lparr>er_decision = ad_decision (List.last decisions), er_rationale = ad_rationale (List.last decisions)\<rparr>))))"

definition directoryOf :: "'w runner_env \<Rightarrow> string \<Rightarrow> string \<Rightarrow> string \<Rightarrow> 'w \<Rightarrow> string" where
  "directoryOf env managerId managerDirectory ticket w =
     (case find (\<lambda>s. fs_parentId s = Some managerId \<and> fs_role s \<noteq> Some ARBITER_ROLE \<and> rv_ticketOf env (fs_branch s) = Some ticket) (rv_list env w) of
        None \<Rightarrow> managerDirectory
      | Some s \<Rightarrow> fs_directory s)"

definition await :: "awaited \<Rightarrow> 'w runner \<Rightarrow> 'w runner" where
  "await a st = st\<lparr>ar_awaited := ar_awaited st @ [a]\<rparr>"

text \<open>\<open>spawnFor\<close> up to the creation of the session: whatever throws before rejects the promise that \<open>launch\<close> awaits.\<close>

definition spawnFor :: "'w runner_env \<Rightarrow> stored_batch \<Rightarrow> string \<Rightarrow> 'w runner \<Rightarrow> 'w runner" where
  "spawnFor env b model st =
     (case (rv_manager env (world_of st) (bt_managerId b), rv_get env (world_of st) (bt_managerId b)) of
        (Some manager, Some managerSession) \<Rightarrow>
          (let waiting = waitingQuestions (bt_id b) (tables_of st)
           in case rv_realPath env (world_of st) (directoryOf env (bt_managerId b) (fs_directory managerSession) (bt_ticket b) (world_of st)) of
                None \<Rightarrow> await (Losing (bt_id b)) st
              | Some directoryToRead \<Rightarrow>
                  (case rv_newWorkspace env (world_of st) of
                     (None, w) \<Rightarrow> await (Losing (bt_id b)) (on_world (\<lambda>_. w) st)
                   | (Some workspace, w) \<Rightarrow>
                       (let (earlier, st1) = earlierDecisionsOf env (bt_id b) waiting (on_world (\<lambda>_. w) st) Map.empty;
                            request = \<lparr>sr_directory = workspace, sr_readDirectory = directoryToRead,
                              sr_name = ''Arbiter '' @ bt_ticket b @ '' '' @ batchTagOf (bt_id b), sr_model = model, sr_role = ARBITER_ROLE, sr_parentId = bt_managerId b,
                              sr_harness = fs_harness managerSession, sr_permissionMode = ''plan'', sr_projectId = truthy (fs_projectId managerSession),
                              sr_batch = b, sr_questions = waiting, sr_earlier = earlier\<rparr>
                        in await (Creating (bt_id b) workspace manager) (on_world (rv_create env request) (st1\<lparr>ar_spawned := ar_spawned st1 @ [request]\<rparr>)))))
      | _ \<Rightarrow> await (Losing (bt_id b)) st)"

definition launch :: "'w runner_env \<Rightarrow> string \<Rightarrow> 'w runner \<Rightarrow> launch_outcome \<times> 'w runner" where
  "launch env batchId st =
     (if ar_stopped st then (Idle, st)
      else case findBatch batchId (tables_of st) of
        None \<Rightarrow> (Idle, st)
      | Some b \<Rightarrow>
          if waitingQuestions batchId (tables_of st) = [] then (Idle, st)
          else (let policy = escalationPolicyOf (rv_escalationOf env) (world_of st) (case rv_get env (world_of st) (bt_managerId b) of None \<Rightarrow> None | Some s \<Rightarrow> fs_projectId s)
                in if ep_maxArbiterRunsPerTicket policy \<le> arbiterRunsOfTicket (bt_managerId b) (bt_ticket b) (tables_of st)
                   then failClosed env batchId ARBITER_QUOTA_REASON st
                   else (Started, spawnFor env b (resolveModel (ev_text (rv_ladder env)) (rv_models env) (ep_arbiterModel policy))
                          (st\<lparr>ar_ladder := on_tables (addArbiterRun batchId) (ar_ladder st)\<rparr>))))"

definition onArbiterLost :: "'w runner_env \<Rightarrow> string \<Rightarrow> 'w runner \<Rightarrow> launch_outcome \<times> 'w runner" where
  "onArbiterLost env batchId st =
     (if ar_stopped st then (Idle, st)
      else (let failures = opt_default 0 (ar_failures st batchId) + 1;
                st1 = st\<lparr>ar_failures := (ar_failures st)(batchId \<mapsto> failures)\<rparr>
            in if FAILURES_BEFORE_FAIL_CLOSED \<le> failures then failClosed env batchId ARBITER_UNAVAILABLE_REASON st1 else launch env batchId st1))"

section \<open>Watching and closing\<close>

definition forget :: "string \<Rightarrow> 'w runner \<Rightarrow> run option \<times> 'w runner" where
  "forget arbiterSessionId st = (ar_runs st arbiterSessionId, st\<lparr>ar_runs := (ar_runs st)(arbiterSessionId := None)\<rparr>)"

definition closeQuietly :: "'w runner_env \<Rightarrow> string \<Rightarrow> nat \<Rightarrow> string option \<Rightarrow> 'w runner \<Rightarrow> 'w runner" where
  "closeQuietly env sessionId attempt thenLost st =
     (let st1 = on_world (rv_close env sessionId) st
      in st1\<lparr>ar_closing := ar_closing st1 @ [\<lparr>cl_sessionId = sessionId, cl_attempt = attempt, cl_thenLost = thenLost\<rparr>]\<rparr>)"

text \<open>\<open>closeQuietly\<close> once \<open>sessions.close\<close> settled; the retirement that awaited it goes on afterwards.\<close>

definition close_settles :: "closing \<Rightarrow> bool \<Rightarrow> 'w runner \<Rightarrow> 'w runner" where
  "close_settles c isClosed st =
     (let st1 = (if \<not> isClosed \<and> cl_attempt c < MAX_CLOSE_ATTEMPTS \<and> \<not> ar_stopped st
                 then st\<lparr>ar_retries := ar_retries st @ [(cl_sessionId c, cl_attempt c + 1)]\<rparr> else st)
      in case cl_thenLost c of None \<Rightarrow> st1 | Some batchId \<Rightarrow> await (Losing batchId) st1)"

definition removeWorkspaceOf :: "'w runner_env \<Rightarrow> string \<Rightarrow> 'w runner \<Rightarrow> 'w runner" where
  "removeWorkspaceOf env arbiterSessionId st =
     (case ar_workspaces st arbiterSessionId of
        None \<Rightarrow> st
      | Some workspace \<Rightarrow> on_world (rv_removeWorkspace env workspace) (st\<lparr>ar_workspaces := (ar_workspaces st)(arbiterSessionId := None)\<rparr>))"

definition track :: "string \<Rightarrow> string \<Rightarrow> manager_record \<Rightarrow> 'w runner \<Rightarrow> 'w runner" where
  "track arbiterSessionId batchId manager st =
     (if ar_stopped st then st
      else st\<lparr>ar_runs := (ar_runs st)(arbiterSessionId \<mapsto>
             \<lparr>rn_batchId = batchId, rn_managerId = mr_sessionId manager, rn_expiresInMs = expiryMsOf manager, rn_refusedOpinions = 0\<rparr>)\<rparr>)"

text \<open>\<open>spawnFor\<close> after the creation.\<close>

definition session_created :: "'w runner_env \<Rightarrow> string \<Rightarrow> string \<Rightarrow> manager_record \<Rightarrow> string \<Rightarrow> 'w runner \<Rightarrow> 'w runner" where
  "session_created env batchId workspace manager arbiterId st =
     (let st1 = st\<lparr>ar_workspaces := (ar_workspaces st)(arbiterId \<mapsto> workspace)\<rparr>
      in if ar_stopped st1 then closeQuietly env arbiterId 1 None st1
         else if (case rv_get env (world_of st1) arbiterId of None \<Rightarrow> False | Some s \<Rightarrow> fs_closed s)
              then await (Losing batchId) (removeWorkspaceOf env arbiterId st1)
              else track arbiterId batchId manager st1)"

definition session_not_created :: "'w runner_env \<Rightarrow> string \<Rightarrow> string \<Rightarrow> 'w runner \<Rightarrow> 'w runner" where
  "session_not_created env batchId workspace st = await (Losing batchId) (on_world (rv_removeWorkspace env workspace) st)"

definition retire :: "'w runner_env \<Rightarrow> string \<Rightarrow> 'w runner \<Rightarrow> 'w runner" where
  "retire env arbiterSessionId st =
     (let (r, st1) = forget arbiterSessionId st in case r of None \<Rightarrow> st1 | Some run \<Rightarrow> closeQuietly env arbiterSessionId 1 (Some (rn_batchId run)) st1)"

definition settle :: "'w runner_env \<Rightarrow> string \<Rightarrow> 'w runner \<Rightarrow> 'w runner" where
  "settle env arbiterSessionId st =
     (let (r, st1) = forget arbiterSessionId st
      in case r of
           None \<Rightarrow> st1
         | Some run \<Rightarrow> closeQuietly env arbiterSessionId 1 None (st1\<lparr>ar_failures := (ar_failures st1)(rn_batchId run := None)\<rparr>))"

definition noteRefusedOpinion :: "'w runner_env \<Rightarrow> string \<Rightarrow> 'w runner \<Rightarrow> 'w runner" where
  "noteRefusedOpinion env arbiterSessionId st =
     (case ar_runs st arbiterSessionId of
        None \<Rightarrow> st
      | Some run \<Rightarrow>
          (let run' = run\<lparr>rn_refusedOpinions := rn_refusedOpinions run + 1\<rparr>;
               st1 = st\<lparr>ar_runs := (ar_runs st)(arbiterSessionId \<mapsto> run')\<rparr>
           in if MAX_REFUSED_OPINIONS \<le> rn_refusedOpinions run' then retire env arbiterSessionId st1 else st1))"

definition onSessionClosed :: "'w runner_env \<Rightarrow> string \<Rightarrow> bool \<Rightarrow> 'w runner \<Rightarrow> 'w runner" where
  "onSessionClosed env sessionId isDaemonShutdown st =
     (let st1 = (if isDaemonShutdown then st else removeWorkspaceOf env sessionId st);
          (r, st2) = forget sessionId st1
      in case r of None \<Rightarrow> st2 | Some run \<Rightarrow> if isDaemonShutdown then st2 else snd (onArbiterLost env (rn_batchId run) st2))"

definition stop_runner :: "'w runner \<Rightarrow> 'w runner" where
  "stop_runner st = st\<lparr>ar_stopped := True, ar_retries := [], ar_runs := Map.empty\<rparr>"

section \<open>Recovery after a boot\<close>

definition ends_with :: "string \<Rightarrow> string \<Rightarrow> bool" where
  "ends_with s p \<longleftrightarrow> starts_with (rev s) (rev p)"

definition recover_batch :: "'w runner_env \<Rightarrow> string \<Rightarrow> 'w runner \<Rightarrow> 'w runner" where
  "recover_batch env batchId st =
     (case findBatch batchId (tables_of st) of
        None \<Rightarrow> st
      | Some b \<Rightarrow>
          (case (rv_manager env (world_of st) (bt_managerId b),
                 find (\<lambda>s. fs_role s = Some ARBITER_ROLE \<and> fs_parentId s = Some (bt_managerId b) \<and> \<not> fs_closed s \<and> ends_with (fs_name s) (batchTagOf batchId)) (rv_list env (world_of st))) of
             (Some manager, Some resumed) \<Rightarrow> track (fs_id resumed) batchId manager st
           | _ \<Rightarrow> snd (onArbiterLost env batchId st)))"

definition recover_runner :: "'w runner_env \<Rightarrow> 'w runner \<Rightarrow> 'w runner" where
  "recover_runner env st =
     (let live = filter (\<lambda>s. fs_role s = Some ARBITER_ROLE \<and> \<not> fs_closed s) (rv_list env (world_of st));
          st1 = on_world (rv_removeAllExcept env (map fs_directory live))
                  (st\<lparr>ar_workspaces := fold (\<lambda>s m. m(fs_id s \<mapsto> fs_directory s)) live (ar_workspaces st)\<rparr>);
          st2 = fold (recover_batch env) (batchIdsWithOpenArbiterQuestions (tables_of st1)) st1
      in fold (\<lambda>s. closeQuietly env (fs_id s) 1 None) (filter (\<lambda>s. ar_runs st2 (fs_id s) = None) live) st2)"

section \<open>The tools\<close>

text \<open>What the schema of a submission and of an opinion requires beyond the shapes of their fields.\<close>

definition submission_ok :: "plan_question list \<Rightarrow> bool" where
  "submission_ok qs \<longleftrightarrow> qs \<noteq> [] \<and> length qs \<le> MAX_QUESTIONS_PER_BATCH \<and> distinct (map pq_id qs)"

definition opinion_ok :: "arbiter_opinion \<Rightarrow> bool" where
  "opinion_ok opinion \<longleftrightarrow>
     ao_decisions opinion \<noteq> [] \<and> length (ao_decisions opinion) \<le> MAX_QUESTIONS_PER_BATCH \<and> hasDistinctQuestionIds (ao_decisions opinion)
     \<and> (ao_opinion opinion = Unfavourable \<longrightarrow> ao_reasons opinion \<noteq> [])"

text \<open>Whether a note of the project of the caller can carry a plan, and its revision.\<close>

definition planNoteRev :: "'w runner_env \<Rightarrow> fleet_session \<Rightarrow> string \<Rightarrow> 'w \<Rightarrow> nat option" where
  "planNoteRev env caller planNoteId w =
     (case rv_planNote env w planNoteId of
        None \<Rightarrow> None
      | Some (projectId, r) \<Rightarrow> if projectId \<noteq> fs_projectId caller \<or> ev_isMissionNote (rv_ladder env) planNoteId then None else Some r)"

definition submit_plan_questions :: "'w runner_env \<Rightarrow> fleet_session \<Rightarrow> string \<Rightarrow> string \<Rightarrow> plan_question list \<Rightarrow> 'w runner \<Rightarrow> (submitted_questions \<times> launch_outcome) option \<times> 'w runner" where
  "submit_plan_questions env caller ticket planNoteId qs st =
     (if rv_manager env (world_of st) (fs_id caller) = None \<or> \<not> submission_ok qs then (None, st)
      else case planNoteRev env caller planNoteId (world_of st) of
        None \<Rightarrow> (None, st)
      | Some currentRev \<Rightarrow>
          (case submitBatch (rv_ladder env)
                  \<lparr>pb_managerId = fs_id caller, pb_ticket = ticket, pb_planNoteId = planNoteId, pb_planNoteRev = currentRev, pb_questions = qs,
                   pb_policy = escalationPolicyOf (rv_escalationOf env) (world_of st) (fs_projectId caller)\<rparr> (ar_ladder st) of
             Inl e \<Rightarrow> (None, st)
           | Inr (submitted, es) \<Rightarrow>
               (let (outcome, st1) = launch env (sq_batchId submitted) (st\<lparr>ar_ladder := es\<rparr>) in (Some (submitted, outcome), st1))))"

definition report_arbiter_opinion :: "'w runner_env \<Rightarrow> fleet_session \<Rightarrow> arbiter_opinion option \<Rightarrow> 'w runner \<Rightarrow> recorded_opinion option \<times> 'w runner" where
  "report_arbiter_opinion env caller parsed st =
     (case (if fs_role caller = Some ARBITER_ROLE then case truthy (fs_parentId caller) of None \<Rightarrow> None | Some p \<Rightarrow> rv_manager env (world_of st) p else None) of
        None \<Rightarrow> (None, st)
      | Some manager \<Rightarrow>
          (case parsed of
             None \<Rightarrow> (None, noteRefusedOpinion env (fs_id caller) st)
           | Some opinion \<Rightarrow>
               if \<not> opinion_ok opinion then (None, noteRefusedOpinion env (fs_id caller) st)
               else if map_option rn_batchId (ar_runs st (fs_id caller)) \<noteq> Some (ao_batchId opinion) then (None, st)
               else (case recordArbiterOpinion (rv_ladder env) (mr_sessionId manager) (fs_id caller) opinion (ar_ladder st) of
                       Inr (recorded, es) \<Rightarrow> (Some recorded, settle env (fs_id caller) (st\<lparr>ar_ladder := es\<rparr>))
                     | Inl e \<Rightarrow> (None, if is_invalid_body e then noteRefusedOpinion env (fs_id caller) st else st))))"

section \<open>Events\<close>

datatype runner_event =
    SubmitPlan fleet_session string string "plan_question list"
  | ReportArbiter fleet_session "arbiter_opinion option"
  | Created nat string
  | NotCreated nat
  | SeesLoss nat
  | CloseSettles nat bool
  | RetryRings nat
  | ExpiryRings string
  | ArbiterClosed string bool
  | OtherCall escalation_op
  | RecoverNow
  | StopNow
  | Boot

definition without_nth :: "nat \<Rightarrow> 'a list \<Rightarrow> 'a list" where
  "without_nth i xs = take i xs @ drop (Suc i) xs"

text \<open>The timer of a run is cancelled with the run. A session closed by the shutdown of the daemon closes after the runner
  is stopped. The id of a created session is new, or the session is already tracked for the batch.\<close>

fun can_happen :: "runner_event \<Rightarrow> 'w runner \<Rightarrow> bool" where
  "can_happen (Created i s) st = (i < length (ar_awaited st) \<and> (case ar_awaited st ! i of Creating b _ _ \<Rightarrow> ar_runs st s = None \<or> map_option rn_batchId (ar_runs st s) = Some b | Losing _ \<Rightarrow> False))"
| "can_happen (NotCreated i) st = (i < length (ar_awaited st) \<and> (case ar_awaited st ! i of Creating _ _ _ \<Rightarrow> True | Losing _ \<Rightarrow> False))"
| "can_happen (SeesLoss i) st = (i < length (ar_awaited st) \<and> (case ar_awaited st ! i of Creating _ _ _ \<Rightarrow> False | Losing _ \<Rightarrow> True))"
| "can_happen (CloseSettles i _) st = (i < length (ar_closing st))"
| "can_happen (RetryRings i) st = (i < length (ar_retries st))"
| "can_happen (ExpiryRings s) st = (ar_runs st s \<noteq> None)"
| "can_happen (ArbiterClosed s isDaemonShutdown) st = (isDaemonShutdown \<longrightarrow> ar_stopped st)"
| "can_happen (OtherCall op) st = (case op of AnswerCard _ _ \<Rightarrow> True | RetryListing _ \<Rightarrow> True | EditState _ _ \<Rightarrow> True | _ \<Rightarrow> False)"
| "can_happen _ st = True"

fun handle_event :: "'w runner_env \<Rightarrow> runner_event \<Rightarrow> 'w runner \<Rightarrow> 'w runner" where
  "handle_event env (SubmitPlan caller ticket planNoteId qs) st = snd (submit_plan_questions env caller ticket planNoteId qs st)"
| "handle_event env (ReportArbiter caller parsed) st = snd (report_arbiter_opinion env caller parsed st)"
| "handle_event env (Created i s) st =
     (case ar_awaited st ! i of
        Creating b workspace manager \<Rightarrow> session_created env b workspace manager s (st\<lparr>ar_awaited := without_nth i (ar_awaited st)\<rparr>)
      | Losing _ \<Rightarrow> st)"
| "handle_event env (NotCreated i) st =
     (case ar_awaited st ! i of
        Creating b workspace manager \<Rightarrow> session_not_created env b workspace (st\<lparr>ar_awaited := without_nth i (ar_awaited st)\<rparr>)
      | Losing _ \<Rightarrow> st)"
| "handle_event env (SeesLoss i) st = snd (onArbiterLost env (awaited_batch (ar_awaited st ! i)) (st\<lparr>ar_awaited := without_nth i (ar_awaited st)\<rparr>))"
| "handle_event env (CloseSettles i isClosed) st = close_settles (ar_closing st ! i) isClosed (st\<lparr>ar_closing := without_nth i (ar_closing st)\<rparr>)"
| "handle_event env (RetryRings i) st = closeQuietly env (fst (ar_retries st ! i)) (snd (ar_retries st ! i)) None (st\<lparr>ar_retries := without_nth i (ar_retries st)\<rparr>)"
| "handle_event env (ExpiryRings s) st = retire env s st"
| "handle_event env (ArbiterClosed s isDaemonShutdown) st = onSessionClosed env s isDaemonShutdown st"
| "handle_event env (OtherCall op) st = st\<lparr>ar_ladder := escalation_step (rv_ladder env, op) (ar_ladder st)\<rparr>"
| "handle_event env RecoverNow st = recover_runner env st"
| "handle_event env StopNow st = stop_runner st"
| "handle_event env Boot st =
     \<lparr>ar_ladder = ar_ladder st, ar_runs = Map.empty, ar_failures = Map.empty, ar_journaled = [], ar_workspaces = Map.empty, ar_awaited = [], ar_closing = [],
      ar_retries = [], ar_stopped = False, ar_refused = [], ar_spawned = ar_spawned st\<rparr>"

definition runner_step :: "'w runner_env \<times> runner_event \<Rightarrow> 'w runner \<Rightarrow> 'w runner" where
  "runner_step ev st = (if can_happen (snd ev) st then handle_event (fst ev) (snd ev) st else st)"

definition runner_start :: "'w \<Rightarrow> 'w runner" where
  "runner_start w =
     \<lparr>ar_ladder = escalation_start w, ar_runs = Map.empty, ar_failures = Map.empty, ar_journaled = [], ar_workspaces = Map.empty, ar_awaited = [], ar_closing = [],
      ar_retries = [], ar_stopped = False, ar_refused = [], ar_spawned = []\<rparr>"

definition runner_run :: "('w runner_env \<times> runner_event) list \<Rightarrow> 'w runner \<Rightarrow> 'w runner" where
  "runner_run evs st = fold runner_step evs st"

end
