(* ===== verification/Arbiter_Claims.thy ===== *)
theory Arbiter_Claims
  imports Arbiter_Runs Escalation_Claims
begin

text \<open>
  What the runner of the arbiters promises, whatever the order of its events: the arbiters of a ticket stay within the
  number the project allows, and no question is left with an arbiter that nobody runs.
\<close>

section \<open>What the ladder does to the batches\<close>

definition open_batches :: "escalation_tables \<Rightarrow> string set" where
  "open_batches t = set (batchIdsWithOpenArbiterQuestions t)"

lemma open_batches_iff: "b \<in> open_batches t \<longleftrightarrow> (\<exists>q \<in> set (et_questions t). qn_batchId q = b \<and> qn_route q = ToArbiter \<and> qn_status q = QOpen)"
  by (auto simp: open_batches_def batchIdsWithOpenArbiterQuestions_def)

lemma open_batches_moved: "list_all2 moved qs qs' \<Longrightarrow> et_questions t = qs \<Longrightarrow> et_questions t' = qs' \<Longrightarrow> open_batches t' \<subseteq> open_batches t"
  unfolding subset_iff open_batches_iff by (fastforce dest: list_all2_left simp: moved_def qn_fixed_def)

lemma length_update_where [simp]: "length (update_where P f rows) = length rows"
  by (simp add: update_where_def)

lemma keeps_length: "keeps t t' \<Longrightarrow> length (et_questions t') = length (et_questions t) \<Longrightarrow> list_all2 moved (et_questions t) (et_questions t')"
proof -
  assume "keeps t t'" "length (et_questions t') = length (et_questions t)"
  then obtain old new where "et_questions t' = old @ new" "list_all2 moved (et_questions t) old" unfolding keeps_def by blast
  with list_all2_lengthD [OF this(2)] \<open>length (et_questions t') = length (et_questions t)\<close> show ?thesis by simp
qed

definition runs_of :: "escalation_tables \<Rightarrow> (string \<times> string \<times> string \<times> nat) list" where
  "runs_of t = map (\<lambda>b. (bt_id b, bt_managerId b, bt_ticket b, bt_arbiterRuns b)) (et_batches t)"

lemma runs_of_cong: "et_batches t' = et_batches t \<Longrightarrow> runs_of t' = runs_of t"
  by (simp add: runs_of_def)

text \<open>An operation that adds no question and starts no arbiter.\<close>

definition quiet :: "escalation_tables \<Rightarrow> escalation_tables \<Rightarrow> bool" where
  "quiet t t' \<longleftrightarrow> length (et_questions t') = length (et_questions t) \<and> runs_of t' = runs_of t"

lemma quiet_refl [simp]: "quiet t t"
  by (simp add: quiet_def)

lemma quiet_trans: "quiet t t1 \<Longrightarrow> quiet t1 t2 \<Longrightarrow> quiet t t2"
  by (simp add: quiet_def)

lemma quiet_questions:
  "quiet t (snd (transitionQuestion key from to r a at' t))" "quiet t (snd (deferOpenQuestionToHuman key classes reason t))" "quiet t (recordCriteriaOpinion b op rs t)"
  "quiet t (insertArbiterDecision d t)" "quiet t (snd (answerEscalationIfPending i resolvedAt t))" "quiet t (setHandoverRefusal i h t)"
  by (simp_all add: quiet_def runs_of_def transitionQuestion_def deferOpenQuestionToHuman_def recordCriteriaOpinion_def insertArbiterDecision_def
    answerEscalationIfPending_def setHandoverRefusal_def map_update_where)

lemma quiet_fold: "(\<And>x t. quiet t (f x t)) \<Longrightarrow> quiet t (fold f xs t)"
proof (induction xs arbitrary: t)
  case (Cons x xs)
  have "quiet t (f x t)" "quiet (f x t) (fold f xs (f x t))" using Cons by blast+
  then show ?case unfolding fold_simps comp_apply by (rule quiet_trans)
qed simp

lemma quiet_join: "joinEscalation env b m k ids full st = Inr (h, st') \<Longrightarrow> quiet (es_tables st) (es_tables st')"
proof -
  assume "joinEscalation env b m k ids full st = Inr (h, st')"
  from joinEscalation_tables [OF this] show ?thesis using runs_of_cong [of "es_tables st'" "es_tables st"] by (simp add: quiet_def)
qed

lemma quiet_apply_decision: "apply_decision te b qs ev d t = (r, t') \<Longrightarrow> quiet t t'"
  by (auto simp: apply_decision_def Let_def case_prod_beta quiet_questions split: option.splits if_splits)

lemma quiet_apply_decisions: "apply_decisions te b qs ev ds acc t = (acc', t') \<Longrightarrow> quiet t t'"
proof (induction ds arbitrary: acc t)
  case (Cons d ds)
  obtain r t1 where r: "apply_decision te b qs ev d t = (r, t1)" by fastforce
  then obtain acc1 where "apply_decisions te b qs ev ds acc1 t1 = (acc', t')" using Cons.prems by (auto split: option.splits prod.splits)
  from Cons.IH [OF this] quiet_apply_decision [OF r] show ?case by (rule quiet_trans [rotated])
qed simp

lemma quiet_defer: "quiet (snd acc) (snd (fold (defer_question b reason) qs acc))"
proof (induction qs arbitrary: acc)
  case (Cons q qs)
  have "quiet (snd acc) (snd (defer_question b reason q acc))" using quiet_questions(2) by (simp add: defer_question_def case_prod_beta Let_def)
  with Cons show ?case by (simp add: quiet_trans)
qed simp

lemma quiet_applyOpinion:
  assumes "applyOpinion env b qs opinion s ev st = Inr (r, st')"
  shows "quiet (es_tables st) (es_tables st')"
proof -
  obtain acc t1 where acc: "apply_decisions (ev_text env) (bt_id b) qs ev (ao_decisions opinion) nothing_applied (es_tables st) = (acc, t1)" by fastforce
  obtain planRev warnings w where trail: "appendDecisionSections env b s (ap_applied acc) (es_world st) = ((planRev, warnings), w)" by (metis surj_pair)
  define t3 where "t3 = recordCriteriaOpinion (bt_id b) (ao_opinion opinion) (map (humanReadableText (ev_text env)) (ao_reasons opinion))
     (fold (\<lambda>d. insertArbiterDecision (decision_row (bt_id b) s planRev (ev_clock env w) d)) (ap_applied acc) t1)"
  have one: "quiet (es_tables st) t1" using quiet_apply_decisions [OF acc] .
  have "quiet t1 (fold (\<lambda>d. insertArbiterDecision (decision_row (bt_id b) s planRev (ev_clock env w) d)) (ap_applied acc) t1)"
    by (rule quiet_fold) (rule quiet_questions)
  then have three: "quiet (es_tables st) t3" unfolding t3_def using one quiet_questions(3) quiet_trans by blast
  consider "es_tables st' = t1" | "es_tables st' = t3"
    | h st3 where "joinEscalation env (bt_id b) (bt_managerId b) (bt_ticket b) (ap_escalated acc) None st3 = Inr (h, st')" "es_tables st3 = t3"
    using assms by (auto simp: applyOpinion_def acc trail t3_def Let_def split: if_splits)
  then show ?thesis
  proof cases
    case 3
    with quiet_join [OF 3(1)] three quiet_trans show ?thesis by simp
  qed (use one three in simp_all)
qed

lemma quiet_recordArbiterOpinion:
  assumes "recordArbiterOpinion env m s opinion st = Inr (r, st')"
  shows "quiet (es_tables st) (es_tables st')"
proof -
  obtain b qs ev x st1 where "applyOpinion env b qs opinion s ev st = Inr (x, st1)" "es_tables st' = es_tables st1"
    using assms by (auto simp: recordArbiterOpinion_def Let_def tables_tell_opinion split: option.splits if_splits)
  then show ?thesis using quiet_applyOpinion by metis
qed

lemma quiet_escalateBatchToHuman:
  assumes "escalateBatchToHuman env i reason st = Inr (r, st')"
  shows "quiet (es_tables st) (es_tables st')"
proof (cases "findBatch i (es_tables st)")
  case None
  then show ?thesis using assms by (simp add: escalateBatchToHuman_def)
next
  case (Some b)
  obtain x st1 where x: "handWaitingQuestionsToHuman env b reason st = Inr (x, st1)" "es_tables st' = es_tables st1"
    using assms(1) Some by (auto simp: escalateBatchToHuman_def split: option.splits)
  obtain handed t where h: "fold (defer_question (bt_id b) reason)
      (filter (\<lambda>q. qn_route q = ToArbiter \<and> qn_status q = QOpen) (questionsOfBatch (bt_id b) (es_tables st))) ([], es_tables st) = (handed, t)" by fastforce
  then have one: "quiet (es_tables st) t" using quiet_defer by (metis snd_conv)
  consider "es_tables st1 = t" | j st2 where "joinEscalation env (bt_id b) (bt_managerId b) (bt_ticket b) (map qn_questionId handed) (Some reason) st2 = Inr (j, st1)" "es_tables st2 = t"
    using x(1) h by (auto simp: handWaitingQuestionsToHuman_def split: if_splits)
  then show ?thesis
  proof cases
    case 2
    with quiet_join [OF 2(1)] one quiet_trans x(2) show ?thesis by simp
  qed (use one x(2) in simp)
qed

lemma quiet_answer:
  assumes "answer env i answers st = Inr (r, st')"
  shows "quiet (es_tables st) (es_tables st')"
proof -
  obtain t where t: "answer_tables (ev_text env) (es_now env st) i answers (es_tables st) = Inr t" "es_tables st' = t"
    using assms by (auto simp: answer_def Let_def)
  have "quiet t (fold (answer_question te at qs) answers t)" for te at qs t
    by (rule quiet_fold) (auto simp: answer_question_def intro!: quiet_fold quiet_questions)
  then have "quiet (es_tables st) t" using t(1) quiet_trans [OF _ quiet_questions(5)] by (auto simp: answer_tables_def Let_def split: if_splits)
  then show ?thesis using t(2) by simp
qed

lemma quiet_retryHandover:
  assumes "retryHandover env i st = Inr (r, st')"
  shows "quiet (es_tables st) (es_tables st')"
  using assms by (auto simp: retryHandover_def Let_def quiet_questions dest!: tables_ensureItem split: if_splits)

definition no_submission :: "escalation_op \<Rightarrow> bool" where
  "no_submission op = (case op of SubmitQuestions _ \<Rightarrow> False | CountRun _ \<Rightarrow> False | _ \<Rightarrow> True)"

lemma quiet_after: "(\<And>x st'. r = Inr (x, st') \<Longrightarrow> quiet (es_tables st) (es_tables st')) \<Longrightarrow> quiet (es_tables st) (es_tables (state_after st r))"
  by (cases r) (auto simp: state_after_def)

lemma quiet_step:
  assumes "no_submission op"
  shows "quiet (es_tables st) (es_tables (escalation_step (env, op) st))"
proof (cases op)
  case (ReportOpinion m s opinion)
  then show ?thesis by (simp add: escalation_step_def) (rule quiet_after, erule quiet_recordArbiterOpinion)
next
  case (HandOver b reason)
  then show ?thesis by (simp add: escalation_step_def) (rule quiet_after, erule quiet_escalateBatchToHuman)
next
  case (RetryListing i)
  then show ?thesis by (simp add: escalation_step_def) (rule quiet_after, erule quiet_retryHandover)
next
  case (AnswerCard i answers)
  then show ?thesis by (simp add: escalation_step_def) (rule quiet_after, erule quiet_answer)
next
  case (JournalMissing b q)
  then show ?thesis by (simp add: escalation_step_def journalMissingEarlierDecision_def split: option.split)
next
  case (EditState m s)
  then show ?thesis by (auto simp: escalation_step_def tables_update_working split: sum.split)
qed (use assms in \<open>simp_all add: no_submission_def\<close>)

lemma storeBatch_batches:
  assumes "storeBatch env batch st = Inr (r, st')"
  shows "\<exists>row. et_batches (es_tables st') = et_batches (es_tables st) @ [row] \<and> bt_id row = sq_batchId r \<and> bt_arbiterRuns row = 0"
proof -
  obtain b w where b: "ev_newId env (es_world st) = (b, w)" by fastforce
  define row where "row = \<lparr>bt_id = b, bt_managerId = pb_managerId batch, bt_ticket = pb_ticket batch, bt_planNoteId = pb_planNoteId batch,
      bt_planNoteRev = pb_planNoteRev batch, bt_createdAt = ev_clock env w, bt_arbiterRuns = 0, bt_criteriaOpinion = None\<rparr>"
  define t1 where "t1 = (es_tables st)\<lparr>et_batches := et_batches (es_tables st) @ [row]\<rparr>"
  have inserted: "insert_questions rows t = Inr t' \<Longrightarrow> et_batches t' = et_batches t" for rows t t'
    by (induction rows arbitrary: t) (auto simp: insertQuestion_def split: if_splits)
  obtain plans t2 x where t2: "insert_questions (routed_questions (ev_text env) b (pb_policy batch) plans (pb_questions batch)) t1 = Inr t2" "sq_batchId r = b"
    and join: "let ids = map qn_questionId (filter (\<lambda>q. qn_route q = ToHuman) (routed_questions (ev_text env) b (pb_policy batch) plans (pb_questions batch)))
      in if ids = [] then st' = st\<lparr>es_tables := t2, es_world := w\<rparr>
         else joinEscalation env b (pb_managerId batch) (pb_ticket batch) ids None (st\<lparr>es_tables := t2, es_world := w\<rparr>) = Inr (x, st')"
    using assms(1) b by (auto simp: storeBatch_def insertBatch_def t1_def row_def Let_def split: if_splits)
  have "et_batches (es_tables st') = et_batches t2"
    using join joinEscalation_tables [of env b "pb_managerId batch" "pb_ticket batch" _ None "st\<lparr>es_tables := t2, es_world := w\<rparr>" x st'] by (auto simp: Let_def split: if_splits)
  also have "\<dots> = et_batches (es_tables st) @ [row]" using inserted [OF t2(1)] by (simp add: t1_def)
  finally show ?thesis using t2(2) by (auto simp: row_def)
qed

lemma submitBatch_rows:
  assumes "submitBatch env batch st = Inr (r, st')" "tables_ok (es_tables st)"
  shows "\<exists>row new. et_batches (es_tables st') = et_batches (es_tables st) @ [row] \<and> bt_id row = sq_batchId r \<and> bt_arbiterRuns row = 0
    \<and> et_questions (es_tables st') = et_questions (es_tables st) @ new \<and> (\<forall>q \<in> set new. qn_batchId q = sq_batchId r)"
proof -
  obtain batch' st1 where one: "storeBatch env batch' st = Inr (r, st1)" "es_tables st' = es_tables st1"
    using assms(1) by (auto simp: submitBatch_def Let_def journalReopened_def journalSelfResolved_def split: option.splits)
  obtain row where row: "et_batches (es_tables st1) = et_batches (es_tables st) @ [row]" "bt_id row = sq_batchId r" "bt_arbiterRuns row = 0"
    using storeBatch_batches [OF one(1)] by blast
  from storeBatch_parts [OF one(1) assms(2)] obtain b plans rows rows' where parts: "rows = routed_questions (ev_text env) b (pb_policy batch') plans (pb_questions batch')"
    "et_bcores (es_tables st1) = et_bcores (es_tables st) @ [(b, pb_managerId batch', pb_ticket batch')]"
    "et_questions (es_tables st1) = et_questions (es_tables st) @ rows'"
    "rows' = rows \<or> (\<exists>i. rows' = map (\<lambda>q. if qn_route q = ToHuman then q\<lparr>qn_escalationId := Some i\<rparr> else q) rows)" by blast
  have "b = sq_batchId r" using parts(2) row by (simp add: et_bcores_def bt_core_def)
  moreover have "qn_batchId q = b" if "q \<in> set rows" for q using that by (auto simp: parts(1) routed_questions_def newQuestionOf_def Let_def)
  ultimately have "\<forall>q \<in> set rows'. qn_batchId q = sq_batchId r" using parts(4) by auto
  then show ?thesis using row parts(3) one(2) by auto
qed

lemma submit_open: 
  assumes "submitBatch env batch st = Inr (r, st')" "tables_ok (es_tables st)"
  shows "open_batches (es_tables st') \<subseteq> insert (sq_batchId r) (open_batches (es_tables st))"
  using submitBatch_rows [OF assms] by (auto simp: open_batches_iff)

lemma quiet_open:
  assumes "keeps t t'" "quiet t t'"
  shows "open_batches t' \<subseteq> open_batches t"
  using open_batches_moved [OF keeps_length] assms by (auto simp: quiet_def)

lemma deferred_rows:
  "(\<forall>q' \<in> set (et_questions (snd (fold (defer_question b reason) qs acc))). qn_status q' = QOpen \<longrightarrow> q' \<in> set (et_questions (snd acc)) \<and> (qn_batchId q' = b \<longrightarrow> qn_questionId q' \<notin> qn_questionId ` set qs))"
proof (induction qs arbitrary: acc)
  case (Cons q qs)
  have "q' \<in> set (et_questions (snd acc)) \<and> (qn_batchId q' = b \<longrightarrow> qn_questionId q' \<noteq> qn_questionId q)"
    if q': "q' \<in> set (et_questions (snd (defer_question b reason q acc)))" "qn_status q' = QOpen" for q'
  proof -
    obtain s where "s \<in> set (et_questions (snd acc))" "q' = (if qn_key s = (b, qn_questionId q) \<and> qn_status s = QOpen
        then s\<lparr>qn_status := QPendingHuman, qn_reason := Some reason, qn_effectiveClasses := qn_effectiveClasses q\<rparr> else s)"
      using q'(1) by (auto simp: defer_question_def deferOpenQuestionToHuman_def set_update_where Let_def)
    then show ?thesis using q'(2) by (auto simp: qn_key_def split: if_splits)
  qed
  with Cons show ?case by fastforce
qed simp

lemma joined_row:
  assumes "joinEscalation env b m k ids full st = Inr (h, st')" "q \<in> set (et_questions (es_tables st'))"
  shows "\<exists>s \<in> set (et_questions (es_tables st)). qn_key s = qn_key q \<and> qn_status s = qn_status q \<and> qn_route s = qn_route q"
proof -
  have "q \<in> set (update_where (\<lambda>q. qn_batchId q = b \<and> qn_questionId q \<in> set ids) (\<lambda>q. q\<lparr>qn_escalationId := Some (eh_escalationId h)\<rparr>) (et_questions (es_tables st)))"
    using joinEscalation_tables [OF assms(1)] assms(2) by simp
  then show ?thesis unfolding set_update_where by (rule bexE) (rule bexI, auto simp: qn_key_def split: if_splits)
qed

lemma escalated_batch_closed:
  assumes "escalateBatchToHuman env i reason st = Inr (r, st')" "tables_ok (es_tables st)"
  shows "i \<notin> open_batches (es_tables st')"
proof
  assume "i \<in> open_batches (es_tables st')"
  then obtain q where q: "q \<in> set (et_questions (es_tables st'))" "qn_batchId q = i" "qn_route q = ToArbiter" "qn_status q = QOpen" by (auto simp: open_batches_iff)
  show False
  proof (cases "findBatch i (es_tables st)")
    case None
    then have "q \<in> set (et_questions (es_tables st))" using q assms(1) by (simp add: escalateBatchToHuman_def)
    then have "i \<in> bt_id ` set (et_batches (es_tables st))" using assms(2) q(2) by (force simp: tables_ok_def question_ok_def et_bcores_def bt_core_def)
    then show False using None by (auto simp: findBatch_def find_None_iff)
  next
    case (Some b)
    then have id: "bt_id b = i" using findBatch_core by blast
    define waiting where "waiting = filter (\<lambda>q. qn_route q = ToArbiter \<and> qn_status q = QOpen) (questionsOfBatch i (es_tables st))"
    obtain handed t where h: "fold (defer_question i reason) waiting ([], es_tables st) = (handed, t)" by fastforce
    have "\<exists>st2. es_tables st' = es_tables st2
        \<and> (es_tables st2 = t \<or> (\<exists>j. joinEscalation env i (bt_managerId b) (bt_ticket b) (map qn_questionId handed) (Some reason) (st\<lparr>es_tables := t\<rparr>) = Inr (j, st2)))"
      using assms(1) Some id h unfolding waiting_def
      by (auto simp: escalateBatchToHuman_def handWaitingQuestionsToHuman_def split: option.splits if_splits) blast
    then obtain st2 where st2: "es_tables st' = es_tables st2"
      "es_tables st2 = t \<or> (\<exists>j. joinEscalation env i (bt_managerId b) (bt_ticket b) (map qn_questionId handed) (Some reason) (st\<lparr>es_tables := t\<rparr>) = Inr (j, st2))" by blast
    have "\<exists>q1 \<in> set (et_questions t). qn_key q1 = qn_key q \<and> qn_status q1 = qn_status q \<and> qn_route q1 = qn_route q"
      using st2(2)
    proof
      assume "es_tables st2 = t"
      then show ?thesis using q(1) st2(1) by auto
    next
      assume "\<exists>j. joinEscalation env i (bt_managerId b) (bt_ticket b) (map qn_questionId handed) (Some reason) (st\<lparr>es_tables := t\<rparr>) = Inr (j, st2)"
      then obtain j where j: "joinEscalation env i (bt_managerId b) (bt_ticket b) (map qn_questionId handed) (Some reason) (st\<lparr>es_tables := t\<rparr>) = Inr (j, st2)" by blast
      show ?thesis using joined_row [OF j, of q] q(1) st2(1) by simp
    qed
    then obtain q1 where q1: "q1 \<in> set (et_questions t)" "qn_key q1 = qn_key q" "qn_status q1 = QOpen" "qn_route q1 = ToArbiter" using q(3,4) by auto
    then have "q1 \<in> set (et_questions (es_tables st))" "qn_questionId q1 \<notin> qn_questionId ` set waiting"
      using deferred_rows [of i reason waiting "([], es_tables st)"] h q(2) by (auto simp: qn_key_def)
    moreover have "q1 \<in> set waiting" using calculation(1) q1 q(2) by (auto simp: waiting_def questionsOfBatch_def qn_key_def)
    ultimately show False by blast
  qed
qed

lemma deferred_settled_stays: "q \<in> set (et_questions (snd acc)) \<Longrightarrow> qn_status q \<noteq> QOpen \<Longrightarrow> q \<in> set (et_questions (snd (fold (defer_question b reason) qs acc)))"
proof (induction qs arbitrary: acc)
  case (Cons x qs)
  then have "q \<in> set (et_questions (snd (defer_question b reason x acc)))" by (auto simp: defer_question_def deferOpenQuestionToHuman_def set_update_where Let_def)
  then show ?case using Cons by simp
qed simp

lemma deferred_pending:
  "\<lbrakk>q \<in> set (et_questions (snd acc)); qn_status q = QOpen; qn_batchId q = b; qn_questionId q \<in> qn_questionId ` set qs\<rbrakk>
    \<Longrightarrow> \<exists>q' \<in> set (et_questions (snd (fold (defer_question b reason) qs acc))). qn_key q' = qn_key q \<and> qn_status q' = QPendingHuman"
proof (induction qs arbitrary: acc)
  case (Cons x qs)
  let ?acc = "defer_question b reason x acc"
  show ?case
  proof (cases "qn_questionId q = qn_questionId x")
    case True
    define q' where "q' = q\<lparr>qn_status := QPendingHuman, qn_reason := Some reason, qn_effectiveClasses := qn_effectiveClasses x\<rparr>"
    have "qn_key q = (b, qn_questionId x)" using Cons.prems True by (simp add: qn_key_def)
    then have "q' \<in> set (et_questions (snd ?acc))"
      using Cons.prems(1,2) by (force simp: q'_def defer_question_def deferOpenQuestionToHuman_def set_update_where Let_def)
    then have "q' \<in> set (et_questions (snd (fold (defer_question b reason) qs ?acc)))" by (rule deferred_settled_stays) (simp add: q'_def)
    then show ?thesis by (intro bexI [of _ q']) (simp_all add: q'_def qn_key_def)
  next
    case False
    then have "qn_key q \<noteq> (b, qn_questionId x)" by (simp add: qn_key_def)
    then have "q \<in> set (et_questions (snd ?acc))"
      using Cons.prems(1) by (force simp: defer_question_def deferOpenQuestionToHuman_def set_update_where Let_def)
    then show ?thesis using Cons.IH [of ?acc] Cons.prems False by simp
  qed
qed simp

lemma joined_from_row:
  assumes "joinEscalation env b m k ids full st = Inr (h, st')" "q \<in> set (et_questions (es_tables st))"
  shows "\<exists>q' \<in> set (et_questions (es_tables st')). qn_key q' = qn_key q \<and> qn_status q' = qn_status q"
proof -
  define q' where "q' = (if qn_batchId q = b \<and> qn_questionId q \<in> set ids then q\<lparr>qn_escalationId := Some (eh_escalationId h)\<rparr> else q)"
  have "q' \<in> set (et_questions (es_tables st'))" using joinEscalation_tables [OF assms(1)] assms(2) by (auto simp: set_update_where q'_def)
  then show ?thesis by (intro bexI [of _ q']) (simp_all add: q'_def qn_key_def)
qed

text \<open>The questions of a batch that were open for the arbiter wait for the human once the batch is escalated.\<close>

lemma escalated_questions_pending:
  assumes "escalateBatchToHuman env i reason st = Inr (r, st')" "tables_ok (es_tables st)"
  shows "\<forall>q \<in> set (et_questions (es_tables st)). qn_batchId q = i \<and> qn_route q = ToArbiter \<and> qn_status q = QOpen \<longrightarrow>
    (\<exists>q' \<in> set (et_questions (es_tables st')). qn_key q' = qn_key q \<and> qn_status q' = QPendingHuman
      \<and> (\<exists>j m k. qn_escalationId q' = Some j \<and> (i, m, k) \<in> set (et_bcores (es_tables st')) \<and> (j, m, k, EPending) \<in> set (et_cores (es_tables st'))))"
proof (intro ballI impI)
  fix q assume q: "q \<in> set (et_questions (es_tables st))" "qn_batchId q = i \<and> qn_route q = ToArbiter \<and> qn_status q = QOpen"
  then have "i \<in> bt_id ` set (et_batches (es_tables st))" using assms(2) by (force simp: tables_ok_def question_ok_def et_bcores_def bt_core_def)
  then obtain b where b: "findBatch i (es_tables st) = Some b" by (cases "findBatch i (es_tables st)") (auto simp: findBatch_def find_None_iff)
  then have id: "bt_id b = i" using findBatch_core by blast
  define waiting where "waiting = filter (\<lambda>q. qn_route q = ToArbiter \<and> qn_status q = QOpen) (questionsOfBatch i (es_tables st))"
  obtain handed t where h: "fold (defer_question i reason) waiting ([], es_tables st) = (handed, t)" by fastforce
  have "q \<in> set waiting" using q by (simp add: waiting_def questionsOfBatch_def)
  then obtain q1 where q1: "q1 \<in> set (et_questions t)" "qn_key q1 = qn_key q" "qn_status q1 = QPendingHuman"
    using deferred_pending [of q "([], es_tables st)" i waiting reason] q h by auto
  have "es_tables st' = t \<or> (\<exists>j st2. es_tables st' = es_tables st2 \<and> joinEscalation env i (bt_managerId b) (bt_ticket b) (map qn_questionId handed) (Some reason) (st\<lparr>es_tables := t\<rparr>) = Inr (j, st2))"
    using assms(1) b id h unfolding waiting_def
    by (auto simp: escalateBatchToHuman_def handWaitingQuestionsToHuman_def split: option.splits if_splits)
  then obtain q' where q': "q' \<in> set (et_questions (es_tables st'))" "qn_key q' = qn_key q" "qn_status q' = QPendingHuman"
    using q1 joined_from_row [of env i "bt_managerId b" "bt_ticket b" "map qn_questionId handed" "Some reason" "st\<lparr>es_tables := t\<rparr>" _ _ q1] by fastforce
  have "tables_ok (es_tables st')" using escalateBatchToHuman_keeps [OF assms] by (simp add: keeps_def)
  then have "question_ok (set (et_bcores (es_tables st'))) (set (et_cores (es_tables st'))) q'" using q'(1) by (simp add: tables_ok_def)
  moreover have "qn_batchId q' = i" using q'(2) q(2) by (simp add: qn_key_def)
  ultimately have "\<exists>j m k. qn_escalationId q' = Some j \<and> (i, m, k) \<in> set (et_bcores (es_tables st')) \<and> (j, m, k, EPending) \<in> set (et_cores (es_tables st'))"
    using q'(3) by (auto simp: question_ok_def)
  with q' show "\<exists>q' \<in> set (et_questions (es_tables st')). qn_key q' = qn_key q \<and> qn_status q' = QPendingHuman
      \<and> (\<exists>j m k. qn_escalationId q' = Some j \<and> (i, m, k) \<in> set (et_bcores (es_tables st')) \<and> (j, m, k, EPending) \<in> set (et_cores (es_tables st')))" by blast
qed

section \<open>The number of arbiters of a ticket\<close>

definition spawned_on :: "string \<Rightarrow> string \<Rightarrow> 'w runner \<Rightarrow> nat" where
  "spawned_on m k st = length (filter (\<lambda>r. bt_managerId (sr_batch r) = m \<and> bt_ticket (sr_batch r) = k) (ar_spawned st))"

definition quota_ok :: "string \<Rightarrow> nat \<Rightarrow> 'w runner \<Rightarrow> bool" where
  "quota_ok m n st \<longleftrightarrow> (\<forall>k. spawned_on m k st \<le> arbiterRunsOfTicket m k (tables_of st) \<and> arbiterRunsOfTicket m k (tables_of st) \<le> n)"

text \<open>Whatever the project of a manager says at any time, it allows at most a number of arbiters for a ticket.\<close>

definition caps_runs :: "string \<Rightarrow> nat \<Rightarrow> 'w runner_env \<Rightarrow> bool" where
  "caps_runs m n env \<longleftrightarrow> (\<forall>w. ep_maxArbiterRunsPerTicket (escalationPolicyOf (rv_escalationOf env) w (case rv_get env w m of None \<Rightarrow> None | Some s \<Rightarrow> fs_projectId s)) \<le> n)"

lemma runs_by_rows: "arbiterRunsOfTicket m k t = sum_list (map (\<lambda>(i, m', k', n). n) (filter (\<lambda>(i, m', k', n). m' = m \<and> k' = k) (runs_of t)))"
  by (simp add: arbiterRunsOfTicket_def batchesOfTicket_def runs_of_def filter_map comp_def)

lemma quota_runs: "runs_of (tables_of st') = runs_of (tables_of st) \<Longrightarrow> ar_spawned st' = ar_spawned st \<Longrightarrow> quota_ok m n st' = quota_ok m n st"
  by (simp add: quota_ok_def spawned_on_def runs_by_rows)

lemma quota_quiet: "quiet (tables_of st) (tables_of st') \<Longrightarrow> ar_spawned st' = ar_spawned st \<Longrightarrow> quota_ok m n st' = quota_ok m n st"
  by (rule quota_runs) (simp_all add: quiet_def)

lemma quota_submit:
  assumes "submitBatch env batch (ar_ladder st) = Inr (r, es)" "tables_ok (tables_of st)"
  shows "quota_ok m n (st\<lparr>ar_ladder := es\<rparr>) = quota_ok m n st"
proof -
  obtain row where "et_batches (es_tables es) = et_batches (tables_of st) @ [row]" "bt_arbiterRuns row = 0" using submitBatch_rows [OF assms(1)] assms(2) by (auto simp: tables_of_def)
  then have "arbiterRunsOfTicket m k (es_tables es) = arbiterRunsOfTicket m k (tables_of st)" for k
    by (simp add: arbiterRunsOfTicket_def batchesOfTicket_def)
  then show ?thesis by (simp add: quota_ok_def spawned_on_def tables_of_def)
qed

text \<open>A run more is counted for the ticket of the batch, and for no other.\<close>

lemma runs_added:
  assumes "tables_ok t" "findBatch i t = Some b"
  shows "arbiterRunsOfTicket m k (addArbiterRun i t) = arbiterRunsOfTicket m k t + (if bt_managerId b = m \<and> bt_ticket b = k then 1 else 0)"
proof -
  have add: "sum_list (map bt_arbiterRuns (filter P (update_where (\<lambda>b. bt_id b = i) (\<lambda>b. b\<lparr>bt_arbiterRuns := bt_arbiterRuns b + 1\<rparr>) bs)))
      = sum_list (map bt_arbiterRuns (filter P bs)) + length (filter (\<lambda>b. bt_id b = i \<and> P b) bs)"
    if "\<And>b n. P (b\<lparr>bt_arbiterRuns := n\<rparr>) = P b" for P bs
    using that by (induction bs) (auto simp: update_where_def)
  have one: "filter (\<lambda>c. bt_id c = i \<and> P c) bs = (if P b then [b] else [])" if "distinct (map bt_id bs)" "b \<in> set bs" "bt_id b = i" for P bs
    using that by (induction bs) (auto simp: filter_empty_conv image_iff)
  have ids: "distinct (map bt_id (et_batches t))" using assms(1) by (simp add: tables_ok_def et_bcores_def bt_core_def comp_def)
  have b: "b \<in> set (et_batches t)" "bt_id b = i" using assms(2) by (auto simp: findBatch_def dest: find_SomeD)
  show ?thesis using add [of "\<lambda>b. bt_managerId b = m \<and> bt_ticket b = k" "et_batches t"] one [OF ids b, of "\<lambda>b. bt_managerId b = m \<and> bt_ticket b = k"]
    by (simp add: arbiterRunsOfTicket_def batchesOfTicket_def addArbiterRun_def)
qed

lemma quota_add:
  assumes "quota_ok m n st" "tables_ok (tables_of st)" "findBatch i (tables_of st) = Some b" "bt_managerId b = m \<Longrightarrow> arbiterRunsOfTicket m (bt_ticket b) (tables_of st) < n"
    and "tables_of st' = addArbiterRun i (tables_of st)" "ar_spawned st' = ar_spawned st \<or> (\<exists>r. sr_batch r = b \<and> ar_spawned st' = ar_spawned st @ [r])"
  shows "quota_ok m n st'"
  unfolding quota_ok_def
proof (intro allI)
  fix k
  have "spawned_on m k st' \<le> spawned_on m k st + (if bt_managerId b = m \<and> bt_ticket b = k then 1 else 0)" using assms(6) by (auto simp: spawned_on_def)
  then show "spawned_on m k st' \<le> arbiterRunsOfTicket m k (tables_of st') \<and> arbiterRunsOfTicket m k (tables_of st') \<le> n"
    using assms(1,4) runs_added [OF assms(2,3), of m k] unfolding quota_ok_def assms(5) by (auto split: if_splits dest: spec [of _ k])
qed

section \<open>Losing an arbiter\<close>

text \<open>The parts of a state that decide who cares for a batch.\<close>

definition same_care :: "'w runner \<Rightarrow> 'w runner \<Rightarrow> bool" where
  "same_care st st' \<longleftrightarrow> tables_of st' = tables_of st \<and> ar_runs st' = ar_runs st \<and> ar_closing st' = ar_closing st \<and> ar_awaited st' = ar_awaited st
     \<and> ar_refused st' = ar_refused st \<and> ar_stopped st' = ar_stopped st \<and> ar_spawned st' = ar_spawned st"

lemma same_care_refl [simp]: "same_care st st"
  by (simp add: same_care_def)

lemma same_care_trans: "same_care st st1 \<Longrightarrow> same_care st1 st2 \<Longrightarrow> same_care st st2"
  by (simp add: same_care_def)

lemma same_care_world [simp]: "same_care st (on_world f st)"
  by (simp add: same_care_def on_world_def tables_of_def)

lemma same_care_journal: "same_care st (journalMissingEarlierDecisionOnce env b q st)"
  by (simp add: same_care_def journalMissingEarlierDecisionOnce_def tables_of_def journalMissingEarlierDecision_def Let_def split: option.split)

lemma same_care_earlier: "earlierDecisionsOf env b qs st earlier = (e, st') \<Longrightarrow> same_care st st'"
proof (induction qs arbitrary: st earlier)
  case (Cons q qs)
  then show ?case using same_care_trans [OF same_care_journal] by (fastforce split: option.splits prod.splits if_splits simp: Let_def)
qed simp

lemma same_care_removeWorkspace [simp]: "same_care st (removeWorkspaceOf env s st)"
  by (auto simp: removeWorkspaceOf_def same_care_def on_world_def tables_of_def split: option.split)

text \<open>What the synchronous part of a loss of the batch \<open>b\<close> does: the batch is watched afterwards, handed to the human, or
  its hand-over threw.\<close>

definition advances :: "'w runner_env \<Rightarrow> string \<Rightarrow> 'w runner \<Rightarrow> 'w runner \<Rightarrow> bool" where
  "advances env b st st' \<longleftrightarrow>
     ar_runs st' = ar_runs st \<and> ar_closing st' = ar_closing st \<and> set (ar_awaited st) \<subseteq> set (ar_awaited st') \<and> set (ar_refused st) \<subseteq> set (ar_refused st')
     \<and> ar_stopped st' = ar_stopped st \<and> tables_ok (tables_of st') \<and> open_batches (tables_of st') \<subseteq> open_batches (tables_of st)
     \<and> (\<forall>m n. caps_runs m n env \<and> quota_ok m n st \<longrightarrow> quota_ok m n st')
     \<and> (\<not> ar_stopped st \<and> b \<in> open_batches (tables_of st') \<longrightarrow> b \<in> awaited_batch ` set (ar_awaited st') \<union> fst ` set (ar_refused st'))"

lemma failClosed_advances:
  assumes "tables_ok (tables_of st)" "failClosed env b reason st = (out, st')"
  shows "advances env b st st'"
proof (cases "escalateBatchToHuman (rv_ladder env) b reason (ar_ladder st)")
  case (Inl e)
  then show ?thesis using assms by (auto simp: failClosed_def advances_def quota_ok_def spawned_on_def tables_of_def Let_def)
next
  case (Inr x)
  obtain h es where x: "escalateBatchToHuman (rv_ladder env) b reason (ar_ladder st) = Inr (h, es)" using Inr by (cases x) auto
  have ok: "tables_ok (es_tables (ar_ladder st))" using assms(1) by (simp add: tables_of_def)
  have keep: "keeps (es_tables (ar_ladder st)) (es_tables es)" and quiet: "quiet (es_tables (ar_ladder st)) (es_tables es)" and "b \<notin> open_batches (es_tables es)"
    using escalateBatchToHuman_keeps [OF x ok] quiet_escalateBatchToHuman [OF x] escalated_batch_closed [OF x ok] by blast+
  moreover have "tables_of st' = es_tables es" "ar_runs st' = ar_runs st" "ar_closing st' = ar_closing st" "ar_awaited st' = ar_awaited st" "ar_refused st' = ar_refused st"
    "ar_stopped st' = ar_stopped st" "ar_spawned st' = ar_spawned st" using assms(2) x by (auto simp: failClosed_def tables_of_def Let_def)
  ultimately show ?thesis using quiet_open [OF keep quiet] quota_quiet [of st st'] quiet by (simp add: advances_def tables_of_def keeps_def)
qed

lemma spawnFor_awaits:
  "\<exists>a. awaited_batch a = bt_id b \<and> ar_awaited (spawnFor env b model st) = ar_awaited st @ [a] \<and> tables_of (spawnFor env b model st) = tables_of st
     \<and> ar_runs (spawnFor env b model st) = ar_runs st \<and> ar_closing (spawnFor env b model st) = ar_closing st
     \<and> ar_refused (spawnFor env b model st) = ar_refused st \<and> ar_stopped (spawnFor env b model st) = ar_stopped st
     \<and> (ar_spawned (spawnFor env b model st) = ar_spawned st \<or> (\<exists>r. sr_batch r = b \<and> ar_spawned (spawnFor env b model st) = ar_spawned st @ [r]))"
proof -
  have awaited: "same_care st st1 \<Longrightarrow> \<exists>a. awaited_batch a = bt_id b \<and> ar_awaited (await a0 (on_world f (st1\<lparr>ar_spawned := ar_spawned st1 @ rs\<rparr>))) = ar_awaited st @ [a]
     \<and> tables_of (await a0 (on_world f (st1\<lparr>ar_spawned := ar_spawned st1 @ rs\<rparr>))) = tables_of st
     \<and> ar_runs (await a0 (on_world f (st1\<lparr>ar_spawned := ar_spawned st1 @ rs\<rparr>))) = ar_runs st \<and> ar_closing (await a0 (on_world f (st1\<lparr>ar_spawned := ar_spawned st1 @ rs\<rparr>))) = ar_closing st
     \<and> ar_refused (await a0 (on_world f (st1\<lparr>ar_spawned := ar_spawned st1 @ rs\<rparr>))) = ar_refused st \<and> ar_stopped (await a0 (on_world f (st1\<lparr>ar_spawned := ar_spawned st1 @ rs\<rparr>))) = ar_stopped st
     \<and> (ar_spawned (await a0 (on_world f (st1\<lparr>ar_spawned := ar_spawned st1 @ rs\<rparr>))) = ar_spawned st
       \<or> (\<exists>r. sr_batch r = b \<and> ar_spawned (await a0 (on_world f (st1\<lparr>ar_spawned := ar_spawned st1 @ rs\<rparr>))) = ar_spawned st @ [r]))"
    if "awaited_batch a0 = bt_id b" "rs = [] \<or> (\<exists>r. rs = [r] \<and> sr_batch r = b)" for a0 st1 f rs using that by (auto simp: await_def on_world_def same_care_def tables_of_def)
  have plain: "await a0 st1 = await a0 (on_world (\<lambda>w. w) (st1\<lparr>ar_spawned := ar_spawned st1 @ []\<rparr>))" "on_world (\<lambda>w. w) st1 = st1" for a0 and st1 :: "'a runner" by (simp_all add: on_world_def)
  note lost = awaited [of "Losing (bt_id b)" "[]" _ "\<lambda>w. w", folded plain(1)]
  have earlier: "same_care st st2" if "earlierDecisionsOf env i qs (on_world g st) Map.empty = (e, st2)" for g e i qs and st2 :: "'a runner"
    using same_care_trans [OF same_care_world same_care_earlier [OF that]] .
  show ?thesis
    unfolding spawnFor_def Let_def by (auto split: option.split prod.split intro!: awaited lost simp: earlier)
qed

lemma launch_advances:
  assumes "tables_ok (tables_of st)" "launch env b st = (out, st')"
  shows "advances env b st st'"
proof (cases "ar_stopped st \<or> findBatch b (tables_of st) = None \<or> waitingQuestions b (tables_of st) = []")
  case True
  have "b \<notin> open_batches (tables_of st)" if "\<not> ar_stopped st"
  proof
    assume "b \<in> open_batches (tables_of st)"
    then obtain q where q: "q \<in> set (et_questions (tables_of st))" "qn_batchId q = b" "qn_route q = ToArbiter" "qn_status q = QOpen" by (auto simp: open_batches_iff)
    then have "q \<in> set (waitingQuestions b (tables_of st))" by (simp add: waitingQuestions_def questionsOfBatch_def)
    moreover have "b \<in> bt_id ` set (et_batches (tables_of st))" using assms(1) q by (force simp: tables_ok_def question_ok_def et_bcores_def bt_core_def)
    ultimately show False using True that by (auto simp: findBatch_def find_None_iff)
  qed
  moreover have "st' = st" using True assms(2) by (auto simp: launch_def split: if_splits option.splits)
  ultimately show ?thesis using assms(1) by (auto simp: advances_def)
next
  case False
  then obtain row where row: "findBatch b (tables_of st) = Some row" by auto
  then have id: "bt_id row = b" using findBatch_core by blast
  define policy where "policy = escalationPolicyOf (rv_escalationOf env) (world_of st) (case rv_get env (world_of st) (bt_managerId row) of None \<Rightarrow> None | Some s \<Rightarrow> fs_projectId s)"
  show ?thesis
  proof (cases "ep_maxArbiterRunsPerTicket policy \<le> arbiterRunsOfTicket (bt_managerId row) (bt_ticket row) (tables_of st)")
    case True
    then have "failClosed env b ARBITER_QUOTA_REASON st = (out, st')" using False row assms(2) by (auto simp: launch_def policy_def Let_def split: if_splits option.splits)
    then show ?thesis using failClosed_advances assms(1) by blast
  next
    case under: False
    define st1 where "st1 = st\<lparr>ar_ladder := on_tables (addArbiterRun b) (ar_ladder st)\<rparr>"
    have "st' = spawnFor env row (resolveModel (ev_text (rv_ladder env)) (rv_models env) (ep_arbiterModel policy)) st1"
      using under False row assms(2) by (auto simp: launch_def policy_def st1_def Let_def split: if_splits option.splits)
    with spawnFor_awaits [of row env _ st1] id obtain a where a: "awaited_batch a = b" "ar_awaited st' = ar_awaited st @ [a]" "tables_of st' = addArbiterRun b (tables_of st)"
      "ar_runs st' = ar_runs st" "ar_closing st' = ar_closing st" "ar_refused st' = ar_refused st" "ar_stopped st' = ar_stopped st"
      and spawned: "ar_spawned st' = ar_spawned st \<or> (\<exists>r. sr_batch r = row \<and> ar_spawned st' = ar_spawned st @ [r])"
      by (fastforce simp: st1_def tables_of_def)
    have "keeps (tables_of st) (addArbiterRun b (tables_of st))"
      using step_keeps [of "ar_ladder st" "(rv_ladder env, CountRun b)"] assms(1) by (simp add: tables_of_def escalation_step_def)
    then have "tables_ok (tables_of st')" using a(3) by (simp add: keeps_def)
    moreover have "open_batches (tables_of st') = open_batches (tables_of st)" by (simp add: set_eq_iff open_batches_iff a(3))
    moreover have "quota_ok m n st'" if "caps_runs m n env" "quota_ok m n st" for m n
    proof (rule quota_add [OF that(2) assms(1) row _ a(3) spawned])
      assume m: "bt_managerId row = m"
      then have "ep_maxArbiterRunsPerTicket policy \<le> n" using that(1) by (simp add: caps_runs_def policy_def)
      then show "arbiterRunsOfTicket m (bt_ticket row) (tables_of st) < n" using under m by simp
    qed
    ultimately show ?thesis using a by (auto simp: advances_def)
  qed
qed

lemma onArbiterLost_advances:
  assumes "tables_ok (tables_of st)"
  shows "advances env b st (snd (onArbiterLost env b st))"
proof (cases "ar_stopped st")
  case True
  then show ?thesis using assms by (simp add: onArbiterLost_def advances_def)
next
  case False
  define st1 where "st1 = st\<lparr>ar_failures := (ar_failures st)(b \<mapsto> opt_default 0 (ar_failures st b) + 1)\<rparr>"
  have ok: "tables_ok (tables_of st1)" using assms by (simp add: st1_def tables_of_def)
  have "advances env b st1 st'" if "snd (onArbiterLost env b st) = st'" for st'
    using that False failClosed_advances [OF ok, of env b ARBITER_UNAVAILABLE_REASON] launch_advances [OF ok, of env b]
    by (auto simp: onArbiterLost_def st1_def Let_def split: if_splits) (metis prod.collapse)+
  moreover have "quota_ok m n st1 = quota_ok m n st" for m n by (rule quota_runs) (simp_all add: st1_def tables_of_def)
  ultimately show ?thesis by (simp add: advances_def st1_def tables_of_def)
qed

section \<open>Who cares for a batch\<close>

text \<open>A batch is cared for while an arbiter is tracked for it, while a method awaits its arbiter or has still to see the loss
  of it, and while the retirement of its arbiter awaits the close of the session.\<close>

definition cared :: "'w runner \<Rightarrow> string set" where
  "cared st = rn_batchId ` ran (ar_runs st) \<union> awaited_batch ` set (ar_awaited st) \<union> {b. \<exists>c \<in> set (ar_closing st). cl_thenLost c = Some b}"

definition watched :: "'w runner \<Rightarrow> bool" where
  "watched st \<longleftrightarrow> ar_stopped st \<or> (\<forall>b \<in> open_batches (tables_of st). b \<in> cared st \<or> b \<in> fst ` set (ar_refused st))"

lemma tables_updates [simp]:
  "tables_of (st\<lparr>ar_runs := a\<rparr>) = tables_of st" "tables_of (st\<lparr>ar_awaited := b\<rparr>) = tables_of st" "tables_of (st\<lparr>ar_closing := c\<rparr>) = tables_of st"
  "tables_of (st\<lparr>ar_retries := d\<rparr>) = tables_of st" "tables_of (st\<lparr>ar_workspaces := e\<rparr>) = tables_of st" "tables_of (st\<lparr>ar_failures := f\<rparr>) = tables_of st"
  "tables_of (await g st) = tables_of st" "tables_of (on_world h st) = tables_of st" "tables_of (removeWorkspaceOf env s st) = tables_of st"
  by (simp_all add: tables_of_def await_def on_world_def removeWorkspaceOf_def split: option.split)

lemma spawned_kept [simp]:
  "ar_spawned (await a st) = ar_spawned st" "ar_spawned (on_world f st) = ar_spawned st" "ar_spawned (removeWorkspaceOf env s st) = ar_spawned st"
  "ar_spawned (track s b m st) = ar_spawned st" "ar_spawned (closeQuietly env s i c st) = ar_spawned st"
  by (simp_all add: await_def on_world_def removeWorkspaceOf_def track_def closeQuietly_def Let_def split: option.split)

lemma spawned_kept_too [simp]: "ar_spawned (retire env s st) = ar_spawned st" "ar_spawned (noteRefusedOpinion env s st) = ar_spawned st" "ar_spawned (settle env s st) = ar_spawned st"
  by (simp_all add: retire_def settle_def noteRefusedOpinion_def forget_def Let_def split: option.split)

lemma cared_same: "same_care st st' \<Longrightarrow> cared st' = cared st"
  by (simp add: same_care_def cared_def)

lemma watched_mono:
  assumes "watched st" "ar_stopped st \<longrightarrow> ar_stopped st'" "open_batches (tables_of st') \<subseteq> open_batches (tables_of st) \<union> B" "set (ar_refused st) \<subseteq> set (ar_refused st')"
    "cared st \<subseteq> cared st' \<union> C" "\<not> ar_stopped st' \<Longrightarrow> \<forall>b \<in> B \<union> C. b \<in> open_batches (tables_of st') \<longrightarrow> b \<in> cared st' \<or> b \<in> fst ` set (ar_refused st')"
  shows "watched st'"
proof -
  have "b \<in> cared st'" if run: "\<not> ar_stopped st'" and b: "b \<in> open_batches (tables_of st')" and unrefused: "b \<notin> fst ` set (ar_refused st')" for b
  proof (cases "b \<in> B \<union> C")
    case True
    with assms(6) [OF run] b unrefused show ?thesis by blast
  next
    case False
    then have "b \<in> open_batches (tables_of st)" "\<not> ar_stopped st" "b \<notin> fst ` set (ar_refused st)" using assms(2-4) run b unrefused by auto
    then have "b \<in> cared st" using assms(1) by (auto simp: watched_def)
    with assms(5) False show ?thesis by blast
  qed
  then show ?thesis unfolding watched_def by blast
qed

lemma advances_cared: "advances env b st st' \<Longrightarrow> cared st \<subseteq> cared st'"
  by (auto simp: advances_def cared_def)

lemma watched_advances:
  assumes "advances env b st1 st'" "watched st" "ar_stopped st1 = ar_stopped st" "ar_refused st1 = ar_refused st" "open_batches (tables_of st1) \<subseteq> insert b (open_batches (tables_of st))"
    "cared st \<subseteq> insert b (cared st1)"
  shows "watched st'"
proof (rule watched_mono [of st st' "{b}" "{b}"])
  show "cared st \<subseteq> cared st' \<union> {b}" using advances_cared [OF assms(1)] assms(6) by blast
  show "\<forall>b \<in> {b} \<union> {b}. b \<in> open_batches (tables_of st') \<longrightarrow> b \<in> cared st' \<or> b \<in> fst ` set (ar_refused st')" if "\<not> ar_stopped st'"
    using assms(1) that by (auto simp: advances_def cared_def)
qed (use assms in \<open>auto simp: advances_def\<close>)

lemma set_without_nth: "i < length xs \<Longrightarrow> set xs = insert (xs ! i) (set (without_nth i xs))"
  by (simp add: without_nth_def) (metis id_take_nth_drop list.simps(15) set_append Un_insert_right)

lemma ran_without: "m x = Some y \<Longrightarrow> ran m \<subseteq> insert y (ran (m(x := None)))"
  unfolding ran_def by (auto simp: fun_upd_def) (metis option.inject)

lemma cared_forget:
  assumes "ar_runs st s = Some r"
  shows "cared st \<subseteq> insert (rn_batchId r) (cared (st\<lparr>ar_runs := (ar_runs st)(s := None)\<rparr>))"
  using ran_without [of "ar_runs st" s r] assms by (auto simp: cared_def)

lemma tables_closeQuietly [simp]:
  "tables_of (closeQuietly env s n b st) = tables_of st" "ar_stopped (closeQuietly env s n b st) = ar_stopped st" "ar_refused (closeQuietly env s n b st) = ar_refused st"
  "cared (closeQuietly env s n b st) = cared st \<union> set_option b"
  by (auto simp: closeQuietly_def on_world_def tables_of_def cared_def Let_def)

lemma retire_watched:
  "tables_of (retire env s st) = tables_of st" "ar_stopped (retire env s st) = ar_stopped st" "ar_refused (retire env s st) = ar_refused st" "cared st \<subseteq> cared (retire env s st)"
proof -
  have "cared st = cared (st\<lparr>ar_runs := (ar_runs st)(s := None)\<rparr>)" if "ar_runs st s = None" using that by (simp add: cared_def fun_upd_idem)
  then show "cared st \<subseteq> cared (retire env s st)" using cared_forget [of st s]
    by (fastforce simp: retire_def forget_def split: option.split)
qed (simp_all add: retire_def forget_def split: option.split)

lemma note_watched:
  "tables_of (noteRefusedOpinion env s st) = tables_of st" "ar_stopped (noteRefusedOpinion env s st) = ar_stopped st" "ar_refused (noteRefusedOpinion env s st) = ar_refused st"
  "cared st \<subseteq> cared (noteRefusedOpinion env s st)"
proof -
  have same: "cared (st\<lparr>ar_runs := (ar_runs st)(s \<mapsto> r\<lparr>rn_refusedOpinions := n\<rparr>)\<rparr>) = cared st" if "ar_runs st s = Some r" for r n
  proof -
    have "rn_batchId ` ran ((ar_runs st)(s \<mapsto> r\<lparr>rn_refusedOpinions := n\<rparr>)) = rn_batchId ` ran (ar_runs st)"
    proof (rule set_eqI)
      fix b
      have "b \<in> rn_batchId ` ran m \<longleftrightarrow> (\<exists>a x. m a = Some x \<and> rn_batchId x = b)" for m :: "string \<Rightarrow> run option" by (auto simp: ran_def)
      then show "b \<in> rn_batchId ` ran ((ar_runs st)(s \<mapsto> r\<lparr>rn_refusedOpinions := n\<rparr>)) \<longleftrightarrow> b \<in> rn_batchId ` ran (ar_runs st)" using that by auto (metis option.inject)
    qed
    then show ?thesis by (simp add: cared_def)
  qed
  then show "cared st \<subseteq> cared (noteRefusedOpinion env s st)"
    using retire_watched(4) by (fastforce simp: noteRefusedOpinion_def Let_def split: option.split)
qed (simp_all add: noteRefusedOpinion_def retire_watched Let_def split: option.split)

section \<open>Events\<close>

text \<open>What every event keeps.\<close>

definition sound_step :: "'w runner_env \<Rightarrow> 'w runner \<Rightarrow> 'w runner \<Rightarrow> bool" where
  "sound_step env st st' \<longleftrightarrow> tables_ok (tables_of st') \<and> (\<forall>m n. caps_runs m n env \<and> quota_ok m n st \<longrightarrow> quota_ok m n st') \<and> (watched st \<longrightarrow> watched st')"

lemma sound_quiet:
  assumes "tables_ok (tables_of st)" "tables_of st' = tables_of st" "ar_stopped st' = ar_stopped st" "ar_refused st' = ar_refused st" "cared st \<subseteq> cared st'" "ar_spawned st' = ar_spawned st"
  shows "sound_step env st st'"
  using assms watched_mono [of st st' "{}" "{}"] quota_runs [of st' st] by (simp add: sound_step_def)

lemma sound_advances:
  assumes "advances env b st1 st'" "tables_of st1 = tables_of st" "ar_stopped st1 = ar_stopped st" "ar_refused st1 = ar_refused st" "cared st \<subseteq> insert b (cared st1)" "ar_spawned st1 = ar_spawned st"
  shows "sound_step env st st'"
  using assms watched_advances [OF assms(1), of st] quota_runs [of st1 st] by (auto simp: sound_step_def advances_def)

lemma kept_flags [simp]:
  "ar_stopped (await a st) = ar_stopped st" "ar_refused (await a st) = ar_refused st" "ar_stopped (on_world f st) = ar_stopped st" "ar_refused (on_world f st) = ar_refused st"
  "ar_stopped (removeWorkspaceOf env s st) = ar_stopped st" "ar_refused (removeWorkspaceOf env s st) = ar_refused st"
  "ar_stopped (track s b m st) = ar_stopped st" "ar_refused (track s b m st) = ar_refused st" "tables_of (track s b m st) = tables_of st"
  by (simp_all add: await_def on_world_def removeWorkspaceOf_def track_def split: option.split)

lemma cared_ladder [simp]: "cared (st\<lparr>ar_ladder := es\<rparr>) = cared st"
  by (simp add: cared_def)

lemma ran_track:
  assumes "m s = None \<or> map_option g (m s) = Some b" "g r = b"
  shows "insert b (g ` ran m) \<subseteq> g ` ran (m(s \<mapsto> r))"
proof -
  have "g x \<in> g ` ran (m(s \<mapsto> r))" if "m a = Some x" for a x
  proof (cases "a = s")
    case True
    then have "g x = g r" using assms that by auto
    then show ?thesis by (auto simp: ran_def)
  next
    case False
    then have "(m(s \<mapsto> r)) a = Some x" using that by simp
    then show ?thesis by (blast intro: ranI)
  qed
  moreover have "b \<in> g ` ran (m(s \<mapsto> r))" using assms(2) by (force simp: ran_def)
  moreover have "ran m = {x. \<exists>a. m a = Some x}" by (simp add: ran_def)
  ultimately show ?thesis by blast
qed

lemma submit_sound:
  assumes "tables_ok (tables_of st)"
  shows "sound_step env st (snd (submit_plan_questions env caller ticket planNoteId qs st))"
proof -
  have "sound_step env st st" using assms by (simp add: sound_step_def)
  moreover have "sound_step env st (snd (launch env (sq_batchId r) (st\<lparr>ar_ladder := es\<rparr>)))"
    if sub: "submitBatch (rv_ladder env) batch (ar_ladder st) = Inr (r, es)" for batch r es
  proof -
    have ok: "tables_ok (es_tables (ar_ladder st))" using assms by (simp add: tables_of_def)
    let ?st = "st\<lparr>ar_ladder := es\<rparr>"
    have ok1: "tables_ok (tables_of ?st)" using submitBatch_keeps [OF sub ok] by (simp add: tables_of_def keeps_def)
    obtain out st' where l: "launch env (sq_batchId r) ?st = (out, st')" by fastforce
    note adv = launch_advances [OF ok1 l]
    have "watched st'" if "watched st"
      using watched_advances [OF adv that] submit_open [OF sub ok] by (simp add: tables_of_def subset_insertI)
    moreover have "quota_ok m n ?st = quota_ok m n st" for m n using quota_submit [OF sub assms] .
    ultimately show ?thesis using adv l by (simp add: sound_step_def advances_def)
  qed
  ultimately show ?thesis
    by (auto simp: submit_plan_questions_def Let_def case_prod_beta split: option.split sum.split)
qed

lemma report_sound:
  assumes "tables_ok (tables_of st)"
  shows "sound_step env st (snd (report_arbiter_opinion env caller parsed st))"
proof -
  have same: "sound_step env st st" "sound_step env st (noteRefusedOpinion env s st)" for s
    using assms by (simp add: sound_step_def, intro sound_quiet [OF assms note_watched]) simp
  have "sound_step env st (settle env s (st\<lparr>ar_ladder := es\<rparr>))"
    if rec: "recordArbiterOpinion (rv_ladder env) m s opinion (ar_ladder st) = Inr (r, es)" and run: "ar_runs st s = Some run" "rn_batchId run = ao_batchId opinion" for m s opinion r es run
  proof -
    let ?st = "settle env s (st\<lparr>ar_ladder := es\<rparr>)"
    have ok: "tables_ok (es_tables (ar_ladder st))" using assms by (simp add: tables_of_def)
    note keep = recordArbiterOpinion_keeps [OF rec ok] and quiet = quiet_recordArbiterOpinion [OF rec]
    have t: "tables_of ?st = es_tables es" "ar_stopped ?st = ar_stopped st" "ar_refused ?st = ar_refused st"
      using run by (simp_all add: settle_def forget_def) (simp add: tables_of_def)
    have closed: "ao_batchId opinion \<notin> open_batches (tables_of ?st)"
      using recorded_opinion_closes [OF rec] by (auto simp: t(1) open_batches_iff questionsOfBatch_def)
    have "cared st \<subseteq> cared ?st \<union> {ao_batchId opinion}"
      using cared_forget [OF run(1)] run by (auto simp: settle_def forget_def cared_def closeQuietly_def on_world_def Let_def)
    with closed have "watched ?st" if "watched st"
      using watched_mono [OF that, of ?st "{}" "{ao_batchId opinion}"] quiet_open [OF keep quiet] t by (simp add: tables_of_def)
    then show ?thesis using keep quota_quiet [of st ?st] quiet t(1) by (simp add: sound_step_def keeps_def tables_of_def)
  qed
  then show ?thesis using same
    by (auto simp: report_arbiter_opinion_def split: option.splits sum.splits)
qed

lemma created_sound:
  assumes "tables_ok (tables_of st)" "can_happen (Created i s) st"
  shows "sound_step env st (handle_event env (Created i s) st)"
proof -
  obtain b workspace manager where a: "i < length (ar_awaited st)" "ar_awaited st ! i = Creating b workspace manager" "ar_runs st s = None \<or> map_option rn_batchId (ar_runs st s) = Some b"
    using assms(2) by (auto split: awaited.splits)
  let ?st = "st\<lparr>ar_awaited := without_nth i (ar_awaited st)\<rparr>"
  have less: "cared st \<subseteq> insert b (cared ?st)" using set_without_nth [OF a(1)] a(2) by (auto simp: cared_def)
  have e: "handle_event env (Created i s) st = session_created env b workspace manager s ?st" using a(2) by simp
  let ?st1 = "?st\<lparr>ar_workspaces := (ar_workspaces ?st)(s \<mapsto> workspace)\<rparr>"
  have c1: "cared ?st1 = cared ?st" by (simp add: cared_def)
  have lost: "cared (await (Losing b) (removeWorkspaceOf env s ?st1)) = insert b (cared ?st)"
    using cared_same [OF same_care_removeWorkspace [of ?st1 env s]] by (auto simp: cared_def await_def removeWorkspaceOf_def on_world_def split: option.splits)
  have tracked: "insert b (cared ?st) \<subseteq> cared (track s b manager ?st1)" if "\<not> ar_stopped st"
  proof -
    define r where "r = \<lparr>rn_batchId = b, rn_managerId = mr_sessionId manager, rn_expiresInMs = expiryMsOf manager, rn_refusedOpinions = 0\<rparr>"
    have "insert b (rn_batchId ` ran (ar_runs st)) \<subseteq> rn_batchId ` ran ((ar_runs st)(s \<mapsto> r))" using ran_track [of "ar_runs st" s rn_batchId b r] a(3) by (simp add: r_def)
    moreover have "ar_runs (track s b manager ?st1) = (ar_runs st)(s \<mapsto> r)" "ar_closing (track s b manager ?st1) = ar_closing ?st" "ar_awaited (track s b manager ?st1) = ar_awaited ?st"
      using that by (simp_all add: track_def r_def)
    ultimately show ?thesis unfolding cared_def by auto
  qed
  have stopped: "sound_step env st st'" if "tables_of st' = tables_of st" "ar_stopped st" "ar_stopped st'" "ar_spawned st' = ar_spawned st" for st' :: "'a runner"
    using assms(1) that quota_runs [of st' st] by (simp add: sound_step_def watched_def)
  show ?thesis
  proof (cases "ar_stopped st")
    case True
    then show ?thesis unfolding e by (intro stopped) (simp_all add: session_created_def)
  next
    case False
    have "sound_step env st (await (Losing b) (removeWorkspaceOf env s ?st1))" using less lost by (intro sound_quiet [OF assms(1)]) simp_all
    moreover have "sound_step env st (track s b manager ?st1)" using less tracked [OF False] by (intro sound_quiet [OF assms(1)]) auto
    ultimately show ?thesis using False unfolding e session_created_def Let_def by simp
  qed
qed

lemma cared_await [simp]: "cared (await a st) = insert (awaited_batch a) (cared st)"
  by (auto simp: cared_def await_def)

lemma cared_world [simp]: "cared (on_world f st) = cared st"
  by (simp add: cared_def on_world_def)

lemma cared_retries [simp]: "cared (st\<lparr>ar_retries := r\<rparr>) = cared st"
  by (simp add: cared_def)

lemma cared_without: "i < length (ar_awaited st) \<Longrightarrow> cared st \<subseteq> insert (awaited_batch (ar_awaited st ! i)) (cared (st\<lparr>ar_awaited := without_nth i (ar_awaited st)\<rparr>))"
  using set_without_nth [of i "ar_awaited st"] by (auto simp: cared_def)

lemma close_settles_sound:
  assumes "tables_ok (tables_of st)" "i < length (ar_closing st)"
  shows "sound_step env st (handle_event env (CloseSettles i isClosed) st)"
proof (rule sound_quiet [OF assms(1)])
  let ?c = "ar_closing st ! i"
  have "cared st \<subseteq> cared (st\<lparr>ar_closing := without_nth i (ar_closing st)\<rparr>) \<union> set_option (cl_thenLost ?c)"
    using set_without_nth [OF assms(2)] by (auto simp: cared_def)
  then show "cared st \<subseteq> cared (handle_event env (CloseSettles i isClosed) st)" by (auto simp: close_settles_def Let_def cared_def await_def split: option.split)
qed (simp_all add: close_settles_def Let_def split: option.split)

lemma closed_sound:
  assumes "tables_ok (tables_of st)" "can_happen (ArbiterClosed s isDaemonShutdown) st"
  shows "sound_step env st (onSessionClosed env s isDaemonShutdown st)"
proof -
  define st1 where "st1 = (if isDaemonShutdown then st else removeWorkspaceOf env s st)"
  have same: "same_care st st1" by (simp add: st1_def)
  let ?st = "st1\<lparr>ar_runs := (ar_runs st1)(s := None)\<rparr>"
  have flags: "tables_of ?st = tables_of st" "ar_stopped ?st = ar_stopped st" "ar_refused ?st = ar_refused st" "ar_spawned ?st = ar_spawned st" using same by (simp_all add: same_care_def)
  show ?thesis
  proof (cases "ar_runs st s")
    case None
    then have "cared ?st = cared st1" using same by (simp add: cared_def same_care_def fun_upd_idem)
    with flags same None show ?thesis using sound_quiet [OF assms(1), of ?st] cared_same [OF same]
      by (simp add: onSessionClosed_def forget_def st1_def [symmetric] same_care_def)
  next
    case (Some r)
    then have run: "ar_runs st1 s = Some r" using same by (simp add: same_care_def)
    show ?thesis
    proof (cases isDaemonShutdown)
      case True
      then show ?thesis using assms Some by (auto simp: onSessionClosed_def forget_def sound_step_def watched_def quota_ok_def spawned_on_def)
    next
      case False
      have "advances env (rn_batchId r) ?st (snd (onArbiterLost env (rn_batchId r) ?st))" using onArbiterLost_advances flags(1) assms(1) by metis
      then have "sound_step env st (snd (onArbiterLost env (rn_batchId r) ?st))"
        using sound_advances flags cared_forget [OF run] cared_same [OF same] by metis
      then show ?thesis using False run by (simp add: onSessionClosed_def forget_def st1_def Let_def)
    qed
  qed
qed

lemma other_sound:
  assumes "tables_ok (tables_of st)" "can_happen (OtherCall op) st"
  shows "sound_step env st (handle_event env (OtherCall op) st)"
proof -
  let ?es = "escalation_step (rv_ladder env, op) (ar_ladder st)"
  have "no_submission op" using assms(2) by (auto simp: no_submission_def split: escalation_op.splits)
  then have quiet: "quiet (tables_of st) (es_tables ?es)" unfolding tables_of_def by (rule quiet_step)
  have keep: "keeps (tables_of st) (es_tables ?es)" using step_keeps [of "ar_ladder st"] assms(1) by (simp add: tables_of_def)
  have "watched (st\<lparr>ar_ladder := ?es\<rparr>)" if "watched st"
    using watched_mono [OF that, of "st\<lparr>ar_ladder := ?es\<rparr>" "{}" "{}"] quiet_open [OF keep quiet] by (simp add: tables_of_def)
  then show ?thesis using keep quota_quiet [of st "st\<lparr>ar_ladder := ?es\<rparr>"] quiet by (simp add: sound_step_def keeps_def tables_of_def)
qed

lemma event_sound:
  assumes "tables_ok (tables_of st)" "ev \<noteq> Boot" "ev \<noteq> RecoverNow"
  shows "sound_step env st (runner_step (env, ev) st)"
proof (cases "can_happen ev st")
  case can: True
  have "sound_step env st (handle_event env ev st)"
  proof (cases ev)
    case (Created i s)
    then show ?thesis using created_sound [OF assms(1)] can by blast
  next
    case (NotCreated i)
    then obtain b workspace manager where a: "i < length (ar_awaited st)" "ar_awaited st ! i = Creating b workspace manager" using can by (auto split: awaited.splits)
    show ?thesis using NotCreated cared_without [OF a(1)] a(2) by (intro sound_quiet [OF assms(1)]) (simp_all add: session_not_created_def)
  next
    case (SeesLoss i)
    let ?st = "st\<lparr>ar_awaited := without_nth i (ar_awaited st)\<rparr>" and ?b = "awaited_batch (ar_awaited st ! i)"
    have "advances env ?b ?st (snd (onArbiterLost env ?b ?st))" using onArbiterLost_advances [of ?st] assms(1) by simp
    then show ?thesis using SeesLoss sound_advances [of env ?b ?st _ st] cared_without [of i st] can by simp
  next
    case (CloseSettles i isClosed)
    then show ?thesis using close_settles_sound [OF assms(1)] can by auto
  next
    case (RetryRings i)
    then show ?thesis by (intro sound_quiet [OF assms(1)]) simp_all
  next
    case (ExpiryRings s)
    then show ?thesis using retire_watched by (intro sound_quiet [OF assms(1)]) simp_all
  next
    case StopNow
    then show ?thesis using assms(1) by (simp add: stop_runner_def sound_step_def watched_def tables_of_def quota_ok_def spawned_on_def)
  qed (use assms can submit_sound report_sound closed_sound other_sound in \<open>simp_all only: handle_event.simps, simp_all\<close>)
  then show ?thesis using can by (simp add: runner_step_def)
qed (use assms in \<open>simp add: runner_step_def sound_step_def\<close>)

section \<open>Recovery\<close>

text \<open>What a recovery relies on: the sessions keep their names while it runs, and the tags in the names of the arbiters tell
  the waiting batches apart.\<close>

definition names_kept :: "'w runner_env \<Rightarrow> bool" where
  "names_kept env \<longleftrightarrow> (\<forall>w w' f f'. f \<in> set (rv_list env w) \<and> f' \<in> set (rv_list env w') \<and> fs_id f = fs_id f' \<longrightarrow> fs_name f = fs_name f')"

definition tags_apart :: "string set \<Rightarrow> bool" where
  "tags_apart ids \<longleftrightarrow> (\<forall>b \<in> ids. \<forall>b' \<in> ids. ends_with (batchTagOf b) (batchTagOf b') \<longrightarrow> b = b')"

lemma ends_with_both: "ends_with s p \<Longrightarrow> ends_with s p' \<Longrightarrow> ends_with p p' \<or> ends_with p' p"
  unfolding ends_with_def starts_with_prefix using prefix_same_cases by blast

text \<open>A batch the recovery has been through.\<close>

definition recovered :: "'w runner_env \<Rightarrow> 'w runner \<Rightarrow> string \<Rightarrow> bool" where
  "recovered env st b \<longleftrightarrow>
     b \<in> open_batches (tables_of st) \<longrightarrow> b \<in> awaited_batch ` set (ar_awaited st) \<or> b \<in> fst ` set (ar_refused st)
     \<or> (\<exists>s r. ar_runs st s = Some r \<and> rn_batchId r = b \<and> (\<exists>w. \<exists>f \<in> set (rv_list env w). fs_id f = s \<and> ends_with (fs_name f) (batchTagOf b)))"

lemma recovered_run:
  "\<lbrakk>ar_runs st s = Some r; rn_batchId r = b; f \<in> set (rv_list env w); fs_id f = s; ends_with (fs_name f) (batchTagOf b)\<rbrakk> \<Longrightarrow> recovered env st b"
  unfolding recovered_def by blast

lemma recovered_cared: "recovered env st b \<Longrightarrow> b \<in> open_batches (tables_of st) \<Longrightarrow> b \<in> cared st \<or> b \<in> fst ` set (ar_refused st)"
  unfolding recovered_def cared_def by (auto intro: ranI)

lemma recovered_advances: "advances env b st st' \<Longrightarrow> recovered env st b' \<Longrightarrow> recovered env st' b'"
  unfolding advances_def recovered_def by (elim conjE) (simp, blast)

definition recovers :: "'w runner_env \<Rightarrow> 'w runner \<Rightarrow> 'w runner \<Rightarrow> bool" where
  "recovers env st st' \<longleftrightarrow> tables_ok (tables_of st') \<and> (\<forall>m n. caps_runs m n env \<and> quota_ok m n st \<longrightarrow> quota_ok m n st')
     \<and> ar_stopped st' = ar_stopped st \<and> open_batches (tables_of st') \<subseteq> open_batches (tables_of st)"

lemma recovers_trans: "recovers env st st1 \<Longrightarrow> recovers env st1 st2 \<Longrightarrow> recovers env st st2"
  by (auto simp: recovers_def)

lemma quota_track: "quota_ok m n (track s b manager st) = quota_ok m n st"
  by (rule quota_runs) simp_all

lemma recover_batch_recovers:
  assumes "tables_ok (tables_of st)"
  shows "recovers env st (recover_batch env b st)"
  using assms onArbiterLost_advances [OF assms, of env b] by (auto simp: recover_batch_def recovers_def advances_def quota_track split: option.split)

lemma recover_batch_recovered:
  assumes "tables_ok (tables_of st)" "\<not> ar_stopped st" "names_kept env" "tags_apart ids" "b \<in> ids"
  shows "recovered env (recover_batch env b st) b" "b' \<in> ids \<Longrightarrow> recovered env st b' \<Longrightarrow> recovered env (recover_batch env b st) b'"
proof -
  have adv: "advances env b st (snd (onArbiterLost env b st))" using onArbiterLost_advances [OF assms(1)] .
  have "recovered env (recover_batch env b st) b \<and> (b' \<in> ids \<longrightarrow> recovered env st b' \<longrightarrow> recovered env (recover_batch env b st) b')" for b'
  proof (cases "findBatch b (tables_of st)")
    case None
    then have "b \<notin> open_batches (tables_of st)" using assms(1) by (force simp: open_batches_iff findBatch_def find_None_iff tables_ok_def question_ok_def et_bcores_def bt_core_def)
    then show ?thesis using None by (simp add: recover_batch_def recovered_def)
  next
    case (Some row)
    let ?is = "\<lambda>s. fs_role s = Some ARBITER_ROLE \<and> fs_parentId s = Some (bt_managerId row) \<and> \<not> fs_closed s \<and> ends_with (fs_name s) (batchTagOf b)"
    let ?lost = "snd (onArbiterLost env b st)"
    let ?live = "find ?is (rv_list env (world_of st))"
    consider f manager where "recover_batch env b st = track (fs_id f) b manager st" "f \<in> set (rv_list env (world_of st))" "?is f" | "recover_batch env b st = ?lost"
    proof (cases "rv_manager env (world_of st) (bt_managerId row) = None \<or> ?live = None")
      case True
      then have "recover_batch env b st = ?lost" using Some by (auto simp: recover_batch_def split: option.split)
      then show ?thesis by (rule that(2))
    next
      case False
      then obtain manager f where m: "rv_manager env (world_of st) (bt_managerId row) = Some manager" "?live = Some f" by auto
      then have "recover_batch env b st = track (fs_id f) b manager st" using Some by (simp add: recover_batch_def)
      then show ?thesis using find_SomeD [OF m(2)] that(1) by blast
    qed
    then show ?thesis
    proof cases
      case (1 f manager)
      have "recovered env (track (fs_id f) b manager st) b"
        by (rule recovered_run [of _ "fs_id f", OF _ _ 1(2)]) (use 1(3) assms(2) in \<open>auto simp: track_def\<close>)
      moreover have "recovered env (track (fs_id f) b manager st) b'" if "b' \<in> ids" "recovered env st b'" "b' \<noteq> b"
      proof -
        have "fs_id g \<noteq> fs_id f" if "g \<in> set (rv_list env w)" "ends_with (fs_name g) (batchTagOf b')" for g w
        proof
          assume "fs_id g = fs_id f"
          then have "fs_name g = fs_name f" using assms(3) 1(2) that(1) unfolding names_kept_def by blast
          then show False using ends_with_both 1(3) that(2) assms(4,5) \<open>b' \<in> ids\<close> \<open>b' \<noteq> b\<close> unfolding tags_apart_def by metis
        qed
        then have "ar_runs (track (fs_id f) b manager st) (fs_id g) = ar_runs st (fs_id g)" if "g \<in> set (rv_list env w)" "ends_with (fs_name g) (batchTagOf b')" for g w
          using that by (simp add: track_def)
        moreover have "tables_of (track (fs_id f) b manager st) = tables_of st" "ar_awaited (track (fs_id f) b manager st) = ar_awaited st"
          "ar_refused (track (fs_id f) b manager st) = ar_refused st" by (simp_all add: track_def)
        ultimately show ?thesis using that(2) unfolding recovered_def by metis
      qed
      ultimately show ?thesis using 1(1) by auto
    next
      case 2
      have "recovered env ?lost b" using adv assms(2) unfolding advances_def recovered_def by auto
      then show ?thesis using 2 recovered_advances [OF adv] by simp
    qed
  qed
  then show "recovered env (recover_batch env b st) b" "b' \<in> ids \<Longrightarrow> recovered env st b' \<Longrightarrow> recovered env (recover_batch env b st) b'" by blast+
qed

lemma recover_fold_recovers: "tables_ok (tables_of st) \<Longrightarrow> recovers env st (fold (recover_batch env) bs st)"
proof (induction bs arbitrary: st)
  case (Cons x bs)
  note one = recover_batch_recovers [OF Cons.prems, of env x]
  then have "recovers env (recover_batch env x st) (fold (recover_batch env) bs (recover_batch env x st))" by (intro Cons.IH) (simp add: recovers_def)
  with one show ?case using recovers_trans by simp
qed (simp add: recovers_def)

lemma recover_fold_recovered:
  "\<lbrakk>tables_ok (tables_of st); \<not> ar_stopped st; names_kept env; tags_apart ids; set bs \<subseteq> ids; b \<in> ids; b \<in> set bs \<or> recovered env st b\<rbrakk>
    \<Longrightarrow> recovered env (fold (recover_batch env) bs st) b"
proof (induction bs arbitrary: st)
  case (Cons x bs)
  have "tables_ok (tables_of (recover_batch env x st))" "\<not> ar_stopped (recover_batch env x st)"
    using recover_batch_recovers [OF Cons.prems(1), of env x] Cons.prems(2) by (simp_all add: recovers_def)
  moreover have "b \<in> set bs \<or> recovered env (recover_batch env x st) b"
    using recover_batch_recovered [OF Cons.prems(1-4), of x] Cons.prems(5-7) by auto
  ultimately show ?case using Cons by simp
qed simp

lemma close_all_quietly:
  "tables_of (fold (\<lambda>s. closeQuietly env (fs_id s) 1 None) ss st) = tables_of st" "ar_stopped (fold (\<lambda>s. closeQuietly env (fs_id s) 1 None) ss st) = ar_stopped st"
  "ar_spawned (fold (\<lambda>s. closeQuietly env (fs_id s) 1 None) ss st) = ar_spawned st"
  "ar_refused (fold (\<lambda>s. closeQuietly env (fs_id s) 1 None) ss st) = ar_refused st" "cared (fold (\<lambda>s. closeQuietly env (fs_id s) 1 None) ss st) = cared st"
  by (induction ss arbitrary: st) simp_all

lemma recover_runner_ok:
  assumes "tables_ok (tables_of st)"
  shows "recovers env st (recover_runner env st)"
    and "names_kept env \<Longrightarrow> tags_apart (open_batches (tables_of st)) \<Longrightarrow> watched (recover_runner env st)"
proof -
  define live where "live = filter (\<lambda>s. fs_role s = Some ARBITER_ROLE \<and> \<not> fs_closed s) (rv_list env (world_of st))"
  define st1 where "st1 = on_world (rv_removeAllExcept env (map fs_directory live)) (st\<lparr>ar_workspaces := fold (\<lambda>s m. m(fs_id s \<mapsto> fs_directory s)) live (ar_workspaces st)\<rparr>)"
  define st2 where "st2 = fold (recover_batch env) (batchIdsWithOpenArbiterQuestions (tables_of st1)) st1"
  have t1: "tables_of st1 = tables_of st" "ar_stopped st1 = ar_stopped st" "ar_spawned st1 = ar_spawned st" by (simp_all add: st1_def)
  have e: "recover_runner env st = fold (\<lambda>s. closeQuietly env (fs_id s) 1 None) (filter (\<lambda>s. ar_runs st2 (fs_id s) = None) live) st2"
    by (simp add: recover_runner_def live_def st1_def st2_def Let_def)
  note kept = close_all_quietly [of env "filter (\<lambda>s. ar_runs st2 (fs_id s) = None) live" st2, folded e]
  have two: "recovers env st1 st2" unfolding st2_def using assms t1(1) by (intro recover_fold_recovers) simp
  moreover have "quota_ok m n st1 = quota_ok m n st" "quota_ok m n (recover_runner env st) = quota_ok m n st2" for m n
    by (rule quota_runs; simp only: t1 kept)+
  ultimately show "recovers env st (recover_runner env st)" using t1 by (simp add: recovers_def kept)
  show "watched (recover_runner env st)" if "names_kept env" "tags_apart (open_batches (tables_of st))"
  proof (cases "ar_stopped st")
    case True
    then show ?thesis using two t1(2) by (simp add: watched_def kept recovers_def)
  next
    case False
    have "recovered env st2 b" if "b \<in> open_batches (tables_of st2)" for b
      unfolding st2_def
    proof (rule recover_fold_recovered [OF _ _ \<open>names_kept env\<close> \<open>tags_apart (open_batches (tables_of st))\<close>])
      show "b \<in> open_batches (tables_of st)" using that two t1(1) by (auto simp: recovers_def)
      then show "b \<in> set (batchIdsWithOpenArbiterQuestions (tables_of st1)) \<or> recovered env st1 b" by (simp add: open_batches_def t1)
    qed (use assms t1 False in \<open>simp_all add: open_batches_def\<close>)
    then have "\<forall>b \<in> open_batches (tables_of st2). b \<in> cared st2 \<or> b \<in> fst ` set (ar_refused st2)" using recovered_cared by blast
    then show ?thesis by (simp add: watched_def kept)
  qed
qed

section \<open>Runs\<close>

lemma step_ok:
  assumes "tables_ok (tables_of st)"
  shows "tables_ok (tables_of (runner_step (env, ev) st)) \<and> (\<forall>m n. caps_runs m n env \<and> quota_ok m n st \<longrightarrow> quota_ok m n (runner_step (env, ev) st))"
proof (cases "ev = Boot \<or> ev = RecoverNow")
  case True
  have "quota_ok m n (handle_event env Boot st) = quota_ok m n st" for m n by (rule quota_runs) (simp_all add: tables_of_def)
  then show ?thesis using True assms recover_runner_ok(1) [OF assms, of env] by (auto simp: runner_step_def recovers_def tables_of_def)
next
  case False
  then show ?thesis using event_sound [OF assms, of ev env] by (simp add: sound_step_def)
qed

interpretation runner_events: kept_by_steps "\<lambda>st. tables_ok (tables_of st)" runner_step
  by unfold_locales (simp add: step_ok split_paired_all)

lemma run_ok: "tables_ok (tables_of st) \<Longrightarrow> tables_ok (tables_of (runner_run evs st))"
  unfolding runner_run_def by (rule runner_events.run_kept)

lemma run_quota:
  "tables_ok (tables_of st) \<Longrightarrow> quota_ok m n st \<Longrightarrow> \<forall>(env, ev) \<in> set evs. caps_runs m n env \<Longrightarrow> quota_ok m n (runner_run evs st)"
  unfolding runner_run_def by (induction evs arbitrary: st) (auto simp: step_ok)

lemma run_watched:
  "tables_ok (tables_of st) \<Longrightarrow> watched st \<Longrightarrow> Boot \<notin> snd ` set evs \<Longrightarrow> RecoverNow \<notin> snd ` set evs \<Longrightarrow> watched (runner_run evs st)"
  unfolding runner_run_def
proof (induction evs arbitrary: st)
  case (Cons e evs)
  obtain env ev where e: "e = (env, ev)" by fastforce
  then have "sound_step env st (runner_step e st)" using Cons.prems event_sound [of st ev env] by auto
  then show ?case using Cons by (auto simp: sound_step_def)
qed simp

lemma start_ok: "tables_ok (tables_of (runner_start w))" "quota_ok m n (runner_start w)" "watched (runner_start w)"
  by (simp_all add: tables_ok_def et_bcores_def et_cores_def pending_of_def runner_start_def tables_of_def escalation_start_def quota_ok_def spawned_on_def watched_def arbiterRunsOfTicket_def batchesOfTicket_def
    open_batches_def batchIdsWithOpenArbiterQuestions_def)

lemma second_loss_fails_closed:
  assumes "\<not> ar_stopped st" "ar_failures st b = Some (Suc n)"
    and "(\<exists>s r. ev = ArbiterClosed s False \<and> ar_runs st s = Some r \<and> rn_batchId r = b) \<or> (\<exists>i. ev = SeesLoss i \<and> i < length (ar_awaited st) \<and> ar_awaited st ! i = Losing b)"
  shows "\<exists>st1. runner_step (env, ev) st = snd (failClosed env b ARBITER_UNAVAILABLE_REASON st1) \<and> tables_of st1 = tables_of st \<and> ar_refused st1 = ar_refused st \<and> ar_spawned st1 = ar_spawned st"
proof -
  have lost: "snd (onArbiterLost env b st0) = snd (failClosed env b ARBITER_UNAVAILABLE_REASON (st0\<lparr>ar_failures := (ar_failures st0)(b \<mapsto> Suc (Suc n))\<rparr>))"
    if "\<not> ar_stopped st0" "ar_failures st0 b = Some (Suc n)" for st0 :: "'a runner"
    using that by (simp add: onArbiterLost_def FAILURES_BEFORE_FAIL_CLOSED_def opt_default_def Let_def)
  from assms(3) show ?thesis
  proof (elim disjE exE conjE)
    fix s r assume h: "ev = ArbiterClosed s False" "ar_runs st s = Some r" "rn_batchId r = b"
    let ?st = "(removeWorkspaceOf env s st)\<lparr>ar_runs := (ar_runs (removeWorkspaceOf env s st))(s := None)\<rparr>"
    have kept: "ar_stopped ?st = ar_stopped st" "ar_failures ?st = ar_failures st" "ar_runs (removeWorkspaceOf env s st) = ar_runs st"
      by (simp_all add: removeWorkspaceOf_def on_world_def split: option.split)
    have "runner_step (env, ev) st = snd (onArbiterLost env b ?st)" using h kept(3) by (simp add: runner_step_def onSessionClosed_def forget_def)
    then show ?thesis using lost [of ?st] assms(1,2) kept(1,2) by (intro exI [of _ "?st\<lparr>ar_failures := (ar_failures ?st)(b \<mapsto> Suc (Suc n))\<rparr>"]) simp
  next
    fix i assume h: "ev = SeesLoss i" "i < length (ar_awaited st)" "ar_awaited st ! i = Losing b"
    let ?st = "st\<lparr>ar_awaited := without_nth i (ar_awaited st)\<rparr>"
    have "runner_step (env, ev) st = snd (onArbiterLost env b ?st)" using h by (simp add: runner_step_def)
    then show ?thesis using lost [of ?st] assms(1,2) by (intro exI [of _ "?st\<lparr>ar_failures := (ar_failures ?st)(b \<mapsto> Suc (Suc n))\<rparr>"]) simp
  qed
qed

section \<open>A concrete run\<close>

definition boss :: fleet_session where
  "boss = \<lparr>fs_id = ''m'', fs_name = ''boss'', fs_role = None, fs_parentId = None, fs_closed = False, fs_directory = ''/p'', fs_branch = None, fs_projectId = Some ''p'', fs_harness = ''claude''\<rparr>"

definition example_runner :: "nat runner_env" where
  "example_runner = \<lparr>rv_ladder = example_env, rv_list = (\<lambda>_. [boss]), rv_get = (\<lambda>_ i. if i = ''m'' then Some boss else None),
     rv_manager = (\<lambda>_ i. if i = ''m'' then Some \<lparr>mr_sessionId = ''m'', mr_mode = None, mr_pulseEnabled = None, mr_pulseSeconds = 60\<rparr> else None),
     rv_escalationOf = (\<lambda>_ _. None), rv_planNote = (\<lambda>_ _. Some (Some ''p'', 3)), rv_models = \<lparr>mt_haiku = ''h'', mt_sonnet = ''s'', mt_opus = ''o'', mt_fable = ''f''\<rparr>,
     rv_realPath = (\<lambda>_ d. Some d), rv_ticketOf = (\<lambda>_. None), rv_newWorkspace = (\<lambda>w. (Some ''/w'', w)), rv_removeWorkspace = (\<lambda>_ w. w),
     rv_removeAllExcept = (\<lambda>_ w. w), rv_create = (\<lambda>_ w. w), rv_close = (\<lambda>_ w. w)\<rparr>"

definition plans :: "(nat runner_env \<times> runner_event) list" where
  "plans = [(example_runner, SubmitPlan boss ''T-1'' ''n'' (pb_questions (asks ''q1'' ''technical'' None)))]"

definition loses :: "(nat runner_env \<times> runner_event) list" where
  "loses = [(example_runner, Created 0 ''a''), (example_runner, ArbiterClosed ''a'' False)]"

lemmas runner_defs = runner_run_def runner_step_def runner_start_def submit_plan_questions_def example_runner_def boss_def planNoteRev_def submission_ok_def MAX_QUESTIONS_PER_BATCH_def
  escalationPolicyOf_def tables_of_def world_of_def on_world_def launch_def spawnFor_def await_def waitingQuestions_def on_tables_def arbiterRunsOfTicket_def batchesOfTicket_def
  addArbiterRun_def directoryOf_def session_created_def track_def onSessionClosed_def forget_def onArbiterLost_def removeWorkspaceOf_def FAILURES_BEFORE_FAIL_CLOSED_def without_nth_def

lemma default_runs [simp]: "ep_maxArbiterRunsPerTicket DEFAULT_ESCALATION_POLICY = 3"
  by (simp add: DEFAULT_ESCALATION_POLICY_def)

lemma planned:
  "open_batches (tables_of (runner_run plans (runner_start 1))) = {''x''}" "arbiterRunsOfTicket ''m'' ''T-1'' (tables_of (runner_run plans (runner_start 1))) = 1"
  by (simp_all add: plans_def runner_defs submit_defs opinion_defs open_batches_def batchIdsWithOpenArbiterQuestions_def Let_def)

lemma planned_twice: "spawned_on ''m'' ''T-1'' (runner_run (plans @ loses) (runner_start 1)) = 2"
  by (simp add: spawned_on_def plans_def loses_def runner_defs submit_defs opinion_defs Let_def)

section \<open>Properties\<close>

text \<open>C17: Whatever the order of submissions, opinions, losses, expiries, restarts and recoveries, no more sessions of arbiters are asked for
  on a ticket of a manager than the project of the manager allows at any time of the run, and the number stored with the batches
  of the ticket counts each of them.\<close>

theorem arbiters_within_quota:
  assumes "\<forall>(env, ev) \<in> set evs. caps_runs m n env"
  shows "spawned_on m k (runner_run evs (runner_start w)) \<le> n
    \<and> spawned_on m k (runner_run evs (runner_start w)) \<le> arbiterRunsOfTicket m k (tables_of (runner_run evs (runner_start w)))"
  using run_quota [OF start_ok(1,2) assms, of w] unfolding quota_ok_def by (meson le_trans)

theorem arbiters_within_quota_witness:
  "spawned_on ''m'' ''T-1'' (runner_run (plans @ loses) (runner_start 1)) = 2 \<and> spawned_on ''m'' ''T-1'' (runner_run (plans @ loses) (runner_start 1)) \<le> 3"
proof -
  have caps: "\<forall>(env, ev) \<in> set (plans @ loses). caps_runs ''m'' 3 env" by (auto simp: plans_def loses_def caps_runs_def example_runner_def boss_def escalationPolicyOf_def)
  from arbiters_within_quota [OF caps] planned_twice show ?thesis by blast
qed

text \<open>C13: After a recovery no batch is dropped: as long as the runner is not stopped, every batch with an open question for the
  arbiter has a tracked arbiter, a method that awaits its arbiter or has still to see its loss, or a retirement that awaits the
  close of its session; or its hand-over to the human threw. The recovery relies on the names of the sessions, whose tags tell the
  waiting batches apart.\<close>

theorem no_batch_is_dropped:
  fixes env :: "'w runner_env" and evs evs' :: "('w runner_env \<times> runner_event) list" and w :: 'w
  defines "booted \<equiv> runner_run evs (runner_start w)"
  defines "later \<equiv> runner_run ((env, RecoverNow) # evs') booted"
  assumes "names_kept env" "tags_apart (open_batches (tables_of booted))" "Boot \<notin> snd ` set evs'" "RecoverNow \<notin> snd ` set evs'"
    and "\<not> ar_stopped later" "b \<in> set (batchIdsWithOpenArbiterQuestions (tables_of later))"
  shows "b \<in> cared later \<or> b \<in> fst ` set (ar_refused later)"
proof -
  have ok: "tables_ok (tables_of booted)" unfolding booted_def using start_ok(1) by (rule run_ok)
  have step: "runner_run ((env, RecoverNow) # evs') booted = runner_run evs' (recover_runner env booted)" by (simp add: runner_run_def runner_step_def)
  have "watched later" unfolding later_def step
    using recover_runner_ok [OF ok] assms(3-6) by (intro run_watched) (simp_all add: recovers_def)
  then show ?thesis using assms(7,8) by (auto simp: watched_def open_batches_def)
qed

theorem no_batch_is_dropped_witness:
  "''x'' \<in> set (batchIdsWithOpenArbiterQuestions (tables_of (runner_run ((example_runner, RecoverNow) # plans) (runner_run [] (runner_start 1)))))
    \<and> (''x'' \<in> cared (runner_run ((example_runner, RecoverNow) # plans) (runner_run [] (runner_start 1)))
       \<or> ''x'' \<in> fst ` set (ar_refused (runner_run ((example_runner, RecoverNow) # plans) (runner_run [] (runner_start 1)))))"
proof -
  have idle: "runner_run ((example_runner, RecoverNow) # plans) (runner_run [] (runner_start 1)) = runner_run plans (runner_start 1)"
    by (simp add: runner_run_def runner_step_def recover_runner_def runner_start_def escalation_start_def tables_of_def world_of_def on_world_def
      batchIdsWithOpenArbiterQuestions_def example_runner_def boss_def)
  have running: "\<not> ar_stopped (runner_run plans (runner_start 1))" by (simp add: plans_def runner_defs submit_defs opinion_defs Let_def)
  have kept: "names_kept example_runner" by (simp add: names_kept_def example_runner_def)
  have nothing_open: "tags_apart (open_batches (tables_of (runner_run [] (runner_start 1))))"
    by (simp add: tags_apart_def runner_run_def runner_start_def escalation_start_def tables_of_def open_batches_def batchIdsWithOpenArbiterQuestions_def)
  have opened: "''x'' \<in> set (batchIdsWithOpenArbiterQuestions (tables_of (runner_run plans (runner_start 1))))" using planned(1) by (simp add: open_batches_def)
  have steady: "Boot \<notin> snd ` set plans" "RecoverNow \<notin> snd ` set plans" by (simp_all add: plans_def)
  have "''x'' \<in> cared (runner_run plans (runner_start 1)) \<or> ''x'' \<in> fst ` set (ar_refused (runner_run plans (runner_start 1)))"
    by (rule no_batch_is_dropped [of example_runner "[]" 1 plans "''x''", OF kept nothing_open steady, unfolded idle, OF running opened])
  then show ?thesis unfolding idle using opened by (rule conjI [rotated])
qed

text \<open>C21: The second loss in a row of the arbiter of a batch, whether its session closed or a creation failed or a retirement ended,
  asks for no other session. Every question of the batch that was open for the arbiter waits for the human afterwards, on a
  pending card of the manager and the ticket of its batch; or the hand-over threw in this very step, and the tables are as before.\<close>

theorem second_loss_reaches_the_human:
  fixes env :: "'w runner_env" and evs :: "('w runner_env \<times> runner_event) list" and w :: 'w and b :: string and ev :: runner_event
  defines "before \<equiv> runner_run evs (runner_start w)"
  defines "after \<equiv> runner_step (env, ev) before"
  assumes "\<not> ar_stopped before" "ar_failures before b = Some (Suc n)"
    and "(\<exists>s r. ev = ArbiterClosed s False \<and> ar_runs before s = Some r \<and> rn_batchId r = b) \<or> (\<exists>i. ev = SeesLoss i \<and> i < length (ar_awaited before) \<and> ar_awaited before ! i = Losing b)"
  shows "ar_spawned after = ar_spawned before
    \<and> ((\<exists>e. ar_refused after = ar_refused before @ [(b, e)] \<and> tables_of after = tables_of before)
      \<or> (\<forall>q \<in> set (et_questions (tables_of before)). qn_batchId q = b \<and> qn_route q = ToArbiter \<and> qn_status q = QOpen \<longrightarrow>
          (\<exists>q' \<in> set (et_questions (tables_of after)). qn_key q' = qn_key q \<and> qn_status q' = QPendingHuman
            \<and> (\<exists>i m k. qn_escalationId q' = Some i \<and> (b, m, k) \<in> set (et_bcores (tables_of after)) \<and> (i, m, k, EPending) \<in> set (et_cores (tables_of after))))))"
proof -
  have ok: "tables_ok (tables_of before)" unfolding before_def using start_ok(1) by (rule run_ok)
  obtain st where st: "after = snd (failClosed env b ARBITER_UNAVAILABLE_REASON st)" "tables_of st = tables_of before" "ar_refused st = ar_refused before" "ar_spawned st = ar_spawned before"
    using second_loss_fails_closed [OF assms(3-5), of env] unfolding after_def by blast
  show ?thesis
  proof (cases "escalateBatchToHuman (rv_ladder env) b ARBITER_UNAVAILABLE_REASON (ar_ladder st)")
    case (Inl e)
    then show ?thesis using st by (auto simp: failClosed_def Let_def tables_of_def)
  next
    case (Inr x)
    then obtain y es where es: "escalateBatchToHuman (rv_ladder env) b ARBITER_UNAVAILABLE_REASON (ar_ladder st) = Inr (y, es)" by (cases x) simp
    then have after: "tables_of after = es_tables es" "ar_spawned after = ar_spawned before" using st by (auto simp: failClosed_def Let_def tables_of_def)
    have "tables_ok (es_tables (ar_ladder st))" using ok st(2) by (simp add: tables_of_def)
    from escalated_questions_pending [OF es this] show ?thesis using after st(2) by (simp add: tables_of_def)
  qed
qed

theorem second_loss_reaches_the_human_witness:
  "ar_spawned (runner_step (example_runner, ArbiterClosed ''b'' False) (runner_run (plans @ loses @ [(example_runner, Created 0 ''b'')]) (runner_start 1)))
    = ar_spawned (runner_run (plans @ loses @ [(example_runner, Created 0 ''b'')]) (runner_start 1))"
proof -
  let ?st = "runner_run (plans @ loses @ [(example_runner, Created 0 ''b'')]) (runner_start 1)"
  have st: "\<not> ar_stopped ?st" "map_option rn_batchId (ar_runs ?st ''b'') = Some ''x''" "ar_failures ?st ''x'' = Some (Suc 0)"
    by (simp_all add: plans_def loses_def runner_defs submit_defs opinion_defs Let_def)
  then obtain r where "ar_runs ?st ''b'' = Some r" "rn_batchId r = ''x''" by auto
  then show ?thesis using second_loss_reaches_the_human [OF st(1,3), of "ArbiterClosed ''b'' False" example_runner] by blast
qed

end
