(* ===== verification/Data_Stores.thy ===== *)
theory Data_Stores
  imports Kernel_Json Human_Text Civil_Calendar Text_Patterns "HOL-Library.Finite_Map" "HOL-Library.Char_ord" "HOL-Library.Product_Lexorder"
begin

text \<open>
  The tables of a project, \<^verbatim>\<open>stores/dataStoreRepository.ts\<close> with the types of \<^verbatim>\<open>shared/dataStores.ts\<close>: stores, their typed
  columns, their rows of cells with a revision, the history of every change and the views; and the reading of cells
  (\<^verbatim>\<open>isValidCell\<close>, \<^verbatim>\<open>matches\<close>, \<^verbatim>\<open>compareCells\<close> of \<^verbatim>\<open>stores/dataStoreService.ts\<close>).

  A table is the list of its rows in the order of their \<open>rowid\<close>. The cells of a row are a finite map from column ids to
  JSON values; a patch may also hold \<open>undefined\<close>, \<open>None\<close>. A statement that breaks a constraint of the schema throws what
  \<open>mapDatabaseError\<close> makes of it. What an operation throws undoes its transaction, so an error comes with no state. Times
  are the ISO texts of the clock; \<open>Date.parse\<close>, which depends on the time zone, is an argument.
\<close>

section \<open>Types\<close>

datatype column_type = TextColumn | NumberColumn | DateColumn | SelectColumn | JsonColumn
datatype column_format = Datetime | LongText | Url | Rank

definition COLUMN_TYPE_BY_FORMAT :: "column_format \<Rightarrow> column_type" where
  "COLUMN_TYPE_BY_FORMAT f = (case f of Datetime \<Rightarrow> DateColumn | LongText \<Rightarrow> TextColumn | Url \<Rightarrow> TextColumn | Rank \<Rightarrow> NumberColumn)"

record select_option =
  so_id :: string
  so_label :: string
  so_color :: "string option"

record column_config =
  cc_symbol :: "string option"
  cc_decimals :: "nat option"
  cc_ratingMax :: "nat option"
  cc_ratingIcon :: "string option"

text \<open>A column that wraps its cells, with the most lines it shows; one that truncates has no wrap.\<close>

type_synonym column_wrap = "nat option"

record column_metadata =
  md_required :: bool
  md_format :: "column_format option"
  md_config :: "column_config option"
  md_displayColumnId :: "string option"
  md_displayWidth :: "nat option"
  md_wrap :: "column_wrap option"

text \<open>The only automatic value is the time of creation.\<close>

record ds_column =
  co_id :: string
  co_storeId :: string
  co_displayName :: string
  co_columnType :: column_type
  co_options :: "select_option list option"
  co_sortOrder :: nat
  co_createdAt :: string
  co_autoValue :: bool
  co_metadata :: column_metadata

record data_store =
  st_id :: string
  st_projectId :: string
  st_displayName :: string
  st_naturalKeyColumnId :: "string option"
  st_createdAt :: string
  st_updatedAt :: string

type_synonym cells = "(string, json) fmap"
type_synonym patch = "(string, json option) fmap"

record ds_row =
  rw_id :: string
  rw_storeId :: string
  rw_data :: cells
  rw_rev :: nat
  rw_createdAt :: string
  rw_updatedAt :: string

datatype row_change = RowCreated | RowDeleted | CellsChanged "(string, json \<times> json) fmap"

datatype actor_kind = HumanActor | AgentActor | TriggerActor

record row_actor =
  ac_kind :: actor_kind
  ac_label :: string

record history_entry =
  hs_seq :: nat
  hs_id :: string
  hs_storeId :: string
  hs_rowId :: string
  hs_actor :: row_actor
  hs_change :: row_change
  hs_createdAt :: string

datatype where_operator = OpEq | OpNeq | OpGt | OpGte | OpLt | OpLte | OpContains | OpIn

record where_clause =
  wc_columnId :: string
  wc_op :: where_operator
  wc_value :: "json option"

record order_term =
  ot_columnId :: string
  ot_ascending :: bool

datatype view_type = Grid | Kanban

record view_config =
  vc_where :: "where_clause list option"
  vc_orderBy :: "order_term list option"
  vc_groupByColumnId :: "string option"
  vc_cardTitleColumnId :: "string option"
  vc_cardFields :: "string list option"
  vc_columnOrder :: "string list option"
  vc_showUngrouped :: "bool option"

record ds_view =
  vw_id :: string
  vw_storeId :: string
  vw_displayName :: string
  vw_viewType :: view_type
  vw_config :: view_config
  vw_sortOrder :: nat
  vw_createdAt :: string

record store_tables =
  ts_stores :: "data_store list"
  ts_columns :: "ds_column list"
  ts_rows :: "ds_row list"
  ts_views :: "ds_view list"
  ts_history :: "history_entry list"
  ts_nextSeq :: nat

datatype row_guard_violation = JournalShortened | DoneWithoutPrUrl

datatype store_error =
    InvalidCellValue string | InvalidName | InvalidColumnDefinition string | InvalidQuery | NoNaturalKey | AmbiguousNaturalKey | NaturalKeyMissing
  | NaturalKeyOnSeveralRows nat | NaturalKeyNotFound string | DaemonSetColumn string | InvalidViewConfig string | DuplicateId | ConstraintFailed
  | ReferencedRecordMissing | NaturalKeyConflict string | NaturalKeyNotUnique | ViewNotFound string | StoreHasRows nat | ColumnIsNaturalKey string
  | ColumnUsedByView string string | ColumnIsDisplayColumn string string | OptionsHeldByRows "string list"
  | ColumnOrderMismatch "string list" "string list" "string list" | StoreRowCap | LogKindNotAllowed json | BacklogWriteRefused
  | StoreNotFound string | DuplicateName string | RowNotFound string | UnknownColumn "string set" | StaleRevision nat | RowGuardViolation row_guard_violation

text \<open>What is told after a commit: a recorded change to the listeners of the repository, a row write to the observer.\<close>

record observed_write =
  ow_projectId :: string
  ow_storeId :: string
  ow_columns :: "ds_column list"
  ow_cells :: patch
  ow_actor :: row_actor
  ow_writtenByDaemon :: bool

datatype store_event = ChangeRecorded string | RowWritten observed_write

record 'w data_stores =
  ds_tables :: store_tables
  ds_world :: 'w
  ds_events :: "store_event list"

text \<open>A project: whether it guards its rows and whether its repository is shared with a team.\<close>

record 'w store_env =
  sv_text :: text_env
  sv_num :: "rat \<Rightarrow> string"
  sv_time :: "string \<Rightarrow> rat option"
  sv_clock :: "'w \<Rightarrow> string \<times> 'w"
  sv_newId :: "'w \<Rightarrow> string \<times> 'w"
  sv_project :: "'w \<Rightarrow> string \<Rightarrow> (bool \<times> bool) option"
  sv_isManagerLog :: "'w \<Rightarrow> string \<Rightarrow> bool"

section \<open>Cells\<close>

definition MAX_CELL_BYTES :: nat where "MAX_CELL_BYTES = 64 * 1024"

definition digits :: "nat \<Rightarrow> rx" where
  "digits n = seq (replicate n (Ch is_digit))"

definition iso_time :: "rx list" where
  "iso_time = [lit ''T'', digits 2, lit '':'', digits 2, opt (seq [lit '':'', digits 2, opt (seq [lit ''.'', plus (Ch is_digit)])])]"

definition iso_offset :: rx where
  "iso_offset = alts [lit ''Z'', seq [one_of ''+-'', digits 2, lit '':'', digits 2]]"

definition ISO_DATE :: rx where
  "ISO_DATE = whole [digits 4, lit ''-'', digits 2, lit ''-'', digits 2, opt (seq (iso_time @ [opt iso_offset]))]"

definition number_at :: "string \<Rightarrow> nat \<Rightarrow> nat \<Rightarrow> int" where
  "number_at s i n = foldl (\<lambda>k c. 10 * k + (of_char c - 48)) 0 (take n (drop i s))"

definition isIsoDate :: "(string \<Rightarrow> rat option) \<Rightarrow> string \<Rightarrow> bool" where
  "isIsoDate time s =
     (if \<not> rx_test ISO_DATE s \<or> time s = None then False
      else (let year = number_at s 0 4; month = number_at s 5 2; day = number_at s 8 2; calendarDay = utc_fields (date_UTC year (month - 1) day 0 0 0)
            in cf_year calendarDay = year \<and> cf_month calendarDay = month \<and> cf_dayOfMonth calendarDay = day))"

definition exceedsCellByteCap :: "string \<Rightarrow> bool" where
  "exceedsCellByteCap s \<longleftrightarrow> MAX_CELL_BYTES < length s"

text \<open>A JSON value is what it is after a round trip through its text.\<close>

definition isValidCell :: "'w store_env \<Rightarrow> ds_column \<Rightarrow> json \<Rightarrow> bool" where
  "isValidCell env column v =
     (if v = JNull then True
      else case co_columnType column of
        TextColumn \<Rightarrow> (case v of JStr s \<Rightarrow> \<not> exceedsCellByteCap s | _ \<Rightarrow> False)
      | NumberColumn \<Rightarrow> (case v of JNum n \<Rightarrow> True | _ \<Rightarrow> False)
      | DateColumn \<Rightarrow> (case v of JStr s \<Rightarrow> isIsoDate (sv_time env) s \<and> (md_format (co_metadata column) = Some Datetime \<longrightarrow> rx_test (seq (iso_time @ [iso_offset, AtEnd])) s) | _ \<Rightarrow> False)
      | SelectColumn \<Rightarrow> (case v of JStr s \<Rightarrow> s \<in> so_id ` set (opt_default [] (co_options column)) | _ \<Rightarrow> False)
      | JsonColumn \<Rightarrow> \<not> exceedsCellByteCap (written (sv_num env) v))"

definition viewConfigReferences :: "view_config \<Rightarrow> string \<Rightarrow> bool" where
  "viewConfigReferences config columnId \<longleftrightarrow>
     columnId \<in> set (map wc_columnId (opt_default [] (vc_where config)) @ map ot_columnId (opt_default [] (vc_orderBy config)) @ opt_default [] (vc_cardFields config)
       @ (case vc_groupByColumnId config of Some c \<Rightarrow> [c] | None \<Rightarrow> []) @ (case vc_cardTitleColumnId config of Some c \<Rightarrow> [c] | None \<Rightarrow> []))"

definition cell_or_null :: "cells \<Rightarrow> string \<Rightarrow> json" where
  "cell_or_null data columnId = opt_default JNull (fmlookup data columnId)"

definition isEmptyCell :: "json \<Rightarrow> bool" where
  "isEmptyCell v \<longleftrightarrow> v = JNull"

definition typeRank :: "json \<Rightarrow> nat" where
  "typeRank v = (case v of JNum _ \<Rightarrow> 0 | JStr _ \<Rightarrow> 1 | JBool _ \<Rightarrow> 2 | _ \<Rightarrow> 3)"

definition isSameValue :: "json \<Rightarrow> json \<Rightarrow> bool" where
  "isSameValue a b \<longleftrightarrow> ordered a = ordered b"

definition compareTexts :: "string \<Rightarrow> string \<Rightarrow> rat" where
  "compareTexts a b = (if utf16_key a < utf16_key b then - 1 else if utf16_key b < utf16_key a then 1 else 0)"

definition compareCells :: "'w store_env \<Rightarrow> ds_column \<Rightarrow> json \<Rightarrow> json \<Rightarrow> rat" where
  "compareCells env column a b =
     (case (a, b) of
        (JNum x, JNum y) \<Rightarrow> x - y
      | (JStr s, JStr t) \<Rightarrow>
          (if co_columnType column = DateColumn
           then (case (sv_time env s, sv_time env t) of (Some x, Some y) \<Rightarrow> x - y | _ \<Rightarrow> compareTexts s t)
           else compareTexts s t)
      | (JBool x, JBool y) \<Rightarrow> of_bool x - of_bool y
      | _ \<Rightarrow> rat_of_nat (typeRank a) - rat_of_nat (typeRank b))"

definition orderOf :: "'w store_env \<Rightarrow> ds_column \<Rightarrow> json \<Rightarrow> json \<Rightarrow> rat option" where
  "orderOf env column cell target =
     (case (cell, target) of
        (JNum x, JNum y) \<Rightarrow> Some (x - y)
      | (JStr s, JStr t) \<Rightarrow>
          (if co_columnType column = DateColumn
           then (case (sv_time env s, sv_time env t) of (Some x, Some y) \<Rightarrow> Some (x - y) | _ \<Rightarrow> None)
           else Some (compareCells env column cell target))
      | _ \<Rightarrow> None)"

definition matches :: "'w store_env \<Rightarrow> ds_column \<Rightarrow> json \<Rightarrow> where_clause \<Rightarrow> bool" where
  "matches env column cell clause =
     (let v = opt_default JNull (wc_value clause); ordering = orderOf env column cell v
      in case wc_op clause of
           OpEq \<Rightarrow> isSameValue cell v
         | OpNeq \<Rightarrow> \<not> isSameValue cell v
         | OpIn \<Rightarrow> (case v of JArr candidates \<Rightarrow> list_ex (isSameValue cell) candidates | _ \<Rightarrow> False)
         | OpContains \<Rightarrow> (case (cell, v) of (JStr s, JStr t) \<Rightarrow> text_includes (te_lower (sv_text env) s) (te_lower (sv_text env) t) | _ \<Rightarrow> False)
         | OpGt \<Rightarrow> (case ordering of None \<Rightarrow> False | Some x \<Rightarrow> 0 < x)
         | OpGte \<Rightarrow> (case ordering of None \<Rightarrow> False | Some x \<Rightarrow> 0 \<le> x)
         | OpLt \<Rightarrow> (case ordering of None \<Rightarrow> False | Some x \<Rightarrow> x < 0)
         | OpLte \<Rightarrow> (case ordering of None \<Rightarrow> False | Some x \<Rightarrow> x \<le> 0))"

text \<open>A stable sort by a comparison: \<open>Array.prototype.sort\<close>, and \<open>ORDER BY\<close> over the rows in the order of their \<open>rowid\<close>.\<close>

fun insort_by :: "('a \<Rightarrow> 'a \<Rightarrow> rat) \<Rightarrow> 'a \<Rightarrow> 'a list \<Rightarrow> 'a list" where
  "insort_by cmp x [] = [x]"
| "insort_by cmp x (y # ys) = (if cmp x y \<le> 0 then x # y # ys else y # insort_by cmp x ys)"

definition sort_by :: "('a \<Rightarrow> 'a \<Rightarrow> rat) \<Rightarrow> 'a list \<Rightarrow> 'a list" where
  "sort_by cmp xs = foldr (insort_by cmp) xs []"

section \<open>The repository\<close>

definition compare_keys :: "'k::linorder \<Rightarrow> 'k \<Rightarrow> rat" where
  "compare_keys a b = (if a < b then - 1 else if b < a then 1 else 0)"

text \<open>\<open>COLLATE NOCASE\<close>.\<close>

definition same_name :: "string \<Rightarrow> string \<Rightarrow> bool" where
  "same_name a b \<longleftrightarrow> toLowerCase a = toLowerCase b"

definition findStore :: "string \<Rightarrow> store_tables \<Rightarrow> data_store option" where
  "findStore i t = find (\<lambda>s. st_id s = i) (ts_stores t)"

definition findStoreByName :: "string \<Rightarrow> string \<Rightarrow> store_tables \<Rightarrow> data_store option" where
  "findStoreByName projectId displayName t = find (\<lambda>s. st_projectId s = projectId \<and> same_name (st_displayName s) displayName) (ts_stores t)"

definition listStores :: "string \<Rightarrow> store_tables \<Rightarrow> data_store list" where
  "listStores projectId t = sort_by (\<lambda>a b. compare_keys (st_createdAt a) (st_createdAt b)) (filter (\<lambda>s. st_projectId s = projectId) (ts_stores t))"

definition listColumns :: "string \<Rightarrow> store_tables \<Rightarrow> ds_column list" where
  "listColumns storeId t =
     sort_by (\<lambda>a b. compare_keys (co_sortOrder a, co_createdAt a, co_id a) (co_sortOrder b, co_createdAt b, co_id b)) (filter (\<lambda>c. co_storeId c = storeId) (ts_columns t))"

definition findColumnByName :: "string \<Rightarrow> string \<Rightarrow> store_tables \<Rightarrow> ds_column option" where
  "findColumnByName storeId displayName t = find (\<lambda>c. co_storeId c = storeId \<and> same_name (co_displayName c) displayName) (ts_columns t)"

definition listViews :: "string \<Rightarrow> store_tables \<Rightarrow> ds_view list" where
  "listViews storeId t =
     sort_by (\<lambda>a b. compare_keys (vw_sortOrder a, vw_createdAt a, vw_id a) (vw_sortOrder b, vw_createdAt b, vw_id b)) (filter (\<lambda>v. vw_storeId v = storeId) (ts_views t))"

definition findView :: "string \<Rightarrow> store_tables \<Rightarrow> ds_view option" where
  "findView i t = find (\<lambda>v. vw_id v = i) (ts_views t)"

definition listRows :: "string \<Rightarrow> store_tables \<Rightarrow> ds_row list" where
  "listRows storeId t = sort_by (\<lambda>a b. compare_keys (rw_createdAt a) (rw_createdAt b)) (filter (\<lambda>r. rw_storeId r = storeId) (ts_rows t))"

definition countRows :: "string \<Rightarrow> store_tables \<Rightarrow> nat" where
  "countRows storeId t = length (filter (\<lambda>r. rw_storeId r = storeId) (ts_rows t))"

definition findRow :: "string \<Rightarrow> string \<Rightarrow> store_tables \<Rightarrow> ds_row option" where
  "findRow rowId storeId t = find (\<lambda>r. rw_id r = rowId \<and> rw_storeId r = storeId) (ts_rows t)"

definition findRowStoreId :: "string \<Rightarrow> store_tables \<Rightarrow> string option" where
  "findRowStoreId rowId t = map_option rw_storeId (find (\<lambda>r. rw_id r = rowId) (ts_rows t))"

definition pageRows :: "string \<Rightarrow> nat \<Rightarrow> nat \<Rightarrow> store_tables \<Rightarrow> ds_row list \<times> nat" where
  "pageRows storeId limit offset t =
     (let rows = filter (\<lambda>r. rw_storeId r = storeId) (ts_rows t);
          newer = (\<lambda>a b. if rw_updatedAt a = rw_updatedAt b then compare_keys (rw_id a) (rw_id b) else compare_keys (rw_updatedAt b) (rw_updatedAt a))
      in (take limit (drop offset (sort_by newer rows)), countRows storeId t))"

definition isRowGuardEnabled :: "'w store_env \<Rightarrow> 'w \<Rightarrow> string \<Rightarrow> bool" where
  "isRowGuardEnabled env w projectId = (case sv_project env w projectId of None \<Rightarrow> False | Some (guarded, _) \<Rightarrow> guarded)"

definition isSharedRepo :: "'w store_env \<Rightarrow> 'w \<Rightarrow> string \<Rightarrow> bool" where
  "isSharedRepo env w projectId = (case sv_project env w projectId of None \<Rightarrow> False | Some (_, shared) \<Rightarrow> shared)"

definition on_store_tables :: "(store_tables \<Rightarrow> store_tables) \<Rightarrow> 'w data_stores \<Rightarrow> 'w data_stores" where
  "on_store_tables f s = s\<lparr>ds_tables := f (ds_tables s)\<rparr>"

definition require :: "bool \<Rightarrow> store_error \<Rightarrow> store_error + unit" where
  "require b e = (if b then Inr () else Inl e)"

definition refuseMissingStore :: "string \<Rightarrow> store_tables \<Rightarrow> store_error + unit" where
  "refuseMissingStore storeId t = require (findStore storeId t \<noteq> None) (StoreNotFound storeId)"

definition refuseUnknownColumns :: "string \<Rightarrow> string set \<Rightarrow> store_tables \<Rightarrow> store_error + unit" where
  "refuseUnknownColumns storeId ids t =
     (let unknown = ids - co_id ` set (filter (\<lambda>c. co_storeId c = storeId) (ts_columns t)) in require (unknown = {}) (UnknownColumn unknown))"

subsection \<open>Stores, columns and views\<close>

definition createStore_row :: "'w store_env \<Rightarrow> string \<Rightarrow> string \<Rightarrow> string \<Rightarrow> string \<Rightarrow> 'w data_stores \<Rightarrow> store_error + data_store \<times> 'w data_stores" where
  "createStore_row env i projectId displayName at' s =
     (let t = ds_tables s; store = \<lparr>st_id = i, st_projectId = projectId, st_displayName = displayName, st_naturalKeyColumnId = None, st_createdAt = at', st_updatedAt = at'\<rparr>
      in if findStoreByName projectId displayName t \<noteq> None then Inl (DuplicateName displayName)
         else if i \<in> st_id ` set (ts_stores t) then Inl DuplicateId
         else if sv_project env (ds_world s) projectId = None then Inl ReferencedRecordMissing
         else Inr (store, on_store_tables (\<lambda>t. t\<lparr>ts_stores := ts_stores t @ [store]\<rparr>) s))"

definition setNaturalKeyColumn :: "string \<Rightarrow> string option \<Rightarrow> string \<Rightarrow> store_tables \<Rightarrow> store_error + store_tables" where
  "setNaturalKeyColumn storeId columnId at' t =
     and_then (refuseMissingStore storeId t) (\<lambda>_.
       Inr (t\<lparr>ts_stores := map (\<lambda>s. if st_id s = storeId then s\<lparr>st_naturalKeyColumnId := columnId, st_updatedAt := at'\<rparr> else s) (ts_stores t)\<rparr>))"

definition no_metadata :: column_metadata where
  "no_metadata = \<lparr>md_required = False, md_format = None, md_config = None, md_displayColumnId = None, md_displayWidth = None, md_wrap = None\<rparr>"

definition addColumn_row ::
  "string \<Rightarrow> string \<Rightarrow> string \<Rightarrow> column_type \<Rightarrow> column_format option \<Rightarrow> select_option list option \<Rightarrow> bool \<Rightarrow> string \<Rightarrow> store_tables \<Rightarrow> store_error + ds_column \<times> store_tables" where
  "addColumn_row storeId i displayName columnType format options autoValue at' t =
     and_then (refuseMissingStore storeId t) (\<lambda>_.
       if findColumnByName storeId displayName t \<noteq> None then Inl (DuplicateName displayName)
       else if i \<in> co_id ` set (ts_columns t) then Inl DuplicateId
       else (let column = \<lparr>co_id = i, co_storeId = storeId, co_displayName = displayName, co_columnType = columnType, co_options = options,
                   co_sortOrder = length (filter (\<lambda>c. co_storeId c = storeId) (ts_columns t)), co_createdAt = at', co_autoValue = autoValue, co_metadata = no_metadata\<lparr>md_format := format\<rparr>\<rparr>
             in Inr (column, t\<lparr>ts_columns := ts_columns t @ [column]\<rparr>)))"

definition deleteStore_row :: "string \<Rightarrow> store_tables \<Rightarrow> store_tables" where
  "deleteStore_row i t =
     t\<lparr>ts_stores := filter (\<lambda>s. st_id s \<noteq> i) (ts_stores t), ts_columns := filter (\<lambda>c. co_storeId c \<noteq> i) (ts_columns t), ts_rows := filter (\<lambda>r. rw_storeId r \<noteq> i) (ts_rows t),
       ts_views := filter (\<lambda>v. vw_storeId v \<noteq> i) (ts_views t), ts_history := filter (\<lambda>h. hs_storeId h \<noteq> i) (ts_history t)\<rparr>"

definition insertView :: "string \<Rightarrow> string \<Rightarrow> string \<Rightarrow> view_type \<Rightarrow> view_config \<Rightarrow> string \<Rightarrow> store_tables \<Rightarrow> store_error + ds_view \<times> store_tables" where
  "insertView storeId i displayName viewType config at' t =
     and_then (refuseMissingStore storeId t) (\<lambda>_.
       if find (\<lambda>v. vw_storeId v = storeId \<and> same_name (vw_displayName v) displayName) (ts_views t) \<noteq> None then Inl (DuplicateName displayName)
       else if i \<in> vw_id ` set (ts_views t) then Inl DuplicateId
       else (let view = \<lparr>vw_id = i, vw_storeId = storeId, vw_displayName = displayName, vw_viewType = viewType, vw_config = config,
                   vw_sortOrder = length (filter (\<lambda>v. vw_storeId v = storeId) (ts_views t)), vw_createdAt = at'\<rparr>
             in Inr (view, t\<lparr>ts_views := ts_views t @ [view]\<rparr>)))"

definition updateView_row :: "string \<Rightarrow> view_config \<Rightarrow> store_tables \<Rightarrow> store_tables" where
  "updateView_row i config t = t\<lparr>ts_views := map (\<lambda>v. if vw_id v = i then v\<lparr>vw_config := config\<rparr> else v) (ts_views t)\<rparr>"

definition deleteView_row :: "string \<Rightarrow> store_tables \<Rightarrow> store_tables" where
  "deleteView_row i t = t\<lparr>ts_views := filter (\<lambda>v. vw_id v \<noteq> i) (ts_views t)\<rparr>"

definition updateColumn_row :: "string \<Rightarrow> string \<Rightarrow> string \<Rightarrow> select_option list option \<Rightarrow> column_metadata \<Rightarrow> store_tables \<Rightarrow> store_error + store_tables" where
  "updateColumn_row storeId columnId displayName options metadata t =
     (if case findColumnByName storeId displayName t of None \<Rightarrow> False | Some c \<Rightarrow> co_id c \<noteq> columnId then Inl (DuplicateName displayName)
      else Inr (t\<lparr>ts_columns := map (\<lambda>c. if co_id c = columnId \<and> co_storeId c = storeId then c\<lparr>co_displayName := displayName, co_options := options, co_metadata := metadata\<rparr> else c)
                  (ts_columns t)\<rparr>))"

definition reorderColumns_rows :: "string \<Rightarrow> string list \<Rightarrow> store_tables \<Rightarrow> store_tables" where
  "reorderColumns_rows storeId columnIds t =
     fold (\<lambda>(position, columnId) t. t\<lparr>ts_columns := map (\<lambda>c. if co_id c = columnId \<and> co_storeId c = storeId then c\<lparr>co_sortOrder := position\<rparr> else c) (ts_columns t)\<rparr>)
       (enumerate 0 columnIds) t"

subsection \<open>Rows and their history\<close>

definition recordChange :: "'w store_env \<Rightarrow> string \<Rightarrow> string \<Rightarrow> row_actor \<Rightarrow> string \<Rightarrow> row_change \<Rightarrow> 'w data_stores \<Rightarrow> store_error + 'w data_stores" where
  "recordChange env storeId rowId actor at' change s =
     (let (i, w) = sv_newId env (ds_world s); t = ds_tables s
      in if findRow rowId storeId t = None then Inl (RowNotFound rowId)
         else if rowId = '''' \<or> ac_label actor = '''' then Inl ConstraintFailed
         else if i \<in> hs_id ` set (ts_history t) then Inl DuplicateId
         else Inr (s\<lparr>ds_tables := t\<lparr>ts_history := ts_history t @ [\<lparr>hs_seq = ts_nextSeq t, hs_id = i, hs_storeId = storeId, hs_rowId = rowId, hs_actor = actor, hs_change = change, hs_createdAt = at'\<rparr>],
                       ts_nextSeq := ts_nextSeq t + 1\<rparr>, ds_world := w, ds_events := ds_events s @ [ChangeRecorded storeId]\<rparr>))"

text \<open>Through JSON and back: an \<open>undefined\<close> cell drops out.\<close>

definition normalizeCells :: "patch \<Rightarrow> cells" where
  "normalizeCells p = fmmap the (fmfilter (\<lambda>k. fmlookup p k \<noteq> Some None) p)"

definition diffCells :: "cells \<Rightarrow> cells \<Rightarrow> (string, json \<times> json) fmap" where
  "diffCells current p =
     fmmap_keys (\<lambda>k v. (cell_or_null current k, v)) (fmfilter (\<lambda>k. \<not> isSameValue (cell_or_null current k) (cell_or_null p k)) p)"

definition FIRST_ROW_REV :: nat where "FIRST_ROW_REV = 1"

definition insertRow_row :: "'w store_env \<Rightarrow> string \<Rightarrow> string \<Rightarrow> patch \<Rightarrow> row_actor \<Rightarrow> string \<Rightarrow> 'w data_stores \<Rightarrow> store_error + ds_row \<times> 'w data_stores" where
  "insertRow_row env storeId i cells actor at' s =
     (let data = normalizeCells cells; t = ds_tables s;
          row = \<lparr>rw_id = i, rw_storeId = storeId, rw_data = data, rw_rev = FIRST_ROW_REV, rw_createdAt = at', rw_updatedAt = at'\<rparr>
      in and_then (refuseMissingStore storeId t) (\<lambda>_. and_then (refuseUnknownColumns storeId (fmdom' data) t) (\<lambda>_.
           if i \<in> rw_id ` set (ts_rows t) then Inl DuplicateId
           else and_then (recordChange env storeId i actor at' RowCreated (on_store_tables (\<lambda>t. t\<lparr>ts_rows := ts_rows t @ [row]\<rparr>) s)) (\<lambda>s1. Inr (row, s1)))))"

definition set_row :: "string \<Rightarrow> string \<Rightarrow> cells \<Rightarrow> nat \<Rightarrow> string \<Rightarrow> store_tables \<Rightarrow> store_tables" where
  "set_row rowId storeId data r at' t =
     t\<lparr>ts_rows := map (\<lambda>x. if rw_id x = rowId \<and> rw_storeId x = storeId then x\<lparr>rw_data := data, rw_rev := r, rw_updatedAt := at'\<rparr> else x) (ts_rows t)\<rparr>"

definition updateRow_row :: "'w store_env \<Rightarrow> string \<Rightarrow> string \<Rightarrow> patch \<Rightarrow> nat option \<Rightarrow> row_actor \<Rightarrow> string \<Rightarrow> 'w data_stores \<Rightarrow> store_error + ds_row \<times> 'w data_stores" where
  "updateRow_row env rowId storeId cells expectedRev actor at' s =
     (let patch = normalizeCells cells; t = ds_tables s
      in and_then (or_fail (RowNotFound rowId) (findRow rowId storeId t)) (\<lambda>current.
         and_then (require (\<not> (expectedRev \<noteq> None \<and> expectedRev \<noteq> Some (rw_rev current))) (StaleRevision (rw_rev current))) (\<lambda>_.
         and_then (refuseUnknownColumns storeId (fmdom' patch) t) (\<lambda>_.
           let change = diffCells (rw_data current) patch
           in if fmdom' change = {} then Inr (current, s)
              else (let data = rw_data current ++\<^sub>f patch; r = rw_rev current + 1
                    in and_then (recordChange env storeId rowId actor at' (CellsChanged change) (on_store_tables (set_row rowId storeId data r at') s))
                         (\<lambda>s1. Inr (current\<lparr>rw_data := data, rw_rev := r, rw_updatedAt := at'\<rparr>, s1)))))))"

definition deleteRow_row :: "'w store_env \<Rightarrow> string \<Rightarrow> string \<Rightarrow> row_actor \<Rightarrow> string \<Rightarrow> 'w data_stores \<Rightarrow> store_error + 'w data_stores" where
  "deleteRow_row env rowId storeId actor at' s =
     and_then (recordChange env storeId rowId actor at' RowDeleted s) (\<lambda>s1.
       Inr (on_store_tables (\<lambda>t. t\<lparr>ts_rows := filter (\<lambda>r. \<not> (rw_id r = rowId \<and> rw_storeId r = storeId)) (ts_rows t)\<rparr>) s1))"

definition clearCell :: "'w store_env \<Rightarrow> string \<Rightarrow> row_actor \<Rightarrow> string \<Rightarrow> ds_row \<Rightarrow> 'w data_stores \<Rightarrow> store_error + 'w data_stores" where
  "clearCell env columnId actor at' row s =
     (case fmlookup (rw_data row) columnId of
        None \<Rightarrow> Inr s
      | Some v \<Rightarrow> recordChange env (rw_storeId row) (rw_id row) actor at' (CellsChanged (fmupd columnId (v, JNull) fmempty))
                    (on_store_tables (set_row (rw_id row) (rw_storeId row) (fmdrop columnId (rw_data row)) (rw_rev row + 1) at') s))"

fun each :: "('x \<Rightarrow> 's \<Rightarrow> 'e + 's) \<Rightarrow> 'x list \<Rightarrow> 's \<Rightarrow> 'e + 's" where
  "each f [] s = Inr s"
| "each f (x # xs) s = and_then (f x s) (each f xs)"

definition deleteColumn_row :: "'w store_env \<Rightarrow> string \<Rightarrow> string \<Rightarrow> row_actor \<Rightarrow> string \<Rightarrow> 'w data_stores \<Rightarrow> store_error + 'w data_stores" where
  "deleteColumn_row env storeId columnId actor at' s =
     and_then (each (clearCell env columnId actor at') (listRows storeId (ds_tables s)) s) (\<lambda>s1.
       let t = (ds_tables s1)\<lparr>ts_columns := filter (\<lambda>c. \<not> (co_id c = columnId \<and> co_storeId c = storeId)) (ts_columns (ds_tables s1))\<rparr>
       in Inr (s1\<lparr>ds_tables := reorderColumns_rows storeId (map co_id (listColumns storeId t)) t\<rparr>))"

datatype change_kind = InsertChange | UpdateChange | DeleteChange

definition change_kind_of :: "row_change \<Rightarrow> change_kind" where
  "change_kind_of c = (case c of RowCreated \<Rightarrow> InsertChange | RowDeleted \<Rightarrow> DeleteChange | CellsChanged _ \<Rightarrow> UpdateChange)"

record history_scope =
  sc_projectId :: string
  sc_storeId :: "string option"
  sc_kind :: "change_kind option"
  sc_sinceSeq :: "nat option"
  sc_ascending :: bool
  sc_limit :: "nat option"
  sc_offset :: nat

definition history_matches :: "string \<Rightarrow> history_scope \<Rightarrow> store_tables \<Rightarrow> history_entry \<Rightarrow> bool" where
  "history_matches rowId scope t h \<longleftrightarrow>
     hs_rowId h = rowId \<and> map_option st_projectId (findStore (hs_storeId h) t) = Some (sc_projectId scope)
     \<and> (sc_storeId scope = None \<or> sc_storeId scope = Some (hs_storeId h))
     \<and> (sc_kind scope = None \<or> sc_kind scope = Some (change_kind_of (hs_change h)))
     \<and> (case sc_sinceSeq scope of None \<Rightarrow> True | Some n \<Rightarrow> n < hs_seq h)"

definition rowHistory :: "string \<Rightarrow> history_scope \<Rightarrow> store_tables \<Rightarrow> history_entry list" where
  "rowHistory rowId scope t =
     (let entries = filter (history_matches rowId scope t) (ts_history t);
          inOrder = (if sc_ascending scope then sort_by (\<lambda>a b. compare_keys (hs_seq a) (hs_seq b)) entries
                     else sort_by (\<lambda>a b. compare_keys (hs_createdAt b, hs_seq b) (hs_createdAt a, hs_seq a)) entries);
          rest = drop (sc_offset scope) inOrder
      in case sc_limit scope of None \<Rightarrow> rest | Some n \<Rightarrow> take n rest)"

definition countRowHistory :: "string \<Rightarrow> history_scope \<Rightarrow> store_tables \<Rightarrow> nat" where
  "countRowHistory rowId scope t = length (filter (history_matches rowId scope t) (ts_history t))"

definition latestSeq :: "string \<Rightarrow> store_tables \<Rightarrow> nat" where
  "latestSeq storeId t = Max (set (0 # map hs_seq (filter (\<lambda>h. hs_storeId h = storeId) (ts_history t))))"

definition changesAfter :: "string \<Rightarrow> nat \<Rightarrow> nat \<Rightarrow> store_tables \<Rightarrow> history_entry list" where
  "changesAfter storeId afterSeq limit t =
     take limit (sort_by (\<lambda>a b. compare_keys (hs_seq a) (hs_seq b)) (filter (\<lambda>h. hs_storeId h = storeId \<and> afterSeq < hs_seq h) (ts_history t)))"

end
