(* ===== verification/Data_Store_Service.thy ===== *)
theory Data_Store_Service
  imports Data_Stores
begin

text \<open>
  The service over the tables of a project, \<^verbatim>\<open>stores/dataStoreService.ts\<close>, with the row guard (\<^verbatim>\<open>stores/rowGuard.ts\<close>): what a
  caller may write, with every refusal in the order of the code, the queries and the views.

  Each operation authorises its caller first, works in one transaction and tells the observer of row writes after the commit.
\<close>

section \<open>Helpers\<close>

definition fresh :: "'w store_env \<Rightarrow> 'w data_stores \<Rightarrow> string \<times> 'w data_stores" where
  "fresh env s = (let (i, w) = sv_newId env (ds_world s) in (i, s\<lparr>ds_world := w\<rparr>))"

definition tick :: "'w store_env \<Rightarrow> 'w data_stores \<Rightarrow> string \<times> 'w data_stores" where
  "tick env s = (let (at', w) = sv_clock env (ds_world s) in (at', s\<lparr>ds_world := w\<rparr>))"

definition with_tables :: "'w data_stores \<Rightarrow> store_error + store_tables \<Rightarrow> store_error + 'w data_stores" where
  "with_tables s r = and_then r (\<lambda>t. Inr (s\<lparr>ds_tables := t\<rparr>))"

definition normalizeName :: "'w store_env \<Rightarrow> string \<Rightarrow> store_error + string" where
  "normalizeName env name = (let normalized = js_trim (te_nfc (sv_text env) name) in if normalized = '''' then Inl InvalidName else Inr normalized)"

definition authorize :: "string \<Rightarrow> string \<Rightarrow> 'w data_stores \<Rightarrow> store_error + unit" where
  "authorize storeId projectId s = require (map_option st_projectId (findStore storeId (ds_tables s)) = Some projectId) (StoreNotFound storeId)"

definition authorizeView :: "string \<Rightarrow> string \<Rightarrow> 'w data_stores \<Rightarrow> store_error + ds_view" where
  "authorizeView viewId projectId s =
     (case findView viewId (ds_tables s) of
        None \<Rightarrow> Inl (ViewNotFound viewId)
      | Some view \<Rightarrow> if map_option st_projectId (findStore (vw_storeId view) (ds_tables s)) = Some projectId then Inr view else Inl (ViewNotFound viewId))"

definition assertKnownColumns :: "ds_column list \<Rightarrow> string set \<Rightarrow> store_error + unit" where
  "assertKnownColumns columns ids = (let unknown = ids - co_id ` set columns in require (unknown = {}) (UnknownColumn unknown))"

definition requireColumns :: "string \<Rightarrow> string list \<Rightarrow> 'w data_stores \<Rightarrow> store_error + ds_column list" where
  "requireColumns storeId ids s = (let columns = listColumns storeId (ds_tables s) in and_then (assertKnownColumns columns (set ids)) (\<lambda>_. Inr columns))"

definition requireColumn :: "string \<Rightarrow> string \<Rightarrow> 'w data_stores \<Rightarrow> store_error + ds_column" where
  "requireColumn storeId columnId s = or_fail (UnknownColumn {columnId}) (find (\<lambda>c. co_id c = columnId) (listColumns storeId (ds_tables s)))"

definition naturalKeyColumnId :: "string \<Rightarrow> 'w data_stores \<Rightarrow> string option" where
  "naturalKeyColumnId storeId s = (case findStore storeId (ds_tables s) of None \<Rightarrow> None | Some store \<Rightarrow> st_naturalKeyColumnId store)"

section \<open>Queries\<close>

definition compareRows :: "'w store_env \<Rightarrow> ds_column list \<Rightarrow> order_term list \<Rightarrow> ds_row \<Rightarrow> ds_row \<Rightarrow> rat" where
  "compareRows env columns terms a b =
     foldr (\<lambda>term rest.
         let cellA = cell_or_null (rw_data a) (ot_columnId term); cellB = cell_or_null (rw_data b) (ot_columnId term)
         in if isEmptyCell cellA \<noteq> isEmptyCell cellB then (if isEmptyCell cellA then 1 else - 1)
            else case find (\<lambda>c. co_id c = ot_columnId term) columns of
                   None \<Rightarrow> rest
                 | Some column \<Rightarrow>
                     (let ordering = compareCells env column cellA cellB
                      in if ordering \<noteq> 0 then (if ot_ascending term then ordering else - ordering) else rest))
       terms 0"

definition row_matches :: "'w store_env \<Rightarrow> ds_column list \<Rightarrow> where_clause list \<Rightarrow> ds_row \<Rightarrow> bool" where
  "row_matches env columns clauses row \<longleftrightarrow>
     list_all (\<lambda>clause. case find (\<lambda>c. co_id c = wc_columnId clause) columns of
                          None \<Rightarrow> False
                        | Some column \<Rightarrow> matches env column (cell_or_null (rw_data row) (wc_columnId clause)) clause) clauses"

definition runQuery :: "'w store_env \<Rightarrow> string \<Rightarrow> where_clause list \<Rightarrow> order_term list \<Rightarrow> nat option \<Rightarrow> 'w data_stores \<Rightarrow> store_error + ds_row list" where
  "runQuery env storeId clauses terms limit s =
     and_then (require (\<not> ('''' \<in> set (map wc_columnId clauses @ map ot_columnId terms))) InvalidQuery) (\<lambda>_.
     and_then (requireColumns storeId (map wc_columnId clauses @ map ot_columnId terms) s) (\<lambda>columns.
       let rows = sort_by (compareRows env columns terms) (filter (row_matches env columns clauses) (listRows storeId (ds_tables s)))
       in Inr (case limit of None \<Rightarrow> rows | Some n \<Rightarrow> take n rows)))"

definition key_clause :: "string \<Rightarrow> string \<Rightarrow> where_clause" where
  "key_clause columnId key = \<lparr>wc_columnId = columnId, wc_op = OpEq, wc_value = Some (JStr key)\<rparr>"

definition query :: "'w store_env \<Rightarrow> string \<Rightarrow> string \<Rightarrow> where_clause list \<Rightarrow> order_term list \<Rightarrow> nat option \<Rightarrow> 'w data_stores \<Rightarrow> store_error + ds_row list" where
  "query env storeId projectId clauses terms limit s = and_then (authorize storeId projectId s) (\<lambda>_. runQuery env storeId clauses terms limit s)"

definition findRowByNaturalKey :: "'w store_env \<Rightarrow> string \<Rightarrow> string \<Rightarrow> string \<Rightarrow> 'w data_stores \<Rightarrow> store_error + ds_row" where
  "findRowByNaturalKey env storeId projectId key s =
     and_then (authorize storeId projectId s) (\<lambda>_.
     and_then (or_fail NoNaturalKey (naturalKeyColumnId storeId s)) (\<lambda>column.
     and_then (runQuery env storeId [key_clause column key] [] (Some 2) s) (\<lambda>rows.
       case rows of [] \<Rightarrow> Inl (RowNotFound key) | [row] \<Rightarrow> Inr row | _ \<Rightarrow> Inl AmbiguousNaturalKey)))"

section \<open>Columns\<close>

definition MAX_SELECT_OPTIONS :: nat where "MAX_SELECT_OPTIONS = 500"

definition is_hex :: "char \<Rightarrow> bool" where
  "is_hex c \<longleftrightarrow> c \<in> set ''0123456789abcdefABCDEF''"

definition HEX_COLOR :: rx where
  "HEX_COLOR = whole [lit ''#'', alts [seq (replicate 3 (Ch is_hex)), seq (replicate 6 (Ch is_hex)), seq (replicate 8 (Ch is_hex))]]"

definition SelectOptionSchema :: "select_option \<Rightarrow> bool" where
  "SelectOptionSchema o' \<longleftrightarrow> so_id o' \<noteq> '''' \<and> so_label o' \<noteq> '''' \<and> (case so_color o' of None \<Rightarrow> True | Some c \<Rightarrow> rx_test HEX_COLOR c)"

definition validateColumnDefinition :: "column_type \<Rightarrow> select_option list option \<Rightarrow> store_error + select_option list option" where
  "validateColumnDefinition columnType options =
     (if columnType \<noteq> SelectColumn then (if options \<noteq> None then Inl (InvalidColumnDefinition ''Only a select column takes options'') else Inr None)
      else case options of
        None \<Rightarrow> Inl (InvalidColumnDefinition ''A select column needs at least one option, each with an id and a label'')
      | Some os \<Rightarrow>
          if os = [] \<or> MAX_SELECT_OPTIONS < length os \<or> \<not> list_all SelectOptionSchema os
          then Inl (InvalidColumnDefinition ''A select column needs at least one option, each with an id and a label'')
          else if \<not> distinct (map so_id os) then Inl (InvalidColumnDefinition ''Option ids must be unique'') else Inr (Some os))"

record new_column =
  nc_displayName :: string
  nc_columnType :: column_type
  nc_format :: "column_format option"
  nc_options :: "select_option list option"
  nc_autoValue :: bool

definition addColumn :: "'w store_env \<Rightarrow> string \<Rightarrow> string \<Rightarrow> new_column \<Rightarrow> 'w data_stores \<Rightarrow> store_error + ds_column \<times> 'w data_stores" where
  "addColumn env storeId projectId column s =
     and_then (authorize storeId projectId s) (\<lambda>_. and_then (normalizeName env (nc_displayName column)) (\<lambda>displayName.
     and_then (validateColumnDefinition (nc_columnType column) (nc_options column)) (\<lambda>options.
     and_then (require (case nc_format column of None \<Rightarrow> True | Some f \<Rightarrow> COLUMN_TYPE_BY_FORMAT f = nc_columnType column) (InvalidColumnDefinition ''The format must match the column type'')) (\<lambda>_.
     and_then (require (\<not> (nc_autoValue column \<and> nc_columnType column \<noteq> DateColumn)) (InvalidColumnDefinition ''Only a date column can take an auto_value'')) (\<lambda>_.
       let (i, s1) = fresh env s; (at', s2) = tick env s1
       in and_then (addColumn_row storeId i displayName (nc_columnType column) (nc_format column) options (nc_autoValue column) at' (ds_tables s2)) (\<lambda>(added, t).
            Inr (added, s2\<lparr>ds_tables := t\<rparr>)))))))"

text \<open>\<open>setNaturalKey\<close>: two rows must not share a text in the column.\<close>

definition held_texts :: "string \<Rightarrow> string \<Rightarrow> store_tables \<Rightarrow> string list" where
  "held_texts storeId columnId t = List.map_filter (\<lambda>r. case fmlookup (rw_data r) columnId of Some (JStr v) \<Rightarrow> Some v | _ \<Rightarrow> None) (listRows storeId t)"

definition setNaturalKey :: "'w store_env \<Rightarrow> string \<Rightarrow> string \<Rightarrow> string option \<Rightarrow> 'w data_stores \<Rightarrow> store_error + 'w data_stores" where
  "setNaturalKey env storeId projectId columnId s =
     and_then (authorize storeId projectId s) (\<lambda>_.
     and_then
       (case columnId of
          None \<Rightarrow> Inr ()
        | Some c \<Rightarrow>
            if map_option co_columnType (find (\<lambda>x. co_id x = c) (listColumns storeId (ds_tables s))) \<noteq> Some TextColumn
            then Inl (InvalidColumnDefinition ''The natural key must be a text column of this data store'')
            else require (distinct (held_texts storeId c (ds_tables s))) NaturalKeyNotUnique) (\<lambda>_.
       let (at', s1) = tick env s in with_tables s1 (setNaturalKeyColumn storeId columnId at' (ds_tables s1))))"

definition applyNaturalKeyChoice :: "'w store_env \<Rightarrow> string \<Rightarrow> string \<Rightarrow> string \<Rightarrow> bool \<Rightarrow> 'w data_stores \<Rightarrow> store_error + 'w data_stores" where
  "applyNaturalKeyChoice env storeId projectId columnId isNaturalKey s =
     (if isNaturalKey then setNaturalKey env storeId projectId (Some columnId) s
      else if naturalKeyColumnId storeId s = Some columnId then setNaturalKey env storeId projectId None s else Inr s)"

subsection \<open>Changing a column\<close>

record option_replacement =
  or_id :: "string option"
  or_label :: string
  or_color :: "string option"

datatype wrap_change = Truncate | Wrap "nat option"

text \<open>A field that is \<open>None\<close> is left out of the changes; \<open>Some None\<close> is \<open>null\<close> and clears it.\<close>

record column_changes =
  ch_name :: "string option"
  ch_naturalKey :: "bool option"
  ch_options :: "option_replacement list option"
  ch_required :: "bool option"
  ch_displayColumnId :: "string option option"
  ch_format :: "column_format option option"
  ch_config :: "column_config option option"
  ch_displayWidth :: "nat option option"
  ch_wrap :: "wrap_change option"

definition hasNothingToUpdate :: "column_changes \<Rightarrow> bool" where
  "hasNothingToUpdate ch \<longleftrightarrow>
     ch_name ch = None \<and> ch_naturalKey ch = None \<and> ch_options ch = None \<and> ch_required ch = None \<and> ch_displayColumnId ch = None \<and> ch_format ch = None
     \<and> ch_config ch = None \<and> ch_displayWidth ch = None \<and> ch_wrap ch = None"

text \<open>The walk along the display columns. Every step marks a column that has a display column, so there are at most as many steps as
  columns.\<close>

function walk_display :: "(string \<times> string option) list \<Rightarrow> string \<Rightarrow> string list \<Rightarrow> string \<Rightarrow> store_error + unit" where
  "walk_display links columnId visited followed =
     (if followed = columnId then Inl (InvalidColumnDefinition ''A display column cannot lead back to the column: this closes a cycle of display columns'')
      else if followed \<in> set visited then Inl (InvalidColumnDefinition ''A display column cannot lead into a cycle of display columns'')
      else case map_of links followed of
             Some (Some d) \<Rightarrow> walk_display links columnId (followed # visited) d
           | _ \<Rightarrow> Inr ())"
  by pat_completeness auto
termination
proof (relation "measure (\<lambda>(links, columnId, visited, followed). card (fst ` set links - set visited))")
  fix links :: "(string \<times> string option) list" and columnId followed d :: string and visited v
  assume new: "followed \<notin> set visited" and link: "map_of links followed = Some v" "v = Some d"
  have "followed \<in> fst ` set links" using map_of_SomeD [OF link(1)] by force
  then have "fst ` set links - set (followed # visited) \<subset> fst ` set links - set visited" using new by auto
  then show "((links, columnId, followed # visited, d), links, columnId, visited, followed) \<in> measure (\<lambda>(links, columnId, visited, followed). card (fst ` set links - set visited))"
    by (simp add: psubset_card_mono)
qed simp

declare walk_display.simps [simp del]

definition requireDisplayColumn :: "string \<Rightarrow> ds_column \<Rightarrow> string \<Rightarrow> 'w data_stores \<Rightarrow> store_error + unit" where
  "requireDisplayColumn storeId column displayColumnId s =
     (let columns = listColumns storeId (ds_tables s)
      in if displayColumnId = co_id column then Inl (InvalidColumnDefinition ''A column cannot be its own display column'')
         else if displayColumnId \<notin> co_id ` set columns then Inl (UnknownColumn {displayColumnId})
         else walk_display (map (\<lambda>c. (co_id c, md_displayColumnId (co_metadata c))) columns) (co_id column) [] displayColumnId)"

definition wrapAfter :: "ds_column \<Rightarrow> wrap_change option \<Rightarrow> column_wrap option" where
  "wrapAfter column change = (case change of None \<Rightarrow> md_wrap (co_metadata column) | Some Truncate \<Rightarrow> None | Some (Wrap maxLines) \<Rightarrow> Some maxLines)"

definition metadataAfter :: "string \<Rightarrow> ds_column \<Rightarrow> column_changes \<Rightarrow> 'w data_stores \<Rightarrow> store_error + column_metadata" where
  "metadataAfter storeId column ch s =
     (let kept = co_metadata column; format = opt_default (md_format kept) (ch_format ch); config = opt_default (md_config kept) (ch_config ch);
          displayColumnId = opt_default (md_displayColumnId kept) (ch_displayColumnId ch)
      in and_then (require (case format of None \<Rightarrow> True | Some f \<Rightarrow> COLUMN_TYPE_BY_FORMAT f = co_columnType column) (InvalidColumnDefinition ''The format must match the column type'')) (\<lambda>_.
         and_then (require (\<not> (opt_default None (ch_config ch) \<noteq> None \<and> co_columnType column \<noteq> NumberColumn)) (InvalidColumnDefinition ''Only a number column takes a config'')) (\<lambda>_.
         and_then (case displayColumnId of None \<Rightarrow> Inr () | Some d \<Rightarrow> requireDisplayColumn storeId column d s) (\<lambda>_.
           Inr \<lparr>md_required = opt_default (md_required kept) (ch_required ch), md_format = format,
                md_config = (if config = Some \<lparr>cc_symbol = None, cc_decimals = None, cc_ratingMax = None, cc_ratingIcon = None\<rparr> then None else config),
                md_displayColumnId = displayColumnId, md_displayWidth = opt_default (md_displayWidth kept) (ch_displayWidth ch), md_wrap = wrapAfter column (ch_wrap ch)\<rparr>))))"

fun replace_each :: "'w store_env \<Rightarrow> select_option list \<Rightarrow> option_replacement list \<Rightarrow> 'w data_stores \<Rightarrow> store_error + select_option list \<times> 'w data_stores" where
  "replace_each env current [] s = Inr ([], s)"
| "replace_each env current (r # rs) s =
     (let kept = (case or_id r of None \<Rightarrow> find (\<lambda>o'. so_label o' = or_label r) current | Some i \<Rightarrow> find (\<lambda>o'. so_id o' = i) current)
      in if or_id r \<noteq> None \<and> kept = None then Inl (InvalidColumnDefinition ''Option id does not belong to this column'')
         else (let (i, s1) = (case kept of Some o' \<Rightarrow> (so_id o', s) | None \<Rightarrow> fresh env s)
               in and_then (replace_each env current rs s1) (\<lambda>(os, s2). Inr (\<lparr>so_id = i, so_label = or_label r, so_color = or_color r\<rparr> # os, s2))))"

definition replacedOptions :: "'w store_env \<Rightarrow> ds_column \<Rightarrow> option_replacement list \<Rightarrow> 'w data_stores \<Rightarrow> store_error + select_option list option \<times> 'w data_stores" where
  "replacedOptions env column replacements s =
     (if co_columnType column \<noteq> SelectColumn then Inl (InvalidColumnDefinition ''Only a select column takes options; a column cannot change type'')
      else and_then (replace_each env (opt_default [] (co_options column)) replacements s) (\<lambda>(os, s1).
             if \<not> distinct (map (\<lambda>o'. te_lower (sv_text env) (so_label o')) os) then Inl (InvalidColumnDefinition ''Option labels must be unique, whatever their case'')
             else and_then (validateColumnDefinition SelectColumn (Some os)) (\<lambda>valid. Inr (valid, s1))))"

definition refuseOptionsStillHeldByRows :: "string \<Rightarrow> ds_column \<Rightarrow> select_option list option \<Rightarrow> 'w data_stores \<Rightarrow> store_error + unit" where
  "refuseOptionsStillHeldByRows storeId column options s =
     (if co_columnType column \<noteq> SelectColumn then Inr ()
      else (let removed = filter (\<lambda>i. i \<notin> so_id ` set (opt_default [] options)) (held_texts storeId (co_id column) (ds_tables s))
            in require (removed = []) (OptionsHeldByRows (rev (remdups (rev removed))))))"

definition updateColumn :: "'w store_env \<Rightarrow> string \<Rightarrow> string \<Rightarrow> string \<Rightarrow> column_changes \<Rightarrow> 'w data_stores \<Rightarrow> store_error + 'w data_stores" where
  "updateColumn env storeId projectId columnId ch s =
     and_then (authorize storeId projectId s) (\<lambda>_.
     and_then (require (\<not> hasNothingToUpdate ch) (InvalidColumnDefinition ''Nothing to update: pass name, natural_key, options or a column metadata field'')) (\<lambda>_.
     and_then (requireColumn storeId columnId s) (\<lambda>column.
     and_then (case ch_name ch of None \<Rightarrow> Inr (co_displayName column) | Some name \<Rightarrow> normalizeName env name) (\<lambda>displayName.
     and_then (case ch_options ch of None \<Rightarrow> Inr (co_options column, s) | Some os \<Rightarrow> replacedOptions env column os s) (\<lambda>(options, s1).
     and_then (metadataAfter storeId column ch s1) (\<lambda>metadata.
     and_then (if ch_options ch = None then Inr () else refuseOptionsStillHeldByRows storeId column options s1) (\<lambda>_.
     and_then (with_tables s1 (updateColumn_row storeId (co_id column) displayName options metadata (ds_tables s1))) (\<lambda>s2.
       case ch_naturalKey ch of None \<Rightarrow> Inr s2 | Some isNaturalKey \<Rightarrow> applyNaturalKeyChoice env storeId projectId (co_id column) isNaturalKey s2))))))))"

definition deleteColumn :: "'w store_env \<Rightarrow> string \<Rightarrow> string \<Rightarrow> string \<Rightarrow> row_actor \<Rightarrow> 'w data_stores \<Rightarrow> store_error + 'w data_stores" where
  "deleteColumn env storeId projectId columnId actor s =
     and_then (authorize storeId projectId s) (\<lambda>_.
     and_then (requireColumn storeId columnId s) (\<lambda>column.
       if naturalKeyColumnId storeId s = Some (co_id column) then Inl (ColumnIsNaturalKey (co_displayName column))
       else case find (\<lambda>v. viewConfigReferences (vw_config v) (co_id column)) (listViews storeId (ds_tables s)) of
         Some view \<Rightarrow> Inl (ColumnUsedByView (co_displayName column) (vw_displayName view))
       | None \<Rightarrow>
           (case find (\<lambda>c. md_displayColumnId (co_metadata c) = Some (co_id column)) (listColumns storeId (ds_tables s)) of
              Some labelled \<Rightarrow> Inl (ColumnIsDisplayColumn (co_displayName column) (co_displayName labelled))
            | None \<Rightarrow> (let (at', s1) = tick env s in deleteColumn_row env storeId (co_id column) actor at' s1))))"

definition reorderColumns :: "string \<Rightarrow> string \<Rightarrow> string list \<Rightarrow> 'w data_stores \<Rightarrow> store_error + ds_column list \<times> 'w data_stores" where
  "reorderColumns storeId projectId columnIds s =
     and_then (authorize storeId projectId s) (\<lambda>_.
       let storedIds = map co_id (listColumns storeId (ds_tables s));
           missingIds = filter (\<lambda>i. i \<notin> set columnIds) storedIds;
           unknownIds = filter (\<lambda>i. i \<notin> set storedIds) columnIds;
           repeatedIds = map snd (filter (\<lambda>(position, i). i \<in> set (take position columnIds)) (enumerate 0 columnIds));
           s1 = on_store_tables (reorderColumns_rows storeId columnIds) s
       in if missingIds = [] \<and> unknownIds = [] \<and> repeatedIds = [] then Inr (listColumns storeId (ds_tables s1), s1)
          else Inl (ColumnOrderMismatch missingIds unknownIds repeatedIds))"

section \<open>The row guard\<close>

definition nameKey :: "'w store_env \<Rightarrow> string \<Rightarrow> string" where
  "nameKey env name = te_lower (sv_text env) (js_trim (te_nfc (sv_text env) name))"

definition columnNamed :: "'w store_env \<Rightarrow> ds_column list \<Rightarrow> string \<Rightarrow> ds_column option" where
  "columnNamed env columns name = find (\<lambda>c. nameKey env (co_displayName c) = name) columns"

definition optionIdLabelled :: "'w store_env \<Rightarrow> ds_column option \<Rightarrow> string \<Rightarrow> string option" where
  "optionIdLabelled env column label =
     (case column of None \<Rightarrow> None | Some c \<Rightarrow> map_option so_id (find (\<lambda>o'. nameKey env (so_label o') = label) (opt_default [] (co_options c))))"

definition textOf :: "'w store_env \<Rightarrow> json option \<Rightarrow> string" where
  "textOf env cell = (case cell of Some (JStr s) \<Rightarrow> te_nfc (sv_text env) s | _ \<Rightarrow> '''')"

definition patched :: "patch \<Rightarrow> string \<Rightarrow> json option" where
  "patched p columnId = (case fmlookup p columnId of Some (Some v) \<Rightarrow> Some v | _ \<Rightarrow> None)"

definition touches :: "patch \<Rightarrow> ds_column option \<Rightarrow> bool" where
  "touches p column = (case column of None \<Rightarrow> False | Some c \<Rightarrow> patched p (co_id c) \<noteq> None)"

definition resultingCell :: "ds_row \<Rightarrow> patch \<Rightarrow> ds_column \<Rightarrow> json option" where
  "resultingCell current p column = (case patched p (co_id column) of None \<Rightarrow> fmlookup (rw_data current) (co_id column) | Some v \<Rightarrow> Some v)"

definition shortens_journal :: "'w store_env \<Rightarrow> ds_column list \<Rightarrow> ds_row \<Rightarrow> patch \<Rightarrow> bool" where
  "shortens_journal env columns current p =
     (case columnNamed env columns ''journal'' of
        None \<Rightarrow> False
      | Some journal \<Rightarrow>
          patched p (co_id journal) \<noteq> None
          \<and> \<not> starts_with (textOf env (patched p (co_id journal))) (textOf env (fmlookup (rw_data current) (co_id journal))))"

definition done_without_url :: "'w store_env \<Rightarrow> ds_column list \<Rightarrow> ds_row \<Rightarrow> patch \<Rightarrow> bool" where
  "done_without_url env columns current p =
     (let status = columnNamed env columns ''status''; prUrl = columnNamed env columns ''pr_url''; step = columnNamed env columns ''step''
      in case (status, prUrl) of
           (Some st, Some url) \<Rightarrow>
             (touches p status \<or> touches p prUrl \<or> touches p step)
             \<and> (case optionIdLabelled env status ''done'' of None \<Rightarrow> False | Some i \<Rightarrow> resultingCell current p st = Some (JStr i))
             \<and> js_trim (textOf env (resultingCell current p url)) = ''''
             \<and> \<not> (case step of None \<Rightarrow> False | Some c \<Rightarrow> (case optionIdLabelled env step ''cancelled'' of None \<Rightarrow> False | Some i \<Rightarrow> resultingCell current p c = Some (JStr i)))
         | _ \<Rightarrow> False)"

definition rowGuardViolationOf :: "'w store_env \<Rightarrow> ds_column list \<Rightarrow> ds_row \<Rightarrow> patch \<Rightarrow> row_guard_violation option" where
  "rowGuardViolationOf env columns current p =
     (if shortens_journal env columns current p then Some JournalShortened
      else if done_without_url env columns current p then Some DoneWithoutPrUrl else None)"

section \<open>Rows\<close>

definition MAX_ROWS_PER_STORE :: nat where "MAX_ROWS_PER_STORE = 10000"

definition MANAGER_LOG_KINDS :: "string list" where
  "MANAGER_LOG_KINDS =
     [''pulse'', ''sleep'', ''spawn'', ''respawn'', ''close'', ''relay'', ''pending_relay'', ''fix'', ''proposal'', ''governance'',
      ''event'', ''verify'', ''incident'', ''decision'', ''handover'', ''openfleet'', ''debloat'', ''question'', ''finding'', ''blocked'']"

definition BACKLOG_TABLE_NAME :: string where "BACKLOG_TABLE_NAME = ''Manager backlog''"

definition storeNameKey :: "'w store_env \<Rightarrow> string \<Rightarrow> string" where
  "storeNameKey env name = te_lower (sv_text env) (collapse_spaces (js_trim (te_nfc (sv_text env) name)))"

definition daemonSetColumns :: "ds_column list \<Rightarrow> ds_column list" where
  "daemonSetColumns columns = filter co_autoValue columns"

definition withDaemonSetCells :: "ds_column list \<Rightarrow> patch \<Rightarrow> string \<Rightarrow> patch" where
  "withDaemonSetCells columns cells at' = cells ++\<^sub>f fmap_of_list (map (\<lambda>c. (co_id c, Some (JStr at'))) columns)"

definition refuseDaemonSetCells :: "string \<Rightarrow> patch \<Rightarrow> 'w data_stores \<Rightarrow> store_error + unit" where
  "refuseDaemonSetCells storeId p s =
     (case find (\<lambda>c. patched p (co_id c) \<noteq> None) (daemonSetColumns (listColumns storeId (ds_tables s))) of
        None \<Rightarrow> Inr () | Some c \<Rightarrow> Inl (DaemonSetColumn (co_id c)))"

definition validateCells :: "'w store_env \<Rightarrow> ds_column list \<Rightarrow> patch \<Rightarrow> store_error + unit" where
  "validateCells env columns cells =
     and_then (assertKnownColumns columns (fmdom' cells)) (\<lambda>_.
       case find (\<lambda>c. case patched cells (co_id c) of None \<Rightarrow> False | Some v \<Rightarrow> \<not> isValidCell env c v) columns of
         None \<Rightarrow> Inr () | Some c \<Rightarrow> Inl (InvalidCellValue (co_id c)))"

definition refuseKindOutsideManagerLogList :: "'w store_env \<Rightarrow> string \<Rightarrow> ds_column list \<Rightarrow> patch \<Rightarrow> 'w data_stores \<Rightarrow> store_error + unit" where
  "refuseKindOutsideManagerLogList env storeId columns cells s =
     (case find (\<lambda>c. te_lower (sv_text env) (js_trim (co_displayName c)) = ''kind'') columns of
        None \<Rightarrow> Inr ()
      | Some kindColumn \<Rightarrow>
          (case patched cells (co_id kindColumn) of
             None \<Rightarrow> Inr ()
           | Some writtenCell \<Rightarrow>
               if writtenCell = JNull then Inr ()
               else (let label = (\<lambda>v. case find (\<lambda>o'. JStr (so_id o') = v) (opt_default [] (co_options kindColumn)) of None \<Rightarrow> v | Some o' \<Rightarrow> JStr (so_label o'));
                         writtenKind = (if co_columnType kindColumn = SelectColumn then label writtenCell else writtenCell)
                     in if writtenKind \<in> JStr ` set MANAGER_LOG_KINDS then Inr ()
                        else require (\<not> sv_isManagerLog env (ds_world s) storeId) (LogKindNotAllowed writtenKind))))"

definition assertRowCapacity :: "string \<Rightarrow> nat \<Rightarrow> 'w data_stores \<Rightarrow> store_error + unit" where
  "assertRowCapacity storeId additionalRows s = require (countRows storeId (ds_tables s) + additionalRows \<le> MAX_ROWS_PER_STORE) StoreRowCap"

definition refuseInsertIntoSharedBacklog :: "'w store_env \<Rightarrow> string \<Rightarrow> string \<Rightarrow> row_actor \<Rightarrow> bool \<Rightarrow> 'w data_stores \<Rightarrow> store_error + unit" where
  "refuseInsertIntoSharedBacklog env storeId projectId actor callerIsManager s =
     (if \<not> (ac_kind actor = AgentActor \<and> \<not> callerIsManager) \<or> \<not> isSharedRepo env (ds_world s) projectId then Inr ()
      else require (storeNameKey env (opt_default '''' (map_option st_displayName (findStore storeId (ds_tables s)))) \<noteq> toLowerCase BACKLOG_TABLE_NAME) BacklogWriteRefused)"

definition refuseNaturalKeyHeldByAnotherRow :: "'w store_env \<Rightarrow> string \<Rightarrow> string \<Rightarrow> patch \<Rightarrow> 'w data_stores \<Rightarrow> store_error + unit" where
  "refuseNaturalKeyHeldByAnotherRow env storeId rowId p s =
     (case naturalKeyColumnId storeId s of
        None \<Rightarrow> Inr ()
      | Some column \<Rightarrow>
          (case patched p column of
             Some (JStr key) \<Rightarrow>
               and_then (runQuery env storeId [key_clause column key] [] None s) (\<lambda>rows. require (\<not> list_ex (\<lambda>r. rw_id r \<noteq> rowId) rows) (NaturalKeyConflict key))
           | _ \<Rightarrow> Inr ()))"

definition refuseRowGuardViolation :: "'w store_env \<Rightarrow> string \<Rightarrow> string \<Rightarrow> string \<Rightarrow> patch \<Rightarrow> 'w data_stores \<Rightarrow> store_error + unit" where
  "refuseRowGuardViolation env storeId rowId projectId p s =
     (if \<not> isRowGuardEnabled env (ds_world s) projectId then Inr ()
      else case findRow rowId storeId (ds_tables s) of
        None \<Rightarrow> Inr ()
      | Some current \<Rightarrow>
          (case rowGuardViolationOf env (listColumns storeId (ds_tables s)) current p of None \<Rightarrow> Inr () | Some violation \<Rightarrow> Inl (RowGuardViolation violation)))"

definition notifyRowWrite :: "string \<Rightarrow> string \<Rightarrow> ds_column list \<Rightarrow> patch \<Rightarrow> row_actor \<Rightarrow> bool \<Rightarrow> 'w data_stores \<Rightarrow> 'w data_stores" where
  "notifyRowWrite storeId projectId columns cells actor writtenByDaemon s =
     s\<lparr>ds_events := ds_events s @ [RowWritten \<lparr>ow_projectId = projectId, ow_storeId = storeId, ow_columns = columns, ow_cells = cells, ow_actor = actor, ow_writtenByDaemon = writtenByDaemon\<rparr>]\<rparr>"

record insert_scope =
  is_projectId :: string
  is_actor :: row_actor
  is_callerIsManager :: bool

text \<open>The write of one new row, inside the transaction of the call.\<close>

definition write_new_row :: "'w store_env \<Rightarrow> string \<Rightarrow> insert_scope \<Rightarrow> ds_column list \<Rightarrow> patch \<times> string \<Rightarrow> 'w data_stores \<Rightarrow> store_error + ds_row \<times> 'w data_stores" where
  "write_new_row env storeId scope columns new s =
     (let (data, at') = new; (rowId, s1) = fresh env s
      in and_then (refuseNaturalKeyHeldByAnotherRow env storeId rowId data s1) (\<lambda>_.
         and_then (insertRow_row env storeId rowId data (is_actor scope) at' s1) (\<lambda>(row, s2).
           Inr (row, notifyRowWrite storeId (is_projectId scope) columns data (is_actor scope) False s2))))"

definition insertRow :: "'w store_env \<Rightarrow> string \<Rightarrow> insert_scope \<Rightarrow> patch \<Rightarrow> 'w data_stores \<Rightarrow> store_error + ds_row \<times> 'w data_stores" where
  "insertRow env storeId scope given s =
     and_then (authorize storeId (is_projectId scope) s) (\<lambda>_.
     and_then (refuseInsertIntoSharedBacklog env storeId (is_projectId scope) (is_actor scope) (is_callerIsManager scope) s) (\<lambda>_.
       let (at', s1) = tick env s; columns = listColumns storeId (ds_tables s1); data = withDaemonSetCells (daemonSetColumns columns) given at'
       in and_then (validateCells env columns data) (\<lambda>_.
          and_then (refuseKindOutsideManagerLogList env storeId columns data s1) (\<lambda>_.
          and_then (assertRowCapacity storeId 1 s1) (\<lambda>_.
            write_new_row env storeId scope columns (data, at') s1)))))"

fun stamp_rows :: "'w store_env \<Rightarrow> ds_column list \<Rightarrow> patch list \<Rightarrow> 'w data_stores \<Rightarrow> (patch \<times> string) list \<times> 'w data_stores" where
  "stamp_rows env columns [] s = ([], s)"
| "stamp_rows env columns (item # items) s =
     (let (at', s1) = tick env s; (stamped, s2) = stamp_rows env columns items s1 in ((withDaemonSetCells columns item at', at') # stamped, s2))"

fun each_row :: "('x \<Rightarrow> 's \<Rightarrow> 'e + 'r \<times> 's) \<Rightarrow> 'x list \<Rightarrow> 's \<Rightarrow> 'e + 'r list \<times> 's" where
  "each_row f [] s = Inr ([], s)"
| "each_row f (x # xs) s = and_then (f x s) (\<lambda>(r, s1). and_then (each_row f xs s1) (\<lambda>(rs, s2). Inr (r # rs, s2)))"

definition check_all :: "('x \<Rightarrow> store_error + unit) \<Rightarrow> 'x list \<Rightarrow> store_error + unit" where
  "check_all f xs = and_then (traverse f xs) (\<lambda>_. Inr ())"

definition insertRows :: "'w store_env \<Rightarrow> string \<Rightarrow> insert_scope \<Rightarrow> patch list \<Rightarrow> 'w data_stores \<Rightarrow> store_error + ds_row list \<times> 'w data_stores" where
  "insertRows env storeId scope items s =
     and_then (authorize storeId (is_projectId scope) s) (\<lambda>_.
     and_then (refuseInsertIntoSharedBacklog env storeId (is_projectId scope) (is_actor scope) (is_callerIsManager scope) s) (\<lambda>_.
       let columns = listColumns storeId (ds_tables s); (stampedRows, s1) = stamp_rows env (daemonSetColumns columns) items s
       in and_then (check_all (\<lambda>(data, _). and_then (validateCells env columns data) (\<lambda>_. refuseKindOutsideManagerLogList env storeId columns data s1)) stampedRows) (\<lambda>_.
          and_then (assertRowCapacity storeId (length items) s1) (\<lambda>_.
            each_row (write_new_row env storeId scope columns) stampedRows s1))))"

definition updateRow :: "'w store_env \<Rightarrow> string \<Rightarrow> string \<Rightarrow> string \<Rightarrow> patch \<Rightarrow> row_actor \<Rightarrow> bool \<Rightarrow> 'w data_stores \<Rightarrow> store_error + ds_row \<times> 'w data_stores" where
  "updateRow env storeId rowId projectId p actor writtenByDaemon s =
     and_then (authorize storeId projectId s) (\<lambda>_. and_then (refuseDaemonSetCells storeId p s) (\<lambda>_.
       let columns = listColumns storeId (ds_tables s)
       in and_then (validateCells env columns p) (\<lambda>_. and_then (refuseKindOutsideManagerLogList env storeId columns p s) (\<lambda>_.
          and_then (refuseNaturalKeyHeldByAnotherRow env storeId rowId p s) (\<lambda>_. and_then (refuseRowGuardViolation env storeId rowId projectId p s) (\<lambda>_.
            let (at', s1) = tick env s
            in and_then (updateRow_row env rowId storeId p None actor at' s1) (\<lambda>(row, s2).
                 Inr (row, notifyRowWrite storeId projectId columns p actor writtenByDaemon s2))))))))"

record row_update =
  ru_rowId :: string
  ru_patch :: patch
  ru_expectedRev :: "nat option"

definition write_row_update :: "'w store_env \<Rightarrow> string \<Rightarrow> string \<Rightarrow> row_actor \<Rightarrow> ds_column list \<Rightarrow> row_update \<Rightarrow> 'w data_stores \<Rightarrow> store_error + ds_row \<times> 'w data_stores" where
  "write_row_update env storeId projectId actor columns item s =
     and_then (refuseNaturalKeyHeldByAnotherRow env storeId (ru_rowId item) (ru_patch item) s) (\<lambda>_.
     and_then (refuseRowGuardViolation env storeId (ru_rowId item) projectId (ru_patch item) s) (\<lambda>_.
       let (at', s1) = tick env s
       in and_then (updateRow_row env (ru_rowId item) storeId (ru_patch item) (ru_expectedRev item) actor at' s1) (\<lambda>(row, s2).
            Inr (row, notifyRowWrite storeId projectId columns (ru_patch item) actor False s2))))"

definition updateRows :: "'w store_env \<Rightarrow> string \<Rightarrow> string \<Rightarrow> row_update list \<Rightarrow> row_actor \<Rightarrow> 'w data_stores \<Rightarrow> store_error + ds_row list \<times> 'w data_stores" where
  "updateRows env storeId projectId items actor s =
     and_then (authorize storeId projectId s) (\<lambda>_.
       let columns = listColumns storeId (ds_tables s)
       in and_then (check_all (\<lambda>item. and_then (refuseDaemonSetCells storeId (ru_patch item) s) (\<lambda>_. and_then (validateCells env columns (ru_patch item)) (\<lambda>_.
            refuseKindOutsideManagerLogList env storeId columns (ru_patch item) s))) items) (\<lambda>_.
            each_row (write_row_update env storeId projectId actor columns) items s))"

definition updateRowsWhere :: "'w store_env \<Rightarrow> string \<Rightarrow> string \<Rightarrow> where_clause list \<Rightarrow> patch \<Rightarrow> row_actor \<Rightarrow> 'w data_stores \<Rightarrow> store_error + (nat \<times> ds_row list) \<times> 'w data_stores" where
  "updateRowsWhere env storeId projectId clauses cells actor s =
     and_then (authorize storeId projectId s) (\<lambda>_. and_then (refuseDaemonSetCells storeId cells s) (\<lambda>_.
     and_then (validateCells env (listColumns storeId (ds_tables s)) cells) (\<lambda>_. and_then (runQuery env storeId clauses [] None s) (\<lambda>matchedRows.
     and_then (require (\<not> ((case naturalKeyColumnId storeId s of None \<Rightarrow> False | Some c \<Rightarrow> c \<in> fmdom' cells) \<and> 1 < length matchedRows)) (NaturalKeyOnSeveralRows (length matchedRows))) (\<lambda>_.
     and_then (updateRows env storeId projectId (map (\<lambda>r. \<lparr>ru_rowId = rw_id r, ru_patch = cells, ru_expectedRev = None\<rparr>) matchedRows) actor s) (\<lambda>(updated, s1).
       Inr ((length matchedRows, updated), s1)))))))"

datatype save_mode = SaveCreate | SaveUpsert | SaveUpdate

text \<open>The row of a saved key, and whether it was inserted.\<close>

definition saveRow :: "'w store_env \<Rightarrow> string \<Rightarrow> insert_scope \<Rightarrow> patch \<Rightarrow> save_mode \<Rightarrow> 'w data_stores \<Rightarrow> store_error + (bool \<times> ds_row) \<times> 'w data_stores" where
  "saveRow env storeId scope data mode s =
     and_then (authorize storeId (is_projectId scope) s) (\<lambda>_.
       let inserted = and_then (insertRow env storeId scope data s) (\<lambda>(row, s1). Inr ((True, row), s1))
       in case naturalKeyColumnId storeId s of
            None \<Rightarrow> if mode = SaveUpdate then Inl NoNaturalKey else inserted
          | Some column \<Rightarrow>
              (case opt_default JNull (patched data column) of
                 JNull \<Rightarrow> if mode \<noteq> SaveCreate then Inl NaturalKeyMissing else inserted
               | JStr key \<Rightarrow>
                   and_then (runQuery env storeId [key_clause column key] [] (Some 2) s) (\<lambda>rows.
                     case rows of
                       [] \<Rightarrow> if mode = SaveUpdate then Inl (NaturalKeyNotFound key) else inserted
                     | [row] \<Rightarrow>
                         if mode = SaveCreate then Inl (NaturalKeyConflict key)
                         else (let daemonSet = co_id ` set (daemonSetColumns (listColumns storeId (ds_tables s)))
                               in and_then (updateRow env storeId (rw_id row) (is_projectId scope) (fmfilter (\<lambda>c. c \<notin> daemonSet) data) (is_actor scope) False s) (\<lambda>(row, s1).
                                    Inr ((False, row), s1)))
                     | _ \<Rightarrow> Inl AmbiguousNaturalKey)
               | _ \<Rightarrow> Inl (InvalidCellValue column)))"

definition deleteRow :: "'w store_env \<Rightarrow> string \<Rightarrow> string \<Rightarrow> string \<Rightarrow> row_actor \<Rightarrow> 'w data_stores \<Rightarrow> store_error + 'w data_stores" where
  "deleteRow env storeId rowId projectId actor s =
     and_then (authorize storeId projectId s) (\<lambda>_. let (at', s1) = tick env s in deleteRow_row env rowId storeId actor at' s1)"

definition ignoredDaemonSetColumnIds :: "string \<Rightarrow> string \<Rightarrow> patch list \<Rightarrow> 'w data_stores \<Rightarrow> store_error + string list" where
  "ignoredDaemonSetColumnIds storeId projectId items s =
     and_then (authorize storeId projectId s) (\<lambda>_.
       Inr (filter (\<lambda>c. list_ex (\<lambda>item. c \<in> fmdom' item) items) (map co_id (daemonSetColumns (listColumns storeId (ds_tables s))))))"

section \<open>Stores\<close>

definition createStore :: "'w store_env \<Rightarrow> string \<Rightarrow> string \<Rightarrow> 'w data_stores \<Rightarrow> store_error + data_store \<times> 'w data_stores" where
  "createStore env projectId displayName s =
     and_then (normalizeName env displayName) (\<lambda>name. let (i, s1) = fresh env s; (at', s2) = tick env s1 in createStore_row env i projectId name at' s2)"

definition deleteStore :: "string \<Rightarrow> string \<Rightarrow> bool \<Rightarrow> 'w data_stores \<Rightarrow> store_error + 'w data_stores" where
  "deleteStore storeId projectId force s =
     and_then (authorize storeId projectId s) (\<lambda>_.
       let rowCount = countRows storeId (ds_tables s)
       in if 0 < rowCount \<and> \<not> force then Inl (StoreHasRows rowCount) else Inr (on_store_tables (deleteStore_row storeId) s))"

section \<open>Views\<close>

definition MAX_VIEW_CONFIG_BYTES :: nat where "MAX_VIEW_CONFIG_BYTES = 16 * 1024"
definition NO_VALUE_GROUP_ID :: string where "NO_VALUE_GROUP_ID = ''__no_value__''"

text \<open>The configuration as JSON, its absent fields left out.\<close>

definition given :: "string \<Rightarrow> ('a \<Rightarrow> json) \<Rightarrow> 'a option \<Rightarrow> (string \<times> json) list" where
  "given name f x = (case x of None \<Rightarrow> [] | Some v \<Rightarrow> [(name, f v)])"

definition operator_name :: "where_operator \<Rightarrow> string" where
  "operator_name op =
     (case op of OpEq \<Rightarrow> ''eq'' | OpNeq \<Rightarrow> ''neq'' | OpGt \<Rightarrow> ''gt'' | OpGte \<Rightarrow> ''gte'' | OpLt \<Rightarrow> ''lt'' | OpLte \<Rightarrow> ''lte'' | OpContains \<Rightarrow> ''contains'' | OpIn \<Rightarrow> ''in'')"

definition config_json :: "view_config \<Rightarrow> json" where
  "config_json config =
     (let texts = (\<lambda>ids. JArr (map JStr ids))
      in JObj (given ''where'' (\<lambda>cs. JArr (map (\<lambda>c. JObj ([(''columnId'', JStr (wc_columnId c)), (''op'', JStr (operator_name (wc_op c)))] @ given ''value'' id (wc_value c))) cs)) (vc_where config)
           @ given ''orderBy'' (\<lambda>ts. JArr (map (\<lambda>x. JObj [(''columnId'', JStr (ot_columnId x)), (''dir'', JStr (if ot_ascending x then ''asc'' else ''desc''))]) ts)) (vc_orderBy config)
           @ given ''groupByColumnId'' JStr (vc_groupByColumnId config) @ given ''cardTitleColumnId'' JStr (vc_cardTitleColumnId config)
           @ given ''cardFields'' texts (vc_cardFields config) @ given ''columnOrder'' texts (vc_columnOrder config) @ given ''showUngrouped'' JBool (vc_showUngrouped config)))"

definition UniqueIdsSchema :: "string list option \<Rightarrow> bool" where
  "UniqueIdsSchema ids = (case ids of None \<Rightarrow> True | Some is \<Rightarrow> '''' \<notin> set is \<and> distinct is)"

definition DsViewConfigSchema :: "view_config \<Rightarrow> bool" where
  "DsViewConfigSchema config \<longleftrightarrow>
     '''' \<notin> set (map wc_columnId (opt_default [] (vc_where config)) @ map ot_columnId (opt_default [] (vc_orderBy config)))
     \<and> vc_groupByColumnId config \<noteq> Some '''' \<and> vc_cardTitleColumnId config \<noteq> Some '''' \<and> UniqueIdsSchema (vc_cardFields config) \<and> UniqueIdsSchema (vc_columnOrder config)"

definition column_with :: "string option \<Rightarrow> ds_column list \<Rightarrow> ds_column option" where
  "column_with i columns = (case i of None \<Rightarrow> None | Some c \<Rightarrow> find (\<lambda>x. co_id x = c) columns)"

definition assertValidGroupByColumn :: "string \<Rightarrow> view_type \<Rightarrow> view_config \<Rightarrow> 'w data_stores \<Rightarrow> store_error + unit" where
  "assertValidGroupByColumn storeId viewType config s =
     (if viewType \<noteq> Kanban then Inr ()
      else require (map_option co_columnType (column_with (vc_groupByColumnId config) (listColumns storeId (ds_tables s))) = Some SelectColumn)
             (InvalidViewConfig ''A kanban view needs a select column of the same store to group by''))"

definition assertValidColumnOrder :: "string \<Rightarrow> view_config \<Rightarrow> 'w data_stores \<Rightarrow> store_error + unit" where
  "assertValidColumnOrder storeId config s =
     (case vc_columnOrder config of
        None \<Rightarrow> Inr ()
      | Some ids \<Rightarrow>
          (case column_with (vc_groupByColumnId config) (listColumns storeId (ds_tables s)) of
             None \<Rightarrow> Inl (InvalidViewConfig ''columnOrder requires a select group-by column'')
           | Some groupColumn \<Rightarrow>
               if co_columnType groupColumn \<noteq> SelectColumn then Inl (InvalidViewConfig ''columnOrder requires a select group-by column'')
               else require (set ids \<subseteq> so_id ` set (opt_default [] (co_options groupColumn))) (InvalidViewConfig ''columnOrder must reference options of the group-by column'')))"

definition validatedConfig :: "'w store_env \<Rightarrow> string \<Rightarrow> view_type \<Rightarrow> view_config \<Rightarrow> 'w data_stores \<Rightarrow> store_error + view_config" where
  "validatedConfig env storeId viewType config s =
     and_then (require (DsViewConfigSchema config) (InvalidViewConfig ''Invalid view config'')) (\<lambda>_.
     and_then (require (length (written (sv_num env) (config_json config)) \<le> MAX_VIEW_CONFIG_BYTES) (InvalidViewConfig ''View config is too large'')) (\<lambda>_.
     and_then (requireColumns storeId (map wc_columnId (opt_default [] (vc_where config)) @ map ot_columnId (opt_default [] (vc_orderBy config))
         @ (case vc_groupByColumnId config of Some c \<Rightarrow> [c] | None \<Rightarrow> []) @ (case vc_cardTitleColumnId config of Some c \<Rightarrow> [c] | None \<Rightarrow> []) @ opt_default [] (vc_cardFields config)) s) (\<lambda>_.
     and_then (assertValidGroupByColumn storeId viewType config s) (\<lambda>_.
     and_then (assertValidColumnOrder storeId config s) (\<lambda>_. Inr config)))))"

definition createView :: "'w store_env \<Rightarrow> string \<Rightarrow> string \<Rightarrow> string \<Rightarrow> view_type \<Rightarrow> view_config \<Rightarrow> 'w data_stores \<Rightarrow> store_error + ds_view \<times> 'w data_stores" where
  "createView env storeId projectId displayName viewType config s =
     and_then (authorize storeId projectId s) (\<lambda>_. and_then (normalizeName env displayName) (\<lambda>name.
     and_then (validatedConfig env storeId viewType config s) (\<lambda>valid.
       let (i, s1) = fresh env s; (at', s2) = tick env s1
       in and_then (insertView storeId i name viewType valid at' (ds_tables s2)) (\<lambda>(view, t). Inr (view, s2\<lparr>ds_tables := t\<rparr>)))))"

definition updateView :: "'w store_env \<Rightarrow> string \<Rightarrow> string \<Rightarrow> view_config \<Rightarrow> 'w data_stores \<Rightarrow> store_error + ds_view \<times> 'w data_stores" where
  "updateView env viewId projectId config s =
     and_then (authorizeView viewId projectId s) (\<lambda>view. and_then (validatedConfig env (vw_storeId view) (vw_viewType view) config s) (\<lambda>valid.
       Inr (view\<lparr>vw_config := valid\<rparr>, on_store_tables (updateView_row viewId valid) s)))"

definition deleteView :: "string \<Rightarrow> string \<Rightarrow> 'w data_stores \<Rightarrow> store_error + 'w data_stores" where
  "deleteView viewId projectId s = and_then (authorizeView viewId projectId s) (\<lambda>_. Inr (on_store_tables (deleteView_row viewId) s))"

text \<open>The ids of \<open>columnOrder\<close> are distinct and so are those of the options of a column.\<close>

definition orderedKanbanOptions :: "select_option list \<Rightarrow> string list option \<Rightarrow> select_option list" where
  "orderedKanbanOptions options columnOrder =
     (let orderedIds = opt_default [] columnOrder
      in List.map_filter (\<lambda>i. find (\<lambda>o'. so_id o' = i) options) orderedIds @ filter (\<lambda>o'. so_id o' \<notin> set orderedIds) options)"

definition kanbanGroups :: "'w store_env \<Rightarrow> string \<Rightarrow> string \<Rightarrow> 'w data_stores \<Rightarrow> store_error + (select_option \<times> ds_row list) list" where
  "kanbanGroups env viewId projectId s =
     and_then (authorizeView viewId projectId s) (\<lambda>view.
       let config = vw_config view
       in case column_with (vc_groupByColumnId config) (listColumns (vw_storeId view) (ds_tables s)) of
            None \<Rightarrow> Inl (InvalidViewConfig ''The kanban group-by column must be a select column'')
          | Some groupBy \<Rightarrow>
              if co_columnType groupBy \<noteq> SelectColumn then Inl (InvalidViewConfig ''The kanban group-by column must be a select column'')
              else and_then (runQuery env (vw_storeId view) (opt_default [] (vc_where config)) (opt_default [] (vc_orderBy config)) None s) (\<lambda>rows.
                let options = orderedKanbanOptions (opt_default [] (co_options groupBy)) (vc_columnOrder config);
                    groups = map (\<lambda>o'. (o', filter (\<lambda>r. fmlookup (rw_data r) (co_id groupBy) = Some (JStr (so_id o'))) rows)) options;
                    ungroupedRows = filter (\<lambda>r. fmlookup (rw_data r) (co_id groupBy) \<notin> (Some \<circ> JStr \<circ> so_id) ` set options) rows
                in Inr (if vc_showUngrouped config \<noteq> Some True \<or> ungroupedRows = [] then groups
                        else groups @ [(\<lparr>so_id = NO_VALUE_GROUP_ID, so_label = ''No value'', so_color = None\<rparr>, ungroupedRows)])))"

section \<open>Calls in sequence\<close>

datatype store_op =
    CreateStore string string
  | AddColumn string string new_column
  | UpdateColumn string string string column_changes
  | DeleteColumn string string string row_actor
  | ReorderColumns string string "string list"
  | SetNaturalKey string string "string option"
  | SaveRow string insert_scope patch save_mode
  | InsertRow string insert_scope patch
  | InsertRows string insert_scope "patch list"
  | UpdateRow string string string patch row_actor bool
  | UpdateRows string string "row_update list" row_actor
  | UpdateRowsWhere string string "where_clause list" patch row_actor
  | DeleteRow string string string row_actor
  | DeleteStore string string bool
  | CreateView string string string view_type view_config
  | UpdateView string string view_config
  | DeleteView string string

definition forget_result :: "'e + 'a \<times> 's \<Rightarrow> 'e + 's" where
  "forget_result r = and_then r (\<lambda>(_, s). Inr s)"

fun store_call :: "'w store_env \<Rightarrow> store_op \<Rightarrow> 'w data_stores \<Rightarrow> store_error + 'w data_stores" where
  "store_call env (CreateStore projectId name) s = forget_result (createStore env projectId name s)"
| "store_call env (AddColumn storeId projectId column) s = forget_result (addColumn env storeId projectId column s)"
| "store_call env (UpdateColumn storeId projectId columnId changes) s = updateColumn env storeId projectId columnId changes s"
| "store_call env (DeleteColumn storeId projectId columnId actor) s = deleteColumn env storeId projectId columnId actor s"
| "store_call env (ReorderColumns storeId projectId ids) s = forget_result (reorderColumns storeId projectId ids s)"
| "store_call env (SetNaturalKey storeId projectId columnId) s = setNaturalKey env storeId projectId columnId s"
| "store_call env (SaveRow storeId scope data mode) s = forget_result (saveRow env storeId scope data mode s)"
| "store_call env (InsertRow storeId scope data) s = forget_result (insertRow env storeId scope data s)"
| "store_call env (InsertRows storeId scope items) s = forget_result (insertRows env storeId scope items s)"
| "store_call env (UpdateRow storeId rowId projectId p actor byDaemon) s = forget_result (updateRow env storeId rowId projectId p actor byDaemon s)"
| "store_call env (UpdateRows storeId projectId items actor) s = forget_result (updateRows env storeId projectId items actor s)"
| "store_call env (UpdateRowsWhere storeId projectId clauses cells actor) s = forget_result (updateRowsWhere env storeId projectId clauses cells actor s)"
| "store_call env (DeleteRow storeId rowId projectId actor) s = deleteRow env storeId rowId projectId actor s"
| "store_call env (DeleteStore storeId projectId force) s = deleteStore storeId projectId force s"
| "store_call env (CreateView storeId projectId name viewType config) s = forget_result (createView env storeId projectId name viewType config s)"
| "store_call env (UpdateView viewId projectId config) s = forget_result (updateView env viewId projectId config s)"
| "store_call env (DeleteView viewId projectId) s = deleteView viewId projectId s"

text \<open>A call that throws leaves the tables as they were.\<close>

definition store_step :: "'w store_env \<times> store_op \<Rightarrow> 'w data_stores \<Rightarrow> 'w data_stores" where
  "store_step call s = (case store_call (fst call) (snd call) s of Inl e \<Rightarrow> s | Inr s1 \<Rightarrow> s1)"

definition store_run :: "('w store_env \<times> store_op) list \<Rightarrow> 'w data_stores \<Rightarrow> 'w data_stores" where
  "store_run calls s = fold store_step calls s"

definition store_start :: "'w \<Rightarrow> 'w data_stores" where
  "store_start w = \<lparr>ds_tables = \<lparr>ts_stores = [], ts_columns = [], ts_rows = [], ts_views = [], ts_history = [], ts_nextSeq = 1\<rparr>, ds_world = w, ds_events = []\<rparr>"

end
