(* ===== verification/Data_Store_Laws.thy ===== *)
theory Data_Store_Laws
  imports Data_Store_Service "HOL-Library.Multiset"
begin

text \<open>
  What every call on the tables of a project keeps: the references, types and keys of its tables, and a history in which every
  change of a row appears.
\<close>

section \<open>Results and sorted lists\<close>

lemma require_Inr [simp]: "require b e = Inr u \<longleftrightarrow> b"
  by (simp add: require_def)

lemma with_tables_Inr [simp]: "with_tables s r = Inr s' \<longleftrightarrow> (\<exists>t. r = Inr t \<and> s' = s\<lparr>ds_tables := t\<rparr>)"
  by (auto simp: with_tables_def)

lemma forget_result_Inr [simp]: "forget_result r = Inr s \<longleftrightarrow> (\<exists>x. r = Inr (x, s))"
  by (auto simp: forget_result_def)

lemma mset_insort_by [simp]: "mset (insort_by cmp x xs) = add_mset x (mset xs)"
  by (induction xs) auto

lemma mset_sort_by [simp]: "mset (sort_by cmp xs) = mset xs"
  by (induction xs) (simp_all add: sort_by_def)

lemma set_sort_by [simp]: "set (sort_by cmp xs) = set xs"
  using mset_sort_by by (rule mset_eq_setD)

lemma distinct_map_sort_by [simp]: "distinct (map f (sort_by cmp xs)) = distinct (map f xs)"
proof -
  have "mset (map f (sort_by cmp xs)) = mset (map f xs)" by (simp only: mset_map mset_sort_by)
  then show ?thesis using mset_eq_imp_distinct_iff by blast
qed

lemma length_sort_by [simp]: "length (sort_by cmp xs) = length xs"
  using mset_sort_by by (rule mset_eq_length)

lemma set_listColumns [simp]: "c \<in> set (listColumns storeId t) \<longleftrightarrow> c \<in> set (ts_columns t) \<and> co_storeId c = storeId"
  by (auto simp: listColumns_def)

lemma set_listRows [simp]: "r \<in> set (listRows storeId t) \<longleftrightarrow> r \<in> set (ts_rows t) \<and> rw_storeId r = storeId"
  by (auto simp: listRows_def)

lemma set_listViews [simp]: "v \<in> set (listViews storeId t) \<longleftrightarrow> v \<in> set (ts_views t) \<and> vw_storeId v = storeId"
  by (auto simp: listViews_def)

lemma fresh_tick [simp]:
  "ds_tables (snd (fresh env s)) = ds_tables s" "ds_tables (snd (tick env s)) = ds_tables s" "ds_events (snd (fresh env s)) = ds_events s" "ds_events (snd (tick env s)) = ds_events s"
  by (simp_all add: fresh_def tick_def case_prod_beta)

lemma freshD: "fresh env s = (i, s1) \<Longrightarrow> ds_tables s1 = ds_tables s"
  by (metis fresh_tick(1) snd_conv)

lemma tickD: "tick env s = (at', s1) \<Longrightarrow> ds_tables s1 = ds_tables s"
  by (metis fresh_tick(2) snd_conv)

lemma tables_on_store [simp]: "ds_tables (on_store_tables f s) = f (ds_tables s)"
  by (simp add: on_store_tables_def)

lemma tables_notify [simp]: "ds_tables (notifyRowWrite storeId p cs cells a d s) = ds_tables s"
  by (simp add: notifyRowWrite_def)

lemma findStore_Some: "findStore i t = Some s \<Longrightarrow> s \<in> set (ts_stores t) \<and> st_id s = i"
  by (auto simp: findStore_def dest: find_SomeD)

lemma findStore_iff: "findStore i t \<noteq> None \<longleftrightarrow> i \<in> st_id ` set (ts_stores t)"
  by (auto simp: findStore_def find_None_iff)

lemma findRow_Some: "findRow i x t = Some r \<Longrightarrow> r \<in> set (ts_rows t) \<and> rw_id r = i \<and> rw_storeId r = x"
  by (auto simp: findRow_def dest: find_SomeD)

lemma findRow_iff: "findRow i x t \<noteq> None \<longleftrightarrow> (\<exists>r \<in> set (ts_rows t). rw_id r = i \<and> rw_storeId r = x)"
  by (auto simp: findRow_def find_None_iff)

lemma authorize_Inr [simp]: "authorize storeId projectId s = Inr u \<longleftrightarrow> map_option st_projectId (findStore storeId (ds_tables s)) = Some projectId"
  by (simp add: authorize_def)

lemma authorized: "map_option st_projectId (findStore storeId t) = Some p \<Longrightarrow> storeId \<in> st_id ` set (ts_stores t)"
  using findStore_iff [of storeId t] by auto

section \<open>The history of a row\<close>

definition entries :: "string \<times> string \<Rightarrow> store_tables \<Rightarrow> history_entry list" where
  "entries key t = filter (\<lambda>h. (hs_rowId h, hs_storeId h) = key) (ts_history t)"

definition rw_key :: "ds_row \<Rightarrow> string \<times> string" where
  "rw_key r = (rw_id r, rw_storeId r)"

text \<open>The row under a key in the later tables was created in between, or comes from a row of the earlier tables by the recorded
  changes, and is that row when none was recorded.\<close>

definition follows :: "store_tables \<Rightarrow> store_tables \<Rightarrow> bool" where
  "follows t t' \<longleftrightarrow> ts_nextSeq t \<le> ts_nextSeq t' \<and>
     (\<forall>r' \<in> set (ts_rows t').
       (\<exists>h \<in> set (entries (rw_key r') t'). ts_nextSeq t \<le> hs_seq h \<and> hs_change h = RowCreated)
       \<or> (\<exists>r new. r \<in> set (ts_rows t) \<and> rw_key r = rw_key r' \<and> entries (rw_key r') t' = entries (rw_key r') t @ new \<and> (\<forall>h \<in> set new. ts_nextSeq t \<le> hs_seq h) \<and> (new = [] \<longrightarrow> r' = r)))"

lemma follows_refl [simp]: "follows t t"
  by (auto simp: follows_def)

lemma follows_trans:
  assumes "follows t t1" "follows t1 t2"
  shows "follows t t2"
  unfolding follows_def
proof (intro conjI ballI)
  show "ts_nextSeq t \<le> ts_nextSeq t2" using assms by (simp add: follows_def)
  fix r2 assume r2: "r2 \<in> set (ts_rows t2)"
  consider "\<exists>h \<in> set (entries (rw_key r2) t2). ts_nextSeq t1 \<le> hs_seq h \<and> hs_change h = RowCreated"
    | r1 new where "r1 \<in> set (ts_rows t1)" "rw_key r1 = rw_key r2" "entries (rw_key r2) t2 = entries (rw_key r2) t1 @ new" "new = [] \<longrightarrow> r2 = r1" "\<forall>h \<in> set new. ts_nextSeq t1 \<le> hs_seq h"
    using assms(2) r2 unfolding follows_def by blast
  then show "(\<exists>h \<in> set (entries (rw_key r2) t2). ts_nextSeq t \<le> hs_seq h \<and> hs_change h = RowCreated)
    \<or> (\<exists>r new. r \<in> set (ts_rows t) \<and> rw_key r = rw_key r2 \<and> entries (rw_key r2) t2 = entries (rw_key r2) t @ new \<and> (\<forall>h \<in> set new. ts_nextSeq t \<le> hs_seq h) \<and> (new = [] \<longrightarrow> r2 = r))"
  proof cases
    case 1
    then show ?thesis using assms(1) by (meson follows_def le_trans)
  next
    case (2 r1 new)
    from assms(1) 2(1,2) have "(\<exists>h \<in> set (entries (rw_key r2) t1). ts_nextSeq t \<le> hs_seq h \<and> hs_change h = RowCreated)
      \<or> (\<exists>r new. r \<in> set (ts_rows t) \<and> rw_key r = rw_key r2 \<and> entries (rw_key r2) t1 = entries (rw_key r2) t @ new \<and> (\<forall>h \<in> set new. ts_nextSeq t \<le> hs_seq h) \<and> (new = [] \<longrightarrow> r1 = r))"
      unfolding follows_def by (metis (no_types, lifting))
    then show ?thesis
    proof
      assume "\<exists>h \<in> set (entries (rw_key r2) t1). ts_nextSeq t \<le> hs_seq h \<and> hs_change h = RowCreated"
      then show ?thesis using 2(3) by auto
    next
      assume "\<exists>r new. r \<in> set (ts_rows t) \<and> rw_key r = rw_key r2 \<and> entries (rw_key r2) t1 = entries (rw_key r2) t @ new \<and> (\<forall>h \<in> set new. ts_nextSeq t \<le> hs_seq h) \<and> (new = [] \<longrightarrow> r1 = r)"
      then obtain r new1 where "r \<in> set (ts_rows t)" "rw_key r = rw_key r2" "entries (rw_key r2) t1 = entries (rw_key r2) t @ new1" "new1 = [] \<longrightarrow> r1 = r" "\<forall>h \<in> set new1. ts_nextSeq t \<le> hs_seq h" by blast
      moreover have "\<forall>h \<in> set new. ts_nextSeq t \<le> hs_seq h" using 2(5) assms(1) by (auto simp: follows_def)
      ultimately show ?thesis using 2(3,4) by (intro disjI2 exI [of _ r] exI [of _ "new1 @ new"]) auto
    qed
  qed
qed

lemma follows_fewer:
  assumes "set (ts_rows t') \<subseteq> set (ts_rows t)" "\<And>r. r \<in> set (ts_rows t') \<Longrightarrow> entries (rw_key r) t' = entries (rw_key r) t" "ts_nextSeq t' = ts_nextSeq t"
  shows "follows t t'"
  using assms unfolding follows_def by auto

lemma follows_write:
  assumes "ts_history t' = ts_history t @ [h]" "hs_seq h = ts_nextSeq t" "ts_nextSeq t' = Suc (ts_nextSeq t)"
    and rows: "\<And>r'. r' \<in> set (ts_rows t') \<Longrightarrow> (if rw_key r' = (hs_rowId h, hs_storeId h) then hs_change h = RowCreated \<or> (\<exists>r \<in> set (ts_rows t). rw_key r = rw_key r') else r' \<in> set (ts_rows t))"
  shows "follows t t'"
  unfolding follows_def
proof (intro conjI ballI)
  fix r' assume r': "r' \<in> set (ts_rows t')"
  have e: "entries (rw_key r') t' = entries (rw_key r') t @ (if rw_key r' = (hs_rowId h, hs_storeId h) then [h] else [])" by (auto simp: entries_def assms(1))
  show "(\<exists>h \<in> set (entries (rw_key r') t'). ts_nextSeq t \<le> hs_seq h \<and> hs_change h = RowCreated)
    \<or> (\<exists>r new. r \<in> set (ts_rows t) \<and> rw_key r = rw_key r' \<and> entries (rw_key r') t' = entries (rw_key r') t @ new \<and> (\<forall>h \<in> set new. ts_nextSeq t \<le> hs_seq h) \<and> (new = [] \<longrightarrow> r' = r))"
  proof (cases "rw_key r' = (hs_rowId h, hs_storeId h)")
    case True
    then have e': "entries (rw_key r') t' = entries (rw_key r') t @ [h]" using e by simp
    from True rows [OF r'] consider "hs_change h = RowCreated" | r where "r \<in> set (ts_rows t)" "rw_key r = rw_key r'" by auto
    then show ?thesis
    proof cases
      case 1
      then show ?thesis using e' assms(2) by auto
    next
      case (2 r)
      then show ?thesis using e' assms(2) by (intro disjI2 exI [of _ r] exI [of _ "[h]"]) simp
    qed
  next
    case False
    then show ?thesis using e rows [OF r'] by (intro disjI2 exI [of _ r'] exI [of _ "[]"]) simp
  qed
qed (simp add: assms(3))

lemma recordChange_tables:
  assumes "recordChange env x i a at' c s = Inr s'"
  obtains h where "ds_tables s' = (ds_tables s)\<lparr>ts_history := ts_history (ds_tables s) @ [h], ts_nextSeq := Suc (ts_nextSeq (ds_tables s))\<rparr>"
    "hs_rowId h = i" "hs_storeId h = x" "hs_change h = c" "hs_seq h = ts_nextSeq (ds_tables s)" "findRow i x (ds_tables s) \<noteq> None"
  using assms by (auto simp: recordChange_def Let_def split: prod.splits if_splits)

section \<open>The writes of the repository\<close>

text \<open>What a write does to the rows: nothing, or the row of one key is set, added or removed and an entry is recorded for it.\<close>

definition rows_set :: "string \<Rightarrow> string \<Rightarrow> cells \<Rightarrow> nat \<Rightarrow> string \<Rightarrow> ds_row list \<Rightarrow> ds_row list" where
  "rows_set i x data r at' rows = map (\<lambda>y. if rw_id y = i \<and> rw_storeId y = x then y\<lparr>rw_data := data, rw_rev := r, rw_updatedAt := at'\<rparr> else y) rows"

lemma insertRow_row_effect:
  assumes "insertRow_row env x i cells a at' s = Inr (row, s')"
  obtains h where "row = \<lparr>rw_id = i, rw_storeId = x, rw_data = normalizeCells cells, rw_rev = 1, rw_createdAt = at', rw_updatedAt = at'\<rparr>"
    "ds_tables s' = (ds_tables s)\<lparr>ts_rows := ts_rows (ds_tables s) @ [row], ts_history := ts_history (ds_tables s) @ [h], ts_nextSeq := Suc (ts_nextSeq (ds_tables s))\<rparr>"
    "hs_rowId h = i" "hs_storeId h = x" "hs_change h = RowCreated" "hs_seq h = ts_nextSeq (ds_tables s)" "i \<notin> rw_id ` set (ts_rows (ds_tables s))"
    "x \<in> st_id ` set (ts_stores (ds_tables s))"
proof -
  from assms have new: "i \<notin> rw_id ` set (ts_rows (ds_tables s))" and store: "x \<in> st_id ` set (ts_stores (ds_tables s))"
    using findStore_iff [of x "ds_tables s"] by (auto simp: insertRow_row_def Let_def refuseMissingStore_def split: if_splits)
  from assms have row: "row = \<lparr>rw_id = i, rw_storeId = x, rw_data = normalizeCells cells, rw_rev = 1, rw_createdAt = at', rw_updatedAt = at'\<rparr>"
    and rec: "recordChange env x i a at' RowCreated (on_store_tables (\<lambda>t. t\<lparr>ts_rows := ts_rows t @ [row]\<rparr>) s) = Inr s'"
    by (auto simp: insertRow_row_def Let_def FIRST_ROW_REV_def split: if_splits)
  from rec show ?thesis by (rule recordChange_tables) (rule that, use row new store in simp_all)
qed

lemma updateRow_row_effect:
  assumes "updateRow_row env i x cells expected a at' s = Inr (row, s')"
  obtains (same) "s' = s" "findRow i x (ds_tables s) = Some row"
  | (changed) current h where "findRow i x (ds_tables s) = Some current"
    "ds_tables s' = (ds_tables s)\<lparr>ts_rows := rows_set i x (rw_data current ++\<^sub>f normalizeCells cells) (Suc (rw_rev current)) at' (ts_rows (ds_tables s)),
       ts_history := ts_history (ds_tables s) @ [h], ts_nextSeq := Suc (ts_nextSeq (ds_tables s))\<rparr>"
    "hs_rowId h = i" "hs_storeId h = x" "hs_change h \<noteq> RowCreated" "hs_seq h = ts_nextSeq (ds_tables s)"
proof -
  obtain current where current: "findRow i x (ds_tables s) = Some current" using assms by (auto simp: updateRow_row_def Let_def)
  show ?thesis
  proof (cases "fmdom' (diffCells (rw_data current) (normalizeCells cells)) = {}")
    case True
    then have "s' = s" "row = current" using assms current by (auto simp: updateRow_row_def Let_def)
    then show ?thesis using current same by simp
  next
    case False
    then have "recordChange env x i a at' (CellsChanged (diffCells (rw_data current) (normalizeCells cells)))
        (on_store_tables (set_row i x (rw_data current ++\<^sub>f normalizeCells cells) (rw_rev current + 1) at') s) = Inr s'"
      using assms current by (auto simp: updateRow_row_def Let_def)
    then show ?thesis by (rule recordChange_tables) (rule changed, use current in \<open>simp_all add: set_row_def rows_set_def\<close>)
  qed
qed

lemma updateRow_row_guards:
  assumes "updateRow_row env i x cells expected a at' s = Inr (row, s')" "findRow i x (ds_tables s) = Some current"
  shows "expected = None \<or> expected = Some (rw_rev current)" "fmdom' (normalizeCells cells) \<subseteq> co_id ` {c \<in> set (ts_columns (ds_tables s)). co_storeId c = x}"
  using assms by (auto simp: updateRow_row_def Let_def refuseUnknownColumns_def)

lemma deleteRow_row_effect:
  assumes "deleteRow_row env i x a at' s = Inr s'"
  obtains h where "ds_tables s' = (ds_tables s)\<lparr>ts_rows := filter (\<lambda>r. \<not> (rw_id r = i \<and> rw_storeId r = x)) (ts_rows (ds_tables s)),
      ts_history := ts_history (ds_tables s) @ [h], ts_nextSeq := Suc (ts_nextSeq (ds_tables s))\<rparr>"
    "hs_rowId h = i" "hs_storeId h = x" "hs_change h \<noteq> RowCreated" "hs_seq h = ts_nextSeq (ds_tables s)"
proof -
  obtain s1 where "recordChange env x i a at' RowDeleted s = Inr s1"
    "s' = on_store_tables (\<lambda>t. t\<lparr>ts_rows := filter (\<lambda>r. \<not> (rw_id r = i \<and> rw_storeId r = x)) (ts_rows t)\<rparr>) s1"
    using assms by (auto simp: deleteRow_row_def)
  then show ?thesis by (elim recordChange_tables) (rule that, simp_all)
qed

lemma clearCell_effect:
  assumes "clearCell env k a at' row s = Inr s'"
  obtains (same) "s' = s" "fmlookup (rw_data row) k = None"
  | (changed) h where "fmlookup (rw_data row) k \<noteq> None"
    "ds_tables s' = (ds_tables s)\<lparr>ts_rows := rows_set (rw_id row) (rw_storeId row) (fmdrop k (rw_data row)) (Suc (rw_rev row)) at' (ts_rows (ds_tables s)),
       ts_history := ts_history (ds_tables s) @ [h], ts_nextSeq := Suc (ts_nextSeq (ds_tables s))\<rparr>"
    "hs_rowId h = rw_id row" "hs_storeId h = rw_storeId row" "hs_change h \<noteq> RowCreated" "hs_seq h = ts_nextSeq (ds_tables s)"
proof (cases "fmlookup (rw_data row) k")
  case None
  then show ?thesis using assms same by (simp add: clearCell_def)
next
  case (Some v)
  then have "recordChange env (rw_storeId row) (rw_id row) a at' (CellsChanged (fmupd k (v, JNull) fmempty))
      (on_store_tables (set_row (rw_id row) (rw_storeId row) (fmdrop k (rw_data row)) (rw_rev row + 1) at') s) = Inr s'"
    using assms by (simp add: clearCell_def)
  then show ?thesis by (rule recordChange_tables) (rule changed, use Some in \<open>simp_all add: set_row_def rows_set_def\<close>)
qed

section \<open>The invariant of the tables\<close>

text \<open>A cell of the type of its column, whatever the format of the column and the time zone.\<close>

definition iso_day :: "string \<Rightarrow> bool" where
  "iso_day s \<longleftrightarrow> rx_test ISO_DATE s
     \<and> (let day = utc_fields (date_UTC (number_at s 0 4) (number_at s 5 2 - 1) (number_at s 8 2) 0 0 0)
        in cf_year day = number_at s 0 4 \<and> cf_month day = number_at s 5 2 \<and> cf_dayOfMonth day = number_at s 8 2)"

definition cell_typed :: "ds_column \<Rightarrow> json \<Rightarrow> bool" where
  "cell_typed c v \<longleftrightarrow> v = JNull
     \<or> (case co_columnType c of
          TextColumn \<Rightarrow> (case v of JStr s \<Rightarrow> length s \<le> MAX_CELL_BYTES | _ \<Rightarrow> False)
        | NumberColumn \<Rightarrow> (case v of JNum n \<Rightarrow> True | _ \<Rightarrow> False)
        | DateColumn \<Rightarrow> (case v of JStr s \<Rightarrow> iso_day s | _ \<Rightarrow> False)
        | SelectColumn \<Rightarrow> (case v of JStr s \<Rightarrow> s \<in> so_id ` set (opt_default [] (co_options c)) | _ \<Rightarrow> False)
        | JsonColumn \<Rightarrow> True)"

lemma valid_cell_typed: "isValidCell env c v \<Longrightarrow> cell_typed c v"
  by (auto simp: isValidCell_def cell_typed_def isIsoDate_def iso_day_def exceedsCellByteCap_def Let_def split: if_splits column_type.splits json.splits)

definition column_of :: "store_tables \<Rightarrow> string \<Rightarrow> string \<Rightarrow> ds_column \<Rightarrow> bool" where
  "column_of t k x c \<longleftrightarrow> c \<in> set (ts_columns t) \<and> co_id c = k \<and> co_storeId c = x"

definition display_of :: "ds_column list \<Rightarrow> (string \<times> string) set" where
  "display_of cs = {(co_id c, d) | c d. c \<in> set cs \<and> md_displayColumnId (co_metadata c) = Some d}"

definition display_ok :: "store_tables \<Rightarrow> bool" where
  "display_ok t \<longleftrightarrow> acyclic (display_of (ts_columns t))
     \<and> (\<forall>c \<in> set (ts_columns t). \<forall>d. md_displayColumnId (co_metadata c) = Some d \<longrightarrow> (\<exists>c'. column_of t d (co_storeId c) c'))"

definition view_ok :: "store_tables \<Rightarrow> ds_view \<Rightarrow> bool" where
  "view_ok t v \<longleftrightarrow> DsViewConfigSchema (vw_config v) \<and> (\<forall>k. viewConfigReferences (vw_config v) k \<longrightarrow> (\<exists>c. column_of t k (vw_storeId v) c))
     \<and> (vw_viewType v = Kanban \<longrightarrow> (\<exists>k c. vc_groupByColumnId (vw_config v) = Some k \<and> column_of t k (vw_storeId v) c \<and> co_columnType c = SelectColumn))"

definition schema_ok :: "store_tables \<Rightarrow> bool" where
  "schema_ok t \<longleftrightarrow> distinct (map st_id (ts_stores t)) \<and> distinct (map co_id (ts_columns t)) \<and> distinct (map vw_id (ts_views t))
     \<and> co_storeId ` set (ts_columns t) \<subseteq> st_id ` set (ts_stores t) \<and> vw_storeId ` set (ts_views t) \<subseteq> st_id ` set (ts_stores t)
     \<and> (\<forall>s \<in> set (ts_stores t). \<forall>k. st_naturalKeyColumnId s = Some k \<longrightarrow> (\<exists>c. column_of t k (st_id s) c \<and> co_columnType c = TextColumn))
     \<and> (\<forall>c \<in> set (ts_columns t). co_columnType c = SelectColumn \<longrightarrow> (\<exists>os. co_options c = Some os \<and> distinct (map so_id os)))
     \<and> display_ok t \<and> (\<forall>v \<in> set (ts_views t). view_ok t v)"

definition cells_ok :: "store_tables \<Rightarrow> string \<Rightarrow> cells \<Rightarrow> bool" where
  "cells_ok t x data \<longleftrightarrow> (\<forall>k v. fmlookup data k = Some v \<longrightarrow> (\<exists>c. column_of t k x c \<and> cell_typed c v))"

definition holds_key :: "store_tables \<Rightarrow> ds_row \<Rightarrow> string \<Rightarrow> bool" where
  "holds_key t r v \<longleftrightarrow> (\<exists>s \<in> set (ts_stores t). st_id s = rw_storeId r \<and> (\<exists>k. st_naturalKeyColumnId s = Some k \<and> fmlookup (rw_data r) k = Some (JStr v)))"

definition changes_since_created :: "history_entry list \<Rightarrow> nat" where
  "changes_since_created hs = length (takeWhile (\<lambda>h. hs_change h \<noteq> RowCreated) (rev hs))"

lemma changes_since_snoc [simp]: "changes_since_created (hs @ [h]) = (if hs_change h = RowCreated then 0 else Suc (changes_since_created hs))"
  by (simp add: changes_since_created_def)

definition rows_ok :: "store_tables \<Rightarrow> bool" where
  "rows_ok t \<longleftrightarrow> distinct (map rw_id (ts_rows t)) \<and> rw_storeId ` set (ts_rows t) \<subseteq> st_id ` set (ts_stores t)
     \<and> (\<forall>r \<in> set (ts_rows t). cells_ok t (rw_storeId r) (rw_data r))
     \<and> (\<forall>r \<in> set (ts_rows t). \<forall>r' \<in> set (ts_rows t). \<forall>v. rw_storeId r = rw_storeId r' \<and> holds_key t r v \<and> holds_key t r' v \<longrightarrow> rw_id r = rw_id r')
     \<and> (\<forall>h \<in> set (ts_history t). hs_seq h < ts_nextSeq t)
     \<and> (\<forall>r \<in> set (ts_rows t). rw_rev r = Suc (changes_since_created (entries (rw_key r) t)))"

definition cap_ok :: "store_tables \<Rightarrow> bool" where
  "cap_ok t \<longleftrightarrow> (\<forall>x. countRows x t \<le> MAX_ROWS_PER_STORE)"

lemma rows_unique: "rows_ok t \<Longrightarrow> r \<in> set (ts_rows t) \<Longrightarrow> r' \<in> set (ts_rows t) \<Longrightarrow> rw_id r = rw_id r' \<Longrightarrow> r = r'"
  unfolding rows_ok_def by (metis distinct_map inj_onD)

lemma columns_unique: "schema_ok t \<Longrightarrow> column_of t k x c \<Longrightarrow> column_of t k x' c' \<Longrightarrow> c = c'"
  unfolding schema_ok_def column_of_def by (metis distinct_map inj_onD)

lemma schema_same:
  assumes "ts_stores t' = ts_stores t" "ts_columns t' = ts_columns t" "ts_views t' = ts_views t"
  shows "schema_ok t' = schema_ok t"
  by (simp add: schema_ok_def display_ok_def view_ok_def column_of_def assms)

lemma same_schema_parts:
  assumes "ts_stores t' = ts_stores t" "ts_columns t' = ts_columns t"
  shows "cells_ok t' = cells_ok t" "holds_key t' = holds_key t"
  by (auto simp: fun_eq_iff cells_ok_def holds_key_def column_of_def assms)

section \<open>Row writes keep the invariant\<close>

lemma created_rows_ok:
  assumes ok: "rows_ok t" and new: "rw_id row \<notin> rw_id ` set (ts_rows t)" and store: "rw_storeId row \<in> st_id ` set (ts_stores t)" and typed: "cells_ok t (rw_storeId row) (rw_data row)"
    and key: "\<And>r v. r \<in> set (ts_rows t) \<Longrightarrow> rw_storeId r = rw_storeId row \<Longrightarrow> holds_key t row v \<Longrightarrow> \<not> holds_key t r v" and rev1: "rw_rev row = 1"
    and h: "(hs_rowId h, hs_storeId h) = rw_key row" "hs_change h = RowCreated" "hs_seq h = ts_nextSeq t"
  shows "rows_ok (t\<lparr>ts_rows := ts_rows t @ [row], ts_history := ts_history t @ [h], ts_nextSeq := Suc (ts_nextSeq t)\<rparr>)" (is "rows_ok ?t")
proof -
  note same = same_schema_parts [of ?t t, simplified]
  have e: "entries (rw_key row) ?t = entries (rw_key row) t @ [h]" "r \<in> set (ts_rows t) \<Longrightarrow> entries (rw_key r) ?t = entries (rw_key r) t" for r
    using h(1) new by (auto simp: entries_def rw_key_def)
  have "distinct (map rw_id (ts_rows ?t))" "rw_storeId ` set (ts_rows ?t) \<subseteq> st_id ` set (ts_stores ?t)" "\<forall>r \<in> set (ts_rows ?t). cells_ok ?t (rw_storeId r) (rw_data r)"
    using ok new store typed unfolding same by (auto simp: rows_ok_def)
  moreover have "rw_id r = rw_id r'" if "r \<in> set (ts_rows ?t)" "r' \<in> set (ts_rows ?t)" "rw_storeId r = rw_storeId r'" "holds_key t r v" "holds_key t r' v" for r r' v
  proof -
    have "r = row \<or> r \<in> set (ts_rows t)" "r' = row \<or> r' \<in> set (ts_rows t)" using that(1,2) by auto
    then show ?thesis using that(3-5) key ok unfolding rows_ok_def by metis
  qed
  moreover have "\<forall>h \<in> set (ts_history ?t). hs_seq h < ts_nextSeq ?t" using ok h(3) by (auto simp: rows_ok_def less_Suc_eq)
  moreover have "rw_rev r = Suc (changes_since_created (entries (rw_key r) ?t))" if "r \<in> set (ts_rows ?t)" for r
  proof (cases "r = row")
    case True
    then show ?thesis using rev1 h(2) e(1) by simp
  next
    case False
    then have "r \<in> set (ts_rows t)" using that by simp
    then show ?thesis using ok e(2) by (simp add: rows_ok_def)
  qed
  ultimately show ?thesis unfolding rows_ok_def same by blast
qed

lemma set_rows_set:
  "r \<in> set (rows_set i x data n at' rows) \<longleftrightarrow> (\<exists>y \<in> set rows. r = (if rw_id y = i \<and> rw_storeId y = x then y\<lparr>rw_data := data, rw_rev := n, rw_updatedAt := at'\<rparr> else y))"
  by (simp only: rows_set_def set_map image_iff)

lemma map_rows_set [simp]: "map rw_id (rows_set i x data n at' rows) = map rw_id rows" "map rw_storeId (rows_set i x data n at' rows) = map rw_storeId rows"
  by (simp_all add: rows_set_def)

lemma changed_rows_ok:
  assumes ok: "rows_ok t" and current: "current \<in> set (ts_rows t)" and typed: "cells_ok t (rw_storeId current) data"
    and key: "\<And>r v. r \<in> set (ts_rows t) \<Longrightarrow> rw_id r \<noteq> rw_id current \<Longrightarrow> rw_storeId r = rw_storeId current \<Longrightarrow> holds_key t (current\<lparr>rw_data := data\<rparr>) v \<Longrightarrow> \<not> holds_key t r v"
    and h: "hs_rowId h = rw_id current" "hs_storeId h = rw_storeId current" "hs_change h \<noteq> RowCreated" "hs_seq h = ts_nextSeq t"
  shows "rows_ok (t\<lparr>ts_rows := rows_set (rw_id current) (rw_storeId current) data (Suc (rw_rev current)) at' (ts_rows t), ts_history := ts_history t @ [h], ts_nextSeq := Suc (ts_nextSeq t)\<rparr>)"
    (is "rows_ok ?t")
proof -
  note same = same_schema_parts [of ?t t, simplified]
  define new where "new = current\<lparr>rw_data := data, rw_rev := Suc (rw_rev current), rw_updatedAt := at'\<rparr>"
  have rows: "r \<in> set (ts_rows ?t) \<Longrightarrow> r = new \<or> r \<in> set (ts_rows t) \<and> rw_id r \<noteq> rw_id current" for r
  proof -
    assume "r \<in> set (ts_rows ?t)"
    then obtain y where y: "y \<in> set (ts_rows t)" "r = (if rw_id y = rw_id current \<and> rw_storeId y = rw_storeId current then y\<lparr>rw_data := data, rw_rev := Suc (rw_rev current), rw_updatedAt := at'\<rparr> else y)"
      by (auto simp: set_rows_set)
    show ?thesis
    proof (cases "rw_id y = rw_id current")
      case True
      then have "y = current" using rows_unique [OF ok y(1) current] by blast
      then show ?thesis using y(2) by (simp add: new_def)
    qed (use y in simp)
  qed
  have nk: "rw_id new = rw_id current" "rw_storeId new = rw_storeId current" "rw_key new = rw_key current" "rw_data new = data" "rw_rev new = Suc (rw_rev current)" by (simp_all add: new_def rw_key_def)
  have hn: "holds_key t new v = holds_key t (current\<lparr>rw_data := data\<rparr>) v" for v by (simp add: holds_key_def new_def)
  have e: "entries (rw_key current) ?t = entries (rw_key current) t @ [h]" "rw_id r \<noteq> rw_id current \<Longrightarrow> entries (rw_key r) ?t = entries (rw_key r) t" for r
    using h by (auto simp: entries_def rw_key_def)
  have "rw_storeId ` set (ts_rows ?t) = rw_storeId ` set (ts_rows t)" using map_rows_set(2) by (simp flip: set_map)
  then have "distinct (map rw_id (ts_rows ?t))" "rw_storeId ` set (ts_rows ?t) \<subseteq> st_id ` set (ts_stores ?t)"
    using ok by (simp_all add: rows_ok_def)
  moreover have "\<forall>r \<in> set (ts_rows ?t). cells_ok t (rw_storeId r) (rw_data r)" using ok rows nk typed by (metis rows_ok_def)
  moreover have "rw_id r = rw_id r'" if "r \<in> set (ts_rows ?t)" "r' \<in> set (ts_rows ?t)" "rw_storeId r = rw_storeId r'" "holds_key t r v" "holds_key t r' v" for r r' v
    using rows [OF that(1)] rows [OF that(2)] that(3-5) ok key nk(1,2) hn unfolding rows_ok_def by metis
  moreover have "\<forall>h \<in> set (ts_history ?t). hs_seq h < ts_nextSeq ?t" using ok h(4) by (auto simp: rows_ok_def less_Suc_eq)
  moreover have "rw_rev r = Suc (changes_since_created (entries (rw_key r) ?t))" if "r \<in> set (ts_rows ?t)" for r
    using rows [OF that]
  proof
    assume "r = new"
    moreover have "rw_rev current = Suc (changes_since_created (entries (rw_key current) t))" using ok current by (simp add: rows_ok_def)
    moreover have "changes_since_created (entries (rw_key current) ?t) = Suc (changes_since_created (entries (rw_key current) t))" unfolding e(1) using h(3) by simp
    ultimately show ?thesis using nk(3,5) by metis
  next
    assume "r \<in> set (ts_rows t) \<and> rw_id r \<noteq> rw_id current"
    then show ?thesis using ok e(2) by (metis rows_ok_def)
  qed
  ultimately show ?thesis unfolding rows_ok_def same by blast
qed

section \<open>What the service checks of a row\<close>

lemma same_text [simp]: "isSameValue a (JStr v) \<longleftrightarrow> a = JStr v"
  by (cases a) (simp_all add: isSameValue_def)

lemma lookup_normalizeCells [simp]: "fmlookup (normalizeCells p) k = patched p k"
  by (auto simp: normalizeCells_def patched_def split: option.split)

lemma cell_text [simp]: "cell_or_null data k = JStr v \<longleftrightarrow> fmlookup data k = Some (JStr v)"
  by (cases "fmlookup data k") (simp_all add: cell_or_null_def)

lemma find_by_id: "k \<in> f ` set xs \<Longrightarrow> \<exists>x. find (\<lambda>x. f x = k) xs = Some x \<and> x \<in> set xs \<and> f x = k"
  by (cases "find (\<lambda>x. f x = k) xs") (auto simp: find_None_iff dest: find_SomeD)

lemma key_query:
  assumes "runQuery env x [key_clause k v] [] limit s = Inr rows"
  shows "\<exists>all. rows = (case limit of None \<Rightarrow> all | Some n \<Rightarrow> take n all) \<and> mset all = mset (filter (\<lambda>r. rw_storeId r = x \<and> fmlookup (rw_data r) k = Some (JStr v)) (ts_rows (ds_tables s)))"
proof -
  let ?cs = "listColumns x (ds_tables s)"
  obtain c where c: "find (\<lambda>c. co_id c = k) ?cs = Some c" using assms find_by_id [of k co_id ?cs]
    by (auto simp: runQuery_def requireColumns_def assertKnownColumns_def key_clause_def Let_def)
  have m: "row_matches env ?cs [key_clause k v] = (\<lambda>r. fmlookup (rw_data r) k = Some (JStr v))"
    using c by (simp add: fun_eq_iff row_matches_def key_clause_def matches_def)
  define all where "all = sort_by (compareRows env ?cs []) (filter (\<lambda>r. fmlookup (rw_data r) k = Some (JStr v)) (listRows x (ds_tables s)))"
  have "rows = (case limit of None \<Rightarrow> all | Some n \<Rightarrow> take n all)"
    using assms unfolding all_def m [symmetric] by (auto simp: runQuery_def requireColumns_def Let_def)
  moreover have "mset all = mset (filter (\<lambda>r. rw_storeId r = x \<and> fmlookup (rw_data r) k = Some (JStr v)) (ts_rows (ds_tables s)))"
    by (simp add: all_def listRows_def filter_filter_mset conj_commute)
  ultimately show ?thesis by blast
qed

lemma natural_key_free:
  assumes "refuseNaturalKeyHeldByAnotherRow env x i p s = Inr u" "naturalKeyColumnId x s = Some k" "patched p k = Some (JStr v)"
    and "r \<in> set (ts_rows (ds_tables s))" "rw_storeId r = x" "fmlookup (rw_data r) k = Some (JStr v)"
  shows "rw_id r = i"
proof -
  obtain rows where rows: "runQuery env x [key_clause k v] [] None s = Inr rows" "\<not> list_ex (\<lambda>r. rw_id r \<noteq> i) rows"
    using assms(1-3) by (auto simp: refuseNaturalKeyHeldByAnotherRow_def)
  from key_query [OF rows(1)] have "mset rows = mset (filter (\<lambda>r. rw_storeId r = x \<and> fmlookup (rw_data r) k = Some (JStr v)) (ts_rows (ds_tables s)))" by auto
  then have "set rows = set (filter (\<lambda>r. rw_storeId r = x \<and> fmlookup (rw_data r) k = Some (JStr v)) (ts_rows (ds_tables s)))" by (rule mset_eq_setD)
  then show ?thesis using rows(2) assms(4-6) by (auto simp: list_ex_iff)
qed

lemma holds_key_iff:
  assumes "schema_ok (ds_tables s)" "rw_storeId r = x"
  shows "holds_key (ds_tables s) r v \<longleftrightarrow> (\<exists>k. naturalKeyColumnId x s = Some k \<and> fmlookup (rw_data r) k = Some (JStr v))"
proof -
  have "distinct (map st_id (ts_stores (ds_tables s)))" using assms(1) by (simp add: schema_ok_def)
  then have only: "st = st'" if "st \<in> set (ts_stores (ds_tables s))" "st' \<in> set (ts_stores (ds_tables s))" "st_id st = st_id st'" for st st'
    using that by (metis distinct_map inj_onD)
  show ?thesis
  proof (cases "findStore x (ds_tables s)")
    case None
    then have "\<not> holds_key (ds_tables s) r v" using assms(2) by (auto simp: holds_key_def findStore_def find_None_iff)
    then show ?thesis using None by (simp add: naturalKeyColumnId_def)
  next
    case (Some st)
    then have st: "st \<in> set (ts_stores (ds_tables s))" "st_id st = x" using findStore_Some by blast+
    then have "(\<exists>y \<in> set (ts_stores (ds_tables s)). st_id y = x \<and> Q y) \<longleftrightarrow> Q st" for Q using only by metis
    then show ?thesis using assms(2) Some by (simp add: holds_key_def naturalKeyColumnId_def)
  qed
qed

lemma validated_cells:
  assumes "validateCells env (listColumns x t) p = Inr u"
  shows "cells_ok t x (normalizeCells p)"
  unfolding cells_ok_def
proof (intro allI impI)
  fix k v assume "fmlookup (normalizeCells p) k = Some v"
  then have v: "patched p k = Some v" by simp
  then have "k \<in> fmdom' p" by (auto simp: patched_def split: option.splits intro: fmdom'I)
  then obtain c where c: "c \<in> set (listColumns x t)" "co_id c = k" using assms by (auto simp: validateCells_def assertKnownColumns_def Let_def)
  moreover have "isValidCell env c v" using assms c v by (auto simp: validateCells_def find_None_iff split: option.splits)
  ultimately show "\<exists>c. column_of t k x c \<and> cell_typed c v" using valid_cell_typed by (auto simp: column_of_def)
qed

text \<open>A row write: the schema stays, the history explains the rows, and rows of the stores \<open>new\<close> are added.\<close>

definition row_step :: "string list \<Rightarrow> store_tables \<Rightarrow> store_tables \<Rightarrow> bool" where
  "row_step new t t' \<longleftrightarrow> ts_stores t' = ts_stores t \<and> ts_columns t' = ts_columns t \<and> ts_views t' = ts_views t
     \<and> rows_ok t' \<and> follows t t' \<and> map rw_storeId (ts_rows t') = map rw_storeId (ts_rows t) @ new"

lemma row_step_refl: "rows_ok t \<Longrightarrow> row_step [] t t"
  by (simp add: row_step_def)

lemma row_step_trans: "row_step a t t1 \<Longrightarrow> row_step b t1 t2 \<Longrightarrow> row_step (a @ b) t t2"
  by (auto simp: row_step_def intro: follows_trans)

lemma row_step_schema: "row_step new t t' \<Longrightarrow> schema_ok t \<Longrightarrow> schema_ok t'"
  using schema_same [of t' t] by (simp add: row_step_def)

lemma insert_step:
  assumes ok: "rows_ok (ds_tables s)" "schema_ok (ds_tables s)" and ins: "insertRow_row env x i cells a at' s = Inr (row, s')"
    and typed: "cells_ok (ds_tables s) x (normalizeCells cells)" and free: "refuseNaturalKeyHeldByAnotherRow env x i cells s = Inr u"
  shows "row_step [x] (ds_tables s) (ds_tables s')"
  using ins
proof (rule insertRow_row_effect)
  fix h
  assume row: "row = \<lparr>rw_id = i, rw_storeId = x, rw_data = normalizeCells cells, rw_rev = 1, rw_createdAt = at', rw_updatedAt = at'\<rparr>"
    and t: "ds_tables s' = (ds_tables s)\<lparr>ts_rows := ts_rows (ds_tables s) @ [row], ts_history := ts_history (ds_tables s) @ [h], ts_nextSeq := Suc (ts_nextSeq (ds_tables s))\<rparr>"
    and h: "hs_rowId h = i" "hs_storeId h = x" "hs_change h = RowCreated" "hs_seq h = ts_nextSeq (ds_tables s)"
    and new: "i \<notin> rw_id ` set (ts_rows (ds_tables s))" and store: "x \<in> st_id ` set (ts_stores (ds_tables s))"
  have "rows_ok (ds_tables s')" unfolding t
  proof (rule created_rows_ok [OF ok(1)])
    fix r v
    assume r: "r \<in> set (ts_rows (ds_tables s))" "rw_storeId r = rw_storeId row" and "holds_key (ds_tables s) row v"
    then obtain k where "naturalKeyColumnId x s = Some k" "patched cells k = Some (JStr v)" using holds_key_iff [OF ok(2), of row x v] row by auto
    with natural_key_free [OF free this] r new row show "\<not> holds_key (ds_tables s) r v" using holds_key_iff [OF ok(2), of r x v] by force
  qed (use row new store typed h in \<open>simp_all add: rw_key_def\<close>)
  moreover have "follows (ds_tables s) (ds_tables s')"
    by (rule follows_write [of _ _ h]) (use t h new row in \<open>auto simp: rw_key_def\<close>)
  ultimately show ?thesis using t row by (simp add: row_step_def)
qed

lemma update_step:
  assumes ok: "rows_ok (ds_tables s)" "schema_ok (ds_tables s)" and upd: "updateRow_row env i x cells expected a at' s = Inr (row, s')"
    and typed: "cells_ok (ds_tables s) x (normalizeCells cells)" and free: "refuseNaturalKeyHeldByAnotherRow env x i cells s0 = Inr u" and same: "ds_tables s0 = ds_tables s"
  shows "row_step [] (ds_tables s) (ds_tables s')"
  using upd
proof (cases rule: updateRow_row_effect)
  case same
  then show ?thesis using ok(1) row_step_refl by simp
next
  case (changed current h)
  have c: "current \<in> set (ts_rows (ds_tables s))" "rw_id current = i" "rw_storeId current = x" using findRow_Some [OF changed(1)] by simp_all
  let ?data = "rw_data current ++\<^sub>f normalizeCells cells"
  have "cells_ok (ds_tables s) x ?data" using ok(1) c typed by (auto simp: rows_ok_def cells_ok_def)
  moreover have "\<not> holds_key (ds_tables s) r v"
    if r: "r \<in> set (ts_rows (ds_tables s))" "rw_id r \<noteq> i" "rw_storeId r = x" and new: "holds_key (ds_tables s) (current\<lparr>rw_data := ?data\<rparr>) v" for r v
  proof
    assume held: "holds_key (ds_tables s) r v"
    obtain k where k: "naturalKeyColumnId x s = Some k" "fmlookup ?data k = Some (JStr v)" using new c(3) holds_key_iff [OF ok(2), of "current\<lparr>rw_data := ?data\<rparr>" x v] by auto
    have rk: "fmlookup (rw_data r) k = Some (JStr v)" using held holds_key_iff [OF ok(2) r(3), of v] k(1) by auto
    show False
    proof (cases "patched cells k")
      case None
      then have "fmlookup (rw_data current) k = Some (JStr v)" using k(2) by (simp add: fmdom'_notI fmdom_notI split: if_splits)
      then have "holds_key (ds_tables s) current v" using holds_key_iff [OF ok(2) c(3)] k(1) by auto
      then show False using ok(1) c r held unfolding rows_ok_def by metis
    next
      case (Some y)
      then have "patched cells k = Some (JStr v)" using k(2) by (auto simp: fmdomI split: if_splits)
      moreover have "naturalKeyColumnId x s0 = Some k" using k(1) same by (simp add: naturalKeyColumnId_def)
      ultimately show False using natural_key_free [OF free, of k v r] r rk same by simp
    qed
  qed
  ultimately have "rows_ok (ds_tables s')" unfolding changed(2)
    using changed_rows_ok [OF ok(1) c(1), of ?data h at'] changed(3-6) by (simp only: c) blast
  moreover have "follows (ds_tables s) (ds_tables s')"
    by (rule follows_write [of _ _ h]) (use changed c in \<open>auto simp: set_rows_set rw_key_def split: if_splits\<close>)
  ultimately show ?thesis using changed(2) by (simp add: row_step_def)
qed

section \<open>The calls on rows\<close>

definition row_call :: "string \<Rightarrow> store_tables \<Rightarrow> store_tables \<Rightarrow> bool" where
  "row_call x t t' \<longleftrightarrow> (\<exists>n. row_step (replicate n x) t t' \<and> (n = 0 \<or> countRows x t + n \<le> MAX_ROWS_PER_STORE))"

lemma countRows_map: "countRows x t = length (filter (\<lambda>y. y = x) (map rw_storeId (ts_rows t)))"
  by (simp add: countRows_def filter_map comp_def)

lemma row_step_count: "row_step (replicate n x) t t' \<Longrightarrow> countRows y t' = countRows y t + (if y = x then n else 0)"
  unfolding row_step_def countRows_map by (elim conjE) (simp only: filter_append length_append filter_replicate, simp)

lemma row_call_cap: "row_call x t t' \<Longrightarrow> cap_ok t \<Longrightarrow> cap_ok t'"
proof -
  assume "row_call x t t'" and cap: "cap_ok t"
  then obtain n where n: "row_step (replicate n x) t t'" "n = 0 \<or> countRows x t + n \<le> MAX_ROWS_PER_STORE" unfolding row_call_def by blast
  have "countRows y t' \<le> MAX_ROWS_PER_STORE" for y using row_step_count [OF n(1), of y] n(2) cap by (auto simp: cap_ok_def)
  then show ?thesis by (simp add: cap_ok_def)
qed

lemma write_new_step:
  assumes "rows_ok (ds_tables s)" "schema_ok (ds_tables s)" "write_new_row env x scope columns new s = Inr (row, s')" "validateCells env (listColumns x (ds_tables s)) (fst new) = Inr u"
  shows "row_step [x] (ds_tables s) (ds_tables s')"
proof -
  obtain i s1 where f: "fresh env s = (i, s1)" by fastforce
  note t1 = freshD [OF f]
  obtain u s2 where "refuseNaturalKeyHeldByAnotherRow env x i (fst new) s1 = Inr u" "insertRow_row env x i (fst new) (is_actor scope) (snd new) s1 = Inr (row, s2)" "ds_tables s' = ds_tables s2"
    using assms(3) f by (auto simp: write_new_row_def Let_def case_prod_beta)
  with insert_step [of s1 env x i "fst new"] assms(1,2) validated_cells [OF assms(4)] t1 show ?thesis by simp
qed

lemma write_all_new_step:
  assumes "rows_ok (ds_tables s)" "schema_ok (ds_tables s)" "each_row (write_new_row env x scope columns) news s = Inr (rows, s')"
    and "\<And>new. new \<in> set news \<Longrightarrow> \<exists>u. validateCells env (listColumns x (ds_tables s)) (fst new) = Inr u"
  shows "row_step (replicate (length news) x) (ds_tables s) (ds_tables s')"
  using assms
proof (induction news arbitrary: s rows)
  case Nil
  then show ?case by (simp add: row_step_refl)
next
  case (Cons new news)
  obtain row s1 rows1 where one: "write_new_row env x scope columns new s = Inr (row, s1)" and rest: "each_row (write_new_row env x scope columns) news s1 = Inr (rows1, s')"
    using Cons.prems(3) by (auto simp: case_prod_beta)
  have step: "row_step [x] (ds_tables s) (ds_tables s1)" using write_new_step [OF Cons.prems(1,2) one] Cons.prems(4) [of new] by auto
  have "listColumns x (ds_tables s1) = listColumns x (ds_tables s)" using step by (simp add: row_step_def listColumns_def)
  then have "row_step (replicate (length news) x) (ds_tables s1) (ds_tables s')"
    using Cons.IH [OF _ row_step_schema [OF step Cons.prems(2)] rest] step Cons.prems(4) by (simp add: row_step_def)
  with step show ?case using row_step_trans by fastforce
qed

lemma insertRow_call:
  assumes "rows_ok (ds_tables s)" "schema_ok (ds_tables s)" "insertRow env x scope data s = Inr (row, s')"
  shows "row_call x (ds_tables s) (ds_tables s')"
proof -
  obtain at' s1 where t: "tick env s = (at', s1)" by fastforce
  note t1 = tickD [OF t]
  define new where "new = withDaemonSetCells (daemonSetColumns (listColumns x (ds_tables s))) data at'"
  have "validateCells env (listColumns x (ds_tables s)) new = Inr ()" "write_new_row env x scope (listColumns x (ds_tables s)) (new, at') s1 = Inr (row, s')"
    "countRows x (ds_tables s) + 1 \<le> MAX_ROWS_PER_STORE"
    using assms(3) t t1 by (auto simp: insertRow_def Let_def new_def assertRowCapacity_def)
  with write_new_step [of s1 env x scope _ "(new, at')"] assms(1,2) t1 show ?thesis unfolding row_call_def by (intro exI [of _ 1]) simp
qed

lemma stamp_rows_tables: "stamp_rows env columns items s = (stamped, s') \<Longrightarrow> ds_tables s' = ds_tables s \<and> length stamped = length items"
proof (induction items arbitrary: s stamped s')
  case (Cons item items)
  obtain at' s1 where one: "tick env s = (at', s1)" by fastforce
  obtain rest s2 where two: "stamp_rows env columns items s1 = (rest, s2)" by fastforce
  from Cons.IH [OF two] tickD [OF one] one two Cons.prems show ?case by auto
qed simp

lemma check_all_each: "check_all f xs = Inr u \<Longrightarrow> x \<in> set xs \<Longrightarrow> \<exists>u. f x = Inr u"
  using traverse_each [of f xs _ x] by (auto simp: check_all_def)

lemma insertRows_call:
  assumes "rows_ok (ds_tables s)" "schema_ok (ds_tables s)" "insertRows env x scope items s = Inr (rows, s')"
  shows "row_call x (ds_tables s) (ds_tables s')"
proof -
  let ?cs = "listColumns x (ds_tables s)"
  obtain stamped s1 where st: "stamp_rows env (daemonSetColumns ?cs) items s = (stamped, s1)" by fastforce
  note t1 = stamp_rows_tables [OF st]
  obtain u where checked: "check_all (\<lambda>(data, _). and_then (validateCells env ?cs data) (\<lambda>_. refuseKindOutsideManagerLogList env x ?cs data s1)) stamped = Inr u"
    and cap: "countRows x (ds_tables s) + length items \<le> MAX_ROWS_PER_STORE" and rows: "each_row (write_new_row env x scope ?cs) stamped s1 = Inr (rows, s')"
    using assms(3) st t1 by (auto simp: insertRows_def Let_def assertRowCapacity_def)
  have "\<exists>u. validateCells env ?cs (fst new) = Inr u" if "new \<in> set stamped" for new
    using check_all_each [OF checked that] by (auto simp: case_prod_beta)
  with write_all_new_step [OF _ _ rows] assms(1,2) t1 cap show ?thesis unfolding row_call_def by (intro exI [of _ "length items"]) auto
qed

lemma write_update_step:
  assumes "rows_ok (ds_tables s)" "schema_ok (ds_tables s)" "write_row_update env x p a columns item s = Inr (row, s')"
    and "validateCells env (listColumns x (ds_tables s)) (ru_patch item) = Inr u"
  shows "row_step [] (ds_tables s) (ds_tables s')"
proof -
  obtain at' s1 where t: "tick env s = (at', s1)" by fastforce
  note t1 = tickD [OF t]
  obtain u s2 where "refuseNaturalKeyHeldByAnotherRow env x (ru_rowId item) (ru_patch item) s = Inr u"
    "updateRow_row env (ru_rowId item) x (ru_patch item) (ru_expectedRev item) a at' s1 = Inr (row, s2)" "ds_tables s' = ds_tables s2"
    using assms(3) t by (auto simp: write_row_update_def Let_def case_prod_beta)
  with update_step [of s1 env "ru_rowId item" x "ru_patch item" "ru_expectedRev item" a at'] assms(1,2) validated_cells [OF assms(4)] t1 show ?thesis by simp
qed

lemma write_all_updates_step:
  assumes "rows_ok (ds_tables s)" "schema_ok (ds_tables s)" "each_row (write_row_update env x p a columns) items s = Inr (rows, s')"
    and "\<And>item. item \<in> set items \<Longrightarrow> \<exists>u. validateCells env (listColumns x (ds_tables s)) (ru_patch item) = Inr u"
  shows "row_step [] (ds_tables s) (ds_tables s')"
  using assms
proof (induction items arbitrary: s rows)
  case Nil
  then show ?case by (simp add: row_step_refl)
next
  case (Cons item items)
  obtain row s1 rows1 where one: "write_row_update env x p a columns item s = Inr (row, s1)" and rest: "each_row (write_row_update env x p a columns) items s1 = Inr (rows1, s')"
    using Cons.prems(3) by (auto simp: case_prod_beta)
  have step: "row_step [] (ds_tables s) (ds_tables s1)" using write_update_step [OF Cons.prems(1,2) one] Cons.prems(4) [of item] by auto
  have "listColumns x (ds_tables s1) = listColumns x (ds_tables s)" using step by (simp add: row_step_def listColumns_def)
  then have "row_step [] (ds_tables s1) (ds_tables s')"
    using Cons.IH [OF _ row_step_schema [OF step Cons.prems(2)] rest] step Cons.prems(4) by (simp add: row_step_def)
  with step show ?case using row_step_trans by fastforce
qed

lemma updateRow_call:
  assumes "rows_ok (ds_tables s)" "schema_ok (ds_tables s)" "updateRow env x i p cells a d s = Inr (row, s')"
  shows "row_step [] (ds_tables s) (ds_tables s')"
proof -
  obtain at' s1 where t: "tick env s = (at', s1)" by fastforce
  note t1 = tickD [OF t]
  obtain s2 where "refuseNaturalKeyHeldByAnotherRow env x i cells s = Inr ()" "updateRow_row env i x cells None a at' s1 = Inr (row, s2)" "ds_tables s' = ds_tables s2"
    and v: "validateCells env (listColumns x (ds_tables s)) cells = Inr ()"
    using assms(3) t by (auto simp: updateRow_def Let_def case_prod_beta)
  with update_step [of s1 env i x cells None a at'] assms(1,2) validated_cells [OF v] t1 show ?thesis by simp
qed

lemma updateRows_call:
  assumes "rows_ok (ds_tables s)" "schema_ok (ds_tables s)" "updateRows env x p items a s = Inr (rows, s')"
  shows "row_step [] (ds_tables s) (ds_tables s')"
proof -
  let ?cs = "listColumns x (ds_tables s)"
  obtain u where checked: "check_all (\<lambda>item. and_then (refuseDaemonSetCells x (ru_patch item) s) (\<lambda>_. and_then (validateCells env ?cs (ru_patch item)) (\<lambda>_.
      refuseKindOutsideManagerLogList env x ?cs (ru_patch item) s))) items = Inr u" and rows: "each_row (write_row_update env x p a ?cs) items s = Inr (rows, s')"
    using assms(3) by (auto simp: updateRows_def Let_def)
  have "\<exists>u. validateCells env ?cs (ru_patch item) = Inr u" if "item \<in> set items" for item
    using check_all_each [OF checked that] by auto
  with write_all_updates_step [OF assms(1,2) rows] show ?thesis by blast
qed

lemma updateRowsWhere_call:
  assumes "rows_ok (ds_tables s)" "schema_ok (ds_tables s)" "updateRowsWhere env x p clauses cells a s = Inr (r, s')"
  shows "row_step [] (ds_tables s) (ds_tables s')"
  using assms(3) updateRows_call [OF assms(1,2)] by (auto simp: updateRowsWhere_def)

lemma saveRow_cases:
  assumes "saveRow env x scope data mode s = Inr (r, s')"
  obtains row where "insertRow env x scope data s = Inr (row, s')" | i p cells row where "updateRow env x i p cells (is_actor scope) False s = Inr (row, s')"
proof (cases "naturalKeyColumnId x s")
  case None
  then show ?thesis using assms that(1) by (auto simp: saveRow_def Let_def split: if_splits)
next
  case (Some k)
  show ?thesis
  proof (cases "opt_default JNull (patched data k)")
    case (JStr v)
    then obtain rows where rows: "runQuery env x [key_clause k v] [] (Some 2) s = Inr rows" using assms Some by (auto simp: saveRow_def Let_def)
    consider "rows = []" | row where "rows = [row]" | row row' rest where "rows = row # row' # rest" by (cases rows rule: remdups_adj.cases) auto
    then show ?thesis
    proof cases
      case 1
      then show ?thesis using assms Some JStr rows that(1) by (auto simp: saveRow_def Let_def split: if_splits)
    next
      case (2 row)
      then show ?thesis using assms Some JStr rows that(2) by (auto simp: saveRow_def Let_def split: if_splits)
    qed (use assms Some JStr rows in \<open>auto simp: saveRow_def Let_def split: if_splits\<close>)
  qed (use assms Some that(1) in \<open>auto simp: saveRow_def Let_def split: if_splits\<close>)
qed

lemma saveRow_call:
  assumes "rows_ok (ds_tables s)" "schema_ok (ds_tables s)" "saveRow env x scope data mode s = Inr (r, s')"
  shows "row_call x (ds_tables s) (ds_tables s')"
  using assms(3)
proof (cases rule: saveRow_cases)
  case (1 row)
  with insertRow_call [OF assms(1,2)] show ?thesis by blast
next
  case (2 i p cells row)
  then have "row_step [] (ds_tables s) (ds_tables s')" using updateRow_call [OF assms(1,2)] by blast
  then show ?thesis unfolding row_call_def by (intro exI [of _ 0]) simp
qed

section \<open>Changes of the schema\<close>

definition stores_ok :: "store_tables \<Rightarrow> bool" where
  "stores_ok t \<longleftrightarrow> schema_ok t \<and> rows_ok t \<and> cap_ok t"

lemma schemaD:
  assumes "schema_ok t"
  shows "distinct (map st_id (ts_stores t))" "distinct (map co_id (ts_columns t))" "distinct (map vw_id (ts_views t))"
    "co_storeId ` set (ts_columns t) \<subseteq> st_id ` set (ts_stores t)" "vw_storeId ` set (ts_views t) \<subseteq> st_id ` set (ts_stores t)"
    "s \<in> set (ts_stores t) \<Longrightarrow> st_naturalKeyColumnId s = Some k \<Longrightarrow> \<exists>c. column_of t k (st_id s) c \<and> co_columnType c = TextColumn"
    "c \<in> set (ts_columns t) \<Longrightarrow> co_columnType c = SelectColumn \<Longrightarrow> \<exists>os. co_options c = Some os \<and> distinct (map so_id os)"
    "acyclic (display_of (ts_columns t))" "c \<in> set (ts_columns t) \<Longrightarrow> md_displayColumnId (co_metadata c) = Some d \<Longrightarrow> \<exists>c'. column_of t d (co_storeId c) c'"
    "v \<in> set (ts_views t) \<Longrightarrow> view_ok t v"
  using assms unfolding schema_ok_def display_ok_def by blast+

lemma schemaI:
  assumes "distinct (map st_id (ts_stores t))" "distinct (map co_id (ts_columns t))" "distinct (map vw_id (ts_views t))"
    "co_storeId ` set (ts_columns t) \<subseteq> st_id ` set (ts_stores t)" "vw_storeId ` set (ts_views t) \<subseteq> st_id ` set (ts_stores t)"
    "\<And>s k. s \<in> set (ts_stores t) \<Longrightarrow> st_naturalKeyColumnId s = Some k \<Longrightarrow> \<exists>c. column_of t k (st_id s) c \<and> co_columnType c = TextColumn"
    "\<And>c. c \<in> set (ts_columns t) \<Longrightarrow> co_columnType c = SelectColumn \<Longrightarrow> \<exists>os. co_options c = Some os \<and> distinct (map so_id os)"
    "acyclic (display_of (ts_columns t))" "\<And>c d. c \<in> set (ts_columns t) \<Longrightarrow> md_displayColumnId (co_metadata c) = Some d \<Longrightarrow> \<exists>c'. column_of t d (co_storeId c) c'"
    "\<And>v. v \<in> set (ts_views t) \<Longrightarrow> view_ok t v"
  shows "schema_ok t"
  unfolding schema_ok_def display_ok_def using assms by (intro conjI ballI allI impI) assumption+

lemma group_referenced: "vc_groupByColumnId config = Some k \<Longrightarrow> viewConfigReferences config k"
  by (simp add: viewConfigReferences_def)

lemma view_ok_mono:
  assumes "view_ok t v" "\<And>k c. viewConfigReferences (vw_config v) k \<Longrightarrow> column_of t k (vw_storeId v) c \<Longrightarrow> \<exists>c'. column_of t' k (vw_storeId v) c' \<and> co_columnType c' = co_columnType c"
  shows "view_ok t' v"
proof -
  have "\<exists>k c. vc_groupByColumnId (vw_config v) = Some k \<and> column_of t' k (vw_storeId v) c \<and> co_columnType c = SelectColumn" if kanban: "vw_viewType v = Kanban"
  proof -
    obtain k c where k: "vc_groupByColumnId (vw_config v) = Some k" "column_of t k (vw_storeId v) c" "co_columnType c = SelectColumn" using assms(1) kanban unfolding view_ok_def by blast
    from assms(2) [OF group_referenced [OF k(1)] k(2)] k show ?thesis by auto
  qed
  moreover have "\<exists>c. column_of t' k (vw_storeId v) c" if "viewConfigReferences (vw_config v) k" for k
    using assms(1) assms(2) [OF that] that unfolding view_ok_def by blast
  ultimately show ?thesis using assms(1) unfolding view_ok_def by blast
qed

text \<open>A change that leaves the rows and their history alone.\<close>

definition same_rows :: "store_tables \<Rightarrow> store_tables \<Rightarrow> bool" where
  "same_rows t t' \<longleftrightarrow> ts_rows t' = ts_rows t \<and> ts_history t' = ts_history t \<and> ts_nextSeq t' = ts_nextSeq t"

lemma same_rows_kept:
  assumes "same_rows t t'"
  shows "follows t t'" "cap_ok t' = cap_ok t" "entries key t' = entries key t"
  using assms by (simp_all add: same_rows_def follows_fewer cap_ok_def countRows_def entries_def)

lemma same_rows_ok:
  assumes "same_rows t t'" "rows_ok t" "st_id ` set (ts_stores t) \<subseteq> st_id ` set (ts_stores t')"
    and "\<And>r. r \<in> set (ts_rows t) \<Longrightarrow> cells_ok t (rw_storeId r) (rw_data r) \<Longrightarrow> cells_ok t' (rw_storeId r) (rw_data r)"
    and "\<And>r r' v. r \<in> set (ts_rows t) \<Longrightarrow> r' \<in> set (ts_rows t) \<Longrightarrow> rw_storeId r = rw_storeId r' \<Longrightarrow> holds_key t' r v \<Longrightarrow> holds_key t' r' v \<Longrightarrow> rw_id r = rw_id r'"
  shows "rows_ok t'"
proof -
  have e: "ts_rows t' = ts_rows t" "ts_history t' = ts_history t" "ts_nextSeq t' = ts_nextSeq t" using assms(1) by (simp_all add: same_rows_def)
  note ok = assms(2) [unfolded rows_ok_def]
  have "\<forall>r \<in> set (ts_rows t). cells_ok t' (rw_storeId r) (rw_data r)" "rw_storeId ` set (ts_rows t) \<subseteq> st_id ` set (ts_stores t')" using ok assms(3,4) by blast+
  then show ?thesis unfolding rows_ok_def e same_rows_kept(3) [OF assms(1)] using ok assms(5) by blast
qed

lemma same_keys: "rows_ok t \<Longrightarrow> (\<And>r v. holds_key t' r v \<Longrightarrow> holds_key t r v) \<Longrightarrow> r \<in> set (ts_rows t) \<Longrightarrow> r' \<in> set (ts_rows t) \<Longrightarrow> rw_storeId r = rw_storeId r'
    \<Longrightarrow> holds_key t' r v \<Longrightarrow> holds_key t' r' v \<Longrightarrow> rw_id r = rw_id r'"
  unfolding rows_ok_def by metis

lemma add_store_ok:
  assumes "stores_ok t" "st_id store \<notin> st_id ` set (ts_stores t)" "st_naturalKeyColumnId store = None" "t' = t\<lparr>ts_stores := ts_stores t @ [store]\<rparr>"
  shows "stores_ok t' \<and> follows t t'"
proof -
  have same: "same_rows t t'" by (simp add: assms(4) same_rows_def)
  have "schema_ok t'" using assms by (auto simp: stores_ok_def schema_ok_def display_ok_def view_ok_def column_of_def)
  moreover have "rows_ok t'"
    by (rule same_rows_ok [OF same], use assms in \<open>auto simp: stores_ok_def cells_ok_def column_of_def\<close>)
      (rule same_keys [of t t'], use assms in \<open>auto simp: stores_ok_def holds_key_def\<close>)
  ultimately show ?thesis using same_rows_kept [OF same] assms(1) by (simp add: stores_ok_def)
qed

lemma held_texts_apart:
  assumes "distinct (held_texts x k t)" "r \<in> set (ts_rows t)" "r' \<in> set (ts_rows t)" "rw_storeId r = x" "rw_storeId r' = x"
    "fmlookup (rw_data r) k = Some (JStr v)" "fmlookup (rw_data r') k = Some (JStr v)"
  shows "r = r'"
  using map_filter_key [OF assms(1) [unfolded held_texts_def], of r r' v] assms(2-) by simp

lemma held_textsI: "r \<in> set (ts_rows t) \<Longrightarrow> rw_storeId r = x \<Longrightarrow> fmlookup (rw_data r) k = Some (JStr v) \<Longrightarrow> v \<in> set (held_texts x k t)"
  by (force simp: held_texts_def List.map_filter_def)

lemma set_natural_key_ok:
  assumes "stores_ok t" and key: "\<And>k. columnId = Some k \<Longrightarrow> (\<exists>c. column_of t k x c \<and> co_columnType c = TextColumn) \<and> distinct (held_texts x k t)"
    and t': "t' = t\<lparr>ts_stores := map (\<lambda>s. if st_id s = x then s\<lparr>st_naturalKeyColumnId := columnId, st_updatedAt := at'\<rparr> else s) (ts_stores t)\<rparr>"
  shows "stores_ok t' \<and> follows t t'"
proof -
  have same: "same_rows t t'" by (simp add: t' same_rows_def)
  have ids: "map st_id (ts_stores t') = map st_id (ts_stores t)" by (simp add: t')
  then have idset: "st_id ` set (ts_stores t') = st_id ` set (ts_stores t)" by (metis set_map)
  have cols: "column_of t' = column_of t" "ts_columns t' = ts_columns t" "ts_views t' = ts_views t" by (auto simp: fun_eq_iff t' column_of_def)
  have "\<exists>c. column_of t k (st_id s) c \<and> co_columnType c = TextColumn" if "s \<in> set (ts_stores t')" "st_naturalKeyColumnId s = Some k" for s k
    using that assms(1) key unfolding t' by (auto simp: stores_ok_def schema_ok_def split: if_splits)
  then have "schema_ok t'" using assms(1) unfolding stores_ok_def schema_ok_def display_ok_def view_ok_def cols ids idset by blast
  moreover have "rows_ok t'"
  proof (rule same_rows_ok [OF same])
    fix r r' v
    assume r: "r \<in> set (ts_rows t)" "r' \<in> set (ts_rows t)" "rw_storeId r = rw_storeId r'" and h: "holds_key t' r v" "holds_key t' r' v"
    show "rw_id r = rw_id r'"
    proof (cases "rw_storeId r = x")
      case True
      then obtain k where k: "columnId = Some k" "fmlookup (rw_data r) k = Some (JStr v)" "fmlookup (rw_data r') k = Some (JStr v)"
        using h r(3) by (auto simp: holds_key_def t' split: if_splits)
      with key True r held_texts_apart show ?thesis by metis
    next
      case False
      then have "holds_key t r v" "holds_key t r' v" using h r(3) by (auto simp: holds_key_def t' split: if_splits)
      then show ?thesis using assms(1) r unfolding stores_ok_def rows_ok_def by metis
    qed
  qed (use assms(1) idset cols in \<open>auto simp: stores_ok_def cells_ok_def\<close>)
  ultimately show ?thesis using same_rows_kept [OF same] assms(1) by (simp add: stores_ok_def)
qed

lemma add_column_ok:
  assumes "stores_ok t" "co_id c \<notin> co_id ` set (ts_columns t)" "co_storeId c \<in> st_id ` set (ts_stores t)" "md_displayColumnId (co_metadata c) = None"
    "co_columnType c = SelectColumn \<Longrightarrow> \<exists>os. co_options c = Some os \<and> distinct (map so_id os)" "t' = t\<lparr>ts_columns := ts_columns t @ [c]\<rparr>"
  shows "stores_ok t' \<and> follows t t'"
proof -
  have same: "same_rows t t'" by (simp add: assms(6) same_rows_def)
  have col: "column_of t k x d \<Longrightarrow> column_of t' k x d" for k x d by (simp add: column_of_def assms(6))
  have ok: "schema_ok t" "rows_ok t" using assms(1) by (simp_all add: stores_ok_def)
  have f: "ts_columns t' = ts_columns t @ [c]" "ts_stores t' = ts_stores t" "ts_views t' = ts_views t" by (simp_all add: assms(6))
  have disp: "display_of (ts_columns t') = display_of (ts_columns t)" using assms(4) by (auto simp: display_of_def f)
  have "\<exists>d'. column_of t' d (co_storeId x) d'" if "x \<in> set (ts_columns t')" "md_displayColumnId (co_metadata x) = Some d" for x d
  proof -
    have "x \<in> set (ts_columns t)" using that assms(4) f(1) by auto
    then show ?thesis using schemaD(9) [OF ok(1) _ that(2)] col by blast
  qed
  then have "display_ok t'" using schemaD(8) [OF ok(1)] unfolding display_ok_def disp by blast
  moreover have "view_ok t' v" if "v \<in> set (ts_views t')" for v
    by (rule view_ok_mono [OF schemaD(10) [OF ok(1)]]) (use that f(3) col in auto)
  moreover have "\<exists>c. column_of t' k (st_id s) c \<and> co_columnType c = TextColumn" if "s \<in> set (ts_stores t')" "st_naturalKeyColumnId s = Some k" for s k
    using schemaD(6) [OF ok(1) _ that(2)] that(1) f(2) col by auto
  ultimately have "schema_ok t'" using schemaD [OF ok(1)] assms(2,3,5) unfolding schema_ok_def by (auto simp: f)
  moreover have "rows_ok t'"
  proof (rule same_rows_ok [OF same])
    show "cells_ok t' (rw_storeId r) (rw_data r)" if "cells_ok t (rw_storeId r) (rw_data r)" for r using that col unfolding cells_ok_def by blast
    show "rw_id r = rw_id r'" if "r \<in> set (ts_rows t)" "r' \<in> set (ts_rows t)" "rw_storeId r = rw_storeId r'" "holds_key t' r v" "holds_key t' r' v" for r r' v
      by (rule same_keys [of t t' r r' v]) (use that ok in \<open>simp_all add: holds_key_def f\<close>)
  qed (use assms(1) in \<open>simp_all add: stores_ok_def f\<close>)
  ultimately show ?thesis using same_rows_kept [OF same] assms(1) by (simp add: stores_ok_def)
qed

lemma typed_sort_order [simp]: "cell_typed (c\<lparr>co_sortOrder := n\<rparr>) v = cell_typed c v"
  by (simp add: cell_typed_def split: column_type.split json.split)

lemma display_of_map:
  assumes "\<And>c. co_id (g c) = co_id c" "\<And>c. md_displayColumnId (co_metadata (g c)) = md_displayColumnId (co_metadata c)"
  shows "display_of (map g cs) = display_of cs"
proof -
  have "display_of cs = (\<Union>c \<in> set cs. {(co_id c, d) | d. md_displayColumnId (co_metadata c) = Some d})" for cs by (auto simp: display_of_def)
  then show ?thesis using assms by simp
qed

text \<open>A change of columns that keeps their ids, stores and types.\<close>

lemma map_columns_ok:
  assumes ok: "schema_ok t" "rows_ok t" and t': "t' = t\<lparr>ts_columns := map f (ts_columns t)\<rparr>"
    and kept: "\<And>c. co_id (f c) = co_id c" "\<And>c. co_storeId (f c) = co_storeId c" "\<And>c. co_columnType (f c) = co_columnType c"
    and options: "\<And>c. c \<in> set (ts_columns t) \<Longrightarrow> co_columnType c = SelectColumn \<Longrightarrow> \<exists>os. co_options (f c) = Some os \<and> distinct (map so_id os)"
    and display: "acyclic (display_of (map f (ts_columns t)))" "\<And>c d. c \<in> set (ts_columns t) \<Longrightarrow> md_displayColumnId (co_metadata (f c)) = Some d \<Longrightarrow> \<exists>c'. column_of t d (co_storeId c) c'"
    and typed: "\<And>c r v. c \<in> set (ts_columns t) \<Longrightarrow> r \<in> set (ts_rows t) \<Longrightarrow> rw_storeId r = co_storeId c \<Longrightarrow> fmlookup (rw_data r) (co_id c) = Some v \<Longrightarrow> cell_typed c v \<Longrightarrow> cell_typed (f c) v"
  shows "schema_ok t'" "rows_ok t'"
proof -
  have same: "same_rows t t'" by (simp add: t' same_rows_def)
  have fs: "ts_columns t' = map f (ts_columns t)" "ts_stores t' = ts_stores t" "ts_views t' = ts_views t" "ts_rows t' = ts_rows t" by (simp_all add: t')
  have col: "column_of t k x c \<Longrightarrow> column_of t' k x (f c)" for k x c using kept by (auto simp: column_of_def fs)
  have ids: "map co_id (ts_columns t') = map co_id (ts_columns t)" using kept(1) by (simp add: fs)
  have stores: "co_storeId ` set (ts_columns t') = co_storeId ` set (ts_columns t)" using kept(2) by (simp add: fs image_image)
  have "\<exists>c'. column_of t' d (co_storeId c) c'" if c: "c \<in> set (ts_columns t')" and d: "md_displayColumnId (co_metadata c) = Some d" for c d
  proof -
    obtain c0 where c0: "c0 \<in> set (ts_columns t)" "c = f c0" using c fs(1) by auto
    then obtain c' where "column_of t d (co_storeId c0) c'" using display(2) [of c0 d] d by auto
    then show ?thesis using col kept(2) c0(2) by auto
  qed
  then have "display_ok t'" using display(1) unfolding display_ok_def fs by blast
  moreover have "\<forall>v \<in> set (ts_views t'). view_ok t' v"
  proof
    fix v assume "v \<in> set (ts_views t')"
    then have "view_ok t v" using schemaD(10) [OF ok(1)] fs(3) by simp
    then show "view_ok t' v" by (rule view_ok_mono) (use col kept(3) in blast)
  qed
  moreover have "\<exists>c. column_of t' k (st_id s) c \<and> co_columnType c = TextColumn" if s: "s \<in> set (ts_stores t')" "st_naturalKeyColumnId s = Some k" for s k
  proof -
    obtain c where "column_of t k (st_id s) c" "co_columnType c = TextColumn" using schemaD(6) [OF ok(1) _ s(2)] s(1) fs(2) by auto
    then show ?thesis using col kept(3) by metis
  qed
  moreover have "\<exists>os. co_options c = Some os \<and> distinct (map so_id os)" if "c \<in> set (ts_columns t')" "co_columnType c = SelectColumn" for c
    using that options kept(3) by (auto simp: fs)
  ultimately show "schema_ok t'" using schemaD [OF ok(1)] unfolding schema_ok_def ids stores fs(2,3) by blast
  show "rows_ok t'"
  proof (rule same_rows_ok [OF same ok(2)])
    fix r assume r: "r \<in> set (ts_rows t)" and cells: "cells_ok t (rw_storeId r) (rw_data r)"
    show "cells_ok t' (rw_storeId r) (rw_data r)" unfolding cells_ok_def
    proof (intro allI impI)
      fix k v assume v: "fmlookup (rw_data r) k = Some v"
      then obtain c where c: "column_of t k (rw_storeId r) c" "cell_typed c v" using cells unfolding cells_ok_def by blast
      then have "cell_typed (f c) v" using typed [of c r v] r v by (simp add: column_of_def)
      then show "\<exists>c. column_of t' k (rw_storeId r) c \<and> cell_typed c v" using col [OF c(1)] by blast
    qed
  next
    fix r r' v assume "r \<in> set (ts_rows t)" "r' \<in> set (ts_rows t)" "rw_storeId r = rw_storeId r'" "holds_key t' r v" "holds_key t' r' v"
    then show "rw_id r = rw_id r'" by (intro same_keys [OF ok(2), of t' r r' v]) (simp_all add: holds_key_def fs)
  qed (simp add: fs)
qed

lemma reorder_ok:
  assumes "schema_ok t" "rows_ok t"
  shows "schema_ok (reorderColumns_rows x ids t) \<and> rows_ok (reorderColumns_rows x ids t) \<and> same_rows t (reorderColumns_rows x ids t)"
proof -
  let ?f = "\<lambda>(position, columnId) t. t\<lparr>ts_columns := map (\<lambda>c. if co_id c = columnId \<and> co_storeId c = x then c\<lparr>co_sortOrder := position\<rparr> else c) (ts_columns t)\<rparr>"
  have one: "schema_ok (?f p t) \<and> rows_ok (?f p t) \<and> same_rows t (?f p t)" if "schema_ok t" "rows_ok t" for p t
  proof -
    let ?g = "\<lambda>c. if co_id c = snd p \<and> co_storeId c = x then c\<lparr>co_sortOrder := fst p\<rparr> else c"
    have "display_of (map ?g (ts_columns t)) = display_of (ts_columns t)" by (rule display_of_map) simp_all
    then have disp: "acyclic (display_of (map ?g (ts_columns t)))" using schemaD(8) [OF that(1)] by simp
    have e: "?f p t = t\<lparr>ts_columns := map ?g (ts_columns t)\<rparr>" by (simp add: case_prod_beta)
    note kept = map_columns_ok [OF that e _ _ _ _ disp]
    have "schema_ok (?f p t)" by (rule kept(1)) (use schemaD(7,9) [OF that(1)] in \<open>auto split: if_splits\<close>)
    moreover have "rows_ok (?f p t)" by (rule kept(2)) (use schemaD(7,9) [OF that(1)] in \<open>auto split: if_splits\<close>)
    ultimately show ?thesis by (simp add: e same_rows_def)
  qed
  have "schema_ok (fold ?f ps t) \<and> rows_ok (fold ?f ps t) \<and> same_rows t (fold ?f ps t)" if "schema_ok t" "rows_ok t" for ps t
    using that
  proof (induction ps arbitrary: t)
    case (Cons p ps)
    from one [OF Cons.prems, of p] Cons.IH [of "?f p t"] show ?case by (simp add: same_rows_def del: split_paired_All)
  qed (simp add: same_rows_def)
  then show ?thesis using assms unfolding reorderColumns_rows_def by blast
qed

end
