(* ===== verification/Data_Store_Schema.thy ===== *)
theory Data_Store_Schema
  imports Data_Store_Laws Fleet_Interfaces
begin

text \<open>
  The calls that change stores, columns and views keep the invariant of the tables: what removing or changing a column asks first
  is enough for every cell, key, label and view that is left.
\<close>

lemma length_filter_filter: "length (filter P (filter Q xs)) \<le> length (filter P xs)"
  by (induction xs) auto

lemma rowsI:
  assumes "distinct (map rw_id (ts_rows t))" "rw_storeId ` set (ts_rows t) \<subseteq> st_id ` set (ts_stores t)" "\<And>r. r \<in> set (ts_rows t) \<Longrightarrow> cells_ok t (rw_storeId r) (rw_data r)"
    "\<And>r r' v. r \<in> set (ts_rows t) \<Longrightarrow> r' \<in> set (ts_rows t) \<Longrightarrow> rw_storeId r = rw_storeId r' \<Longrightarrow> holds_key t r v \<Longrightarrow> holds_key t r' v \<Longrightarrow> rw_id r = rw_id r'"
    "\<And>h. h \<in> set (ts_history t) \<Longrightarrow> hs_seq h < ts_nextSeq t" "\<And>r. r \<in> set (ts_rows t) \<Longrightarrow> rw_rev r = Suc (changes_since_created (entries (rw_key r) t))"
  shows "rows_ok t"
  unfolding rows_ok_def using assms by blast

lemma rowsD:
  assumes "rows_ok t"
  shows "distinct (map rw_id (ts_rows t))" "rw_storeId ` set (ts_rows t) \<subseteq> st_id ` set (ts_stores t)" "r \<in> set (ts_rows t) \<Longrightarrow> cells_ok t (rw_storeId r) (rw_data r)"
    "r \<in> set (ts_rows t) \<Longrightarrow> r' \<in> set (ts_rows t) \<Longrightarrow> rw_storeId r = rw_storeId r' \<Longrightarrow> holds_key t r v \<Longrightarrow> holds_key t r' v \<Longrightarrow> rw_id r = rw_id r'"
    "h \<in> set (ts_history t) \<Longrightarrow> hs_seq h < ts_nextSeq t" "r \<in> set (ts_rows t) \<Longrightarrow> rw_rev r = Suc (changes_since_created (entries (rw_key r) t))"
  using assms unfolding rows_ok_def by blast+

subsection \<open>Removing a column or a store\<close>

lemma clear_step:
  assumes ok: "rows_ok (ds_tables s)" and row: "row \<in> set (ts_rows (ds_tables s))" and cl: "clearCell env k a at' row s = Inr s'"
  shows "row_step [] (ds_tables s) (ds_tables s')" "\<And>r. r \<in> set (ts_rows (ds_tables s')) \<Longrightarrow> (if rw_id r = rw_id row then fmlookup (rw_data r) k = None else r \<in> set (ts_rows (ds_tables s)))"
    "\<And>r. r \<in> set (ts_rows (ds_tables s)) \<Longrightarrow> rw_id r \<noteq> rw_id row \<Longrightarrow> r \<in> set (ts_rows (ds_tables s'))"
proof -
  have only: "r = row" if "r \<in> set (ts_rows (ds_tables s))" "rw_id r = rw_id row" for r using rows_unique [OF ok that(1) row that(2)] .
  have "row_step [] (ds_tables s) (ds_tables s') \<and> (\<forall>r. r \<in> set (ts_rows (ds_tables s')) \<longrightarrow> (if rw_id r = rw_id row then fmlookup (rw_data r) k = None else r \<in> set (ts_rows (ds_tables s))))
    \<and> (\<forall>r. r \<in> set (ts_rows (ds_tables s)) \<longrightarrow> rw_id r \<noteq> rw_id row \<longrightarrow> r \<in> set (ts_rows (ds_tables s')))"
    using cl
  proof (cases rule: clearCell_effect)
    case same
    then show ?thesis using row_step_refl [OF ok] only by auto
  next
    case (changed h)
    have typed: "cells_ok (ds_tables s) (rw_storeId row) (fmdrop k (rw_data row))" using ok row unfolding rows_ok_def cells_ok_def by (auto split: if_splits)
    have key: "\<not> holds_key (ds_tables s) r v" if "r \<in> set (ts_rows (ds_tables s))" "rw_id r \<noteq> rw_id row" "rw_storeId r = rw_storeId row"
      "holds_key (ds_tables s) (row\<lparr>rw_data := fmdrop k (rw_data row)\<rparr>) v" for r v
    proof
      assume held: "holds_key (ds_tables s) r v"
      have "holds_key (ds_tables s) row v" using that(4) by (auto simp: holds_key_def split: if_splits)
      then show False using ok row that(1-3) held unfolding rows_ok_def by metis
    qed
    have "rows_ok (ds_tables s')" unfolding changed(2) using changed_rows_ok [OF ok row typed key] changed(3-6) by blast
    moreover have "follows (ds_tables s) (ds_tables s')"
      by (rule follows_write [of _ _ h]) (use changed in \<open>auto simp: set_rows_set rw_key_def split: if_splits\<close>)
    moreover have "if rw_id r = rw_id row then fmlookup (rw_data r) k = None else r \<in> set (ts_rows (ds_tables s))" if "r \<in> set (ts_rows (ds_tables s'))" for r
    proof -
      obtain y where y: "y \<in> set (ts_rows (ds_tables s))"
        "r = (if rw_id y = rw_id row \<and> rw_storeId y = rw_storeId row then y\<lparr>rw_data := fmdrop k (rw_data row), rw_rev := Suc (rw_rev row), rw_updatedAt := at'\<rparr> else y)"
        using \<open>r \<in> set (ts_rows (ds_tables s'))\<close> by (auto simp: changed(2) set_rows_set)
      show ?thesis
      proof (cases "rw_id y = rw_id row")
        case True
        then show ?thesis using y(2) only [OF y(1)] by simp
      qed (use y in simp)
    qed
    moreover have "r \<in> set (ts_rows (ds_tables s'))" if "r \<in> set (ts_rows (ds_tables s))" "rw_id r \<noteq> rw_id row" for r
      using that by (auto simp: changed(2) set_rows_set)
    ultimately show ?thesis using changed(2) by (simp add: row_step_def)
  qed
  then show "row_step [] (ds_tables s) (ds_tables s')" "\<And>r. r \<in> set (ts_rows (ds_tables s')) \<Longrightarrow> (if rw_id r = rw_id row then fmlookup (rw_data r) k = None else r \<in> set (ts_rows (ds_tables s)))"
    "\<And>r. r \<in> set (ts_rows (ds_tables s)) \<Longrightarrow> rw_id r \<noteq> rw_id row \<Longrightarrow> r \<in> set (ts_rows (ds_tables s'))" by blast+
qed

lemma clear_all_step:
  assumes "rows_ok (ds_tables s)" "set todo \<subseteq> set (ts_rows (ds_tables s))" "distinct (map rw_id todo)" "each (clearCell env k a at') todo s = Inr s'"
  shows "row_step [] (ds_tables s) (ds_tables s') \<and> (\<forall>r \<in> set (ts_rows (ds_tables s')). (if rw_id r \<in> rw_id ` set todo then fmlookup (rw_data r) k = None else r \<in> set (ts_rows (ds_tables s))))"
  using assms
proof (induction todo arbitrary: s)
  case Nil
  then show ?case by (simp add: row_step_refl)
next
  case (Cons row todo)
  obtain s1 where one: "clearCell env k a at' row s = Inr s1" and rest: "each (clearCell env k a at') todo s1 = Inr s'" using Cons.prems(4) by auto
  have "row \<in> set (ts_rows (ds_tables s))" using Cons.prems(2) by simp
  note step = clear_step [OF Cons.prems(1) this one]
  have "set todo \<subseteq> set (ts_rows (ds_tables s1))"
  proof
    fix y assume "y \<in> set todo"
    then have "y \<in> set (ts_rows (ds_tables s))" "rw_id y \<noteq> rw_id row" using Cons.prems(2,3) by (auto simp: image_iff)
    then show "y \<in> set (ts_rows (ds_tables s1))" by (rule step(3))
  qed
  then have IH: "row_step [] (ds_tables s1) (ds_tables s')" "\<forall>r \<in> set (ts_rows (ds_tables s')). (if rw_id r \<in> rw_id ` set todo then fmlookup (rw_data r) k = None else r \<in> set (ts_rows (ds_tables s1)))"
    using Cons.IH [OF _ _ _ rest] step(1) Cons.prems(3) by (simp_all add: row_step_def)
  have "if rw_id r \<in> rw_id ` set (row # todo) then fmlookup (rw_data r) k = None else r \<in> set (ts_rows (ds_tables s))" if "r \<in> set (ts_rows (ds_tables s'))" for r
    using IH(2) [rule_format, OF that] step(2) [of r] by (auto split: if_splits)
  then show ?case using row_step_trans [OF step(1) IH(1)] by simp
qed

lemma drop_column_ok:
  assumes ok: "schema_ok t" "rows_ok t" and t': "t' = t\<lparr>ts_columns := filter (\<lambda>c. \<not> (co_id c = k \<and> co_storeId c = x)) (ts_columns t)\<rparr>"
    and cleared: "\<And>r. r \<in> set (ts_rows t) \<Longrightarrow> rw_storeId r = x \<Longrightarrow> fmlookup (rw_data r) k = None"
    and key: "\<And>s. s \<in> set (ts_stores t) \<Longrightarrow> st_id s = x \<Longrightarrow> st_naturalKeyColumnId s \<noteq> Some k"
    and views: "\<And>v. v \<in> set (ts_views t) \<Longrightarrow> vw_storeId v = x \<Longrightarrow> \<not> viewConfigReferences (vw_config v) k"
    and labels: "\<And>c. c \<in> set (ts_columns t) \<Longrightarrow> co_storeId c = x \<Longrightarrow> md_displayColumnId (co_metadata c) \<noteq> Some k"
  shows "schema_ok t'" "rows_ok t'"
proof -
  have same: "same_rows t t'" by (simp add: t' same_rows_def)
  have fs: "ts_stores t' = ts_stores t" "ts_views t' = ts_views t" "set (ts_columns t') \<subseteq> set (ts_columns t)" "distinct (map co_id (ts_columns t'))"
    using schemaD(2) [OF ok(1)] by (auto simp: t' intro: distinct_map_filter)
  have col: "column_of t j y c \<Longrightarrow> \<not> (j = k \<and> y = x) \<Longrightarrow> column_of t' j y c" for j y c by (auto simp: column_of_def t')
  have acy: "acyclic (display_of (ts_columns t'))"
    by (rule acyclic_subset [OF schemaD(8) [OF ok(1)]]) (use fs(3) in \<open>auto simp: display_of_def\<close>)
  have target: "\<exists>c'. column_of t' d (co_storeId c) c'" if c: "c \<in> set (ts_columns t')" and d: "md_displayColumnId (co_metadata c) = Some d" for c d
  proof -
    have "c \<in> set (ts_columns t)" using c fs(3) by blast
    then show ?thesis using schemaD(9) [OF ok(1) _ d] col [of d "co_storeId c"] labels [of c] d by blast
  qed
  have vok: "view_ok t' v" if v: "v \<in> set (ts_views t')" for v
  proof (rule view_ok_mono [of t])
    show "view_ok t v" using schemaD(10) [OF ok(1)] v fs(2) by simp
    show "\<exists>c'. column_of t' j (vw_storeId v) c' \<and> co_columnType c' = co_columnType c" if "viewConfigReferences (vw_config v) j" "column_of t j (vw_storeId v) c" for j c
      using col [OF that(2)] views [of v] v fs(2) that(1) by auto
  qed
  have nk: "\<exists>c. column_of t' j (st_id s) c \<and> co_columnType c = TextColumn" if s: "s \<in> set (ts_stores t')" "st_naturalKeyColumnId s = Some j" for s j
    using schemaD(6) [OF ok(1) _ s(2)] s fs(1) key [of s] col [of j "st_id s"] by auto
  have "co_storeId ` set (ts_columns t') \<subseteq> st_id ` set (ts_stores t')" using schemaD(4) [OF ok(1)] fs(1,3) by auto
  moreover have "\<exists>os. co_options c = Some os \<and> distinct (map so_id os)" if "c \<in> set (ts_columns t')" "co_columnType c = SelectColumn" for c
    using schemaD(7) [OF ok(1)] that fs(3) by blast
  ultimately show "schema_ok t'" by (intro schemaI acy target vok nk fs(4)) (use schemaD(1,3,5) [OF ok(1)] fs(1,2) in simp_all)
  show "rows_ok t'"
  proof (rule same_rows_ok [OF same ok(2)])
    fix r assume r: "r \<in> set (ts_rows t)" and cells: "cells_ok t (rw_storeId r) (rw_data r)"
    show "cells_ok t' (rw_storeId r) (rw_data r)" unfolding cells_ok_def
    proof (intro allI impI)
      fix j v assume v: "fmlookup (rw_data r) j = Some v"
      then obtain c where c: "column_of t j (rw_storeId r) c" "cell_typed c v" using cells unfolding cells_ok_def by blast
      have "\<not> (j = k \<and> rw_storeId r = x)" using cleared [OF r] v by auto
      then show "\<exists>c. column_of t' j (rw_storeId r) c \<and> cell_typed c v" using col [OF c(1)] c(2) by blast
    qed
  next
    fix r r' v assume "r \<in> set (ts_rows t)" "r' \<in> set (ts_rows t)" "rw_storeId r = rw_storeId r'" "holds_key t' r v" "holds_key t' r' v"
    then show "rw_id r = rw_id r'" by (intro same_keys [OF ok(2), of t' r r' v]) (simp_all add: holds_key_def fs)
  qed (simp add: fs)
qed

lemma drop_store_ok:
  assumes "stores_ok t"
  shows "stores_ok (deleteStore_row x t) \<and> follows t (deleteStore_row x t)"
proof -
  let ?t = "deleteStore_row x t"
  have ok: "schema_ok t" "rows_ok t" "cap_ok t" using assms by (simp_all add: stores_ok_def)
  have col: "column_of t j y c \<Longrightarrow> y \<noteq> x \<Longrightarrow> column_of ?t j y c" for j y c by (auto simp: column_of_def deleteStore_row_def)
  have sets: "s \<in> set (ts_stores ?t) \<longleftrightarrow> s \<in> set (ts_stores t) \<and> st_id s \<noteq> x" "c \<in> set (ts_columns ?t) \<longleftrightarrow> c \<in> set (ts_columns t) \<and> co_storeId c \<noteq> x"
    "r \<in> set (ts_rows ?t) \<longleftrightarrow> r \<in> set (ts_rows t) \<and> rw_storeId r \<noteq> x" "v \<in> set (ts_views ?t) \<longleftrightarrow> v \<in> set (ts_views t) \<and> vw_storeId v \<noteq> x" for s c r v
    by (auto simp: deleteStore_row_def)
  have e: "snd key \<noteq> x \<Longrightarrow> entries key ?t = entries key t" for key by (auto simp: entries_def deleteStore_row_def intro!: filter_cong)
  have hk: "holds_key ?t r v \<Longrightarrow> holds_key t r v" for r v by (auto simp: holds_key_def sets)
  have "acyclic (display_of (ts_columns ?t))" by (rule acyclic_subset [OF schemaD(8) [OF ok(1)]]) (auto simp: display_of_def sets)
  moreover have "\<exists>c'. column_of ?t d (co_storeId c) c'" if "c \<in> set (ts_columns ?t)" "md_displayColumnId (co_metadata c) = Some d" for c d
    using that schemaD(9) [OF ok(1), of c d] col unfolding sets by blast
  moreover have "view_ok ?t v" if v: "v \<in> set (ts_views ?t)" for v
  proof (rule view_ok_mono [of t])
    show "\<exists>c'. column_of ?t j (vw_storeId v) c' \<and> co_columnType c' = co_columnType c" if "column_of t j (vw_storeId v) c" for j c
      using col [OF that] v sets(4) by blast
  qed (use v schemaD(10) [OF ok(1)] in \<open>simp add: sets\<close>)
  moreover have "\<exists>c. column_of ?t k (st_id s) c \<and> co_columnType c = TextColumn" if "s \<in> set (ts_stores ?t)" "st_naturalKeyColumnId s = Some k" for s k
    using that schemaD(6) [OF ok(1), of s k] col unfolding sets by blast
  moreover have ids: "distinct (map rw_id (ts_rows ?t))" "rw_storeId ` set (ts_rows ?t) \<subseteq> st_id ` set (ts_stores ?t)"
    using ok(2) by (auto simp: deleteStore_row_def rows_ok_def distinct_map_filter)
  moreover have "distinct (map st_id (ts_stores ?t))" "distinct (map co_id (ts_columns ?t))" "distinct (map vw_id (ts_views ?t))"
    using schemaD(1-3) [OF ok(1)] ok(2) by (simp_all add: deleteStore_row_def distinct_map_filter rows_ok_def)
  moreover have "co_storeId ` set (ts_columns ?t) \<subseteq> st_id ` set (ts_stores ?t)" "vw_storeId ` set (ts_views ?t) \<subseteq> st_id ` set (ts_stores ?t)"
    using schemaD(4,5) [OF ok(1)] ok(2) by (auto simp: deleteStore_row_def rows_ok_def image_iff subset_iff)
  ultimately have "schema_ok ?t" by (intro schemaI) (use schemaD(7) [OF ok(1)] sets in simp_all)
  moreover have "rows_ok ?t"
  proof (rule rowsI [OF ids])
    fix r assume r': "r \<in> set (ts_rows ?t)"
    then have r: "r \<in> set (ts_rows t)" "rw_storeId r \<noteq> x" by (simp_all add: sets)
    show "cells_ok ?t (rw_storeId r) (rw_data r)" using rowsD(3) [OF ok(2) r(1)] col r(2) unfolding cells_ok_def by meson
    show "rw_rev r = Suc (changes_since_created (entries (rw_key r) ?t))" using rowsD(6) [OF ok(2) r(1)] r(2) e [of "rw_key r"] by (simp add: rw_key_def)
    show "rw_id r = rw_id r'" if "r' \<in> set (ts_rows ?t)" "rw_storeId r = rw_storeId r'" "holds_key ?t r v" "holds_key ?t r' v" for r' v
      using rowsD(4) [OF ok(2) r(1) _ that(2) hk hk] that by (simp add: sets)
  qed (use rowsD(5) [OF ok(2)] in \<open>auto simp: deleteStore_row_def\<close>)
  moreover have "cap_ok ?t" unfolding cap_ok_def
  proof
    fix y
    have "countRows y ?t \<le> countRows y t" by (simp add: countRows_def deleteStore_row_def length_filter_filter del: filter_filter)
    then show "countRows y ?t \<le> MAX_ROWS_PER_STORE" using ok(3) unfolding cap_ok_def by (meson le_trans)
  qed
  moreover have "follows t ?t" by (rule follows_fewer) (use e in \<open>auto simp: sets rw_key_def, simp add: deleteStore_row_def\<close>)
  ultimately show ?thesis by (simp add: stores_ok_def)
qed

subsection \<open>Changing a column\<close>

lemma walk_display_apart:
  assumes "walk_display links k visited f = Inr ()" "(f, y) \<in> {(a, b). map_of links a = Some (Some b)}\<^sup>*"
  shows "y \<noteq> k"
  using assms
proof (induction links k visited f rule: walk_display.induct)
  case (1 links k visited f)
  have f: "f \<noteq> k" "f \<notin> set visited" using 1(2) by (simp_all add: walk_display.simps [of links k visited f] split: if_splits)
  from 1(3) show ?case
  proof (cases rule: converse_rtranclE)
    case base
    then show ?thesis using f by simp
  next
    case (step z)
    then have z: "map_of links f = Some (Some z)" by simp
    then have "walk_display links k (f # visited) z = Inr ()" using 1(2) f by (simp add: walk_display.simps [of links k visited f])
    then show ?thesis using 1(1) [OF f z refl] step(2) by blast
  qed
qed

lemma display_path:
  assumes ok: "schema_ok t" and path: "(d, y) \<in> (display_of (ts_columns t))\<^sup>*" and start: "\<exists>c. column_of t d x c"
  shows "(d, y) \<in> {(a, b). map_of (map (\<lambda>c. (co_id c, md_displayColumnId (co_metadata c))) (listColumns x t)) a = Some (Some b)}\<^sup>* \<and> (\<exists>c. column_of t y x c)"
  using path
proof (induction rule: rtrancl_induct)
  case base
  then show ?case using start by simp
next
  case (step y z)
  let ?links = "map (\<lambda>c. (co_id c, md_displayColumnId (co_metadata c))) (listColumns x t)"
  obtain c where c: "c \<in> set (ts_columns t)" "co_id c = y" "md_displayColumnId (co_metadata c) = Some z" using step(2) by (auto simp: display_of_def)
  have "column_of t y (co_storeId c) c" using c by (simp add: column_of_def)
  then have x: "co_storeId c = x" using step(3) columns_unique [OF ok] by (metis column_of_def)
  have "map fst ?links = map co_id (listColumns x t)" by (simp add: comp_def)
  moreover have "distinct (map co_id (listColumns x t))" using schemaD(2) [OF ok] by (simp add: listColumns_def distinct_map_filter)
  ultimately have "distinct (map fst ?links)" by metis
  then have "map_of ?links y = Some (Some z)" by (rule map_of_is_SomeI) (use c x in \<open>auto simp: image_iff intro!: bexI [of _ c]\<close>)
  then have "(d, z) \<in> {(a, b). map_of ?links a = Some (Some b)}\<^sup>*" using step(3) by (auto intro: rtrancl_into_rtrancl)
  then show ?case using schemaD(9) [OF ok c(1,3)] x by blast
qed

lemma column_in: "requireColumn x k s = Inr c \<Longrightarrow> column_of (ds_tables s) k x c"
  by (auto simp: requireColumn_def column_of_def dest: find_SomeD)

lemma replace_each_tables: "replace_each env current rs s = Inr (os, s') \<Longrightarrow> ds_tables s' = ds_tables s"
proof (induction rs arbitrary: s os)
  case (Cons r rs)
  define kept where "kept = (case or_id r of None \<Rightarrow> find (\<lambda>o'. so_label o' = or_label r) current | Some i \<Rightarrow> find (\<lambda>o'. so_id o' = i) current)"
  obtain i s1 where i: "(case kept of Some o' \<Rightarrow> (so_id o', s) | None \<Rightarrow> fresh env s) = (i, s1)" by fastforce
  have "ds_tables s1 = ds_tables s" using i by (auto split: option.splits dest: freshD)
  moreover obtain os' where "replace_each env current rs s1 = Inr (os', s')"
    using Cons.prems i by (auto simp: Let_def simp flip: kept_def split: if_splits)
  ultimately show ?case using Cons.IH by metis
qed simp

lemma validated_options: "validateColumnDefinition SelectColumn o' = Inr options \<Longrightarrow> \<exists>os. options = Some os \<and> distinct (map so_id os)"
  by (auto simp: validateColumnDefinition_def split: option.splits if_splits)

lemma replacedOptions_ok:
  "replacedOptions env c rs s = Inr (options, s') \<Longrightarrow> ds_tables s' = ds_tables s \<and> (\<exists>os. options = Some os \<and> distinct (map so_id os))"
  by (auto simp: replacedOptions_def split: if_splits dest: replace_each_tables validated_options)

lemma options_held:
  assumes "refuseOptionsStillHeldByRows x c options s = Inr u" "co_columnType c = SelectColumn" "r \<in> set (ts_rows (ds_tables s))" "rw_storeId r = x" "fmlookup (rw_data r) (co_id c) = Some (JStr v)"
  shows "v \<in> so_id ` set (opt_default [] options)"
proof -
  have "v \<in> set (held_texts x (co_id c) (ds_tables s))" using held_textsI assms(3-5) by blast
  then show ?thesis using assms(1,2) by (auto simp: refuseOptionsStillHeldByRows_def Let_def filter_empty_conv)
qed

lemma metadataAfter_display:
  assumes "metadataAfter x c ch s = Inr m" "md_displayColumnId m = Some d"
  shows "requireDisplayColumn x c d s = Inr ()"
  using assms by (auto simp: metadataAfter_def Let_def)

lemma display_change_acyclic:
  assumes ok: "schema_ok t" and c: "column_of t k x c" and d: "requireDisplayColumn x c d s = Inr ()" "ds_tables s = t"
  shows "acyclic (insert (k, d) (display_of (ts_columns t)))" "\<exists>c'. column_of t d x c'"
proof -
  have w: "walk_display (map (\<lambda>c. (co_id c, md_displayColumnId (co_metadata c))) (listColumns x t)) k [] d = Inr ()" and known: "d \<in> co_id ` set (listColumns x t)"
    using d c by (auto simp: requireDisplayColumn_def Let_def column_of_def split: if_splits)
  show col: "\<exists>c'. column_of t d x c'" using known by (auto simp: column_of_def)
  have "(d, k) \<notin> (display_of (ts_columns t))\<^sup>*" using display_path [OF ok _ col] walk_display_apart [OF w] by blast
  then show "acyclic (insert (k, d) (display_of (ts_columns t)))" using schemaD(8) [OF ok] by (simp add: acyclic_insert)
qed

lemma change_column_ok:
  assumes ok: "stores_ok t" and c: "column_of t k x c"
    and options: "co_columnType c = SelectColumn \<Longrightarrow> \<exists>os. options = Some os \<and> distinct (map so_id os)"
    and held: "\<And>r v. co_columnType c = SelectColumn \<Longrightarrow> r \<in> set (ts_rows t) \<Longrightarrow> rw_storeId r = x \<Longrightarrow> fmlookup (rw_data r) k = Some (JStr v)
      \<Longrightarrow> v \<in> so_id ` set (opt_default [] (co_options c)) \<Longrightarrow> v \<in> so_id ` set (opt_default [] options)"
    and display: "\<And>d. md_displayColumnId m = Some d \<Longrightarrow> requireDisplayColumn x c d s = Inr ()" "ds_tables s = t"
    and t': "t' = t\<lparr>ts_columns := map (\<lambda>c. if co_id c = k \<and> co_storeId c = x then c\<lparr>co_displayName := name, co_options := options, co_metadata := m\<rparr> else c) (ts_columns t)\<rparr>"
  shows "stores_ok t' \<and> follows t t'"
proof -
  let ?f = "\<lambda>c. if co_id c = k \<and> co_storeId c = x then c\<lparr>co_displayName := name, co_options := options, co_metadata := m\<rparr> else c"
  have sch: "schema_ok t" and rows: "rows_ok t" using ok by (simp_all add: stores_ok_def)
  have only: "y = c" if "y \<in> set (ts_columns t)" "co_id y = k" for y using columns_unique [OF sch _ c] that by (metis column_of_def)
  have disp: "acyclic (display_of (map ?f (ts_columns t)))"
  proof (cases "md_displayColumnId m")
    case None
    show ?thesis by (rule acyclic_subset [OF schemaD(8) [OF sch]]) (use None in \<open>auto simp: display_of_def split: if_splits\<close>)
  next
    case (Some d)
    show ?thesis by (rule acyclic_subset [OF display_change_acyclic(1) [OF sch c display(1) [OF Some] display(2)]]) (use Some in \<open>auto simp: display_of_def split: if_splits\<close>)
  qed
  have opts: "\<exists>os. co_options (?f y) = Some os \<and> distinct (map so_id os)" if "y \<in> set (ts_columns t)" "co_columnType y = SelectColumn" for y
    using schemaD(7) [OF sch that] options only [OF that(1)] that(2) by auto
  have target: "\<exists>c'. column_of t d (co_storeId y) c'" if "y \<in> set (ts_columns t)" "md_displayColumnId (co_metadata (?f y)) = Some d" for y d
    using schemaD(9) [OF sch that(1), of d] display_change_acyclic(2) [OF sch c display(1) display(2)] that(2) by (auto split: if_splits)
  have typed: "cell_typed (?f y) v" if "y \<in> set (ts_columns t)" "r \<in> set (ts_rows t)" "rw_storeId r = co_storeId y" "fmlookup (rw_data r) (co_id y) = Some v" "cell_typed y v" for y r v
  proof (cases "co_id y = k \<and> co_storeId y = x")
    case True
    then show ?thesis using that held [of r] only [OF that(1)] by (cases "co_columnType c") (auto simp: cell_typed_def split: json.splits)
  qed (use that in auto)
  note kept = map_columns_ok [OF sch rows t' _ _ _ opts disp target typed]
  have "schema_ok t'" by (rule kept(1)) auto
  moreover have "rows_ok t'" by (rule kept(2)) auto
  moreover have "same_rows t t'" by (simp add: t' same_rows_def)
  ultimately show ?thesis using same_rows_kept [of t t'] ok by (simp add: stores_ok_def)
qed

lemma setNaturalKey_ok:
  assumes "stores_ok (ds_tables s)" "setNaturalKey env x p columnId s = Inr s'"
  shows "stores_ok (ds_tables s') \<and> follows (ds_tables s) (ds_tables s')"
proof -
  obtain at' s1 where t: "tick env s = (at', s1)" by fastforce
  note t1 = tickD [OF t]
  show ?thesis
  proof (rule set_natural_key_ok [OF assms(1), of columnId x _ at'])
    show "ds_tables s' = (ds_tables s)\<lparr>ts_stores := map (\<lambda>s. if st_id s = x then s\<lparr>st_naturalKeyColumnId := columnId, st_updatedAt := at'\<rparr> else s) (ts_stores (ds_tables s))\<rparr>"
      using assms(2) t t1 by (auto simp: setNaturalKey_def setNaturalKeyColumn_def)
    fix k assume "columnId = Some k"
    then show "(\<exists>c. column_of (ds_tables s) k x c \<and> co_columnType c = TextColumn) \<and> distinct (held_texts x k (ds_tables s))"
      using assms(2) by (auto simp: setNaturalKey_def column_of_def dest!: find_SomeD split: if_splits)
  qed
qed

lemma applyNaturalKeyChoice_ok:
  "stores_ok (ds_tables s) \<Longrightarrow> applyNaturalKeyChoice env x p k b s = Inr s' \<Longrightarrow> stores_ok (ds_tables s') \<and> follows (ds_tables s) (ds_tables s')"
  using setNaturalKey_ok [of s env x p _ s'] unfolding applyNaturalKeyChoice_def by (metis Inr_inject follows_refl)

lemma updateColumn_ok:
  assumes ok: "stores_ok (ds_tables s)" and upd: "updateColumn env x p k ch s = Inr s'"
  shows "stores_ok (ds_tables s') \<and> follows (ds_tables s) (ds_tables s')"
proof -
  obtain c name options s1 m s2 where c: "requireColumn x k s = Inr c"
    and os: "(case ch_options ch of None \<Rightarrow> Inr (co_options c, s) | Some os \<Rightarrow> replacedOptions env c os s) = Inr (options, s1)"
    and m: "metadataAfter x c ch s1 = Inr m" and held: "(if ch_options ch = None then Inr () else refuseOptionsStillHeldByRows x c options s1) = Inr ()"
    and row: "with_tables s1 (updateColumn_row x (co_id c) name options m (ds_tables s1)) = Inr s2"
    and key: "(case ch_naturalKey ch of None \<Rightarrow> Inr s2 | Some b \<Rightarrow> applyNaturalKeyChoice env x p (co_id c) b s2) = Inr s'"
    using upd unfolding updateColumn_def by (auto simp del: with_tables_Inr)
  note col = column_in [OF c]
  then have k: "co_id c = k" by (simp add: column_of_def)
  have t1: "ds_tables s1 = ds_tables s" using os by (auto split: option.splits dest: replacedOptions_ok)
  have sch: "schema_ok (ds_tables s)" using ok by (simp add: stores_ok_def)
  have "stores_ok (ds_tables s2) \<and> follows (ds_tables s) (ds_tables s2)"
  proof (rule change_column_ok [OF ok col, of options m s1])
    show "ds_tables s2 = (ds_tables s)\<lparr>ts_columns := map (\<lambda>c. if co_id c = k \<and> co_storeId c = x then c\<lparr>co_displayName := name, co_options := options, co_metadata := m\<rparr> else c) (ts_columns (ds_tables s))\<rparr>"
      using row t1 k by (auto simp: updateColumn_row_def split: if_splits)
    show "\<exists>os. options = Some os \<and> distinct (map so_id os)" if "co_columnType c = SelectColumn"
    proof (cases "ch_options ch")
      case None
      then show ?thesis using os schemaD(7) [OF sch _ that] col by (simp add: column_of_def)
    next
      case (Some rs)
      then show ?thesis using os replacedOptions_ok [of env c rs s options s1] by simp
    qed
    show "v \<in> so_id ` set (opt_default [] options)" if "co_columnType c = SelectColumn" "r \<in> set (ts_rows (ds_tables s))" "rw_storeId r = x" "fmlookup (rw_data r) k = Some (JStr v)"
      "v \<in> so_id ` set (opt_default [] (co_options c))" for r v
      using that os held options_held [of x c options s1 "()" r v] t1 k by (auto split: option.splits if_splits)
  qed (use metadataAfter_display [OF m] t1 in auto)
  then show ?thesis using key applyNaturalKeyChoice_ok follows_trans by (fastforce split: option.splits)
qed

subsection \<open>Views\<close>

lemma set_views_ok:
  assumes ok: "stores_ok t" and t': "t' = t\<lparr>ts_views := vs\<rparr>" and vs: "distinct (map vw_id vs)" "vw_storeId ` set vs \<subseteq> st_id ` set (ts_stores t)" "\<And>v. v \<in> set vs \<Longrightarrow> view_ok t v"
  shows "stores_ok t' \<and> follows t t'"
proof -
  have same: "same_rows t t'" by (simp add: t' same_rows_def)
  have parts: "ts_stores t' = ts_stores t" "ts_columns t' = ts_columns t" "ts_views t' = vs" "column_of t' = column_of t" "view_ok t' = view_ok t"
    by (auto simp: t' fun_eq_iff column_of_def view_ok_def)
  have sch: "schema_ok t" "rows_ok t" using ok by (simp_all add: stores_ok_def)
  have "schema_ok t'" by (rule schemaI) (use schemaD [OF sch(1)] vs in \<open>simp_all add: parts\<close>)
  moreover have "rows_ok t'" using sch(2) same_schema_parts [OF parts(1,2)] by (simp add: rows_ok_def entries_def t')
  ultimately show ?thesis using same_rows_kept [OF same] ok by (simp add: stores_ok_def)
qed

lemma validatedConfig_ok:
  assumes "validatedConfig env x ty config s = Inr valid" "vw_storeId v = x" "vw_viewType v = ty" "vw_config v = valid"
  shows "view_ok (ds_tables s) v"
proof -
  have valid: "valid = config" "DsViewConfigSchema config" "assertValidGroupByColumn x ty config s = Inr ()"
    using assms(1) by (auto simp: validatedConfig_def)
  have "\<exists>c. column_of (ds_tables s) k x c" if "viewConfigReferences config k" for k
  proof -
    have "k \<in> co_id ` set (listColumns x (ds_tables s))"
      using assms(1) that by (auto simp: validatedConfig_def requireColumns_def assertKnownColumns_def Let_def viewConfigReferences_def simp del: set_listColumns)
    then show ?thesis by (auto simp: column_of_def)
  qed
  moreover have "\<exists>k c. vc_groupByColumnId config = Some k \<and> column_of (ds_tables s) k x c \<and> co_columnType c = SelectColumn" if "ty = Kanban"
    using valid(3) that by (auto simp: assertValidGroupByColumn_def column_with_def column_of_def split: option.splits dest!: find_SomeD)
  ultimately show ?thesis using valid assms(2-4) by (simp add: view_ok_def)
qed

lemma createView_ok:
  assumes ok: "stores_ok (ds_tables s)" and call: "createView env x p name ty config s = Inr (view, s')"
  shows "stores_ok (ds_tables s') \<and> follows (ds_tables s) (ds_tables s')"
proof -
  obtain i s1 at' s2 where f: "fresh env s = (i, s1)" "tick env s1 = (at', s2)" by fastforce
  have t: "ds_tables s2 = ds_tables s" using freshD [OF f(1)] tickD [OF f(2)] by simp
  obtain valid where v: "validatedConfig env x ty config s = Inr valid" and new: "ds_tables s' = (ds_tables s)\<lparr>ts_views := ts_views (ds_tables s) @ [view]\<rparr>"
    "vw_id view \<notin> vw_id ` set (ts_views (ds_tables s))" "vw_storeId view = x" "vw_viewType view = ty" "vw_config view = valid" "x \<in> st_id ` set (ts_stores (ds_tables s))"
    using call f t findStore_iff [of x "ds_tables s"] by (auto simp: createView_def insertView_def Let_def refuseMissingStore_def split: if_splits)
  have sch: "schema_ok (ds_tables s)" using ok by (simp add: stores_ok_def)
  show ?thesis by (rule set_views_ok [OF ok new(1)]) (use schemaD(3,5,10) [OF sch] new validatedConfig_ok [OF v new(3-5)] in auto)
qed

lemma authorizeView_Inr: "authorizeView i p s = Inr v \<Longrightarrow> v \<in> set (ts_views (ds_tables s)) \<and> vw_id v = i"
  by (auto simp: authorizeView_def findView_def split: option.splits if_splits dest: find_SomeD)

lemma updateView_ok:
  assumes ok: "stores_ok (ds_tables s)" and call: "updateView env i p config s = Inr (view, s')"
  shows "stores_ok (ds_tables s') \<and> follows (ds_tables s) (ds_tables s')"
proof -
  obtain v valid where v: "authorizeView i p s = Inr v" "validatedConfig env (vw_storeId v) (vw_viewType v) config s = Inr valid"
    and s': "ds_tables s' = (ds_tables s)\<lparr>ts_views := map (\<lambda>v. if vw_id v = i then v\<lparr>vw_config := valid\<rparr> else v) (ts_views (ds_tables s))\<rparr>"
    using call by (auto simp: updateView_def updateView_row_def)
  have sch: "schema_ok (ds_tables s)" using ok by (simp add: stores_ok_def)
  note found = authorizeView_Inr [OF v(1)]
  show ?thesis
  proof (rule set_views_ok [OF ok s'])
    show "distinct (map vw_id (map (\<lambda>v. if vw_id v = i then v\<lparr>vw_config := valid\<rparr> else v) (ts_views (ds_tables s))))"
      using schemaD(3) [OF sch] by (simp add: comp_def if_distrib cong: if_cong)
    show "vw_storeId ` set (map (\<lambda>v. if vw_id v = i then v\<lparr>vw_config := valid\<rparr> else v) (ts_views (ds_tables s))) \<subseteq> st_id ` set (ts_stores (ds_tables s))"
      using schemaD(5) [OF sch] by auto
    fix w assume "w \<in> set (map (\<lambda>v. if vw_id v = i then v\<lparr>vw_config := valid\<rparr> else v) (ts_views (ds_tables s)))"
    then obtain y where y: "y \<in> set (ts_views (ds_tables s))" "w = (if vw_id y = i then y\<lparr>vw_config := valid\<rparr> else y)" by auto
    show "view_ok (ds_tables s) w"
    proof (cases "vw_id y = i")
      case True
      then have "y = v" using schemaD(3) [OF sch] y(1) found by (metis distinct_map inj_onD)
      then show ?thesis using validatedConfig_ok [OF v(2), of w] y True by simp
    qed (use y schemaD(10) [OF sch] in simp)
  qed
qed

lemma deleteView_ok:
  assumes ok: "stores_ok (ds_tables s)" and call: "deleteView i p s = Inr s'"
  shows "stores_ok (ds_tables s') \<and> follows (ds_tables s) (ds_tables s')"
proof -
  have s': "ds_tables s' = (ds_tables s)\<lparr>ts_views := filter (\<lambda>v. vw_id v \<noteq> i) (ts_views (ds_tables s))\<rparr>" using call by (auto simp: deleteView_def deleteView_row_def)
  have sch: "schema_ok (ds_tables s)" using ok by (simp add: stores_ok_def)
  show ?thesis by (rule set_views_ok [OF ok s']) (use schemaD(3,5,10) [OF sch] in \<open>auto simp: distinct_map_filter\<close>)
qed

subsection \<open>Columns, rows and stores\<close>

lemma deleteColumn_ok:
  assumes ok: "stores_ok (ds_tables s)" and call: "deleteColumn env x p k a s = Inr s'"
  shows "stores_ok (ds_tables s') \<and> follows (ds_tables s) (ds_tables s')"
proof -
  let ?t = "ds_tables s"
  have sch: "schema_ok ?t" and rows: "rows_ok ?t" and cap: "cap_ok ?t" using ok by (simp_all add: stores_ok_def)
  obtain c where c: "column_of ?t k x c" and key: "naturalKeyColumnId x s \<noteq> Some k" and views: "\<And>v. v \<in> set (listViews x ?t) \<Longrightarrow> \<not> viewConfigReferences (vw_config v) k"
    and labels: "\<And>c. c \<in> set (listColumns x ?t) \<Longrightarrow> md_displayColumnId (co_metadata c) \<noteq> Some k"
    and del: "deleteColumn_row env x k a (fst (tick env s)) (snd (tick env s)) = Inr s'"
    using call by (auto simp: deleteColumn_def case_prod_beta find_None_iff column_of_def split: if_splits option.splits dest!: column_in)
  obtain s1 where clear: "each (clearCell env k a (fst (tick env s))) (listRows x ?t) (snd (tick env s)) = Inr s1"
    and s': "ds_tables s' = (let t = (ds_tables s1)\<lparr>ts_columns := filter (\<lambda>c. \<not> (co_id c = k \<and> co_storeId c = x)) (ts_columns (ds_tables s1))\<rparr>
        in reorderColumns_rows x (map co_id (listColumns x t)) t)"
    using del by (auto simp: deleteColumn_row_def Let_def)
  have sub: "set (listRows x ?t) \<subseteq> set (ts_rows ?t)" by auto
  have "distinct (map rw_id (listRows x ?t))" using rowsD(1) [OF rows] by (simp add: listRows_def distinct_map_filter)
  then have step: "row_step [] ?t (ds_tables s1)" and left: "\<forall>r \<in> set (ts_rows (ds_tables s1)). (if rw_id r \<in> rw_id ` set (listRows x ?t) then fmlookup (rw_data r) k = None else r \<in> set (ts_rows ?t))"
    using clear_all_step [OF _ _ _ clear, unfolded fresh_tick, OF rows sub] by blast+
  have sch1: "schema_ok (ds_tables s1)" "rows_ok (ds_tables s1)" "ts_stores (ds_tables s1) = ts_stores ?t" "ts_views (ds_tables s1) = ts_views ?t" "ts_columns (ds_tables s1) = ts_columns ?t"
    using row_step_schema [OF step sch] step by (simp_all add: row_step_def)
  let ?t2 = "(ds_tables s1)\<lparr>ts_columns := filter (\<lambda>c. \<not> (co_id c = k \<and> co_storeId c = x)) (ts_columns (ds_tables s1))\<rparr>"
  have cleared: "fmlookup (rw_data r) k = None" if r: "r \<in> set (ts_rows (ds_tables s1))" "rw_storeId r = x" for r
  proof (rule ccontr)
    assume "fmlookup (rw_data r) k \<noteq> None"
    then have "rw_id r \<notin> rw_id ` set (listRows x ?t)" "r \<in> set (ts_rows ?t)" using left r(1) by (auto split: if_splits)
    then show False using r(2) by auto
  qed
  have "st_naturalKeyColumnId y \<noteq> Some k" if y: "y \<in> set (ts_stores ?t)" "st_id y = x" for y
    using key y schemaD(1) [OF sch] findStore_Some findStore_iff [of x ?t] by (auto simp: naturalKeyColumnId_def split: option.splits) (metis distinct_map findStore_Some inj_onD)
  then have t2: "schema_ok ?t2" "rows_ok ?t2"
    using drop_column_ok [OF sch1(1,2) refl cleared] views labels sch1(3-5) by simp_all
  note re = reorder_ok [OF this, of x "map co_id (listColumns x ?t2)"]
  have "same_rows (ds_tables s1) (ds_tables s')" using re s' by (simp add: same_rows_def Let_def)
  note kept = same_rows_kept [OF this]
  have "cap_ok (ds_tables s1)" using row_call_cap [of x, OF _ cap] step unfolding row_call_def by (metis replicate_0)
  then show ?thesis using re s' kept follows_trans [OF _ kept(1)] step by (simp add: stores_ok_def row_step_def Let_def)
qed

lemma deleteRow_ok:
  assumes ok: "stores_ok (ds_tables s)" and call: "deleteRow env x i p a s = Inr s'"
  shows "stores_ok (ds_tables s') \<and> follows (ds_tables s) (ds_tables s')"
proof -
  let ?t = "ds_tables s" and ?t' = "ds_tables s'"
  have sch: "schema_ok ?t" and rows: "rows_ok ?t" and cap: "cap_ok ?t" using ok by (simp_all add: stores_ok_def)
  obtain at' s1 where t: "tick env s = (at', s1)" by fastforce
  have "deleteRow_row env i x a at' s1 = Inr s'" using call t by (auto simp: deleteRow_def)
  then obtain h where s': "?t' = ?t\<lparr>ts_rows := filter (\<lambda>r. \<not> (rw_id r = i \<and> rw_storeId r = x)) (ts_rows ?t), ts_history := ts_history ?t @ [h], ts_nextSeq := Suc (ts_nextSeq ?t)\<rparr>"
    and h: "hs_rowId h = i" "hs_storeId h = x" "hs_seq h = ts_nextSeq ?t"
    by (rule deleteRow_row_effect) (simp add: tickD [OF t])
  have in_rows: "r \<in> set (ts_rows ?t') \<longleftrightarrow> r \<in> set (ts_rows ?t) \<and> rw_key r \<noteq> (i, x)" for r by (auto simp: s' rw_key_def)
  have e: "entries (rw_key r) ?t' = entries (rw_key r) ?t" if "rw_key r \<noteq> (i, x)" for r using that h by (simp add: entries_def s')
  have parts: "ts_stores ?t' = ts_stores ?t" "ts_columns ?t' = ts_columns ?t" by (simp_all add: s')
  note same = same_schema_parts [OF parts]
  have "schema_ok ?t'" using sch schema_same [of ?t' ?t] by (simp add: s')
  moreover have "rows_ok ?t'"
  proof (rule rowsI)
    show "distinct (map rw_id (ts_rows ?t'))" using rowsD(1) [OF rows] by (simp add: s' distinct_map_filter)
    show "rw_storeId ` set (ts_rows ?t') \<subseteq> st_id ` set (ts_stores ?t')" using rowsD(2) [OF rows] by (auto simp: s')
    show "hs_seq y < ts_nextSeq ?t'" if "y \<in> set (ts_history ?t')" for y using that rowsD(5) [OF rows] h(3) by (auto simp: s' less_Suc_eq)
  qed (use rowsD [OF rows] e in \<open>simp_all add: in_rows same\<close>)
  moreover have "cap_ok ?t'" unfolding cap_ok_def
  proof
    fix y
    have "countRows y ?t' \<le> countRows y ?t" by (simp add: countRows_def s' length_filter_filter del: filter_filter)
    then show "countRows y ?t' \<le> MAX_ROWS_PER_STORE" using cap unfolding cap_ok_def by (meson le_trans)
  qed
  moreover have "follows ?t ?t'" by (rule follows_write [of _ _ h]) (use h in \<open>auto simp: in_rows s'\<close>)
  ultimately show ?thesis by (simp add: stores_ok_def)
qed

lemma createStore_ok:
  assumes ok: "stores_ok (ds_tables s)" and call: "createStore env p name s = Inr (store, s')"
  shows "stores_ok (ds_tables s') \<and> follows (ds_tables s) (ds_tables s')"
proof -
  obtain i s1 at' s2 where f: "fresh env s = (i, s1)" "tick env s1 = (at', s2)" by fastforce
  have "ds_tables s2 = ds_tables s" using freshD [OF f(1)] tickD [OF f(2)] by simp
  then have "ds_tables s' = (ds_tables s)\<lparr>ts_stores := ts_stores (ds_tables s) @ [store]\<rparr>" "st_id store \<notin> st_id ` set (ts_stores (ds_tables s))" "st_naturalKeyColumnId store = None"
    using call f by (auto simp: createStore_def createStore_row_def Let_def split: if_splits)
  then show ?thesis using add_store_ok [OF ok] by blast
qed

lemma addColumn_ok:
  assumes ok: "stores_ok (ds_tables s)" and call: "addColumn env x p column s = Inr (added, s')"
  shows "stores_ok (ds_tables s') \<and> follows (ds_tables s) (ds_tables s')"
proof -
  obtain i s1 at' s2 where f: "fresh env s = (i, s1)" "tick env s1 = (at', s2)" by fastforce
  have t: "ds_tables s2 = ds_tables s" using freshD [OF f(1)] tickD [OF f(2)] by simp
  obtain options where v: "validateColumnDefinition (nc_columnType column) (nc_options column) = Inr options"
    and new: "ds_tables s' = (ds_tables s)\<lparr>ts_columns := ts_columns (ds_tables s) @ [added]\<rparr>" "co_id added \<notin> co_id ` set (ts_columns (ds_tables s))"
      "co_storeId added \<in> st_id ` set (ts_stores (ds_tables s))" "md_displayColumnId (co_metadata added) = None" "co_columnType added = nc_columnType column" "co_options added = options"
    using call f t findStore_iff [of x "ds_tables s"] by (auto simp: addColumn_def addColumn_row_def Let_def refuseMissingStore_def no_metadata_def split: if_splits)
  show ?thesis by (rule add_column_ok [OF ok new(2-4) _ new(1)]) (use validated_options [of "nc_options column" options] v new(5,6) in simp)
qed

lemma reorderColumns_ok:
  assumes ok: "stores_ok (ds_tables s)" and call: "reorderColumns x p ids s = Inr (columns, s')"
  shows "stores_ok (ds_tables s') \<and> follows (ds_tables s) (ds_tables s')"
proof -
  have "ds_tables s' = reorderColumns_rows x ids (ds_tables s)" using call by (auto simp: reorderColumns_def Let_def split: if_splits)
  then show ?thesis using reorder_ok [of "ds_tables s" x ids] same_rows_kept [of "ds_tables s" "ds_tables s'"] ok by (simp add: stores_ok_def)
qed

lemma deleteStore_ok:
  "stores_ok (ds_tables s) \<Longrightarrow> deleteStore x p force s = Inr s' \<Longrightarrow> stores_ok (ds_tables s') \<and> follows (ds_tables s) (ds_tables s')"
  using drop_store_ok [of "ds_tables s" x] by (auto simp: deleteStore_def Let_def split: if_splits)

subsection \<open>Every call\<close>

lemma row_call_ok: "stores_ok t \<Longrightarrow> row_call x t t' \<Longrightarrow> stores_ok t' \<and> follows t t'"
  using row_call_cap [of x t t'] row_step_schema [of _ t t'] unfolding row_call_def stores_ok_def by (metis row_step_def)

lemma row_step_ok: "stores_ok t \<Longrightarrow> row_step [] t t' \<Longrightarrow> stores_ok t' \<and> follows t t'"
  by (rule row_call_ok) (auto simp: row_call_def intro: exI [of _ 0])

lemmas row_calls = row_call_ok [OF _ insertRow_call] row_call_ok [OF _ insertRows_call] row_call_ok [OF _ saveRow_call]
  row_step_ok [OF _ updateRow_call] row_step_ok [OF _ updateRows_call] row_step_ok [OF _ updateRowsWhere_call]

lemma store_call_ok:
  assumes ok: "stores_ok (ds_tables s)" and call: "store_call env op s = Inr s'"
  shows "stores_ok (ds_tables s') \<and> follows (ds_tables s) (ds_tables s')"
proof -
  have parts: "rows_ok (ds_tables s)" "schema_ok (ds_tables s)" using ok by (simp_all add: stores_ok_def)
  show ?thesis using call
    by (cases op) (simp_all, (elim exE, (rule createStore_ok addColumn_ok reorderColumns_ok createView_ok updateView_ok row_calls; (rule ok parts | assumption)) | rule updateColumn_ok deleteColumn_ok setNaturalKey_ok deleteRow_ok deleteStore_ok deleteView_ok; (rule ok | assumption))+)
qed

lemma store_step_ok:
  assumes "stores_ok (ds_tables s)"
  shows "stores_ok (ds_tables (store_step call s)) \<and> follows (ds_tables s) (ds_tables (store_step call s))"
  using store_call_ok [OF assms, of "fst call" "snd call"] assms by (cases "store_call (fst call) (snd call) s") (simp_all add: store_step_def)

interpretation store_calls: tracked_by_steps "\<lambda>s. stores_ok (ds_tables s)" store_step "\<lambda>s s'. follows (ds_tables s) (ds_tables s')"
  by unfold_locales (use store_step_ok follows_trans in auto)

lemma store_run_ok: "stores_ok (ds_tables s) \<Longrightarrow> stores_ok (ds_tables (store_run calls s)) \<and> follows (ds_tables s) (ds_tables (store_run calls s))"
  unfolding store_run_def by (simp add: store_calls.run_kept store_calls.run_tracked)

lemma store_start_ok: "stores_ok (ds_tables (store_start w))"
  by (simp add: store_start_def stores_ok_def schema_ok_def display_ok_def display_of_def rows_ok_def cap_ok_def countRows_def acyclic_def)

end
