(* ===== verification/Data_Store_Claims.thy ===== *)
theory Data_Store_Claims
  imports Data_Store_Schema
begin

text \<open>
  What a project can rely on in its tables after any calls of its agents, its managers, its triggers and its human: typed cells, a
  natural key that names one row, labels that end, a bounded size, revisions that tell a changed row, queries and boards that
  show every row they should.
\<close>

text \<open>The bounds as binary integers, for the evaluation of the examples.\<close>

lemma cell_cap_code [code]: "exceedsCellByteCap v \<longleftrightarrow> 65536 < int (length v)"
  by (simp add: exceedsCellByteCap_def MAX_CELL_BYTES_def)

lemma row_cap_code [code]: "assertRowCapacity x n s = require (int (countRows x (ds_tables s)) + int n \<le> 10000) StoreRowCap"
proof -
  have "countRows x (ds_tables s) + n \<le> 10000 \<longleftrightarrow> int (countRows x (ds_tables s)) + int n \<le> 10000" by linarith
  then show ?thesis by (simp add: assertRowCapacity_def MAX_ROWS_PER_STORE_def)
qed

section \<open>A concrete project\<close>

definition example_stores :: "nat store_env" where
  "example_stores = \<lparr>sv_text = plain_texts, sv_num = (\<lambda>_. ''0''), sv_time = (\<lambda>_. Some 0), sv_clock = (\<lambda>w. (''t'', w)), sv_newId = (\<lambda>w. (replicate w CHR ''x'', Suc w)),
     sv_project = (\<lambda>_ p. if p = ''p'' then Some (True, False) else None), sv_isManagerLog = (\<lambda>_ _. False)\<rparr>"

definition board_calls :: "store_op list" where
  "board_calls =
     [CreateStore ''p'' ''Board'',
      AddColumn ''x'' ''p'' \<lparr>nc_displayName = ''Ticket'', nc_columnType = TextColumn, nc_format = None, nc_options = None, nc_autoValue = False\<rparr>,
      AddColumn ''x'' ''p'' \<lparr>nc_displayName = ''Lane'', nc_columnType = SelectColumn, nc_format = None,
        nc_options = Some [\<lparr>so_id = ''a'', so_label = ''Todo'', so_color = None\<rparr>, \<lparr>so_id = ''b'', so_label = ''Done'', so_color = None\<rparr>], nc_autoValue = False\<rparr>,
      SetNaturalKey ''x'' ''p'' (Some ''xx''),
      InsertRow ''x'' \<lparr>is_projectId = ''p'', is_actor = \<lparr>ac_kind = HumanActor, ac_label = ''me''\<rparr>, is_callerIsManager = False\<rparr> (fmap_of_list [(''xx'', Some (JStr ''T1'')), (''xxx'', Some (JStr ''a''))]),
      UpdateRow ''x'' ''xxxx'' ''p'' (fmap_of_list [(''xxx'', Some (JStr ''b''))]) \<lparr>ac_kind = HumanActor, ac_label = ''me''\<rparr> False,
      CreateView ''x'' ''p'' ''Lanes'' Kanban
        \<lparr>vc_where = None, vc_orderBy = None, vc_groupByColumnId = Some ''xxx'', vc_cardTitleColumnId = None, vc_cardFields = None, vc_columnOrder = None, vc_showUngrouped = Some True\<rparr>]"

definition another_ticket :: "(nat store_env \<times> store_op) list" where
  "another_ticket = [(example_stores, InsertRow ''x'' \<lparr>is_projectId = ''p'', is_actor = \<lparr>ac_kind = HumanActor, ac_label = ''me''\<rparr>, is_callerIsManager = False\<rparr> (fmap_of_list [(''xx'', Some (JStr ''T2''))]))]"

definition board :: "nat \<Rightarrow> nat data_stores" where
  "board n = store_run (map (Pair example_stores) (take n board_calls)) (store_start 1)"

lemma board_7:
  "(case board 7 of s \<Rightarrow> (map (\<lambda>r. (rw_storeId r, fmlookup (rw_data r) ''xx'', fmlookup (rw_data r) ''xxx'')) (ts_rows (ds_tables s)), naturalKeyColumnId ''x'' s, authorize ''x'' ''p'' s,
      case authorizeView ''xxxxxxx'' ''p'' s of Inl e \<Rightarrow> False | Inr v \<Rightarrow> vw_viewType v = Kanban))
   = ([(''x'', Some (JStr ''T1''), Some (JStr ''b''))], Some ''xx'', Inr (), True)"
  by code_simp

lemma board_5:
  "(case board 5 of s \<Rightarrow> case hd (ts_rows (ds_tables s)) of r \<Rightarrow> case store_run another_ticket s of s' \<Rightarrow>
      (length (ts_rows (ds_tables s)), rw_storeId r,
       case updateRows example_stores (rw_storeId r) ''p'' [\<lparr>ru_rowId = rw_id r, ru_patch = fmap_of_list [(''xxx'', Some (JStr ''b''))], ru_expectedRev = Some (rw_rev r)\<rparr>] \<lparr>ac_kind = AgentActor, ac_label = ''a''\<rparr> s' of Inl e \<Rightarrow> False | Inr _ \<Rightarrow> True,
       list_ex (\<lambda>h. hs_rowId h = rw_id r \<and> hs_storeId h = rw_storeId r \<and> ts_nextSeq (ds_tables s) \<le> hs_seq h \<and> hs_change h = RowCreated) (ts_history (ds_tables s'))))
   = (1, ''x'', True, False)"
  by code_simp

lemma board_run: "board n = store_run (map (Pair example_stores) (take n board_calls)) (store_start 1)"
  by (simp add: board_def)

lemma board_facts:
  obtains r v where "ts_rows (ds_tables (board 7)) = [r]" "rw_storeId r = ''x''" "fmlookup (rw_data r) ''xx'' = Some (JStr ''T1'')" "fmlookup (rw_data r) ''xxx'' = Some (JStr ''b'')"
    "naturalKeyColumnId ''x'' (board 7) = Some ''xx''" "authorize ''x'' ''p'' (board 7) = Inr ()" "authorizeView ''xxxxxxx'' ''p'' (board 7) = Inr v" "vw_viewType v = Kanban"
  using board_7 by (auto simp: map_eq_Cons_conv simp del: authorize_Inr split: sum.splits)

section \<open>What every run keeps\<close>

lemma reached_ok: "stores_ok (ds_tables (store_run calls (store_start w)))"
  using store_run_ok [OF store_start_ok, of calls w] by blast

lemma reached_parts:
  assumes "s = store_run calls (store_start w)"
  shows "schema_ok (ds_tables s)" "rows_ok (ds_tables s)" "cap_ok (ds_tables s)"
  using reached_ok [of calls w] assms by (simp_all add: stores_ok_def)

text \<open>C23: after any calls every cell of every row stands under a column of the row's own store and has the type of that column: a
  text within 64 KiB, a number, a real calendar day, the id of one of the options, or null.\<close>

theorem every_cell_is_typed:
  assumes "s = store_run calls (store_start w)" "r \<in> set (ts_rows (ds_tables s))" "fmlookup (rw_data r) k = Some v"
  shows "\<exists>c. c \<in> set (ts_columns (ds_tables s)) \<and> co_id c = k \<and> co_storeId c = rw_storeId r \<and> cell_typed c v"
  using rowsD(3) [OF reached_parts(2) [OF assms(1)] assms(2)] assms(3) unfolding cells_ok_def column_of_def by blast

theorem every_cell_is_typed_witness:
  "\<exists>c. c \<in> set (ts_columns (ds_tables (board 7))) \<and> co_id c = ''xxx'' \<and> co_storeId c = ''x'' \<and> cell_typed c (JStr ''b'')"
proof -
  obtain r v where r: "ts_rows (ds_tables (board 7)) = [r]" "rw_storeId r = ''x''" "fmlookup (rw_data r) ''xxx'' = Some (JStr ''b'')" by (rule board_facts)
  from every_cell_is_typed [OF board_run, of r 7 "''xxx''" "JStr ''b''"] r show ?thesis by simp
qed

text \<open>C25: after any calls the natural key of a store, every label of a column and every column a view names are columns of the same
  store, the natural key is a text column, a kanban view groups by a select column, and following labels never comes back to a
  column.\<close>

theorem every_reference_resolves:
  assumes "s = store_run calls (store_start w)"
  shows "acyclic (display_of (ts_columns (ds_tables s)))
    \<and> (\<forall>c d. c \<in> set (ts_columns (ds_tables s)) \<and> md_displayColumnId (co_metadata c) = Some d \<longrightarrow> (\<exists>c'. column_of (ds_tables s) d (co_storeId c) c'))
    \<and> (\<forall>st k. st \<in> set (ts_stores (ds_tables s)) \<and> st_naturalKeyColumnId st = Some k \<longrightarrow> (\<exists>c. column_of (ds_tables s) k (st_id st) c \<and> co_columnType c = TextColumn))
    \<and> (\<forall>v k. v \<in> set (ts_views (ds_tables s)) \<and> viewConfigReferences (vw_config v) k \<longrightarrow> (\<exists>c. column_of (ds_tables s) k (vw_storeId v) c))
    \<and> (\<forall>v. v \<in> set (ts_views (ds_tables s)) \<and> vw_viewType v = Kanban
        \<longrightarrow> (\<exists>k c. vc_groupByColumnId (vw_config v) = Some k \<and> column_of (ds_tables s) k (vw_storeId v) c \<and> co_columnType c = SelectColumn))"
proof -
  note d = schemaD [OF reached_parts(1) [OF assms]]
  show ?thesis using d(6,8,9) d(10) [unfolded view_ok_def] by (intro conjI) blast+
qed

theorem every_reference_resolves_witness:
  "acyclic (display_of (ts_columns (ds_tables (board 7)))) \<and> (\<exists>c. column_of (ds_tables (board 7)) ''xx'' ''x'' c \<and> co_columnType c = TextColumn)"
proof -
  obtain r v where "naturalKeyColumnId ''x'' (board 7) = Some ''xx''" by (rule board_facts)
  then obtain st where "st \<in> set (ts_stores (ds_tables (board 7)))" "st_id st = ''x''" "st_naturalKeyColumnId st = Some ''xx''"
    by (auto simp: naturalKeyColumnId_def dest: findStore_Some split: option.splits)
  with every_reference_resolves [OF board_run, of 7] show ?thesis by metis
qed

text \<open>No store ever holds more than ten thousand rows.\<close>

lemma stores_within_their_cap: "countRows x (ds_tables (store_run calls (store_start w))) \<le> 10000"
  using reached_parts(3) [OF refl, of calls w] by (simp add: cap_ok_def MAX_ROWS_PER_STORE_def)

section \<open>The natural key\<close>

text \<open>C19: after any calls the lookup by natural key returns exactly the row of the store whose key cell holds the text; two rows never
  answer.\<close>

theorem natural_key_names_one_row:
  assumes s: "s = store_run calls (store_start w)" and call: "authorize x p s = Inr ()" "naturalKeyColumnId x s = Some k" "k \<noteq> ''''"
  shows "findRowByNaturalKey env x p v s \<noteq> Inl AmbiguousNaturalKey
    \<and> (\<forall>r. findRowByNaturalKey env x p v s = Inr r \<longleftrightarrow> r \<in> set (ts_rows (ds_tables s)) \<and> rw_storeId r = x \<and> fmlookup (rw_data r) k = Some (JStr v))"
proof -
  let ?t = "ds_tables s"
  let ?held = "filter (\<lambda>r. rw_storeId r = x \<and> fmlookup (rw_data r) k = Some (JStr v)) (ts_rows ?t)"
  note ok = reached_parts(1,2) [OF s]
  obtain st where st: "st \<in> set (ts_stores ?t)" "st_id st = x" "st_naturalKeyColumnId st = Some k"
    using call(2) by (auto simp: naturalKeyColumnId_def dest: findStore_Some split: option.splits)
  then have "k \<in> co_id ` set (listColumns x ?t)" using schemaD(6) [OF ok(1) st(1,3)] by (auto simp: column_of_def)
  then obtain rows where rows: "runQuery env x [key_clause k v] [] (Some 2) s = Inr rows"
    using call(3) by (auto simp: runQuery_def requireColumns_def assertKnownColumns_def key_clause_def Let_def simp del: set_listColumns)
  have lookup: "findRowByNaturalKey env x p v s = (case rows of [] \<Rightarrow> Inl (RowNotFound v) | [row] \<Rightarrow> Inr row | _ \<Rightarrow> Inl AmbiguousNaturalKey)"
    using call rows by (simp add: findRowByNaturalKey_def and_then_def or_fail_def del: authorize_Inr)
  obtain all where all: "rows = take 2 all" "mset all = mset ?held" using key_query [OF rows] by fastforce
  have held: "set all = set ?held" using mset_eq_setD [OF all(2)] .
  have one: "r = r'" if "r \<in> set all" "r' \<in> set all" for r r'
  proof -
    have in_t: "r \<in> set (ts_rows ?t)" "r' \<in> set (ts_rows ?t)" "rw_storeId r = rw_storeId r'" using that held by auto
    have "holds_key ?t r v" "holds_key ?t r' v" using that held st by (auto simp: holds_key_def)
    then show ?thesis using rowsD(4) [OF ok(2) in_t] rows_unique [OF ok(2) in_t(1,2)] by blast
  qed
  have "distinct ?held" using rowsD(1) [OF ok(2)] by (simp add: distinct_map)
  then have "distinct all" using mset_eq_imp_distinct_iff [OF all(2)] by blast
  consider "all = []" | r where "all = [r]" | r r' rest where "all = r # r' # rest" by (cases all rule: remdups_adj.cases) auto
  then consider "all = []" "rows = []" | r where "all = [r]" "rows = [r]"
  proof cases
    case (3 r r' rest)
    then show ?thesis using one [of r r'] \<open>distinct all\<close> by simp
  qed (use all(1) that in simp_all)
  then show ?thesis
  proof cases
    case 1
    then show ?thesis using lookup held by auto
  next
    case (2 r)
    then show ?thesis using lookup held by auto
  qed
qed

theorem natural_key_names_one_row_witness:
  "findRowByNaturalKey example_stores ''x'' ''p'' ''T1'' (board 7) = Inr (hd (ts_rows (ds_tables (board 7))))"
proof -
  obtain r v where r: "ts_rows (ds_tables (board 7)) = [r]" "rw_storeId r = ''x''" "fmlookup (rw_data r) ''xx'' = Some (JStr ''T1'')"
    and k: "naturalKeyColumnId ''x'' (board 7) = Some ''xx''" "authorize ''x'' ''p'' (board 7) = Inr ()" by (rule board_facts)
  from natural_key_names_one_row [OF board_run k(2,1), of example_stores "''T1''"] r show ?thesis by simp
qed

section \<open>Revisions\<close>

lemma changes_since_append: "list_all (\<lambda>h. hs_change h \<noteq> RowCreated) new \<Longrightarrow> changes_since_created (hs @ new) = changes_since_created hs + length new"
  by (induction new rule: rev_induct) (simp_all flip: append_assoc)

lemma same_revision_same_row:
  assumes ok: "rows_ok t" "rows_ok t'" and f: "follows t t'" and r: "r \<in> set (ts_rows t)" and r': "r' \<in> set (ts_rows t')" and key: "rw_key r' = rw_key r" "rw_rev r' = rw_rev r"
    and old: "\<not> (\<exists>h \<in> set (entries (rw_key r) t'). ts_nextSeq t \<le> hs_seq h \<and> hs_change h = RowCreated)"
  shows "r' = r"
proof -
  obtain r0 new where r0: "r0 \<in> set (ts_rows t)" "rw_key r0 = rw_key r'" and e: "entries (rw_key r') t' = entries (rw_key r') t @ new" "\<forall>h \<in> set new. ts_nextSeq t \<le> hs_seq h"
    and same: "new = [] \<longrightarrow> r' = r0" using f r' old key(1) unfolding follows_def by (metis (no_types, lifting))
  have "r0 = r" using rows_unique [OF ok(1) r0(1) r] r0(2) key(1) by (simp add: rw_key_def)
  moreover have "list_all (\<lambda>h. hs_change h \<noteq> RowCreated) new" using old e key(1) by (auto simp: list_all_iff)
  then have "changes_since_created (entries (rw_key r) t') = changes_since_created (entries (rw_key r) t) + length new" using changes_since_append e(1) key(1) by simp
  then have "length new = 0" using rowsD(6) [OF ok(1) r] rowsD(6) [OF ok(2) r'] key by simp
  ultimately show ?thesis using same by simp
qed

text \<open>C5: an update that names the revision its author read is carried out only on the very row that was read: whatever calls came in
  between, if the row was not deleted and created again under its id, it is unchanged.\<close>

theorem no_update_is_lost:
  assumes s: "s = store_run calls (store_start w)" and s': "s' = store_run between s" and r: "r \<in> set (ts_rows (ds_tables s))"
    and call: "updateRows env (rw_storeId r) p [\<lparr>ru_rowId = rw_id r, ru_patch = cells, ru_expectedRev = Some (rw_rev r)\<rparr>] a s' = Inr result"
    and old: "\<not> list_ex (\<lambda>h. hs_rowId h = rw_id r \<and> hs_storeId h = rw_storeId r \<and> ts_nextSeq (ds_tables s) \<le> hs_seq h \<and> hs_change h = RowCreated) (ts_history (ds_tables s'))"
  shows "findRow (rw_id r) (rw_storeId r) (ds_tables s') = Some r"
proof -
  have run: "stores_ok (ds_tables s')" "follows (ds_tables s) (ds_tables s')" using store_run_ok [of s between] reached_ok [of calls w] s s' by simp_all
  obtain at' s1 where t: "tick env s' = (at', s1)" by fastforce
  obtain row s2 where upd: "updateRow_row env (rw_id r) (rw_storeId r) cells (Some (rw_rev r)) a at' s1 = Inr (row, s2)"
    using call t by (auto simp: updateRows_def write_row_update_def Let_def case_prod_beta)
  then obtain current where c: "findRow (rw_id r) (rw_storeId r) (ds_tables s1) = Some current" by (auto simp: updateRow_row_def Let_def)
  have now: "rw_rev current = rw_rev r" using updateRow_row_guards(1) [OF upd c] by simp
  have in_t: "current \<in> set (ts_rows (ds_tables s'))" "rw_key current = rw_key r" using findRow_Some [OF c] tickD [OF t] by (simp_all add: rw_key_def)
  have "current = r"
  proof (rule same_revision_same_row [OF reached_parts(2) [OF s] _ run(2) r in_t now])
    show "rows_ok (ds_tables s')" using run(1) by (simp add: stores_ok_def)
    show "\<not> (\<exists>h \<in> set (entries (rw_key r) (ds_tables s')). ts_nextSeq (ds_tables s) \<le> hs_seq h \<and> hs_change h = RowCreated)"
      using old by (auto simp: entries_def rw_key_def list_ex_iff)
  qed
  then show ?thesis using c tickD [OF t] by simp
qed

theorem no_update_is_lost_witness:
  "(case hd (ts_rows (ds_tables (board 5))) of r \<Rightarrow> findRow (rw_id r) ''x'' (ds_tables (store_run another_ticket (board 5))) = Some r)"
proof -
  let ?r = "hd (ts_rows (ds_tables (board 5)))"
  obtain result where len: "length (ts_rows (ds_tables (board 5))) = Suc 0" and facts: "rw_storeId ?r = ''x''"
    "updateRows example_stores (rw_storeId ?r) ''p'' [\<lparr>ru_rowId = rw_id ?r, ru_patch = fmap_of_list [(''xxx'', Some (JStr ''b''))], ru_expectedRev = Some (rw_rev ?r)\<rparr>] \<lparr>ac_kind = AgentActor, ac_label = ''a''\<rparr> (store_run another_ticket (board 5)) = Inr result"
    "\<not> list_ex (\<lambda>h. hs_rowId h = rw_id ?r \<and> hs_storeId h = rw_storeId ?r \<and> ts_nextSeq (ds_tables (board 5)) \<le> hs_seq h \<and> hs_change h = RowCreated) (ts_history (ds_tables (store_run another_ticket (board 5))))"
    using board_5 by (auto split: sum.splits)
  have "?r \<in> set (ts_rows (ds_tables (board 5)))" using len by (cases "ts_rows (ds_tables (board 5))") simp_all
  from no_update_is_lost [OF board_run refl this facts(2,3)] facts(1) show ?thesis by simp
qed

section \<open>Boards\<close>

lemma mset_groups:
  assumes "distinct (map g os)"
  shows "mset (concat (map (\<lambda>o'. filter (\<lambda>r. f r = g o') rows) os)) = mset (filter (\<lambda>r. f r \<in> g ` set os) rows)"
  using assms
proof (induction os)
  case (Cons o' os)
  have "mset (filter (\<lambda>r. f r \<in> g ` set (o' # os)) rows) = mset (filter (\<lambda>r. f r = g o') rows) + mset (filter (\<lambda>r. f r \<in> g ` set os) rows)"
    by (induction rows) (use Cons.prems in auto)
  then show ?case using Cons by simp
qed simp

lemma mset_split: "mset xs = mset (filter P xs) + mset (filter (\<lambda>x. \<not> P x) xs)"
  by (induction xs) simp_all

lemma find_id_in: "distinct (map f xs) \<Longrightarrow> x \<in> set xs \<Longrightarrow> find (\<lambda>y. f y = f x) xs = Some x"
  by (induction xs) (auto simp: image_iff)

lemma ordered_options:
  assumes "distinct (map so_id os)" "UniqueIdsSchema order"
  shows "distinct (map so_id (orderedKanbanOptions os order))" "set (orderedKanbanOptions os order) = set os"
proof -
  let ?ids = "opt_default [] order"
  let ?front = "List.map_filter (\<lambda>i. find (\<lambda>o'. so_id o' = i) os) ?ids"
  have ids: "distinct ?ids" using assms(2) by (cases order) (simp_all add: UniqueIdsSchema_def)
  have front: "o' \<in> set ?front \<longleftrightarrow> o' \<in> set os \<and> so_id o' \<in> set ?ids" for o'
  proof
    assume "o' \<in> set ?front"
    then obtain i where "i \<in> set ?ids" "find (\<lambda>o'. so_id o' = i) os = Some o'" by (auto simp: List.map_filter_def)
    then show "o' \<in> set os \<and> so_id o' \<in> set ?ids" using find_SomeD by fastforce
  next
    assume "o' \<in> set os \<and> so_id o' \<in> set ?ids"
    then show "o' \<in> set ?front" using find_id_in [OF assms(1), of o'] by (force simp: List.map_filter_def)
  qed
  have "distinct (map so_id (List.map_filter (\<lambda>i. find (\<lambda>o'. so_id o' = i) os) is)) \<and> so_id ` set (List.map_filter (\<lambda>i. find (\<lambda>o'. so_id o' = i) os) is) \<subseteq> set is" if "distinct is" for "is"
    using that by (induction "is") (auto simp: List.map_filter_simps split: option.splits dest: find_SomeD)
  then have d: "distinct (map so_id ?front)" using ids by blast
  define front' where "front' = ?front"
  have fs: "o' \<in> set front' \<longleftrightarrow> o' \<in> set os \<and> so_id o' \<in> set ?ids" for o' using front front'_def by simp
  have e: "orderedKanbanOptions os order = front' @ filter (\<lambda>o'. so_id o' \<notin> set ?ids) os" by (simp add: orderedKanbanOptions_def front'_def Let_def)
  have "distinct (map so_id (filter (\<lambda>o'. so_id o' \<notin> set ?ids) os))" using assms(1) by (rule distinct_map_filter)
  moreover have "so_id ` set front' \<inter> so_id ` set (filter (\<lambda>o'. so_id o' \<notin> set ?ids) os) = {}"
  proof -
    have "so_id ` set front' \<subseteq> set ?ids" using fs by blast
    then show ?thesis by auto
  qed
  ultimately show "distinct (map so_id (orderedKanbanOptions os order))" using d [folded front'_def] unfolding e by simp
  show "set (orderedKanbanOptions os order) = set os" unfolding e set_append set_filter using fs by blast
qed

lemma view_query_runs:
  assumes "view_ok (ds_tables s) v"
  shows "\<exists>rows. runQuery env (vw_storeId v) (opt_default [] (vc_where (vw_config v))) (opt_default [] (vc_orderBy (vw_config v))) None s = Inr rows
    \<and> set rows \<subseteq> set (ts_rows (ds_tables s)) \<and> rw_storeId ` set rows \<subseteq> {vw_storeId v}"
proof -
  let ?cs = "listColumns (vw_storeId v) (ds_tables s)"
  let ?ids = "map wc_columnId (opt_default [] (vc_where (vw_config v))) @ map ot_columnId (opt_default [] (vc_orderBy (vw_config v)))"
  have "'''' \<notin> set ?ids" using assms by (simp add: view_ok_def DsViewConfigSchema_def)
  moreover have "k \<in> co_id ` set ?cs" if "k \<in> set ?ids" for k
  proof -
    have "viewConfigReferences (vw_config v) k" using that by (auto simp: viewConfigReferences_def)
    then show ?thesis using assms by (auto simp: view_ok_def column_of_def)
  qed
  then have "set ?ids - co_id ` set ?cs = {}" by blast
  ultimately have "runQuery env (vw_storeId v) (opt_default [] (vc_where (vw_config v))) (opt_default [] (vc_orderBy (vw_config v))) None s
      = Inr (sort_by (compareRows env ?cs (opt_default [] (vc_orderBy (vw_config v)))) (filter (row_matches env ?cs (opt_default [] (vc_where (vw_config v)))) (listRows (vw_storeId v) (ds_tables s))))"
    by (simp only: runQuery_def requireColumns_def assertKnownColumns_def Let_def require_def and_then_def sum.case option.case if_True simp_thms)
  then show ?thesis by auto
qed

text \<open>Rows with a cell that is empty or the id of a lane: the lanes hold those with a value, what is left are the empty ones.\<close>

lemma lanes_split_rows:
  fixes rows :: "ds_row list"
  assumes lanes: "distinct (map so_id lanes)" and typed: "\<And>r. r \<in> set rows \<Longrightarrow> cell r \<in> {None, Some JNull} \<union> (Some \<circ> JStr \<circ> so_id) ` set lanes"
  shows "mset (concat (map (\<lambda>o'. filter (\<lambda>r. cell r = Some (JStr (so_id o'))) rows) lanes)) = mset (filter (\<lambda>r. cell r \<notin> {None, Some JNull}) rows)"
    and "filter (\<lambda>r. cell r \<notin> (Some \<circ> JStr \<circ> so_id) ` set lanes) rows = filter (\<lambda>r. cell r \<in> {None, Some JNull}) rows"
proof -
  have left: "filter (\<lambda>r. cell r \<in> (Some \<circ> JStr \<circ> so_id) ` set lanes) rows = filter (\<lambda>r. cell r \<notin> {None, Some JNull}) rows"
    "filter (\<lambda>r. cell r \<notin> (Some \<circ> JStr \<circ> so_id) ` set lanes) rows = filter (\<lambda>r. cell r \<in> {None, Some JNull}) rows"
    using typed by (intro filter_cong refl; fastforce)+
  have "distinct (map (Some \<circ> JStr \<circ> so_id) lanes)" using lanes by (simp add: distinct_map comp_inj_on inj_on_def)
  then show "mset (concat (map (\<lambda>o'. filter (\<lambda>r. cell r = Some (JStr (so_id o'))) rows) lanes)) = mset (filter (\<lambda>r. cell r \<notin> {None, Some JNull}) rows)"
    using mset_groups [of "Some \<circ> JStr \<circ> so_id" lanes cell rows] unfolding left(1) by simp
  show "filter (\<lambda>r. cell r \<notin> (Some \<circ> JStr \<circ> so_id) ` set lanes) rows = filter (\<lambda>r. cell r \<in> {None, Some JNull}) rows" by (rule left(2))
qed

lemma select_cells:
  assumes "schema_ok t" "rows_ok t" "column_of t k x c" "co_columnType c = SelectColumn" "co_options c = Some os" "r \<in> set (ts_rows t)" "rw_storeId r = x"
  shows "fmlookup (rw_data r) k \<in> {None, Some JNull} \<union> (Some \<circ> JStr \<circ> so_id) ` set os"
proof (cases "fmlookup (rw_data r) k")
  case (Some y)
  then obtain c' where "column_of t k x c'" "cell_typed c' y" using rowsD(3) [OF assms(2), of r] assms(6,7) by (auto simp: cells_ok_def)
  then have "cell_typed c y" using columns_unique [OF assms(1,3)] by blast
  then show ?thesis using assms(4,5) Some by (auto simp: cell_typed_def split: json.splits)
qed simp

text \<open>C26: after any calls a kanban view can be read. Every row its filters keep that holds a lane is on the board exactly once, in the
  lane it holds; the rows without a lane are there, once, exactly when the view asks for them.\<close>

theorem board_shows_every_row_once:
  assumes s: "s = store_run calls (store_start w)" and v: "authorizeView i p s = Inr v" "vw_viewType v = Kanban"
  shows "\<exists>rows k groups. runQuery env (vw_storeId v) (opt_default [] (vc_where (vw_config v))) (opt_default [] (vc_orderBy (vw_config v))) None s = Inr rows
    \<and> vc_groupByColumnId (vw_config v) = Some k \<and> kanbanGroups env i p s = Inr groups
    \<and> mset (concat (map snd groups)) = mset (filter (\<lambda>r. vc_showUngrouped (vw_config v) = Some True \<or> fmlookup (rw_data r) k \<notin> {None, Some JNull}) rows)
    \<and> list_all (\<lambda>(lane, rs). list_all (\<lambda>r. fmlookup (rw_data r) k = Some (JStr (so_id lane)) \<or> so_id lane = NO_VALUE_GROUP_ID \<and> fmlookup (rw_data r) k \<in> {None, Some JNull}) rs) groups"
proof -
  let ?t = "ds_tables s"
  note ok = reached_parts(1,2) [OF s]
  have vok: "view_ok ?t v" using schemaD(10) [OF ok(1)] authorizeView_Inr [OF v(1)] by blast
  then obtain k c where k: "vc_groupByColumnId (vw_config v) = Some k" and c: "column_of ?t k (vw_storeId v) c" "co_columnType c = SelectColumn" using v(2) by (auto simp: view_ok_def)
  obtain rows where rows: "runQuery env (vw_storeId v) (opt_default [] (vc_where (vw_config v))) (opt_default [] (vc_orderBy (vw_config v))) None s = Inr rows"
    and sub: "set rows \<subseteq> set (ts_rows ?t)" "rw_storeId ` set rows \<subseteq> {vw_storeId v}" using view_query_runs [OF vok] by blast
  obtain os where os: "co_options c = Some os" "distinct (map so_id os)" using schemaD(7) [OF ok(1), of c] c by (auto simp: column_of_def)
  define lanes where "lanes = orderedKanbanOptions os (vc_columnOrder (vw_config v))"
  have "UniqueIdsSchema (vc_columnOrder (vw_config v))" using vok by (simp add: view_ok_def DsViewConfigSchema_def)
  note lanes = ordered_options [OF os(2) this, folded lanes_def]
  define cell where "cell = (\<lambda>r :: ds_row. fmlookup (rw_data r) k)"
  define grouped where "grouped = map (\<lambda>o'. (o', filter (\<lambda>r. cell r = Some (JStr (so_id o'))) rows)) lanes"
  define others where "others = filter (\<lambda>r. cell r \<notin> (Some \<circ> JStr \<circ> so_id) ` set lanes) rows"
  define groups where "groups = (if vc_showUngrouped (vw_config v) \<noteq> Some True \<or> others = [] then grouped else grouped @ [(\<lparr>so_id = NO_VALUE_GROUP_ID, so_label = ''No value'', so_color = None\<rparr>, others)])"
  have "find (\<lambda>x. co_id x = k) (listColumns (vw_storeId v) ?t) = Some c"
  proof -
    have "distinct (map co_id (listColumns (vw_storeId v) ?t))" using schemaD(2) [OF ok(1)] by (simp add: listColumns_def distinct_map_filter)
    then show ?thesis using find_id_in [of co_id "listColumns (vw_storeId v) ?t" c] c(1) by (simp add: column_of_def)
  qed
  then have board: "kanbanGroups env i p s = Inr groups"
    using v(1) k c rows os(1) by (simp add: kanbanGroups_def and_then_def column_with_def Let_def groups_def grouped_def others_def lanes_def cell_def column_of_def)
  have "cell r \<in> {None, Some JNull} \<union> (Some \<circ> JStr \<circ> so_id) ` set lanes" if "r \<in> set rows" for r
    unfolding cell_def lanes(2) by (rule select_cells [OF ok c os(1)]) (use sub that in auto)
  note parts = lanes_split_rows [of lanes rows cell, OF lanes(1) this]
  have inside: "mset (concat (map snd grouped)) = mset (filter (\<lambda>r. cell r \<notin> {None, Some JNull}) rows)" using parts(1) by (simp add: grouped_def comp_def)
  have left: "others = filter (\<lambda>r. cell r \<in> {None, Some JNull}) rows" using parts(2) by (simp add: others_def)
  have split: "mset rows = mset (filter (\<lambda>r. cell r \<notin> {None, Some JNull}) rows) + mset others"
    unfolding left using mset_split [of rows "\<lambda>r. cell r \<notin> {None, Some JNull}"] by (simp only: not_not)
  have "mset (concat (map snd groups)) = mset (filter (\<lambda>r. vc_showUngrouped (vw_config v) = Some True \<or> cell r \<notin> {None, Some JNull}) rows)"
  proof (cases "vc_showUngrouped (vw_config v) = Some True")
    case True
    have "mset (concat (map snd groups)) = mset (concat (map snd grouped)) + mset others" using True by (simp add: groups_def)
    also have "\<dots> = mset rows" unfolding inside by (rule split [symmetric])
    finally show ?thesis using True by simp
  next
    case False
    then show ?thesis using inside by (simp add: groups_def)
  qed
  moreover have "list_all (\<lambda>(lane, rs). list_all (\<lambda>r. cell r = Some (JStr (so_id lane)) \<or> so_id lane = NO_VALUE_GROUP_ID \<and> cell r \<in> {None, Some JNull}) rs) groups"
    using left by (auto simp: groups_def grouped_def list_all_iff)
  ultimately show ?thesis using rows k board unfolding cell_def by blast
qed

theorem board_shows_every_row_once_witness:
  "\<exists>v rows k groups. authorizeView ''xxxxxxx'' ''p'' (board 7) = Inr v \<and> vc_groupByColumnId (vw_config v) = Some k \<and> kanbanGroups example_stores ''xxxxxxx'' ''p'' (board 7) = Inr groups
    \<and> runQuery example_stores (vw_storeId v) (opt_default [] (vc_where (vw_config v))) (opt_default [] (vc_orderBy (vw_config v))) None (board 7) = Inr rows
    \<and> mset (concat (map snd groups)) = mset (filter (\<lambda>r. vc_showUngrouped (vw_config v) = Some True \<or> fmlookup (rw_data r) k \<notin> {None, Some JNull}) rows)"
proof -
  obtain r v where v: "authorizeView ''xxxxxxx'' ''p'' (board 7) = Inr v" "vw_viewType v = Kanban" by (rule board_facts)
  from board_shows_every_row_once [OF board_run v, of example_stores] v(1) show ?thesis by blast
qed

section \<open>Order\<close>

text \<open>A comparison that orders the elements of a set, ties allowed.\<close>

definition order_ok :: "'a set \<Rightarrow> ('a \<Rightarrow> 'a \<Rightarrow> rat) \<Rightarrow> bool" where
  "order_ok A cmp \<longleftrightarrow> (\<forall>a \<in> A. \<forall>b \<in> A. cmp b a < 0 \<longleftrightarrow> 0 < cmp a b) \<and> (\<forall>a \<in> A. \<forall>b \<in> A. \<forall>c \<in> A. cmp a b \<le> 0 \<longrightarrow> cmp b c \<le> 0 \<longrightarrow> cmp a c \<le> 0)"

lemma order_signs:
  assumes "order_ok A cmp" "a \<in> A" "b \<in> A"
  shows "(cmp b a \<le> 0 \<longleftrightarrow> 0 \<le> cmp a b) \<and> (cmp b a = 0 \<longleftrightarrow> cmp a b = 0)"
proof -
  have "cmp b a < 0 \<longleftrightarrow> 0 < cmp a b" "cmp a b < 0 \<longleftrightarrow> 0 < cmp b a" using assms unfolding order_ok_def by blast+
  then show ?thesis by linarith
qed

lemma order_trans: "order_ok A cmp \<Longrightarrow> a \<in> A \<Longrightarrow> b \<in> A \<Longrightarrow> c \<in> A \<Longrightarrow> cmp a b \<le> 0 \<Longrightarrow> cmp b c \<le> 0 \<Longrightarrow> cmp a c \<le> 0"
  unfolding order_ok_def by blast

lemma order_subset: "order_ok A cmp \<Longrightarrow> B \<subseteq> A \<Longrightarrow> order_ok B cmp"
  unfolding order_ok_def by blast

lemma order_same:
  assumes f: "order_ok A f" and e: "\<And>a b. a \<in> A \<Longrightarrow> b \<in> A \<Longrightarrow> (g a b < 0 \<longleftrightarrow> f a b < 0) \<and> (0 < g a b \<longleftrightarrow> 0 < f a b)"
  shows "order_ok A g"
proof -
  have le: "g a b \<le> 0 \<longleftrightarrow> f a b \<le> 0" if "a \<in> A" "b \<in> A" for a b using e [OF that] by linarith
  have "g b a < 0 \<longleftrightarrow> 0 < g a b" if "a \<in> A" "b \<in> A" for a b using f e [OF that] e [OF that(2,1)] that unfolding order_ok_def by blast
  moreover have "g a c \<le> 0" if "a \<in> A" "b \<in> A" "c \<in> A" "g a b \<le> 0" "g b c \<le> 0" for a b c
    using order_trans [OF f that(1-3)] le that by blast
  ultimately show ?thesis unfolding order_ok_def by blast
qed

lemma order_neg: "order_ok A f \<Longrightarrow> order_ok A (\<lambda>a b. - f a b)"
proof -
  assume f: "order_ok A f"
  have "- f a c \<le> 0" if abc: "a \<in> A" "b \<in> A" "c \<in> A" "- f a b \<le> 0" "- f b c \<le> 0" for a b c
  proof -
    have "f b a \<le> 0" "f c b \<le> 0" using order_signs [OF f] abc by auto
    then have "f c a \<le> 0" using order_trans [OF f] abc by blast
    then show ?thesis using order_signs [OF f abc(1,3)] by simp
  qed
  moreover have "- f b a < 0 \<longleftrightarrow> 0 < - f a b" if "a \<in> A" "b \<in> A" for a b using f that unfolding order_ok_def by (metis neg_0_less_iff_less neg_less_0_iff_less)
  ultimately show ?thesis unfolding order_ok_def by blast
qed

lemma order_keys: "order_ok A (\<lambda>a b. compare_keys (k a) (k b))"
  unfolding order_ok_def compare_keys_def by (auto split: if_splits)

text \<open>A second comparison decides where the first says a tie.\<close>

lemma order_lex:
  assumes f: "order_ok A f" and g: "order_ok A g"
  shows "order_ok A (\<lambda>a b. if f a b \<noteq> 0 then f a b else g a b)"
proof -
  have below: "f a c < 0" if abc: "a \<in> A" "b \<in> A" "c \<in> A" and le: "f a b \<le> 0" "f b c \<le> 0" "f a b < 0 \<or> f b c < 0" for a b c
  proof (rule ccontr)
    assume "\<not> f a c < 0"
    then have "f c a \<le> 0" using order_signs [OF f abc(1,3)] by simp
    then have "f b a \<le> 0" "f c b \<le> 0" using order_trans [OF f] abc le by blast+
    then show False using order_signs [OF f] abc le(3) by (meson linorder_not_less)
  qed
  have "(if f a c \<noteq> 0 then f a c else g a c) \<le> 0"
    if abc: "a \<in> A" "b \<in> A" "c \<in> A" and le: "(if f a b \<noteq> 0 then f a b else g a b) \<le> 0" "(if f b c \<noteq> 0 then f b c else g b c) \<le> 0" for a b c
  proof -
    have fle: "f a b \<le> 0" "f b c \<le> 0" using le by (auto split: if_splits)
    show ?thesis
    proof (cases "f a b < 0 \<or> f b c < 0")
      case True
      then show ?thesis using below [OF abc fle] by auto
    next
      case False
      then have "f a b = 0" "f b c = 0" using fle by auto
      moreover have "f a c \<le> 0" using order_trans [OF f abc fle] .
      ultimately show ?thesis using le order_trans [OF g abc] by auto
    qed
  qed
  moreover have "(if f b a \<noteq> 0 then f b a else g b a) < 0 \<longleftrightarrow> 0 < (if f a b \<noteq> 0 then f a b else g a b)" if ab: "a \<in> A" "b \<in> A" for a b
  proof (cases "f a b = 0")
    case True
    then have "f b a = 0" using order_signs [OF f ab] by blast
    then show ?thesis using True g ab unfolding order_ok_def by simp
  next
    case False
    then have "f b a \<noteq> 0" using order_signs [OF f ab] by blast
    then show ?thesis using False f ab unfolding order_ok_def by simp
  qed
  ultimately show ?thesis unfolding order_ok_def by blast
qed

lemma insort_by_sorted:
  assumes "order_ok (insert x (set xs)) cmp" "sorted_wrt (\<lambda>a b. cmp a b \<le> 0) xs"
  shows "sorted_wrt (\<lambda>a b. cmp a b \<le> 0) (insort_by cmp x xs)"
  using assms
proof (induction xs)
  case (Cons y ys)
  have set: "set (insort_by cmp x ys) = insert x (set ys)" by (metis mset_insort_by set_mset_add_mset_insert set_mset_mset)
  show ?case
  proof (cases "cmp x y \<le> 0")
    case True
    then have "\<forall>z \<in> set ys. cmp x z \<le> 0" using Cons.prems order_trans [OF Cons.prems(1), of x y] by auto
    then show ?thesis using True Cons.prems by simp
  next
    case False
    then have "cmp y x \<le> 0" using order_signs [OF Cons.prems(1), of x y] by simp
    moreover have "order_ok (insert x (set ys)) cmp" by (rule order_subset [OF Cons.prems(1)]) auto
    ultimately show ?thesis using Cons False set by simp
  qed
qed simp

lemma sort_by_Cons: "sort_by cmp (x # xs) = insort_by cmp x (sort_by cmp xs)"
  by (simp add: sort_by_def)

lemma sort_by_sorted: "order_ok (set xs) cmp \<Longrightarrow> sorted_wrt (\<lambda>a b. cmp a b \<le> 0) (sort_by cmp xs)"
proof (induction xs)
  case (Cons x xs)
  have "order_ok (set xs) cmp" by (rule order_subset [OF Cons.prems]) auto
  then show ?case using Cons insort_by_sorted [of x "sort_by cmp xs" cmp] by (simp add: sort_by_Cons)
qed (simp add: sort_by_def)

section \<open>Queries\<close>

text \<open>What a cell is ordered by under a column: its kind, its number, its instant, its text.\<close>

definition cell_key :: "'w store_env \<Rightarrow> ds_column \<Rightarrow> json \<Rightarrow> nat \<times> rat \<times> nat list" where
  "cell_key env c v = (typeRank v,
     (case v of JNum n \<Rightarrow> n | JBool b \<Rightarrow> of_bool b | JStr s \<Rightarrow> if co_columnType c = DateColumn then opt_default 0 (sv_time env s) else 0 | _ \<Rightarrow> 0),
     (case v of JStr s \<Rightarrow> if co_columnType c = DateColumn then [] else utf16_key s | _ \<Rightarrow> []))"

definition date_read :: "'w store_env \<Rightarrow> ds_column \<Rightarrow> json \<Rightarrow> bool" where
  "date_read env c v \<longleftrightarrow> (case v of JStr s \<Rightarrow> co_columnType c = DateColumn \<longrightarrow> sv_time env s \<noteq> None | _ \<Rightarrow> True)"

lemma compareCells_key:
  assumes "date_read env c a" "date_read env c b"
  shows "(compareCells env c a b < 0 \<longleftrightarrow> compare_keys (cell_key env c a) (cell_key env c b) < 0) \<and> (0 < compareCells env c a b \<longleftrightarrow> 0 < compare_keys (cell_key env c a) (cell_key env c b))"
  using assms unfolding compareCells_def cell_key_def date_read_def compare_keys_def compareTexts_def
  by (cases a; cases b) (auto simp: typeRank_def)

lemma compareRows_ok:
  assumes "\<And>c r. c \<in> set columns \<Longrightarrow> r \<in> A \<Longrightarrow> date_read env c (cell_or_null (rw_data r) (co_id c))"
  shows "order_ok A (compareRows env columns terms)"
proof (induction terms)
  case Nil
  then show ?case by (simp add: compareRows_def order_ok_def)
next
  case (Cons o' terms)
  let ?cell = "\<lambda>r :: ds_row. cell_or_null (rw_data r) (ot_columnId o')"
  let ?empty = "\<lambda>a b. compare_keys (isEmptyCell (?cell a)) (isEmptyCell (?cell b))"
  define cells where "cells = (\<lambda>a b. case find (\<lambda>c. co_id c = ot_columnId o') columns of None \<Rightarrow> 0
    | Some c \<Rightarrow> (let n = compareCells env c (?cell a) (?cell b) in if ot_ascending o' then n else - n))"
  have e: "compareRows env columns (o' # terms) =
      (\<lambda>a b. if ?empty a b \<noteq> 0 then ?empty a b else if cells a b \<noteq> 0 then cells a b else compareRows env columns terms a b)"
    by (auto simp: fun_eq_iff compareRows_def cells_def compare_keys_def Let_def split: option.splits)
  have "order_ok A cells"
  proof (cases "find (\<lambda>c. co_id c = ot_columnId o') columns")
    case None
    then show ?thesis by (simp add: cells_def order_ok_def)
  next
    case (Some c)
    then have c: "c \<in> set columns" "co_id c = ot_columnId o'" using find_SomeD by fastforce+
    have "order_ok A (\<lambda>a b. compareCells env c (?cell a) (?cell b))"
      by (rule order_same [OF order_keys [of A "\<lambda>r. cell_key env c (?cell r)"]]) (rule compareCells_key; use assms [OF c(1)] c(2) in simp)
    then show ?thesis using order_neg [of A "\<lambda>a b. compareCells env c (?cell a) (?cell b)"] Some by (cases "ot_ascending o'") (simp_all add: cells_def Let_def)
  qed
  then show ?case unfolding e by (intro order_lex order_keys Cons.IH)
qed

text \<open>What a query means, said without its comparisons. A value stands below another of its kind: a number, an instant under a date
  column, a text elsewhere.\<close>

definition value_below :: "'w store_env \<Rightarrow> ds_column \<Rightarrow> json \<Rightarrow> json \<Rightarrow> bool" where
  "value_below env c a b \<longleftrightarrow> (\<exists>x y. a = JNum x \<and> b = JNum y \<and> x < y)
     \<or> (\<exists>s t. a = JStr s \<and> b = JStr t \<and> (if co_columnType c = DateColumn then (\<exists>x y. sv_time env s = Some x \<and> sv_time env t = Some y \<and> x < y) else utf16_key s < utf16_key t))"

definition value_level :: "'w store_env \<Rightarrow> ds_column \<Rightarrow> json \<Rightarrow> json \<Rightarrow> bool" where
  "value_level env c a b \<longleftrightarrow> (\<exists>x. a = JNum x \<and> b = JNum x)
     \<or> (\<exists>s t. a = JStr s \<and> b = JStr t \<and> (if co_columnType c = DateColumn then (\<exists>x. sv_time env s = Some x \<and> sv_time env t = Some x) else s = t))"

definition clause_holds :: "'w store_env \<Rightarrow> ds_column \<Rightarrow> json \<Rightarrow> where_operator \<Rightarrow> json \<Rightarrow> bool" where
  "clause_holds env c cell op v \<longleftrightarrow>
     op = OpEq \<and> ordered cell = ordered v \<or> op = OpNeq \<and> ordered cell \<noteq> ordered v
     \<or> op = OpIn \<and> (\<exists>candidates. v = JArr candidates \<and> (\<exists>x \<in> set candidates. ordered cell = ordered x))
     \<or> op = OpContains \<and> (\<exists>s t a b. cell = JStr s \<and> v = JStr t \<and> te_lower (sv_text env) s = a @ te_lower (sv_text env) t @ b)
     \<or> op \<in> {OpGt, OpGte} \<and> value_below env c v cell \<or> op \<in> {OpLt, OpLte} \<and> value_below env c cell v
     \<or> op \<in> {OpGte, OpLte} \<and> value_level env c cell v"

text \<open>Numbers come before texts, these before truth values and these before the rest; empty cells come last whatever the direction.\<close>

fun json_kind :: "json \<Rightarrow> nat" where
  "json_kind (JNum _) = 0"
| "json_kind (JStr _) = 1"
| "json_kind (JBool _) = 2"
| "json_kind _ = 3"

definition cell_first :: "'w store_env \<Rightarrow> ds_column \<Rightarrow> json \<Rightarrow> json \<Rightarrow> bool" where
  "cell_first env c a b \<longleftrightarrow> json_kind a < json_kind b \<or> value_below env c a b \<or> a = JBool False \<and> b = JBool True"

definition shown :: "ds_row \<Rightarrow> string \<Rightarrow> json" where
  "shown r k = (case fmlookup (rw_data r) k of None \<Rightarrow> JNull | Some v \<Rightarrow> v)"

definition first_under :: "'w store_env \<Rightarrow> store_tables \<Rightarrow> string \<Rightarrow> order_term \<Rightarrow> ds_row \<Rightarrow> ds_row \<Rightarrow> bool" where
  "first_under env t x o' a b \<longleftrightarrow> (let u = shown a (ot_columnId o'); v = shown b (ot_columnId o') in
     u \<noteq> JNull \<and> (v = JNull \<or> (\<exists>c. column_of t (ot_columnId o') x c \<and> (if ot_ascending o' then cell_first env c u v else cell_first env c v u))))"

fun precedes :: "'w store_env \<Rightarrow> store_tables \<Rightarrow> string \<Rightarrow> order_term list \<Rightarrow> ds_row \<Rightarrow> ds_row \<Rightarrow> bool" where
  "precedes env t x [] a b \<longleftrightarrow> False"
| "precedes env t x (o' # terms) a b \<longleftrightarrow> first_under env t x o' a b \<or> \<not> first_under env t x o' b a \<and> precedes env t x terms a b"

lemma shown_cell: "cell_or_null (rw_data r) k = shown r k"
  by (simp add: cell_or_null_def shown_def opt_default_def split: option.split)

lemma inj_utf16_key: "inj utf16_key"
proof -
  have "inj (\<lambda>c. let n = (of_char c :: nat) in if n = 238 \<or> n = 239 then n + 16 else if 240 \<le> n then n - 2 else n)"
  proof (rule injI)
    fix a b :: char
    have "of_char a < (256 :: nat)" "of_char b < (256 :: nat)" by simp_all
    moreover assume "(let n = (of_char a :: nat) in if n = 238 \<or> n = 239 then n + 16 else if 240 \<le> n then n - 2 else n) = (let n = (of_char b :: nat) in if n = 238 \<or> n = 239 then n + 16 else if 240 \<le> n then n - 2 else n)"
    moreover have "m = n" if "m < 256" "n < 256" "(if m = 238 \<or> m = 239 then m + 16 else if 240 \<le> m then m - 2 else m) = (if n = 238 \<or> n = 239 then n + 16 else if 240 \<le> n then n - 2 else n)" for m n :: nat
      using that by (cases "m = 238 \<or> m = 239"; cases "n = 238 \<or> n = 239"; cases "240 \<le> m"; cases "240 \<le> n") auto
    ultimately have "(of_char a :: nat) = of_char b" unfolding Let_def by blast
    then show "a = b" by simp
  qed
  then show ?thesis unfolding utf16_key_def [abs_def] by (rule inj_mapI)
qed

lemma compareTexts_sign: "(compareTexts s t < 0 \<longleftrightarrow> utf16_key s < utf16_key t) \<and> (0 < compareTexts s t \<longleftrightarrow> utf16_key t < utf16_key s) \<and> (compareTexts s t = 0 \<longleftrightarrow> s = t)"
  using inj_utf16_key [THEN inj_eq, of s t] by (auto simp: compareTexts_def)

lemma compareCells_sign:
  assumes "date_read env c a" "date_read env c b"
  shows "(compareCells env c a b < 0 \<longleftrightarrow> cell_first env c a b) \<and> (0 < compareCells env c a b \<longleftrightarrow> cell_first env c b a)"
  using assms compareTexts_sign unfolding compareCells_def cell_first_def value_below_def date_read_def
  by (cases a; cases b) (auto simp: typeRank_def)

lemma orderOf_sign:
  "(case orderOf env c a b of None \<Rightarrow> \<not> value_below env c a b \<and> \<not> value_level env c a b \<and> \<not> value_below env c b a
     | Some n \<Rightarrow> (n < 0 \<longleftrightarrow> value_below env c a b) \<and> (0 < n \<longleftrightarrow> value_below env c b a) \<and> (n = 0 \<longleftrightarrow> value_level env c a b))"
  unfolding orderOf_def value_below_def value_level_def compareCells_def using compareTexts_sign
  by (cases a; cases b) (auto split: option.splits)

lemma matches_meaning: "matches env c cell clause \<longleftrightarrow> clause_holds env c cell (wc_op clause) (opt_default JNull (wc_value clause))"
proof -
  define v where "v = opt_default JNull (wc_value clause)"
  have n: "n \<le> 0 \<longleftrightarrow> n < 0 \<or> n = 0" "0 \<le> n \<longleftrightarrow> 0 < n \<or> n = 0" for n :: rat by auto
  show ?thesis unfolding matches_def Let_def v_def [symmetric] clause_holds_def isSameValue_def using orderOf_sign [of env c cell v]
    by (cases "wc_op clause") (auto simp: list_ex_iff includes_sublist n split: option.splits json.splits)
qed

lemma sign_lex:
  fixes n rest :: rat
  assumes "(n < 0 \<longleftrightarrow> A) \<and> (0 < n \<longleftrightarrow> B)" "(rest < 0 \<longleftrightarrow> P) \<and> (0 < rest \<longleftrightarrow> Q)"
  shows "((if n \<noteq> 0 then n else rest) < 0 \<longleftrightarrow> A \<or> \<not> B \<and> P) \<and> (0 < (if n \<noteq> 0 then n else rest) \<longleftrightarrow> B \<or> \<not> A \<and> Q)"
  using assms by (cases n "0 :: rat" rule: linorder_cases) auto

lemma compareRows_sign:
  assumes unique: "\<And>k c. find (\<lambda>c. co_id c = k) (listColumns x t) = Some c \<longleftrightarrow> column_of t k x c"
    and read: "\<And>c r. c \<in> set (listColumns x t) \<Longrightarrow> r \<in> A \<Longrightarrow> date_read env c (shown r (co_id c))" and ab: "a \<in> A" "b \<in> A"
    and known: "\<And>o'. o' \<in> set terms \<Longrightarrow> \<exists>c. column_of t (ot_columnId o') x c"
  shows "(compareRows env (listColumns x t) terms a b < 0 \<longleftrightarrow> precedes env t x terms a b) \<and> (0 < compareRows env (listColumns x t) terms a b \<longleftrightarrow> precedes env t x terms b a)"
  using known
proof (induction terms)
  case Nil
  then show ?case by (simp add: compareRows_def)
next
  case (Cons o' terms)
  let ?k = "ot_columnId o'" and ?rest = "compareRows env (listColumns x t) terms a b"
  obtain c where c: "column_of t ?k x c" using Cons.prems by auto
  then have found: "find (\<lambda>c. co_id c = ?k) (listColumns x t) = Some c" using unique by blast
  then have "c \<in> set (listColumns x t)" "co_id c = ?k" using find_SomeD by fastforce+
  then have sign: "(compareCells env c (shown a ?k) (shown b ?k) < 0 \<longleftrightarrow> cell_first env c (shown a ?k) (shown b ?k)) \<and> (0 < compareCells env c (shown a ?k) (shown b ?k) \<longleftrightarrow> cell_first env c (shown b ?k) (shown a ?k))"
    using compareCells_sign read ab by metis
  have one: "column_of t ?k x c' \<longleftrightarrow> c' = c" for c' using unique [of ?k] found c by (metis option.inject)
  have null: "compareCells env c JNull JNull = 0" by (simp add: compareCells_def)
  have step: "compareRows env (listColumns x t) (o' # terms) a b = (if (shown a ?k = JNull) \<noteq> (shown b ?k = JNull) then (if shown a ?k = JNull then 1 else - 1)
      else (let n = compareCells env c (shown a ?k) (shown b ?k) in if n \<noteq> 0 then (if ot_ascending o' then n else - n) else ?rest))"
    using found by (simp add: compareRows_def shown_cell isEmptyCell_def Let_def)
  have under: "first_under env t x o' r r' \<longleftrightarrow> shown r ?k \<noteq> JNull \<and> (shown r' ?k = JNull \<or> (if ot_ascending o' then cell_first env c (shown r ?k) (shown r' ?k) else cell_first env c (shown r' ?k) (shown r ?k)))" for r r'
    by (auto simp: first_under_def one Let_def)
  have ih: "(?rest < 0 \<longleftrightarrow> precedes env t x terms a b) \<and> (0 < ?rest \<longleftrightarrow> precedes env t x terms b a)" by (rule Cons.IH) (use Cons.prems in simp)
  consider "shown a ?k = JNull" "shown b ?k = JNull" | "shown a ?k = JNull" "shown b ?k \<noteq> JNull" | "shown a ?k \<noteq> JNull" "shown b ?k = JNull" | "shown a ?k \<noteq> JNull" "shown b ?k \<noteq> JNull" by blast
  then show ?case
  proof cases
    case 4
    let ?n = "if ot_ascending o' then compareCells env c (shown a ?k) (shown b ?k) else - compareCells env c (shown a ?k) (shown b ?k)"
    have "compareRows env (listColumns x t) (o' # terms) a b = (if ?n \<noteq> 0 then ?n else ?rest)" using 4 by (simp add: step Let_def)
    moreover have "(?n < 0 \<longleftrightarrow> first_under env t x o' a b) \<and> (0 < ?n \<longleftrightarrow> first_under env t x o' b a)" using 4 sign by (simp add: under)
    ultimately show ?thesis using sign_lex [of ?n _ _ ?rest, OF _ ih] by simp
  qed (simp_all add: step under null ih Let_def)
qed

lemma filter_insort_by:
  assumes "order_ok (insert x (insert a (set ys))) cmp"
  shows "filter (\<lambda>y. cmp x y = 0) (insort_by cmp a ys) = (if cmp x a = 0 then [a] else []) @ filter (\<lambda>y. cmp x y = 0) ys"
  using assms
proof (induction ys)
  case (Cons y ys)
  have "cmp x y \<noteq> 0" if "cmp x a = 0" "\<not> cmp a y \<le> 0"
  proof
    assume "cmp x y = 0"
    moreover have "cmp a x = 0" using order_signs [OF Cons.prems, of x a] that(1) by simp
    ultimately have "cmp a y \<le> 0" using order_trans [OF Cons.prems, of a x y] by simp
    then show False using that(2) by simp
  qed
  moreover have "order_ok (insert x (insert a (set ys))) cmp" by (rule order_subset [OF Cons.prems]) auto
  ultimately show ?case using Cons.IH by auto
qed simp

lemma sort_by_stable: "order_ok (insert x (set xs)) cmp \<Longrightarrow> filter (\<lambda>y. cmp x y = 0) (sort_by cmp xs) = filter (\<lambda>y. cmp x y = 0) xs"
proof (induction xs)
  case (Cons a xs)
  have "set (sort_by cmp xs) = set xs" by (metis mset_sort_by set_mset_mset)
  then have "order_ok (insert x (insert a (set (sort_by cmp xs)))) cmp" "order_ok (insert x (set xs)) cmp" by (auto intro: order_subset [OF Cons.prems])
  then show ?case using Cons.IH by (simp add: sort_by_Cons filter_insort_by)
qed (simp add: sort_by_def)

lemma ties_sorted:
  assumes "\<And>x. E x x"
  shows "(\<And>x. x \<in> set xs \<Longrightarrow> sorted_wrt R (filter (E x) xs)) \<Longrightarrow> sorted_wrt (\<lambda>a b. E a b \<longrightarrow> R a b) xs"
proof (induction xs)
  case (Cons a xs)
  have "sorted_wrt R (filter (E x) xs)" if "x \<in> set xs" for x using Cons.prems [of x] that by (auto split: if_splits)
  moreover have "R a b" if "b \<in> set xs" "E a b" for b using Cons.prems [of a] assms that by auto
  ultimately show ?case using Cons.IH by simp
qed simp

lemma query_sorted:
  assumes ok: "order_ok (set xs) cmp" and listed: "sorted_wrt (\<lambda>a b. k a \<le> k b) xs"
  shows "sorted_wrt (\<lambda>a b. cmp a b < 0 \<or> \<not> cmp b a < 0 \<and> (k a :: 'k :: linorder) \<le> k b) (sort_by cmp xs)"
proof -
  have set: "set (sort_by cmp xs) = set xs" by (metis mset_sort_by set_mset_mset)
  have refl: "cmp a a = 0" if "a \<in> set xs" for a
  proof -
    have "cmp a a < 0 \<longleftrightarrow> 0 < cmp a a" using ok that unfolding order_ok_def by blast
    then show ?thesis by linarith
  qed
  have "sorted_wrt (\<lambda>a b. k a \<le> k b) (filter (\<lambda>y. a = y \<or> cmp a y = 0) (sort_by cmp xs))" if "a \<in> set (sort_by cmp xs)" for a
  proof -
    have a: "a \<in> set xs" using that set by simp
    have "filter (\<lambda>y. a = y \<or> cmp a y = 0) (sort_by cmp xs) = filter (\<lambda>y. cmp a y = 0) (sort_by cmp xs)" by (rule filter_cong) (use refl a in auto)
    also have "\<dots> = filter (\<lambda>y. cmp a y = 0) xs" using sort_by_stable [of a xs cmp] ok a by (simp add: insert_absorb)
    finally show ?thesis using listed by (simp add: sorted_wrt_filter)
  qed
  then have ties: "sorted_wrt (\<lambda>a b. (a = b \<or> cmp a b = 0) \<longrightarrow> k a \<le> k b) (sort_by cmp xs)" by (intro ties_sorted) simp_all
  have le: "sorted_wrt (\<lambda>a b. cmp a b \<le> 0) (sort_by cmp xs)" by (rule sort_by_sorted [OF ok])
  have "sorted_wrt (\<lambda>a b. (cmp a b \<le> 0 \<and> ((a = b \<or> cmp a b = 0) \<longrightarrow> k a \<le> k b))) (sort_by cmp xs)"
    using ties le by (simp add: sorted_wrt_iff_nth_less)
  then show ?thesis
  proof (rule sorted_wrt_mono_rel [rotated])
    fix a b assume ab: "a \<in> set (sort_by cmp xs)" "b \<in> set (sort_by cmp xs)" and h: "cmp a b \<le> 0 \<and> ((a = b \<or> cmp a b = 0) \<longrightarrow> k a \<le> k b)"
    have "cmp b a < 0 \<longleftrightarrow> 0 < cmp a b" using ok ab set unfolding order_ok_def by blast
    then show "cmp a b < 0 \<or> \<not> cmp b a < 0 \<and> k a \<le> k b" using h by auto
  qed
qed

lemma listRows_sorted: "sorted_wrt (\<lambda>a b. rw_createdAt a \<le> rw_createdAt b) (listRows x t)"
  unfolding listRows_def
  by (rule sorted_wrt_mono_rel [OF _ sort_by_sorted [OF order_keys]]) (auto simp: compare_keys_def split: if_splits)

lemma columns_found:
  assumes "schema_ok t"
  shows "find (\<lambda>c. co_id c = k) (listColumns x t) = Some c \<longleftrightarrow> column_of t k x c"
proof
  assume "find (\<lambda>c. co_id c = k) (listColumns x t) = Some c"
  then have "c \<in> set (listColumns x t)" "co_id c = k" using find_SomeD by fastforce+
  then show "column_of t k x c" by (simp add: column_of_def)
next
  assume c: "column_of t k x c"
  have "distinct (map co_id (listColumns x t))" using schemaD(2) [OF assms] by (simp add: listColumns_def distinct_map_filter)
  then show "find (\<lambda>c. co_id c = k) (listColumns x t) = Some c" using find_id_in [of co_id "listColumns x t" c] c by (simp add: column_of_def)
qed

text \<open>C28: after any calls, a query that runs returns the rows of the store for which every clause holds, each once and cut at the limit, with
  the rows that come first under the terms of the order standing first: a term decides between two rows that the terms
  before it leave level, downwards if it says so, a row without a value stands after one with a value, and rows that all terms
  leave level stand in the order of their creation. The texts in the date columns of the store must be dates the daemon can
  read.\<close>

theorem query_sorts_the_matching_rows:
  assumes s: "s = store_run calls (store_start w)" and q: "query env x p clauses terms limit s = Inr rows"
    and read: "\<And>c r. c \<in> set (listColumns x (ds_tables s)) \<Longrightarrow> r \<in> set (ts_rows (ds_tables s)) \<Longrightarrow> date_read env c (shown r (co_id c))"
  shows "\<exists>found. rows = (case limit of None \<Rightarrow> found | Some n \<Rightarrow> take n found)
    \<and> mset found = mset (filter (\<lambda>r. rw_storeId r = x \<and> (\<forall>clause \<in> set clauses. \<exists>c. column_of (ds_tables s) (wc_columnId clause) x c
        \<and> clause_holds env c (shown r (wc_columnId clause)) (wc_op clause) (opt_default JNull (wc_value clause)))) (ts_rows (ds_tables s)))
    \<and> sorted_wrt (\<lambda>a b. precedes env (ds_tables s) x terms a b \<or> \<not> precedes env (ds_tables s) x terms b a \<and> rw_createdAt a \<le> rw_createdAt b) found"
proof -
  let ?t = "ds_tables s"
  let ?cs = "listColumns x ?t"
  note find = columns_found [OF reached_parts(1) [OF s]]
  define kept where "kept = filter (row_matches env ?cs clauses) (listRows x ?t)"
  have rows: "rows = (case limit of None \<Rightarrow> sort_by (compareRows env ?cs terms) kept | Some n \<Rightarrow> take n (sort_by (compareRows env ?cs terms) kept))"
    and known: "set (map wc_columnId clauses @ map ot_columnId terms) \<subseteq> co_id ` set ?cs"
    using q unfolding kept_def by (auto simp: query_def runQuery_def requireColumns_def assertKnownColumns_def Let_def)
  have sub: "set kept \<subseteq> set (ts_rows ?t)" by (auto simp: kept_def)
  have terms: "\<exists>c. column_of ?t (ot_columnId o') x c" if "o' \<in> set terms" for o' using known that by (force simp: column_of_def)
  have "row_matches env ?cs clauses r \<longleftrightarrow> (\<forall>clause \<in> set clauses. \<exists>c. column_of ?t (wc_columnId clause) x c
      \<and> clause_holds env c (shown r (wc_columnId clause)) (wc_op clause) (opt_default JNull (wc_value clause)))" for r
    unfolding row_matches_def list_all_iff shown_cell matches_meaning find [symmetric] by (auto split: option.split)
  then have matching: "mset kept = mset (filter (\<lambda>r. rw_storeId r = x \<and> (\<forall>clause \<in> set clauses. \<exists>c. column_of ?t (wc_columnId clause) x c
      \<and> clause_holds env c (shown r (wc_columnId clause)) (wc_op clause) (opt_default JNull (wc_value clause)))) (ts_rows ?t))"
    by (simp add: kept_def listRows_def filter_filter_mset conj_commute)
  have read': "date_read env c (cell_or_null (rw_data r) (co_id c))" if "c \<in> set ?cs" "r \<in> set kept" for c r using read that sub by (auto simp: shown_cell)
  have order: "order_ok (set kept) (compareRows env ?cs terms)" by (rule compareRows_ok) (use read' in blast)
  have "sorted_wrt (\<lambda>a b. rw_createdAt a \<le> rw_createdAt b) kept" unfolding kept_def by (intro sorted_wrt_filter listRows_sorted)
  from query_sorted [OF order this]
  have "sorted_wrt (\<lambda>a b. precedes env ?t x terms a b \<or> \<not> precedes env ?t x terms b a \<and> rw_createdAt a \<le> rw_createdAt b) (sort_by (compareRows env ?cs terms) kept)"
  proof (rule sorted_wrt_mono_rel [rotated])
    fix a b assume "a \<in> set (sort_by (compareRows env ?cs terms) kept)" "b \<in> set (sort_by (compareRows env ?cs terms) kept)"
    moreover have "set (sort_by (compareRows env ?cs terms) kept) = set kept" by (metis mset_sort_by set_mset_mset)
    ultimately have ab: "a \<in> set kept" "b \<in> set kept" by simp_all
    have sign: "(compareRows env ?cs terms u v < 0 \<longleftrightarrow> precedes env ?t x terms u v)" if "u \<in> set kept" "v \<in> set kept" for u v
      using compareRows_sign [where A = "set kept" and x = x and t = ?t and env = env and terms = terms, OF find _ that terms] read' by (simp add: shown_cell)
    assume "compareRows env ?cs terms a b < 0 \<or> \<not> compareRows env ?cs terms b a < 0 \<and> rw_createdAt a \<le> rw_createdAt b"
    then show "precedes env ?t x terms a b \<or> \<not> precedes env ?t x terms b a \<and> rw_createdAt a \<le> rw_createdAt b" using sign [OF ab] sign [OF ab(2,1)] by simp
  qed
  with rows matching show ?thesis by (intro exI [of _ "sort_by (compareRows env ?cs terms) kept"]) simp
qed

lemma example_dates: "date_read example_stores c v"
  by (simp add: date_read_def example_stores_def split: json.split)

definition three_cards :: "nat data_stores" where
  "three_cards = store_run (map (Pair example_stores) (take 5 board_calls) @ another_ticket @ [(example_stores, InsertRow ''x'' \<lparr>is_projectId = ''p'', is_actor = \<lparr>ac_kind = HumanActor, ac_label = ''me''\<rparr>, is_callerIsManager = False\<rparr>
     (fmap_of_list [(''xx'', Some (JStr ''T3'')), (''xxx'', Some (JStr ''a''))]))]) (store_start 1)"

text \<open>The cards in the first lane, by ticket downwards.\<close>

lemma three_cards_query:
  "(case query example_stores ''x'' ''p'' [\<lparr>wc_columnId = ''xxx'', wc_op = OpEq, wc_value = Some (JStr ''a'')\<rparr>] [\<lparr>ot_columnId = ''xx'', ot_ascending = False\<rparr>] (Some 5) three_cards of
      Inl e \<Rightarrow> None | Inr rows \<Rightarrow> Some (map (\<lambda>r. shown r ''xx'') rows)) = Some [JStr ''T3'', JStr ''T1'']"
  by code_simp

theorem query_sorts_the_matching_rows_witness:
  "\<exists>rows found. query example_stores ''x'' ''p'' [\<lparr>wc_columnId = ''xxx'', wc_op = OpEq, wc_value = Some (JStr ''a'')\<rparr>] [\<lparr>ot_columnId = ''xx'', ot_ascending = False\<rparr>] (Some 5) three_cards = Inr rows
    \<and> map (\<lambda>r. shown r ''xx'') rows = [JStr ''T3'', JStr ''T1''] \<and> rows = take 5 found
    \<and> sorted_wrt (\<lambda>a b. precedes example_stores (ds_tables three_cards) ''x'' [\<lparr>ot_columnId = ''xx'', ot_ascending = False\<rparr>] a b
        \<or> \<not> precedes example_stores (ds_tables three_cards) ''x'' [\<lparr>ot_columnId = ''xx'', ot_ascending = False\<rparr>] b a \<and> rw_createdAt a \<le> rw_createdAt b) found"
proof -
  let ?clauses = "[\<lparr>wc_columnId = ''xxx'', wc_op = OpEq, wc_value = Some (JStr ''a'')\<rparr>]" and ?terms = "[\<lparr>ot_columnId = ''xx'', ot_ascending = False\<rparr>]"
  obtain rows where rows: "query example_stores ''x'' ''p'' ?clauses ?terms (Some 5) three_cards = Inr rows" "map (\<lambda>r. shown r ''xx'') rows = [JStr ''T3'', JStr ''T1'']"
    using three_cards_query by (auto split: sum.splits)
  from query_sorts_the_matching_rows [OF three_cards_def rows(1) example_dates] obtain found where "rows = take 5 found"
    "sorted_wrt (\<lambda>a b. precedes example_stores (ds_tables three_cards) ''x'' ?terms a b \<or> \<not> precedes example_stores (ds_tables three_cards) ''x'' ?terms b a \<and> rw_createdAt a \<le> rw_createdAt b) found" by auto
  with rows show ?thesis by (intro exI [of _ rows] exI [of _ found] conjI)
qed

section \<open>The order of the columns\<close>

lemma reordered:
  assumes "distinct ids"
  shows "ts_columns (fold (\<lambda>(position, columnId) t. t\<lparr>ts_columns := map (\<lambda>c. if co_id c = columnId \<and> co_storeId c = x then c\<lparr>co_sortOrder := position\<rparr> else c) (ts_columns t)\<rparr>) (enumerate n ids) t)
    = map (\<lambda>c. if co_storeId c = x then (case map_of (zip ids [n..<n + length ids]) (co_id c) of Some j \<Rightarrow> c\<lparr>co_sortOrder := j\<rparr> | None \<Rightarrow> c) else c) (ts_columns t)"
  using assms
proof (induction ids arbitrary: n t)
  case (Cons i ids)
  have up: "[n..<n + length (i # ids)] = n # [Suc n..<Suc n + length ids]" by (simp add: upt_rec)
  have "map_of (zip ids [Suc n..<Suc n + length ids]) i = None" using map_of_zip_is_None [of ids "[Suc n..<Suc n + length ids]" i] Cons.prems by simp
  then show ?case using Cons unfolding up by (auto simp: comp_def split: option.splits)
qed (simp add: map_idI cong: if_cong)

lemma columns_in_order:
  assumes ok: "schema_ok t" and ids: "distinct ids" "set ids = co_id ` set (listColumns x t)"
  shows "map co_id (listColumns x (reorderColumns_rows x ids t)) = ids"
proof -
  define pos where "pos = map_of (zip ids [0..<length ids])"
  define f where "f = (\<lambda>c :: ds_column. if co_storeId c = x then (case pos (co_id c) of Some j \<Rightarrow> c\<lparr>co_sortOrder := j\<rparr> | None \<Rightarrow> c) else c)"
  define L where "L = listColumns x (reorderColumns_rows x ids t)"
  have cols: "ts_columns (reorderColumns_rows x ids t) = map f (ts_columns t)" using reordered [OF ids(1), of x 0 t] by (simp add: reorderColumns_rows_def f_def pos_def)
  have kept: "co_id (f c) = co_id c" "co_storeId (f c) = co_storeId c" for c by (simp_all add: f_def split: option.splits)
  have at_pos: "co_sortOrder (f c) < length ids \<and> ids ! co_sortOrder (f c) = co_id c" if c: "c \<in> set (ts_columns t)" "co_storeId c = x" for c
  proof -
    have "co_id c \<in> set ids" using ids(2) c by auto
    then obtain j where j: "pos (co_id c) = Some j" unfolding pos_def by (metis diff_zero length_upt map_of_zip_is_Some)
    then have "(co_id c, j) \<in> set (zip ids [0..<length ids])" unfolding pos_def by (rule map_of_SomeD)
    then show ?thesis using j c(2) by (auto simp: in_set_zip f_def)
  qed
  have L: "c \<in> set L \<Longrightarrow> co_sortOrder c < length ids \<and> ids ! co_sortOrder c = co_id c" for c using at_pos kept by (auto simp: L_def cols)
  have "filter (\<lambda>c. co_storeId c = x) (map f (ts_columns t)) = map f (filter (\<lambda>c. co_storeId c = x) (ts_columns t))" using kept by (simp add: filter_map comp_def)
  then have idsL: "mset (map co_id L) = mset (map co_id (filter (\<lambda>c. co_storeId c = x) (ts_columns t)))"
    unfolding L_def listColumns_def cols mset_map mset_sort_by using kept by (simp add: image_mset.compositionality comp_def)
  have distinctL: "distinct (map co_id L)" using mset_eq_imp_distinct_iff [OF idsL] schemaD(2) [OF ok] by (simp add: distinct_map_filter)
  have "set (map co_id L) = set ids" using mset_eq_setD [OF idsL] ids(2) by auto
  then have len: "length L = length ids" using distinct_card [OF distinctL] distinct_card [OF ids(1)] by simp
  have "order_ok A (\<lambda>a b. compare_keys (co_sortOrder a, co_createdAt a, co_id a) (co_sortOrder b, co_createdAt b, co_id b))" for A by (rule order_keys)
  then have "sorted_wrt (\<lambda>a b. compare_keys (co_sortOrder a, co_createdAt a, co_id a) (co_sortOrder b, co_createdAt b, co_id b) \<le> 0) L"
    unfolding L_def listColumns_def by (rule sort_by_sorted)
  then have "sorted_wrt (\<lambda>a b. co_sortOrder a \<le> co_sortOrder b) L" by (rule sorted_wrt_mono_rel [rotated]) (auto simp: compare_keys_def split: if_splits)
  then have sorted: "sorted (map co_sortOrder L)" by (simp add: sorted_map)
  have "map co_id L = map (\<lambda>c. ids ! co_sortOrder c) L" using L by auto
  then have "map (nth ids) (map co_sortOrder L) = map co_id L" by (simp add: comp_def)
  then have "distinct (map (nth ids) (map co_sortOrder L))" using distinctL by metis
  then have "distinct (map co_sortOrder L)" by (simp only: distinct_map)
  moreover have "set (map co_sortOrder L) = {0..<length ids}"
    by (rule card_subset_eq) (use L distinct_card [OF \<open>distinct (map co_sortOrder L)\<close>] len in auto)
  ultimately have "map co_sortOrder L = [0..<length ids]" using sorted by (intro sorted_distinct_set_unique) simp_all
  then have "map (nth ids) (map co_sortOrder L) = ids" by (simp add: map_nth)
  then show ?thesis using \<open>map co_id L = map (\<lambda>c. ids ! co_sortOrder c) L\<close> by (simp add: L_def comp_def)
qed

text \<open>After any calls, an order of columns is accepted exactly when it names each column of the store once, and the columns then stand
  in that order.\<close>

lemma columns_stand_in_the_order_asked:
  assumes s: "s = store_run calls (store_start w)" and "authorize x p s = Inr ()"
  shows "((\<exists>result. reorderColumns x p ids s = Inr result) \<longleftrightarrow> distinct ids \<and> set ids = co_id ` set (listColumns x (ds_tables s)))
    \<and> (\<forall>columns s'. reorderColumns x p ids s = Inr (columns, s') \<longrightarrow> columns = listColumns x (ds_tables s') \<and> map co_id columns = ids)"
proof -
  let ?stored = "map co_id (listColumns x (ds_tables s))"
  have repeated: "map snd (filter (\<lambda>(position, i). i \<in> set (take position ids)) (enumerate 0 ids)) = [] \<longleftrightarrow> distinct ids"
  proof -
    have "map snd (filter (\<lambda>(position, i). i \<in> set (take position ids)) (enumerate 0 ids)) = [] \<longleftrightarrow> (\<forall>j < length ids. ids ! j \<notin> set (take j ids))"
      by (auto simp: filter_empty_conv in_set_enumerate_eq)
    also have "\<dots> \<longleftrightarrow> distinct ids" by (auto simp: distinct_conv_nth in_set_conv_nth) (metis linorder_neqE_nat nth_take order.strict_trans min_less_iff_conj length_take)+
    finally show ?thesis .
  qed
  have "filter (\<lambda>i. i \<notin> set ids) ?stored = [] \<and> filter (\<lambda>i. i \<notin> set ?stored) ids = [] \<longleftrightarrow> set ids = set ?stored" by (auto simp: filter_empty_conv)
  then have all: "filter (\<lambda>i. i \<notin> set ids) ?stored = [] \<and> filter (\<lambda>i. i \<notin> set ?stored) ids = [] \<and> map snd (filter (\<lambda>(position, i). i \<in> set (take position ids)) (enumerate 0 ids)) = []
      \<longleftrightarrow> distinct ids \<and> set ids = set ?stored" unfolding repeated by blast
  obtain e where e: "reorderColumns x p ids s = (if distinct ids \<and> set ids = set ?stored
      then Inr (listColumns x (reorderColumns_rows x ids (ds_tables s)), on_store_tables (reorderColumns_rows x ids) s) else Inl e)"
    unfolding reorderColumns_def Let_def and_then_def assms(2) sum.case all tables_on_store by blast
  show ?thesis
  proof (cases "distinct ids \<and> set ids = set ?stored")
    case True
    then have "reorderColumns x p ids s = Inr (listColumns x (reorderColumns_rows x ids (ds_tables s)), on_store_tables (reorderColumns_rows x ids) s)" unfolding e by simp
    then show ?thesis using True columns_in_order [OF reached_parts(1) [OF s], of ids x] by simp
  next
    case False
    then have "reorderColumns x p ids s = Inl e" unfolding e by simp
    then show ?thesis using False by simp
  qed
qed

end
