(* ===== verification/Scheduled_Events.thy ===== *)
theory Scheduled_Events
  imports Manager_Records Data_Stores Fleet_Interfaces
begin

text \<open>
  The events a manager or its human schedules for later (\<^verbatim>\<open>managers/scheduledEventService.ts\<close>, \<^verbatim>\<open>scheduledEventRepository.ts\<close>,
  \<^verbatim>\<open>localDateTime.ts\<close>): kept in a table until they are due, sent as a message to the manager, retried when that fails, held
  while the manager is closed or disabled.

  The table is the list of its rows; its times, ISO texts in the database, are instants. A timer is the instant it is set for.
  Every reading of the clock is a step of the world, since the code reads it several times in one call. The clock of the
  user's time zone, the sessions, the managers and the delivery of a message, which can throw, are functions of the
  environment, and so is whether the update that marks a row as delivered goes through: the message is handed over in one
  commit and the row is settled in another, so the daemon can die between the two. \<open>ek_sent\<close> keeps the messages whose sending
  returned, with the event of each, and \<open>ek_unrecorded\<close> the events of those sendings whose row was not settled afterwards; the
  code keeps neither.
\<close>

section \<open>Local times\<close>

text \<open>\<open>new Date(year, month, day, hour, minute, second)\<close> in the time zone of the user, and the fields of an instant there with its
  seconds.\<close>

record local_clock =
  lc_instant :: "int \<Rightarrow> int \<Rightarrow> int \<Rightarrow> int \<Rightarrow> int \<Rightarrow> int \<Rightarrow> int"
  lc_fields :: "int \<Rightarrow> civil_fields"
  lc_seconds :: "int \<Rightarrow> int"

definition LOCAL_DATE_TIME :: rx where
  "LOCAL_DATE_TIME = whole [digits 4, lit ''-'', digits 2, lit ''-'', digits 2, lit ''T'', digits 2, lit '':'', digits 2, opt (seq [lit '':'', digits 2])]"

definition int_text :: "int \<Rightarrow> string" where
  "int_text n = (if n < 0 then ''-'' @ nat_digits (nat (- n)) else nat_digits (nat n))"

definition twoDigits :: "int \<Rightarrow> string" where
  "twoDigits n = (let s = int_text n in replicate (2 - length s) CHR ''0'' @ s)"

definition localDateTimeOf :: "local_clock \<Rightarrow> int \<Rightarrow> string" where
  "localDateTimeOf lc instant =
     (let f = lc_fields lc instant;
          date = int_text (cf_year f) @ ''-'' @ twoDigits (cf_month f) @ ''-'' @ twoDigits (cf_dayOfMonth f);
          time = twoDigits (cf_hour f) @ '':'' @ twoDigits (cf_minute f) @ '':'' @ twoDigits (lc_seconds lc instant)
      in date @ ''T'' @ time)"

definition instantOfLocalDateTime :: "local_clock \<Rightarrow> string \<Rightarrow> int option" where
  "instantOfLocalDateTime lc s =
     (if \<not> rx_test LOCAL_DATE_TIME s then None
      else (let year = number_at s 0 4; month = number_at s 5 2; day = number_at s 8 2; hour = number_at s 11 2; minute = number_at s 14 2;
                second = (if length s = 19 then number_at s 17 2 else 0);
                instant = lc_instant lc year (month - 1) day hour minute second; f = lc_fields lc instant
            in if cf_year f = year \<and> cf_month f = month \<and> cf_dayOfMonth f = day then Some instant else None))"

section \<open>The table\<close>

datatype event_creator = ByManager | ByHuman
datatype event_status = Pending | Delivered | Cancelled

record scheduled_event =
  ev_id :: string
  ev_managerId :: string
  ev_creator :: event_creator
  ev_title :: "string option"
  ev_message :: string
  ev_dueAt :: int
  ev_status :: event_status
  ev_createdAt :: int
  ev_deliveredAt :: "int option"

type_synonym event_table = "scheduled_event list"

datatype schedule_error =
    EmptyMessage | MessageTooLong nat | TitleTooLong | BothTimes | NoTime | NotALocalTime | DelayOutOfRange | TimeInThePast
  | TooManyPending | NoPendingEvent | OutsideLineage event_creator | EventIdTaken

text \<open>\<open>id\<close> is the primary key.\<close>

definition insert_event :: "scheduled_event \<Rightarrow> event_table \<Rightarrow> schedule_error + event_table" where
  "insert_event e t = (if ev_id e \<in> ev_id ` set t then Inl EventIdTaken else Inr (t @ [e\<lparr>ev_status := Pending, ev_deliveredAt := None\<rparr>]))"

definition get_event :: "string \<Rightarrow> event_table \<Rightarrow> scheduled_event option" where
  "get_event i t = find (\<lambda>e. ev_id e = i) t"

definition pendingOf :: "string \<Rightarrow> event_table \<Rightarrow> scheduled_event list" where
  "pendingOf managerId t =
     sort_by (\<lambda>a b. compare_keys (ev_dueAt a, ev_createdAt a, ev_id a) (ev_dueAt b, ev_createdAt b, ev_id b)) (filter (\<lambda>e. ev_managerId e = managerId \<and> ev_status e = Pending) t)"

text \<open>The order SQL leaves open is the one of the rows.\<close>

definition managerIdsWithPendingEvents :: "event_table \<Rightarrow> string list" where
  "managerIdsWithPendingEvents t = rev (remdups (rev (map ev_managerId (filter (\<lambda>e. ev_status e = Pending) t))))"

definition countPendingOf :: "string \<Rightarrow> event_table \<Rightarrow> nat" where
  "countPendingOf managerId t = length (filter (\<lambda>e. ev_managerId e = managerId \<and> ev_status e = Pending) t)"

text \<open>\<open>settle\<close> is given the time it reads for a delivery.\<close>

definition settle_event :: "string \<Rightarrow> event_status \<Rightarrow> int option \<Rightarrow> event_table \<Rightarrow> event_table" where
  "settle_event i status deliveredAt t = map (\<lambda>e. if ev_id e = i \<and> ev_status e = Pending then e\<lparr>ev_status := status, ev_deliveredAt := deliveredAt\<rparr> else e) t"

section \<open>The service\<close>

definition MAX_PENDING_EVENTS_PER_MANAGER :: nat where "MAX_PENDING_EVENTS_PER_MANAGER = 20"
definition MAX_EVENT_MESSAGE_BYTES :: nat where "MAX_EVENT_MESSAGE_BYTES = 8192"
definition MAX_EVENT_TITLE_CHARS :: nat where "MAX_EVENT_TITLE_CHARS = 80"
definition MAX_EVENT_DELAY_MINUTES :: rat where "MAX_EVENT_DELAY_MINUTES = 60 * 24 * 366"
definition LATE_AFTER_MS :: int where "LATE_AFTER_MS = 60000"
definition EVENT_MINUTE_MS :: int where "EVENT_MINUTE_MS = 60000"
definition DELIVERY_RETRY_DELAY_MS :: int where "DELIVERY_RETRY_DELAY_MS = 60000"
definition MAX_TIMER_DELAY_MS :: int where "MAX_TIMER_DELAY_MS = 2 ^ 31 - 1"
definition SCHEDULED_EVENT_PREFIX :: string where "SCHEDULED_EVENT_PREFIX = ''[scheduled event''"

record 'w event_env =
  ee_local :: local_clock
  ee_clock :: "'w \<Rightarrow> int \<times> 'w"
  ee_newId :: "'w \<Rightarrow> string \<times> 'w"
  ee_closed :: "'w \<Rightarrow> string \<Rightarrow> bool option" \<comment> \<open>whether the session of an id is closed, \<open>None\<close> when there is none\<close>
  ee_manager :: "'w \<Rightarrow> string \<Rightarrow> manager_record option" \<comment> \<open>\<open>getWithinBounds\<close>\<close>
  ee_send :: "string \<Rightarrow> string \<Rightarrow> 'w \<Rightarrow> bool \<times> 'w" \<comment> \<open>whether \<open>sendMessage\<close> returned\<close>
  ee_settle :: "string \<Rightarrow> 'w \<Rightarrow> bool \<times> 'w" \<comment> \<open>whether the update of \<open>settle\<close> went through\<close>

record 'w event_service =
  ek_events :: event_table
  ek_timers :: "string \<rightharpoonup> int"
  ek_retryAt :: "string \<rightharpoonup> int"
  ek_stopped :: bool
  ek_sent :: "(string \<times> string \<times> string) list"
  ek_unrecorded :: "string list"
  ek_world :: 'w

record schedule_input =
  si_managerId :: string
  si_creator :: event_creator
  si_message :: string
  si_title :: "string option"
  si_at :: "string option"
  si_inMinutes :: "rat option"

definition read_clock :: "'w event_env \<Rightarrow> 'w event_service \<Rightarrow> int \<times> 'w event_service" where
  "read_clock env s = (let (now, w) = ee_clock env (ek_world s) in (now, s\<lparr>ek_world := w\<rparr>))"

text \<open>\<open>title.replace(/[\s\p{Cc}]+/gu, ' ').replaceAll('"', "'").trim()\<close>.\<close>

function collapse_blanks :: "string list \<Rightarrow> string list" where
  "collapse_blanks [] = []"
| "collapse_blanks (ch # cs) =
     (if is_space ch \<or> is_control ch then '' '' # collapse_blanks (dropWhile (\<lambda>ch. is_space ch \<or> is_control ch) cs) else ch # collapse_blanks cs)"
  by pat_completeness auto
termination
  by (relation "measure length") (simp_all add: length_dropWhile_le le_imp_less_Suc)

definition singleLineTitleOf :: "string \<Rightarrow> string" where
  "singleLineTitleOf title = js_trim (map (\<lambda>c. if c = CHR 0x22 then CHR 0x27 else c) (concat (collapse_blanks (utf8_chars title))))"

definition scheduledEventBodyOf :: "local_clock \<Rightarrow> scheduled_event \<Rightarrow> int \<Rightarrow> string" where
  "scheduledEventBodyOf lc e deliveredAt =
     (let isLate = LATE_AFTER_MS < deliveredAt - ev_dueAt e;
          titlePart = (case ev_title e of None \<Rightarrow> '''' | Some t \<Rightarrow> if t = '''' then '''' else '' '' @ [CHR 0x22] @ t @ [CHR 0x22] @ '','');
          latePart = (if isLate then '', delivered late'' else '''')
      in SCHEDULED_EVENT_PREFIX @ titlePart @ '' due '' @ localDateTimeOf lc (ev_dueAt e) @ latePart @ ''] '' @ ev_message e)"

definition validMessageOf :: "string \<Rightarrow> schedule_error + string" where
  "validMessageOf message =
     (let trimmed = js_trim message
      in if trimmed = '''' then Inl EmptyMessage else if MAX_EVENT_MESSAGE_BYTES < length trimmed then Inl (MessageTooLong (length trimmed)) else Inr trimmed)"

definition validTitleOf :: "string option \<Rightarrow> schedule_error + string option" where
  "validTitleOf title =
     (let singleLine = (case title of None \<Rightarrow> '''' | Some t \<Rightarrow> singleLineTitleOf t)
      in if MAX_EVENT_TITLE_CHARS < utf16_length singleLine then Inl TitleTooLong else Inr (if singleLine = '''' then None else Some singleLine))"

definition dueOfLocalTime :: "local_clock \<Rightarrow> string \<Rightarrow> schedule_error + int" where
  "dueOfLocalTime lc at' = or_fail NotALocalTime (instantOfLocalDateTime lc at')"

definition dueAfterMinutes :: "rat \<Rightarrow> int \<Rightarrow> schedule_error + int" where
  "dueAfterMinutes inMinutes now =
     (if 0 < inMinutes \<and> inMinutes \<le> MAX_EVENT_DELAY_MINUTES then Inr (now + \<lceil>inMinutes * of_int EVENT_MINUTE_MS\<rceil>) else Inl DelayOutOfRange)"

definition validDueAtOf :: "'w event_env \<Rightarrow> string option \<Rightarrow> rat option \<Rightarrow> 'w event_service \<Rightarrow> schedule_error + int \<times> 'w event_service" where
  "validDueAtOf env at' inMinutes s =
     (if at' \<noteq> None \<and> inMinutes \<noteq> None then Inl BothTimes
      else if at' = None \<and> inMinutes = None then Inl NoTime
      else (let (now, s1) = read_clock env s
            in and_then (case at' of Some a \<Rightarrow> dueOfLocalTime (ee_local env) a | None \<Rightarrow> dueAfterMinutes (the inMinutes) now) (\<lambda>due.
                 if due \<le> now then Inl TimeInThePast else Inr (due, s1))))"

definition canReceiveEvents :: "'w event_env \<Rightarrow> string \<Rightarrow> 'w event_service \<Rightarrow> bool" where
  "canReceiveEvents env managerId s \<longleftrightarrow>
     ee_closed env (ek_world s) managerId = Some False
     \<and> (case ee_manager env (ek_world s) managerId of None \<Rightarrow> False | Some m \<Rightarrow> modeOf m \<noteq> Disabled)"

definition clearTimerOf :: "string \<Rightarrow> 'w event_service \<Rightarrow> 'w event_service" where
  "clearTimerOf managerId s = s\<lparr>ek_timers := (ek_timers s)(managerId := None)\<rparr>"

definition wakeUpTimes :: "string \<Rightarrow> int \<Rightarrow> 'w event_service \<Rightarrow> int list" where
  "wakeUpTimes managerId now s =
     filter (\<lambda>t. now < t) (concat (map (\<lambda>e. ev_dueAt e # (case ek_retryAt s (ev_id e) of None \<Rightarrow> [] | Some r \<Rightarrow> [r])) (pendingOf managerId (ek_events s))))"

definition armTimerOf :: "'w event_env \<Rightarrow> string \<Rightarrow> 'w event_service \<Rightarrow> 'w event_service" where
  "armTimerOf env managerId s0 =
     (let s = clearTimerOf managerId s0
      in if ek_stopped s then s
         else (let (now, s1) = read_clock env s; times = wakeUpTimes managerId now s1
               in if times = [] then s1
                  else s1\<lparr>ek_timers := (ek_timers s1)(managerId \<mapsto> now + min (Min (set times) - now) MAX_TIMER_DELAY_MS)\<rparr>))"

text \<open>The body of the \<open>try\<close> in \<open>deliver\<close>: the sending, then the settling.\<close>

definition send_event :: "'w event_env \<Rightarrow> scheduled_event \<Rightarrow> 'w event_service \<Rightarrow> bool \<times> 'w event_service" where
  "send_event env e s =
     (let (deliveredAt, s1) = read_clock env s; body = scheduledEventBodyOf (ee_local env) e deliveredAt; (returned, w) = ee_send env (ev_managerId e) body (ek_world s1)
      in (returned, s1\<lparr>ek_world := w, ek_sent := ek_sent s1 @ (if returned then [(ev_id e, ev_managerId e, body)] else [])\<rparr>))"

definition settle_delivered :: "'w event_env \<Rightarrow> string \<Rightarrow> 'w event_service \<Rightarrow> bool \<times> 'w event_service" where
  "settle_delivered env i s =
     (let (now, s1) = read_clock env s; (settled, w) = ee_settle env i (ek_world s1); s2 = s1\<lparr>ek_world := w\<rparr>
      in if settled then (True, s2\<lparr>ek_events := settle_event i Delivered (Some now) (ek_events s2)\<rparr>)
         else (False, s2\<lparr>ek_unrecorded := ek_unrecorded s2 @ [i]\<rparr>))"

definition deliver :: "'w event_env \<Rightarrow> scheduled_event \<Rightarrow> 'w event_service \<Rightarrow> 'w event_service" where
  "deliver env e s =
     (let (returned, s1) = send_event env e s; (settled, s2) = (if returned then settle_delivered env (ev_id e) s1 else (False, s1))
      in if settled then s2\<lparr>ek_retryAt := (ek_retryAt s2)(ev_id e := None)\<rparr>
         else (let (now, s3) = read_clock env s2 in s3\<lparr>ek_retryAt := (ek_retryAt s3)(ev_id e \<mapsto> now + DELIVERY_RETRY_DELAY_MS)\<rparr>))"

definition deliverDueEventsOf :: "'w event_env \<Rightarrow> string \<Rightarrow> 'w event_service \<Rightarrow> 'w event_service" where
  "deliverDueEventsOf env managerId s =
     (if ek_stopped s then s
      else armTimerOf env managerId
             (if canReceiveEvents env managerId s
              then (let (now, s1) = read_clock env s in fold (deliver env) (filter (\<lambda>e. ev_dueAt e \<le> now) (pendingOf managerId (ek_events s1))) s1)
              else s))"

definition start_events :: "'w event_env \<Rightarrow> 'w event_service \<Rightarrow> 'w event_service" where
  "start_events env s = (let s1 = s\<lparr>ek_stopped := False\<rparr> in fold (deliverDueEventsOf env) (managerIdsWithPendingEvents (ek_events s1)) s1)"

definition stop_events :: "'w event_service \<Rightarrow> 'w event_service" where
  "stop_events s = s\<lparr>ek_stopped := True, ek_timers := Map.empty\<rparr>"

definition schedule :: "'w event_env \<Rightarrow> schedule_input \<Rightarrow> 'w event_service \<Rightarrow> schedule_error + scheduled_event \<times> 'w event_service" where
  "schedule env i s =
     and_then (validMessageOf (si_message i)) (\<lambda>message. and_then (validTitleOf (si_title i)) (\<lambda>title.
     and_then (validDueAtOf env (si_at i) (si_inMinutes i) s) (\<lambda>(dueAt, s1).
       if \<not> countPendingOf (si_managerId i) (ek_events s1) < MAX_PENDING_EVENTS_PER_MANAGER then Inl TooManyPending
       else (let (eventId, w) = ee_newId env (ek_world s1); (createdAt, s2) = read_clock env (s1\<lparr>ek_world := w\<rparr>);
                 e = \<lparr>ev_id = eventId, ev_managerId = si_managerId i, ev_creator = si_creator i, ev_title = title, ev_message = message, ev_dueAt = dueAt, ev_status = Pending,
                      ev_createdAt = createdAt, ev_deliveredAt = None\<rparr>
             in and_then (insert_event e (ek_events s2)) (\<lambda>t. Inr (e, armTimerOf env (si_managerId i) (s2\<lparr>ek_events := t\<rparr>)))))))"

definition cancel :: "'w event_env \<Rightarrow> string \<Rightarrow> string \<Rightarrow> event_creator \<Rightarrow> 'w event_service \<Rightarrow> schedule_error + 'w event_service" where
  "cancel env managerId eventId actor s =
     (case get_event eventId (ek_events s) of
        None \<Rightarrow> Inl NoPendingEvent
      | Some e \<Rightarrow>
          if \<not> (ev_managerId e = managerId \<and> ev_status e = Pending) then Inl NoPendingEvent
          else if ev_creator e \<noteq> actor then Inl (OutsideLineage (ev_creator e))
          else Inr (armTimerOf env managerId (s\<lparr>ek_events := settle_event eventId Cancelled None (ek_events s)\<rparr>)))"

section \<open>The calls and the timers in sequence\<close>

text \<open>The two events of the bus come to the same; a timer fires only when it is set. The daemon can die within a pass over the due
  events of a manager, also the passes of a start: after some deliveries, or after the sending of the next event and before its
  settling. A death between two calls is one that cuts a pass before its first delivery.\<close>

datatype event_op =
    ScheduleEvent schedule_input
  | CancelEvent string string event_creator
  | TimerFires string
  | ManagerBack string
  | StartEvents
  | StopEvents
  | NewLife
  | DiesInPass string nat bool
  | DiesInStart nat nat bool

text \<open>A new life of the daemon finds the table and no timer.\<close>

definition new_life :: "'w event_env \<Rightarrow> 'w event_service \<Rightarrow> 'w event_service" where
  "new_life env s = start_events env (s\<lparr>ek_timers := Map.empty, ek_retryAt := Map.empty\<rparr>)"

definition pass_cut :: "'w event_env \<Rightarrow> string \<Rightarrow> nat \<Rightarrow> bool \<Rightarrow> 'w event_service \<Rightarrow> 'w event_service" where
  "pass_cut env managerId n afterSend s =
     (if ek_stopped s \<or> \<not> canReceiveEvents env managerId s then s
      else (let (now, s1) = read_clock env s; due = filter (\<lambda>e. ev_dueAt e \<le> now) (pendingOf managerId (ek_events s1)); s2 = fold (deliver env) (take n due) s1
            in if afterSend \<and> n < length due
               then (let (returned, s3) = send_event env (due ! n) s2 in if returned then s3\<lparr>ek_unrecorded := ek_unrecorded s3 @ [ev_id (due ! n)]\<rparr> else s3)
               else s2))"

text \<open>Of a dead daemon only the table is left.\<close>

definition dies :: "'w event_service \<Rightarrow> 'w event_service" where
  "dies s = s\<lparr>ek_stopped := True, ek_timers := Map.empty, ek_retryAt := Map.empty\<rparr>"

definition start_cut :: "'w event_env \<Rightarrow> nat \<Rightarrow> nat \<Rightarrow> bool \<Rightarrow> 'w event_service \<Rightarrow> 'w event_service" where
  "start_cut env i n afterSend s =
     (let s1 = s\<lparr>ek_timers := Map.empty, ek_retryAt := Map.empty, ek_stopped := False\<rparr>; ms = managerIdsWithPendingEvents (ek_events s1);
          s2 = fold (deliverDueEventsOf env) (take i ms) s1
      in if i < length ms then pass_cut env (ms ! i) n afterSend s2 else s2)"

fun event_call :: "'w event_env \<Rightarrow> event_op \<Rightarrow> 'w event_service \<Rightarrow> schedule_error + 'w event_service" where
  "event_call env (ScheduleEvent i) s = and_then (schedule env i s) (\<lambda>(_, s1). Inr s1)"
| "event_call env (CancelEvent managerId eventId actor) s = cancel env managerId eventId actor s"
| "event_call env (TimerFires managerId) s = Inr (if ek_timers s managerId = None then s else deliverDueEventsOf env managerId s)"
| "event_call env (ManagerBack managerId) s = Inr (deliverDueEventsOf env managerId s)"
| "event_call env StartEvents s = Inr (start_events env s)"
| "event_call env StopEvents s = Inr (stop_events s)"
| "event_call env NewLife s = Inr (new_life env s)"
| "event_call env (DiesInPass managerId n afterSend) s = Inr (dies (pass_cut env managerId n afterSend s))"
| "event_call env (DiesInStart i n afterSend) s = Inr (dies (start_cut env i n afterSend s))"

definition event_step :: "'w event_env \<times> event_op \<Rightarrow> 'w event_service \<Rightarrow> 'w event_service" where
  "event_step call s = (case event_call (fst call) (snd call) s of Inl e \<Rightarrow> s | Inr s1 \<Rightarrow> s1)"

definition event_run :: "('w event_env \<times> event_op) list \<Rightarrow> 'w event_service \<Rightarrow> 'w event_service" where
  "event_run calls s = fold event_step calls s"

definition no_events :: "'w \<Rightarrow> 'w event_service" where
  "no_events w = \<lparr>ek_events = [], ek_timers = Map.empty, ek_retryAt = Map.empty, ek_stopped = False, ek_sent = [], ek_unrecorded = [], ek_world = w\<rparr>"

end
