(* ===== verification/Scheduled_Event_Claims.thy ===== *)
theory Scheduled_Event_Claims
  imports Scheduled_Events Data_Store_Laws
begin

text \<open>
  What the scheduled events promise: a settled event is final; every sending of an event is the one its row records or one whose
  recording was lost, to a death of the daemon or an update that threw; and a pending event has a timer as long as the clock stands
  still within a call. When it moves between the two readings of a pass, an event can be left without one.
\<close>

section \<open>The table\<close>

lemma set_pendingOf [simp]: "e \<in> set (pendingOf m t) \<longleftrightarrow> e \<in> set t \<and> ev_managerId e = m \<and> ev_status e = Pending"
  by (auto simp: pendingOf_def)

lemma distinct_pendingOf: "distinct (map ev_id t) \<Longrightarrow> distinct (map ev_id (pendingOf m t))"
  by (simp add: pendingOf_def distinct_map_filter)

text \<open>A row of the first table is in the second one, the same but for its settling.\<close>

definition event_fixed :: "scheduled_event \<Rightarrow> string \<times> string \<times> event_creator \<times> string option \<times> string \<times> int \<times> int" where
  "event_fixed e = (ev_id e, ev_managerId e, ev_creator e, ev_title e, ev_message e, ev_dueAt e, ev_createdAt e)"

definition events_move :: "event_table \<Rightarrow> event_table \<Rightarrow> bool" where
  "events_move t t' \<longleftrightarrow> (\<forall>i e. get_event i t = Some e \<longrightarrow> (\<exists>e'. get_event i t' = Some e' \<and> event_fixed e' = event_fixed e \<and> (ev_status e \<noteq> Pending \<longrightarrow> e' = e)))"

lemma events_move_refl [simp]: "events_move t t"
  by (simp add: events_move_def)

lemma events_move_trans: "events_move t t1 \<Longrightarrow> events_move t1 t2 \<Longrightarrow> events_move t t2"
  unfolding events_move_def by (metis (no_types, lifting))

lemma get_settled:
  "get_event i (settle_event j st d t) = map_option (\<lambda>e. if ev_id e = j \<and> ev_status e = Pending then e\<lparr>ev_status := st, ev_deliveredAt := d\<rparr> else e) (get_event i t)"
  unfolding get_event_def settle_event_def by (induction t) auto

lemma settle_moves: "events_move t (settle_event j st d t)"
  by (auto simp: events_move_def get_settled event_fixed_def)

lemma insert_moves: "events_move t (t @ [e])"
proof -
  have "find P (xs @ ys) = (case find P xs of None \<Rightarrow> find P ys | Some x \<Rightarrow> Some x)" for P :: "scheduled_event \<Rightarrow> bool" and xs ys by (induction xs) simp_all
  then show ?thesis by (simp add: events_move_def get_event_def)
qed

lemma get_event_in: "distinct (map ev_id t) \<Longrightarrow> e \<in> set t \<Longrightarrow> get_event (ev_id e) t = Some e"
  by (induction t) (auto simp: get_event_def image_iff)

lemma map_settle [simp]: "map ev_id (settle_event j st d t) = map ev_id t"
  by (simp add: settle_event_def)

section \<open>The state\<close>

definition sent_ids :: "'w event_service \<Rightarrow> string list" where
  "sent_ids s = map fst (ek_sent s)"

text \<open>Each sending of an event is recorded by its row or was lost to it.\<close>

definition sendings_match :: "'w event_service \<Rightarrow> string \<Rightarrow> bool" where
  "sendings_match s i \<longleftrightarrow> count_list (sent_ids s) i = count_list (ek_unrecorded s) i + (if \<exists>e \<in> set (ek_events s). ev_id e = i \<and> ev_status e = Delivered then 1 else 0)"

definition events_ok :: "'w event_service \<Rightarrow> bool" where
  "events_ok s \<longleftrightarrow> distinct (map ev_id (ek_events s)) \<and> (\<forall>i. sendings_match s i) \<and> (\<forall>m. countPendingOf m (ek_events s) \<le> MAX_PENDING_EVENTS_PER_MANAGER)"

definition same_record :: "'w event_service \<Rightarrow> 'w event_service \<Rightarrow> bool" where
  "same_record s s' \<longleftrightarrow> ek_events s' = ek_events s \<and> ek_sent s' = ek_sent s \<and> ek_unrecorded s' = ek_unrecorded s"

lemma same_record_ok: "same_record s s' \<Longrightarrow> events_ok s' = events_ok s"
  by (simp add: same_record_def events_ok_def sendings_match_def sent_ids_def)

lemma read_clock_same: "read_clock env s = (now, s1) \<Longrightarrow> same_record s s1 \<and> ek_timers s1 = ek_timers s \<and> ek_retryAt s1 = ek_retryAt s \<and> ek_stopped s1 = ek_stopped s"
  by (auto simp: read_clock_def same_record_def split: prod.splits)

lemma armTimerOf_same: "same_record s (armTimerOf env m s) \<and> ek_stopped (armTimerOf env m s) = ek_stopped s \<and> ek_retryAt (armTimerOf env m s) = ek_retryAt s"
proof -
  obtain now s1 where r: "read_clock env (clearTimerOf m s) = (now, s1)" by fastforce
  from read_clock_same [OF r] r show ?thesis by (auto simp: armTimerOf_def same_record_def clearTimerOf_def Let_def)
qed

lemma count_settled: "countPendingOf m (settle_event j st d t) \<le> countPendingOf m t" if "st \<noteq> Pending"
  using that by (induction t) (auto simp: countPendingOf_def settle_event_def)

lemma send_event_effect:
  assumes "send_event env e s = (returned, s')"
  obtains body where "ek_sent s' = ek_sent s @ (if returned then [(ev_id e, ev_managerId e, body)] else [])" "ek_events s' = ek_events s" "ek_unrecorded s' = ek_unrecorded s"
    "ek_stopped s' = ek_stopped s" "ek_timers s' = ek_timers s" "ek_retryAt s' = ek_retryAt s"
proof -
  obtain d s1 where r: "read_clock env s = (d, s1)" by fastforce
  show ?thesis by (rule that [of "scheduledEventBodyOf (ee_local env) e d"])
      (use assms r read_clock_same [OF r] in \<open>auto simp: send_event_def same_record_def Let_def split: prod.splits\<close>)
qed

lemma settle_delivered_effect:
  assumes "settle_delivered env i s = (settled, s')"
  obtains now where "ek_events s' = (if settled then settle_event i Delivered (Some now) (ek_events s) else ek_events s)" "ek_unrecorded s' = ek_unrecorded s @ (if settled then [] else [i])"
    "ek_sent s' = ek_sent s" "ek_stopped s' = ek_stopped s" "ek_timers s' = ek_timers s" "ek_retryAt s' = ek_retryAt s"
proof -
  obtain now s1 where r: "read_clock env s = (now, s1)" by fastforce
  show ?thesis by (rule that [of now])
      (use assms r read_clock_same [OF r] in \<open>auto simp: settle_delivered_def same_record_def Let_def split: prod.splits if_splits\<close>)
qed

lemma deliver_effect:
  obtains (sent) body now where "ek_events (deliver env e s) = settle_event (ev_id e) Delivered (Some now) (ek_events s)" "ek_sent (deliver env e s) = ek_sent s @ [(ev_id e, ev_managerId e, body)]"
      "ek_unrecorded (deliver env e s) = ek_unrecorded s" "ek_stopped (deliver env e s) = ek_stopped s" "ek_timers (deliver env e s) = ek_timers s"
  | (unsettled) body where "ek_events (deliver env e s) = ek_events s" "ek_sent (deliver env e s) = ek_sent s @ [(ev_id e, ev_managerId e, body)]"
      "ek_unrecorded (deliver env e s) = ek_unrecorded s @ [ev_id e]" "ek_stopped (deliver env e s) = ek_stopped s" "ek_timers (deliver env e s) = ek_timers s"
  | (failed) "same_record s (deliver env e s)" "ek_stopped (deliver env e s) = ek_stopped s" "ek_timers (deliver env e s) = ek_timers s"
proof -
  obtain returned s1 where send: "send_event env e s = (returned, s1)" by fastforce
  obtain settled s2 where settle: "settle_delivered env (ev_id e) s1 = (settled, s2)" by fastforce
  obtain body where s1: "ek_sent s1 = ek_sent s @ (if returned then [(ev_id e, ev_managerId e, body)] else [])" "ek_events s1 = ek_events s" "ek_unrecorded s1 = ek_unrecorded s"
    "ek_stopped s1 = ek_stopped s" "ek_timers s1 = ek_timers s" by (rule send_event_effect [OF send]) blast
  obtain now where s2: "ek_events s2 = (if settled then settle_event (ev_id e) Delivered (Some now) (ek_events s1) else ek_events s1)" "ek_unrecorded s2 = ek_unrecorded s1 @ (if settled then [] else [ev_id e])"
    "ek_sent s2 = ek_sent s1" "ek_stopped s2 = ek_stopped s1" "ek_timers s2 = ek_timers s1" by (rule settle_delivered_effect [OF settle]) blast
  obtain now' s3 where r: "read_clock env (if returned then s2 else s1) = (now', s3)" by fastforce
  note same = read_clock_same [OF r]
  consider "returned" "settled" | "returned" "\<not> settled" | "\<not> returned" by blast
  then show ?thesis
  proof cases
    case 1
    show ?thesis by (rule sent [of now body]) (use 1 send settle s1 s2 in \<open>auto simp: deliver_def\<close>)
  next
    case 2
    show ?thesis by (rule unsettled [of body]) (use 2 send settle s1 s2 r same in \<open>auto simp: deliver_def same_record_def\<close>)
  next
    case 3
    show ?thesis by (rule failed) (use 3 send s1 r same in \<open>auto simp: deliver_def same_record_def\<close>)
  qed
qed

lemma events_ok_lost:
  assumes "events_ok s" "ek_events s' = ek_events s" "ek_sent s' = ek_sent s @ [(i, m, body)]" "ek_unrecorded s' = ek_unrecorded s @ [i]"
  shows "events_ok s'"
  using assms by (simp add: events_ok_def sendings_match_def sent_ids_def)

lemma deliver_ok:
  assumes ok: "events_ok s" and e: "e \<in> set (ek_events s)" "ev_status e = Pending"
  shows "events_ok (deliver env e s)"
proof (cases rule: deliver_effect [of env e s])
  case (sent body now)
  let ?t = "ek_events s" and ?t' = "ek_events (deliver env e s)"
  have "inj_on ev_id (set ?t)" using ok by (simp add: events_ok_def distinct_map)
  then have only: "x = e" if "x \<in> set ?t" "ev_id x = ev_id e" for x using inj_onD [of ev_id "set ?t" x e] e(1) that by blast
  have before: "\<not> (\<exists>x \<in> set ?t. ev_id x = ev_id e \<and> ev_status x = Delivered)" using only e(2) by fastforce
  have after: "\<exists>x \<in> set ?t'. ev_id x = ev_id e \<and> ev_status x = Delivered" unfolding sent(1)
    by (rule bexI [of _ "e\<lparr>ev_status := Delivered, ev_deliveredAt := Some now\<rparr>"]) (use e in \<open>auto simp: settle_event_def image_iff intro!: bexI [of _ e]\<close>)
  have others: "(\<exists>x \<in> set ?t'. ev_id x = i \<and> ev_status x = Delivered) \<longleftrightarrow> (\<exists>x \<in> set ?t. ev_id x = i \<and> ev_status x = Delivered)" if "i \<noteq> ev_id e" for i
    using that unfolding sent(1) settle_event_def by auto
  have "sendings_match (deliver env e s) i" for i
  proof (cases "i = ev_id e")
    case True
    have "sendings_match s (ev_id e)" using ok by (simp add: events_ok_def)
    then show ?thesis using before after True sent(2,3) by (simp add: sendings_match_def sent_ids_def)
  next
    case False
    have "sendings_match s i" using ok by (simp add: events_ok_def)
    then show ?thesis using others [OF False] False sent(2,3) by (simp add: sendings_match_def sent_ids_def)
  qed
  moreover have "countPendingOf m ?t' \<le> MAX_PENDING_EVENTS_PER_MANAGER" for m
  proof -
    have "countPendingOf m ?t' \<le> countPendingOf m ?t" unfolding sent(1) by (rule count_settled) simp
    also have "\<dots> \<le> MAX_PENDING_EVENTS_PER_MANAGER" using ok by (simp add: events_ok_def)
    finally show ?thesis .
  qed
  moreover have "map ev_id ?t' = map ev_id ?t" using sent(1) by simp
  ultimately show ?thesis using ok by (simp add: events_ok_def)
next
  case (unsettled body)
  then show ?thesis using events_ok_lost [OF ok] by blast
next
  case failed
  then show ?thesis using ok same_record_ok by blast
qed

lemma deliver_moves: "events_move (ek_events s) (ek_events (deliver env e s))"
  by (cases rule: deliver_effect [of env e s]) (simp_all add: settle_moves same_record_def)

lemma deliver_others: "x \<in> set (ek_events s) \<Longrightarrow> ev_id x \<noteq> ev_id e \<Longrightarrow> x \<in> set (ek_events (deliver env e s))"
  by (cases rule: deliver_effect [of env e s]) (auto simp: settle_event_def same_record_def image_iff intro!: bexI [of _ x])

lemma deliver_all_ok:
  assumes "events_ok s" "set es \<subseteq> {e \<in> set (ek_events s). ev_status e = Pending}" "distinct (map ev_id es)"
  shows "events_ok (fold (deliver env) es s) \<and> events_move (ek_events s) (ek_events (fold (deliver env) es s)) \<and> ek_stopped (fold (deliver env) es s) = ek_stopped s"
  using assms
proof (induction es arbitrary: s)
  case (Cons e es)
  have ok: "events_ok (deliver env e s)" by (rule deliver_ok) (use Cons.prems in simp_all)
  have "set es \<subseteq> {x \<in> set (ek_events (deliver env e s)). ev_status x = Pending}" 
  proof
    fix x assume "x \<in> set es"
    then have "x \<in> set (ek_events s)" "ev_status x = Pending" "ev_id x \<noteq> ev_id e" using Cons.prems(2,3) by (auto simp: image_iff)
    then show "x \<in> {x \<in> set (ek_events (deliver env e s)). ev_status x = Pending}" using deliver_others by blast
  qed
  then have "events_ok (fold (deliver env) es (deliver env e s)) \<and> events_move (ek_events (deliver env e s)) (ek_events (fold (deliver env) es (deliver env e s)))
      \<and> ek_stopped (fold (deliver env) es (deliver env e s)) = ek_stopped (deliver env e s)"
    using Cons.IH [OF ok] Cons.prems(3) by simp
  moreover have "ek_stopped (deliver env e s) = ek_stopped s" by (cases rule: deliver_effect [of env e s]) simp_all
  ultimately show ?case using events_move_trans [OF deliver_moves] by fastforce
qed simp

definition event_step_ok :: "'w event_service \<Rightarrow> 'w event_service \<Rightarrow> bool" where
  "event_step_ok s s' \<longleftrightarrow> events_ok s' \<and> events_move (ek_events s) (ek_events s')"

lemma step_ok_same: "events_ok s \<Longrightarrow> same_record s s' \<Longrightarrow> event_step_ok s s'"
  by (simp add: event_step_ok_def same_record_ok) (simp add: same_record_def)

lemma step_ok_trans: "event_step_ok s s1 \<Longrightarrow> event_step_ok s1 s2 \<Longrightarrow> event_step_ok s s2"
  unfolding event_step_ok_def using events_move_trans by blast

lemma pass_ok:
  assumes "events_ok s"
  shows "event_step_ok s (deliverDueEventsOf env m s)"
proof -
  obtain now s1 where r: "read_clock env s = (now, s1)" by fastforce
  note same = read_clock_same [OF r]
  have ok1: "events_ok s1" using same_record_ok same assms by blast
  let ?es = "filter (\<lambda>e. ev_dueAt e \<le> now) (pendingOf m (ek_events s1))"
  have sub: "set ?es \<subseteq> {e \<in> set (ek_events s1). ev_status e = Pending}" by auto
  have "distinct (map ev_id ?es)" using ok1 by (simp add: events_ok_def distinct_pendingOf distinct_map_filter)
  from deliver_all_ok [OF ok1 sub this, of env] have "event_step_ok s1 (fold (deliver env) ?es s1)" by (simp add: event_step_ok_def)
  then have sent: "event_step_ok s (fold (deliver env) ?es s1)" using step_ok_trans [OF step_ok_same [OF assms]] same by blast
  have arm: "event_step_ok x (armTimerOf env m x)" if "events_ok x" for x using step_ok_same [OF that] armTimerOf_same by blast
  show ?thesis
  proof (cases "ek_stopped s \<or> \<not> canReceiveEvents env m s")
    case True
    then show ?thesis using arm [OF assms] assms by (auto simp: deliverDueEventsOf_def event_step_ok_def)
  next
    case False
    then have "deliverDueEventsOf env m s = armTimerOf env m (fold (deliver env) ?es s1)" using r by (simp add: deliverDueEventsOf_def)
    then show ?thesis using step_ok_trans [OF sent arm] sent by (simp add: event_step_ok_def)
  qed
qed

lemma cut_pass_ok:
  assumes "events_ok s"
  shows "event_step_ok s (pass_cut env m n b s)"
proof -
  obtain now s1 where r: "read_clock env s = (now, s1)" by fastforce
  have ok1: "events_ok s1" and events: "ek_events s1 = ek_events s" using same_record_ok read_clock_same [OF r] assms by (auto simp: same_record_def)
  define due where "due = filter (\<lambda>e. ev_dueAt e \<le> now) (pendingOf m (ek_events s1))"
  define s2 where "s2 = fold (deliver env) (take n due) s1"
  obtain returned s3 where send: "send_event env (due ! n) s2 = (returned, s3)" by fastforce
  have "set (take n due) \<subseteq> {e \<in> set (ek_events s1). ev_status e = Pending}" by (auto simp: due_def dest!: in_set_takeD)
  moreover have "distinct (map ev_id (take n due))" using ok1 by (simp add: due_def events_ok_def distinct_pendingOf distinct_map_filter flip: take_map)
  ultimately have s2: "event_step_ok s s2" using deliver_all_ok [OF ok1, of "take n due" env] events by (simp add: event_step_ok_def s2_def)
  obtain body where s3: "ek_sent s3 = ek_sent s2 @ (if returned then [(ev_id (due ! n), ev_managerId (due ! n), body)] else [])" "ek_events s3 = ek_events s2" "ek_unrecorded s3 = ek_unrecorded s2"
    by (rule send_event_effect [OF send]) blast
  have "event_step_ok s2 (if returned then s3\<lparr>ek_unrecorded := ek_unrecorded s3 @ [ev_id (due ! n)]\<rparr> else s3)"
  proof (cases returned)
    case True
    have "events_ok (s3\<lparr>ek_unrecorded := ek_unrecorded s3 @ [ev_id (due ! n)]\<rparr>)" by (rule events_ok_lost [of s2]) (use s2 s3 True in \<open>simp_all add: event_step_ok_def\<close>)
    then show ?thesis using True s3 by (simp add: event_step_ok_def)
  next
    case False
    then have "same_record s2 s3" using s3 by (simp add: same_record_def)
    then have "event_step_ok s2 s3" by (rule step_ok_same [rotated]) (use s2 in \<open>simp add: event_step_ok_def\<close>)
    then show ?thesis using False by simp
  qed
  then have lost: "event_step_ok s (if returned then s3\<lparr>ek_unrecorded := ek_unrecorded s3 @ [ev_id (due ! n)]\<rparr> else s3)" by (rule step_ok_trans [OF s2])
  have "pass_cut env m n b s = (if ek_stopped s \<or> \<not> canReceiveEvents env m s then s else if b \<and> n < length due then (if returned then s3\<lparr>ek_unrecorded := ek_unrecorded s3 @ [ev_id (due ! n)]\<rparr> else s3) else s2)"
    unfolding pass_cut_def r due_def s2_def using send [unfolded due_def s2_def] by (simp add: Let_def)
  then show ?thesis using lost s2 step_ok_same [OF assms, of s] by (simp add: same_record_def)
qed

lemma passes_ok: "events_ok s \<Longrightarrow> event_step_ok s (fold (deliverDueEventsOf env) ms s)"
proof (induction ms arbitrary: s)
  case (Cons m ms)
  have "event_step_ok s (deliverDueEventsOf env m s)" by (rule pass_ok [OF Cons.prems])
  moreover from this have "event_step_ok (deliverDueEventsOf env m s) (fold (deliverDueEventsOf env) ms (deliverDueEventsOf env m s))"
    using Cons.IH by (simp add: event_step_ok_def)
  ultimately show ?case using step_ok_trans by (metis fold_simps(2))
qed (simp add: event_step_ok_def)

lemma start_events_ok: "events_ok s \<Longrightarrow> event_step_ok s (start_events env s)"
  using passes_ok [of "s\<lparr>ek_stopped := False\<rparr>" env] by (simp add: start_events_def Let_def event_step_ok_def events_ok_def sendings_match_def sent_ids_def)

lemma dies_ok: "event_step_ok s (dies s') \<longleftrightarrow> event_step_ok s s'"
  by (simp add: dies_def event_step_ok_def events_ok_def sendings_match_def sent_ids_def)

lemma start_cut_ok:
  assumes "events_ok s"
  shows "event_step_ok s (start_cut env i n b s)"
proof -
  let ?s = "s\<lparr>ek_timers := Map.empty, ek_retryAt := Map.empty, ek_stopped := False\<rparr>" and ?ms = "managerIdsWithPendingEvents (ek_events s)"
  have "same_record s ?s" by (simp add: same_record_def)
  then have "event_step_ok s ?s" by (rule step_ok_same [OF assms])
  moreover from this have "event_step_ok ?s (fold (deliverDueEventsOf env) (take i ?ms) ?s)" by (intro passes_ok) (simp add: event_step_ok_def)
  ultimately have some: "event_step_ok s (fold (deliverDueEventsOf env) (take i ?ms) ?s)" by (rule step_ok_trans)
  then have "event_step_ok s (pass_cut env (?ms ! i) n b (fold (deliverDueEventsOf env) (take i ?ms) ?s))" using step_ok_trans [OF some cut_pass_ok] by (simp add: event_step_ok_def)
  then show ?thesis using some by (simp add: start_cut_def Let_def del: take_all)
qed

lemma validDueAtOf_same: "validDueAtOf env a i s = Inr (due, s1) \<Longrightarrow> same_record s s1 \<and> ek_timers s1 = ek_timers s \<and> ek_stopped s1 = ek_stopped s \<and> ek_retryAt s1 = ek_retryAt s"
proof -
  assume v: "validDueAtOf env a i s = Inr (due, s1)"
  obtain now s' where r: "read_clock env s = (now, s')" by fastforce
  then have "s1 = s'" using v by (auto simp: validDueAtOf_def split: if_splits)
  then show ?thesis using read_clock_same [OF r] by simp
qed

lemma schedule_effect:
  assumes "schedule env i s = Inr (e, s')"
  obtains s1 where "s' = armTimerOf env (ev_managerId e) s1" "ek_events s1 = ek_events s @ [e]" "ek_sent s1 = ek_sent s" "ek_unrecorded s1 = ek_unrecorded s" "ek_timers s1 = ek_timers s" "ek_stopped s1 = ek_stopped s"
    "ev_id e \<notin> ev_id ` set (ek_events s)" "ev_status e = Pending" "countPendingOf (ev_managerId e) (ek_events s) < MAX_PENDING_EVENTS_PER_MANAGER" "ev_managerId e = si_managerId i" "ek_retryAt s1 = ek_retryAt s"
proof -
  obtain message title due s1 where v: "validDueAtOf env (si_at i) (si_inMinutes i) s = Inr (due, s1)" "validMessageOf (si_message i) = Inr message" "validTitleOf (si_title i) = Inr title"
    and room: "countPendingOf (si_managerId i) (ek_events s1) < MAX_PENDING_EVENTS_PER_MANAGER"
    using assms by (auto simp: schedule_def split: if_splits)
  obtain eventId w where n: "ee_newId env (ek_world s1) = (eventId, w)" by fastforce
  obtain createdAt s2 where r: "read_clock env (s1\<lparr>ek_world := w\<rparr>) = (createdAt, s2)" by fastforce
  note same = validDueAtOf_same [OF v(1)] read_clock_same [OF r]
  have new: "eventId \<notin> ev_id ` set (ek_events s2)" and e: "e = \<lparr>ev_id = eventId, ev_managerId = si_managerId i, ev_creator = si_creator i, ev_title = title, ev_message = message, ev_dueAt = due, ev_status = Pending,
      ev_createdAt = createdAt, ev_deliveredAt = None\<rparr>" and s': "s' = armTimerOf env (si_managerId i) (s2\<lparr>ek_events := ek_events s2 @ [e]\<rparr>)"
    using assms v room n r by (auto simp: schedule_def insert_event_def Let_def split: if_splits)
  show ?thesis by (rule that [of "s2\<lparr>ek_events := ek_events s2 @ [e]\<rparr>"]) (use e s' same new room in \<open>auto simp: same_record_def\<close>)
qed

lemma schedule_ok:
  assumes "events_ok s" "schedule env i s = Inr (e, s')"
  shows "event_step_ok s s'"
proof -
  obtain s1 where s': "s' = armTimerOf env (ev_managerId e) s1" and t: "ek_events s1 = ek_events s @ [e]" "ek_sent s1 = ek_sent s" "ek_unrecorded s1 = ek_unrecorded s"
    and e: "ev_id e \<notin> ev_id ` set (ek_events s)" "ev_status e = Pending" "countPendingOf (ev_managerId e) (ek_events s) < MAX_PENDING_EVENTS_PER_MANAGER"
    using schedule_effect [OF assms(2)] by metis
  have "countPendingOf m (ek_events s1) \<le> MAX_PENDING_EVENTS_PER_MANAGER" for m
    using assms(1) e(2,3) by (auto simp: events_ok_def countPendingOf_def t)
  then have "events_ok s1" using assms(1) e(1,2) by (auto simp: events_ok_def sendings_match_def t sent_ids_def)
  then have "event_step_ok s s1" by (simp add: event_step_ok_def t insert_moves)
  moreover have "event_step_ok s1 s'" unfolding s' using step_ok_same [OF \<open>events_ok s1\<close>] armTimerOf_same by blast
  ultimately show ?thesis by (rule step_ok_trans)
qed

lemma cancelled_delivered: "(\<exists>x \<in> set (settle_event j Cancelled d t). ev_id x = i \<and> ev_status x = Delivered) \<longleftrightarrow> (\<exists>x \<in> set t. ev_id x = i \<and> ev_status x = Delivered)"
  by (auto simp: settle_event_def)

lemma cancel_ok:
  assumes "events_ok s" "cancel env m i actor s = Inr s'"
  shows "event_step_ok s s'"
proof -
  let ?s = "s\<lparr>ek_events := settle_event i Cancelled None (ek_events s)\<rparr>"
  have s': "s' = armTimerOf env m ?s" using assms(2) by (auto simp: cancel_def split: option.splits if_splits)
  have "countPendingOf m (ek_events ?s) \<le> MAX_PENDING_EVENTS_PER_MANAGER" for m
    using count_settled [of Cancelled m i None "ek_events s"] assms(1) unfolding events_ok_def by (fastforce intro: le_trans)
  then have ok: "events_ok ?s" using assms(1) by (simp add: events_ok_def sendings_match_def sent_ids_def cancelled_delivered)
  then have "event_step_ok s ?s" by (simp add: event_step_ok_def settle_moves)
  moreover have "event_step_ok ?s s'" unfolding s' using step_ok_same [OF ok] armTimerOf_same by blast
  ultimately show ?thesis by (rule step_ok_trans)
qed

lemma event_call_ok:
  assumes "events_ok s" "event_call env op s = Inr s'"
  shows "event_step_ok s s'"
proof (cases op)
  case (ScheduleEvent i)
  then show ?thesis using assms schedule_ok by auto
next
  case (CancelEvent m i a)
  then show ?thesis using assms cancel_ok by auto
next
  case (TimerFires m)
  then show ?thesis using assms pass_ok [OF assms(1), of env m] by (auto simp: event_step_ok_def)
next
  case (ManagerBack m)
  then show ?thesis using assms pass_ok by auto
next
  case StartEvents
  then show ?thesis using assms start_events_ok by auto
next
  case StopEvents
  then have "same_record s s'" using assms(2) by (auto simp: stop_events_def same_record_def)
  then show ?thesis by (rule step_ok_same [OF assms(1)])
next
  case NewLife
  have "events_ok (s\<lparr>ek_timers := Map.empty, ek_retryAt := Map.empty\<rparr>)" using assms(1) by (simp add: events_ok_def sendings_match_def sent_ids_def)
  from start_events_ok [OF this, of env] show ?thesis using assms(2) NewLife by (auto simp: new_life_def event_step_ok_def)
next
  case (DiesInPass m n b)
  then show ?thesis using assms cut_pass_ok by (auto simp: dies_ok)
next
  case (DiesInStart i n b)
  then show ?thesis using assms start_cut_ok by (auto simp: dies_ok)
qed

lemma event_step_both: "events_ok s \<Longrightarrow> event_step_ok s (event_step call s)"
  using event_call_ok [of s "fst call" "snd call"] by (cases "event_call (fst call) (snd call) s") (simp_all add: event_step_def event_step_ok_def)

interpretation event_calls: tracked_by_steps events_ok event_step "\<lambda>s s'. events_move (ek_events s) (ek_events s')"
  by unfold_locales (use event_step_both events_move_trans in \<open>auto simp: event_step_ok_def\<close>)

lemma event_run_ok: "events_ok s \<Longrightarrow> event_step_ok s (event_run calls s)"
  unfolding event_run_def event_step_ok_def by (simp add: event_calls.run_kept event_calls.run_tracked)

lemma no_events_ok: "events_ok (no_events w)"
  by (simp add: events_ok_def sendings_match_def no_events_def sent_ids_def countPendingOf_def)

text \<open>C30: after any calls, firings of timers, new lives of the daemon and deaths of it in the middle of a delivery, the number of times an
  event was sent is the number of its sendings whose settling did not go through, and one more if it reads as delivered. So an event is
  sent again only when the update of its row was lost, a delivered event is never sent again, and an event that was never lost and is
  not delivered was never sent; and no manager has more than twenty pending events.\<close>

theorem scheduled_events_sent_once:
  "count_list (map fst (ek_sent (event_run calls (no_events w)))) i
     = count_list (ek_unrecorded (event_run calls (no_events w))) i + (if \<exists>e. get_event i (ek_events (event_run calls (no_events w))) = Some e \<and> ev_status e = Delivered then 1 else 0)
   \<and> countPendingOf m (ek_events (event_run calls (no_events w))) \<le> 20"
proof -
  let ?s = "event_run calls (no_events w)"
  have ok: "events_ok ?s" using event_run_ok [OF no_events_ok [of w], of calls] by (simp add: event_step_ok_def)
  have "(\<exists>e \<in> set (ek_events ?s). ev_id e = i \<and> ev_status e = Delivered) \<longleftrightarrow> (\<exists>e. get_event i (ek_events ?s) = Some e \<and> ev_status e = Delivered)"
    using get_event_in [of "ek_events ?s"] ok find_SomeD [of "\<lambda>e. ev_id e = i" "ek_events ?s"] unfolding events_ok_def get_event_def by metis
  then show ?thesis using ok by (simp add: events_ok_def sendings_match_def sent_ids_def MAX_PENDING_EVENTS_PER_MANAGER_def)
qed

text \<open>The life of an event, ranked by whether it is settled.\<close>

definition event_entry :: "'w event_service \<Rightarrow> string \<Rightarrow> scheduled_event option" where
  "event_entry s i = (if events_ok s then get_event i (ek_events s) else None)"

definition event_rank :: "scheduled_event \<Rightarrow> nat" where
  "event_rank e = (if ev_status e = Pending then 0 else 1)"

interpretation event_life: one_way event_entry event_rank event_step 1
proof
  fix s :: "'a event_service" and i e and call :: "'a event_env \<times> event_op"
  assume entry: "event_entry s i = Some e"
  then have ok: "events_ok s" and found: "get_event i (ek_events s) = Some e" by (simp_all add: event_entry_def split: if_splits)
  from event_step_both [OF ok, of call] have "events_ok (event_step call s)" "events_move (ek_events s) (ek_events (event_step call s))" by (simp_all add: event_step_ok_def)
  with found obtain e' where e': "event_entry (event_step call s) i = Some e'" "ev_status e \<noteq> Pending \<longrightarrow> e' = e" unfolding events_move_def event_entry_def by auto
  then show "\<exists>e'. event_entry (event_step call s) i = Some e' \<and> event_rank e \<le> event_rank e'" by (auto simp: event_rank_def)
  assume "1 \<le> event_rank e"
  then show "event_entry (event_step call s) i = Some e" using e' by (simp add: event_rank_def split: if_splits)
qed

section \<open>Timers while the clock stands still\<close>

definition at_time :: "int \<Rightarrow> 'w event_env \<Rightarrow> 'w event_env" where
  "at_time now env = env\<lparr>ee_clock := (\<lambda>w. (now, w))\<rparr>"

lemma read_at_time [simp]: "read_clock (at_time now env) s = (now, s)"
  by (simp add: read_clock_def at_time_def)

text \<open>Every event of the managers that is due after an instant has a timer set for its time or before.\<close>

definition watched :: "int \<Rightarrow> string set \<Rightarrow> 'w event_service \<Rightarrow> bool" where
  "watched now ms s \<longleftrightarrow> (\<forall>e \<in> set (ek_events s). ev_status e = Pending \<and> ev_managerId e \<in> ms \<and> now < ev_dueAt e \<longrightarrow> (\<exists>t. ek_timers s (ev_managerId e) = Some t \<and> t \<le> ev_dueAt e))"

lemma watched_later: "watched now ms s \<Longrightarrow> now \<le> now' \<Longrightarrow> watched now' ms s"
  unfolding watched_def by (meson le_less_trans)

lemma arm_watched:
  assumes "watched now ms s" "\<not> ek_stopped s"
  shows "watched now (insert m ms) (armTimerOf (at_time now env) m s)"
proof -
  let ?times = "wakeUpTimes m now (clearTimerOf m s)" and ?s = "armTimerOf (at_time now env) m s"
  have events: "ek_events ?s = ek_events s" using armTimerOf_same [of s "at_time now env" m] by (simp add: same_record_def)
  have timers: "ek_timers ?s = (if ?times = [] then (ek_timers s)(m := None) else (ek_timers s)(m \<mapsto> now + min (Min (set ?times) - now) MAX_TIMER_DELAY_MS))"
    using assms(2) by (auto simp: armTimerOf_def clearTimerOf_def Let_def)
  show ?thesis unfolding watched_def events
  proof (intro ballI impI)
    fix e assume e: "e \<in> set (ek_events s)" "ev_status e = Pending \<and> ev_managerId e \<in> insert m ms \<and> now < ev_dueAt e"
    show "\<exists>t. ek_timers ?s (ev_managerId e) = Some t \<and> t \<le> ev_dueAt e"
    proof (cases "ev_managerId e = m")
      case True
      then have "ev_dueAt e \<in> set ?times" using e by (auto simp: wakeUpTimes_def clearTimerOf_def)
      then have "?times \<noteq> []" "Min (set ?times) \<le> ev_dueAt e" by (auto intro: Min_le)
      then show ?thesis using True timers by simp
    next
      case False
      then show ?thesis using assms(1) e timers unfolding watched_def by (simp add: fun_upd_other)
    qed
  qed
qed

lemma deliver_keeps_watched: "watched now ms s \<Longrightarrow> watched now ms (deliver env e s)"
  by (cases rule: deliver_effect [of env e s]) (auto simp: watched_def settle_event_def same_record_def split: if_splits)

lemma deliver_all_watched: "watched now ms s \<Longrightarrow> watched now ms (fold (deliver env) es s)"
  by (induction es arbitrary: s) (simp_all add: deliver_keeps_watched)

lemma deliver_all_stopped: "ek_stopped (fold (deliver env) es s) = ek_stopped s"
proof (induction es arbitrary: s)
  case (Cons e es)
  have "ek_stopped (deliver env e s) = ek_stopped s" by (cases rule: deliver_effect [of env e s]) simp_all
  then show ?case using Cons by simp
qed simp

lemma pass_watched:
  assumes "watched now ms s" "\<not> ek_stopped s"
  shows "watched now (insert m ms) (deliverDueEventsOf (at_time now env) m s) \<and> \<not> ek_stopped (deliverDueEventsOf (at_time now env) m s)"
proof -
  define s1 where "s1 = (if canReceiveEvents (at_time now env) m s then fold (deliver (at_time now env)) (filter (\<lambda>e. ev_dueAt e \<le> now) (pendingOf m (ek_events s))) s else s)"
  have "watched now ms s1" "\<not> ek_stopped s1" using assms by (simp_all add: s1_def deliver_all_watched deliver_all_stopped)
  moreover have "deliverDueEventsOf (at_time now env) m s = armTimerOf (at_time now env) m s1" using assms(2) by (simp add: deliverDueEventsOf_def s1_def)
  ultimately show ?thesis using arm_watched armTimerOf_same by metis
qed

lemma passes_watched:
  "watched now ms s \<Longrightarrow> \<not> ek_stopped s \<Longrightarrow> watched now (ms \<union> set todo) (fold (deliverDueEventsOf (at_time now env)) todo s)"
proof (induction todo arbitrary: s ms)
  case (Cons m todo)
  from pass_watched [OF Cons.prems, of m env] Cons.IH [of "insert m ms"] show ?case by simp
qed simp

lemma passes_pending:
  assumes "e \<in> set (ek_events (fold (deliverDueEventsOf env) todo s))" "ev_status e = Pending"
  shows "e \<in> set (ek_events s)"
proof -
  have one: "e \<in> set (ek_events s)" if "e \<in> set (ek_events (deliver env x s))" "ev_status e = Pending" for x s
    using that by (cases rule: deliver_effect [of env x s]) (auto simp: settle_event_def same_record_def split: if_splits)
  have all: "e \<in> set (ek_events (fold (deliver env) xs s)) \<Longrightarrow> e \<in> set (ek_events s)" for xs s
  proof (induction xs arbitrary: s)
    case (Cons x xs)
    then show ?case using Cons.IH [of "deliver env x s"] one [of x s] assms(2) by simp
  qed simp
  have pass: "e \<in> set (ek_events s)" if "e \<in> set (ek_events (deliverDueEventsOf env m s))" for m s
  proof -
    obtain now s1 where r: "read_clock env s = (now, s1)" by fastforce
    have arm: "ek_events (armTimerOf env m x) = ek_events x" for x using armTimerOf_same [of x env m] by (simp add: same_record_def)
    have "ek_events s1 = ek_events s" using read_clock_same [OF r] by (simp add: same_record_def)
    then show ?thesis using that all [of "filter (\<lambda>e. ev_dueAt e \<le> now) (pendingOf m (ek_events s1))" s1] r by (simp add: deliverDueEventsOf_def arm split: if_splits)
  qed
  show ?thesis using assms(1)
  proof (induction todo arbitrary: s)
    case (Cons m todo)
    then show ?case using Cons.IH [of "deliverDueEventsOf env m s"] pass [of m s] by simp
  qed simp
qed

lemma start_watched: "watched now UNIV (start_events (at_time now env) s)"
proof -
  let ?s = "s\<lparr>ek_stopped := False\<rparr>" and ?ms = "managerIdsWithPendingEvents (ek_events s)"
  have "watched now {} ?s" by (simp add: watched_def)
  from passes_watched [OF this, of ?ms env] have w: "watched now (set ?ms) (start_events (at_time now env) s)" by (simp add: start_events_def)
  have "ev_managerId e \<in> set ?ms" if "e \<in> set (ek_events (start_events (at_time now env) s))" "ev_status e = Pending" for e
    using passes_pending [of e "at_time now env" ?ms ?s] that by (simp add: start_events_def Let_def managerIdsWithPendingEvents_def)
  then show ?thesis using w unfolding watched_def by blast
qed

lemma event_call_watched:
  assumes w: "\<not> ek_stopped s \<Longrightarrow> watched now UNIV s" and call: "event_call (at_time now env) op s = Inr s'" and running: "\<not> ek_stopped s'"
  shows "watched now UNIV s'"
proof (cases op)
  case (ScheduleEvent i)
  then obtain e where e: "schedule (at_time now env) i s = Inr (e, s')" using call by auto
  obtain s1 where s1: "s' = armTimerOf (at_time now env) (ev_managerId e) s1" "ek_events s1 = ek_events s @ [e]" "ek_timers s1 = ek_timers s" "ek_stopped s1 = ek_stopped s"
    by (rule schedule_effect [OF e]) blast
  have r: "\<not> ek_stopped s" using running s1(1,4) armTimerOf_same [of s1 "at_time now env" "ev_managerId e"] by simp
  then have "watched now (UNIV - {ev_managerId e}) s1" using w s1(2,3) unfolding watched_def by auto
  then have "watched now (insert (ev_managerId e) (UNIV - {ev_managerId e})) s'" unfolding s1(1) by (rule arm_watched) (simp add: r s1(4))
  then show ?thesis by (simp add: insert_Diff_single)
next
  case (CancelEvent m i a)
  let ?s = "s\<lparr>ek_events := settle_event i Cancelled None (ek_events s)\<rparr>"
  have s': "s' = armTimerOf (at_time now env) m ?s" using call CancelEvent by (auto simp: cancel_def split: option.splits if_splits)
  have r: "\<not> ek_stopped s" using running armTimerOf_same [of ?s "at_time now env" m] s' by simp
  then have "watched now UNIV ?s" using w unfolding watched_def by (auto simp: settle_event_def split: if_splits)
  then show ?thesis using arm_watched [of now UNIV ?s m env] r s' by simp
next
  case (TimerFires m)
  show ?thesis
  proof (cases "ek_stopped s")
    case True
    then show ?thesis using call TimerFires running by (simp add: deliverDueEventsOf_def split: if_splits)
  next
    case False
    then show ?thesis using call TimerFires w pass_watched [of now UNIV s m env] by (auto split: if_splits)
  qed
next
  case (ManagerBack m)
  show ?thesis
  proof (cases "ek_stopped s")
    case True
    then show ?thesis using call ManagerBack running by (simp add: deliverDueEventsOf_def split: if_splits)
  next
    case False
    then show ?thesis using call ManagerBack w pass_watched [of now UNIV s m env] by auto
  qed
next
  case StartEvents
  then show ?thesis using call start_watched by auto
next
  case StopEvents
  then show ?thesis using call running by (auto simp: stop_events_def)
next
  case NewLife
  then show ?thesis using call start_watched by (auto simp: new_life_def)
qed (use call running in \<open>auto simp: dies_def\<close>)

lemma run_watched_events:
  assumes "sorted (map fst calls)" "list_all (\<lambda>(now, _, _). now \<le> until) calls" "\<not> ek_stopped (event_run (map (\<lambda>(now, env, op). (at_time now env, op)) calls) (no_events w))"
  shows "watched until UNIV (event_run (map (\<lambda>(now, env, op). (at_time now env, op)) calls) (no_events w))"
  using assms
proof (induction calls arbitrary: until rule: rev_induct)
  case Nil
  then show ?case by (simp add: event_run_def watched_def no_events_def)
next
  case (snoc call calls)
  obtain now env op where call: "call = (now, env, op)" by (cases call) auto
  define s where "s = event_run (map (\<lambda>(now, env, op). (at_time now env, op)) calls) (no_events w)"
  have s': "event_run (map (\<lambda>(now, env, op). (at_time now env, op)) (calls @ [call])) (no_events w) = event_step (at_time now env, op) s" by (simp add: event_run_def s_def call)
  have before: "sorted (map fst calls)" "list_all (\<lambda>(now', _, _). now' \<le> now) calls" using snoc.prems(1) call by (auto simp: sorted_append list_all_iff)
  have w: "watched now UNIV s" if "\<not> ek_stopped s" using that unfolding s_def by (rule snoc.IH [OF before])
  have "watched now UNIV (event_step (at_time now env, op) s)"
    using snoc.prems(3) event_call_watched [OF w] unfolding s' by (auto simp: event_step_def split: sum.splits intro: w)
  then show ?case unfolding s' using watched_later snoc.prems(2) call by auto
qed

text \<open>C32: when the clock stands still within each call, a running service always has a timer for a pending event that is still to come, set
  for its time or before.\<close>

theorem pending_event_has_a_timer:
  assumes "sorted (map fst calls)" "list_all (\<lambda>(now, _, _). now < ev_dueAt e) calls"
    and s: "s = event_run (map (\<lambda>(now, env, op). (at_time now env, op)) calls) (no_events w)" and "\<not> ek_stopped s" "e \<in> set (ek_events s)" "ev_status e = Pending"
  shows "\<exists>t. ek_timers s (ev_managerId e) = Some t \<and> t \<le> ev_dueAt e"
proof -
  have "list_all (\<lambda>(now, _, _). now \<le> ev_dueAt e - 1) calls" using assms(2) by (auto simp: list_all_iff)
  from run_watched_events [OF assms(1) this] assms(4-6) show ?thesis by (auto simp: s watched_def)
qed

section \<open>Times in UTC and a concrete service\<close>

definition utc_clock :: local_clock where
  "utc_clock = \<lparr>lc_instant = date_UTC, lc_fields = utc_fields, lc_seconds = (\<lambda>t. t div 1000 mod 60)\<rparr>"

text \<open>A clock that moves by a millisecond whenever it is read, ahead of the world by some time; the manager is open and watching.\<close>

definition ticking :: "int \<Rightarrow> int event_env" where
  "ticking ahead = \<lparr>ee_local = utc_clock, ee_clock = (\<lambda>w. (w + ahead, w + 1)), ee_newId = (\<lambda>w. (replicate (nat w) CHR ''x'', w)), ee_closed = (\<lambda>_ _. Some False),
     ee_manager = (\<lambda>_ m. Some \<lparr>mr_sessionId = m, mr_mode = None, mr_pulseEnabled = None, mr_pulseSeconds = 60\<rparr>), ee_send = (\<lambda>_ _ w. (True, w)), ee_settle = (\<lambda>_ w. (True, w))\<rparr>"

definition reminder :: "rat \<Rightarrow> event_op" where
  "reminder minutes = ScheduleEvent \<lparr>si_managerId = ''m'', si_creator = ByManager, si_message = ''look'', si_title = None, si_at = None, si_inMinutes = Some minutes\<rparr>"

text \<open>Two reminders three milliseconds apart; the timer of the first fires on time.\<close>

definition close_calls :: "(int event_env \<times> event_op) list" where
  "close_calls = [(ticking 0, reminder 1), (ticking 0, reminder 1), (ticking 59994, TimerFires ''m'')]"

lemma deliver_all_others: "x \<in> set (ek_events s) \<Longrightarrow> (\<And>e. e \<in> set es \<Longrightarrow> ev_id e \<noteq> ev_id x) \<Longrightarrow> x \<in> set (ek_events (fold (deliver env) es s))"
proof (induction es arbitrary: s)
  case (Cons e es)
  have "x \<in> set (ek_events (deliver env e s))" by (rule deliver_others) (use Cons.prems in force)+
  then show ?case using Cons.IH Cons.prems(2) by simp
qed simp

lemma no_timer_left:
  assumes "later = fst (read_clock env s)"
    and "list_all (\<lambda>x. ev_dueAt x \<le> later \<and> (case ek_retryAt s (ev_id x) of None \<Rightarrow> True | Some r \<Rightarrow> r \<le> later)) (pendingOf m (ek_events s))"
  shows "ek_timers (armTimerOf env m s) m = None"
proof -
  obtain s1 where r: "read_clock env (clearTimerOf m s) = (later, s1)" and same: "ek_events s1 = ek_events s" "ek_retryAt s1 = ek_retryAt s" "ek_timers s1 m = None"
    using assms(1) by (simp add: read_clock_def clearTimerOf_def split: prod.splits)
  have "wakeUpTimes m later s1 = []" using assms(2) by (fastforce simp: wakeUpTimes_def same filter_empty_conv list_all_iff not_less split: option.splits)
  then show ?thesis using r same by (simp add: armTimerOf_def clearTimerOf_def Let_def)
qed

text \<open>C33: a pass over the due events of a manager reads the clock before the deliveries and again to set the next timer. An event that comes
  due between the two readings is not in the pass, and when no other pending event or retry of the manager lies after the second reading no timer
  is set: the event stays pending, although the service runs and the manager receives events, and no timer of the manager is left to fire.\<close>

theorem overdue_event_left_without_timer:
  assumes s: "s = event_run calls (no_events w)" and runs: "\<not> ek_stopped s" "canReceiveEvents env m s" and e: "e \<in> set (pendingOf m (ek_events s))"
    and first: "read_clock env s = (now, s1)" and pass: "s2 = fold (deliver env) (filter (\<lambda>x. ev_dueAt x \<le> now) (pendingOf m (ek_events s1))) s1"
    and second: "now < ev_dueAt e" "ev_dueAt e \<le> later" "later = fst (read_clock env s2)"
    and rest: "list_all (\<lambda>x. ev_dueAt x \<le> later \<and> (case ek_retryAt s2 (ev_id x) of None \<Rightarrow> True | Some r \<Rightarrow> r \<le> later)) (pendingOf m (ek_events s2))"
  shows "e \<in> set (pendingOf m (ek_events (deliverDueEventsOf env m s))) \<and> \<not> ek_stopped (deliverDueEventsOf env m s) \<and> ek_timers (deliverDueEventsOf env m s) m = None
    \<and> event_call env' (TimerFires m) (deliverDueEventsOf env m s) = Inr (deliverDueEventsOf env m s)"
proof -
  let ?due = "filter (\<lambda>x. ev_dueAt x \<le> now) (pendingOf m (ek_events s1))"
  have ok: "events_ok s" using event_run_ok [OF no_events_ok [of w], of calls] by (simp add: s event_step_ok_def)
  note same = read_clock_same [OF first]
  have e1: "e \<in> set (ek_events s1)" using e same by (simp add: same_record_def)
  have "ev_id x \<noteq> ev_id e" if "x \<in> set ?due" for x
  proof
    assume "ev_id x = ev_id e"
    then have "x = e" using get_event_in [of "ek_events s" x] get_event_in [of "ek_events s" e] ok e that same by (simp add: events_ok_def same_record_def)
    then show False using that second(1) by simp
  qed
  then have kept: "e \<in> set (ek_events s2)" unfolding pass using e1 by (intro deliver_all_others) auto
  have running: "\<not> ek_stopped s2" using runs(1) same by (simp add: pass deliver_all_stopped)
  have s': "deliverDueEventsOf env m s = armTimerOf env m s2" using runs first by (simp add: deliverDueEventsOf_def pass)
  have "ek_timers (armTimerOf env m s2) m = None" by (rule no_timer_left [OF second(3) rest])
  moreover have "e \<in> set (pendingOf m (ek_events (armTimerOf env m s2)))" using kept e armTimerOf_same [of s2 env m] by (simp add: same_record_def)
  ultimately show ?thesis unfolding s' using armTimerOf_same [of s2 env m] running by simp
qed

lemma close_reminders_left:
  "(case event_run (take 2 close_calls) (no_events 0) of s \<Rightarrow> case read_clock (ticking 59994) s of (now, s1) \<Rightarrow>
     case fold (deliver (ticking 59994)) (filter (\<lambda>x. ev_dueAt x \<le> now) (pendingOf ''m'' (ek_events s1))) s1 of s2 \<Rightarrow>
     (map (\<lambda>e. (ev_managerId e, ev_dueAt e, ev_status e)) (ek_events s), ek_timers s ''m'', ek_stopped s, canReceiveEvents (ticking 59994) ''m'' s, now, fst (read_clock (ticking 59994) s2),
      map (\<lambda>e. (ev_dueAt e, ek_retryAt s2 (ev_id e))) (pendingOf ''m'' (ek_events s2))))
   = ([(''m'', 60000, Pending), (''m'', 60003, Pending)], Some 60000, False, True, 60000, 60003, [(60003, None)])"
  by code_simp

text \<open>The second of the two reminders is overdue and has no timer.\<close>

theorem overdue_event_left_without_timer_witness:
  "\<exists>e. e \<in> set (pendingOf ''m'' (ek_events (event_run close_calls (no_events 0)))) \<and> ev_dueAt e = 60003 \<and> ek_timers (event_run close_calls (no_events 0)) ''m'' = None"
proof -
  define s where "s = event_run (take 2 close_calls) (no_events 0)"
  obtain now s1 where first: "read_clock (ticking 59994) s = (now, s1)" by fastforce
  define s2 where "s2 = fold (deliver (ticking 59994)) (filter (\<lambda>x. ev_dueAt x \<le> now) (pendingOf ''m'' (ek_events s1))) s1"
  from close_reminders_left first have rows: "map (\<lambda>e. (ev_managerId e, ev_dueAt e, ev_status e)) (ek_events s) = [(''m'', 60000, Pending), (''m'', 60003, Pending)]"
    and timer: "ek_timers s ''m'' = Some 60000" and runs: "\<not> ek_stopped s" "canReceiveEvents (ticking 59994) ''m'' s" and now: "now = 60000" and later: "60003 = fst (read_clock (ticking 59994) s2)"
    and left: "map (\<lambda>e. (ev_dueAt e, ek_retryAt s2 (ev_id e))) (pendingOf ''m'' (ek_events s2)) = [(60003, None)]" by (simp_all flip: s_def s2_def)
  from rows obtain a e where "ek_events s = [a, e]" "ev_managerId e = ''m''" "ev_dueAt e = 60003" "ev_status e = Pending" by (auto simp: map_eq_Cons_conv)
  then have e: "e \<in> set (pendingOf ''m'' (ek_events s))" "now < ev_dueAt e" "ev_dueAt e \<le> 60003" "ev_dueAt e = 60003" by (simp_all add: now)
  have "list_all (\<lambda>x. ev_dueAt x \<le> 60003 \<and> (case ek_retryAt s2 (ev_id x) of None \<Rightarrow> True | Some r \<Rightarrow> r \<le> 60003)) (pendingOf ''m'' (ek_events s2))"
    using left by (auto simp: map_eq_Cons_conv)
  from overdue_event_left_without_timer [OF s_def runs e(1) first s2_def e(2,3) later this]
  have "e \<in> set (pendingOf ''m'' (ek_events (deliverDueEventsOf (ticking 59994) ''m'' s))) \<and> ek_timers (deliverDueEventsOf (ticking 59994) ''m'' s) ''m'' = None" by blast
  moreover have "event_run close_calls (no_events 0) = deliverDueEventsOf (ticking 59994) ''m'' s" using timer by (simp add: s_def event_run_def close_calls_def event_step_def)
  ultimately show ?thesis using e(4) by (intro exI [of _ e]) simp
qed

text \<open>A daemon that dies between the sending of a reminder and the settling of its row sends it again in its next life.\<close>

lemma lost_settling_sends_again:
  "map fst (ek_sent (event_run [(ticking 0, reminder 1), (ticking 60000, DiesInPass ''m'' 0 True), (ticking 60000, NewLife)] (no_events 0))) = [''x'', ''x'']"
  by code_simp

definition one_reminder :: "(int \<times> int event_env \<times> event_op) list" where
  "one_reminder = [(5, ticking 0, reminder 1)]"

lemma one_reminder_left:
  "(case event_run (map (\<lambda>(now, env, op). (at_time now env, op)) one_reminder) (no_events 0) of s \<Rightarrow> (map (\<lambda>e. (ev_managerId e, ev_dueAt e, ev_status e)) (ek_events s), ek_stopped s)) = ([(''m'', 60005, Pending)], False)"
  by code_simp

theorem pending_event_has_a_timer_witness:
  "\<exists>t. ek_timers (event_run (map (\<lambda>(now, env, op). (at_time now env, op)) one_reminder) (no_events 0)) ''m'' = Some t \<and> t \<le> 60005"
proof -
  let ?s = "event_run (map (\<lambda>(now, env, op). (at_time now env, op)) one_reminder) (no_events (0 :: int))"
  from one_reminder_left have rows: "map (\<lambda>e. (ev_managerId e, ev_dueAt e, ev_status e)) (ek_events ?s) = [(''m'', 60005, Pending)]" and running: "\<not> ek_stopped ?s" by simp_all
  from rows obtain e where e: "ek_events ?s = [e]" "ev_managerId e = ''m''" "ev_dueAt e = 60005" "ev_status e = Pending" by (auto simp: map_eq_Cons_conv)
  from pending_event_has_a_timer [of one_reminder e ?s 0] e running show ?thesis by (simp add: one_reminder_def)
qed

text \<open>A minute above 59 is read as one of the next hour.\<close>

lemma minute_75_is_read: "instantOfLocalDateTime utc_clock ''2026-10-31T10:75:00'' = instantOfLocalDateTime utc_clock ''2026-10-31T11:15:00'' \<and> instantOfLocalDateTime utc_clock ''2026-10-31T10:75:00'' \<noteq> None"
  by code_simp

end
