(* ===== verification/Spec2Isabelle.thy ===== *)
theory Spec2Isabelle
  imports Session_State Command_Policy Cron_Source Governance Escalation_Claims Arbiter_Claims Data_Store_Claims Scheduled_Event_Claims
begin

text \<open>
  OpenFleet is a daemon that runs a fleet of coding agents: it starts their sessions, follows their state through the hooks
  the agent's command line sends, types messages into them, judges the shell commands they want to run, lets managers file
  proposals a human answers, takes the questions of their plans to an arbiter or to a human, keeps tables of data, sends the reminders a
  manager asked for, and fires triggers. This library models the parts of \<^verbatim>\<open>src/packages/core/src\<close> (below: \<^verbatim>\<open>core\<close>) and \<^verbatim>\<open>src/packages/shared/src\<close> (below: \<^verbatim>\<open>shared\<close>) that carry its logic. Definitions keep the names of the source.

  \<^bold>\<open>Conventions.\<close> A text is the list of its UTF-8 bytes and an instant a number of milliseconds (\<open>Fleet_Prelude\<close>). A table of
  the database is the list of its rows in rowid order, and an \<^verbatim>\<open>ORDER BY\<close> a stable sort of it. A throw is an \<open>Inl\<close>, a
  transaction that throws changes nothing. The clock, new ids, digests, Unicode classes, the file system and the outside
  effects are arguments; where an operation reads them in the middle of its work, they are functions of a world the state
  carries.

  \<^bold>\<open>Sessions.\<close> \<open>Session_State\<close> has the state machine of a session (\<^verbatim>\<open>core/sessions/stateMachine.ts\<close>), the notifications its
  transitions raise (\<^verbatim>\<open>notificationTriggers.ts\<close>) and the ledger that announces a tool run once (\<^verbatim>\<open>toolCompletionLedger.ts\<close>).
  \<open>Message_Queue\<close> has the envelope of a message between agents (\<^verbatim>\<open>messageEnvelope.ts\<close>, \<^verbatim>\<open>daemonLines.ts\<close>), the queue table
  (\<^verbatim>\<open>messageQueue.ts\<close>) and the reconciler that decides whether a submitted message was taken (\<^verbatim>\<open>deliveryReconciler.ts\<close>).
  Shown: a session closes exactly by an ending input; it is deliverable only after its turn ended; a run is announced once;
  unwrapping undoes wrapping and no sender can forge an envelope, of an agent or of a trigger; messages are typed in order; a message is redelivered once.

  \<^bold>\<open>Commands.\<close> \<open>Shell_Scanner\<close> reads a command line into tokens (\<^verbatim>\<open>core/policy/shellScanner.ts\<close>), \<open>Command_Analyzer\<close> turns the
  tokens into the commands that would run, the nested ones too (\<^verbatim>\<open>commandAnalyzer.ts\<close>), \<open>Path_Glob\<close> matches paths
  (\<^verbatim>\<open>pathGlob.ts\<close>), \<open>Read_Only_Access\<close> vouches for plain reads and sed scripts (\<^verbatim>\<open>readOnlyAccess.ts\<close>, \<^verbatim>\<open>sedScript.ts\<close>),
  \<open>Text_Patterns\<close> gives the regular expressions the policy uses with a matcher proved exact, \<open>File_Writes\<close> finds the files a
  command writes (\<^verbatim>\<open>shellFileWrites.ts\<close>), \<open>Declared_Commands\<close> checks the arguments of the commands a project declared
  (\<^verbatim>\<open>declaredCommands.ts\<close>), and \<open>Command_Policy\<close> composes them (\<^verbatim>\<open>commandPredicates.ts\<close>, \<^verbatim>\<open>policyEvaluator.ts\<close>). Shown: quoting
  and here-documents round-trip through the scanner; the analysis stays within its limits and its fuel, the nesting limit of
  the code, is enough; a path is vouched for exactly when it leads under a root in a tree of folders without links, and vouched
  arguments stay inside the worktree; under an enforcing policy with a rule against it, a write of \<open>tee\<close> outside the allowed folders
  through up to five shells one in another is never allowed; the first refusing rule wins; text the scanner could not read whole is
  never vouched for; and three kinds of arguments are vouched for without being judged.

  \<^bold>\<open>Triggers.\<close> \<open>Kernel_Json\<close> has the JSON values of the kernel, their canonical text and the conditions over them
  (\<^verbatim>\<open>core/playbooks/kernel\<close>), \<open>Trigger_Store\<close> the triggers and their arming (\<^verbatim>\<open>core/triggers/triggerRepository.ts\<close>,
  \<^verbatim>\<open>triggerService.ts\<close>), \<open>Fire_Ledger\<close> the table of fires and its purge (\<^verbatim>\<open>fireLedger.ts\<close>, \<^verbatim>\<open>fireRetention.ts\<close>),
  \<open>Trigger_Engine\<close> the engine, its breaker and its policy (\<^verbatim>\<open>triggerEngine.ts\<close>, \<^verbatim>\<open>fireBreaker.ts\<close>, \<^verbatim>\<open>firePolicy.ts\<close>) and the lives
  of a daemon, crashes and restarts included, as an inductive step relation. \<open>Civil_Calendar\<close> has the dates of the language,
  \<open>Cron_Schedule\<close> the cron expressions (\<^verbatim>\<open>shared/cronExpression.ts\<close>), \<open>Cron_Calendar\<close> the slots of a schedule in a time zone
  (\<^verbatim>\<open>core/triggers/cronCalendar.ts\<close>) and \<open>Cron_Source\<close> the timer that offers them to the engine with its cursors
  (\<^verbatim>\<open>cronSource.ts\<close>, \<^verbatim>\<open>triggerCursors.ts\<close>). Shown: two values have the same canonical text
  exactly when they are equal; an armed trigger is as a human approved it; no effect is performed twice in any life; at most
  thirty start in a minute; a settled fire stays settled; the purge forgets exactly what it should; the next slot is the first
  one after an instant, every accepted expression has one, a wake offers every live slot (both in a zone with a fixed offset) and a
  cursor never moves back.

  \<^bold>\<open>Governance.\<close> \<open>Governance\<close> has the proposals of the managers, their waiting list, the grants and the laws
  (\<^verbatim>\<open>core/governance/governanceQueueService.ts\<close> and its repositories). Shown over any calls, failing ones included: the places
  of a manager are bounded, filled in order and without twins; no law and no grant without an approval; no edit of a law is
  lost and a withdrawn law is final.

  \<^bold>\<open>Working states and escalations.\<close> \<open>Human_Text\<close> has the cleaning of texts and of reproduction claims
  (\<^verbatim>\<open>core/governance/visibleText.ts\<close>, \<^verbatim>\<open>core/review/sanitizedReproClaim.ts\<close>, \<^verbatim>\<open>shared/isBlankText.ts\<close>), \<open>Working_State\<close> the state
  a session keeps, its mirror file and the refusal of a stop (\<^verbatim>\<open>core/workingState\<close>), \<open>Question_Routing\<close> the floor classes and
  the route of a question (\<^verbatim>\<open>core/escalation/floorClasses.ts\<close>, \<^verbatim>\<open>questionRouting.ts\<close>), \<open>Escalation_Store\<close> the tables of the
  ladder (\<^verbatim>\<open>escalationRepository.ts\<close>, \<^verbatim>\<open>escalationBody.ts\<close>), \<open>Escalations\<close> its service (\<^verbatim>\<open>escalationService.ts\<close>,
  \<^verbatim>\<open>auditWriter.ts\<close>), \<open>Escalation_Laws\<close> the calls of the service as steps with the invariant they keep, and \<open>Escalation_Claims\<close>
  the properties of the ladder. Shown: a stored state satisfies its schema and its mirror text decides it; a turn ends exactly
  with a fresh state; contract and security questions reach a human under any policy; a ticket has one open card and every
  waiting question is on it; a settled question is final; a decision is contested once; an answer settles the whole card; a
  card with more than twenty waiting questions cannot be answered.

  \<^bold>\<open>Arbiters.\<close> \<open>Arbiter_Runs\<close> has the runner of the arbiters (\<^verbatim>\<open>core/escalation/arbiterRunner.ts\<close>) with the tools that drive it
  (\<^verbatim>\<open>core/mcp/escalationTools.ts\<close>, \<^verbatim>\<open>arbiterTools.ts\<close>). Its methods are asynchronous: the state carries the promises they await and
  an event resumes one of them, in any order. \<open>Manager_Records\<close> has the record and the mode of a manager
  (\<^verbatim>\<open>core/managers/managerRepository.ts\<close>). \<open>Arbiter_Claims\<close> shows, over any events: the sessions of arbiters asked for on a ticket stay within the number
  its project allows; after a recovery every open batch has an arbiter that is tracked, awaited or being closed, unless its
  hand-over to the human threw; the questions of a batch whose second arbiter is lost wait for the human on a card.

  \<^bold>\<open>Data stores.\<close> \<open>Data_Stores\<close> has the tables of a project, their typed cells and the history of their rows
  (\<^verbatim>\<open>core/stores/dataStoreRepository.ts\<close>, \<^verbatim>\<open>shared/dataStores.ts\<close>), \<open>Data_Store_Service\<close> the service over them with its queries and
  boards (\<^verbatim>\<open>dataStoreService.ts\<close>, \<^verbatim>\<open>rowGuard.ts\<close>), \<open>Data_Store_Laws\<close> and \<open>Data_Store_Schema\<close> the invariant of the tables and its
  preservation by the calls on rows and by the calls on stores, columns and views, \<open>Data_Store_Claims\<close> what follows. Shown after
  any calls: between two creations of a row a revision names one content of it, so that a guarded update overwrites nothing unread; a natural key names one row; every
  cell has the type of its column; every reference resolves; a board shows every row it should in exactly one lane; a query
  returns exactly the rows its clauses hold for, in the order of its terms, both read independently of the code.

  \<^bold>\<open>Scheduled events.\<close> \<open>Scheduled_Events\<close> has the reminders of the managers, their table and their timers
  (\<^verbatim>\<open>core/managers/scheduledEventService.ts\<close>, \<^verbatim>\<open>scheduledEventRepository.ts\<close>, \<^verbatim>\<open>localDateTime.ts\<close>); \<open>Scheduled_Event_Claims\<close> shows that
  over any calls, timers, restarts and deaths in the middle of a delivery every sending of an event is the one its row records or one
  whose recording was lost; that a pending event has a timer when the clock does not move within a call; and that one which comes due
  between the two readings of a pass is left without one when no later event waits.

  \<^bold>\<open>Interfaces.\<close> \<open>Fleet_Interfaces\<close> states what several components promise: \<open>fifo_mailbox\<close> (interpreted by the message queue
  and by the waiting list of the proposals), \<open>advancing\<close> (the revisions of the laws, the cursors of the cron source) and its
  extension \<open>one_way\<close> (the fire ledger, the life of a law, of a question and of a scheduled event), \<open>kept_by_steps\<close> (an invariant
  every step keeps holds after every run: governance, trigger engine, ladder, arbiters) and its extension
  \<open>tracked_by_steps\<close> (a relation between the states before and after, which composes along a run: data stores, scheduled
  events). \<open>Path_Glob\<close> states the matching loop that returns to the last star as \<open>last_star_loop\<close>, which its own loop and the one of the floor classes interpret.

  \<^bold>\<open>Bounds and termination.\<close> The loops of the scanner, of the purge and of the release are recursive functions with
  termination proofs; the analyser recurses on the nesting limit of the code (\<open>nesting_levels_suffice\<close>: more levels change
  nothing). The limits are those of the source.

  \<^bold>\<open>Not modelled.\<close> The REST, WebSocket and MCP surfaces, the database migrations (so deleting a trigger does not delete its fires here), git, the pseudo-terminals and the import are
  adapters to other programs; the desktop application is user interface; the schemas that parse configuration files and
  request bodies belong to a third-party library, so the model starts from the parsed values. The masking of secrets uses
  regular expressions beyond the pattern theory. The service that starts sessions, the pulses and watchers of the managers, notes, todos, playbooks and the
  trigger sources other than cron are not modelled.
\<close>

end
